(* ===== verification/Prelude.thy ===== *)
theory Prelude imports Main begin

text \<open>
  Shared vocabulary of the development. A SQLite table is the list of its rows in rowid order;
  \<open>UPDATE .. WHERE\<close> is \<open>upd\<close>, the cursor's \<open>rowcount\<close> is \<open>rowcount\<close> and \<open>fetchone\<close> after
  a \<open>SELECT\<close> is \<open>List.find\<close>. A Python exception is the left side of a sum, so a block that
  may raise has type \<open>'e + 'a\<close>; \<open>bindE\<close> sequences two such blocks and \<open>foldE\<close> is a
  \<open>for\<close> loop whose body may raise.
\<close>

named_theorems table_simps "facts about rows after an UPDATE"

subsection \<open>Tables\<close>

definition upd :: "('r \<Rightarrow> bool) \<Rightarrow> ('r \<Rightarrow> 'r) \<Rightarrow> 'r list \<Rightarrow> 'r list" where
  "upd P f t = map (\<lambda>r. if P r then f r else r) t"

definition rowcount :: "('r \<Rightarrow> bool) \<Rightarrow> 'r list \<Rightarrow> nat" where
  "rowcount P t = length (filter P t)"

lemma upd_Nil [simp]: "upd P f [] = []"
  and upd_Cons [simp]: "upd P f (r # t) = (if P r then f r else r) # upd P f t"
  by (simp_all add: upd_def)

lemma rowcount_Nil [simp]: "rowcount P [] = 0"
  and rowcount_Cons [simp]: "rowcount P (r # t) = (if P r then Suc (rowcount P t) else rowcount P t)"
  by (simp_all add: rowcount_def)

lemma length_upd [simp]: "length (upd P f t) = length t"
  by (simp add: upd_def)

lemma set_upd: "set (upd P f t) = (\<lambda>r. if P r then f r else r) ` set t"
  by (simp add: upd_def)

lemma in_set_updE:
  assumes "r' \<in> set (upd P f t)"
  obtains (hit) r where "r \<in> set t" "P r" "r' = f r"
    | (miss) "r' \<in> set t" "\<not> P r'"
  using assms by (auto simp: set_upd split: if_splits)

lemma upd_hit: "r \<in> set t \<Longrightarrow> P r \<Longrightarrow> f r \<in> set (upd P f t)"
  and upd_miss: "r \<in> set t \<Longrightarrow> \<not> P r \<Longrightarrow> r \<in> set (upd P f t)"
  by (auto simp: set_upd image_iff)

lemma upd_id: "(\<And>r. r \<in> set t \<Longrightarrow> \<not> P r) \<Longrightarrow> upd P f t = t"
  by (induction t) auto

lemma upd_cong: "(\<And>r. r \<in> set t \<Longrightarrow> P r = Q r) \<Longrightarrow> upd P f t = upd Q f t"
  by (induction t) auto

lemma map_upd_key [table_simps]: "(\<And>r. k (f r) = k r) \<Longrightarrow> map k (upd P f t) = map k t"
  by (induction t) auto

lemma map_filter_upd:
  assumes "\<And>r. k (f r) = k r" and "\<And>r. Q (f r) = Q r"
  shows "map k (filter Q (upd P f t)) = map k (filter Q t)"
  by (induction t) (auto simp: assms)

lemma find_upd_key [table_simps]:
  assumes "\<And>r. k (f r) = k r"
  shows "find (\<lambda>r. k r = x) (upd P f t) =
    map_option (\<lambda>r. if P r then f r else r) (find (\<lambda>r. k r = x) t)"
  using assms by (induction t) auto

lemma find_SomeD: "find P t = Some r \<Longrightarrow> r \<in> set t \<and> P r"
  by (induction t) (auto split: if_splits)

lemma find_append: "find P (s @ t) = (case find P s of None \<Rightarrow> find P t | Some r \<Rightarrow> Some r)"
  by (induction s) auto

lemma find_distinct:
  assumes "distinct (map k t)" and "r \<in> set t"
  shows "find (\<lambda>r'. k r' = k r) t = Some r"
  using assms by (induction t) (auto simp: image_iff)

lemma rowcount_0_iff: "rowcount P t = 0 \<longleftrightarrow> (\<forall>r \<in> set t. \<not> P r)"
  by (auto simp: rowcount_def filter_empty_conv)

lemma rowcount_key_le_1:
  assumes "distinct (map k t)" and "\<And>r. P r \<Longrightarrow> k r = x"
  shows "rowcount P t \<le> 1"
  using assms(1)
proof (induction t)
  case Nil
  then show ?case by simp
next
  case (Cons a t)
  show ?case
  proof (cases "P a")
    case True
    have "rowcount P t = 0"
      using Cons.prems True assms(2) by (auto simp: rowcount_0_iff image_iff)
    then show ?thesis by simp
  next
    case False
    with Cons show ?thesis by simp
  qed
qed

lemma rowcount_key_1:
  assumes "distinct (map k t)" and "\<And>r. P r \<Longrightarrow> k r = x" and "r \<in> set t" and "P r"
  shows "rowcount P t = 1"
proof -
  have "rowcount P t \<noteq> 0"
    using assms(3,4) by (auto simp: rowcount_0_iff)
  moreover have "rowcount P t \<le> 1"
    by (rule rowcount_key_le_1 [OF assms(1,2)])
  ultimately show ?thesis by simp
qed

text \<open>\<open>SELECT DISTINCT\<close> keeps the first of equal rows.\<close>

definition distinct_rows :: "'a list \<Rightarrow> 'a list" where
  "distinct_rows xs = rev (remdups (rev xs))"

lemma set_distinct_rows [simp]: "set (distinct_rows xs) = set xs"
  and distinct_distinct_rows [simp]: "distinct (distinct_rows xs)"
  by (simp_all add: distinct_rows_def)

subsection \<open>Exceptions\<close>

definition bindE :: "'e + 'a \<Rightarrow> ('a \<Rightarrow> 'e + 'b) \<Rightarrow> 'e + 'b" where
  "bindE x f = (case x of Inl e \<Rightarrow> Inl e | Inr a \<Rightarrow> f a)"

fun foldE :: "('x \<Rightarrow> 's \<Rightarrow> 'e + 's) \<Rightarrow> 'x list \<Rightarrow> 's \<Rightarrow> 'e + 's" where
  "foldE f [] s = Inr s"
| "foldE f (x # xs) s = bindE (f x s) (foldE f xs)"

lemma bindE_simps [simp]: "bindE (Inl e) f = Inl e" "bindE (Inr a) f = f a"
  by (simp_all add: bindE_def)

lemma bindE_InrE:
  assumes "bindE x f = Inr b"
  obtains a where "x = Inr a" and "f a = Inr b"
  using assms by (cases x) auto

lemma bindE_Inr_iff: "bindE x f = Inr b \<longleftrightarrow> (\<exists>a. x = Inr a \<and> f a = Inr b)"
  by (cases x) auto

lemma foldE_append: "foldE f (xs @ ys) s = bindE (foldE f xs s) (foldE f ys)"
proof (induction xs arbitrary: s)
  case (Cons x xs)
  then show ?case by (cases "f x s") auto
qed simp

lemma foldE_invariant:
  assumes "\<And>x s s'. x \<in> set xs \<Longrightarrow> I s \<Longrightarrow> f x s = Inr s' \<Longrightarrow> I s'"
    and "I s" and "foldE f xs s = Inr s'"
  shows "I s'"
  using assms
proof (induction xs arbitrary: s)
  case (Cons x xs)
  from Cons.prems(3) obtain t where t: "f x s = Inr t" and rest: "foldE f xs t = Inr s'"
    by (auto elim: bindE_InrE)
  have "I t" using Cons.prems(1,2) t by auto
  then show ?case using Cons.IH Cons.prems(1) rest by auto
qed simp

text \<open>The transaction context manager of \<open>AsyncEngine.transaction\<close>: an exception rolls back.\<close>

definition run_tx :: "('s \<Rightarrow> 'e + ('a \<times> 's)) \<Rightarrow> 's \<Rightarrow> ('e + 'a) \<times> 's" where
  "run_tx body s = (case body s of Inl e \<Rightarrow> (Inl e, s) | Inr (a, s') \<Rightarrow> (Inr a, s'))"

lemma run_tx_simps [simp]:
  "body s = Inl e \<Longrightarrow> run_tx body s = (Inl e, s)"
  "body s = Inr (a, s') \<Longrightarrow> run_tx body s = (Inr a, s')"
  by (simp_all add: run_tx_def)

subsection \<open>Preorders that handlers respect\<close>

text \<open>
  A relation between the store before and after a handler. Every handler of the model is shown
  to respect such a relation once; loops and sequences then respect it by the lemmas here.
\<close>

locale handler_frame =
  fixes le :: "'s \<Rightarrow> 's \<Rightarrow> bool"
  assumes le_refl: "le s s"
    and le_trans: "le s t \<Longrightarrow> le t u \<Longrightarrow> le s u"
begin

lemma le_foldE:
  assumes step: "\<And>x s s'. x \<in> set xs \<Longrightarrow> f x s = Inr s' \<Longrightarrow> le s s'"
    and ret: "foldE f xs s = Inr s'"
  shows "le s s'"
proof (rule foldE_invariant [where I = "\<lambda>t. le s t" and f = f and xs = xs and s = s])
  fix x t t'
  assume "x \<in> set xs" and "le s t" and "f x t = Inr t'"
  then show "le s t'" using step le_trans by blast
qed (use le_refl ret in auto)

lemma le_fold:
  assumes "\<And>x s. x \<in> set xs \<Longrightarrow> le s (f x s)"
  shows "le s (fold f xs s)"
  using assms
proof (induction xs arbitrary: s)
  case Nil
  show ?case by (simp add: le_refl)
next
  case (Cons x xs)
  have "le s (f x s)" using Cons.prems by simp
  moreover have "le (f x s) (fold f xs (f x s))" using Cons by simp
  ultimately show ?case by (auto intro: le_trans)
qed

lemma le_rtranclp:
  assumes "\<And>s t. R s t \<Longrightarrow> le s t" and "R\<^sup>*\<^sup>* s t"
  shows "le s t"
  using assms(2) by (induction rule: rtranclp_induct) (auto intro: le_refl le_trans assms(1))

end

subsection \<open>Time, NULL and Python truth\<close>

text \<open>
  \<open>CURRENT_TIMESTAMP\<close> has one-second resolution and orders like the integer it stands for.
  A \<open>NULL\<close> lease makes SQL comparisons false.
\<close>

definition lease_expired :: "int \<Rightarrow> int option \<Rightarrow> bool" where
  "lease_expired now l = (case l of None \<Rightarrow> False | Some t \<Rightarrow> t \<le> now)"

definition lease_live :: "int \<Rightarrow> int option \<Rightarrow> bool" where
  "lease_live now l = (case l of None \<Rightarrow> False | Some t \<Rightarrow> now < t)"

lemma lease_simps [simp]:
  "\<not> lease_expired now None" "lease_expired now (Some t) \<longleftrightarrow> t \<le> now"
  "\<not> lease_live now None" "lease_live now (Some t) \<longleftrightarrow> now < t"
  by (simp_all add: lease_expired_def lease_live_def)

lemma lease_expired_not_live: "lease_expired now l \<Longrightarrow> \<not> lease_live now l"
  by (cases l) auto

definition truthy :: "string option \<Rightarrow> bool" where
  "truthy s = (case s of None \<Rightarrow> False | Some t \<Rightarrow> t \<noteq> [])"

lemma truthy_simps [simp]: "\<not> truthy None" "truthy (Some t) \<longleftrightarrow> t \<noteq> []"
  by (simp_all add: truthy_def)

lemma truthyE: "truthy s \<Longrightarrow> (\<And>t. s = Some t \<Longrightarrow> t \<noteq> [] \<Longrightarrow> P) \<Longrightarrow> P"
  by (cases s) auto

end
