(* ===== verification/Store.thy ===== *)
theory Store imports Prelude "HOL-Library.Product_Lexorder" begin

text \<open>
  The tables of the V4 ledger (\<open>mesa_storage/alembic/versions\<close>) that the lifecycle, projection,
  rollback and dispatch operations of \<open>mesa_storage/dao.py\<close> read and write, one record per row
  type and one record \<open>db\<close> for the database. Text states are datatypes with the constants of the
  source behind a prefix. Columns no modelled operation reads (\<open>updated_at\<close>, random row ids)
  are left out; a second-resolution timestamp is an \<open>int\<close>.
\<close>

subsection \<open>States\<close>

datatype run_state = P_QUEUED | P_RUNNING | P_EXTRACTED | P_VALIDATED | P_PROJECTING | P_COMMITTED
  | P_RETRY_PENDING | P_DLQ | P_ROLLING_BACK | P_ROLLED_BACK | P_BLOCKED | P_PURGED
  | P_CANCELLED | P_REJECTED

datatype mut_state = M_RECEIVED | M_EXTRACTED | M_VALIDATED | M_PENDING | M_SQL_APPLIED
  | M_VECTOR_APPLIED | M_GRAPH_APPLIED | M_COMMITTED | M_RETRY_PENDING | M_DEAD_LETTER
  | M_BLOCKED | M_ROLLING_BACK | M_PURGING | M_ROLLED_BACK | M_PURGED | M_REJECTED | M_CANCELLED

datatype rev_status = R_PENDING | R_ACTIVE | R_SUPERSEDED | R_ROLLED_BACK | R_PURGED
datatype doc_status = D_ACTIVE | D_PURGED
datatype fact_status = A_ACTIVE | A_SUPERSEDED | A_RETRACTED
datatype lane = SQL | VECTOR | GRAPH
datatype outbox_state = O_BLOCKED_VALIDATION | O_PENDING | O_IN_FLIGHT | O_RETRY_PENDING
  | O_COMPLETED | O_SKIPPED | O_DEAD_LETTER | O_CANCELLED
datatype cleanup_state = C_PENDING | C_IN_FLIGHT | C_RETRY_PENDING | C_COMPLETED | C_BLOCKED
datatype registry_state = G_ACTIVE | G_TOMBSTONED | G_DELETED
datatype source_state = S_ACTIVE | S_RELEASED
datatype kind = ENTITY | ASSERTION | ENTITY_VECTOR | ASSERTION_VECTOR
datatype queue_state = Q_ENQUEUED | Q_IN_FLIGHT | Q_RETRY_PENDING | Q_FINALIZED | Q_DEAD_LETTER

text \<open>The claim order of the lanes, \<open>CASE projection_name WHEN 'SQL' THEN 0 ..\<close>.\<close>

fun lane_rank :: "lane \<Rightarrow> nat" where
  "lane_rank SQL = 0" | "lane_rank VECTOR = 1" | "lane_rank GRAPH = 2"

instantiation lane :: linorder
begin
definition less_eq_lane :: "lane \<Rightarrow> lane \<Rightarrow> bool" where "less_eq_lane a b = (lane_rank a \<le> lane_rank b)"
definition less_lane :: "lane \<Rightarrow> lane \<Rightarrow> bool" where "less_lane a b = (lane_rank a < lane_rank b)"
instance
proof
  fix a b c :: lane
  show "(a < b) = (a \<le> b \<and> \<not> b \<le> a)" by (auto simp: less_eq_lane_def less_lane_def)
  show "a \<le> a" by (simp add: less_eq_lane_def)
  show "a \<le> b \<Longrightarrow> b \<le> c \<Longrightarrow> a \<le> c" by (simp add: less_eq_lane_def)
  show "a \<le> b \<Longrightarrow> b \<le> a \<Longrightarrow> a = b"
    by (cases a; cases b) (simp_all add: less_eq_lane_def)
  show "a \<le> b \<or> b \<le> a" by (auto simp: less_eq_lane_def)
qed
end

subsection \<open>Rows\<close>

text \<open>\<open>detail_json\<close> is the list of the members of the JSON object; a member of a nested object has its path as name.\<close>

type_synonym json = "(string \<times> string) list"

record run =
  rn_id :: string
  rn_agent :: string
  rn_state :: run_state
  rn_failure :: "string option"

text \<open>\<open>Admission_Event r\<close> is the deterministic \<open>uuid5\<close> of the run's admission event.\<close>

datatype event_id = Admission_Event string | Random_Event

record event =
  ev_id :: event_id
  ev_run :: string
  ev_from :: "run_state option"
  ev_to :: run_state
  ev_type :: string
  ev_detail :: json

text \<open>An extracted triple; values that are not strings keep their JSON text. \<open>tr_more\<close> is a \<open>metadata\<close> that is an object.\<close>

record triplet =
  tr_head :: "string option"
  tr_relation :: "string option"
  tr_tail :: "string option"
  tr_literal :: "string option"
  tr_confidence :: "string option"
  tr_fact_text :: "string option"
  tr_from :: "string option"
  tr_to :: "string option"
  tr_span :: "string option"
  tr_supersedes :: "string option"
  tr_object_type :: "string option"
  tr_tail_type :: "string option"
  tr_more :: "json option"

text \<open>The four \<open>embedding_*\<close> columns.\<close>

record identity =
  id_provider :: "string option"
  id_model :: "string option"
  id_version :: "string option"
  id_dimension :: "int option"

text \<open>
  \<open>metadata_json\<close> of a mutation: the caller's \<open>valid_from\<close> ("" when absent or unreadable), the
  reserved members \<open>_mesa_v4_projection_triplets\<close> and \<open>_mesa_embedding_identity\<close> and the other
  members.
\<close>

record meta =
  me_valid_from :: string
  me_triplets :: "triplet list option"
  me_identity :: "identity option"
  me_members :: json

record mutation =
  mu_id :: string
  mu_candidate :: string
  mu_raw_log :: "int option"
  mu_tenant :: string
  mu_agent :: string
  mu_dataset :: string
  mu_document :: "string option"
  mu_revision :: "string option"
  mu_chunk :: "string option"
  mu_run :: "string option"
  mu_state :: mut_state
  mu_failure :: "string option"
  mu_meta :: meta
  mu_identity :: identity

record document =
  dc_id :: string
  dc_tenant :: string
  dc_dataset :: string
  dc_ref :: "string option"
  dc_title :: string
  dc_status :: doc_status

record revision =
  rv_id :: string
  rv_tenant :: string
  rv_document :: string
  rv_number :: int
  rv_hash :: "string option"
  rv_status :: rev_status
  rv_supersedes :: "string option"
  rv_manifest :: "string option"
  rv_frozen_at :: "int option"

record chunk =
  ch_id :: string
  ch_tenant :: string
  ch_dataset :: string
  ch_revision :: string
  ch_ordinal :: int
  ch_hash :: string
  ch_source :: string

record fact =
  fa_id :: string
  fa_tenant :: string
  fa_dataset :: string
  fa_document :: string
  fa_revision :: string
  fa_mutation :: string
  fa_subject :: string
  fa_object :: "string option"
  fa_status :: fact_status
  fa_valid_from :: string
  fa_valid_to :: string

text \<open>A row of \<open>v4_assertion_links\<close> whose \<open>relation_type\<close> is the flag \<open>lk_supersedes\<close>.\<close>

record link =
  lk_source :: string
  lk_target :: string
  lk_supersedes :: bool
  lk_mutation :: string

record entity =
  en_id :: string
  en_status :: fact_status

record artifact =
  ar_mutation :: string
  ar_store :: lane
  ar_kind :: kind
  ar_artifact :: string

record registry =
  rg_id :: string
  rg_tenant :: string
  rg_agent :: string
  rg_store :: lane
  rg_kind :: kind
  rg_physical :: string
  rg_state :: registry_state

record ownership =
  so_registry :: string
  so_mutation :: string
  so_run :: "string option"
  so_dataset :: string
  so_document :: "string option"
  so_chunk :: "string option"
  so_state :: source_state

record cleanup =
  cl_id :: string
  cl_run :: string
  cl_registry :: string
  cl_state :: cleanup_state
  cl_attempts :: nat
  cl_limit :: nat
  cl_token :: "string option"
  cl_by :: "string option"
  cl_lease :: "int option"
  cl_error :: "string option"
  cl_created :: int

record outbox =
  ob_id :: string
  ob_mutation :: string
  ob_lane :: lane
  ob_state :: outbox_state
  ob_attempts :: nat
  ob_limit :: nat
  ob_token :: "string option"
  ob_by :: "string option"
  ob_lease :: "int option"
  ob_error :: "string option"
  ob_created :: int

record attempt =
  at_projection :: string
  at_number :: nat
  at_outcome :: string
  at_error :: "string option"

text \<open>\<open>raw_logs.status\<close> is free text with these prefixes; \<open>W_OTHER\<close> keeps any other text.\<close>

datatype log_status = W_DEFERRED | W_QUEUED | W_PROCESSING | W_DISPATCHED
  | W_PROCESSED "string option" | W_FAILED "string option" | W_REJECTED "string option"
  | W_OTHER string

record raw_log =
  rl_id :: int
  rl_agent :: string
  rl_tenant :: string
  rl_session :: "string option"
  rl_memory_type :: "string option"
  rl_idempotency :: "string option"
  rl_content_hash :: "string option"
  rl_bytes :: nat
  rl_status :: log_status
  rl_token :: "string option"
  rl_by :: "string option"
  rl_lease :: "int option"
  rl_attempts :: nat
  rl_error :: "string option"

record queue_row =
  qu_id :: string
  qu_dispatch :: string
  qu_tenant :: string
  qu_agent :: string
  qu_log :: int
  qu_bytes :: nat
  qu_state :: queue_state
  qu_attempts :: nat
  qu_token :: "string option"
  qu_by :: "string option"
  qu_lease :: "int option"
  qu_error :: "string option"
  qu_created :: int

datatype journal_state = J_PENDING | J_CLAIMED | J_RECEIPT_RECORDED

record journal =
  jr_id :: string
  jr_log :: int
  jr_tenant :: string
  jr_agent :: string
  jr_state :: journal_state
  jr_attempts :: nat
  jr_queue :: "string option"

text \<open>\<open>dispatch_receipts\<close> (enqueue) and \<open>dispatch_completion_receipts\<close>.\<close>

record receipt =
  rc_dispatch :: string
  rc_queue :: string

record completion =
  cp_queue :: string
  cp_dispatch :: string
  cp_worker :: string
  cp_token :: string
  cp_outcome :: string
  cp_attempts :: nat

subsection \<open>The database\<close>

record db =
  runs :: "run list"
  events :: "event list"
  muts :: "mutation list"
  docs :: "document list"
  revs :: "revision list"
  chunks :: "chunk list"
  facts :: "fact list"
  links :: "link list"
  entities :: "entity list"
  artifacts :: "artifact list"
  registries :: "registry list"
  owners :: "ownership list"
  cleanups :: "cleanup list"
  outboxes :: "outbox list"
  attempts :: "attempt list"
  raw_logs :: "raw_log list"
  queue :: "queue_row list"
  journals :: "journal list"
  receipts :: "receipt list"
  completions :: "completion list"

definition empty_db :: db where
  "empty_db = \<lparr> runs = [], events = [], muts = [], docs = [], revs = [], chunks = [], facts = [],
    links = [], entities = [], artifacts = [], registries = [], owners = [], cleanups = [],
    outboxes = [], attempts = [], raw_logs = [], queue = [], journals = [], receipts = [],
    completions = [] \<rparr>"

subsection \<open>Errors\<close>

datatype dao_error =
    Unknown_Run | Unknown_Mutation | Supersession_Conflict | Revision_Head_Conflict
  | Integrity_Error | Invalid_State | Invalid_Bounds | Skip_Not_Allowed | Unknown_Owner
  | Fenced_Owner | Purged_Document | Missing_Identity | Non_Head_Rollback | Cannot_Rollback
  | Not_Replayable | Foreign_Target | Non_Replayable_Rejection | Replay_Fence_Lost
  | No_Pipeline_Scope | Candidate_Collision | Manifest_Empty | Manifest_Frozen
  | Outside_Scope | Revision_Immutable | Repair_Fence_Lost
  | Record_Too_Large | Over_Capacity_Global | Over_Capacity_Tenant | Invalid_Agent
  | Tenant_Mismatch | Unknown_Raw_Log | Incomplete_Identity | Identity_Conflict | Not_Persisted
  | Invalid_Payload | Queue_Unavailable

subsection \<open>Lookups\<close>

definition run_of :: "db \<Rightarrow> string \<Rightarrow> run option" where
  "run_of d i = find (\<lambda>r. rn_id r = i) (runs d)"

definition mut_of :: "db \<Rightarrow> string \<Rightarrow> mutation option" where
  "mut_of d i = find (\<lambda>m. mu_id m = i) (muts d)"

definition rev_of :: "db \<Rightarrow> string \<Rightarrow> revision option" where
  "rev_of d i = find (\<lambda>r. rv_id r = i) (revs d)"

definition doc_of :: "db \<Rightarrow> string \<Rightarrow> document option" where
  "doc_of d i = find (\<lambda>r. dc_id r = i) (docs d)"

definition outbox_of :: "db \<Rightarrow> string \<Rightarrow> outbox option" where
  "outbox_of d i = find (\<lambda>p. ob_id p = i) (outboxes d)"

definition cleanup_of :: "db \<Rightarrow> string \<Rightarrow> cleanup option" where
  "cleanup_of d i = find (\<lambda>c. cl_id c = i) (cleanups d)"

definition run_state_of :: "db \<Rightarrow> string \<Rightarrow> run_state option" where
  "run_state_of d i = map_option rn_state (run_of d i)"

definition mut_state_of :: "db \<Rightarrow> string \<Rightarrow> mut_state option" where
  "mut_state_of d i = map_option mu_state (mut_of d i)"

text \<open>\<open>LEFT JOIN pipeline_runs pr ON pr.pipeline_run_id = m.pipeline_run_id\<close>.\<close>

definition joined_run_state :: "db \<Rightarrow> mutation \<Rightarrow> run_state option" where
  "joined_run_state d m = (case mu_run m of None \<Rightarrow> None | Some r \<Rightarrow> run_state_of d r)"

text \<open>The children of a run, in rowid order.\<close>

definition children :: "db \<Rightarrow> string \<Rightarrow> mutation list" where
  "children d r = filter (\<lambda>m. mu_run m = Some r) (muts d)"

text \<open>Primary keys.\<close>

definition keys_ok :: "db \<Rightarrow> bool" where
  "keys_ok d \<longleftrightarrow> distinct (map rn_id (runs d)) \<and> distinct (map mu_id (muts d))"

end
