(* ===== verification/Lifecycle.thy ===== *)
theory Lifecycle imports Store begin

text \<open>
  The canonical state machines of pipeline runs and memory mutations
  (\<open>mesa_storage/dao.py\<close>, \<open>_transition_pipeline_run_in_tx\<close> to \<open>_purge_mutations_in_tx\<close>) with the
  revision head and the supersession links a commit activates. A function that runs inside a
  transaction maps a database to the exception it raises or to its result and the new database.
\<close>

subsection \<open>Run transitions\<close>

fun run_edges :: "run_state \<Rightarrow> run_state list" where
  "run_edges P_QUEUED = [P_RUNNING, P_RETRY_PENDING, P_DLQ, P_ROLLING_BACK, P_BLOCKED, P_PURGED,
    P_CANCELLED]"
| "run_edges P_RUNNING = [P_EXTRACTED, P_VALIDATED, P_PROJECTING, P_COMMITTED, P_RETRY_PENDING,
    P_DLQ, P_ROLLING_BACK, P_BLOCKED, P_PURGED, P_CANCELLED]"
| "run_edges P_EXTRACTED = [P_VALIDATED, P_PROJECTING, P_COMMITTED, P_RETRY_PENDING, P_DLQ,
    P_ROLLING_BACK, P_BLOCKED, P_PURGED, P_CANCELLED]"
| "run_edges P_VALIDATED = [P_PROJECTING, P_COMMITTED, P_RETRY_PENDING, P_DLQ, P_ROLLING_BACK,
    P_BLOCKED, P_PURGED, P_CANCELLED]"
| "run_edges P_PROJECTING = [P_COMMITTED, P_RETRY_PENDING, P_DLQ, P_ROLLING_BACK, P_BLOCKED,
    P_PURGED, P_CANCELLED]"
| "run_edges P_RETRY_PENDING = [P_RUNNING, P_PROJECTING, P_COMMITTED, P_DLQ, P_ROLLING_BACK,
    P_BLOCKED, P_PURGED, P_CANCELLED]"
| "run_edges P_DLQ = [P_RETRY_PENDING, P_ROLLING_BACK, P_BLOCKED, P_PURGED, P_CANCELLED]"
| "run_edges P_ROLLING_BACK = [P_ROLLED_BACK, P_BLOCKED, P_PURGED, P_CANCELLED]"
| "run_edges P_BLOCKED = [P_RETRY_PENDING, P_ROLLING_BACK, P_PURGED, P_CANCELLED]"
| "run_edges P_COMMITTED = [P_RETRY_PENDING, P_ROLLING_BACK, P_PURGED, P_CANCELLED]"
| "run_edges P_ROLLED_BACK = []"
| "run_edges P_PURGED = []"
| "run_edges P_CANCELLED = []"
| "run_edges P_REJECTED = []"

text \<open>The JSON object \<open>{**{"failure_class": f}, **event_detail}\<close>: later members win.\<close>

definition event_json :: "string option \<Rightarrow> json \<Rightarrow> json" where
  "event_json fc det =
    (if truthy fc \<and> ''failure_class'' \<notin> fst ` set det then [(''failure_class'', the fc)] else []) @ det"

definition run_hit :: "string \<Rightarrow> run_state \<Rightarrow> run \<Rightarrow> bool" where
  "run_hit rid cur r \<longleftrightarrow> rn_id r = rid \<and> rn_state r = cur"

definition cas_run :: "string \<Rightarrow> run_state \<Rightarrow> run_state \<Rightarrow> string option \<Rightarrow> db \<Rightarrow> db" where
  "cas_run rid cur to fc d =
    d\<lparr>runs := upd (run_hit rid cur) (\<lambda>r. r\<lparr>rn_state := to, rn_failure := fc\<rparr>) (runs d)\<rparr>"

definition transition_run ::
  "string \<Rightarrow> run_state \<Rightarrow> string \<Rightarrow> string option \<Rightarrow> json \<Rightarrow> db \<Rightarrow> dao_error + (bool \<times> db)" where
  "transition_run rid to ty fc det d =
    (case run_state_of d rid of
      None \<Rightarrow> Inl Unknown_Run
    | Some cur \<Rightarrow>
        if cur = to then Inr (True, d)
        else if to \<notin> set (run_edges cur) then Inr (False, d)
        else
          let d1 = cas_run rid cur to fc d
          in if rowcount (run_hit rid cur) (runs d) \<noteq> 1 then Inr (False, d1)
             else Inr (True, d1\<lparr>events := events d1 @
               [\<lparr>ev_id = Random_Event, ev_run = rid, ev_from = Some cur, ev_to = to, ev_type = ty,
                 ev_detail = event_json fc det\<rparr>]\<rparr>))"

subsection \<open>The aggregate state of a run\<close>

definition aggregate_state :: "mut_state list \<Rightarrow> run_state" where
  "aggregate_state ss =
    (if list_all (\<lambda>s. s = M_COMMITTED) ss then P_COMMITTED
     else if list_ex (\<lambda>s. s \<in> {M_DEAD_LETTER, M_BLOCKED, M_REJECTED}) ss then P_DLQ
     else if list_ex (\<lambda>s. s = M_RETRY_PENDING) ss then P_RETRY_PENDING
     else if list_ex (\<lambda>s. s \<in> {M_SQL_APPLIED, M_VECTOR_APPLIED, M_GRAPH_APPLIED}) ss then P_PROJECTING
     else if list_ex (\<lambda>s. s = M_VALIDATED) ss then P_VALIDATED
     else if list_ex (\<lambda>s. s = M_EXTRACTED) ss then P_EXTRACTED
     else P_RUNNING)"

definition recompute_run ::
  "string \<Rightarrow> string \<Rightarrow> string option \<Rightarrow> json \<Rightarrow> db \<Rightarrow> dao_error + (bool \<times> db)" where
  "recompute_run rid ty fc det d =
    (let ss = map mu_state (children d rid) in
     if ss = [] then Inr (False, d)
     else
       let target = aggregate_state ss in
       case run_state_of d rid of
         None \<Rightarrow> Inl Unknown_Run
       | Some cur \<Rightarrow>
           if cur = P_QUEUED \<and> target \<in> {P_EXTRACTED, P_VALIDATED, P_PROJECTING, P_COMMITTED}
           then bindE (transition_run rid P_RUNNING ''AGGREGATE_STARTED'' None [] d)
             (\<lambda>(started, d1). if \<not> started then Inr (False, d1)
                else transition_run rid target ty fc det d1)
           else transition_run rid target ty fc det d)"

subsection \<open>Revision heads\<close>

text \<open>The unique index \<open>uq_active_document_revision\<close> over the \<open>ACTIVE\<close> rows of a document.\<close>

definition heads_ok :: "revision list \<Rightarrow> bool" where
  "heads_ok t \<longleftrightarrow> distinct (map rv_document (filter (\<lambda>r. rv_status r = R_ACTIVE) t))"

definition activate_revisions :: "(revision \<Rightarrow> bool) \<Rightarrow> db \<Rightarrow> dao_error + (nat \<times> db)" where
  "activate_revisions P d =
    (let t = upd P (rv_status_update (\<lambda>_. R_ACTIVE)) (revs d) in
     if heads_ok t then Inr (rowcount P (revs d), d\<lparr>revs := t\<rparr>) else Inl Integrity_Error)"

definition supersede_fact :: "string \<Rightarrow> fact \<Rightarrow> fact" where
  "supersede_fact from f = f\<lparr>fa_status := A_SUPERSEDED,
     fa_valid_to := (if fa_valid_to f = [] \<and> from \<noteq> [] then from else fa_valid_to f)\<rparr>"

definition activate_links :: "string \<Rightarrow> db \<Rightarrow> db" where
  "activate_links mid d =
    (let targets = concat (map (\<lambda>l. map (\<lambda>s. (lk_target l, fa_valid_from s))
           (filter (\<lambda>s. fa_id s = lk_source l) (facts d)))
         (filter (\<lambda>l. lk_mutation l = mid \<and> lk_supersedes l) (links d)))
     in fold (\<lambda>(t, from) d. d\<lparr>facts := upd (\<lambda>f. fa_id f = t \<and> fa_status f = A_ACTIVE)
          (supersede_fact from) (facts d)\<rparr>) targets d)"

definition commit_ready :: "string \<Rightarrow> db \<Rightarrow> bool" where
  "commit_ready rid d =
    (let kids = filter (\<lambda>m. mu_revision m = Some rid) (muts d);
         cs = filter (\<lambda>c. ch_revision c = rid) (chunks d);
         missing = filter (\<lambda>c. \<not> list_ex (\<lambda>m. mu_revision m = Some (ch_revision c)
           \<and> mu_chunk m = Some (ch_id c) \<and> mu_state m = M_COMMITTED) (muts d)) cs
     in kids \<noteq> [] \<and> list_all (\<lambda>m. mu_state m = M_COMMITTED) kids \<and> cs \<noteq> [] \<and> missing = [])"

definition replace_head :: "revision \<Rightarrow> string \<Rightarrow> db \<Rightarrow> dao_error + db" where
  "replace_head rv pred d =
    (let from = (case find (\<lambda>m. mu_revision m = Some (rv_id rv) \<and> mu_state m = M_COMMITTED) (muts d)
                 of None \<Rightarrow> [] | Some m \<Rightarrow> me_valid_from (mu_meta m));
         old = (\<lambda>r. rv_id r = pred \<and> rv_document r = rv_document rv \<and> rv_status r = R_ACTIVE);
         new = (\<lambda>r. rv_id r = rv_id rv \<and> rv_status r = R_PENDING)
     in if map_option rv_status (rev_of d pred) \<noteq> Some R_ACTIVE then Inl Supersession_Conflict
        else if rowcount old (revs d) \<noteq> 1 then Inl Supersession_Conflict
        else bindE (activate_revisions new
               (d\<lparr>revs := upd old (rv_status_update (\<lambda>_. R_SUPERSEDED)) (revs d)\<rparr>))
          (\<lambda>(n, d2). if n \<noteq> 1 then Inl Supersession_Conflict
             else Inr (d2\<lparr>facts := upd (\<lambda>f. fa_tenant f = rv_tenant rv \<and> fa_revision f = pred
               \<and> fa_status f = A_ACTIVE) (supersede_fact from) (facts d2)\<rparr>)))"

definition claim_head :: "revision \<Rightarrow> db \<Rightarrow> dao_error + db" where
  "claim_head rv d =
    (bindE (activate_revisions (\<lambda>r. rv_id r = rv_id rv \<and> rv_status r = R_PENDING
              \<and> \<not> list_ex (\<lambda>a. rv_document a = rv_document r \<and> rv_status a = R_ACTIVE) (revs d)) d)
      (\<lambda>(n, d1). if n = 1 then Inr d1
         else if map_option rv_status (rev_of d1 (rv_id rv)) = Some R_ACTIVE then Inr d1
         else Inl Revision_Head_Conflict))"

definition reconcile_revision :: "string \<Rightarrow> db \<Rightarrow> dao_error + db" where
  "reconcile_revision rid d =
    (if rid = [] then Inr d
     else case rev_of d rid of
       None \<Rightarrow> Inr d
     | Some rv \<Rightarrow>
         if rv_status rv \<noteq> R_PENDING then Inr d
         else if \<not> truthy (rv_manifest rv) \<or> rv_frozen_at rv = None then Inr d
         else if \<not> commit_ready rid d then Inr d
         else if truthy (rv_supersedes rv) then replace_head rv (the (rv_supersedes rv)) d
         else claim_head rv d)"

definition activate_committed :: "string \<Rightarrow> db \<Rightarrow> dao_error + db" where
  "activate_committed mid d =
    (case mut_of d mid of
      None \<Rightarrow> Inr d
    | Some m \<Rightarrow>
        let d1 = (if joined_run_state d m \<in> {None, Some P_COMMITTED} then activate_links mid d else d)
        in if truthy (mu_revision m) then reconcile_revision (the (mu_revision m)) d1 else Inr d1)"

subsection \<open>Mutation transitions\<close>

fun mut_edges :: "mut_state \<Rightarrow> mut_state list" where
  "mut_edges M_RECEIVED = [M_EXTRACTED, M_RETRY_PENDING, M_DEAD_LETTER, M_BLOCKED, M_REJECTED,
    M_ROLLING_BACK, M_PURGING, M_PURGED, M_CANCELLED]"
| "mut_edges M_EXTRACTED = [M_VALIDATED, M_RETRY_PENDING, M_DEAD_LETTER, M_BLOCKED, M_REJECTED,
    M_ROLLING_BACK, M_PURGING, M_PURGED, M_CANCELLED]"
| "mut_edges M_VALIDATED = [M_SQL_APPLIED, M_RETRY_PENDING, M_DEAD_LETTER, M_BLOCKED, M_REJECTED,
    M_ROLLING_BACK, M_PURGING, M_PURGED, M_CANCELLED]"
| "mut_edges M_PENDING = [M_SQL_APPLIED, M_RETRY_PENDING, M_DEAD_LETTER, M_BLOCKED, M_REJECTED,
    M_ROLLING_BACK, M_PURGING, M_PURGED, M_CANCELLED]"
| "mut_edges M_SQL_APPLIED = [M_VECTOR_APPLIED, M_RETRY_PENDING, M_DEAD_LETTER, M_BLOCKED,
    M_REJECTED, M_ROLLING_BACK, M_PURGING, M_PURGED, M_CANCELLED]"
| "mut_edges M_VECTOR_APPLIED = [M_GRAPH_APPLIED, M_RETRY_PENDING, M_DEAD_LETTER, M_BLOCKED,
    M_REJECTED, M_ROLLING_BACK, M_PURGING, M_PURGED, M_CANCELLED]"
| "mut_edges M_GRAPH_APPLIED = [M_COMMITTED, M_RETRY_PENDING, M_DEAD_LETTER, M_BLOCKED,
    M_REJECTED, M_ROLLING_BACK, M_PURGING, M_PURGED, M_CANCELLED]"
| "mut_edges M_COMMITTED = [M_RETRY_PENDING, M_ROLLING_BACK, M_PURGING, M_PURGED]"
| "mut_edges M_RETRY_PENDING = [M_PENDING, M_EXTRACTED, M_DEAD_LETTER, M_BLOCKED, M_REJECTED,
    M_ROLLING_BACK, M_PURGING, M_PURGED, M_CANCELLED]"
| "mut_edges M_DEAD_LETTER = [M_RETRY_PENDING, M_ROLLING_BACK, M_PURGED]"
| "mut_edges M_BLOCKED = [M_RETRY_PENDING, M_ROLLING_BACK, M_PURGED]"
| "mut_edges M_ROLLING_BACK = [M_ROLLED_BACK, M_BLOCKED, M_CANCELLED]"
| "mut_edges M_PURGING = [M_PURGED]"
| "mut_edges M_ROLLED_BACK = []"
| "mut_edges M_PURGED = []"
| "mut_edges M_REJECTED = []"
| "mut_edges M_CANCELLED = []"

definition mut_hit :: "string \<Rightarrow> mut_state \<Rightarrow> mutation \<Rightarrow> bool" where
  "mut_hit mid cur m \<longleftrightarrow> mu_id m = mid \<and> mu_state m = cur"

definition cas_mutation :: "string \<Rightarrow> mut_state \<Rightarrow> mut_state \<Rightarrow> string option \<Rightarrow> db \<Rightarrow> db" where
  "cas_mutation mid cur to fc d =
    d\<lparr>muts := upd (mut_hit mid cur) (\<lambda>m. m\<lparr>mu_state := to, mu_failure := fc\<rparr>) (muts d)\<rparr>"

text \<open>What follows a successful compare-and-swap: the parent run, then the revision.\<close>

definition after_mutation_change :: "string \<Rightarrow> mut_state \<Rightarrow> db \<Rightarrow> dao_error + (bool \<times> db)" where
  "after_mutation_change mid to d1 =
    bindE (case mut_of d1 mid of
        Some m1 \<Rightarrow> if truthy (mu_run m1)
          then bindE (recompute_run (the (mu_run m1)) ''MUTATION_STATE_CHANGE'' None [] d1)
            (\<lambda>(_, d2). Inr d2)
          else Inr d1
      | None \<Rightarrow> Inr d1)
    (\<lambda>d2. bindE (if to = M_COMMITTED then activate_committed mid d2 else Inr d2)
      (\<lambda>d3. Inr (True, d3)))"

definition transition_mutation ::
  "string \<Rightarrow> mut_state \<Rightarrow> string option \<Rightarrow> db \<Rightarrow> dao_error + (bool \<times> db)" where
  "transition_mutation mid to fc d =
    (case mut_of d mid of
      None \<Rightarrow> Inl Unknown_Mutation
    | Some m \<Rightarrow>
        let cur = mu_state m in
        if cur = to then Inr (True, d)
        else if to \<notin> set (mut_edges cur) then Inr (False, d)
        else
          let d1 = cas_mutation mid cur to fc d
          in if rowcount (mut_hit mid cur) (muts d) = 1 then after_mutation_change mid to d1
             else Inr (False, d1))"

text \<open>\<open>_transition_pipeline_mutations_in_tx\<close>: the ids are read before the loop.\<close>

definition transition_children ::
  "string \<Rightarrow> mut_state \<Rightarrow> string option \<Rightarrow> db \<Rightarrow> dao_error + (nat \<times> db)" where
  "transition_children rid to fc d =
    foldE (\<lambda>mid (n, d). bindE (transition_mutation mid to fc d)
        (\<lambda>(ok, d'). Inr (if ok then Suc n else n, d')))
      (map mu_id (children d rid)) (0, d)"

definition purge_mutations ::
  "(mutation \<Rightarrow> bool) \<Rightarrow> db \<Rightarrow> dao_error + (string list \<times> db)" where
  "purge_mutations P d =
    foldE (\<lambda>mid (ids, d). bindE (transition_mutation mid M_PURGED None d)
        (\<lambda>(ok, d'). Inr (if ok then ids @ [mid] else ids, d')))
      (map mu_id (filter (\<lambda>m. P m \<and>
         mu_state m \<notin> {M_PURGED, M_ROLLED_BACK, M_REJECTED, M_CANCELLED}) (muts d))) ([], d)"

end
