(* ===== verification/History.thy ===== *)
theory History imports Lifecycle begin

text \<open>
  What a lifecycle operation may do to the ledger, as two preorders on databases. \<open>evolves a b\<close>:
  every run's new events replay its old state to its new state through the transition table, and
  every mutation has moved along \<open>mut_edges\<close>; it interprets \<open>handler_frame\<close>. \<open>strip_life\<close> forgets
  what lifecycle operations write, so \<open>strip_life b = strip_life a\<close> says that the queues, the
  ownership tables and the identity of the mutations are untouched.
\<close>

subsection \<open>Event logs\<close>

definition trace :: "db \<Rightarrow> string \<Rightarrow> (run_state option \<times> run_state) list" where
  "trace d r = map (\<lambda>e. (ev_from e, ev_to e)) (filter (\<lambda>e. ev_run e = r) (events d))"

fun admits :: "run_state option \<Rightarrow> run_state \<Rightarrow> bool" where
  "admits None t \<longleftrightarrow> t = P_QUEUED"
| "admits (Some s) t \<longleftrightarrow> t \<in> set (run_edges s)"

fun replays :: "run_state option \<Rightarrow> (run_state option \<times> run_state) list \<Rightarrow> run_state option \<Rightarrow> bool" where
  "replays s [] t \<longleftrightarrow> s = t"
| "replays s ((f, u) # es) t \<longleftrightarrow> f = s \<and> admits s u \<and> replays (Some u) es t"

lemma replays_append: "replays s xs t \<Longrightarrow> replays t ys u \<Longrightarrow> replays s (xs @ ys) u"
  by (induction s xs t rule: replays.induct) auto

definition mut_edge :: "mut_state \<Rightarrow> mut_state \<Rightarrow> bool" where
  "mut_edge s t \<longleftrightarrow> t \<in> set (mut_edges s)"

definition run_log_step :: "db \<Rightarrow> db \<Rightarrow> bool" where
  "run_log_step a b \<longleftrightarrow> (\<forall>r. \<exists>new. trace b r = trace a r @ new
     \<and> replays (run_state_of a r) new (run_state_of b r))"

definition muts_step :: "db \<Rightarrow> db \<Rightarrow> bool" where
  "muts_step a b \<longleftrightarrow> (\<forall>m s. mut_state_of a m = Some s \<longrightarrow>
     (\<exists>t. mut_state_of b m = Some t \<and> mut_edge\<^sup>*\<^sup>* s t))"

text \<open>Keys are unique, and a run exists exactly when its admission event does.\<close>

definition admitted :: "db \<Rightarrow> bool" where
  "admitted d \<longleftrightarrow> (\<forall>r. Admission_Event r \<in> ev_id ` set (events d) \<longleftrightarrow> r \<in> rn_id ` set (runs d))"

definition ledger_ok :: "db \<Rightarrow> bool" where
  "ledger_ok d \<longleftrightarrow> keys_ok d \<and> admitted d"

definition evolves :: "db \<Rightarrow> db \<Rightarrow> bool" where
  "evolves a b \<longleftrightarrow> (ledger_ok a \<longrightarrow> ledger_ok b \<and> run_log_step a b \<and> muts_step a b)"

lemma run_log_step_refl: "run_log_step a a"
  by (auto simp: run_log_step_def intro!: exI [of _ "[]"])

lemma run_log_step_trans: "run_log_step a b \<Longrightarrow> run_log_step b c \<Longrightarrow> run_log_step a c"
  unfolding run_log_step_def by (metis append.assoc replays_append)

lemma muts_step_refl: "muts_step a a"
  by (auto simp: muts_step_def)

lemma muts_step_trans: "muts_step a b \<Longrightarrow> muts_step b c \<Longrightarrow> muts_step a c"
  unfolding muts_step_def by (metis rtranclp_trans)

interpretation ev: handler_frame evolves
proof
  show "evolves s s" for s
    by (simp add: evolves_def run_log_step_refl muts_step_refl)
  show "evolves s t \<Longrightarrow> evolves t u \<Longrightarrow> evolves s u" for s t u
    using run_log_step_trans muts_step_trans by (auto simp: evolves_def)
qed

text \<open>An operation that leaves runs, events and the mutations' states alone evolves trivially.\<close>

lemma find_key_map:
  assumes "map (\<lambda>r. (k r, v r)) t' = map (\<lambda>r. (k r, v r)) t"
  shows "map_option v (find (\<lambda>r. k r = x) t') = map_option v (find (\<lambda>r. k r = x) t)"
  using assms
proof (induction t' arbitrary: t)
  case Nil
  then show ?case by simp
next
  case (Cons r t')
  then obtain r0 t0 where "t = r0 # t0" "k r = k r0" "v r = v r0" 
    "map (\<lambda>r. (k r, v r)) t' = map (\<lambda>r. (k r, v r)) t0"
    by (auto simp: Cons_eq_map_conv)
  then show ?case using Cons.IH by auto
qed

lemma map_pair_fst: "map (\<lambda>r. (k r, v r)) t' = map (\<lambda>r. (k r, v r)) t \<Longrightarrow> map k t' = map k t"
proof -
  assume "map (\<lambda>r. (k r, v r)) t' = map (\<lambda>r. (k r, v r)) t"
  then have "map fst (map (\<lambda>r. (k r, v r)) t') = map fst (map (\<lambda>r. (k r, v r)) t)" by simp
  then show ?thesis by (simp add: comp_def)
qed

lemma evolves_same:
  assumes "map (\<lambda>r. (rn_id r, rn_state r)) (runs b) = map (\<lambda>r. (rn_id r, rn_state r)) (runs a)"
    and "\<And>r. trace b r = trace a r" and ids: "map ev_id (events b) = map ev_id (events a)"
    and "map (\<lambda>m. (mu_id m, mu_state m)) (muts b) = map (\<lambda>m. (mu_id m, mu_state m)) (muts a)"
  shows "evolves a b"
proof -
  have "run_state_of b r = run_state_of a r" for r
    using find_key_map [OF assms(1)] by (simp add: run_state_of_def run_of_def)
  moreover have "mut_state_of b m = mut_state_of a m" for m
    using find_key_map [OF assms(4)] by (simp add: mut_state_of_def mut_of_def)
  moreover have "ev_id ` set (events b) = ev_id ` set (events a)"
    using ids by (metis list.set_map)
  moreover have "rn_id ` set (runs b) = rn_id ` set (runs a)"
    using map_pair_fst [OF assms(1)] by (metis list.set_map)
  ultimately show ?thesis
    using map_pair_fst [OF assms(1)] map_pair_fst [OF assms(4)] assms(2)
    by (auto simp: evolves_def ledger_ok_def admitted_def keys_ok_def run_log_step_def muts_step_def
        intro!: exI [of _ "[]"])
qed

lemma evolves_frame:
  "runs b = runs a \<Longrightarrow> events b = events a \<Longrightarrow> muts b = muts a \<Longrightarrow> evolves a b"
  by (rule evolves_same) (simp_all add: trace_def)

text \<open>The rows a compare-and-swap on a primary key reaches.\<close>

lemma state_after_cas:
  assumes "\<And>r. k (f r) = k r" and "\<And>r. v (f r) = w"
    and "map_option v (find (\<lambda>r. k r = x) t) = Some s"
    and P: "\<And>r. P r \<longleftrightarrow> k r = x \<and> v r = s"
  shows "map_option v (find (\<lambda>r. k r = y) (upd P f t)) =
    (if y = x then Some w else map_option v (find (\<lambda>r. k r = y) t))"
proof -
  have "find (\<lambda>r. k r = y) (upd P f t) =
      map_option (\<lambda>r. if P r then f r else r) (find (\<lambda>r. k r = y) t)"
    by (rule find_upd_key) (rule assms(1))
  then show ?thesis using assms(2,3) P
    by (auto simp: option.map_comp comp_def dest: find_SomeD split: if_splits
        intro!: option.map_cong)
qed

lemma cas_rowcount:
  assumes "distinct (map k t)" and "map_option v (find (\<lambda>r. k r = x) t) = Some s"
    and P: "\<And>r. P r \<longleftrightarrow> k r = x \<and> v r = s"
  shows "rowcount P t = 1"
proof -
  obtain r where r: "find (\<lambda>r. k r = x) t = Some r" "v r = s" using assms(2) by auto
  then have "r \<in> set t" "k r = x" by (auto dest: find_SomeD)
  show ?thesis
    by (rule rowcount_key_1 [OF assms(1)]) (use \<open>r \<in> set t\<close> \<open>k r = x\<close> r(2) P in auto)
qed

lemma run_state_of_cas:
  "run_state_of d rid = Some cur \<Longrightarrow>
    run_state_of (cas_run rid cur to fc d) r = (if r = rid then Some to else run_state_of d r)"
  using state_after_cas [where k = rn_id and v = rn_state and x = rid and s = cur and t = "runs d"
      and P = "run_hit rid cur" and w = to and y = r
      and f = "\<lambda>r. r\<lparr>rn_state := to, rn_failure := fc\<rparr>"]
  by (simp add: run_state_of_def run_of_def cas_run_def run_hit_def)

lemma mut_state_of_cas:
  "mut_state_of d mid = Some cur \<Longrightarrow>
    mut_state_of (cas_mutation mid cur to fc d) m = (if m = mid then Some to else mut_state_of d m)"
  using state_after_cas [where k = mu_id and v = mu_state and x = mid and s = cur and t = "muts d"
      and P = "mut_hit mid cur" and w = to and y = m
      and f = "\<lambda>r. r\<lparr>mu_state := to, mu_failure := fc\<rparr>"]
  by (simp add: mut_state_of_def mut_of_def cas_mutation_def mut_hit_def)

lemma run_hit_one: "keys_ok d \<Longrightarrow> run_state_of d rid = Some cur \<Longrightarrow> rowcount (run_hit rid cur) (runs d) = 1"
  unfolding keys_ok_def run_state_of_def run_of_def by (rule cas_rowcount) (auto simp: run_hit_def)

lemma mut_hit_one: "keys_ok d \<Longrightarrow> mut_state_of d mid = Some cur \<Longrightarrow> rowcount (mut_hit mid cur) (muts d) = 1"
  unfolding keys_ok_def mut_state_of_def mut_of_def by (rule cas_rowcount) (auto simp: mut_hit_def)

text \<open>The outcomes of a transition when primary keys are unique.\<close>

lemma transition_run_cases:
  assumes "transition_run rid to ty fc det d = Inr (ok, d')" and "keys_ok d"
  obtains (same) "run_state_of d rid = Some to" "ok" "d' = d"
    | (illegal) cur where "run_state_of d rid = Some cur" "cur \<noteq> to" "to \<notin> set (run_edges cur)"
        "\<not> ok" "d' = d"
    | (moved) cur where "run_state_of d rid = Some cur" "cur \<noteq> to" "to \<in> set (run_edges cur)" "ok"
        "d' = (cas_run rid cur to fc d)\<lparr>events := events d @
               [\<lparr>ev_id = Random_Event, ev_run = rid, ev_from = Some cur, ev_to = to, ev_type = ty,
                 ev_detail = event_json fc det\<rparr>]\<rparr>"
  using assms(1) run_hit_one [OF assms(2)]
  by (cases "run_state_of d rid") (auto simp: transition_run_def Let_def cas_run_def split: if_splits)

lemma transition_mutation_cases:
  assumes "transition_mutation mid to fc d = Inr (ok, d')" and "keys_ok d"
  obtains (same) "mut_state_of d mid = Some to" "ok" "d' = d"
    | (illegal) cur where "mut_state_of d mid = Some cur" "cur \<noteq> to" "to \<notin> set (mut_edges cur)"
        "\<not> ok" "d' = d"
    | (moved) cur where "mut_state_of d mid = Some cur" "cur \<noteq> to" "to \<in> set (mut_edges cur)"
        "after_mutation_change mid to (cas_mutation mid cur to fc d) = Inr (ok, d')"
  using assms(1) mut_hit_one [OF assms(2), of mid]
  by (cases "mut_of d mid") (auto simp: transition_mutation_def mut_state_of_def Let_def split: if_splits)

subsection \<open>Transitions evolve the ledger\<close>

lemma keys_image: "map k t' = map k t \<Longrightarrow> k ` set t' = k ` set t"
  by (metis list.set_map)

lemma ledger_ok_cas [simp]:
  "ledger_ok (cas_run rid cur to fc d) = ledger_ok d"
  "ledger_ok (cas_mutation mid mcur mto fc d) = ledger_ok d"
proof -
  have "rn_id ` set (runs (cas_run rid cur to fc d)) = rn_id ` set (runs d)"
    by (rule keys_image) (simp add: cas_run_def table_simps)
  then show "ledger_ok (cas_run rid cur to fc d) = ledger_ok d"
    by (simp add: ledger_ok_def admitted_def keys_ok_def) (simp add: cas_run_def table_simps)
  show "ledger_ok (cas_mutation mid mcur mto fc d) = ledger_ok d"
    by (simp add: ledger_ok_def admitted_def keys_ok_def cas_mutation_def table_simps)
qed

lemma ledger_keys: "ledger_ok d \<Longrightarrow> keys_ok d"
  by (simp add: ledger_ok_def)

lemma transition_run_evolves:
  assumes "transition_run rid to ty fc det d = Inr (ok, d')"
  shows "evolves d d'"
  unfolding evolves_def
proof (intro impI)
  assume keys: "ledger_ok d"
  from assms ledger_keys [OF keys] show "ledger_ok d' \<and> run_log_step d d' \<and> muts_step d d'"
  proof (cases rule: transition_run_cases)
    case (moved cur)
    have d': "ledger_ok d' = ledger_ok (cas_run rid cur to fc d)" "muts d' = muts d"
      "run_state_of d' r = run_state_of (cas_run rid cur to fc d) r"
      "trace d' r = trace d r @ (if r = rid then [(Some cur, to)] else [])" for r
      by (auto simp: moved(5) ledger_ok_def admitted_def keys_ok_def run_state_of_def run_of_def cas_run_def trace_def)
    have "run_log_step d d'"
      using moved unfolding run_log_step_def d'(3,4) by (auto simp: run_state_of_cas)
    moreover have "muts_step d d'"
      using d'(2) by (auto simp: muts_step_def mut_state_of_def mut_of_def)
    ultimately show ?thesis using keys d'(1) by simp
  qed (simp_all add: keys run_log_step_refl muts_step_refl)
qed

lemma recompute_run_evolves:
  assumes "recompute_run rid ty fc det d = Inr (ok, d')"
  shows "evolves d d'"
  using assms
  by (auto simp: recompute_run_def Let_def ev.le_refl bindE_Inr_iff
      dest: transition_run_evolves intro: ev.le_trans split: if_splits option.splits)

text \<open>Head activation writes only revisions and facts.\<close>

definition strip_heads :: "db \<Rightarrow> db" where
  "strip_heads d = d\<lparr>revs := [], facts := []\<rparr>"

lemma strip_heads_simps [simp]:
  "strip_heads (d\<lparr>revs := t\<rparr>) = strip_heads d" "strip_heads (d\<lparr>facts := u\<rparr>) = strip_heads d"
  by (simp_all add: strip_heads_def)

lemma strip_heads_sel:
  assumes "strip_heads b = strip_heads a"
  shows "runs b = runs a" "events b = events a" "muts b = muts a" "chunks b = chunks a"
    "docs b = docs a" "links b = links a" "entities b = entities a" "artifacts b = artifacts a"
    "registries b = registries a" "owners b = owners a" "cleanups b = cleanups a"
    "outboxes b = outboxes a" "attempts b = attempts a" "raw_logs b = raw_logs a"
    "queue b = queue a" "journals b = journals a" "receipts b = receipts a"
    "completions b = completions a"
  using assms by (cases a; cases b; simp add: strip_heads_def)+

lemma activate_links_frame [simp]: "strip_heads (activate_links mid d) = strip_heads d"
proof -
  have "strip_heads (fold (\<lambda>(t, vf) d. d\<lparr>facts := upd (\<lambda>f. fa_id f = t \<and> fa_status f = A_ACTIVE)
          (supersede_fact vf) (facts d)\<rparr>) xs d) = strip_heads d" for xs
    by (induction xs arbitrary: d) auto
  then show ?thesis by (simp add: activate_links_def Let_def)
qed

lemma activate_revisions_frame:
  "activate_revisions P d = Inr (n, d') \<Longrightarrow> strip_heads d' = strip_heads d"
  by (auto simp: activate_revisions_def Let_def split: if_splits)

lemma reconcile_revision_frame:
  "reconcile_revision rid d = Inr d' \<Longrightarrow> strip_heads d' = strip_heads d"
  by (auto simp: reconcile_revision_def replace_head_def claim_head_def bindE_Inr_iff Let_def
      dest!: activate_revisions_frame split: if_splits option.splits)

lemma activate_committed_frame:
  "activate_committed mid d = Inr d' \<Longrightarrow> strip_heads d' = strip_heads d"
  by (auto simp: activate_committed_def Let_def dest!: reconcile_revision_frame
      split: if_splits option.splits)

lemma strip_heads_evolves: "strip_heads b = strip_heads a \<Longrightarrow> evolves a b"
  by (rule evolves_frame) (auto dest: strip_heads_sel)

lemma cas_mutation_evolves:
  assumes cur: "mut_state_of d mid = Some cur" and edge: "to \<in> set (mut_edges cur)"
  shows "evolves d (cas_mutation mid cur to fc d)"
proof -
  let ?d1 = "cas_mutation mid cur to fc d"
  have "run_state_of ?d1 r = run_state_of d r" "trace ?d1 r = trace d r" for r
    by (simp_all add: cas_mutation_def run_state_of_def run_of_def trace_def)
  then have "run_log_step d ?d1" by (auto simp: run_log_step_def intro!: exI [of _ "[]"])
  moreover have "muts_step d ?d1"
    using cur edge mut_state_of_cas [OF cur] by (auto simp: muts_step_def mut_edge_def)
  ultimately show ?thesis by (simp add: evolves_def)
qed

lemma after_mutation_change_evolves:
  "after_mutation_change mid to d = Inr (ok, d') \<Longrightarrow> evolves d d'"
  by (auto simp: after_mutation_change_def bindE_Inr_iff ev.le_refl
      dest!: recompute_run_evolves activate_committed_frame [THEN strip_heads_evolves]
      intro: ev.le_trans split: if_splits option.splits)

lemma transition_mutation_evolves:
  assumes "transition_mutation mid to fc d = Inr (ok, d')"
  shows "evolves d d'"
proof (cases "ledger_ok d")
  case True
  from assms ledger_keys [OF True] show ?thesis
  proof (cases rule: transition_mutation_cases)
    case (moved cur)
    then show ?thesis
      by (blast intro: ev.le_trans cas_mutation_evolves after_mutation_change_evolves)
  qed (simp_all add: ev.le_refl)
qed (simp add: evolves_def)

text \<open>The loops over the children of a run carry an accumulator beside the database.\<close>

lemma acc_loop_evolves:
  assumes "foldE (\<lambda>mid (n, d). bindE (step mid d) (\<lambda>(ok, d'). Inr (acc mid ok n, d'))) ids (n, d)
      = Inr (n', d')"
    and "\<And>mid ok a b. step mid a = Inr (ok, b) \<Longrightarrow> evolves a b"
  shows "evolves d d'"
  using assms(1)
proof (induction ids arbitrary: n d)
  case Nil
  then show ?case by (simp add: ev.le_refl)
next
  case (Cons i ids)
  then show ?case
    by (auto simp: bindE_Inr_iff dest!: assms(2) intro: ev.le_trans)
qed

lemma transition_children_evolves:
  "transition_children rid to fc d = Inr (n, d') \<Longrightarrow> evolves d d'"
  unfolding transition_children_def
  by (rule acc_loop_evolves [where acc = "\<lambda>_ ok n. if ok then Suc n else n"])
    (auto dest: transition_mutation_evolves)

lemma purge_mutations_evolves:
  "purge_mutations P d = Inr (ids, d') \<Longrightarrow> evolves d d'"
  unfolding purge_mutations_def
  by (rule acc_loop_evolves [where acc = "\<lambda>mid ok ids. if ok then ids @ [mid] else ids"])
    (auto dest: transition_mutation_evolves)

lemmas lifecycle_evolves = transition_run_evolves recompute_run_evolves
  transition_mutation_evolves transition_children_evolves purge_mutations_evolves

subsection \<open>Proof rules for handlers\<close>

text \<open>
  \<open>evolving p d r\<close>: if the handler's result \<open>r\<close> is a value \<open>y\<close>, its database \<open>p y\<close> evolves from
  \<open>d\<close>. The rules follow the structure of a handler; a call is discharged by the callee's own lemma
  in \<open>evolving_intros\<close>.
\<close>

named_theorems evolving_intros "structural rules and one rule per lifecycle operation"

definition evolving :: "('y \<Rightarrow> db) \<Rightarrow> db \<Rightarrow> dao_error + 'y \<Rightarrow> bool" where
  "evolving p d r \<longleftrightarrow> (\<forall>y. r = Inr y \<longrightarrow> evolves d (p y))"

lemma evolvingD: "evolving p d r \<Longrightarrow> r = Inr y \<Longrightarrow> evolves d (p y)"
  by (simp add: evolving_def)

lemma evolving_simps [simp]: "evolving p d (Inl e)" "evolving p d (Inr y) \<longleftrightarrow> evolves d (p y)"
  by (simp_all add: evolving_def)

lemma evolving_bind [evolving_intros]:
  assumes "evolving snd d g" and "\<And>x d1. evolving p d1 (k (x, d1))"
  shows "evolving p d (bindE g k)"
  using assms by (cases g) (auto simp: evolving_def intro: ev.le_trans)

lemma evolving_bind_db [evolving_intros]:
  assumes "evolving (\<lambda>x. x) d g" and "\<And>d1. evolving p d1 (k d1)"
  shows "evolving p d (bindE g k)"
  using assms by (cases g) (auto simp: evolving_def intro: ev.le_trans)

lemma evolving_call: "(\<And>y. r = Inr y \<Longrightarrow> evolves d0 (p y)) \<Longrightarrow> evolves d d0 \<Longrightarrow> evolving p d r"
  by (auto simp: evolving_def intro: ev.le_trans)

lemma evolving_lifecycle [evolving_intros]:
  "evolves d d0 \<Longrightarrow> evolving snd d (transition_run rid rto ty fc det d0)"
  "evolves d d0 \<Longrightarrow> evolving snd d (recompute_run rid ty fc det d0)"
  "evolves d d0 \<Longrightarrow> evolving snd d (transition_mutation mid mto fc d0)"
  "evolves d d0 \<Longrightarrow> evolving snd d (transition_children rid mto fc d0)"
  "evolves d d0 \<Longrightarrow> evolving snd d (purge_mutations P d0)"
  by (rule evolving_call; auto dest: lifecycle_evolves)+

text \<open>Only runs, events and mutations matter for \<open>evolves\<close>.\<close>

lemma evolves_cong:
  assumes "runs b' = runs b" and "events b' = events b" and "muts b' = muts b"
  shows "evolves a b' \<longleftrightarrow> evolves a b"
proof -
  have "evolves b b'" "evolves b' b" by (rule evolves_frame; simp add: assms)+
  then show ?thesis by (blast intro: ev.le_trans)
qed

lemma evolves_other_tables [simp]:
  "evolves a (b\<lparr>docs := t1\<rparr>) = evolves a b" "evolves a (b\<lparr>revs := t2\<rparr>) = evolves a b"
  "evolves a (b\<lparr>chunks := t3\<rparr>) = evolves a b" "evolves a (b\<lparr>facts := t4\<rparr>) = evolves a b"
  "evolves a (b\<lparr>links := t5\<rparr>) = evolves a b" "evolves a (b\<lparr>entities := t6\<rparr>) = evolves a b"
  "evolves a (b\<lparr>artifacts := t7\<rparr>) = evolves a b" "evolves a (b\<lparr>registries := t8\<rparr>) = evolves a b"
  "evolves a (b\<lparr>owners := t9\<rparr>) = evolves a b" "evolves a (b\<lparr>cleanups := t10\<rparr>) = evolves a b"
  "evolves a (b\<lparr>outboxes := t11\<rparr>) = evolves a b" "evolves a (b\<lparr>attempts := t12\<rparr>) = evolves a b"
  "evolves a (b\<lparr>raw_logs := t13\<rparr>) = evolves a b" "evolves a (b\<lparr>queue := t14\<rparr>) = evolves a b"
  by (rule evolves_cong; simp)+

lemma evolves_self [simp]: "evolves a a"
  by (rule ev.le_refl)

subsection \<open>What transitions leave alone\<close>

definition mu_still :: "mutation \<Rightarrow> mutation" where
  "mu_still m = m\<lparr>mu_state := M_RECEIVED, mu_failure := None\<rparr>"

definition strip_life :: "db \<Rightarrow> db" where
  "strip_life d = d\<lparr>runs := [], events := [], revs := [], facts := [], muts := map mu_still (muts d)\<rparr>"

lemma strip_life_simps [simp]:
  "strip_life (d\<lparr>runs := t\<rparr>) = strip_life d" "strip_life (d\<lparr>events := u\<rparr>) = strip_life d"
  "strip_life (d\<lparr>revs := v\<rparr>) = strip_life d" "strip_life (d\<lparr>facts := w\<rparr>) = strip_life d"
  by (simp_all add: strip_life_def)

lemma strip_life_heads: "strip_heads b = strip_heads a \<Longrightarrow> strip_life b = strip_life a"
proof -
  have "strip_life d = strip_life (strip_heads d)" for d by (simp add: strip_life_def strip_heads_def)
  then show "strip_heads b = strip_heads a \<Longrightarrow> strip_life b = strip_life a" by metis
qed

lemma strip_life_sel:
  assumes "strip_life b = strip_life a"
  shows "map mu_still (muts b) = map mu_still (muts a)" "chunks b = chunks a"
    "docs b = docs a" "links b = links a" "entities b = entities a" "artifacts b = artifacts a"
    "registries b = registries a" "owners b = owners a" "cleanups b = cleanups a"
    "outboxes b = outboxes a" "attempts b = attempts a" "raw_logs b = raw_logs a"
    "queue b = queue a" "journals b = journals a" "receipts b = receipts a"
    "completions b = completions a"
  using assms by (cases a; cases b; simp add: strip_life_def)+

lemma strip_life_cas [simp]:
  "strip_life (cas_run rid cur to fc d) = strip_life d"
  "strip_life (cas_mutation mid mcur mto fc d) = strip_life d"
proof -
  show "strip_life (cas_run rid cur to fc d) = strip_life d" by (simp add: cas_run_def)
  have "map mu_still (upd P (\<lambda>m. m\<lparr>mu_state := s, mu_failure := f\<rparr>) t) = map mu_still t" for P s f t
    by (induction t) (auto simp: mu_still_def)
  then show "strip_life (cas_mutation mid mcur mto fc d) = strip_life d"
    by (simp add: strip_life_def cas_mutation_def)
qed

lemma transition_run_frame:
  "transition_run rid to ty fc det d = Inr (ok, d') \<Longrightarrow> strip_life d' = strip_life d"
  by (auto simp: transition_run_def Let_def split: option.splits if_splits)

lemma recompute_run_frame:
  "recompute_run rid ty fc det d = Inr (ok, d') \<Longrightarrow> strip_life d' = strip_life d"
  by (auto simp: recompute_run_def Let_def bindE_Inr_iff dest!: transition_run_frame
      split: option.splits if_splits)

lemma after_mutation_change_frame:
  "after_mutation_change mid to d = Inr (ok, d') \<Longrightarrow> strip_life d' = strip_life d"
  by (auto simp: after_mutation_change_def bindE_Inr_iff
      dest!: recompute_run_frame activate_committed_frame [THEN strip_life_heads]
      split: if_splits option.splits)

lemma transition_mutation_frame:
  "transition_mutation mid to fc d = Inr (ok, d') \<Longrightarrow> strip_life d' = strip_life d"
  by (auto simp: transition_mutation_def Let_def dest!: after_mutation_change_frame
      split: option.splits if_splits)

lemma acc_loop_frame:
  assumes "foldE (\<lambda>mid (n, d). bindE (step mid d) (\<lambda>(ok, d'). Inr (acc mid ok n, d'))) ids (n, d)
      = Inr (n', d')"
    and "\<And>mid ok a b. step mid a = Inr (ok, b) \<Longrightarrow> strip_life b = strip_life a"
  shows "strip_life d' = strip_life d"
  using assms(1)
proof (induction ids arbitrary: n d)
  case (Cons i ids)
  then show ?case by (auto simp: bindE_Inr_iff dest!: assms(2))
qed simp

lemma transition_children_frame:
  "transition_children rid to fc d = Inr (n, d') \<Longrightarrow> strip_life d' = strip_life d"
  unfolding transition_children_def
  by (rule acc_loop_frame [where acc = "\<lambda>_ ok n. if ok then Suc n else n"])
    (auto dest: transition_mutation_frame)

lemma purge_mutations_frame:
  "purge_mutations P d = Inr (ids, d') \<Longrightarrow> strip_life d' = strip_life d"
  unfolding purge_mutations_def
  by (rule acc_loop_frame [where acc = "\<lambda>mid ok ids. if ok then ids @ [mid] else ids"])
    (auto dest: transition_mutation_frame)

lemmas lifecycle_frame = transition_run_frame recompute_run_frame transition_mutation_frame
  transition_children_frame purge_mutations_frame

text \<open>The identity columns a mutation keeps.\<close>

lemma map_mu_still:
  assumes "map mu_still (muts b) = map mu_still (muts a)"
    and "\<And>m. g (mu_still m) = g m"
  shows "map g (muts b) = map g (muts a)"
proof -
  have "map g (muts x) = map g (map mu_still (muts x))" for x using assms(2) by simp
  then show ?thesis using assms(1) by metis
qed

end
