(* ===== verification/Revisions.thy ===== *)
theory Revisions imports History begin

text \<open>
  Document revisions (\<open>mesa_storage/dao.py\<close>): creation of a draft, its manifest, and the undo of
  an activation on rollback. The head invariant is the partial unique index
  \<open>uq_active_document_revision\<close>: at most one \<open>ACTIVE\<close> revision per document.
\<close>

subsection \<open>Creation and manifest\<close>

text \<open>
  \<open>create_v4_revision\<close> after the catalog resolved the external ids; \<open>h\<close> is the normalised hash and
  \<open>is_sha\<close> the test \<open>re.fullmatch("[0-9a-f]{64}", ..)\<close>.
\<close>

definition is_sha :: "string \<Rightarrow> bool" where
  "is_sha h \<longleftrightarrow> length h = 64 \<and> list_all (\<lambda>c. c \<in> set ''0123456789abcdef'') h"

definition create_revision ::
  "string \<Rightarrow> string \<Rightarrow> string \<Rightarrow> string \<Rightarrow> int \<Rightarrow> string \<Rightarrow> string option \<Rightarrow> db \<Rightarrow> dao_error + (revision \<times> db)"
  where
  "create_revision tenant dataset doc rid n h pred d =
    (if tenant = [] \<or> doc = [] \<or> rid = [] \<or> n < 1 \<or> \<not> is_sha h then Inl Missing_Identity
     else if \<not> list_ex (\<lambda>c. dc_id c = doc \<and> dc_status c \<noteq> D_PURGED \<and> dc_tenant c = tenant
       \<and> dc_dataset c = dataset) (docs d) then Inl Outside_Scope
     else if truthy pred \<and> map_option rv_document (rev_of d (the pred)) \<noteq> Some doc then Inl Outside_Scope
     else
       let row = \<lparr>rv_id = rid, rv_tenant = tenant, rv_document = doc, rv_number = n, rv_hash = Some h,
             rv_status = R_PENDING, rv_supersedes = pred, rv_manifest = None, rv_frozen_at = None\<rparr>;
           clash = list_ex (\<lambda>r. rv_id r = rid
             \<or> (rv_document r = doc \<and> (rv_number r = n \<or> rv_hash r = Some h))) (revs d);
           d1 = (if clash then d else d\<lparr>revs := revs d @ [row]\<rparr>)
       in case rev_of d1 rid of
            None \<Rightarrow> Inl Revision_Immutable
          | Some r \<Rightarrow>
              if (rv_tenant r, rv_document r, rv_number r, rv_hash r, rv_supersedes r)
                 \<noteq> (tenant, doc, n, Some h, pred) then Inl Revision_Immutable
              else Inr (r, d1))"

text \<open>
  \<open>_update_revision_manifest\<close>. The digest \<open>sha256(json.dumps(chunks))\<close> is the argument \<open>digest\<close>,
  a function of the chunks in manifest order.
\<close>

definition manifest_chunks :: "string \<Rightarrow> db \<Rightarrow> chunk list" where
  "manifest_chunks rid d = sort_key ch_ordinal (filter (\<lambda>c. ch_revision c = rid) (chunks d))"

definition update_manifest ::
  "(chunk list \<Rightarrow> string) \<Rightarrow> int \<Rightarrow> string \<Rightarrow> bool \<Rightarrow> db \<Rightarrow> dao_error + (string \<times> db)" where
  "update_manifest digest now rid fin d =
    (let cs = manifest_chunks rid d; h = digest cs;
         open = (\<lambda>r. rv_id r = rid \<and> rv_status r = R_PENDING \<and> rv_frozen_at r = None);
         d1 = d\<lparr>revs := upd open (\<lambda>r. r\<lparr>rv_manifest := Some h,
                  rv_frozen_at := (if fin then Some now else rv_frozen_at r)\<rparr>) (revs d)\<rparr>
     in if cs = [] then Inl Manifest_Empty
        else if rowcount open (revs d) \<noteq> 1 \<and> (case rev_of d rid of None \<Rightarrow> True
          | Some r \<Rightarrow> rv_manifest r \<noteq> Some h) then Inl Manifest_Frozen
        else if fin then bindE (reconcile_revision rid d1) (\<lambda>d2. Inr (h, d2))
        else Inr (h, d1))"

subsection \<open>Undoing an activation\<close>

text \<open>\<open>_restore_pipeline_supersession_in_tx\<close>, first loop: facts superseded by explicit links.\<close>

definition superseding_links :: "db \<Rightarrow> (mutation \<Rightarrow> bool) \<Rightarrow> string list" where
  "superseding_links d P = concat (map (\<lambda>l. concat (map (\<lambda>s.
      map (\<lambda>m. lk_target l) (filter (\<lambda>m. mu_id m = fa_mutation s \<and> P m) (muts d)))
      (filter (\<lambda>s. fa_id s = lk_source l) (facts d)))) (filter lk_supersedes (links d)))"

definition restore_facts :: "string \<Rightarrow> db \<Rightarrow> db" where
  "restore_facts rid d =
    fold (\<lambda>t d.
        if t \<in> set (superseding_links d (\<lambda>m. mu_run m \<noteq> None \<and> mu_run m \<noteq> Some rid
              \<and> mu_state m = M_COMMITTED)) then d
        else d\<lparr>facts := upd (\<lambda>f. fa_id f = t \<and> fa_status f = A_SUPERSEDED)
               (\<lambda>f. f\<lparr>fa_status := A_ACTIVE, fa_valid_to := []\<rparr>) (facts d)\<rparr>)
      (distinct_rows (superseding_links d (\<lambda>m. mu_run m = Some rid))) d"

text \<open>The second loop, one row per distinct (tenant, revision, metadata, document) of the run.\<close>

record restore_row =
  rs_tenant :: string
  rs_revision :: "string option"
  rs_meta :: meta
  rs_document :: "string option"
  rs_predecessor :: "string option"
  rs_doc_status :: "doc_status option"

definition restore_rows :: "string \<Rightarrow> db \<Rightarrow> restore_row list" where
  "restore_rows rid d = distinct_rows (map (\<lambda>m.
     let rv = Option.bind (mu_revision m) (rev_of d); dc = Option.bind rv (\<lambda>r. doc_of d (rv_document r))
     in \<lparr>rs_tenant = mu_tenant m, rs_revision = mu_revision m, rs_meta = mu_meta m,
         rs_document = map_option rv_document rv, rs_predecessor = Option.bind rv rv_supersedes,
         rs_doc_status = map_option dc_status dc\<rparr>) (children d rid))"

definition restore_fact_row :: "string \<Rightarrow> fact \<Rightarrow> fact" where
  "restore_fact_row vf f = f\<lparr>fa_status := A_ACTIVE,
     fa_valid_to := (if vf \<noteq> [] \<and> fa_valid_to f = vf then [] else fa_valid_to f)\<rparr>"

definition restore_revision :: "string \<Rightarrow> restore_row \<Rightarrow> db \<Rightarrow> dao_error + db" where
  "restore_revision rid row d =
    (if \<not> truthy (rs_revision row) \<or> rs_doc_status row = Some D_PURGED then Inr d
     else
       let rv = the (rs_revision row) in
       if list_ex (\<lambda>m. mu_revision m = Some rv \<and> mu_run m \<noteq> None \<and> mu_run m \<noteq> Some rid
            \<and> mu_state m = M_COMMITTED) (muts d) then Inr d
       else
         let d1 = d\<lparr>revs := upd (\<lambda>r. rv_id r = rv \<and> rv_status r \<in> {R_ACTIVE, R_PENDING})
               (rv_status_update (\<lambda>_. R_ROLLED_BACK)) (revs d)\<rparr>
         in if \<not> truthy (rs_predecessor row) then Inr d1
            else
              let pred = the (rs_predecessor row) in
              bindE (activate_revisions (\<lambda>r. rv_id r = pred \<and> Some (rv_document r) = rs_document row
                  \<and> rv_status r = R_SUPERSEDED) d1)
                (\<lambda>(_, d2). Inr (d2\<lparr>facts := upd (\<lambda>f. fa_tenant f = rs_tenant row
                   \<and> fa_revision f = pred \<and> fa_status f = A_SUPERSEDED)
                   (restore_fact_row (me_valid_from (rs_meta row))) (facts d2)\<rparr>)))"

definition restore_supersession :: "string \<Rightarrow> db \<Rightarrow> dao_error + db" where
  "restore_supersession rid d =
    (let d1 = restore_facts rid d in foldE (restore_revision rid) (restore_rows rid d1) d1)"

subsection \<open>The head invariant\<close>

definition revs_ok :: "db \<Rightarrow> bool" where
  "revs_ok d \<longleftrightarrow> distinct (map rv_id (revs d)) \<and> heads_ok (revs d)"

lemma ball_pairs_Cons:
  assumes "\<And>a b. Q a b \<Longrightarrow> Q b a" and "Q r r"
  shows "(\<forall>a \<in> set (r # t). \<forall>b \<in> set (r # t). Q a b) \<longleftrightarrow>
    (\<forall>a \<in> set t. \<forall>b \<in> set t. Q a b) \<and> (\<forall>b \<in> set t. Q r b)"
  using assms by auto

lemma heads_ok_iff:
  assumes "distinct (map rv_id t)"
  shows "heads_ok t \<longleftrightarrow> (\<forall>a \<in> set t. \<forall>b \<in> set t. rv_status a = R_ACTIVE \<longrightarrow> rv_status b = R_ACTIVE
    \<longrightarrow> rv_document a = rv_document b \<longrightarrow> rv_id a = rv_id b)"
  using assms
proof (induction t)
  case Nil
  then show ?case by (simp add: heads_ok_def)
next
  case (Cons r t)
  then have IH: "heads_ok t \<longleftrightarrow> (\<forall>a \<in> set t. \<forall>b \<in> set t. rv_status a = R_ACTIVE \<longrightarrow> rv_status b = R_ACTIVE
    \<longrightarrow> rv_document a = rv_document b \<longrightarrow> rv_id a = rv_id b)" by simp
  have ne: "\<forall>b \<in> set t. rv_id b \<noteq> rv_id r" using Cons.prems by (auto simp: image_iff)
  show ?case
  proof (cases "rv_status r = R_ACTIVE")
    case False
    then have "heads_ok (r # t) \<longleftrightarrow> heads_ok t" by (simp add: heads_ok_def)
    then show ?thesis using IH False by auto
  next
    case True
    then have step: "heads_ok (r # t) \<longleftrightarrow> heads_ok t \<and>
        (\<forall>b \<in> set t. rv_status b = R_ACTIVE \<longrightarrow> rv_document r \<noteq> rv_document b)"
      by (auto simp: heads_ok_def image_iff)
    have "(\<forall>b \<in> set t. rv_status r = R_ACTIVE \<longrightarrow> rv_status b = R_ACTIVE \<longrightarrow> rv_document r = rv_document b
        \<longrightarrow> rv_id r = rv_id b) \<longleftrightarrow> (\<forall>b \<in> set t. rv_status b = R_ACTIVE \<longrightarrow> rv_document r \<noteq> rv_document b)"
      using ne True by metis
    then show ?thesis unfolding step IH
      by (subst ball_pairs_Cons) auto
  qed
qed

lemma activate_revisions_ok:
  "activate_revisions P d = Inr (n, d') \<Longrightarrow> distinct (map rv_id (revs d)) \<Longrightarrow> revs_ok d'"
  by (auto simp: activate_revisions_def revs_ok_def Let_def table_simps split: if_splits)

text \<open>Retiring rows never breaks the index.\<close>

lemma heads_ok_retire:
  assumes "heads_ok t" and "\<And>r. P r \<Longrightarrow> rv_status (f r) \<noteq> R_ACTIVE"
  shows "heads_ok (upd P f t)"
proof -
  have "set (map rv_document (filter (\<lambda>r. rv_status r = R_ACTIVE) (upd P f t)))
      \<subseteq> set (map rv_document (filter (\<lambda>r. rv_status r = R_ACTIVE) t))" for t
    using assms(2) by (auto simp: set_upd split: if_splits)
  then show ?thesis
    using assms(1) unfolding heads_ok_def
    by (induction t) (use assms(2) in \<open>auto split: if_splits\<close>)
qed

text \<open>
  Activating the rows \<open>P\<close> keeps the index when they have one id and no other row of their
  document is active.
\<close>

lemma heads_ok_activate:
  assumes "distinct (map rv_id t)" and "heads_ok t"
    and one: "\<And>r r'. P r \<Longrightarrow> P r' \<Longrightarrow> rv_id r = rv_id r'"
    and free: "\<And>r a. r \<in> set t \<Longrightarrow> P r \<Longrightarrow> a \<in> set t \<Longrightarrow> rv_status a = R_ACTIVE \<Longrightarrow>
      rv_document a = rv_document r \<Longrightarrow> rv_id a = rv_id r"
  shows "heads_ok (upd P (rv_status_update (\<lambda>_. R_ACTIVE)) t)"
proof -
  have d: "distinct (map rv_id (upd P (rv_status_update (\<lambda>_. R_ACTIVE)) t))"
    using assms(1) by (simp add: table_simps)
  show ?thesis
    unfolding heads_ok_iff [OF d]
  proof (intro ballI impI)
    fix a b
    assume a: "a \<in> set (upd P (rv_status_update (\<lambda>_. R_ACTIVE)) t)"
      and b: "b \<in> set (upd P (rv_status_update (\<lambda>_. R_ACTIVE)) t)"
      and act: "rv_status a = R_ACTIVE" "rv_status b = R_ACTIVE" and doc: "rv_document a = rv_document b"
    from a obtain a0 where a0: "a0 \<in> set t" "rv_id a = rv_id a0" "rv_document a = rv_document a0"
      "P a0 \<or> rv_status a0 = R_ACTIVE"
      by (rule in_set_updE) (use act in auto)
    from b obtain b0 where b0: "b0 \<in> set t" "rv_id b = rv_id b0" "rv_document b = rv_document b0"
      "P b0 \<or> rv_status b0 = R_ACTIVE"
      by (rule in_set_updE) (use act in auto)
    have doc0: "rv_document a0 = rv_document b0" using a0(3) b0(3) doc by simp
    have "rv_id a0 = rv_id b0"
    proof (cases "P a0")
      case True
      show ?thesis
      proof (cases "P b0")
        case False
        then have "rv_status b0 = R_ACTIVE" using b0(4) by simp
        then show ?thesis using free [OF a0(1) True b0(1)] doc0 by simp
      qed (rule one [OF True])
    next
      case False
      then have aa: "rv_status a0 = R_ACTIVE" using a0(4) by simp
      show ?thesis
      proof (cases "P b0")
        case True
        then show ?thesis using free [OF b0(1) True a0(1) aa] doc0 by simp
      next
        case False
        then have "rv_status b0 = R_ACTIVE" using b0(4) by simp
        then show ?thesis using assms(2) aa doc0 a0(1) b0(1) heads_ok_iff [OF assms(1)] by blast
      qed
    qed
    then show "rv_id a = rv_id b" using a0(2) b0(2) by simp
  qed
qed

lemma find_in_table: "rev_of d i = Some r \<Longrightarrow> r \<in> set (revs d) \<and> rv_id r = i"
  by (auto simp: rev_of_def dest: find_SomeD)

lemma replace_head_ok:
  assumes ok: "revs_ok d" and rv: "rev_of d (rv_id rv) = Some rv" "rv_status rv = R_PENDING"
  shows "replace_head rv pred d \<noteq> Inl Integrity_Error"
    and "replace_head rv pred d = Inr d' \<Longrightarrow> revs_ok d'"
proof -
  let ?old = "\<lambda>r. rv_id r = pred \<and> rv_document r = rv_document rv \<and> rv_status r = R_ACTIVE"
  let ?new = "\<lambda>r. rv_id r = rv_id rv \<and> rv_status r = R_PENDING"
  let ?t = "upd ?old (rv_status_update (\<lambda>_. R_SUPERSEDED)) (revs d)"
  have dist: "distinct (map rv_id ?t)" using ok by (simp add: revs_ok_def table_simps)
  have ret: "heads_ok ?t" using ok by (auto simp: revs_ok_def intro: heads_ok_retire)
  have idx: "\<forall>a \<in> set (revs d). \<forall>b \<in> set (revs d). rv_status a = R_ACTIVE \<longrightarrow> rv_status b = R_ACTIVE
    \<longrightarrow> rv_document a = rv_document b \<longrightarrow> rv_id a = rv_id b"
    using ok heads_ok_iff by (auto simp: revs_ok_def)
  have uniq: "r = rv" if "r \<in> set (revs d)" "rv_id r = rv_id rv" for r
    using that ok find_distinct [of rv_id "revs d" r] rv(1) by (simp add: revs_ok_def rev_of_def)
  have "heads_ok (upd ?new (rv_status_update (\<lambda>_. R_ACTIVE)) ?t)" if "rowcount ?old (revs d) = 1"
  proof (rule heads_ok_activate [OF dist ret])
    fix r a
    assume r: "r \<in> set ?t" "?new r" and a: "a \<in> set ?t" "rv_status a = R_ACTIVE" "rv_document a = rv_document r"
    have "r = rv" using r(1)
    proof (cases rule: in_set_updE)
      case (hit q)
      then show ?thesis using r(2) by simp
    next
      case miss
      then show ?thesis using r(2) uniq by simp
    qed
    have a': "a \<in> set (revs d)" "\<not> ?old a"
      using a(1) by (cases rule: in_set_updE; use a(2) in simp)+
    obtain h where h: "h \<in> set (revs d)" "?old h"
    proof -
      have "rowcount ?old (revs d) \<noteq> 0" using \<open>rowcount ?old (revs d) = 1\<close> by simp
      then show ?thesis using that by (auto simp: rowcount_0_iff)
    qed
    have "rv_id a = rv_id h" using idx a'(1) h a(2,3) \<open>r = rv\<close> by metis
    then have "?old a" using h(2) a(2,3) \<open>r = rv\<close> by simp
    with a'(2) show "rv_id a = rv_id r" by simp
  qed simp
  then show "replace_head rv pred d \<noteq> Inl Integrity_Error"
    by (auto simp: replace_head_def activate_revisions_def Let_def)
  show "revs_ok d'" if "replace_head rv pred d = Inr d'"
    using that dist
    by (auto simp: replace_head_def bindE_Inr_iff Let_def revs_ok_def
        dest: activate_revisions_ok split: if_splits)
qed

lemma claim_head_ok:
  assumes "revs_ok d"
  shows "claim_head rv d \<noteq> Inl Integrity_Error" and "claim_head rv d = Inr d' \<Longrightarrow> revs_ok d'"
proof -
  let ?P = "\<lambda>r. rv_id r = rv_id rv \<and> rv_status r = R_PENDING
    \<and> \<not> list_ex (\<lambda>a. rv_document a = rv_document r \<and> rv_status a = R_ACTIVE) (revs d)"
  have "heads_ok (upd ?P (rv_status_update (\<lambda>_. R_ACTIVE)) (revs d))"
    by (rule heads_ok_activate) (use assms in \<open>auto simp: revs_ok_def list_ex_iff\<close>)
  then show "claim_head rv d \<noteq> Inl Integrity_Error"
    by (simp add: claim_head_def activate_revisions_def Let_def)
  show "revs_ok d'" if "claim_head rv d = Inr d'"
    using that assms
    by (auto simp: claim_head_def bindE_Inr_iff revs_ok_def dest: activate_revisions_ok split: if_splits)
qed

lemma reconcile_revision_ok:
  assumes "revs_ok d"
  shows "reconcile_revision rid d \<noteq> Inl Integrity_Error"
    and "reconcile_revision rid d = Inr d' \<Longrightarrow> revs_ok d'"
proof -
  have rv: "rev_of d (rv_id x) = Some x" if "rev_of d rid = Some x" for x
    using that find_in_table [OF that] by simp
  show "reconcile_revision rid d \<noteq> Inl Integrity_Error"
    using rv replace_head_ok(1) [OF assms] claim_head_ok(1) [OF assms]
    by (simp add: reconcile_revision_def split: option.split)
  show "revs_ok d'" if "reconcile_revision rid d = Inr d'"
    using that rv assms replace_head_ok(2) [OF assms] claim_head_ok(2) [OF assms]
    by (auto simp: reconcile_revision_def split: option.splits if_splits)
qed

end
