(* ===== verification/Ledger.thy ===== *)
theory Ledger imports Revisions begin

text \<open>
  The ledger operations of \<open>mesa_storage/dao.py\<close> that ingestion calls: admission of a candidate
  (\<open>record_mutation\<close>), its durable extraction, its state changes (\<open>set_mutation_state\<close>) and the
  registration of the artifacts a projector wrote. An identifier the source computes with
  \<open>uuid5\<close> is represented by the name it hashes.
\<close>

subsection \<open>Identifiers\<close>

definition valid_agent :: "string \<Rightarrow> bool" where
  "valid_agent a \<longleftrightarrow> a \<notin> {''__unset__'', ''__system__'', ''''}"

fun lane_name :: "lane \<Rightarrow> string" where
  "lane_name SQL = ''SQL''" | "lane_name VECTOR = ''VECTOR''" | "lane_name GRAPH = ''GRAPH''"

fun kind_name :: "kind \<Rightarrow> string" where
  "kind_name ENTITY = ''ENTITY''" | "kind_name ASSERTION = ''ASSERTION''"
| "kind_name ENTITY_VECTOR = ''ENTITY_VECTOR''" | "kind_name ASSERTION_VECTOR = ''ASSERTION_VECTOR''"

fun mut_name :: "mut_state \<Rightarrow> string" where
  "mut_name M_RECEIVED = ''RECEIVED''" | "mut_name M_EXTRACTED = ''EXTRACTED''"
| "mut_name M_VALIDATED = ''VALIDATED''" | "mut_name M_PENDING = ''PENDING''"
| "mut_name M_SQL_APPLIED = ''SQL_APPLIED''" | "mut_name M_VECTOR_APPLIED = ''VECTOR_APPLIED''"
| "mut_name M_GRAPH_APPLIED = ''GRAPH_APPLIED''" | "mut_name M_COMMITTED = ''COMMITTED''"
| "mut_name M_RETRY_PENDING = ''RETRY_PENDING''" | "mut_name M_DEAD_LETTER = ''DEAD_LETTER''"
| "mut_name M_BLOCKED = ''BLOCKED''" | "mut_name M_ROLLING_BACK = ''ROLLING_BACK''"
| "mut_name M_PURGING = ''PURGING''" | "mut_name M_ROLLED_BACK = ''ROLLED_BACK''"
| "mut_name M_PURGED = ''PURGED''" | "mut_name M_REJECTED = ''REJECTED''"
| "mut_name M_CANCELLED = ''CANCELLED''"

definition unit_sep :: string where "unit_sep = [CHR 0x1F]"

definition projection_id :: "string \<Rightarrow> lane \<Rightarrow> string" where
  "projection_id mid l = mid @ '':'' @ lane_name l"

definition registry_agent :: "lane \<Rightarrow> string \<Rightarrow> string" where
  "registry_agent s agent = (if s = SQL then ''__tenant__'' else agent)"

definition registry_id :: "string \<Rightarrow> string \<Rightarrow> lane \<Rightarrow> kind \<Rightarrow> string \<Rightarrow> string" where
  "registry_id tenant agent s k a =
    tenant @ unit_sep @ agent @ unit_sep @ lane_name s @ unit_sep @ kind_name k @ unit_sep @ a"

definition cleanup_id :: "string \<Rightarrow> string \<Rightarrow> string" where
  "cleanup_id rid reg = ''cleanup:'' @ rid @ '':'' @ reg"

subsection \<open>Inserts that ignore conflicts\<close>

definition insert_run :: "string \<Rightarrow> string \<Rightarrow> db \<Rightarrow> db" where
  "insert_run rid agent d =
    (if list_ex (\<lambda>r. rn_id r = rid) (runs d) then d
     else d\<lparr>runs := runs d @ [\<lparr>rn_id = rid, rn_agent = agent, rn_state = P_QUEUED, rn_failure = None\<rparr>]\<rparr>)"

definition insert_admission :: "string \<Rightarrow> db \<Rightarrow> db" where
  "insert_admission rid d =
    (if list_ex (\<lambda>e. ev_id e = Admission_Event rid) (events d) then d
     else d\<lparr>events := events d @ [\<lparr>ev_id = Admission_Event rid, ev_run = rid, ev_from = None,
       ev_to = P_QUEUED, ev_type = ''ADMITTED'', ev_detail = []\<rparr>]\<rparr>)"

definition insert_mutation :: "mutation \<Rightarrow> db \<Rightarrow> db" where
  "insert_mutation m d =
    (if list_ex (\<lambda>x. mu_id x = mu_id m \<or> mu_candidate x = mu_candidate m
        \<or> (mu_raw_log m \<noteq> None \<and> mu_raw_log x = mu_raw_log m)) (muts d) then d
     else d\<lparr>muts := muts d @ [m]\<rparr>)"

definition insert_outbox :: "int \<Rightarrow> string \<Rightarrow> lane \<Rightarrow> db \<Rightarrow> db" where
  "insert_outbox now mid l d =
    (if list_ex (\<lambda>p. ob_id p = projection_id mid l \<or> (ob_mutation p = mid \<and> ob_lane p = l)) (outboxes d)
     then d
     else d\<lparr>outboxes := outboxes d @ [\<lparr>ob_id = projection_id mid l, ob_mutation = mid, ob_lane = l,
       ob_state = O_BLOCKED_VALIDATION, ob_attempts = 0, ob_limit = 5, ob_token = None, ob_by = None,
       ob_lease = None, ob_error = None, ob_created = now\<rparr>]\<rparr>)"

subsection \<open>Admission\<close>

record candidate =
  ca_mutation :: string
  ca_candidate :: string
  ca_raw_log :: "int option"
  ca_tenant :: string
  ca_workspace :: string
  ca_dataset :: string
  ca_document :: string
  ca_revision :: string
  ca_chunk :: string
  ca_agent :: string
  ca_session :: string
  ca_content :: string
  ca_source :: string
  ca_run :: string
  ca_meta :: meta
  ca_identity :: identity

definition received :: "candidate \<Rightarrow> mutation" where
  "received c = \<lparr>mu_id = ca_mutation c, mu_candidate = ca_candidate c, mu_raw_log = ca_raw_log c,
    mu_tenant = ca_tenant c, mu_agent = ca_agent c, mu_dataset = ca_dataset c,
    mu_document = Some (ca_document c), mu_revision = Some (ca_revision c),
    mu_chunk = Some (ca_chunk c), mu_run = Some (ca_run c), mu_state = M_RECEIVED,
    mu_failure = None, mu_meta = ca_meta c, mu_identity = ca_identity c\<rparr>"

definition identity_given :: "identity \<Rightarrow> bool" where
  "identity_given i \<longleftrightarrow> id_provider i \<noteq> None \<or> id_model i \<noteq> None \<or> id_version i \<noteq> None
    \<or> id_dimension i \<noteq> None"

definition identity_complete :: "identity \<Rightarrow> bool" where
  "identity_complete i \<longleftrightarrow> truthy (id_provider i) \<and> truthy (id_model i) \<and> truthy (id_version i)
    \<and> (case id_dimension i of None \<Rightarrow> False | Some n \<Rightarrow> 1 \<le> n)"

definition identity_conflict :: "identity \<Rightarrow> identity \<Rightarrow> bool" where
  "identity_conflict old new \<longleftrightarrow>
    (id_provider old \<noteq> None \<and> id_provider old \<noteq> id_provider new)
    \<or> (id_model old \<noteq> None \<and> id_model old \<noteq> id_model new)
    \<or> (id_version old \<noteq> None \<and> id_version old \<noteq> id_version new)
    \<or> (id_dimension old \<noteq> None \<and> id_dimension old \<noteq> id_dimension new)"

text \<open>The snapshot of the embedding identity in the metadata, unless there is one.\<close>

definition stamp_identity :: "identity \<Rightarrow> meta \<Rightarrow> meta" where
  "stamp_identity i e =
    (if me_identity e = None \<and> truthy (id_provider i) \<and> truthy (id_model i) \<and> truthy (id_version i)
        \<and> id_dimension i \<notin> {None, Some 0}
     then e\<lparr>me_identity := Some i\<rparr> else e)"

definition stamped :: "candidate \<Rightarrow> candidate" where
  "stamped c = c\<lparr>ca_meta := stamp_identity (ca_identity c) (ca_meta c)\<rparr>"

lemma stamped_sel [simp]:
  "ca_mutation (stamped c) = ca_mutation c" "ca_candidate (stamped c) = ca_candidate c" "ca_raw_log (stamped c) = ca_raw_log c"
  "ca_agent (stamped c) = ca_agent c" "ca_run (stamped c) = ca_run c" "ca_identity (stamped c) = ca_identity c"
  by (simp_all add: stamped_def)

text \<open>\<open>record_mutation\<close> after the catalog resolved the scope ids.\<close>

definition record_mutation :: "int \<Rightarrow> candidate \<Rightarrow> db \<Rightarrow> dao_error + (mutation \<times> db)" where
  "record_mutation now c d =
    (if [] \<in> {ca_mutation c, ca_candidate c, ca_tenant c, ca_workspace c, ca_dataset c, ca_document c, ca_revision c,
          ca_chunk c, ca_agent c, ca_session c, ca_content c, ca_source c, ca_run c} then Inl Missing_Identity
     else if \<not> valid_agent (ca_agent c) then Inl Invalid_Agent
     else
       let d1 = insert_mutation (received (stamped c)) (insert_admission (ca_run c) (insert_run (ca_run c) (ca_agent c) d));
           d2 = fold (insert_outbox now (ca_mutation c)) [SQL, VECTOR, GRAPH] d1
       in case find (\<lambda>m. mu_id m = ca_mutation c \<and> mu_agent m = ca_agent c) (muts d2) of
            None \<Rightarrow> Inl Not_Persisted
          | Some old \<Rightarrow>
              if mu_candidate old \<noteq> ca_candidate c then Inl Candidate_Collision
              else if \<not> identity_given (ca_identity c) then Inr (old, d2)
              else if \<not> identity_complete (ca_identity c) then Inl Incomplete_Identity
              else if identity_conflict (mu_identity old) (ca_identity c) then Inl Identity_Conflict
              else Inr (old\<lparr>mu_identity := ca_identity c\<rparr>,
                d2\<lparr>muts := upd (\<lambda>m. mu_id m = ca_mutation c) (mu_identity_update (\<lambda>_. ca_identity c))
                  (muts d2)\<rparr>))"

subsection \<open>Extraction\<close>

definition normalise_triplets :: "triplet list \<Rightarrow> triplet list" where
  "normalise_triplets ts =
    map (\<lambda>t. t\<lparr>tr_confidence := Some (case tr_confidence t of None \<Rightarrow> ''1.0'' | Some c \<Rightarrow> c),
               tr_fact_text := Some (case tr_fact_text t of None \<Rightarrow> [] | Some x \<Rightarrow> x),
               tr_object_type := (if truthy (tr_object_type t) then tr_object_type t else tr_tail_type t),
               tr_tail_type := None, tr_more := Some (case tr_more t of None \<Rightarrow> [] | Some x \<Rightarrow> x)\<rparr>)
      (filter (\<lambda>t. truthy (tr_head t) \<and> truthy (tr_relation t)
         \<and> (tr_tail t = None) \<noteq> (tr_literal t = None)) ts)"

definition record_extraction :: "string \<Rightarrow> string \<Rightarrow> triplet list \<Rightarrow> db \<Rightarrow> dao_error + (bool \<times> db)" where
  "record_extraction agent mid ts d =
    (if \<not> valid_agent agent then Inl Invalid_Agent
     else case find (\<lambda>m. mu_id m = mid \<and> mu_agent m = agent) (muts d) of
       None \<Rightarrow> Inr (False, d)
     | Some m \<Rightarrow>
         let meta = (mu_meta m)\<lparr>me_triplets := Some (normalise_triplets ts)\<rparr>;
             hit = (\<lambda>m. mu_id m = mid \<and> mu_agent m = agent
               \<and> mu_state m \<in> {M_RECEIVED, M_EXTRACTED, M_RETRY_PENDING});
             d1 = d\<lparr>muts := upd hit (mu_meta_update (\<lambda>_. meta)) (muts d)\<rparr>
         in if rowcount hit (muts d) = 1 then transition_mutation mid M_EXTRACTED None d1
            else Inr (False, d1))"

subsection \<open>State changes requested by the worker\<close>

definition settable :: "mut_state \<Rightarrow> bool" where
  "settable s \<longleftrightarrow> s \<notin> {M_PENDING, M_PURGING, M_PURGED, M_CANCELLED}"

definition clip :: "string option \<Rightarrow> string option" where
  "clip fc = (if truthy fc then Some (take 120 (the fc)) else None)"

definition release_claim :: "outbox_state \<Rightarrow> outbox \<Rightarrow> outbox" where
  "release_claim s p = p\<lparr>ob_state := s, ob_token := None, ob_by := None, ob_lease := None\<rparr>"

definition open_lanes :: "string \<Rightarrow> db \<Rightarrow> db" where
  "open_lanes mid d = d\<lparr>outboxes := upd (\<lambda>p. ob_mutation p = mid \<and> ob_state p = O_BLOCKED_VALIDATION)
     (\<lambda>p. p\<lparr>ob_state := O_PENDING\<rparr>) (outboxes d)\<rparr>"

definition cancel_lanes :: "string \<Rightarrow> db \<Rightarrow> db" where
  "cancel_lanes mid d = d\<lparr>outboxes := upd (\<lambda>p. ob_mutation p = mid
       \<and> ob_state p \<in> {O_BLOCKED_VALIDATION, O_PENDING, O_RETRY_PENDING})
     (release_claim O_CANCELLED) (outboxes d)\<rparr>"

definition set_mutation_state ::
  "string \<Rightarrow> string \<Rightarrow> mut_state \<Rightarrow> string option \<Rightarrow> json \<Rightarrow> db \<Rightarrow> dao_error + (bool \<times> db)" where
  "set_mutation_state agent mid s fc det d =
    (if \<not> valid_agent agent then Inl Invalid_Agent
     else if \<not> settable s then Inl Invalid_State
     else case find (\<lambda>m. mu_id m = mid \<and> mu_agent m = agent) (muts d) of
       None \<Rightarrow> Inr (False, d)
     | Some m \<Rightarrow>
         bindE (transition_mutation mid s (clip fc) d) (\<lambda>(changed, d1).
           let d2 = (if changed \<and> s = M_VALIDATED then open_lanes mid d1
                     else if changed \<and> s = M_REJECTED then cancel_lanes mid d1 else d1)
           in if changed \<and> truthy (mu_run m)
              then bindE (recompute_run (the (mu_run m)) (''MUTATION_'' @ mut_name s) fc det d2)
                (\<lambda>(_, d3). Inr (changed, d3))
              else Inr (changed, d2)))"

subsection \<open>Artifacts\<close>

definition fenced_mut :: "mut_state \<Rightarrow> bool" where
  "fenced_mut s \<longleftrightarrow> s \<in> {M_ROLLING_BACK, M_ROLLED_BACK, M_PURGING, M_PURGED, M_CANCELLED, M_REJECTED}"

definition fenced_run :: "run_state option \<Rightarrow> bool" where
  "fenced_run s \<longleftrightarrow> s \<in> {Some P_ROLLING_BACK, Some P_ROLLED_BACK, Some P_PURGED, Some P_CANCELLED,
     Some P_REJECTED}"

definition doc_purged :: "db \<Rightarrow> string option \<Rightarrow> bool" where
  "doc_purged d i \<longleftrightarrow> truthy i \<and> map_option dc_status (doc_of d (the i)) = Some D_PURGED"

definition fenced :: "db \<Rightarrow> mutation \<Rightarrow> bool" where
  "fenced d m \<longleftrightarrow> fenced_mut (mu_state m) \<or> fenced_run (joined_run_state d m)
     \<or> doc_purged d (mu_document m)"

definition insert_artifact :: "artifact \<Rightarrow> db \<Rightarrow> db" where
  "insert_artifact a d = (if a \<in> set (artifacts d) then d else d\<lparr>artifacts := artifacts d @ [a]\<rparr>)"

definition same_physical :: "registry \<Rightarrow> registry \<Rightarrow> bool" where
  "same_physical a b \<longleftrightarrow> rg_tenant a = rg_tenant b \<and> rg_agent a = rg_agent b \<and> rg_store a = rg_store b
     \<and> rg_kind a = rg_kind b \<and> rg_physical a = rg_physical b"

definition insert_registry :: "registry \<Rightarrow> db \<Rightarrow> db" where
  "insert_registry g d = (if list_ex (\<lambda>x. same_physical x g \<or> rg_id x = rg_id g) (registries d) then d
     else d\<lparr>registries := registries d @ [g]\<rparr>)"

definition chunk_key :: "string option \<Rightarrow> string" where
  "chunk_key c = (case c of None \<Rightarrow> [] | Some t \<Rightarrow> t)"

definition insert_owner :: "ownership \<Rightarrow> db \<Rightarrow> db" where
  "insert_owner w d = (if list_ex (\<lambda>x. so_registry x = so_registry w \<and> so_mutation x = so_mutation w
       \<and> chunk_key (so_chunk x) = chunk_key (so_chunk w)) (owners d) then d
     else d\<lparr>owners := owners d @ [w]\<rparr>)"

definition record_artifact :: "string \<Rightarrow> lane \<Rightarrow> kind \<Rightarrow> string \<Rightarrow> db \<Rightarrow> dao_error + db" where
  "record_artifact mid s k a d =
    (if mid = [] \<or> a = [] then Inl Missing_Identity
     else case mut_of d mid of
       None \<Rightarrow> Inl Unknown_Owner
     | Some m \<Rightarrow>
         if fenced_mut (mu_state m) \<or> fenced_run (joined_run_state d m) then Inl Fenced_Owner
         else if doc_purged d (mu_document m) then Inl Purged_Document
         else
           let agent = registry_agent s (mu_agent m); reg = registry_id (mu_tenant m) agent s k a
           in Inr (insert_owner \<lparr>so_registry = reg, so_mutation = mid, so_run = mu_run m,
                     so_dataset = mu_dataset m, so_document = mu_document m,
                     so_chunk = mu_chunk m, so_state = S_ACTIVE\<rparr>
                (insert_registry \<lparr>rg_id = reg, rg_tenant = mu_tenant m, rg_agent = agent, rg_store = s,
                     rg_kind = k, rg_physical = a, rg_state = G_ACTIVE\<rparr>
                  (insert_artifact \<lparr>ar_mutation = mid, ar_store = s, ar_kind = k, ar_artifact = a\<rparr> d))))"

text \<open>\<open>_assert_v4_projection_write_allowed\<close>.\<close>

definition write_allowed :: "string \<Rightarrow> db \<Rightarrow> dao_error + unit" where
  "write_allowed mid d =
    (case mut_of d mid of
      None \<Rightarrow> Inl Unknown_Mutation
    | Some m \<Rightarrow> if fenced_mut (mu_state m) \<or> fenced_run (joined_run_state d m)
          \<or> Option.bind (Option.bind (mu_document m) (doc_of d)) (\<lambda>x. Some (dc_status x)) = Some D_PURGED
        then Inl Fenced_Owner else Inr ())"

end
