(* ===== verification/Leases.thy ===== *)
theory Leases imports Prelude begin

text \<open>
  The claim protocol shared by the durable queues (projection outbox, cleanup outbox, dispatch
  queue, vector WAL, session finalization, raw logs). A claim reads a bounded list of candidate
  ids and then compare-and-swaps each of them; a holder later releases its row with a guarded
  update. The locale \<open>leased\<close> states what a queue's columns must satisfy for its claims to be
  exclusive; every queue interprets it.
\<close>

subsection \<open>The claim loop\<close>

text \<open>
  \<open>for id in identifiers: cursor = UPDATE .. WHERE id = ? AND <claimable>; if rowcount == 1: append\<close>.
\<close>

fun claim_loop :: "('r \<Rightarrow> 'k) \<Rightarrow> ('r \<Rightarrow> bool) \<Rightarrow> ('r \<Rightarrow> 'r) \<Rightarrow> 'k list \<Rightarrow> 'r list \<Rightarrow> 'k list \<times> 'r list" where
  "claim_loop key free grab [] t = ([], t)"
| "claim_loop key free grab (i # is) t =
    (let hit = (\<lambda>r. key r = i \<and> free r); (c, t') = claim_loop key free grab is (upd hit grab t)
     in (if rowcount hit t = 1 then i # c else c, t'))"

lemma claim_loop_keys:
  assumes "\<And>r. key (grab r) = key r"
  shows "map key (snd (claim_loop key free grab is t)) = map key t"
proof (induction "is" arbitrary: t)
  case (Cons i "is")
  then show ?case using assms by (simp add: Let_def split_def table_simps)
qed simp

lemma claim_loop_ids: "set (fst (claim_loop key free grab is t)) \<subseteq> set is"
  by (induction "is" arbitrary: t) (auto simp: Let_def split_def)

text \<open>With distinct candidates the loop is one bulk update, and it claims what was free.\<close>

lemma claim_loop_bulk:
  assumes "\<And>r. key (grab r) = key r" and "distinct is"
  shows "snd (claim_loop key free grab is t) = upd (\<lambda>r. key r \<in> set is \<and> free r) grab t"
  using assms(2)
proof (induction "is" arbitrary: t)
  case Nil
  then show ?case by (simp add: upd_id)
next
  case (Cons i "is")
  have "upd (\<lambda>r. key r \<in> set is \<and> free r) grab (upd (\<lambda>r. key r = i \<and> free r) grab t)
      = upd (\<lambda>r. key r \<in> set (i # is) \<and> free r) grab t"
    using Cons.prems assms(1) by (induction t) auto
  then show ?case using Cons by (simp add: Let_def split_def)
qed

lemma claim_loop_claimed:
  assumes key: "\<And>r. key (grab r) = key r" and "distinct is" and "distinct (map key t)"
  shows "i \<in> set (fst (claim_loop key free grab is t)) \<longleftrightarrow> i \<in> set is \<and> (\<exists>r \<in> set t. key r = i \<and> free r)"
  using assms(2,3)
proof (induction "is" arbitrary: t)
  case Nil
  then show ?case by simp
next
  case (Cons j js)
  let ?hit = "\<lambda>r. key r = j \<and> free r"
  let ?t = "upd ?hit grab t"
  have IH: "i \<in> set (fst (claim_loop key free grab js ?t)) \<longleftrightarrow>
      i \<in> set js \<and> (\<exists>r \<in> set ?t. key r = i \<and> free r)"
    by (rule Cons.IH) (use Cons.prems key in \<open>auto simp: table_simps\<close>)
  have same: "(\<exists>r \<in> set ?t. key r = i \<and> free r) \<longleftrightarrow> (\<exists>r \<in> set t. key r = i \<and> free r)" if "i \<noteq> j"
    using that key by (force simp: set_upd)
  have one: "rowcount ?hit t = 1 \<longleftrightarrow> (\<exists>r \<in> set t. key r = j \<and> free r)"
  proof
    assume "rowcount ?hit t = 1"
    then have "rowcount ?hit t \<noteq> 0" by simp
    then show "\<exists>r \<in> set t. key r = j \<and> free r" by (simp add: rowcount_0_iff)
  next
    assume "\<exists>r \<in> set t. key r = j \<and> free r"
    then obtain r where "r \<in> set t" "?hit r" by blast
    then show "rowcount ?hit t = 1"
      by (intro rowcount_key_1 [OF Cons.prems(2), where x = j and r = r]) auto
  qed
  show ?case
    using IH same one Cons.prems(1) by (cases "i = j") (auto simp: Let_def split_def)
qed

lemma claim_loop_distinct:
  "distinct is \<Longrightarrow> distinct (fst (claim_loop key free grab is t))"
proof (induction "is" arbitrary: t)
  case (Cons i "is")
  then show ?case
    using claim_loop_ids [of key free grab "is" "upd (\<lambda>r. key r = i \<and> free r) grab t"]
    by (auto simp: Let_def split_def)
qed simp

lemma claim_loop_row:
  assumes "\<And>r. key (grab r) = key r" and "distinct is"
    and "r \<in> set (snd (claim_loop key free grab is t))"
  obtains (old) "r \<in> set t" "\<not> (key r \<in> set is \<and> free r)"
    | (claimed) r0 where "r0 \<in> set t" "free r0" "key r0 \<in> set is" "r = grab r0"
proof -
  have "snd (claim_loop key free grab is t) = upd (\<lambda>r. key r \<in> set is \<and> free r) grab t"
    by (rule claim_loop_bulk) (rule assms(1), rule assms(2))
  then have "r \<in> set (upd (\<lambda>r. key r \<in> set is \<and> free r) grab t)" using assms(3) by simp
  then show thesis by (cases rule: in_set_updE) (use old claimed in auto)
qed

lemma same_row: "distinct (map key t) \<Longrightarrow> r \<in> set t \<Longrightarrow> r' \<in> set t \<Longrightarrow> key r = key r' \<Longrightarrow> r = r'"
  by (simp add: distinct_map inj_on_def)

subsection \<open>Exclusive leases\<close>

text \<open>
  \<open>free now r\<close>: a claim at \<open>now\<close> may take the row. \<open>grab tok until r\<close>: the row after the claim.
  \<open>held tok r\<close>: a completion with the token would match.
\<close>

locale leased =
  fixes key :: "'r \<Rightarrow> 'k"
    and free :: "int \<Rightarrow> 'r \<Rightarrow> bool"
    and grab :: "string \<Rightarrow> string \<Rightarrow> int \<Rightarrow> 'r \<Rightarrow> 'r"
    and held :: "string \<Rightarrow> string \<Rightarrow> 'r \<Rightarrow> bool"
  assumes key_grab: "key (grab tok w until r) = key r"
    and held_grab: "held tok' w' (grab tok w until r) \<longleftrightarrow> tok' = tok \<and> w' = w"
    and free_grab: "free now (grab tok w until r) \<Longrightarrow> until \<le> now"
begin

lemma grab_not_free: "now < until \<Longrightarrow> \<not> free now (grab tok w until r)"
  using free_grab [of now tok w until r] by linarith

text \<open>A row just claimed is claimed by nobody else before its lease ends.\<close>

lemma claim_loop_grabbed:
  assumes "distinct is" and "distinct (map key t)"
    and "i \<in> set (fst (claim_loop key (free now) (grab tok w until) is t))"
    and "r \<in> set (snd (claim_loop key (free now) (grab tok w until) is t))" and "key r = i"
  shows "\<exists>r0 \<in> set t. free now r0 \<and> r = grab tok w until r0"
proof -
  obtain r0 where r0: "r0 \<in> set t" "key r0 = i" "free now r0" and i_in: "i \<in> set is"
    using assms(3) claim_loop_claimed [of key "grab tok w until", OF key_grab assms(1,2)] by blast
  from key_grab assms(1,4) show ?thesis
  proof (rule claim_loop_row)
    assume "r \<in> set t" and nf: "\<not> (key r \<in> set is \<and> free now r)"
    then have "r = r0" using same_row [OF assms(2)] assms(5) r0 by simp
    then show ?thesis using nf r0 i_in by simp
  qed blast
qed

lemma claimed_rows_exclusive:
  assumes "distinct is" and "distinct js" and "distinct (map key t)"
    and "now' < until"
    and i: "i \<in> set (fst (claim_loop key (free now) (grab tok w until) is t))"
  shows "i \<notin> set (fst (claim_loop key (free now') (grab tok' w' until') js
           (snd (claim_loop key (free now) (grab tok w until) is t))))"
proof
  let ?t = "snd (claim_loop key (free now) (grab tok w until) is t)"
  assume "i \<in> set (fst (claim_loop key (free now') (grab tok' w' until') js ?t))"
  moreover have "map key ?t = map key t" by (rule claim_loop_keys) (rule key_grab)
  then have "distinct (map key ?t)" using assms(3) by simp
  ultimately obtain r where r: "r \<in> set ?t" "key r = i" "free now' r"
    using claim_loop_claimed [of key "grab tok' w' until'", OF key_grab assms(2)] by blast
  then obtain r0 where "r = grab tok w until r0" using claim_loop_grabbed [OF assms(1,3) i] by blast
  then show False using r(3) grab_not_free [OF assms(4)] by simp
qed

text \<open>After a claim the row answers to the new token only.\<close>

lemma claimed_token:
  assumes "distinct is" and "distinct (map key t)"
    and "i \<in> set (fst (claim_loop key (free now) (grab tok w until) is t))"
    and "r \<in> set (snd (claim_loop key (free now) (grab tok w until) is t))" and "key r = i"
  shows "held tok' w' r \<longleftrightarrow> tok' = tok \<and> w' = w"
  using claim_loop_grabbed [OF assms] held_grab by auto

end

end
