(* ===== verification/Projection.thy ===== *)
theory Projection imports Ledger Leases begin

text \<open>
  The projection outbox of \<open>mesa_storage/dao.py\<close>: claiming, completing and failing the SQL, VECTOR
  and GRAPH lane of a mutation, the mutation milestones those completions reach, and the
  maintenance operations on lanes. The physical deletes a fenced completion issues in the vector
  and graph stores are calls to code outside the model: \<open>del a\<close> says whether the delete of
  artifact \<open>a\<close> returns.
\<close>

subsection \<open>Claims\<close>

text \<open>\<open>_retry_delay_seconds\<close>, called with the attempts of a claimed row, which are at least 1.\<close>

definition retry_delay :: "nat \<Rightarrow> int" where
  "retry_delay n = min (60 * 2 ^ (n - 1)) 900"

definition lane_free :: "int \<Rightarrow> outbox \<Rightarrow> bool" where
  "lane_free now p \<longleftrightarrow> ob_state p = O_PENDING
     \<or> (ob_state p = O_RETRY_PENDING \<and> (ob_lease p = None \<or> lease_expired now (ob_lease p)))
     \<or> (ob_state p = O_IN_FLIGHT \<and> lease_expired now (ob_lease p))"

text \<open>VECTOR waits for SQL and GRAPH for VECTOR.\<close>

definition prerequisite_met :: "outbox list \<Rightarrow> outbox \<Rightarrow> bool" where
  "prerequisite_met t p =
    (case ob_lane p of
      SQL \<Rightarrow> True
    | VECTOR \<Rightarrow> list_ex (\<lambda>s. ob_mutation s = ob_mutation p \<and> ob_lane s = SQL
        \<and> ob_state s = O_COMPLETED) t
    | GRAPH \<Rightarrow> list_ex (\<lambda>s. ob_mutation s = ob_mutation p \<and> ob_lane s = VECTOR
        \<and> ob_state s \<in> {O_COMPLETED, O_SKIPPED}) t)"

definition grab_lane :: "string \<Rightarrow> string \<Rightarrow> int \<Rightarrow> outbox \<Rightarrow> outbox" where
  "grab_lane tok w until p = p\<lparr>ob_state := O_IN_FLIGHT, ob_token := Some tok, ob_by := Some w,
     ob_lease := Some until, ob_attempts := Suc (ob_attempts p)\<rparr>"

definition lane_candidates :: "int \<Rightarrow> nat \<Rightarrow> outbox list \<Rightarrow> string list" where
  "lane_candidates now limit t = map ob_id (take limit
     (sort_key (\<lambda>p. (ob_lane p, ob_created p)) (filter (\<lambda>p. lane_free now p \<and> prerequisite_met t p) t)))"

definition claim_projection ::
  "int \<Rightarrow> string \<Rightarrow> string \<Rightarrow> nat \<Rightarrow> int \<Rightarrow> db \<Rightarrow> dao_error + (outbox list \<times> db)" where
  "claim_projection now tok worker limit secs d =
    (if worker = [] \<or> \<not> (1 \<le> limit \<and> limit \<le> 100) \<or> \<not> (1 \<le> secs \<and> secs \<le> 3600)
     then Inl Invalid_Bounds
     else
       let (ids, t) = claim_loop ob_id (lane_free now) (grab_lane tok worker (now + secs))
             (lane_candidates now limit (outboxes d)) (outboxes d);
           d' = d\<lparr>outboxes := t\<rparr>
       in if ids = [] then Inr ([], d') else Inr (filter (\<lambda>p. ob_id p \<in> set ids) t, d'))"

definition lane_held :: "string \<Rightarrow> string \<Rightarrow> outbox \<Rightarrow> bool" where
  "lane_held tok w p \<longleftrightarrow> ob_state p = O_IN_FLIGHT \<and> ob_by p = Some w \<and> ob_token p = Some tok"

subsection \<open>Milestones\<close>

fun lifecycle_order :: "mut_state \<Rightarrow> int" where
  "lifecycle_order M_SQL_APPLIED = 0" | "lifecycle_order M_VECTOR_APPLIED = 1"
| "lifecycle_order M_GRAPH_APPLIED = 2" | "lifecycle_order M_COMMITTED = 3"
| "lifecycle_order _ = -1"

definition lane_state :: "db \<Rightarrow> string \<Rightarrow> lane \<Rightarrow> outbox_state option" where
  "lane_state d mid l = map_option ob_state (find (\<lambda>p. ob_mutation p = mid \<and> ob_lane p = l) (outboxes d))"

definition milestones :: "db \<Rightarrow> string \<Rightarrow> mut_state list" where
  "milestones d mid =
    (let s = lane_state d mid SQL = Some O_COMPLETED;
         v = lane_state d mid VECTOR \<in> {Some O_COMPLETED, Some O_SKIPPED};
         g = lane_state d mid GRAPH \<in> {Some O_COMPLETED, Some O_SKIPPED}
     in (if s then [M_SQL_APPLIED] else []) @ (if v then [M_VECTOR_APPLIED] else [])
        @ (if g then [M_GRAPH_APPLIED] else []) @ (if s \<and> v \<and> g then [M_COMMITTED] else []))"

text \<open>The loop over the milestones; \<open>None\<close> is the early \<open>return\<close> on a refused transition.\<close>

fun climb :: "string \<Rightarrow> mut_state list \<Rightarrow> mut_state \<Rightarrow> db \<Rightarrow> dao_error + (mut_state option \<times> db)" where
  "climb mid [] cur d = Inr (Some cur, d)"
| "climb mid (s # ss) cur d =
    (if lifecycle_order s \<le> lifecycle_order cur then climb mid ss cur d
     else bindE (transition_mutation mid s None d)
       (\<lambda>(ok, d'). if ok then climb mid ss s d' else Inr (None, d')))"

text \<open>A mutation in \<open>RETRY_PENDING\<close> first returns to \<open>PENDING\<close>.\<close>

definition resume_mutation :: "mutation \<Rightarrow> db \<Rightarrow> dao_error + (mut_state option \<times> db)" where
  "resume_mutation m d =
    (if mu_state m = M_RETRY_PENDING
     then bindE (transition_mutation (mu_id m) M_PENDING None d)
       (\<lambda>(ok, d1). Inr (if ok then Some M_PENDING else None, d1))
     else Inr (Some (mu_state m), d))"

definition announce_projection :: "string \<Rightarrow> mut_state \<Rightarrow> db \<Rightarrow> dao_error + db" where
  "announce_projection mid s d =
    (case mut_of d mid of
      None \<Rightarrow> Inr d
    | Some m \<Rightarrow> if truthy (mu_run m)
        then bindE (recompute_run (the (mu_run m)) (''PROJECTION_'' @ mut_name s) None [] d) (\<lambda>(_, d'). Inr d')
        else Inr d)"

definition advance_projection :: "string \<Rightarrow> db \<Rightarrow> dao_error + db" where
  "advance_projection mid d =
    (case mut_of d mid of
      None \<Rightarrow> Inr d
    | Some m \<Rightarrow>
        if fenced_mut (mu_state m) \<or> fenced_run (joined_run_state d m) then Inr d
        else
          let ms = milestones d mid in
          if ms = [] then Inr d
          else bindE (resume_mutation m d) (\<lambda>(start, d1). case start of
              None \<Rightarrow> Inr d1
            | Some cur \<Rightarrow> bindE (climb mid ms cur d1) (\<lambda>(fin, d2). case fin of
                  None \<Rightarrow> Inr d2
                | Some s \<Rightarrow> announce_projection mid s d2)))"

subsection \<open>Completion\<close>

definition insert_attempt :: "attempt \<Rightarrow> db \<Rightarrow> db" where
  "insert_attempt a d = (if list_ex (\<lambda>x. at_projection x = at_projection a \<and> at_number x = at_number a)
       (attempts d) then d else d\<lparr>attempts := attempts d @ [a]\<rparr>)"

datatype verdict = Absent | Stale string "artifact list" | Applied bool

text \<open>
  The first transaction of \<open>complete_projection_outbox\<close>; \<open>vec\<close> and \<open>gra\<close> are the configuration
  flags \<open>_embedding_enabled\<close> and \<open>_graph_enabled\<close>.
\<close>

definition complete_tx ::
  "bool \<Rightarrow> bool \<Rightarrow> string \<Rightarrow> string \<Rightarrow> string \<Rightarrow> string \<Rightarrow> db \<Rightarrow> dao_error + (verdict \<times> db)" where
  "complete_tx vec gra pid w tok outcome d =
    (case outbox_of d pid of
      None \<Rightarrow> Inr (Absent, d)
    | Some p \<Rightarrow> (case mut_of d (ob_mutation p) of
        None \<Rightarrow> Inr (Absent, d)
      | Some m \<Rightarrow>
          if \<not> lane_held tok w p \<or> fenced d m then
            Inr (Stale (ob_mutation p) (filter (\<lambda>a. ar_mutation a = ob_mutation p) (artifacts d)),
              if fenced d m \<and> ob_state p = O_IN_FLIGHT
              then d\<lparr>outboxes := upd (\<lambda>x. ob_id x = pid) (release_claim O_CANCELLED) (outboxes d)\<rparr> else d)
          else if outcome = ''SKIPPED'' \<and> \<not> ((ob_lane p = VECTOR \<and> \<not> vec) \<or> (ob_lane p = GRAPH \<and> \<not> gra))
          then Inl Skip_Not_Allowed
          else
            let d1 = insert_attempt \<lparr>at_projection = pid, at_number = ob_attempts p,
                  at_outcome = take 120 outcome, at_error = None\<rparr> d;
                hit = (\<lambda>x. ob_id x = pid \<and> ob_token x = Some tok);
                d2 = d1\<lparr>outboxes := upd hit
                  (release_claim (if outcome = ''SKIPPED'' then O_SKIPPED else O_COMPLETED)) (outboxes d1)\<rparr>
            in if rowcount hit (outboxes d1) = 1
               then bindE (advance_projection (ob_mutation p) d2) (\<lambda>d3. Inr (Applied True, d3))
               else Inr (Applied False, d2)))"

text \<open>\<open>_enqueue_unowned_projection_cleanup\<close>: cleanup-only reopening, outside the transition table.\<close>

definition insert_cleanup :: "int \<Rightarrow> string \<Rightarrow> string \<Rightarrow> db \<Rightarrow> db" where
  "insert_cleanup now rid reg d =
    (if list_ex (\<lambda>c. cl_id c = cleanup_id rid reg \<or> (cl_run c = rid \<and> cl_registry c = reg)) (cleanups d)
     then d
     else d\<lparr>cleanups := cleanups d @ [\<lparr>cl_id = cleanup_id rid reg, cl_run = rid, cl_registry = reg,
       cl_state = C_PENDING, cl_attempts = 0, cl_limit = 5, cl_token = None, cl_by = None,
       cl_lease = None, cl_error = None, cl_created = now\<rparr>]\<rparr>)"

definition compensation_pending :: "string option" where
  "compensation_pending = Some ''PhysicalCompensationPending''"

definition enqueue_unowned :: "int \<Rightarrow> string \<Rightarrow> artifact list \<Rightarrow> db \<Rightarrow> dao_error + (unit \<times> db)" where
  "enqueue_unowned now mid arts d =
    (case mut_of d mid of
      None \<Rightarrow> Inl No_Pipeline_Scope
    | Some m \<Rightarrow>
        if \<not> truthy (mu_run m) then Inl No_Pipeline_Scope
        else
          let rid = the (mu_run m);
              d1 = d\<lparr>runs := upd (\<lambda>r. rn_id r = rid \<and> rn_state r \<in> {P_ROLLED_BACK, P_ROLLING_BACK})
                   (\<lambda>r. r\<lparr>rn_state := P_ROLLING_BACK, rn_failure := compensation_pending\<rparr>) (runs d),
                 muts := upd (\<lambda>m. mu_id m = mid \<and> mu_state m \<in> {M_ROLLED_BACK, M_ROLLING_BACK})
                   (\<lambda>m. m\<lparr>mu_state := M_ROLLING_BACK, mu_failure := compensation_pending\<rparr>) (muts d)\<rparr>
          in Inr ((), fold (\<lambda>a d.
               let agent = registry_agent (ar_store a) (mu_agent m);
                   reg = registry_id (mu_tenant m) agent (ar_store a) (ar_kind a) (ar_artifact a);
                   d' = insert_registry \<lparr>rg_id = reg, rg_tenant = mu_tenant m, rg_agent = agent,
                     rg_store = ar_store a, rg_kind = ar_kind a, rg_physical = ar_artifact a,
                     rg_state = G_TOMBSTONED\<rparr> d
               in insert_cleanup now rid reg (d'\<lparr>registries := upd (\<lambda>g. rg_id g = reg)
                    (rg_state_update (\<lambda>_. G_TOMBSTONED)) (registries d')\<rparr>)) arts d1))"

text \<open>\<open>_finalize_terminal_projection_compensation\<close>.\<close>

definition finalize_compensation :: "string \<Rightarrow> db \<Rightarrow> dao_error + (unit \<times> db)" where
  "finalize_compensation mid d =
    (case mut_of d mid of
      None \<Rightarrow> Inr ((), d)
    | Some m \<Rightarrow>
        if \<not> truthy (mu_run m) then Inr ((), d)
        else
          let rid = the (mu_run m) in
          if list_ex (\<lambda>c. cl_run c = rid \<and> cl_state c \<noteq> C_COMPLETED) (cleanups d) then Inr ((), d)
          else bindE (transition_run rid P_ROLLED_BACK ''POST_WRITE_COMPENSATION_COMPLETED'' None [] d)
            (\<lambda>(_, d1). bindE (transition_children rid M_ROLLED_BACK None d1) (\<lambda>(_, d2). Inr ((), d2))))"

text \<open>The artifacts a fenced completion deletes: vectors, and assertions and entities of the graph.\<close>

definition compensated :: "artifact \<Rightarrow> bool" where
  "compensated a \<longleftrightarrow> ar_store a = VECTOR \<or> (ar_store a = GRAPH \<and> ar_kind a \<in> {ASSERTION, ENTITY})"

text \<open>
  \<open>complete_projection_outbox\<close>: the result, the physical deletes it issued, the database. The
  transactions commit separately.
\<close>

definition complete_projection ::
  "(artifact \<Rightarrow> bool) \<Rightarrow> bool \<Rightarrow> bool \<Rightarrow> int \<Rightarrow> string \<Rightarrow> string \<Rightarrow> string \<Rightarrow> string \<Rightarrow> db
    \<Rightarrow> (dao_error + bool) \<times> artifact list \<times> db" where
  "complete_projection del vec gra now pid w tok outcome d =
    (case run_tx (complete_tx vec gra pid w tok outcome) d of
      (Inl e, d1) \<Rightarrow> (Inl e, [], d1)
    | (Inr Absent, d1) \<Rightarrow> (Inr False, [], d1)
    | (Inr (Applied b), d1) \<Rightarrow> (Inr b, [], d1)
    | (Inr (Stale mid arts), d1) \<Rightarrow>
        let calls = filter compensated arts;
            failed = filter (\<lambda>a. \<not> del a) calls
        in case run_tx (if failed \<noteq> [] then enqueue_unowned now mid failed
                        else finalize_compensation mid) d1 of
             (Inl e, d2) \<Rightarrow> (Inl e, calls, d2)
           | (Inr _, d2) \<Rightarrow> (Inr False, calls, d2))"

text \<open>\<open>complete_projection_outbox_batch\<close>; an exception stops the loop after the items already done.\<close>

fun complete_batch ::
  "(artifact \<Rightarrow> bool) \<Rightarrow> bool \<Rightarrow> bool \<Rightarrow> int \<Rightarrow> string \<Rightarrow> string \<Rightarrow> (string \<times> string) list \<Rightarrow> db
    \<Rightarrow> (dao_error + nat) \<times> db" where
  "complete_batch del vec gra now w outcome [] d = (Inr 0, d)"
| "complete_batch del vec gra now w outcome ((pid, tok) # items) d =
    (case complete_projection del vec gra now pid w tok outcome d of
      (Inl e, _, d1) \<Rightarrow> (Inl e, d1)
    | (Inr b, _, d1) \<Rightarrow>
        (case complete_batch del vec gra now w outcome items d1 of
          (Inl e, d2) \<Rightarrow> (Inl e, d2)
        | (Inr n, d2) \<Rightarrow> (Inr (if b then Suc n else n), d2)))"

subsection \<open>Failure\<close>

text \<open>The receipt and the released lane; \<open>terminal\<close> when the failure is final.\<close>

definition mark_failed :: "int \<Rightarrow> string \<Rightarrow> string \<Rightarrow> outbox \<Rightarrow> string \<Rightarrow> bool \<Rightarrow> db \<Rightarrow> db" where
  "mark_failed now pid tok p err terminal d =
    (let d1 = insert_attempt \<lparr>at_projection = pid, at_number = ob_attempts p,
           at_outcome = (if terminal then ''DEAD_LETTER'' else ''RETRY_PENDING''),
           at_error = Some (take 120 err)\<rparr> d
     in d1\<lparr>outboxes := upd (\<lambda>x. ob_id x = pid \<and> ob_token x = Some tok)
          (\<lambda>x. (release_claim (if terminal then O_DEAD_LETTER else O_RETRY_PENDING) x)\<lparr>
             ob_lease := (if terminal then None else Some (now + retry_delay (ob_attempts p))),
             ob_error := Some (take 120 err)\<rparr>) (outboxes d1)\<rparr>)"

definition report_failure :: "string \<Rightarrow> run_state \<Rightarrow> string \<Rightarrow> db \<Rightarrow> dao_error + db" where
  "report_failure mid to err d =
    (case Option.bind (mut_of d mid) mu_run of
      None \<Rightarrow> Inr d
    | Some rid \<Rightarrow> if rid = [] then Inr d
        else bindE (transition_run rid to ''PROJECTION_FAILED'' (Some (take 120 err)) [] d) (\<lambda>(_, d'). Inr d'))"

definition fail_projection ::
  "int \<Rightarrow> string \<Rightarrow> string \<Rightarrow> string \<Rightarrow> string \<Rightarrow> bool \<Rightarrow> db \<Rightarrow> dao_error + (bool \<times> db)" where
  "fail_projection now pid w tok err retryable d =
    (case outbox_of d pid of
      None \<Rightarrow> Inr (False, d)
    | Some p \<Rightarrow> (case mut_of d (ob_mutation p) of
        None \<Rightarrow> Inr (False, d)
      | Some m \<Rightarrow>
          if \<not> lane_held tok w p then Inr (False, d)
          else
            let terminal = (\<not> retryable \<or> ob_limit p \<le> ob_attempts p);
                ok = (rowcount (\<lambda>x. ob_id x = pid \<and> ob_token x = Some tok) (outboxes d) = 1);
                d2 = mark_failed now pid tok p err terminal d
            in if ok \<and> mu_state m \<noteq> M_COMMITTED then
                 bindE (transition_mutation (ob_mutation p)
                     (if terminal then M_DEAD_LETTER else M_RETRY_PENDING) (Some (take 120 err)) d2)
                   (\<lambda>(_, d3). bindE (report_failure (ob_mutation p) (if terminal then P_DLQ else P_RETRY_PENDING) err d3)
                     (\<lambda>d4. Inr (ok, d4)))
               else Inr (ok, d2)))"

subsection \<open>Maintenance\<close>

text \<open>
  \<open>requeue_skipped_vector_projections\<close>: \<open>ident\<close> is the producer identity of the vector engine, with
  the members of its snapshot.
\<close>

definition adopt_identity :: "identity \<Rightarrow> db \<Rightarrow> db" where
  "adopt_identity i d =
    d\<lparr>muts := upd (\<lambda>m. list_ex (\<lambda>p. ob_mutation p = mu_id m \<and> ob_lane p = VECTOR \<and> ob_state p \<noteq> O_COMPLETED)
          (outboxes d)
        \<and> \<not> list_ex (\<lambda>a. ar_mutation a = mu_id m \<and> ar_store a = VECTOR) (artifacts d)
        \<and> me_identity (mu_meta m) \<noteq> Some i)
      (\<lambda>m. m\<lparr>mu_identity := i, mu_meta := (mu_meta m)\<lparr>me_identity := Some i\<rparr>\<rparr>) (muts d)\<rparr>"

definition requeue_skipped :: "identity option \<Rightarrow> lane \<Rightarrow> db \<Rightarrow> dao_error + (nat \<times> db)" where
  "requeue_skipped ident l d =
    (if l = SQL then Inl Invalid_State
     else
       let d1 = (case ident of Some i \<Rightarrow> if l = VECTOR then adopt_identity i d else d | None \<Rightarrow> d);
           hit = (\<lambda>p. ob_lane p = l \<and> ob_state p = O_SKIPPED)
       in Inr (rowcount hit (outboxes d1), d1\<lparr>outboxes := upd hit (\<lambda>p. (release_claim O_PENDING p)
            \<lparr>ob_attempts := 0, ob_error := None\<rparr>) (outboxes d1)\<rparr>))"

text \<open>\<open>recover_in_flight_projection_and_dispatch\<close>, run under the writer lock at start-up.\<close>

definition recover_in_flight :: "db \<Rightarrow> (nat \<times> nat) \<times> db" where
  "recover_in_flight d =
    ((rowcount (\<lambda>p. ob_state p = O_IN_FLIGHT) (outboxes d), rowcount (\<lambda>q. qu_state q = Q_IN_FLIGHT) (queue d)),
     d\<lparr>outboxes := upd (\<lambda>p. ob_state p = O_IN_FLIGHT) (release_claim O_RETRY_PENDING) (outboxes d),
       queue := upd (\<lambda>q. qu_state q = Q_IN_FLIGHT) (\<lambda>q. q\<lparr>qu_state := Q_RETRY_PENDING, qu_token := None,
         qu_by := None, qu_lease := None\<rparr>) (queue d)\<rparr>)"

end
