(* ===== verification/Rollback.thy ===== *)
theory Rollback imports Projection begin

text \<open>
  Rollback, operator replay, artifact cleanup and document purge (\<open>mesa_storage/dao.py\<close>). A run
  owns artifacts through \<open>artifact_sources\<close>; a rollback releases the run's ownerships and queues
  the deletion of the artifacts nobody owns any more.
\<close>

subsection \<open>Requesting a rollback\<close>

text \<open>A revision of the run that is no longer the head of its document forbids the rollback.\<close>

definition non_head :: "string \<Rightarrow> db \<Rightarrow> bool" where
  "non_head rid d \<longleftrightarrow> list_ex (\<lambda>m. list_ex (\<lambda>r. Some (rv_id r) = mu_revision m
      \<and> rv_document r \<noteq> [] \<and> rv_id r \<noteq> [] \<and>
      (rv_status r = R_SUPERSEDED \<or>
       (rv_status r = R_ACTIVE \<and>
        (case find (\<lambda>h. rv_document h = rv_document r \<and> rv_status h = R_ACTIVE) (revs d) of
           None \<Rightarrow> False | Some h \<Rightarrow> rv_id h \<noteq> rv_id r)))) (revs d)) (children d rid)"

definition run_lane :: "string \<Rightarrow> db \<Rightarrow> outbox \<Rightarrow> bool" where
  "run_lane rid d p \<longleftrightarrow> list_ex (\<lambda>m. mu_id m = ob_mutation p) (children d rid)"

definition release_owners :: "string \<Rightarrow> db \<Rightarrow> db" where
  "release_owners rid d = d\<lparr>owners := upd (\<lambda>s. so_run s = Some rid \<and> so_state s = S_ACTIVE)
     (so_state_update (\<lambda>_. S_RELEASED)) (owners d)\<rparr>"

definition unowned :: "string \<Rightarrow> db \<Rightarrow> registry list" where
  "unowned rid d = filter (\<lambda>g. list_ex (\<lambda>s. so_registry s = rg_id g \<and> so_run s = Some rid) (owners d)
     \<and> \<not> list_ex (\<lambda>s. so_registry s = rg_id g \<and> so_state s = S_ACTIVE) (owners d)) (registries d)"

definition retract_physical :: "registry \<Rightarrow> db \<Rightarrow> db" where
  "retract_physical g d =
    (if rg_store g = SQL \<and> rg_kind g = ENTITY then
       d\<lparr>entities := upd (\<lambda>e. en_id e = rg_physical g) (en_status_update (\<lambda>_. A_RETRACTED)) (entities d)\<rparr>
     else if rg_store g = SQL \<and> rg_kind g = ASSERTION then
       d\<lparr>facts := upd (\<lambda>f. fa_id f = rg_physical g) (fa_status_update (\<lambda>_. A_RETRACTED)) (facts d)\<rparr>
     else d)"

definition tombstone :: "int \<Rightarrow> string \<Rightarrow> registry \<Rightarrow> db \<Rightarrow> db" where
  "tombstone now rid g d =
    insert_cleanup now rid (rg_id g) (retract_physical g
      (d\<lparr>registries := upd (\<lambda>x. rg_id x = rg_id g) (rg_state_update (\<lambda>_. G_TOMBSTONED)) (registries d)\<rparr>))"

definition cancel_run_lanes :: "string \<Rightarrow> db \<Rightarrow> db" where
  "cancel_run_lanes rid d = d\<lparr>outboxes := upd (run_lane rid d) (release_claim O_CANCELLED) (outboxes d)\<rparr>"

definition request_rollback :: "int \<Rightarrow> string \<Rightarrow> db \<Rightarrow> dao_error + ((nat \<times> run_state) \<times> db)" where
  "request_rollback now rid d =
    (case run_state_of d rid of
      None \<Rightarrow> Inl Unknown_Run
    | Some s \<Rightarrow>
        if s = P_ROLLED_BACK then Inr ((0, P_ROLLED_BACK), d)
        else if non_head rid d then Inl Non_Head_Rollback
        else
          let busy = rowcount (\<lambda>p. ob_state p = O_IN_FLIGHT \<and> run_lane rid d p) (outboxes d) in
          bindE (transition_run rid P_ROLLING_BACK ''ROLLBACK_REQUESTED'' None [] d) (\<lambda>(ok, d1).
            if \<not> ok then Inl Cannot_Rollback
            else
              let d2 = release_owners rid d1; gs = unowned rid d2; d3 = fold (tombstone now rid) gs d2
              in bindE (transition_children rid M_ROLLING_BACK None d3) (\<lambda>(_, d4).
                 bindE (restore_supersession rid d4) (\<lambda>d5.
                   let d6 = cancel_run_lanes rid d5 in
                   if gs = [] \<and> busy = 0 then
                     bindE (transition_run rid P_ROLLED_BACK ''ROLLBACK_NO_EXCLUSIVE_ARTIFACTS'' None [] d6)
                       (\<lambda>(_, d7). bindE (transition_children rid M_ROLLED_BACK None d7)
                         (\<lambda>(_, d8). Inr ((0, P_ROLLED_BACK), d8)))
                   else Inr ((length gs, P_ROLLING_BACK), d6)))))"

subsection \<open>Operator replay\<close>

definition requeue_one :: "queue_row \<Rightarrow> db \<Rightarrow> db" where
  "requeue_one q d =
    d\<lparr>queue := upd (\<lambda>x. qu_id x = qu_id q \<and> qu_state x = Q_DEAD_LETTER)
         (\<lambda>x. x\<lparr>qu_state := Q_RETRY_PENDING, qu_attempts := 0, qu_token := None, qu_by := None,
            qu_lease := None, qu_error := None\<rparr>) (queue d),
       raw_logs := upd (\<lambda>r. rl_id r = qu_log q \<and> rl_agent r = qu_agent q)
         (\<lambda>r. r\<lparr>rl_status := W_DEFERRED, rl_token := None, rl_by := None, rl_lease := None\<rparr>) (raw_logs d)\<rparr>"

definition requeue_dispatch :: "string \<Rightarrow> db \<Rightarrow> db" where
  "requeue_dispatch rid d =
    fold requeue_one
      (filter (\<lambda>q. qu_state q = Q_DEAD_LETTER \<and> list_ex (\<lambda>m. mu_raw_log m = Some (qu_log q)
          \<and> mu_agent m = qu_agent q \<and> mu_tenant m = qu_tenant q \<and> mu_state m = M_RETRY_PENDING)
        (children d rid)) (queue d)) d"

definition replay_run :: "string \<Rightarrow> string option \<Rightarrow> db \<Rightarrow> dao_error + (run_state \<times> db)" where
  "replay_run rid target d =
    (case run_state_of d rid of
      None \<Rightarrow> Inl Unknown_Run
    | Some s \<Rightarrow>
        if s \<notin> {P_DLQ, P_BLOCKED} then Inl Not_Replayable
        else if target \<noteq> None \<and> \<not> list_ex (\<lambda>m. Some (mu_id m) = target) (children d rid)
        then Inl Foreign_Target
        else if list_ex (\<lambda>m. (target = None \<or> Some (mu_id m) = target) \<and> mu_state m = M_REJECTED)
            (children d rid) then Inl Non_Replayable_Rejection
        else
          let cleanup = list_ex (\<lambda>c. cl_run c = rid \<and> cl_state c = C_BLOCKED) (cleanups d);
              run_to = (if cleanup then P_ROLLING_BACK else P_RETRY_PENDING);
              mut_to = (if cleanup then M_ROLLING_BACK else M_RETRY_PENDING)
          in bindE (transition_run rid run_to ''OPERATOR_REPLAY'' None [] d) (\<lambda>(ok, d1).
            if \<not> ok then Inl Replay_Fence_Lost
            else
              let d2 = d1\<lparr>outboxes := upd (\<lambda>p. run_lane rid d1 p \<and> ob_state p = O_DEAD_LETTER)
                     (\<lambda>p. (release_claim O_RETRY_PENDING p)\<lparr>ob_error := None\<rparr>) (outboxes d1),
                   cleanups := upd (\<lambda>c. cl_run c = rid \<and> cl_state c = C_BLOCKED)
                     (\<lambda>c. c\<lparr>cl_state := C_RETRY_PENDING, cl_token := None, cl_by := None,
                        cl_lease := None, cl_error := None\<rparr>) (cleanups d1)\<rparr>
              in bindE (transition_children rid mut_to None d2) (\<lambda>(_, d3).
                   let d4 = (if cleanup then d3 else requeue_dispatch rid d3)
                   in Inr (case run_state_of d4 rid of None \<Rightarrow> run_to | Some f \<Rightarrow> f, d4))))"

subsection \<open>Cleanup\<close>

definition cleanup_free :: "int \<Rightarrow> cleanup \<Rightarrow> bool" where
  "cleanup_free now c \<longleftrightarrow> cl_state c \<in> {C_PENDING, C_RETRY_PENDING}
     \<or> (cl_state c = C_IN_FLIGHT \<and> lease_expired now (cl_lease c))"

definition grab_cleanup :: "string \<Rightarrow> string \<Rightarrow> int \<Rightarrow> cleanup \<Rightarrow> cleanup" where
  "grab_cleanup tok w until c = c\<lparr>cl_state := C_IN_FLIGHT, cl_token := Some tok, cl_by := Some w,
     cl_lease := Some until, cl_attempts := Suc (cl_attempts c)\<rparr>"

definition cleanup_held :: "string \<Rightarrow> string \<Rightarrow> cleanup \<Rightarrow> bool" where
  "cleanup_held tok w c \<longleftrightarrow> cl_state c = C_IN_FLIGHT \<and> cl_by c = Some w \<and> cl_token c = Some tok"

fun kind_rank :: "kind \<Rightarrow> nat" where
  "kind_rank ASSERTION = 0" | "kind_rank ENTITY_VECTOR = 1" | "kind_rank _ = 2"

definition cleanup_candidates :: "int \<Rightarrow> nat \<Rightarrow> db \<Rightarrow> string list" where
  "cleanup_candidates now limit d = map (cl_id \<circ> fst) (take limit
     (sort_key (\<lambda>(c, g). (kind_rank (rg_kind g), cl_created c))
       (concat (map (\<lambda>c. map (Pair c) (filter (\<lambda>g. rg_id g = cl_registry c) (registries d)))
         (filter (cleanup_free now) (cleanups d))))))"

definition claim_cleanup ::
  "int \<Rightarrow> string \<Rightarrow> string \<Rightarrow> nat \<Rightarrow> int \<Rightarrow> db \<Rightarrow> dao_error + (cleanup list \<times> db)" where
  "claim_cleanup now tok worker limit secs d =
    (if worker = [] \<or> \<not> (1 \<le> limit \<and> limit \<le> 100) then Inl Invalid_Bounds
     else
       let (ids, t) = claim_loop cl_id (cleanup_free now) (grab_cleanup tok worker (now + secs))
             (cleanup_candidates now limit d) (cleanups d);
           d' = d\<lparr>cleanups := t\<rparr>
       in if ids = [] then Inr ([], d')
          else Inr (filter (\<lambda>c. cl_id c \<in> set ids
            \<and> list_ex (\<lambda>g. rg_id g = cl_registry c) (registries d) \<and> run_of d (cl_run c) \<noteq> None) t, d'))"

text \<open>
  \<open>apply_artifact_cleanup\<close>: the SQL artifacts are deleted here, the others by one physical call
  (the second component) unless a fact or entity still needs them.
\<close>

definition live_fact :: "db \<Rightarrow> string \<Rightarrow> bool" where
  "live_fact d a \<longleftrightarrow> list_ex (\<lambda>f. fa_id f = a \<and> fa_status f \<noteq> A_RETRACTED) (facts d)"

definition fact_mentions :: "db \<Rightarrow> string \<Rightarrow> bool" where
  "fact_mentions d e \<longleftrightarrow> list_ex (\<lambda>f. fa_subject f = e \<or> fa_object f = Some e) (facts d)"

definition live_entity :: "db \<Rightarrow> string \<Rightarrow> bool" where
  "live_entity d e \<longleftrightarrow> list_ex (\<lambda>x. en_id x = e \<and> en_status x \<noteq> A_RETRACTED) (entities d)"

definition apply_cleanup :: "registry \<Rightarrow> db \<Rightarrow> bool \<times> db" where
  "apply_cleanup g d =
    (let a = rg_physical g in
     case rg_store g of
       VECTOR \<Rightarrow> (\<not> (live_fact d a \<or> live_entity d a), d)
     | GRAPH \<Rightarrow>
         (if rg_kind g = ASSERTION then (\<not> live_fact d a, d)
          else if rg_kind g = ENTITY then (\<not> (live_entity d a \<and> fact_mentions d a), d)
          else (False, d))
     | SQL \<Rightarrow>
         (if rg_kind g = ASSERTION then
            (False, d\<lparr>links := filter (\<lambda>l. lk_source l \<noteq> a \<and> lk_target l \<noteq> a) (links d),
                      facts := filter (\<lambda>f. fa_id f \<noteq> a) (facts d)\<rparr>)
          else if rg_kind g = ENTITY \<and> \<not> fact_mentions d a then
            (False, d\<lparr>entities := filter (\<lambda>e. en_id e \<noteq> a) (entities d)\<rparr>)
          else (False, d)))"

text \<open>\<open>finish_artifact_cleanup\<close>; \<open>err\<close> is \<open>None\<close> or the error class.\<close>

definition finish_cleanup ::
  "string \<Rightarrow> string \<Rightarrow> string \<Rightarrow> string option \<Rightarrow> db \<Rightarrow> dao_error + (bool \<times> db)" where
  "finish_cleanup cid w tok err d =
    (case cleanup_of d cid of
      None \<Rightarrow> Inr (False, d)
    | Some c \<Rightarrow>
        if \<not> cleanup_held tok w c then Inr (False, d)
        else
          let terminal = (truthy err \<and> cl_limit c \<le> cl_attempts c);
              next = (if terminal then C_BLOCKED else if truthy err then C_RETRY_PENDING else C_COMPLETED);
              hit = (\<lambda>x. cl_id x = cid \<and> cl_token x = Some tok);
              ok = (rowcount hit (cleanups d) = 1);
              d1 = d\<lparr>cleanups := upd hit (\<lambda>x. x\<lparr>cl_state := next, cl_token := None, cl_by := None,
                     cl_lease := None, cl_error := clip err\<rparr>) (cleanups d)\<rparr>;
              d2 = (if ok \<and> \<not> truthy err then d1\<lparr>registries := upd (\<lambda>g. rg_id g = cl_registry c)
                     (rg_state_update (\<lambda>_. G_DELETED)) (registries d1)\<rparr> else d1)
          in if terminal then
               bindE (transition_run (cl_run c) P_BLOCKED ''ROLLBACK_CLEANUP_BLOCKED'' err [] d2)
                 (\<lambda>(_, d3). bindE (transition_children (cl_run c) M_BLOCKED (clip err) d3)
                   (\<lambda>(_, d4). Inr (ok, d4)))
             else if \<not> truthy err \<and> \<not> list_ex (\<lambda>x. cl_run x = cl_run c \<and> cl_state x \<noteq> C_COMPLETED) (cleanups d2)
             then bindE (transition_run (cl_run c) P_ROLLED_BACK ''ROLLBACK_COMPLETED'' None [] d2)
                 (\<lambda>(_, d3). bindE (transition_children (cl_run c) M_ROLLED_BACK None d3)
                   (\<lambda>(_, d4). Inr (ok, d4)))
             else Inr (ok, d2))"

subsection \<open>Document purge\<close>

definition reserved :: "string \<Rightarrow> bool" where
  "reserved k \<longleftrightarrow> take 6 k = ''_mesa_'' \<and> k \<noteq> ''_mesa_legal_items''"

text \<open>
  Only engine-owned members survive, the justifications of an audit as empty texts; the extracted triples and the
  caller's dates do not.
\<close>

definition within :: "string \<Rightarrow> string \<Rightarrow> bool" where
  "within path k \<longleftrightarrow> take (length path) k = path"

definition blank_reasons :: "json \<Rightarrow> json" where
  "blank_reasons = map (\<lambda>(k, v). (k, if within ''_mesa_tier3_audit.justifications.'' k then [] else v))"

definition redact_meta :: "meta \<Rightarrow> meta" where
  "redact_meta e = e\<lparr>me_valid_from := [], me_triplets := None,
     me_members := blank_reasons (filter (\<lambda>(k, _). reserved k) (me_members e))\<rparr>"

definition redact_detail :: "json \<Rightarrow> json" where
  "redact_detail j =
    (let reasons = (\<lambda>k. k = ''tier3.justifications'' \<or> within ''tier3.justifications.'' k) in
     if list_ex (\<lambda>(k, _). reasons k) j then filter (\<lambda>(k, _). \<not> reasons k) j @ [(''tier3.justifications'', ''{}'')] else j)"

definition purge_runs :: "string \<Rightarrow> string \<Rightarrow> db \<Rightarrow> string list" where
  "purge_runs ds doc d = distinct_rows (List.map_filter id (
     map so_run (filter (\<lambda>s. so_dataset s = ds \<and> so_document s = Some doc \<and> so_state s = S_ACTIVE
        \<and> list_ex (\<lambda>g. rg_id g = so_registry s \<and> rg_state g = G_ACTIVE) (registries d)) (owners d))
     @ map mu_run (filter (\<lambda>m. mu_dataset m = ds \<and> mu_document m = Some doc
        \<and> mu_state m \<notin> {M_ROLLED_BACK, M_PURGED, M_REJECTED, M_CANCELLED}) (muts d))))"

text \<open>The transaction of \<open>purge_v4_document\<close>: the runs to roll back and the fenced database.\<close>

definition purge_document_tx ::
  "string \<Rightarrow> string \<Rightarrow> string \<Rightarrow> db \<Rightarrow> dao_error + (string list \<times> db)" where
  "purge_document_tx tenant ds doc d =
    (if \<not> list_ex (\<lambda>c. dc_id c = doc \<and> dc_dataset c = ds \<and> dc_tenant c = tenant) (docs d)
     then Inl Outside_Scope
     else
       let mine = (\<lambda>m. mu_dataset m = ds \<and> mu_document m = Some doc) in
       bindE (purge_mutations mine d) (\<lambda>(ids, d1). Inr (filter (\<lambda>r. r \<noteq> []) (purge_runs ds doc d), d1\<lparr>
         outboxes := upd (\<lambda>p. ob_mutation p \<in> set ids) (release_claim O_CANCELLED) (outboxes d1),
         muts := upd mine (mu_meta_update redact_meta) (muts d1),
         events := upd (\<lambda>e. list_ex (\<lambda>m. mine m \<and> mu_run m = Some (ev_run e)) (muts d1)) (ev_detail_update redact_detail) (events d1),
         docs := upd (\<lambda>c. dc_id c = doc) (\<lambda>c. c\<lparr>dc_status := D_PURGED, dc_title := []\<rparr>) (docs d1),
         revs := upd (\<lambda>r. rv_document r = doc) (rv_status_update (\<lambda>_. R_PURGED)) (revs d1),
         facts := upd (\<lambda>f. fa_tenant f = tenant \<and> fa_dataset f = ds \<and> fa_document f = doc
             \<and> \<not> list_ex (\<lambda>g. rg_tenant g = fa_tenant f \<and> rg_store g = SQL \<and> rg_kind g = ASSERTION
                 \<and> rg_physical g = fa_id f \<and> list_ex (\<lambda>s. so_registry s = rg_id g \<and> so_state s = S_ACTIVE
                   \<and> so_document s \<noteq> Some doc) (owners d1)) (registries d1))
           (fa_status_update (\<lambda>_. A_RETRACTED)) (facts d1)\<rparr>)))"

text \<open>Then one rollback transaction per run; the flag says whether one of them raised.\<close>

fun rollback_runs :: "int \<Rightarrow> string list \<Rightarrow> db \<Rightarrow> bool \<times> db" where
  "rollback_runs now [] d = (False, d)"
| "rollback_runs now (r # rs) d =
    (case run_tx (request_rollback now r) d of
      (res, d1) \<Rightarrow> (case rollback_runs now rs d1 of
        (failed, d2) \<Rightarrow> (failed \<or> (case res of Inl _ \<Rightarrow> True | Inr _ \<Rightarrow> False), d2)))"

definition purge_document :: "int \<Rightarrow> string \<Rightarrow> string \<Rightarrow> string \<Rightarrow> db \<Rightarrow> (dao_error + bool) \<times> db" where
  "purge_document now tenant ds doc d =
    (case run_tx (purge_document_tx tenant ds doc) d of
      (Inl e, d1) \<Rightarrow> (Inl e, d1)
    | (Inr rs, d1) \<Rightarrow> (case rollback_runs now rs d1 of (failed, d2) \<Rightarrow> (Inr (\<not> failed), d2)))"

end
