(* ===== verification/Steps.thy ===== *)
theory Steps imports Rollback begin

text \<open>
  Every transaction of the ledger evolves it (\<open>History.evolves\<close>): one lemma per operation, then
  the step relation of the whole store, whose steps are the transactions of any number of
  workers in any order.
\<close>

named_theorems op_evolves "operations evolve the ledger"

subsection \<open>Admission and extraction\<close>

lemma insert_run_admission_evolves: "evolves d (insert_admission rid (insert_run rid agent d))"
proof (cases "list_ex (\<lambda>r. rn_id r = rid) (runs d)")
  case True
  show ?thesis unfolding evolves_def
  proof (intro impI)
    assume ok: "ledger_ok d"
    then have "Admission_Event rid \<in> ev_id ` set (events d)"
      using True by (auto simp: ledger_ok_def admitted_def list_ex_iff)
    then have "insert_admission rid (insert_run rid agent d) = d"
      using True by (auto simp: insert_admission_def insert_run_def list_ex_iff)
    then show "ledger_ok (insert_admission rid (insert_run rid agent d)) \<and>
        run_log_step d (insert_admission rid (insert_run rid agent d)) \<and>
        muts_step d (insert_admission rid (insert_run rid agent d))"
      using ok by (simp add: run_log_step_refl muts_step_refl)
  qed
next
  case False
  let ?d = "insert_admission rid (insert_run rid agent d)"
  show ?thesis unfolding evolves_def
  proof (intro impI conjI)
    assume ok: "ledger_ok d"
    have fresh: "rid \<notin> rn_id ` set (runs d)" using False by (auto simp: list_ex_iff)
    then have "Admission_Event rid \<notin> ev_id ` set (events d)" using ok by (auto simp: ledger_ok_def admitted_def)
    then have d: "?d = d\<lparr>runs := runs d @ [\<lparr>rn_id = rid, rn_agent = agent, rn_state = P_QUEUED, rn_failure = None\<rparr>],
        events := events d @ [\<lparr>ev_id = Admission_Event rid, ev_run = rid, ev_from = None,
          ev_to = P_QUEUED, ev_type = ''ADMITTED'', ev_detail = []\<rparr>]\<rparr>"
      using False by (auto simp: insert_admission_def insert_run_def list_ex_iff image_iff)
    show "ledger_ok ?d" using ok fresh
      by (auto simp: d ledger_ok_def keys_ok_def admitted_def)
    have absent: "find (\<lambda>r. rn_id r = rid) (runs d) = None"
      using fresh by (auto simp: find_None_iff image_iff)
    have "run_state_of ?d r = (if r = rid then Some P_QUEUED else run_state_of d r)" for r
      using absent by (auto simp: d run_state_of_def run_of_def find_append split: option.splits)
    moreover have "trace ?d r = trace d r @ (if r = rid then [(None, P_QUEUED)] else [])" for r
      by (auto simp: d trace_def)
    moreover have "run_state_of d rid = None" using absent by (simp add: run_state_of_def run_of_def)
    ultimately show "run_log_step d ?d" by (auto simp: run_log_step_def)
    show "muts_step d ?d" by (auto simp: d muts_step_def mut_state_of_def mut_of_def)
  qed
qed

lemma insert_mutation_evolves: "evolves d (insert_mutation m d)"
proof (cases "insert_mutation m d = d")
  case False
  then have d: "insert_mutation m d = d\<lparr>muts := muts d @ [m]\<rparr>" and fresh: "mu_id m \<notin> mu_id ` set (muts d)"
    by (auto simp: insert_mutation_def list_ex_iff split: if_splits)
  have "run_state_of (insert_mutation m d) r = run_state_of d r" "trace (insert_mutation m d) r = trace d r" for r
    by (simp_all add: d run_state_of_def run_of_def trace_def)
  moreover have "muts_step d (insert_mutation m d)"
    by (auto simp: d muts_step_def mut_state_of_def mut_of_def find_append)
  ultimately show ?thesis using fresh
    by (auto simp: evolves_def run_log_step_def ledger_ok_def keys_ok_def admitted_def d intro!: exI [of _ "[]"])
qed (simp add: ev.le_refl)

lemma insert_outbox_frame [simp]:
  "runs (insert_outbox now mid l d) = runs d" "events (insert_outbox now mid l d) = events d"
  "muts (insert_outbox now mid l d) = muts d"
  by (simp_all add: insert_outbox_def)

lemma same_muts_evolves:
  assumes "runs b = runs a" and "events b = events a"
    and "muts b = upd P f (muts a)" and "\<And>m. mu_id (f m) = mu_id m" and "\<And>m. mu_state (f m) = mu_state m"
  shows "evolves a b"
proof (rule evolves_same)
  have "map (\<lambda>m. (mu_id m, mu_state m)) (upd P f (muts a)) = map (\<lambda>m. (mu_id m, mu_state m)) (muts a)"
    by (rule map_upd_key) (simp add: assms(4,5))
  then show "map (\<lambda>m. (mu_id m, mu_state m)) (muts b) = map (\<lambda>m. (mu_id m, mu_state m)) (muts a)"
    by (simp add: assms(3))
qed (use assms(1,2) in \<open>simp_all add: trace_def\<close>)

lemma record_mutation_evolves [op_evolves]:
  assumes "record_mutation now c d = Inr (m, d')"
  shows "evolves d d'"
proof -
  define d1 where "d1 = insert_mutation (received (stamped c)) (insert_admission (ca_run c) (insert_run (ca_run c) (ca_agent c) d))"
  define d2 where "d2 = fold (insert_outbox now (ca_mutation c)) [SQL, VECTOR, GRAPH] d1"
  have "evolves d d1" unfolding d1_def
    by (rule ev.le_trans [OF insert_run_admission_evolves insert_mutation_evolves])
  moreover have "evolves d1 d2" by (rule evolves_frame) (simp_all add: d2_def)
  moreover have "d' = d2 \<or> d' = d2\<lparr>muts := upd (\<lambda>m. mu_id m = ca_mutation c)
      (mu_identity_update (\<lambda>_. ca_identity c)) (muts d2)\<rparr>"
    using assms unfolding record_mutation_def Let_def d1_def [symmetric] d2_def [symmetric]
    by (auto split: if_splits option.splits)
  then have "evolves d2 d'"
    by (elim disjE) (simp_all add: ev.le_refl same_muts_evolves)
  ultimately show ?thesis by (blast intro: ev.le_trans)
qed

lemma meta_update_evolves [simp]: "evolves d (d\<lparr>muts := upd P (mu_meta_update f) (muts d)\<rparr>)"
  by (rule same_muts_evolves [where P = P and f = "mu_meta_update f"]) simp_all

lemma record_extraction_evolving: "evolving snd d (record_extraction agent mid ts d)"
  by (auto simp: record_extraction_def Let_def intro!: evolving_intros split: option.split)

lemma lanes_evolve [simp]: "evolves a (open_lanes mid d) = evolves a d" "evolves a (cancel_lanes mid d) = evolves a d"
  by (simp_all add: open_lanes_def cancel_lanes_def)

lemma set_mutation_state_evolving: "evolving snd d (set_mutation_state agent mid s fc det d)"
  by (auto simp: set_mutation_state_def Let_def intro!: evolving_intros split: option.split)

lemma insert_frames [simp]:
  "runs (insert_artifact a d) = runs d" "events (insert_artifact a d) = events d" "muts (insert_artifact a d) = muts d"
  "runs (insert_registry g d) = runs d" "events (insert_registry g d) = events d" "muts (insert_registry g d) = muts d"
  "runs (insert_owner w d) = runs d" "events (insert_owner w d) = events d" "muts (insert_owner w d) = muts d"
  "runs (insert_attempt t d) = runs d" "events (insert_attempt t d) = events d" "muts (insert_attempt t d) = muts d"
  "runs (insert_cleanup now rid reg d) = runs d" "events (insert_cleanup now rid reg d) = events d"
  "muts (insert_cleanup now rid reg d) = muts d"
  by (simp_all add: insert_artifact_def insert_registry_def insert_owner_def insert_attempt_def insert_cleanup_def)

lemma evolves_insert [simp]:
  "evolves x (insert_artifact a d) = evolves x d" "evolves x (insert_registry g d) = evolves x d"
  "evolves x (insert_owner w d) = evolves x d" "evolves x (insert_attempt t d) = evolves x d"
  "evolves x (insert_cleanup now rid reg d) = evolves x d"
  by (rule evolves_cong; simp)+

lemma record_artifact_evolves [op_evolves]: "record_artifact mid s k a d = Inr d' \<Longrightarrow> evolves d d'"
  by (rule evolves_frame) (auto simp: record_artifact_def Let_def split: if_splits option.splits)

lemma create_revision_evolves [op_evolves]: "create_revision t ds doc rid n h p d = Inr (r, d') \<Longrightarrow> evolves d d'"
  by (rule evolves_frame) (auto simp: create_revision_def Let_def split: if_splits option.splits)

lemma update_manifest_evolves [op_evolves]: "update_manifest dg now rid fin d = Inr (h, d') \<Longrightarrow> evolves d d'"
  by (rule strip_heads_evolves) (auto simp: update_manifest_def Let_def bindE_Inr_iff
      dest!: reconcile_revision_frame split: if_splits option.splits)

subsection \<open>Projection\<close>

lemma claim_projection_evolves [op_evolves]: "claim_projection now tok w n secs d = Inr (rs, d') \<Longrightarrow> evolves d d'"
  by (rule evolves_frame) (auto simp: claim_projection_def Let_def split_def split: if_splits)

lemma climb_evolving: "evolving snd d (climb mid ss cur d)"
proof (induction mid ss cur d rule: climb.induct)
  case (2 mid s ss cur d)
  have "evolving snd d1 (climb mid ss s d1)" if "\<not> lifecycle_order s \<le> lifecycle_order cur" for d1
    using "2.IH"(2) that by blast
  then show ?case using "2.IH"(1) by (auto intro!: evolving_intros)
qed simp

lemma evolving_climb [evolving_intros]: "evolves d d0 \<Longrightarrow> evolving snd d (climb mid ss cur d0)"
  by (rule evolving_call) (auto dest: evolvingD [OF climb_evolving])

lemma resume_mutation_evolving: "evolving snd d (resume_mutation m d)"
  by (auto simp: resume_mutation_def intro!: evolving_intros)

lemma announce_projection_evolving: "evolving (\<lambda>x. x) d (announce_projection mid s d)"
  by (auto simp: announce_projection_def intro!: evolving_intros split: option.split)

lemma advance_projection_evolving: "evolving (\<lambda>x. x) d (advance_projection mid d)"
  by (auto simp: advance_projection_def Let_def
      intro!: evolving_intros resume_mutation_evolving announce_projection_evolving split: option.split)

lemma evolving_advance [evolving_intros]: "evolves d d0 \<Longrightarrow> evolving (\<lambda>x. x) d (advance_projection mid d0)"
  by (rule evolving_call) (auto dest: evolvingD [OF advance_projection_evolving])

lemma complete_tx_evolving: "evolving snd d (complete_tx vec gra pid w tok outcome d)"
  by (auto simp: complete_tx_def Let_def intro!: evolving_intros split: option.split)

lemma finalize_compensation_evolving: "evolving snd d (finalize_compensation mid d)"
  by (auto simp: finalize_compensation_def Let_def intro!: evolving_intros split: option.split)

lemma mark_failed_evolves [simp]: "evolves a (mark_failed now pid tok p err t d) = evolves a d"
  by (simp add: mark_failed_def Let_def)

lemma evolving_report [evolving_intros]: "evolves d d0 \<Longrightarrow> evolving (\<lambda>x. x) d (report_failure mid to err d0)"
  by (auto simp: report_failure_def intro!: evolving_intros split: option.split)

lemma fail_projection_evolving: "evolving snd d (fail_projection now pid w tok err retryable d)"
  by (auto simp: fail_projection_def Let_def intro!: evolving_intros split: option.split)

lemma requeue_skipped_evolves [op_evolves]:
  assumes "requeue_skipped ident l d = Inr (n, d')" shows "evolves d d'"
proof -
  have "evolves d (adopt_identity i d)" for i
    by (rule same_muts_evolves [where P = "\<lambda>m. list_ex (\<lambda>p. ob_mutation p = mu_id m \<and> ob_lane p = VECTOR
          \<and> ob_state p \<noteq> O_COMPLETED) (outboxes d)
        \<and> \<not> list_ex (\<lambda>a. ar_mutation a = mu_id m \<and> ar_store a = VECTOR) (artifacts d)
        \<and> me_identity (mu_meta m) \<noteq> Some i"
        and f = "\<lambda>m. m\<lparr>mu_identity := i, mu_meta := (mu_meta m)\<lparr>me_identity := Some i\<rparr>\<rparr>"])
      (simp_all add: adopt_identity_def)
  moreover have "evolves a (a\<lparr>outboxes := t\<rparr>)" for a t by (rule evolves_frame) simp_all
  ultimately show ?thesis
    using assms by (auto simp: requeue_skipped_def Let_def intro: ev.le_trans split: if_splits option.splits)
qed

lemma recover_in_flight_evolves [op_evolves]: "evolves d (snd (recover_in_flight d))"
  by (rule evolves_frame) (simp_all add: recover_in_flight_def)

subsection \<open>Rollback, replay, cleanup, purge\<close>

lemma restore_supersession_frame:
  assumes "restore_supersession rid d = Inr d'"
  shows "strip_heads d' = strip_heads d"
proof -
  have facts: "strip_heads (restore_facts rid d) = strip_heads d"
  proof -
    have "strip_heads (fold (\<lambda>t d. if P t d then d else d\<lparr>facts := F t d\<rparr>) ts d) = strip_heads d" for P F ts
      by (induction ts arbitrary: d) auto
    then show ?thesis by (simp add: restore_facts_def)
  qed
  have row: "strip_heads b = strip_heads a" if "restore_revision rid row a = Inr b" for row a b
    using that by (auto simp: restore_revision_def Let_def bindE_Inr_iff dest!: activate_revisions_frame
        split: if_splits)
  have "strip_heads d' = strip_heads (restore_facts rid d)"
    by (rule foldE_invariant [where f = "restore_revision rid"
          and I = "\<lambda>x. strip_heads x = strip_heads (restore_facts rid d)"
          and xs = "restore_rows rid (restore_facts rid d)" and s = "restore_facts rid d"])
      (use assms row in \<open>auto simp: restore_supersession_def Let_def\<close>)
  then show ?thesis using facts by simp
qed

lemma tombstone_frame [simp]:
  "runs (tombstone now rid g d) = runs d" "events (tombstone now rid g d) = events d"
  "muts (tombstone now rid g d) = muts d"
  by (simp_all add: tombstone_def retract_physical_def)

lemma tombstone_evolves: "evolves d (fold (tombstone now rid) gs (release_owners rid d))"
proof -
  have "evolves (release_owners rid d) (fold (tombstone now rid) gs (release_owners rid d))"
    by (rule ev.le_fold, rule evolves_frame) simp_all
  moreover have "evolves d (release_owners rid d)"
    by (rule evolves_frame) (simp_all add: release_owners_def)
  ultimately show ?thesis by (blast intro: ev.le_trans)
qed

lemma cancel_run_lanes_evolves [simp]: "evolves a (cancel_run_lanes rid d) = evolves a d"
  by (simp add: cancel_run_lanes_def)

lemma evolving_restore [evolving_intros]:
  "evolves d d0 \<Longrightarrow> evolving (\<lambda>x. x) d (restore_supersession rid d0)"
  by (rule evolving_call) (auto dest: restore_supersession_frame strip_heads_evolves)

lemma request_rollback_evolving: "evolving snd d (request_rollback now rid d)"
  by (auto simp: request_rollback_def Let_def tombstone_evolves intro!: evolving_intros split: option.split)

lemma requeue_dispatch_frame [simp]:
  "runs (requeue_dispatch rid d) = runs d" "events (requeue_dispatch rid d) = events d"
  "muts (requeue_dispatch rid d) = muts d"
proof -
  have "runs (fold requeue_one qs d) = runs d \<and> events (fold requeue_one qs d) = events d
      \<and> muts (fold requeue_one qs d) = muts d" for qs
    by (induction qs arbitrary: d) (auto simp: requeue_one_def)
  then show "runs (requeue_dispatch rid d) = runs d" "events (requeue_dispatch rid d) = events d"
    "muts (requeue_dispatch rid d) = muts d"
    by (simp_all add: requeue_dispatch_def)
qed

lemma evolves_requeue_dispatch [simp]: "evolves a (requeue_dispatch rid d) = evolves a d"
  by (rule evolves_cong) simp_all

lemma replay_run_evolving: "evolving snd d (replay_run rid target d)"
  by (auto simp: replay_run_def Let_def intro!: evolving_intros split: option.split)

lemma claim_cleanup_evolves [op_evolves]: "claim_cleanup now tok w n secs d = Inr (rs, d') \<Longrightarrow> evolves d d'"
  by (rule evolves_frame) (auto simp: claim_cleanup_def Let_def split_def split: if_splits)

lemma apply_cleanup_evolves [op_evolves]: "evolves d (snd (apply_cleanup g d))"
  by (rule evolves_frame) (simp_all add: apply_cleanup_def Let_def split: lane.split)

lemma finish_cleanup_evolving: "evolving snd d (finish_cleanup cid w tok err d)"
  by (auto simp: finish_cleanup_def Let_def intro!: evolving_intros split: option.split)

lemma purge_document_tx_evolves [op_evolves]:
  assumes "purge_document_tx tenant ds doc d = Inr (rs, d')"
  shows "evolves d d'"
proof -
  obtain ids d1 where 1: "purge_mutations (\<lambda>m. mu_dataset m = ds \<and> mu_document m = Some doc) d = Inr (ids, d1)"
    and 2: "runs d' = runs d1"
      "muts d' = upd (\<lambda>m. mu_dataset m = ds \<and> mu_document m = Some doc) (mu_meta_update redact_meta) (muts d1)"
    and 3: "events d' = upd (\<lambda>e. list_ex (\<lambda>m. (mu_dataset m = ds \<and> mu_document m = Some doc) \<and> mu_run m = Some (ev_run e)) (muts d1))
        (ev_detail_update redact_detail) (events d1)"
    using assms by (auto simp: purge_document_tx_def Let_def bindE_Inr_iff split: if_splits)
  have "evolves d1 (d1\<lparr>events := events d'\<rparr>)"
    by (rule evolves_same) (simp_all add: trace_def 3 map_upd_key map_filter_upd)
  moreover have "evolves (d1\<lparr>events := events d'\<rparr>) d'" 
    by (rule same_muts_evolves [where P = "\<lambda>m. mu_dataset m = ds \<and> mu_document m = Some doc" and f = "mu_meta_update redact_meta"])
      (simp_all add: 2)
  ultimately have "evolves d1 d'" by (rule ev.le_trans)
  then show ?thesis using purge_mutations_evolves [OF 1] by (blast intro: ev.le_trans)
qed

lemmas evolving_ops = record_extraction_evolving set_mutation_state_evolving complete_tx_evolving
  finalize_compensation_evolving fail_projection_evolving request_rollback_evolving
  replay_run_evolving finish_cleanup_evolving

subsection \<open>The store\<close>

text \<open>
  A step is one committed transaction; \<open>complete_projection\<close> and \<open>purge_document\<close> contribute the
  transactions they are made of, so other workers may run between them. \<open>ledger_move\<close> has the transactions that take
  no claim on a lane and give none back. The cleanup-only reopening \<open>enqueue_unowned\<close> is not a lifecycle transition
  and is a relation of its own; \<open>Ledger_History\<close> adds it, the dispatch queue and the catalog.
\<close>

inductive ledger_move :: "db \<Rightarrow> db \<Rightarrow> bool" where
  Admit: "record_mutation now c d = Inr (m, d') \<Longrightarrow> ledger_move d d'"
| Extract: "record_extraction agent mid ts d = Inr (ok, d') \<Longrightarrow> ledger_move d d'"
| Set_State: "set_mutation_state agent mid s fc det d = Inr (ok, d') \<Longrightarrow> ledger_move d d'"
| Register: "record_artifact mid st k a d = Inr d' \<Longrightarrow> ledger_move d d'"
| Draft: "create_revision t ds doc rv n h p d = Inr (r, d') \<Longrightarrow> ledger_move d d'"
| Manifest: "update_manifest dg now rv fin d = Inr (h, d') \<Longrightarrow> ledger_move d d'"
| Compensated: "finalize_compensation mid d = Inr (u, d') \<Longrightarrow> ledger_move d d'"
| Roll_Back: "request_rollback now rid d = Inr (res, d') \<Longrightarrow> ledger_move d d'"
| Replay: "replay_run rid target d = Inr (st, d') \<Longrightarrow> ledger_move d d'"
| Claim_Cleanup: "claim_cleanup now tok w n secs d = Inr (cs, d') \<Longrightarrow> ledger_move d d'"
| Apply_Cleanup: "d' = snd (apply_cleanup g d) \<Longrightarrow> ledger_move d d'"
| Finish_Cleanup: "finish_cleanup cid w tok err d = Inr (ok, d') \<Longrightarrow> ledger_move d d'"
| Purge: "purge_document_tx tenant ds doc d = Inr (rs, d') \<Longrightarrow> ledger_move d d'"

inductive lifecycle_step :: "db \<Rightarrow> db \<Rightarrow> bool" where
  Move: "ledger_move d d' \<Longrightarrow> lifecycle_step d d'"
| Claim_Lane: "claim_projection now tok w n secs d = Inr (rs, d') \<Longrightarrow> lifecycle_step d d'"
| Complete: "complete_tx vec gra pid w tok outcome d = Inr (v, d') \<Longrightarrow> lifecycle_step d d'"
| Fail: "fail_projection now pid w tok err retryable d = Inr (ok, d') \<Longrightarrow> lifecycle_step d d'"
| Requeue: "requeue_skipped ident l d = Inr (n, d') \<Longrightarrow> lifecycle_step d d'"
| Recover: "d' = snd (recover_in_flight d) \<Longrightarrow> lifecycle_step d d'"

inductive reopen_step :: "db \<Rightarrow> db \<Rightarrow> bool" where
  Reopen: "enqueue_unowned now mid arts d = Inr (u, d') \<Longrightarrow> reopen_step d d'"

inductive_simps reopen_iff: "reopen_step d d'"

lemma ledger_move_evolves: "ledger_move a b \<Longrightarrow> evolves a b"
  by (induction rule: ledger_move.induct) (auto intro: op_evolves dest: evolving_ops [THEN evolvingD])

lemma lifecycle_step_evolves: "lifecycle_step a b \<Longrightarrow> evolves a b"
  by (induction rule: lifecycle_step.induct) (auto intro: op_evolves ledger_move_evolves dest: evolving_ops [THEN evolvingD])

lemma lifecycle_steps_evolve: "lifecycle_step\<^sup>*\<^sup>* a b \<Longrightarrow> evolves a b"
  by (rule ev.le_rtranclp [OF lifecycle_step_evolves])

lemma ledger_ok_empty: "ledger_ok empty_db"
  by (simp add: ledger_ok_def keys_ok_def admitted_def empty_db_def)

lemma reachable_log:
  assumes "lifecycle_step\<^sup>*\<^sup>* empty_db d"
  shows "ledger_ok d" and "replays None (trace d r) (run_state_of d r)"
proof -
  have "evolves empty_db d" by (rule lifecycle_steps_evolve [OF assms])
  then have *: "ledger_ok d" "run_log_step empty_db d" using ledger_ok_empty by (auto simp: evolves_def)
  then show "ledger_ok d" by simp
  have "trace empty_db r = []" "run_state_of empty_db r = None"
    by (simp_all add: trace_def run_state_of_def run_of_def empty_db_def)
  then show "replays None (trace d r) (run_state_of d r)"
    using *(2) by (auto simp: run_log_step_def dest!: spec [of _ r])
qed

text \<open>Absorbing states.\<close>

lemma mut_edges_absorbing:
  "mut_edge\<^sup>*\<^sup>* s t \<Longrightarrow> mut_edges s = [] \<Longrightarrow> t = s"
  by (induction rule: converse_rtranclp_induct) (auto simp: mut_edge_def)

lemma replays_absorbing: "replays (Some s) es t \<Longrightarrow> run_edges s = [] \<Longrightarrow> t = Some s \<and> es = []"
  by (cases es) auto

end
