(* ===== verification/Lifecycle_Facts.thy ===== *)
theory Lifecycle_Facts imports Steps begin

text \<open>
  The effect of each lifecycle operation on the states it reads: which run state a recomputation
  reaches, that a second recomputation adds nothing, which mutations a loop over the children of
  a run moves, and what the activation of a revision writes.
\<close>

subsection \<open>Recomputation\<close>

definition reach_aggregate :: "run_state \<Rightarrow> run_state \<Rightarrow> bool" where
  "reach_aggregate cur t \<longleftrightarrow> cur = t \<or> t \<in> set (run_edges cur) \<or> cur = P_QUEUED"

lemma aggregate_range:
  "aggregate_state ss \<in> {P_COMMITTED, P_DLQ, P_RETRY_PENDING, P_PROJECTING, P_VALIDATED, P_EXTRACTED, P_RUNNING}"
  by (simp add: aggregate_state_def)

lemma transition_run_total:
  assumes "keys_ok d" and "run_state_of d r = Some cur"
  obtains ok d' where "transition_run r to ty fc det d = Inr (ok, d')"
    "run_state_of d' r = Some (if cur = to \<or> to \<in> set (run_edges cur) then to else cur)"
    "ok \<longleftrightarrow> cur = to \<or> to \<in> set (run_edges cur)" "muts d' = muts d" "keys_ok d'"
    "ok \<and> cur = to \<or> \<not> ok \<Longrightarrow> d' = d"
proof (cases "cur = to \<or> to \<notin> set (run_edges cur)")
  case True
  then show thesis using assms that by (auto simp: transition_run_def)
next
  case False
  let ?c = "cas_run r cur to fc d"
  let ?d = "?c\<lparr>events := events ?c @ [\<lparr>ev_id = Random_Event, ev_run = r,
      ev_from = Some cur, ev_to = to, ev_type = ty, ev_detail = event_json fc det\<rparr>]\<rparr>"
  have "transition_run r to ty fc det d = Inr (True, ?d)"
    using assms False run_hit_one [OF assms] by (simp add: transition_run_def Let_def)
  moreover have "run_state_of ?d r = Some to"
    using run_state_of_cas [OF assms(2), of to fc r] by (simp add: run_state_of_def run_of_def)
  moreover have "keys_ok ?d" using assms(1) by (simp add: keys_ok_def cas_run_def table_simps)
  moreover have "muts ?d = muts d" by (simp add: cas_run_def)
  ultimately show thesis using that [of True ?d] False by auto
qed

lemma recompute_run_total:
  assumes keys: "keys_ok d" and cur: "run_state_of d r = Some cur" and kids: "children d r \<noteq> []"
  defines "t \<equiv> aggregate_state (map mu_state (children d r))"
  obtains ok d' where "recompute_run r ty fc det d = Inr (ok, d')"
    "run_state_of d' r = Some (if reach_aggregate cur t then t else cur)"
    "ok \<longleftrightarrow> reach_aggregate cur t" "muts d' = muts d" "keys_ok d'"
    "cur = t \<or> \<not> reach_aggregate cur t \<Longrightarrow> d' = d"
proof (cases "cur = P_QUEUED \<and> t \<in> {P_EXTRACTED, P_VALIDATED, P_PROJECTING, P_COMMITTED}")
  case True
  obtain ok1 d1 where 1: "transition_run r P_RUNNING ''AGGREGATE_STARTED'' None [] d = Inr (ok1, d1)"
    "run_state_of d1 r = Some P_RUNNING" "ok1" "muts d1 = muts d" "keys_ok d1"
    by (rule transition_run_total [OF keys cur, of P_RUNNING "''AGGREGATE_STARTED''" None "[]"])
      (use True in auto)
  obtain ok2 d2 where 2: "transition_run r t ty fc det d1 = Inr (ok2, d2)"
    "run_state_of d2 r = Some t" "ok2" "muts d2 = muts d1" "keys_ok d2"
    by (rule transition_run_total [OF 1(5,2), of t ty fc det]) (use True in auto)
  have "recompute_run r ty fc det d = Inr (True, d2)"
    using kids cur True 1 2 by (simp add: recompute_run_def Let_def t_def)
  then show thesis using that True 1 2 by (auto simp: reach_aggregate_def)
next
  case False
  have reach: "reach_aggregate cur t \<longleftrightarrow> cur = t \<or> t \<in> set (run_edges cur)"
    using False aggregate_range [of "map mu_state (children d r)"]
    by (cases "cur = P_QUEUED") (auto simp: reach_aggregate_def t_def)
  obtain ok d' where 1: "transition_run r t ty fc det d = Inr (ok, d')"
    "run_state_of d' r = Some (if cur = t \<or> t \<in> set (run_edges cur) then t else cur)"
    "ok \<longleftrightarrow> cur = t \<or> t \<in> set (run_edges cur)" "muts d' = muts d" "keys_ok d'"
    "ok \<and> cur = t \<or> \<not> ok \<Longrightarrow> d' = d"
    by (rule transition_run_total [OF keys cur, of t ty fc det]) blast
  have "recompute_run r ty fc det d = Inr (ok, d')"
    using kids cur False 1 unfolding recompute_run_def Let_def t_def [symmetric] by auto
  then show thesis using that 1 unfolding reach by auto
qed

text \<open>A second recomputation is the identity.\<close>

lemma recompute_run_again:
  assumes "keys_ok d" and "recompute_run r ty fc det d = Inr (ok, d')"
    and same: "runs e = runs d'" "muts e = muts d'"
  shows "recompute_run r ty' fc' det' e = Inr (ok, e)"
proof (cases "children d r = []")
  case True
  then have "d' = d" "\<not> ok" using assms(2) by (auto simp: recompute_run_def)
  then show ?thesis using True same by (simp add: recompute_run_def children_def)
next
  case False
  let ?t = "aggregate_state (map mu_state (children d r))"
  obtain cur where cur: "run_state_of d r = Some cur"
    using assms(2) False by (auto simp: recompute_run_def Let_def split: option.splits)
  obtain ok' d'' where 1: "recompute_run r ty fc det d = Inr (ok', d'')"
    "run_state_of d'' r = Some (if reach_aggregate cur ?t then ?t else cur)"
    "ok' \<longleftrightarrow> reach_aggregate cur ?t" "muts d'' = muts d" "keys_ok d''"
    by (rule recompute_run_total [OF assms(1) cur False, of ty fc det]) blast
  then have d': "d'' = d'" "ok' = ok" using assms(2) by simp_all
  have e: "children e r = children d r" "run_state_of e r = run_state_of d' r" "keys_ok e"
    using same 1(4,5) d' by (simp_all add: children_def run_state_of_def run_of_def keys_ok_def)
  have again: "reach_aggregate (if reach_aggregate cur ?t then ?t else cur) ?t \<longleftrightarrow> reach_aggregate cur ?t"
    by (auto simp: reach_aggregate_def)
  have cur_e: "run_state_of e r = Some (if reach_aggregate cur ?t then ?t else cur)"
    using 1(2) d' e(2) by simp
  have "children e r \<noteq> []" using False e(1) by simp
  then obtain ok3 d3 where 3: "recompute_run r ty' fc' det' e = Inr (ok3, d3)" "ok3 \<longleftrightarrow> reach_aggregate cur ?t" "d3 = e"
    using recompute_run_total [OF e(3) cur_e, of ty' fc' det' thesis] e(1) again
    by (metis (no_types, lifting))
  then show ?thesis using 1(3) d' by simp
qed

subsection \<open>Which mutations move\<close>

lemma after_change_muts:
  "after_mutation_change mid to d = Inr (ok, d') \<Longrightarrow> muts d' = muts d \<and> ok"
proof -
  have run: "muts b = muts a" if "transition_run r rto ty fc det a = Inr (x, b)" for r rto ty fc det a x b
    using that by (auto simp: transition_run_def Let_def cas_run_def split: option.splits if_splits)
  have rec: "muts b = muts a" if "recompute_run r ty fc det a = Inr (x, b)" for r ty fc det a x b
    using that by (auto simp: recompute_run_def Let_def bindE_Inr_iff dest!: run split: option.splits if_splits)
  have act: "muts b = muts a" if "activate_committed mid a = Inr b" for a b
    using activate_committed_frame [OF that] by (rule strip_heads_sel)
  assume "after_mutation_change mid to d = Inr (ok, d')"
  then show ?thesis
    by (auto simp: after_mutation_change_def bindE_Inr_iff dest!: rec act split: option.splits if_splits)
qed

lemma keys_ok_evolves_mut:
  assumes "transition_mutation mid to fc d = Inr (ok, d')" and "keys_ok d"
  shows "distinct (map mu_id (muts d'))"
  using assms
proof (cases rule: transition_mutation_cases)
  case (moved cur)
  then show ?thesis using assms(2) after_change_muts [OF moved(4)]
    by (simp add: keys_ok_def cas_mutation_def table_simps)
qed (use assms(2) in \<open>simp_all add: keys_ok_def\<close>)

lemma transition_mutation_states:
  assumes "transition_mutation mid to fc d = Inr (ok, d')" and "keys_ok d"
  shows "\<exists>cur. mut_state_of d mid = Some cur \<and> (ok \<longleftrightarrow> cur = to \<or> to \<in> set (mut_edges cur)) \<and>
    mut_state_of d' m = (if m = mid \<and> ok then Some to else mut_state_of d m)"
  using assms
proof (cases rule: transition_mutation_cases)
  case (moved cur)
  have "mut_state_of d' m = mut_state_of (cas_mutation mid cur to fc d) m"
    using after_change_muts [OF moved(4)] by (simp add: mut_state_of_def mut_of_def)
  then show ?thesis using moved after_change_muts [OF moved(4)] mut_state_of_cas [OF moved(1)] by auto
qed auto

subsection \<open>The events of a mutation's own change\<close>

text \<open>\<open>quiet a b\<close>: the events appended carry no detail and one of two anonymous types.\<close>

definition quiet :: "db \<Rightarrow> db \<Rightarrow> bool" where
  "quiet a b \<longleftrightarrow> (\<exists>new. events b = events a @ new \<and>
    (\<forall>e \<in> set new. ev_type e \<in> {''MUTATION_STATE_CHANGE'', ''AGGREGATE_STARTED''} \<and> ev_detail e = []))"

interpretation quiet: handler_frame quiet
proof
  show "quiet s s" for s by (auto simp: quiet_def)
  show "quiet s t \<Longrightarrow> quiet t u \<Longrightarrow> quiet s u" for s t u by (fastforce simp: quiet_def)
qed

lemma transition_run_quiet:
  assumes "transition_run r to ty None [] d = Inr (ok, d')"
    and "ty \<in> {''MUTATION_STATE_CHANGE'', ''AGGREGATE_STARTED''}"
  shows "quiet d d'"
  using assms
  by (auto simp: transition_run_def Let_def cas_run_def quiet_def event_json_def split: option.splits if_splits)

lemma recompute_run_quiet:
  "recompute_run r ''MUTATION_STATE_CHANGE'' None [] d = Inr (ok, d') \<Longrightarrow> quiet d d'"
  by (auto simp: recompute_run_def Let_def bindE_Inr_iff quiet.le_refl
      dest!: transition_run_quiet intro: quiet.le_trans split: option.splits if_splits)

lemma after_change_cases:
  assumes "after_mutation_change mid to d = Inr (ok, d')" and "mut_of d mid = Some m"
  obtains b d2 where "if truthy (mu_run m)
      then recompute_run (the (mu_run m)) ''MUTATION_STATE_CHANGE'' None [] d = Inr (b, d2) else d2 = d"
    "runs d' = runs d2" "events d' = events d2" "muts d' = muts d2" "quiet d d'"
proof -
  obtain d2 b where 1: "if truthy (mu_run m)
      then recompute_run (the (mu_run m)) ''MUTATION_STATE_CHANGE'' None [] d = Inr (b, d2) else d2 = d"
    and 2: "d' = d2 \<or> activate_committed mid d2 = Inr d'"
    using assms by (auto simp: after_mutation_change_def bindE_Inr_iff split: if_splits)
  have same: "runs d' = runs d2" "events d' = events d2" "muts d' = muts d2"
    using 2 by (auto dest!: activate_committed_frame dest: strip_heads_sel)
  have "quiet d d2" using 1 by (auto simp: quiet.le_refl dest: recompute_run_quiet split: if_splits)
  then have "quiet d d'" using same(2) by (simp add: quiet_def)
  then show thesis using that 1 same by blast
qed

text \<open>Primary keys survive the lifecycle operations.\<close>

definition same_ids :: "db \<Rightarrow> db \<Rightarrow> bool" where
  "same_ids a b \<longleftrightarrow> map rn_id (runs b) = map rn_id (runs a) \<and> map mu_id (muts b) = map mu_id (muts a)"

lemma same_ids_keys: "same_ids a b \<Longrightarrow> keys_ok b = keys_ok a"
  by (simp add: same_ids_def keys_ok_def)

lemma transition_run_ids: "transition_run r to ty fc det d = Inr (ok, d') \<Longrightarrow> same_ids d d'"
  by (auto simp: transition_run_def Let_def cas_run_def same_ids_def table_simps split: option.splits if_splits)

lemma recompute_run_ids: "recompute_run r ty fc det d = Inr (ok, d') \<Longrightarrow> same_ids d d'"
  by (auto simp: recompute_run_def Let_def bindE_Inr_iff same_ids_def
      dest!: transition_run_ids split: option.splits if_splits)

lemma activate_committed_ids: "activate_committed mid d = Inr d' \<Longrightarrow> same_ids d d'"
  by (auto simp: same_ids_def dest!: activate_committed_frame dest: strip_heads_sel)

lemma after_change_ids: "after_mutation_change mid to d = Inr (ok, d') \<Longrightarrow> same_ids d d'"
  by (auto simp: after_mutation_change_def bindE_Inr_iff same_ids_def
      dest!: recompute_run_ids activate_committed_ids split: option.splits if_splits)

lemma transition_mutation_ids: "transition_mutation mid to fc d = Inr (ok, d') \<Longrightarrow> same_ids d d'"
  by (auto simp: transition_mutation_def Let_def cas_mutation_def same_ids_def table_simps
      dest!: after_change_ids split: option.splits if_splits)

text \<open>The state a legal or refused move leaves.\<close>

definition moved_state :: "mut_state \<Rightarrow> mut_state \<Rightarrow> mut_state" where
  "moved_state to cur = (if to \<in> set (mut_edges cur) then to else cur)"

lemma children_loop_states:
  assumes "foldE (\<lambda>mid (n, d). bindE (transition_mutation mid to fc d)
        (\<lambda>(ok, d'). Inr (if ok then Suc n else n, d'))) ids (n, d) = Inr (n', d')"
    and "keys_ok d" and "distinct ids"
  shows "mut_state_of d' m = (if m \<in> set ids then map_option (moved_state to) (mut_state_of d m)
    else mut_state_of d m) \<and> keys_ok d'"
  using assms
proof (induction ids arbitrary: n d)
  case (Cons i ids)
  from Cons.prems(1) obtain ok d1 n1 where t: "transition_mutation i to fc d = Inr (ok, d1)"
    and rest: "foldE (\<lambda>mid (n, d). bindE (transition_mutation mid to fc d)
        (\<lambda>(ok, d'). Inr (if ok then Suc n else n, d'))) ids (n1, d1) = Inr (n', d')"
    by (auto simp: bindE_Inr_iff)
  have keys: "keys_ok d1" using same_ids_keys [OF transition_mutation_ids [OF t]] Cons.prems(2) by simp
  have IH: "mut_state_of d' m = (if m \<in> set ids then map_option (moved_state to) (mut_state_of d1 m)
    else mut_state_of d1 m) \<and> keys_ok d'"
    using Cons.IH [OF rest keys] Cons.prems(3) by simp
  show ?case
    using IH Cons.prems(3) transition_mutation_states [OF t Cons.prems(2), of m]
    by (auto simp: moved_state_def)
qed simp

lemma transition_children_states:
  assumes "transition_children r to fc d = Inr (n, d')" and "keys_ok d"
  shows "mut_state_of d' m = (if m \<in> mu_id ` set (children d r)
    then map_option (moved_state to) (mut_state_of d m) else mut_state_of d m) \<and> keys_ok d'"
proof -
  have "distinct (map mu_id (children d r))"
    using assms(2) by (simp add: keys_ok_def children_def distinct_map_filter)
  then show ?thesis
    using children_loop_states [OF assms(1) [unfolded transition_children_def] assms(2)] by simp
qed

subsection \<open>Activation of a revision\<close>

lemma rev_of_upd:
  assumes "\<And>r. rv_id (f r) = rv_id r"
  shows "rev_of (d\<lparr>revs := upd P f t\<rparr>) i = map_option (\<lambda>r. if P r then f r else r) (rev_of (d\<lparr>revs := t\<rparr>) i)"
  by (simp add: rev_of_def find_upd_key [of rv_id f, OF assms])

lemma rev_of_cong: "revs b = revs a \<Longrightarrow> rev_of b i = rev_of a i"
  by (simp add: rev_of_def)

lemma replace_head_effect:
  assumes "replace_head rv pred d = Inr d'" and dist: "distinct (map rv_id (revs d))" and "rev_of d (rv_id rv) = Some rv" and "rv_status rv = R_PENDING"
  shows "map_option rv_status (rev_of d pred) = Some R_ACTIVE"
    "map_option rv_status (rev_of d' pred) = Some R_SUPERSEDED"
    "map_option rv_status (rev_of d' (rv_id rv)) = Some R_ACTIVE"
    "i \<noteq> pred \<Longrightarrow> i \<noteq> rv_id rv \<Longrightarrow> rev_of d' i = rev_of d i"
proof -
  let ?old = "\<lambda>r. rv_id r = pred \<and> rv_document r = rv_document rv \<and> rv_status r = R_ACTIVE"
  let ?new = "\<lambda>r. rv_id r = rv_id rv \<and> rv_status r = R_PENDING"
  obtain x where x: "rev_of d pred = Some x" "rv_status x = R_ACTIVE"
    and one: "rowcount ?old (revs d) = 1"
    and d': "revs d' = upd ?new (rv_status_update (\<lambda>_. R_ACTIVE)) (upd ?old (rv_status_update (\<lambda>_. R_SUPERSEDED)) (revs d))"
      "rowcount ?new (upd ?old (rv_status_update (\<lambda>_. R_SUPERSEDED)) (revs d)) = 1"
    using assms(1) by (auto simp: replace_head_def Let_def bindE_Inr_iff activate_revisions_def split: if_splits)
  have look: "rev_of d' i = map_option (\<lambda>r. if ?new r then rv_status_update (\<lambda>_. R_ACTIVE) r else r)
      (map_option (\<lambda>r. if ?old r then rv_status_update (\<lambda>_. R_SUPERSEDED) r else r) (rev_of d i))" for i
    by (simp add: rev_of_def d'(1) find_upd_key [of rv_id])
  show "map_option rv_status (rev_of d pred) = Some R_ACTIVE" using x by simp
  have ne: "pred \<noteq> rv_id rv" using x assms(3,4) by auto
  show "map_option rv_status (rev_of d' (rv_id rv)) = Some R_ACTIVE"
    using assms(3,4) ne by (simp add: look)
  show "i \<noteq> pred \<Longrightarrow> i \<noteq> rv_id rv \<Longrightarrow> rev_of d' i = rev_of d i"
    by (cases "rev_of d i") (auto simp: look dest: find_in_table)
  have "rv_document x = rv_document rv"
  proof -
    obtain h where h: "h \<in> set (revs d)" "?old h"
    proof -
      have "rowcount ?old (revs d) \<noteq> 0" using one by simp
      then show ?thesis using that by (auto simp: rowcount_0_iff)
    qed
    then have "x = h" using find_distinct [OF dist h(1)] x(1) by (simp add: rev_of_def)
    then show ?thesis using h by simp
  qed
  then show "map_option rv_status (rev_of d' pred) = Some R_SUPERSEDED"
    using x ne find_in_table [OF x(1)] by (simp add: look)
qed

end
