(* ===== verification/Ledger_Properties.thy ===== *)
theory Ledger_Properties imports Lifecycle_Facts begin

text \<open>
  What the lifecycle theories show of the ledger: its history, its absorbing states, the aggregate
  state of a run and the head of a document, each for every reachable database or every call.
\<close>

subsection \<open>A small ledger\<close>

text \<open>One admitted candidate, and the same with its run and mutation purged.\<close>

definition no_identity :: identity where
  "no_identity = \<lparr>id_provider = None, id_model = None, id_version = None, id_dimension = None\<rparr>"

definition no_meta :: meta where
  "no_meta = \<lparr>me_valid_from = [], me_triplets = None, me_identity = None, me_members = []\<rparr>"

definition candidate1 :: candidate where
  "candidate1 = \<lparr>ca_mutation = ''m'', ca_candidate = ''c'', ca_raw_log = None, ca_tenant = ''t'', ca_workspace = ''w'',
     ca_dataset = ''s'', ca_document = ''d'', ca_revision = ''v'', ca_chunk = ''k'', ca_agent = ''a'',
     ca_session = ''z'', ca_content = ''x'', ca_source = ''y'', ca_run = ''r'', ca_meta = no_meta, ca_identity = no_identity\<rparr>"

definition admitted_db :: db where
  "admitted_db = (case record_mutation 0 candidate1 empty_db of Inl _ \<Rightarrow> empty_db | Inr (_, d) \<Rightarrow> d)"

definition rejected_db :: db where
  "rejected_db = (case set_mutation_state ''a'' ''m'' M_REJECTED None [] admitted_db of
     Inl _ \<Rightarrow> empty_db | Inr (_, d) \<Rightarrow> d)"

lemma admitted_db_step: "record_mutation 0 candidate1 empty_db = Inr (received candidate1, admitted_db)"
  by (simp add: admitted_db_def record_mutation_def candidate1_def valid_agent_def Let_def empty_db_def
      insert_run_def insert_admission_def insert_mutation_def insert_outbox_def projection_id_def
      received_def stamped_def stamp_identity_def no_identity_def identity_given_def)

lemma admitted_db_eq:
  "runs admitted_db = [\<lparr>rn_id = ''r'', rn_agent = ''a'', rn_state = P_QUEUED, rn_failure = None\<rparr>]"
  "muts admitted_db = [received candidate1]"
  "events admitted_db = [\<lparr>ev_id = Admission_Event ''r'', ev_run = ''r'', ev_from = None,
      ev_to = P_QUEUED, ev_type = ''ADMITTED'', ev_detail = []\<rparr>]"
  by (simp_all add: admitted_db_def record_mutation_def candidate1_def valid_agent_def Let_def empty_db_def
      insert_run_def insert_admission_def insert_mutation_def insert_outbox_def projection_id_def
      received_def stamped_def stamp_identity_def no_identity_def identity_given_def)

lemma rejected_db_step:
  "set_mutation_state ''a'' ''m'' M_REJECTED None [] admitted_db = Inr (True, rejected_db)"
  "mut_state_of rejected_db ''m'' = Some M_REJECTED" "run_state_of rejected_db ''r'' = Some P_DLQ"
  by (simp_all add: rejected_db_def set_mutation_state_def admitted_db_eq valid_agent_def settable_def
      received_def candidate1_def transition_mutation_def mut_of_def Let_def cas_mutation_def mut_hit_def
      after_mutation_change_def recompute_run_def children_def run_state_of_def run_of_def
      aggregate_state_def transition_run_def cas_run_def run_hit_def cancel_lanes_def mut_state_of_def
      clip_def)

lemma admitted_reachable: "lifecycle_step\<^sup>*\<^sup>* empty_db admitted_db"
  using Move [OF Admit [OF admitted_db_step]] by blast

lemma rejected_reachable: "lifecycle_step\<^sup>*\<^sup>* empty_db rejected_db"
  using admitted_reachable Move [OF Set_State [OF rejected_db_step(1)]] by (rule rtranclp.rtrancl_into_rtrancl)

subsection \<open>Absorbing states\<close>

text \<open>
  Terminal states are absorbing: once a mutation is \<open>PURGED\<close>, \<open>ROLLED_BACK\<close>, \<open>REJECTED\<close> or
  \<open>CANCELLED\<close> no sequence of transactions changes its state, and a run in one of those states stays
  there with no further event.
\<close>

lemma terminal_states_absorb:
  assumes "lifecycle_step\<^sup>*\<^sup>* empty_db a" and "lifecycle_step\<^sup>*\<^sup>* a b"
  shows "(mut_state_of a m = Some s \<and> s \<in> {M_PURGED, M_ROLLED_BACK, M_REJECTED, M_CANCELLED}
      \<longrightarrow> mut_state_of b m = Some s) \<and>
    (run_state_of a r = Some t \<and> t \<in> {P_PURGED, P_ROLLED_BACK, P_REJECTED, P_CANCELLED}
      \<longrightarrow> run_state_of b r = Some t \<and> trace b r = trace a r)"
proof (intro conjI impI)
  have e: "run_log_step a b" "muts_step a b"
    using lifecycle_steps_evolve [OF assms(2)] reachable_log(1) [OF assms(1)] by (auto simp: evolves_def)
  show "mut_state_of b m = Some s"
    if "mut_state_of a m = Some s \<and> s \<in> {M_PURGED, M_ROLLED_BACK, M_REJECTED, M_CANCELLED}"
    using e(2) that mut_edges_absorbing unfolding muts_step_def by fastforce
  assume t: "run_state_of a r = Some t \<and> t \<in> {P_PURGED, P_ROLLED_BACK, P_REJECTED, P_CANCELLED}"
  then have "run_edges t = []" by auto
  moreover obtain new where "trace b r = trace a r @ new" "replays (Some t) new (run_state_of b r)"
    using e(1) t by (auto simp: run_log_step_def dest!: spec [of _ r])
  ultimately show "run_state_of b r = Some t" "trace b r = trace a r"
    using replays_absorbing by fastforce+
qed

lemma terminal_states_absorb_witness:
  "mut_state_of rejected_db ''m'' = Some M_REJECTED \<and>
    mut_state_of (snd (recover_in_flight rejected_db)) ''m'' = Some M_REJECTED"
proof -
  have "lifecycle_step\<^sup>*\<^sup>* rejected_db (snd (recover_in_flight rejected_db))"
    using Recover [OF refl, of rejected_db] by blast
  then show ?thesis
    using terminal_states_absorb [OF rejected_reachable, of _ "''m''" M_REJECTED] rejected_db_step(2) by blast
qed

subsection \<open>The state of a run is the aggregate of its mutations\<close>

text \<open>
  Recomputing a run with at least one mutation moves it to the aggregate state of its mutations
  exactly when that state is its own, is one legal transition away, or the run is still \<open>QUEUED\<close>
  (then through \<open>RUNNING\<close>); otherwise the run keeps its state and the call reports False.
\<close>

lemma recompute_reaches_aggregate:
  assumes "keys_ok d" and "run_state_of d r = Some cur" and "children d r \<noteq> []"
    and "recompute_run r ty fc det d = Inr (ok, d')"
  shows "let t = aggregate_state (map mu_state (children d r)) in
    run_state_of d' r = Some (if ok then t else cur) \<and>
    (ok \<longleftrightarrow> cur = t \<or> t \<in> set (run_edges cur) \<or> cur = P_QUEUED) \<and> (\<not> ok \<longrightarrow> d' = d)"
proof -
  let ?t = "aggregate_state (map mu_state (children d r))"
  obtain ok' d'' where 1: "recompute_run r ty fc det d = Inr (ok', d'')"
    "run_state_of d'' r = Some (if reach_aggregate cur ?t then ?t else cur)"
    "ok' \<longleftrightarrow> reach_aggregate cur ?t" "cur = ?t \<or> \<not> reach_aggregate cur ?t \<Longrightarrow> d'' = d"
    by (rule recompute_run_total [OF assms(1-3), of ty fc det]) blast
  then have "ok' = ok" "d'' = d'" using assms(4) by simp_all
  then show ?thesis using 1 by (simp add: Let_def reach_aggregate_def)
qed

lemma recompute_reaches_aggregate_witness:
  "\<exists>d'. recompute_run ''r'' ''x'' None [] admitted_db = Inr (True, d') \<and> run_state_of d' ''r'' = Some P_RUNNING"
proof -
  have k: "keys_ok admitted_db" using reachable_log(1) [OF admitted_reachable] by (simp add: ledger_ok_def)
  have c: "run_state_of admitted_db ''r'' = Some P_QUEUED" "children admitted_db ''r'' = [received candidate1]"
    by (simp_all add: admitted_db_eq run_state_of_def run_of_def children_def received_def candidate1_def)
  obtain ok d' where r: "recompute_run ''r'' ''x'' None [] admitted_db = Inr (ok, d')"
    by (rule recompute_run_total [OF k c(1), of "''x''" None "[]"]) (use c(2) in auto)
  show ?thesis
    using recompute_reaches_aggregate [OF k c(1) _ r] c(2) r
    by (simp add: Let_def aggregate_state_def received_def candidate1_def)
qed

text \<open>
  When the worker changes a mutation's state through \<open>set_mutation_state\<close>, the event it asks
  for (its type \<open>MUTATION_..\<close>, its failure class, its detail) is not written: the state change
  itself has already recomputed the run, so every event the call appends is an anonymous
  \<open>MUTATION_STATE_CHANGE\<close> or \<open>AGGREGATE_STARTED\<close> with an empty detail.
\<close>

lemma worker_event_detail_dropped:
  assumes "keys_ok d" and "mut_state_of d mid = Some cur" and "cur \<noteq> s"
    and "set_mutation_state agent mid s fc det d = Inr (True, d')"
  shows "\<exists>new. events d' = events d @ new \<and>
    (\<forall>e \<in> set new. ev_type e \<in> {''MUTATION_STATE_CHANGE'', ''AGGREGATE_STARTED''} \<and> ev_detail e = [])"
proof -
  obtain m where m: "find (\<lambda>m. mu_id m = mid \<and> mu_agent m = agent) (muts d) = Some m"
    and valid: "valid_agent agent" "settable s"
    using assms(4) by (auto simp: set_mutation_state_def split: if_splits option.splits)
  obtain d1 e where t: "transition_mutation mid s (clip fc) d = Inr (True, d1)"
    and e: "runs e = runs d1" "events e = events d1" "muts e = muts d1"
    and rest: "d' = e \<and> \<not> truthy (mu_run m) \<or> truthy (mu_run m) \<and>
      (\<exists>b ty. recompute_run (the (mu_run m)) ty fc det e = Inr (b, d'))"
  proof -
    obtain d1 where t: "transition_mutation mid s (clip fc) d = Inr (True, d1)"
      using assms(4) m valid by (auto simp: set_mutation_state_def Let_def bindE_Inr_iff split: if_splits)
    define e where "e = (if s = M_VALIDATED then open_lanes mid d1
      else if s = M_REJECTED then cancel_lanes mid d1 else d1)"
    have "runs e = runs d1" "events e = events d1" "muts e = muts d1"
      by (simp_all add: e_def open_lanes_def cancel_lanes_def)
    moreover have "d' = e \<and> \<not> truthy (mu_run m) \<or> truthy (mu_run m) \<and>
      (\<exists>b ty. recompute_run (the (mu_run m)) ty fc det e = Inr (b, d'))"
      using assms(4) m valid t
      by (cases "s = M_VALIDATED"; cases "s = M_REJECTED"; cases "truthy (mu_run m)")
        (auto simp: set_mutation_state_def Let_def e_def bindE_Inr_iff)
    ultimately show thesis using that t by blast
  qed
  have m_in: "m \<in> set (muts d)" "mu_id m = mid" using m by (auto dest: find_SomeD)
  have mo: "mut_of d mid = Some m"
    using find_distinct [of mu_id "muts d" m] m_in assms(1) by (simp add: keys_ok_def mut_of_def)
  from t assms(1) show ?thesis
  proof (cases rule: transition_mutation_cases)
    case (moved c)
    let ?d0 = "cas_mutation mid c s (clip fc) d"
    obtain m0 where m0: "mut_of ?d0 mid = Some m0" "mu_run m0 = mu_run m"
      using mo find_upd_key [of mu_id "\<lambda>m. m\<lparr>mu_state := s, mu_failure := clip fc\<rparr>" mid "mut_hit mid c" "muts d"]
      by (simp add: cas_mutation_def mut_of_def)
    have k0: "keys_ok ?d0" using assms(1) by (simp add: keys_ok_def cas_mutation_def table_simps)
    obtain b d2 where d2: "if truthy (mu_run m0)
        then recompute_run (the (mu_run m0)) ''MUTATION_STATE_CHANGE'' None [] ?d0 = Inr (b, d2) else d2 = ?d0"
      "runs d1 = runs d2" "events d1 = events d2" "muts d1 = muts d2" "quiet ?d0 d1"
      by (rule after_change_cases [OF moved(4) m0(1)])
    have "d' = e"
    proof (cases "truthy (mu_run m)")
      case True
      then have "recompute_run (the (mu_run m)) ''MUTATION_STATE_CHANGE'' None [] ?d0 = Inr (b, d2)"
        using d2(1) m0(2) by simp
      then have "recompute_run (the (mu_run m)) ty fc det e = Inr (b, e)" for ty
        by (rule recompute_run_again [OF k0]) (use e d2 in simp_all)
      then show ?thesis using rest True by auto
    qed (use rest in simp)
    moreover have "events ?d0 = events d" by (simp add: cas_mutation_def)
    ultimately show ?thesis using d2(5) e(2) by (simp add: quiet_def)
  qed (use assms(2,3) in auto)
qed

theorem worker_event_detail_dropped_witness:
  "\<exists>new. events rejected_db = events admitted_db @ new \<and>
    (\<forall>e \<in> set new. ev_type e \<in> {''MUTATION_STATE_CHANGE'', ''AGGREGATE_STARTED''} \<and> ev_detail e = [])"
proof (rule worker_event_detail_dropped [OF _ _ _ rejected_db_step(1)])
  show "keys_ok admitted_db" using reachable_log(1) [OF admitted_reachable] by (simp add: ledger_ok_def)
  show "mut_state_of admitted_db ''m'' = Some M_RECEIVED"
    by (simp add: admitted_db_eq mut_state_of_def mut_of_def received_def candidate1_def)
qed simp

end
