(* ===== verification/Revision_Properties.thy ===== *)
theory Revision_Properties imports Ledger_Properties begin

text \<open>
  The head of a document: what activation needs and writes, that it never trips the unique index,
  the links a commit activates, and the rollback of a revision that lost the race for the head.
\<close>

subsection \<open>Example tables\<close>

text \<open>
  Document \<open>d\<close>: \<open>v1\<close> was replaced by the head \<open>v2\<close>; \<open>v3\<close>, a second successor of \<open>v1\<close>, is still pending
  and its only mutation failed.
\<close>

definition rev_row :: "string \<Rightarrow> int \<Rightarrow> rev_status \<Rightarrow> string option \<Rightarrow> revision" where
  "rev_row i n s p = \<lparr>rv_id = i, rv_tenant = ''t'', rv_document = ''d'', rv_number = n, rv_hash = Some i,
     rv_status = s, rv_supersedes = p, rv_manifest = Some ''h'', rv_frozen_at = Some 0\<rparr>"

definition failed_mutation :: mutation where
  "failed_mutation = (received candidate1)\<lparr>mu_state := M_DEAD_LETTER, mu_revision := Some ''v3''\<rparr>"

definition race_db :: db where
  "race_db = empty_db\<lparr>
     runs := [\<lparr>rn_id = ''r'', rn_agent = ''a'', rn_state = P_DLQ, rn_failure = None\<rparr>],
     muts := [failed_mutation],
     revs := [rev_row ''v1'' 1 R_SUPERSEDED None, rev_row ''v2'' 2 R_ACTIVE (Some ''v1''),
              rev_row ''v3'' 3 R_PENDING (Some ''v1'')]\<rparr>"

text \<open>A revision whose one chunk is committed, replacing the head \<open>v1\<close>.\<close>

definition ready_db :: db where
  "ready_db = empty_db\<lparr>
     muts := [(received candidate1)\<lparr>mu_state := M_COMMITTED, mu_revision := Some ''v2''\<rparr>],
     revs := [rev_row ''v1'' 1 R_ACTIVE None, rev_row ''v2'' 2 R_PENDING (Some ''v1'')],
     chunks := [\<lparr>ch_id = ''k'', ch_tenant = ''t'', ch_dataset = ''s'', ch_revision = ''v2'', ch_ordinal = 0, ch_hash = ''x'', ch_source = ''r''\<rparr>], facts := []\<rparr>"

lemma ready_db_ok: "revs_ok ready_db" "rev_of ready_db ''v2'' = Some (rev_row ''v2'' 2 R_PENDING (Some ''v1''))"
  "commit_ready ''v2'' ready_db"
  by (simp_all add: revs_ok_def ready_db_def heads_ok_def rev_row_def rev_of_def commit_ready_def
      received_def candidate1_def Let_def)

lemma ready_db_reconcile: "\<exists>d'. reconcile_revision ''v2'' ready_db = Inr d'
    \<and> map_option rv_status (rev_of d' ''v2'') \<noteq> Some R_PENDING"
  by (simp add: reconcile_revision_def ready_db_ok replace_head_def Let_def activate_revisions_def)
    (simp add: ready_db_def rev_row_def rev_of_def heads_ok_def)

subsection \<open>Activation\<close>

text \<open>
  C2. Reconciling a revision keeps at most one \<open>ACTIVE\<close> revision per document, and the unique index
  \<open>uq_active_document_revision\<close> is never the reason it fails.
\<close>

theorem reconcile_keeps_one_head:
  assumes "revs_ok d"
  shows "reconcile_revision rid d \<noteq> Inl Integrity_Error \<and>
    (\<forall>d'. reconcile_revision rid d = Inr d' \<longrightarrow> revs_ok d')"
  using reconcile_revision_ok [OF assms] by blast

theorem reconcile_keeps_one_head_witness:
  "\<exists>d'. reconcile_revision ''v2'' ready_db = Inr d' \<and> revs_ok d'"
  using reconcile_keeps_one_head [OF ready_db_ok(1), of "''v2''"] ready_db_reconcile by blast

text \<open>
  C7. A pending revision is activated only when its manifest is frozen and every one of its chunks
  has a committed mutation; then it is the \<open>ACTIVE\<close> one, the predecessor it names was \<open>ACTIVE\<close> and is
  now \<open>SUPERSEDED\<close>, and no other revision changed.
\<close>

theorem activation_only_when_complete:
  assumes "revs_ok d" and "rev_of d rid = Some rv" and "rv_status rv = R_PENDING"
    and "reconcile_revision rid d = Inr d'" and "map_option rv_status (rev_of d' rid) \<noteq> Some R_PENDING"
  shows "commit_ready rid d \<and> truthy (rv_manifest rv) \<and> rv_frozen_at rv \<noteq> None \<and>
    map_option rv_status (rev_of d' rid) = Some R_ACTIVE \<and>
    (truthy (rv_supersedes rv) \<longrightarrow> map_option rv_status (rev_of d (the (rv_supersedes rv))) = Some R_ACTIVE
       \<and> map_option rv_status (rev_of d' (the (rv_supersedes rv))) = Some R_SUPERSEDED) \<and>
    (\<forall>i. i \<noteq> rid \<longrightarrow> Some i \<noteq> rv_supersedes rv \<longrightarrow> rev_of d' i = rev_of d i)"
proof -
  have id: "rv_id rv = rid" using find_in_table [OF assms(2)] by simp
  have dist: "distinct (map rv_id (revs d))" using assms(1) by (simp add: revs_ok_def)
  have go: "truthy (rv_manifest rv)" "rv_frozen_at rv \<noteq> None" "commit_ready rid d"
    "(if truthy (rv_supersedes rv) then replace_head rv (the (rv_supersedes rv)) d else claim_head rv d) = Inr d'"
    using assms(2-5) by (auto simp: reconcile_revision_def split: if_splits)
  show ?thesis
  proof (cases "truthy (rv_supersedes rv)")
    case True
    then have "replace_head rv (the (rv_supersedes rv)) d = Inr d'" using go by simp
    note e = replace_head_effect [OF this dist, unfolded id, OF assms(2,3)]
    have "rev_of d' i = rev_of d i" if "i \<noteq> rid" "Some i \<noteq> rv_supersedes rv" for i
      using e(4) [of i] that True by (cases "rv_supersedes rv") auto
    then show ?thesis using go e True by blast
  next
    case False
    let ?P = "\<lambda>r. rv_id r = rv_id rv \<and> rv_status r = R_PENDING
      \<and> \<not> list_ex (\<lambda>a. rv_document a = rv_document r \<and> rv_status a = R_ACTIVE) (revs d)"
    have c: "claim_head rv d = Inr d'" using go False by simp
    then have d': "revs d' = upd ?P (rv_status_update (\<lambda>_. R_ACTIVE)) (revs d)"
      by (auto simp: claim_head_def bindE_Inr_iff activate_revisions_def Let_def split: if_splits)
    then have look: "rev_of d' i = map_option (\<lambda>r. if ?P r then rv_status_update (\<lambda>_. R_ACTIVE) r else r)
        (rev_of d i)" for i
      by (simp add: rev_of_def find_upd_key [of rv_id])
    have "rev_of d' i = rev_of d i" if "i \<noteq> rid" for i
      using that by (cases "rev_of d i") (auto simp: look id dest: find_in_table)
    moreover have "map_option rv_status (rev_of d' rid) = Some R_ACTIVE"
      using assms(2,3,5) by (simp add: look split: if_splits)
    ultimately show ?thesis using go False by simp
  qed
qed

theorem activation_only_when_complete_witness:
  "\<exists>d'. reconcile_revision ''v2'' ready_db = Inr d' \<and> map_option rv_status (rev_of d' ''v1'') = Some R_SUPERSEDED"
proof -
  obtain d' where d': "reconcile_revision ''v2'' ready_db = Inr d'"
    "map_option rv_status (rev_of d' ''v2'') \<noteq> Some R_PENDING"
    using ready_db_reconcile by blast
  show ?thesis
    using activation_only_when_complete [OF ready_db_ok(1,2) _ d'] d'(1) by (simp add: rev_row_def)
qed

subsection \<open>The race for the head\<close>

text \<open>
  Two successors of one revision may be pending together. When one of them became the head, the
  undo step of a rollback of the other one sets the common predecessor \<open>ACTIVE\<close> beside the new head,
  so the unique index raises and the rollback of the losing run can never be performed.
\<close>

lemma lost_race_rollback_raises:
  assumes "distinct (map rv_id (revs d))"
    and "rs_revision row = Some loser" and "loser \<noteq> []" and "rs_doc_status row \<noteq> Some D_PURGED"
    and "\<not> list_ex (\<lambda>m. mu_revision m = Some loser \<and> mu_run m \<noteq> None \<and> mu_run m \<noteq> Some run
          \<and> mu_state m = M_COMMITTED) (muts d)"
    and "rs_predecessor row = Some pred" and "pred \<noteq> []" and "rs_document row = Some doc"
    and "p \<in> set (revs d)" and "rv_id p = pred" and "rv_document p = doc" and "rv_status p = R_SUPERSEDED"
    and "h \<in> set (revs d)" and "rv_id h \<notin> {pred, loser}" and "rv_document h = doc" and "rv_status h = R_ACTIVE"
  shows "restore_revision run row d = Inl Integrity_Error"
proof -
  let ?retire = "\<lambda>r. rv_id r = loser \<and> rv_status r \<in> {R_ACTIVE, R_PENDING}"
  let ?t1 = "upd ?retire (rv_status_update (\<lambda>_. R_ROLLED_BACK)) (revs d)"
  let ?revive = "\<lambda>r. rv_id r = pred \<and> Some (rv_document r) = rs_document row \<and> rv_status r = R_SUPERSEDED"
  let ?t2 = "upd ?revive (rv_status_update (\<lambda>_. R_ACTIVE)) ?t1"
  have dist: "distinct (map rv_id ?t2)" using assms(1) by (simp add: table_simps)
  have "p \<in> set ?t1" by (rule upd_miss [OF assms(9)]) (simp add: assms(12))
  then have p: "p\<lparr>rv_status := R_ACTIVE\<rparr> \<in> set ?t2"
    using upd_hit [of p ?t1 ?revive "rv_status_update (\<lambda>_. R_ACTIVE)"] assms(8,10,11,12) by simp
  have "h \<in> set ?t1" by (rule upd_miss [OF assms(13)]) (use assms(14) in simp)
  then have h: "h \<in> set ?t2" by (rule upd_miss) (use assms(16) in simp)
  have "\<not> heads_ok ?t2"
  proof
    assume "heads_ok ?t2"
    then have "rv_id (p\<lparr>rv_status := R_ACTIVE\<rparr>) = rv_id h"
      by (rule iffD1 [OF heads_ok_iff [OF dist], rule_format, OF _ p h]) (simp_all add: assms(11,15,16))
    then show False using assms(10,14) by simp
  qed
  then show ?thesis
    using assms(2-8) by (simp add: restore_revision_def Let_def activate_revisions_def)
qed

text \<open>The same through the public operation on the example tables.\<close>

lemma race_db_rollback: "request_rollback 0 ''r'' race_db = Inl Integrity_Error"
  by (simp add: request_rollback_def race_db_def run_state_of_def run_of_def non_head_def children_def
      failed_mutation_def received_def candidate1_def rev_row_def transition_run_def Let_def cas_run_def
      run_hit_def release_owners_def unowned_def transition_children_def transition_mutation_def mut_of_def
      cas_mutation_def mut_hit_def after_mutation_change_def recompute_run_def aggregate_state_def
      restore_supersession_def restore_facts_def superseding_links_def restore_rows_def distinct_rows_def
      restore_revision_def activate_revisions_def heads_ok_def rev_of_def doc_of_def empty_db_def)

lemma lost_race_rollback_raises_witness:
  "restore_revision ''r'' \<lparr>rs_tenant = ''t'', rs_revision = Some ''v3'', rs_meta = no_meta,
     rs_document = Some ''d'', rs_predecessor = Some ''v1'', rs_doc_status = Some D_ACTIVE\<rparr> race_db
   = Inl Integrity_Error"
  by (rule lost_race_rollback_raises [where loser = "''v3''" and pred = "''v1''" and doc = "''d''"
        and p = "rev_row ''v1'' 1 R_SUPERSEDED None" and h = "rev_row ''v2'' 2 R_ACTIVE (Some ''v1'')"])
    (simp_all add: race_db_def rev_row_def failed_mutation_def received_def candidate1_def)

subsection \<open>Supersession links in a run with several mutations\<close>

text \<open>
  A commit activates the mutation's \<open>SUPERSEDES\<close> links only if its run is \<open>COMMITTED\<close> at that
  moment, and committing a sibling later activates only the sibling's own links. So whenever
  \<open>activate_committed\<close> runs for a mutation whose run is not committed and whose revision is not
  ready, the facts its links point at stay as they are.
\<close>

lemma links_wait_for_no_one:
  assumes "mut_of d mid = Some m" and "joined_run_state d m = Some s" and "s \<noteq> P_COMMITTED"
    and "mu_revision m = Some rid" and "\<not> commit_ready rid d"
  shows "activate_committed mid d = Inr d"
  using assms by (simp add: activate_committed_def reconcile_revision_def split: option.split)

text \<open>Two mutations of one run commit in turn; the link of the first is never activated.\<close>

definition pair_db :: db where
  "pair_db = empty_db\<lparr>
     runs := [\<lparr>rn_id = ''r'', rn_agent = ''a'', rn_state = P_PROJECTING, rn_failure = None\<rparr>],
     muts := [(received candidate1)\<lparr>mu_id := ''m1'', mu_state := M_GRAPH_APPLIED\<rparr>,
              (received candidate1)\<lparr>mu_id := ''m2'', mu_state := M_GRAPH_APPLIED\<rparr>],
     facts := [\<lparr>fa_id = ''old'', fa_tenant = ''t'', fa_dataset = ''s'', fa_document = ''d'', fa_revision = ''v'',
                fa_mutation = ''m0'', fa_subject = ''e'', fa_object = None, fa_status = A_ACTIVE,
                fa_valid_from = [], fa_valid_to = []\<rparr>,
               \<lparr>fa_id = ''new'', fa_tenant = ''t'', fa_dataset = ''s'', fa_document = ''d'', fa_revision = ''v'',
                fa_mutation = ''m1'', fa_subject = ''e'', fa_object = None, fa_status = A_ACTIVE,
                fa_valid_from = [], fa_valid_to = []\<rparr>],
     links := [\<lparr>lk_source = ''new'', lk_target = ''old'', lk_supersedes = True, lk_mutation = ''m1''\<rparr>]\<rparr>"

definition pair_first :: db where
  "pair_first = (case transition_mutation ''m1'' M_COMMITTED None pair_db of Inl _ \<Rightarrow> empty_db | Inr (_, d) \<Rightarrow> d)"

definition pair_done :: db where
  "pair_done = (case transition_mutation ''m2'' M_COMMITTED None pair_first of Inl _ \<Rightarrow> empty_db | Inr (_, d) \<Rightarrow> d)"

lemmas pair_eval = transition_mutation_def mut_of_def Let_def cas_mutation_def mut_hit_def
  after_mutation_change_def recompute_run_def children_def run_state_of_def run_of_def aggregate_state_def
  transition_run_def cas_run_def run_hit_def activate_committed_def joined_run_state_def
  reconcile_revision_def rev_of_def activate_links_def received_def candidate1_def

lemma pair_first_eq:
  "runs pair_first = [\<lparr>rn_id = ''r'', rn_agent = ''a'', rn_state = P_PROJECTING, rn_failure = None\<rparr>]"
  "muts pair_first = [(received candidate1)\<lparr>mu_id := ''m1'', mu_state := M_COMMITTED\<rparr>,
              (received candidate1)\<lparr>mu_id := ''m2'', mu_state := M_GRAPH_APPLIED\<rparr>]"
  "facts pair_first = facts pair_db" "links pair_first = links pair_db" "revs pair_first = []"
  by (simp_all add: pair_first_def pair_db_def pair_eval empty_db_def)

lemma pair_done_facts:
  "facts pair_done = facts pair_db" "run_state_of pair_done ''r'' = Some P_COMMITTED"
  "map mu_state (muts pair_done) = [M_COMMITTED, M_COMMITTED]"
  by (simp_all add: pair_done_def pair_first_eq pair_eval pair_db_def empty_db_def)

lemma links_wait_for_no_one_witness:
  "activate_committed ''m1'' pair_first = Inr pair_first \<and> run_state_of pair_done ''r'' = Some P_COMMITTED
    \<and> facts pair_done = facts pair_db"
proof -
  have "activate_committed ''m1'' pair_first = Inr pair_first"
    by (rule links_wait_for_no_one [where m = "(received candidate1)\<lparr>mu_id := ''m1'', mu_state := M_COMMITTED\<rparr>"
          and s = P_PROJECTING and rid = "''v''"])
      (simp_all add: mut_of_def pair_first_eq joined_run_state_def run_state_of_def run_of_def
        received_def candidate1_def commit_ready_def Let_def)
  then show ?thesis using pair_done_facts by simp
qed

end
