(* ===== verification/Work_Facts.thy ===== *)
theory Work_Facts imports Lifecycle_Facts begin

text \<open>
  Lemmas on the work tables: the outbox and the cleanup queue interpret the claim protocol, a
  rollback's effect on ownerships, registries and lanes, and which run states a change of
  mutations can bring about.
\<close>

subsection \<open>The queues interpret the claim protocol\<close>

interpretation lanes: leased ob_id lane_free grab_lane lane_held
  by unfold_locales (auto simp: grab_lane_def lane_free_def lane_held_def)

interpretation cleaning: leased cl_id cleanup_free grab_cleanup cleanup_held
  by unfold_locales (auto simp: grab_cleanup_def cleanup_free_def cleanup_held_def)

lemma distinct_take_sorted:
  "distinct (map k t) \<Longrightarrow> distinct (map k (take n (sort_key f (filter P t))))"
proof -
  assume "distinct (map k t)"
  then have "distinct (map k (filter P t))" by (simp add: distinct_map_filter)
  then have "distinct (filter P t)" "inj_on k (set (filter P t))" by (auto simp: distinct_map)
  then have "distinct (map k (sort_key f (filter P t)))" by (simp add: distinct_map)
  then show ?thesis by (metis distinct_take take_map)
qed

lemma lane_candidates_distinct: "distinct (map ob_id t) \<Longrightarrow> distinct (lane_candidates now n t)"
  unfolding lane_candidates_def by (rule distinct_take_sorted)

lemma lane_candidates_in:
  "i \<in> set (lane_candidates now n t) \<Longrightarrow> \<exists>p \<in> set t. ob_id p = i \<and> lane_free now p \<and> prerequisite_met t p"
  by (auto simp: lane_candidates_def dest!: in_set_takeD)

lemma length_lane_candidates: "length (lane_candidates now n t) \<le> n"
  by (simp add: lane_candidates_def)

lemma claim_loop_length: "length (fst (claim_loop key free grab is t)) \<le> length is"
  by (induction "is" arbitrary: t) (auto simp: Let_def split_def intro: le_SucI)

lemma filter_keys_length:
  assumes "distinct (map k t)" and "distinct is"
  shows "length (filter (\<lambda>r. k r \<in> set is) t) \<le> length is"
proof -
  have "distinct (map k (filter (\<lambda>r. k r \<in> set is) t))" using assms(1) by (simp add: distinct_map_filter)
  then have "length (filter (\<lambda>r. k r \<in> set is) t) = card (set (map k (filter (\<lambda>r. k r \<in> set is) t)))"
    by (metis distinct_card length_map)
  also have "\<dots> \<le> card (set is)" by (rule card_mono) auto
  also have "\<dots> = length is" using assms(2) by (rule distinct_card)
  finally show ?thesis .
qed

text \<open>What a successful claim returns and leaves.\<close>

lemma claim_projection_loop:
  assumes "claim_projection now tok w n secs d = Inr (rs, d')" and "distinct (map ob_id (outboxes d))"
  obtains ids where "claim_loop ob_id (lane_free now) (grab_lane tok w (now + secs))
      (lane_candidates now n (outboxes d)) (outboxes d) = (ids, outboxes d')"
    "rs = filter (\<lambda>p. ob_id p \<in> set ids) (outboxes d')" "d' = d\<lparr>outboxes := outboxes d'\<rparr>"
    "distinct ids" "length ids \<le> n" "distinct (map ob_id (outboxes d'))" "1 \<le> secs"
proof -
  let ?loop = "claim_loop ob_id (lane_free now) (grab_lane tok w (now + secs))
      (lane_candidates now n (outboxes d)) (outboxes d)"
  have b: "1 \<le> secs" "outboxes d' = snd ?loop" "d' = d\<lparr>outboxes := outboxes d'\<rparr>"
    "rs = filter (\<lambda>p. ob_id p \<in> set (fst ?loop)) (snd ?loop)"
    using assms(1) by (auto simp: claim_projection_def Let_def split_def split: if_splits)
  have "distinct (fst ?loop)"
    by (rule claim_loop_distinct [OF lane_candidates_distinct [OF assms(2)]])
  moreover have "length (fst ?loop) \<le> n"
    by (rule order_trans [OF claim_loop_length length_lane_candidates])
  moreover have "map ob_id (snd ?loop) = map ob_id (outboxes d)"
    by (rule claim_loop_keys) (rule lanes.key_grab)
  ultimately show thesis using that [of "fst ?loop"] b assms(2) by simp
qed

subsection \<open>Run states a change of mutations reaches\<close>

definition aggregates :: "run_state set" where
  "aggregates = {P_COMMITTED, P_DLQ, P_RETRY_PENDING, P_PROJECTING, P_VALIDATED, P_EXTRACTED, P_RUNNING}"

definition derived :: "db \<Rightarrow> db \<Rightarrow> bool" where
  "derived a b \<longleftrightarrow> (keys_ok a \<longrightarrow> keys_ok b \<and>
    (\<forall>r. run_state_of b r = run_state_of a r \<or> run_state_of b r \<in> Some ` aggregates))"

interpretation derived: handler_frame derived
proof
  show "derived s s" for s by (simp add: derived_def)
  show "derived s t \<Longrightarrow> derived t u \<Longrightarrow> derived s u" for s t u
    unfolding derived_def by metis
qed

lemma transition_run_state:
  assumes "transition_run r to ty fc det d = Inr (ok, d')" and "keys_ok d"
  shows "run_state_of d' q = run_state_of d q \<or> q = r \<and> run_state_of d' q = Some to"
  using assms
proof (cases rule: transition_run_cases)
  case (moved cur)
  have "run_state_of d' q = run_state_of (cas_run r cur to fc d) q"
    by (simp add: moved(5) run_state_of_def run_of_def)
  then show ?thesis using run_state_of_cas [OF moved(1)] by simp
qed simp_all

lemma recompute_run_derived: "recompute_run r ty fc det d = Inr (ok, d') \<Longrightarrow> derived d d'"
proof -
  have step: "derived a b" if "transition_run r to ty fc det a = Inr (x, b)" "to \<in> aggregates" for to ty fc det a x b
    using transition_run_state [OF that(1)] same_ids_keys [OF transition_run_ids [OF that(1)]] that(2)
    by (auto simp: derived_def)
  have agg: "aggregate_state ss \<in> aggregates" for ss unfolding aggregates_def by (rule aggregate_range)
  have mem: "P_COMMITTED \<in> aggregates" "P_PROJECTING \<in> aggregates" "P_VALIDATED \<in> aggregates"
    "P_EXTRACTED \<in> aggregates" "P_RUNNING \<in> aggregates"
    by (simp_all add: aggregates_def)
  assume "recompute_run r ty fc det d = Inr (ok, d')"
  then show ?thesis
    by (auto simp: recompute_run_def Let_def bindE_Inr_iff derived.le_refl agg mem
        dest!: step intro: derived.le_trans split: option.splits if_splits)
qed

lemma after_change_derived:
  "after_mutation_change mid to d = Inr (ok, d') \<Longrightarrow> derived d d'"
proof -
  have act: "derived a b" if "activate_committed mid a = Inr b" for a b
    using strip_heads_sel [OF activate_committed_frame [OF that]]
    by (simp add: derived_def keys_ok_def run_state_of_def run_of_def)
  assume "after_mutation_change mid to d = Inr (ok, d')"
  then show ?thesis
    by (auto simp: after_mutation_change_def bindE_Inr_iff derived.le_refl dest!: recompute_run_derived act
        intro: derived.le_trans split: option.splits if_splits)
qed

lemma transition_mutation_derived: "transition_mutation mid to fc d = Inr (ok, d') \<Longrightarrow> derived d d'"
proof -
  have "derived d (cas_mutation mid cur to fc d)" for cur
    by (simp add: derived_def keys_ok_def cas_mutation_def run_state_of_def run_of_def table_simps)
  then show "transition_mutation mid to fc d = Inr (ok, d') \<Longrightarrow> derived d d'"
    by (auto simp: transition_mutation_def Let_def derived.le_refl dest!: after_change_derived
        intro: derived.le_trans split: option.splits if_splits)
qed

lemma transition_children_derived:
  assumes "transition_children r to fc d = Inr (n, d')"
  shows "derived d d'"
proof -
  have "derived d d'" if "foldE (\<lambda>mid (n, d). bindE (transition_mutation mid to fc d)
        (\<lambda>(ok, d'). Inr (if ok then Suc n else n, d'))) ids (n0, d) = Inr (n, d')" for ids n0
    using that
  proof (induction ids arbitrary: n0 d)
    case (Cons i ids)
    then show ?case by (auto simp: bindE_Inr_iff dest!: transition_mutation_derived intro: derived.le_trans)
  qed (simp add: derived.le_refl)
  then show ?thesis using assms by (simp add: transition_children_def)
qed

subsection \<open>Rollback\<close>

lemma tombstone_tables:
  "owners (tombstone now rid g d) = owners d" "outboxes (tombstone now rid g d) = outboxes d"
  "registries (tombstone now rid g d) =
    upd (\<lambda>x. rg_id x = rg_id g) (rg_state_update (\<lambda>_. G_TOMBSTONED)) (registries d)"
  by (simp_all add: tombstone_def insert_cleanup_def retract_physical_def)

lemma tombstones:
  "owners (fold (tombstone now rid) gs d) = owners d \<and>
   outboxes (fold (tombstone now rid) gs d) = outboxes d \<and>
   muts (fold (tombstone now rid) gs d) = muts d \<and>
   registries (fold (tombstone now rid) gs d) =
     upd (\<lambda>x. rg_id x \<in> rg_id ` set gs) (rg_state_update (\<lambda>_. G_TOMBSTONED)) (registries d)"
proof (induction gs arbitrary: d)
  case Nil
  show ?case by (simp add: upd_id)
next
  case (Cons g gs)
  have "upd (\<lambda>x. rg_id x \<in> rg_id ` set gs) (rg_state_update (\<lambda>_. G_TOMBSTONED))
      (upd (\<lambda>x. rg_id x = rg_id g) (rg_state_update (\<lambda>_. G_TOMBSTONED)) t) =
    upd (\<lambda>x. rg_id x \<in> rg_id ` set (g # gs)) (rg_state_update (\<lambda>_. G_TOMBSTONED)) t" for t
    by (induction t) auto
  then show ?case using Cons by (simp add: tombstone_tables)
qed

lemma run_lane_cong:
  assumes "map mu_still (muts b) = map mu_still (muts a)"
  shows "run_lane rid b p = run_lane rid a p"
proof -
  have *: "run_lane rid d p \<longleftrightarrow> (ob_mutation p, Some rid) \<in> set (map (\<lambda>m. (mu_id m, mu_run m)) (muts d))" for d
    by (auto simp: run_lane_def children_def list_ex_iff image_iff) (metis+)?
  have "map (\<lambda>m. (mu_id m, mu_run m)) (muts b) = map (\<lambda>m. (mu_id m, mu_run m)) (muts a)"
    by (rule map_mu_still [OF assms]) (simp add: mu_still_def)
  then show ?thesis unfolding * by simp
qed

lemma restore_supersession_life: "restore_supersession rid d = Inr d' \<Longrightarrow> strip_life d' = strip_life d"
  by (rule strip_life_heads) (rule restore_supersession_frame)

text \<open>The tables after a rollback that did something.\<close>

lemma request_rollback_tables:
  assumes "request_rollback now rid d = Inr (res, d')" and "run_state_of d rid \<noteq> Some P_ROLLED_BACK"
  shows "owners d' = owners (release_owners rid d)"
    and "registries d' = upd (\<lambda>x. rg_id x \<in> rg_id ` set (unowned rid (release_owners rid d)))
      (rg_state_update (\<lambda>_. G_TOMBSTONED)) (registries d)"
    and "outboxes d' = upd (run_lane rid d') (release_claim O_CANCELLED) (outboxes d)"
proof -
  obtain d1 n4 d4 d5 where
    1: "transition_run rid P_ROLLING_BACK ''ROLLBACK_REQUESTED'' None [] d = Inr (True, d1)"
    and 4: "transition_children rid M_ROLLING_BACK None
        (fold (tombstone now rid) (unowned rid (release_owners rid d1)) (release_owners rid d1)) = Inr (n4, d4)"
    and 5: "restore_supersession rid d4 = Inr d5"
    and 6: "d' = cancel_run_lanes rid d5 \<or> (\<exists>b d7 n. transition_run rid P_ROLLED_BACK
        ''ROLLBACK_NO_EXCLUSIVE_ARTIFACTS'' None [] (cancel_run_lanes rid d5) = Inr (b, d7)
        \<and> transition_children rid M_ROLLED_BACK None d7 = Inr (n, d'))"
    using assms by (auto simp: request_rollback_def Let_def bindE_Inr_iff split: if_splits option.splits)
  let ?d3 = "fold (tombstone now rid) (unowned rid (release_owners rid d1)) (release_owners rid d1)"
  have s1: "strip_life d1 = strip_life d" by (rule transition_run_frame [OF 1])
  have s5: "strip_life d5 = strip_life ?d3"
    using transition_children_frame [OF 4] restore_supersession_life [OF 5] by simp
  have s6: "strip_life d' = strip_life (cancel_run_lanes rid d5)"
    using 6 by (auto dest!: transition_run_frame transition_children_frame)
  note e1 = strip_life_sel [OF s1] and e5 = strip_life_sel [OF s5] and e6 = strip_life_sel [OF s6]
  have un: "unowned rid (release_owners rid d1) = unowned rid (release_owners rid d)"
    using e1 by (simp add: unowned_def release_owners_def)
  show "owners d' = owners (release_owners rid d)"
    using e6(8) e5(8) e1(8) tombstones by (simp add: cancel_run_lanes_def release_owners_def)
  show "registries d' = upd (\<lambda>x. rg_id x \<in> rg_id ` set (unowned rid (release_owners rid d)))
      (rg_state_update (\<lambda>_. G_TOMBSTONED)) (registries d)"
    using e6(7) e5(7) e1(7) tombstones un by (simp add: cancel_run_lanes_def release_owners_def)
  have "run_lane rid d' = run_lane rid d5"
    using run_lane_cong [OF e6(1)] run_lane_cong [of "cancel_run_lanes rid d5" d5]
    by (auto simp: cancel_run_lanes_def)
  then show "outboxes d' = upd (run_lane rid d') (release_claim O_CANCELLED) (outboxes d)"
    using e6(10) e5(10) e1(10) tombstones by (simp add: cancel_run_lanes_def release_owners_def)
qed

end
