(* ===== verification/Lane_Facts.thy ===== *)
theory Lane_Facts imports Work_Facts Steps begin

text \<open>
  Which transactions leave a claimed lane alone: everything but the failure or the skip that its holder reports, the
  recovery at start-up, and a claim after the lease.
\<close>

subsection \<open>Lanes that no claim takes\<close>

text \<open>A lane under the claim \<open>tok\<close> with its lease, or finished for good.\<close>

definition shut :: "string \<Rightarrow> int \<Rightarrow> outbox \<Rightarrow> bool" where
  "shut tok until p \<longleftrightarrow> ob_state p \<in> {O_COMPLETED, O_CANCELLED} \<and> ob_token p = None
     \<or> ob_state p = O_IN_FLIGHT \<and> ob_token p = Some tok \<and> ob_lease p = Some until"

definition lane_shut :: "string \<Rightarrow> int \<Rightarrow> string \<Rightarrow> outbox list \<Rightarrow> bool" where
  "lane_shut tok until i t \<longleftrightarrow> i \<in> ob_id ` set t \<and> (\<forall>p \<in> set t. ob_id p = i \<longrightarrow> shut tok until p)"

lemma shut_not_free: "shut tok until p \<Longrightarrow> now < until \<Longrightarrow> \<not> lane_free now p"
  by (auto simp: shut_def lane_free_def lease_expired_def)

lemma lane_shut_upd:
  assumes "lane_shut tok until i t" and "\<And>p. ob_id (f p) = ob_id p"
    and "\<And>p. P p \<Longrightarrow> ob_id p = i \<Longrightarrow> shut tok until p \<Longrightarrow> shut tok until (f p)"
  shows "lane_shut tok until i (upd P f t)"
proof -
  have "ob_id ` set (upd P f t) = ob_id ` set t" using map_upd_key [of ob_id f P t, OF assms(2)] by (metis list.set_map)
  then show ?thesis using assms by (auto simp: lane_shut_def set_upd)
qed

lemma release_shut [simp]:
  "s \<in> {O_COMPLETED, O_CANCELLED} \<Longrightarrow> shut tok until (release_claim s p)" "ob_id (release_claim s p) = ob_id p"
  by (simp_all add: shut_def release_claim_def)

lemma insert_outbox_shut: "lane_shut tok until i (outboxes d) \<Longrightarrow> lane_shut tok until i (outboxes (insert_outbox now mid l d))"
  by (auto simp: insert_outbox_def lane_shut_def list_ex_iff)

lemma claim_loop_shut:
  assumes "lane_shut tok until i t" and "i \<notin> set is"
  shows "lane_shut tok until i (snd (claim_loop ob_id free (grab_lane tok' w until') is t))"
  using assms
proof (induction "is" arbitrary: t)
  case (Cons j js)
  have "lane_shut tok until i (upd (\<lambda>r. ob_id r = j \<and> free r) (grab_lane tok' w until') t)"
    by (rule lane_shut_upd [OF Cons.prems(1)]) (use Cons.prems(2) in \<open>simp_all add: grab_lane_def\<close>)
  then show ?case using Cons by (simp add: Let_def split_def)
qed simp

subsection \<open>The lanes after each transaction\<close>

lemmas lifecycle_lanes = lifecycle_frame [THEN strip_life_sel(10)]

lemma climb_lanes: "climb mid ss cur d = Inr (fin, d') \<Longrightarrow> outboxes d' = outboxes d"
  by (induction mid ss cur d arbitrary: fin d' rule: climb.induct)
    (auto simp: bindE_Inr_iff split: if_splits dest!: lifecycle_lanes)

lemma announce_lanes: "announce_projection mid s d = Inr d' \<Longrightarrow> outboxes d' = outboxes d"
  by (auto simp: announce_projection_def bindE_Inr_iff split: option.splits if_splits
      dest!: lifecycle_lanes)

lemma resume_lanes: "resume_mutation m d = Inr (x, d') \<Longrightarrow> outboxes d' = outboxes d"
  by (auto simp: resume_mutation_def bindE_Inr_iff split: if_splits dest!: lifecycle_lanes)

lemma advance_lanes: "advance_projection mid d = Inr d' \<Longrightarrow> outboxes d' = outboxes d"
  by (auto simp: advance_projection_def Let_def bindE_Inr_iff
      split: option.splits if_splits dest!: climb_lanes resume_lanes announce_lanes)

lemma complete_tx_shut:
  assumes "complete_tx vec gra pid w tok' outcome d = Inr (v, d')" and "lane_shut tok until i (outboxes d)"
    and "pid = i \<longrightarrow> tok' = tok \<longrightarrow> outcome \<noteq> ''SKIPPED''"
  shows "lane_shut tok until i (outboxes d')"
proof -
  have "lane_shut tok until i (upd (\<lambda>x. ob_id x = pid \<and> ob_token x = Some tok')
      (release_claim (if outcome = ''SKIPPED'' then O_SKIPPED else O_COMPLETED)) (outboxes d))"
    by (rule lane_shut_upd [OF assms(2)]) (use assms(3) in \<open>auto simp: shut_def release_claim_def\<close>)
  moreover have "lane_shut tok until i (upd (\<lambda>x. ob_id x = pid) (release_claim O_CANCELLED) (outboxes d))"
    by (rule lane_shut_upd [OF assms(2)]) simp_all
  ultimately show ?thesis using assms(1,2)
    by (auto simp: complete_tx_def insert_attempt_def Let_def bindE_Inr_iff split: option.splits if_splits dest!: advance_lanes)
qed

lemma report_failure_lanes: "report_failure mid to err d = Inr d' \<Longrightarrow> outboxes d' = outboxes d"
  by (auto simp: report_failure_def bindE_Inr_iff dest!: lifecycle_lanes split: option.splits if_splits)

lemma mark_failed_shut:
  assumes "lane_shut tok until i (outboxes d)" and "pid = i \<longrightarrow> tok' \<noteq> tok"
  shows "lane_shut tok until i (outboxes (mark_failed now pid tok' p err t d))"
proof -
  have *: "lane_shut tok until i (upd (\<lambda>x. ob_id x = pid \<and> ob_token x = Some tok')
      (\<lambda>x. release_claim s x\<lparr>ob_lease := l, ob_error := e\<rparr>) (outboxes d))" for s l e
    by (rule lane_shut_upd [OF assms(1)]) (use assms(2) in \<open>auto simp: shut_def release_claim_def\<close>)
  show ?thesis by (cases t) (simp_all add: mark_failed_def Let_def insert_attempt_def *)
qed

lemma fail_projection_shut:
  assumes "fail_projection now pid w tok' err retryable d = Inr (ok, d')" and "lane_shut tok until i (outboxes d)"
    and "pid = i \<longrightarrow> tok' \<noteq> tok"
  shows "lane_shut tok until i (outboxes d')"
  using assms(1) mark_failed_shut [OF assms(2,3)] assms(2)
  by (auto simp: fail_projection_def Let_def bindE_Inr_iff split: option.splits if_splits
      dest!: report_failure_lanes lifecycle_lanes)

lemma set_state_shut:
  assumes "set_mutation_state agent mid s fc det d = Inr (ok, d')" and "lane_shut tok until i (outboxes d)"
  shows "lane_shut tok until i (outboxes d')"
proof -
  define opened where "opened ch x = (if ch \<and> s = M_VALIDATED then open_lanes mid x
      else if ch \<and> s = M_REJECTED then cancel_lanes mid x else x)" for ch x
  have opened: "lane_shut tok until i (outboxes (opened ch x))" if "outboxes x = outboxes d" for ch x
  proof -
    have x: "lane_shut tok until i (outboxes x)" using assms(2) that by simp
    have "lane_shut tok until i (outboxes (open_lanes mid x))" unfolding open_lanes_def
      by simp (rule lane_shut_upd [OF x]; simp add: shut_def)
    moreover have "lane_shut tok until i (outboxes (cancel_lanes mid x))" unfolding cancel_lanes_def
      by simp (rule lane_shut_upd [OF x]; simp)
    ultimately show ?thesis using x by (simp add: opened_def)
  qed
  have "d' = d \<or> (\<exists>ch d1. transition_mutation mid s (clip fc) d = Inr (ch, d1) \<and>
      (d' = opened ch d1 \<or> (\<exists>r ty y. recompute_run r ty fc det (opened ch d1) = Inr (y, d'))))"
    using assms(1) unfolding set_mutation_state_def Let_def opened_def [symmetric]
    by (auto simp: bindE_Inr_iff simp del: mut_name.simps split: option.splits if_splits)
  then show ?thesis using opened assms(2) by (auto dest!: lifecycle_lanes)
qed

lemma requeue_dispatch_lanes: "outboxes (requeue_dispatch rid d) = outboxes d"
proof -
  have "outboxes (fold requeue_one qs d) = outboxes d" for qs by (induction qs arbitrary: d) (auto simp: requeue_one_def)
  then show ?thesis by (simp add: requeue_dispatch_def)
qed

lemma replay_shut:
  assumes "replay_run rid target d = Inr (st, d')" and "lane_shut tok until i (outboxes d)"
  shows "lane_shut tok until i (outboxes d')"
proof -
  have "lane_shut tok until i (upd (\<lambda>p. run_lane rid x p \<and> ob_state p = O_DEAD_LETTER)
      (\<lambda>p. (release_claim O_RETRY_PENDING p)\<lparr>ob_error := None\<rparr>) (outboxes d))" for x
    by (rule lane_shut_upd [OF assms(2)]) (auto simp: shut_def release_claim_def)
  then show ?thesis using assms(1)
    by (auto simp: replay_run_def Let_def bindE_Inr_iff requeue_dispatch_lanes split: option.splits if_splits dest!: lifecycle_lanes)
qed

lemma rollback_shut:
  assumes "request_rollback now rid d = Inr (res, d')" and "lane_shut tok until i (outboxes d)"
  shows "lane_shut tok until i (outboxes d')"
proof (cases "run_state_of d rid = Some P_ROLLED_BACK")
  case True
  then show ?thesis using assms by (simp add: request_rollback_def)
next
  case False
  show ?thesis unfolding request_rollback_tables(3) [OF assms(1) False] by (rule lane_shut_upd [OF assms(2)]) simp_all
qed

lemma purge_shut:
  assumes "purge_document_tx tenant ds doc d = Inr (rs, d')" and "lane_shut tok until i (outboxes d)"
  shows "lane_shut tok until i (outboxes d')"
proof -
  have "lane_shut tok until i (upd P (release_claim O_CANCELLED) (outboxes d))" for P
    by (rule lane_shut_upd [OF assms(2)]) simp_all
  then show ?thesis using assms(1)
    by (auto simp: purge_document_tx_def Let_def bindE_Inr_iff split: if_splits dest!: lifecycle_lanes)
qed

lemma record_mutation_shut:
  assumes "record_mutation now c d = Inr (m, d')" and "lane_shut tok until i (outboxes d)"
  shows "lane_shut tok until i (outboxes d')"
proof -
  have "lane_shut tok until i (outboxes (fold (insert_outbox now mid) ls x))" if "lane_shut tok until i (outboxes x)" for mid ls x
    using that by (induction ls arbitrary: x) (simp_all add: insert_outbox_shut)
  moreover have "outboxes (insert_mutation m' (insert_admission r (insert_run r ag d))) = outboxes d" for m' r ag
    by (simp add: insert_mutation_def insert_admission_def insert_run_def)
  ultimately have "lane_shut tok until i (outboxes (fold (insert_outbox now mid) ls
      (insert_mutation m' (insert_admission r (insert_run r ag d)))))" for mid ls m' r ag
    using assms(2) by simp
  then show ?thesis using assms(1)
    by (auto simp: record_mutation_def Let_def simp del: fold.simps split: if_splits option.splits)
qed

lemma enqueue_unowned_lanes: "enqueue_unowned now mid arts d = Inr (u, d') \<Longrightarrow> outboxes d' = outboxes d"
  by (auto simp: enqueue_unowned_def Let_def insert_cleanup_def insert_registry_def split: option.splits if_splits
      intro!: fold_invariant [where P = "\<lambda>x. outboxes x = outboxes d" and Q = "\<lambda>_. True"])

lemma extraction_lanes: "record_extraction agent mid ts d = Inr (ok, d') \<Longrightarrow> outboxes d' = outboxes d"
  by (auto simp: record_extraction_def Let_def split: option.splits if_splits dest!: lifecycle_lanes)

lemma manifest_lanes: "update_manifest dg now rid fin d = Inr (h, d') \<Longrightarrow> outboxes d' = outboxes d"
  by (auto simp: update_manifest_def Let_def bindE_Inr_iff dest!: reconcile_revision_frame strip_heads_sel(12) split: if_splits option.splits)

lemma move_shut: "ledger_move d d' \<Longrightarrow> lane_shut tok until i (outboxes d) \<Longrightarrow> lane_shut tok until i (outboxes d')"
proof (induction rule: ledger_move.induct)
  case (Register mid st k a d d')
  then show ?case by (auto simp: record_artifact_def Let_def insert_artifact_def insert_registry_def insert_owner_def
        split: if_splits option.splits)
next
  case (Draft t ds doc rv n h p d r d')
  then show ?case by (auto simp: create_revision_def Let_def split: if_splits option.splits)
next
  case (Compensated mid d u d')
  then show ?case by (auto simp: finalize_compensation_def Let_def bindE_Inr_iff split: option.splits if_splits dest!: lifecycle_lanes)
next
  case (Claim_Cleanup now tok w n secs d cs d')
  then show ?case by (auto simp: claim_cleanup_def Let_def split_def split: if_splits)
next
  case (Apply_Cleanup d' g d)
  then show ?case by (simp add: apply_cleanup_def Let_def split: lane.split)
next
  case (Finish_Cleanup cid w tok err d ok d')
  then show ?case by (auto simp: finish_cleanup_def Let_def bindE_Inr_iff split: option.splits if_splits dest!: lifecycle_lanes)
qed (simp_all add: record_mutation_shut extraction_lanes set_state_shut manifest_lanes rollback_shut replay_shut purge_shut)

subsection \<open>What happens during a claim\<close>

text \<open>
  The transactions of a store in which the lane \<open>i\<close> is under the claim \<open>tok\<close>, with its lease up to \<open>until\<close>: claims of
  other workers at earlier times, completions, failures, requeueing and every other transaction of the ledger.
  The holder itself does not report \<open>i\<close> as failed or skipped, and no process starts up and recovers. Lanes
  change elsewhere only by cancelling (the purge of an agent).
\<close>

inductive lane_step :: "string \<Rightarrow> string \<Rightarrow> int \<Rightarrow> db \<Rightarrow> db \<Rightarrow> bool" for i tok until where
  Claim: "claim_projection now tok' w n secs d = Inr (rs, d') \<Longrightarrow> now < until \<Longrightarrow> lane_step i tok until d d'"
| Complete: "complete_tx vec gra pid w tok' outcome d = Inr (v, d') \<Longrightarrow>
    \<not> (pid = i \<and> tok' = tok \<and> outcome = ''SKIPPED'') \<Longrightarrow> lane_step i tok until d d'"
| Fail: "fail_projection now pid w tok' err retryable d = Inr (ok, d') \<Longrightarrow> \<not> (pid = i \<and> tok' = tok) \<Longrightarrow> lane_step i tok until d d'"
| Requeue: "requeue_skipped ident l d = Inr (n, d') \<Longrightarrow> lane_step i tok until d d'"
| Move: "ledger_move d d' \<Longrightarrow> lane_step i tok until d d'"
| Reopen: "reopen_step d d' \<Longrightarrow> lane_step i tok until d d'"
| Cancel: "outboxes d' = upd P (release_claim O_CANCELLED) (outboxes d) \<Longrightarrow> lane_step i tok until d d'"
| Elsewhere: "outboxes d' = outboxes d \<Longrightarrow> lane_step i tok until d d'"

lemma claim_spares:
  assumes "claim_projection now tok' w n secs d = Inr (rs, d')" and "lane_shut tok until i (outboxes d)" and "now < until"
  shows "lane_shut tok until i (outboxes d')" and "i \<notin> ob_id ` set rs"
proof -
  let ?loop = "claim_loop ob_id (lane_free now) (grab_lane tok' w (now + secs)) (lane_candidates now n (outboxes d)) (outboxes d)"
  have i: "i \<notin> set (lane_candidates now n (outboxes d))"
    using assms(2,3) by (auto simp: lane_shut_def dest!: lane_candidates_in dest: shut_not_free)
  have "outboxes d' = snd ?loop" "ob_id ` set rs \<subseteq> set (fst ?loop)"
    using assms(1) by (auto simp: claim_projection_def Let_def split_def split: if_splits)
  moreover have "set (fst ?loop) \<subseteq> set (lane_candidates now n (outboxes d))" by (rule claim_loop_ids)
  ultimately show "lane_shut tok until i (outboxes d')" "i \<notin> ob_id ` set rs"
    using claim_loop_shut [OF assms(2) i] i by auto
qed

lemma lane_step_shut: "lane_step i tok until d d' \<Longrightarrow> lane_shut tok until i (outboxes d) \<Longrightarrow> lane_shut tok until i (outboxes d')"
proof (induction rule: lane_step.induct)
  case (Claim now tok' w n secs d rs d')
  then show ?case by (blast intro: claim_spares)
next
  case (Complete vec gra pid w tok' outcome d v d')
  then show ?case by (blast intro: complete_tx_shut)
next
  case (Fail now pid w tok' err retryable d ok d')
  then show ?case by (blast intro: fail_projection_shut)
next
  case (Requeue ident l d n d')
  have "lane_shut tok until i (upd (\<lambda>p. ob_lane p = l \<and> ob_state p = O_SKIPPED)
      (\<lambda>p. (release_claim O_PENDING p)\<lparr>ob_attempts := 0, ob_error := None\<rparr>) (outboxes d))"
    by (rule lane_shut_upd [OF Requeue(2)]) (auto simp: shut_def release_claim_def)
  then show ?case using Requeue(1)
    by (auto simp: requeue_skipped_def adopt_identity_def Let_def split: if_splits option.splits)
next
  case (Move d d')
  then show ?case by (rule move_shut)
next
  case (Reopen d d')
  then show ?case by (auto simp: reopen_iff dest!: enqueue_unowned_lanes)
next
  case (Cancel d' P d)
  then show ?case by (simp add: lane_shut_upd)
qed simp

lemma lane_steps_shut: "(lane_step i tok until)\<^sup>*\<^sup>* d d' \<Longrightarrow> lane_shut tok until i (outboxes d) \<Longrightarrow> lane_shut tok until i (outboxes d')"
  by (induction rule: rtranclp_induct) (auto intro: lane_step_shut)

end
