(* ===== verification/Work_Properties.thy ===== *)
theory Work_Properties imports Lane_Facts Ledger_Properties begin

text \<open>
  What the projection outbox and the rollback guarantee: exclusive claims in lane order, commits
  only from finished lanes, bounded retries, rollbacks that touch only what the run alone owned;
  and the places where the code does not keep its intent.
\<close>

subsection \<open>Example tables\<close>

definition lane_row :: "lane \<Rightarrow> outbox_state \<Rightarrow> string option \<Rightarrow> nat \<Rightarrow> outbox" where
  "lane_row l s tok n = \<lparr>ob_id = lane_name l, ob_mutation = ''m'', ob_lane = l, ob_state = s, ob_attempts = n,
     ob_limit = 5, ob_token = tok, ob_by = map_option (\<lambda>_. ''w'') tok, ob_lease = map_option (\<lambda>_. 300) tok,
     ob_error = None, ob_created = 0\<rparr>"

definition work_db :: "run_state \<Rightarrow> mut_state \<Rightarrow> outbox list \<Rightarrow> db" where
  "work_db rs ms t = empty_db\<lparr>
     runs := [\<lparr>rn_id = ''r'', rn_agent = ''a'', rn_state = rs, rn_failure = None\<rparr>],
     muts := [(received candidate1)\<lparr>mu_state := ms\<rparr>], outboxes := t\<rparr>"

lemma work_db_simps [simp]:
  "runs (work_db rs ms t) = [\<lparr>rn_id = ''r'', rn_agent = ''a'', rn_state = rs, rn_failure = None\<rparr>]"
  "keys_ok (work_db rs ms t)" "outboxes (work_db rs ms t) = t"
  "mut_of (work_db rs ms t) ''m'' = Some ((received candidate1)\<lparr>mu_state := ms\<rparr>)"
  "run_state_of (work_db rs ms t) ''r'' = Some rs"
  "children (work_db rs ms t) ''r'' = [(received candidate1)\<lparr>mu_state := ms\<rparr>]"
  "cleanups (work_db rs ms t) = []" "artifacts (work_db rs ms t) = []" "docs (work_db rs ms t) = []"
  "muts (work_db rs ms t) = [(received candidate1)\<lparr>mu_state := ms\<rparr>]"
  "owners (work_db rs ms t) = []" "registries (work_db rs ms t) = []" "attempts (work_db rs ms t) = []"
  "revs (work_db rs ms t) = []" "chunks (work_db rs ms t) = []" "facts (work_db rs ms t) = []"
  "links (work_db rs ms t) = []" "entities (work_db rs ms t) = []" "events (work_db rs ms t) = []"
  by (simp_all add: work_db_def keys_ok_def mut_of_def run_state_of_def run_of_def children_def
      received_def candidate1_def empty_db_def)

lemma lane_row_simps [simp]:
  "ob_id (lane_row l s tok n) = lane_name l" "ob_mutation (lane_row l s tok n) = ''m''"
  "ob_lane (lane_row l s tok n) = l" "ob_state (lane_row l s tok n) = s"
  "ob_attempts (lane_row l s tok n) = n" "ob_limit (lane_row l s tok n) = 5"
  "ob_token (lane_row l s tok n) = tok" "ob_by (lane_row l s tok n) = map_option (\<lambda>_. ''w'') tok"
  "ob_lease (lane_row l s tok n) = map_option (\<lambda>_. 300) tok" "ob_created (lane_row l s tok n) = 0"
  by (simp_all add: lane_row_def)

lemma received_simps [simp]:
  "mu_id (received candidate1) = ''m''" "mu_run (received candidate1) = Some ''r''"
  "mu_document (received candidate1) = Some ''d''" "mu_state (received candidate1) = M_RECEIVED"
  "mu_revision (received candidate1) = Some ''v''" "mu_tenant (received candidate1) = ''t''"
  "mu_agent (received candidate1) = ''a''" "mu_chunk (received candidate1) = Some ''k''"
  by (simp_all add: received_def candidate1_def)

definition ready_lanes :: db where
  "ready_lanes = work_db P_PROJECTING M_SQL_APPLIED
     [lane_row GRAPH O_PENDING None 0, lane_row SQL O_COMPLETED None 1, lane_row VECTOR O_PENDING None 0]"

definition claimed_lanes :: db where
  "claimed_lanes = work_db P_PROJECTING M_SQL_APPLIED
     [lane_row GRAPH O_PENDING None 0, lane_row SQL O_COMPLETED None 1, lane_row VECTOR O_IN_FLIGHT (Some ''x'') 1]"

lemma ready_claim: "claim_projection 0 ''x'' ''w'' 10 300 ready_lanes
    = Inr ([lane_row VECTOR O_IN_FLIGHT (Some ''x'') 1], claimed_lanes)"
  by (simp add: claim_projection_def ready_lanes_def claimed_lanes_def lane_candidates_def lane_free_def
      prerequisite_met_def grab_lane_def Let_def)
    (simp add: work_db_def lane_row_def)

subsection \<open>Claims\<close>

text \<open>
  A claim returns at most \<open>limit\<close> lanes; each was free and had its predecessor lane finished,
  is now \<open>IN_FLIGHT\<close> under the claimer's token with a lease of exactly the requested length and one
  more attempt; every other lane is untouched.
\<close>

lemma claim_takes_free_lanes_in_order:
  assumes "claim_projection now tok w limit secs d = Inr (rs, d')" and "distinct (map ob_id (outboxes d))"
  shows "length rs \<le> limit \<and>
    (\<forall>p \<in> set rs. lane_held tok w p \<and> ob_lease p = Some (now + secs) \<and>
       (\<exists>q \<in> set (outboxes d). ob_id q = ob_id p \<and> lane_free now q \<and> prerequisite_met (outboxes d) q
          \<and> p = grab_lane tok w (now + secs) q)) \<and>
    (\<forall>q \<in> set (outboxes d). ob_id q \<notin> ob_id ` set rs \<longrightarrow> q \<in> set (outboxes d'))"
proof -
  let ?g = "grab_lane tok w (now + secs)"
  let ?cand = "lane_candidates now limit (outboxes d)"
  obtain ids where loop: "claim_loop ob_id (lane_free now) ?g ?cand (outboxes d) = (ids, outboxes d')"
    and rs: "rs = filter (\<lambda>p. ob_id p \<in> set ids) (outboxes d')"
    and ids: "distinct ids" "length ids \<le> limit" "distinct (map ob_id (outboxes d'))"
    by (rule claim_projection_loop [OF assms])
  have cand: "distinct ?cand" by (rule lane_candidates_distinct [OF assms(2)])
  have "length rs \<le> length ids" unfolding rs by (rule filter_keys_length [OF ids(3,1)])
  then have len: "length rs \<le> limit" using ids(2) by simp
  have taken: "\<exists>q \<in> set (outboxes d). ob_id q = ob_id p \<and> lane_free now q \<and> prerequisite_met (outboxes d) q \<and> p = ?g q"
    if "p \<in> set rs" for p
  proof -
    have p: "p \<in> set (outboxes d')" "ob_id p \<in> set ids" using that rs by auto
    have "\<exists>q \<in> set (outboxes d). lane_free now q \<and> p = ?g q"
      using lanes.claim_loop_grabbed [OF cand assms(2), of "ob_id p" now tok w "now + secs" p] p loop by simp
    then obtain q where q: "q \<in> set (outboxes d)" "lane_free now q" "p = ?g q" by blast
    have "ob_id p \<in> set ?cand" using claim_loop_ids [of ob_id "lane_free now" ?g ?cand "outboxes d"] p(2) loop by auto
    then obtain q' where q': "q' \<in> set (outboxes d)" "ob_id q' = ob_id p" "prerequisite_met (outboxes d) q'"
      using lane_candidates_in by blast
    have "q' = q" using same_row [OF assms(2) q'(1) q(1)] q'(2) q(3) lanes.key_grab by simp
    then show ?thesis using q q' by blast
  qed
  have rest: "q \<in> set (outboxes d')" if q: "q \<in> set (outboxes d)" "ob_id q \<notin> ob_id ` set rs" for q
  proof -
    have bulk: "outboxes d' = upd (\<lambda>r. ob_id r \<in> set ?cand \<and> lane_free now r) ?g (outboxes d)"
      using claim_loop_bulk [of ob_id ?g ?cand "lane_free now" "outboxes d"] lanes.key_grab cand loop by simp
    have "\<not> (ob_id q \<in> set ?cand \<and> lane_free now q)"
    proof
      assume hit: "ob_id q \<in> set ?cand \<and> lane_free now q"
      then have "ob_id q \<in> set ids"
        using claim_loop_claimed [of ob_id ?g ?cand "outboxes d" "ob_id q" "lane_free now"]
          lanes.key_grab cand assms(2) q(1) loop by auto
      moreover have "?g q \<in> set (outboxes d')" unfolding bulk by (rule upd_hit) (use q(1) hit in simp_all)
      ultimately have "?g q \<in> set rs" using rs lanes.key_grab by simp
      then have "ob_id q \<in> ob_id ` set rs" using lanes.key_grab [of tok w "now + secs" q] by (metis imageI)
      with q(2) show False by simp
    qed
    then show ?thesis unfolding bulk by (intro upd_miss q(1))
  qed
  show ?thesis using len taken rest by (fastforce simp: lane_held_def grab_lane_def)
qed

lemma claim_takes_free_lanes_in_order_witness:
  "lane_held ''x'' ''w'' (lane_row VECTOR O_IN_FLIGHT (Some ''x'') 1)"
proof -
  have "distinct (map ob_id (outboxes ready_lanes))" by (simp add: ready_lanes_def)
  from claim_takes_free_lanes_in_order [OF ready_claim this] show ?thesis
    by (meson list.set_intros(1))
qed

lemma claimed_lane_shut:
  assumes "claim_projection now tok w n secs d = Inr (rs, d1)" and "distinct (map ob_id (outboxes d))" and "i \<in> ob_id ` set rs"
  shows "lane_shut tok (now + secs) i (outboxes d1)"
proof -
  obtain ids where 1: "rs = filter (\<lambda>p. ob_id p \<in> set ids) (outboxes d1)" "distinct (map ob_id (outboxes d1))"
    by (rule claim_projection_loop [OF assms(1,2)])
  obtain p where p: "p \<in> set rs" "ob_id p = i" using assms(3) by blast
  have "shut tok (now + secs) p"
    using claim_takes_free_lanes_in_order [OF assms(1,2)] p(1) by (auto simp: lane_held_def shut_def)
  moreover have "q = p" if "q \<in> set (outboxes d1)" "ob_id q = i" for q
    by (rule same_row [OF 1(2) that(1)]) (use p 1(1) that(2) in auto)
  ultimately show ?thesis using p 1(1) by (auto simp: lane_shut_def)
qed

text \<open>
  C4. Leases exclude: a lane returned by a claim is returned by no claim before its lease ends, whatever
  transactions commit in between (claims, completions, failures, requeueing, rollbacks, replays, purges, in any
  order and by any worker), as long as the holder does not itself report the lane failed or skipped and no process
  starts up and recovers the lanes in flight.
\<close>

theorem claims_are_exclusive:
  assumes "claim_projection now tok w n secs d = Inr (rs, d1)" and "distinct (map ob_id (outboxes d))"
    and "i \<in> ob_id ` set rs" and "(lane_step i tok (now + secs))\<^sup>*\<^sup>* d1 d2"
    and "claim_projection now' tok' w' n' secs' d2 = Inr (rs', d3)" and "now' < now + secs"
  shows "i \<notin> ob_id ` set rs'"
  by (rule claim_spares(2) [OF assms(5) lane_steps_shut [OF assms(4) claimed_lane_shut [OF assms(1-3)]] assms(6)])

text \<open>Another worker fails the lane with a token of its own, then claims.\<close>

theorem claims_are_exclusive_witness:
  "''VECTOR'' \<notin> ob_id ` set ([] :: outbox list)"
proof (rule claims_are_exclusive [OF ready_claim])
  have "fail_projection 100 ''VECTOR'' ''v'' ''y'' ''err'' True claimed_lanes = Inr (False, claimed_lanes)"
    by (simp add: fail_projection_def claimed_lanes_def outbox_of_def lane_held_def)
  then have "lane_step ''VECTOR'' ''x'' (0 + 300) claimed_lanes claimed_lanes" by (rule lane_step.Fail) simp
  then show "(lane_step ''VECTOR'' ''x'' (0 + 300))\<^sup>*\<^sup>* claimed_lanes claimed_lanes" by (rule r_into_rtranclp)
  show "claim_projection 299 ''y'' ''v'' 5 300 claimed_lanes = Inr ([], claimed_lanes)"
    by (simp add: claim_projection_def claimed_lanes_def lane_candidates_def lane_free_def
        prerequisite_met_def Let_def work_db_def)
qed (simp_all add: ready_lanes_def)

subsection \<open>Commits\<close>

lemma climb_states:
  assumes "climb mid ss cur d = Inr (fin, d')" and "keys_ok d"
  shows "outboxes d' = outboxes d \<and> keys_ok d' \<and>
    (\<forall>m. mut_state_of d' m = mut_state_of d m \<or> m = mid \<and> mut_state_of d' m \<in> Some ` set ss)"
  using assms
proof (induction mid ss cur d arbitrary: fin d' rule: climb.induct)
  case (2 mid s ss cur d)
  show ?case
  proof (cases "lifecycle_order s \<le> lifecycle_order cur")
    case True
    then show ?thesis using "2.IH"(1) "2.prems" by auto
  next
    case False
    then obtain ok d1 where t: "transition_mutation mid s None d = Inr (ok, d1)"
      and r: "if ok then climb mid ss s d1 = Inr (fin, d') else d' = d1"
      using "2.prems" by (auto simp: bindE_Inr_iff split: if_splits)
    have k1: "keys_ok d1" using same_ids_keys [OF transition_mutation_ids [OF t]] "2.prems"(2) by simp
    have o1: "outboxes d1 = outboxes d" using strip_life_sel [OF transition_mutation_frame [OF t]] by simp
    have m1: "mut_state_of d1 m = mut_state_of d m \<or> m = mid \<and> mut_state_of d1 m = Some s" for m
      using transition_mutation_states [OF t "2.prems"(2), of m] by (auto split: if_splits)
    show ?thesis
    proof (cases ok)
      case True
      then have "climb mid ss s d1 = Inr (fin, d')" using r by simp
      then have A: "outboxes d' = outboxes d1 \<and> keys_ok d' \<and>
          (\<forall>m. mut_state_of d' m = mut_state_of d1 m \<or> m = mid \<and> mut_state_of d' m \<in> Some ` set ss)"
        using "2.IH"(2) [OF False] True k1 by blast
      have B: "mut_state_of d' m = mut_state_of d m \<or> m = mid \<and> mut_state_of d' m \<in> Some ` set (s # ss)" for m
        using A m1 [of m] by (auto dest!: spec [of _ m])
      show ?thesis by (intro conjI allI B) (use A o1 in simp_all)
    next
      case no: False
      then show ?thesis using r o1 k1 m1 by auto
    qed
  qed
qed simp

lemma advance_commits:
  assumes "advance_projection mid d = Inr d'" and "keys_ok d"
    and "mut_state_of d m \<noteq> Some M_COMMITTED" and "mut_state_of d' m = Some M_COMMITTED"
  shows "m = mid \<and> M_COMMITTED \<in> set (milestones d' mid)"
proof -
  obtain x where x: "mut_of d mid = Some x" and go: "milestones d mid \<noteq> []"
    "\<not> (fenced_mut (mu_state x) \<or> fenced_run (joined_run_state d x))"
    using assms(1,3,4) by (auto simp: advance_projection_def Let_def split: option.splits if_splits)
  have xid: "mu_id x = mid" using x by (auto simp: mut_of_def dest: find_SomeD)
  obtain start d1 where r: "resume_mutation x d = Inr (start, d1)"
    and c: "case start of None \<Rightarrow> d' = d1
      | Some cur \<Rightarrow> (\<exists>fin d2. climb mid (milestones d mid) cur d1 = Inr (fin, d2)
          \<and> (case fin of None \<Rightarrow> d' = d2 | Some s \<Rightarrow> announce_projection mid s d2 = Inr d'))"
  proof -
    obtain start d1 where r: "resume_mutation x d = Inr (start, d1)"
      using assms(1) x go by (cases "resume_mutation x d") (auto simp: advance_projection_def Let_def)
    then show thesis using that [OF r] assms(1) x go
      by (cases start) (auto simp: advance_projection_def Let_def bindE_Inr_iff split: option.splits)
  qed
  have d1: "keys_ok d1 \<and> outboxes d1 = outboxes d \<and>
      (mut_state_of d1 m = mut_state_of d m \<or> mut_state_of d1 m = Some M_PENDING)"
    using r assms(2) xid
    by (auto simp: resume_mutation_def bindE_Inr_iff split: if_splits
        dest: transition_mutation_states [where m = m] strip_life_sel [OF transition_mutation_frame]
          same_ids_keys [OF transition_mutation_ids])
  have ann: "muts b = muts a \<and> outboxes b = outboxes a" if "announce_projection mid s a = Inr b" for s a b
  proof -
    have "muts b = muts a" if "recompute_run q ty fc det a = Inr (ok, b)" for q ty fc det ok a b
      using that by (auto simp: recompute_run_def transition_run_def Let_def cas_run_def bindE_Inr_iff
          split: option.splits if_splits)
    then show ?thesis using that
      by (auto simp: announce_projection_def bindE_Inr_iff split: option.splits if_splits
          dest: strip_life_sel [OF recompute_run_frame])
  qed
  obtain cur where s: "start = Some cur" using c d1 assms(3,4) by (cases start) auto
  then obtain fin d2 where c2: "climb mid (milestones d mid) cur d1 = Inr (fin, d2)"
    and e: "muts d' = muts d2" "outboxes d' = outboxes d2"
    using c ann by (auto split: option.splits)
  have "mut_state_of d2 m = Some M_COMMITTED" using assms(4) e by (simp add: mut_state_of_def mut_of_def)
  moreover have "mut_state_of d2 m = mut_state_of d1 m \<or> m = mid \<and> mut_state_of d2 m \<in> Some ` set (milestones d mid)"
    "outboxes d2 = outboxes d"
    using climb_states [OF c2] d1 by simp_all
  moreover have "mut_state_of d1 m \<noteq> Some M_COMMITTED" using d1 assms(3) by auto
  ultimately have "m = mid \<and> M_COMMITTED \<in> set (milestones d mid)" "outboxes d2 = outboxes d" by auto
  then show ?thesis using e by (simp add: milestones_def lane_state_def)
qed

text \<open>
  C3. Completing a lane commits a mutation only when all three of its lanes are done: SQL is
  \<open>COMPLETED\<close>, VECTOR and GRAPH are each \<open>COMPLETED\<close> or \<open>SKIPPED\<close>, and the mutation is the lane's own.
\<close>

theorem commit_needs_all_lanes:
  assumes "keys_ok d" and "complete_tx vec gra pid w tok outcome d = Inr (v, d')"
    and "mut_state_of d m \<noteq> Some M_COMMITTED" and "mut_state_of d' m = Some M_COMMITTED"
  shows "lane_state d' m SQL = Some O_COMPLETED \<and>
    lane_state d' m VECTOR \<in> {Some O_COMPLETED, Some O_SKIPPED} \<and>
    lane_state d' m GRAPH \<in> {Some O_COMPLETED, Some O_SKIPPED} \<and>
    map_option ob_mutation (outbox_of d pid) = Some m"
proof -
  obtain p d2 where p: "outbox_of d pid = Some p" and adv: "advance_projection (ob_mutation p) d2 = Inr d'"
    and same: "muts d2 = muts d" "keys_ok d2 = keys_ok d"
  proof -
    have no: "mut_state_of (d\<lparr>outboxes := t\<rparr>) m \<noteq> Some M_COMMITTED"
      "mut_state_of (insert_attempt a d\<lparr>outboxes := t\<rparr>) m \<noteq> Some M_COMMITTED" for t a
      using assms(3) by (simp_all add: mut_state_of_def mut_of_def insert_attempt_def)
    have keys: "keys_ok (insert_attempt a d\<lparr>outboxes := t\<rparr>) = keys_ok d"
      "muts (insert_attempt a d\<lparr>outboxes := t\<rparr>) = muts d" for a t
      by (simp_all add: keys_ok_def insert_attempt_def)
    show thesis
      using assms(2-4) no that keys
      by (auto simp: complete_tx_def Let_def bindE_Inr_iff split: option.splits if_splits)
  qed
  have "mut_state_of d2 m \<noteq> Some M_COMMITTED" using assms(3) same(1) by (simp add: mut_state_of_def mut_of_def)
  then have mm: "m = ob_mutation p \<and> M_COMMITTED \<in> set (milestones d' (ob_mutation p))"
    using advance_commits [OF adv, of m] assms(1,4) same(2) by simp
  then have "m = ob_mutation p" and "M_COMMITTED \<in> set (milestones d' m)" by metis+
  then show ?thesis using p by (auto simp: milestones_def Let_def split: if_splits)
qed

definition last_lane :: db where
  "last_lane = work_db P_PROJECTING M_VECTOR_APPLIED
     [lane_row SQL O_COMPLETED None 1, lane_row VECTOR O_SKIPPED None 1, lane_row GRAPH O_IN_FLIGHT (Some ''x'') 1]"

definition last_done :: db where
  "last_done = (case complete_tx True True ''GRAPH'' ''w'' ''x'' ''APPLIED'' last_lane of
     Inl _ \<Rightarrow> empty_db | Inr (_, d) \<Rightarrow> d)"

lemmas completion_eval = complete_tx_def outbox_of_def lane_held_def fenced_def fenced_mut_def fenced_run_def
  doc_purged_def joined_run_state_def insert_attempt_def release_claim_def advance_projection_def milestones_def lane_state_def
  resume_mutation_def announce_projection_def transition_mutation_def mut_of_def cas_mutation_def mut_hit_def
  after_mutation_change_def activate_committed_def activate_links_def reconcile_revision_def rev_of_def doc_of_def recompute_run_def
  children_def aggregate_state_def run_state_of_def run_of_def transition_run_def cas_run_def run_hit_def Let_def

lemma last_completion: "complete_tx True True ''GRAPH'' ''w'' ''x'' ''APPLIED'' last_lane = Inr (Applied True, last_done)"
  and last_states: "mut_state_of last_lane ''m'' = Some M_VECTOR_APPLIED" "mut_state_of last_done ''m'' = Some M_COMMITTED"
  by (simp_all add: last_done_def last_lane_def mut_state_of_def completion_eval)

theorem commit_needs_all_lanes_witness:
  "lane_state last_done ''m'' VECTOR \<in> {Some O_COMPLETED, Some O_SKIPPED}"
proof -
  have "keys_ok last_lane" by (simp add: last_lane_def keys_ok_def)
  from commit_needs_all_lanes [OF this last_completion, of "''m''"] last_states show ?thesis by simp
qed

end
