(* ===== verification/Recovery_Properties.thy ===== *)
theory Recovery_Properties imports Work_Properties begin

text \<open>
  Failure handling: bounded retries, completions by a stale worker, rollback, cleanup, replay and
  the admission of a candidate.
\<close>

subsection \<open>Admission\<close>

lemma find_filter_ex: "list_ex P t \<Longrightarrow> find P t \<noteq> None"
  by (auto simp: find_None_iff list_ex_iff)

lemma upd_noop: "(\<And>r. r \<in> set t \<Longrightarrow> P r \<Longrightarrow> f r = r) \<Longrightarrow> upd P f t = t"
  by (induction t) auto

text \<open>Every insert of the admission is idempotent.\<close>

lemma inserts_present:
  "list_ex (\<lambda>r. rn_id r = rid) (runs d) \<Longrightarrow> insert_run rid a d = d"
  "list_ex (\<lambda>e. ev_id e = Admission_Event rid) (events d) \<Longrightarrow> insert_admission rid d = d"
  "list_ex (\<lambda>x. mu_id x = mu_id m) (muts d) \<Longrightarrow> insert_mutation m d = d"
  "list_ex (\<lambda>p. ob_mutation p = mid \<and> ob_lane p = l) (outboxes d) \<Longrightarrow> insert_outbox now mid l d = d"
  by (auto simp: insert_run_def insert_admission_def insert_mutation_def insert_outbox_def list_ex_iff)

lemma insert_outbox_has:
  "list_ex (\<lambda>p. ob_id p = projection_id mid l \<or> ob_mutation p = mid \<and> ob_lane p = l)
     (outboxes (insert_outbox now mid l d))"
  by (auto simp: insert_outbox_def list_ex_iff)

lemma insert_outbox_keeps:
  "list_ex P (outboxes d) \<Longrightarrow> list_ex P (outboxes (insert_outbox now mid l d))"
  by (auto simp: insert_outbox_def list_ex_iff)

lemma insert_outbox_same:
  "list_ex (\<lambda>p. ob_id p = projection_id mid l \<or> ob_mutation p = mid \<and> ob_lane p = l) (outboxes d)
     \<Longrightarrow> insert_outbox now mid l d = d"
  by (auto simp: insert_outbox_def list_ex_iff)

lemma outbox_rows_after:
  assumes "d2 = fold (insert_outbox now mid) [SQL, VECTOR, GRAPH] d1"
  shows "list_ex (\<lambda>p. ob_id p = projection_id mid l \<or> ob_mutation p = mid \<and> ob_lane p = l) (outboxes d2)"
  unfolding assms
  by (cases l) (auto intro: insert_outbox_has insert_outbox_keeps)

text \<open>
  Re-delivery of a candidate is safe: once \<open>record_mutation\<close> has returned, calling it again with
  the same candidate, at any time, succeeds and changes nothing, so neither the mutation nor its
  lanes nor its run's admission event is ever duplicated.
\<close>

lemma admission_idempotent:
  assumes "record_mutation now c d = Inr (m, d1)"
  shows "\<exists>m'. record_mutation now' c d1 = Inr (m', d1)"
proof -
  define a where "a = insert_mutation (received (stamped c)) (insert_admission (ca_run c) (insert_run (ca_run c) (ca_agent c) d))"
  define b where "b = fold (insert_outbox now (ca_mutation c)) [SQL, VECTOR, GRAPH] a"
  obtain old where guard: "[] \<notin> {ca_mutation c, ca_candidate c, ca_tenant c, ca_workspace c, ca_dataset c, ca_document c,
      ca_revision c, ca_chunk c, ca_agent c, ca_session c, ca_content c, ca_source c, ca_run c}" "valid_agent (ca_agent c)"
    and old: "find (\<lambda>m. mu_id m = ca_mutation c \<and> mu_agent m = ca_agent c) (muts b) = Some old"
      "mu_candidate old = ca_candidate c"
    and ident: "identity_given (ca_identity c) \<Longrightarrow> identity_complete (ca_identity c)"
    and d1: "d1 = (if identity_given (ca_identity c) then b\<lparr>muts := upd (\<lambda>m. mu_id m = ca_mutation c)
        (mu_identity_update (\<lambda>_. ca_identity c)) (muts b)\<rparr> else b)"
    using assms unfolding record_mutation_def Let_def a_def [symmetric] b_def [symmetric]
    by (auto split: if_splits option.splits)
  let ?f = "mu_identity_update (\<lambda>_. ca_identity c)"
  have rows: "list_ex (\<lambda>r. rn_id r = ca_run c) (runs d1)" "list_ex (\<lambda>e. ev_id e = Admission_Event (ca_run c)) (events d1)"
    by (auto simp: d1 b_def a_def insert_mutation_def insert_admission_def insert_run_def list_ex_iff)
  have m1: "find (\<lambda>m. mu_id m = ca_mutation c \<and> mu_agent m = ca_agent c) (muts d1) =
      Some (if identity_given (ca_identity c) then ?f old else old)"
  proof -
    have "find (\<lambda>m. mu_id m = ca_mutation c \<and> mu_agent m = ca_agent c) (upd (\<lambda>m. mu_id m = ca_mutation c) ?f t)
        = map_option (\<lambda>m. if mu_id m = ca_mutation c then ?f m else m)
            (find (\<lambda>m. mu_id m = ca_mutation c \<and> mu_agent m = ca_agent c) t)" for t :: "mutation list"
      by (induction t) auto
    moreover have "mu_id old = ca_mutation c" using old(1) by (auto dest: find_SomeD)
    ultimately show ?thesis using old(1) by (simp add: d1)
  qed
  then have "list_ex (\<lambda>x. mu_id x = ca_mutation c) (muts d1)"
    by (auto simp: list_ex_iff dest!: find_SomeD)
  then have "insert_mutation (received (stamped c)) d1 = d1" by (intro inserts_present(3)) (simp add: received_def)
  moreover have "fold (insert_outbox now' (ca_mutation c)) [SQL, VECTOR, GRAPH] d1 = d1"
  proof -
    have "insert_outbox now' (ca_mutation c) l d1 = d1" for l
      by (rule insert_outbox_same) (use outbox_rows_after [OF b_def, of l] in \<open>simp add: d1\<close>)
    then show ?thesis by simp
  qed
  moreover have "upd (\<lambda>m. mu_id m = ca_mutation c) ?f (muts d1) = muts d1" if "identity_given (ca_identity c)"
  proof -
    have "upd P ?f (upd P ?f t) = upd P ?f t" if "\<And>m. P (?f m) = P m" for P and t :: "mutation list"
      using that by (induction t) auto
    then show ?thesis using that by (simp add: d1)
  qed
  ultimately show ?thesis
    using guard rows m1 ident old(2)
    by (auto simp: record_mutation_def inserts_present Let_def identity_conflict_def)
qed

lemma admission_idempotent_witness:
  "\<exists>m'. record_mutation 7 candidate1 admitted_db = Inr (m', admitted_db)"
  by (rule admission_idempotent [OF admitted_db_step])

subsection \<open>Retries\<close>

lemma retry_delay_bounds: "60 \<le> retry_delay n \<and> retry_delay n \<le> 900"
proof -
  have "(1::int) \<le> 2 ^ (n - 1)" by simp
  then show ?thesis unfolding retry_delay_def by linarith
qed

lemma report_failure_frame: "report_failure mid to err d = Inr d' \<Longrightarrow> strip_life d' = strip_life d"
  by (auto simp: report_failure_def bindE_Inr_iff dest!: transition_run_frame split: option.splits if_splits)

lemma held_row:
  assumes "outbox_of d pid = Some p" and "distinct (map ob_id (outboxes d))" and "lane_held tok w p"
  shows "rowcount (\<lambda>x. ob_id x = pid \<and> ob_token x = Some tok) (outboxes d) = 1"
proof -
  have "p \<in> set (outboxes d)" "ob_id p = pid" using assms(1) by (auto simp: outbox_of_def dest: find_SomeD)
  then show ?thesis using assms(2,3)
    by (intro rowcount_key_1 [where k = ob_id and x = pid and r = p]) (auto simp: lane_held_def)
qed

text \<open>
  C8. The retry budget: when the holder reports a failure, the lane goes to \<open>DEAD_LETTER\<close> if the
  failure is not retryable or the attempts reached the limit, and otherwise to \<open>RETRY_PENDING\<close> with
  a delay of 60 to 900 seconds before which no claim may take it; the claim is released either way
  and the attempt is recorded.
\<close>

theorem failure_spends_retry_budget:
  assumes "distinct (map ob_id (outboxes d))" and "outbox_of d pid = Some p" and "mut_of d (ob_mutation p) = Some m"
    and "lane_held tok w p" and "fail_projection now pid w tok err retryable d = Inr (ok, d')"
  shows "ok \<and> (\<exists>q. outbox_of d' pid = Some q \<and> ob_token q = None \<and> ob_attempts q = ob_attempts p \<and>
    (if \<not> retryable \<or> ob_limit p \<le> ob_attempts p then ob_state q = O_DEAD_LETTER
     else ob_state q = O_RETRY_PENDING \<and> (\<forall>t < now + 60. \<not> lane_free t q) \<and> lane_free (now + 900) q)) \<and>
    list_ex (\<lambda>a. at_projection a = pid \<and> at_number a = ob_attempts p) (attempts d')"
proof -
  let ?terminal = "\<not> retryable \<or> ob_limit p \<le> ob_attempts p"
  let ?hit = "\<lambda>x. ob_id x = pid \<and> ob_token x = Some tok"
  let ?f = "\<lambda>x. (release_claim (if ?terminal then O_DEAD_LETTER else O_RETRY_PENDING) x)\<lparr>
      ob_lease := (if ?terminal then None else Some (now + retry_delay (ob_attempts p))),
      ob_error := Some (take 120 err)\<rparr>"
  have one: "rowcount ?hit (outboxes d) = 1" by (rule held_row [OF assms(2,1,4)])
  have tabs: "ok \<and> outboxes d' = upd ?hit ?f (outboxes d) \<and>
      list_ex (\<lambda>a. at_projection a = pid \<and> at_number a = ob_attempts p) (attempts d')"
  proof -
    let ?d2 = "mark_failed now pid tok p err ?terminal d"
    have "ok \<and> strip_life d' = strip_life ?d2"
      using assms(2-5) one unfolding fail_projection_def Let_def
      by (auto simp: bindE_Inr_iff split: if_splits option.splits
          dest!: report_failure_frame transition_mutation_frame)
    moreover have "outboxes ?d2 = upd ?hit ?f (outboxes d)"
      by (simp add: mark_failed_def insert_attempt_def Let_def)
    moreover have "list_ex (\<lambda>a. at_projection a = pid \<and> at_number a = ob_attempts p) (attempts ?d2)"
      by (auto simp: mark_failed_def insert_attempt_def list_ex_iff Let_def)
    ultimately show ?thesis using strip_life_sel [of d' ?d2] by auto
  qed
  have p: "ob_id p = pid" using assms(2) by (auto simp: outbox_of_def dest: find_SomeD)
  have "find (\<lambda>r. ob_id r = pid) (upd ?hit ?f (outboxes d)) =
      map_option (\<lambda>r. if ?hit r then ?f r else r) (find (\<lambda>r. ob_id r = pid) (outboxes d))"
    by (rule find_upd_key) (simp add: release_claim_def)
  then have "outbox_of d' pid = Some (?f p)"
    using assms(2,4) tabs p by (simp add: outbox_of_def lane_held_def)
  then show ?thesis
    using tabs retry_delay_bounds [of "ob_attempts p"] by (auto simp: release_claim_def lane_free_def)
qed

definition held_lane_db :: db where
  "held_lane_db = work_db P_PROJECTING M_SQL_APPLIED [lane_row VECTOR O_IN_FLIGHT (Some ''x'') 5]"

lemma held_lane_db_facts:
  "outbox_of held_lane_db ''VECTOR'' = Some (lane_row VECTOR O_IN_FLIGHT (Some ''x'') 5)"
  "lane_held ''x'' ''w'' (lane_row VECTOR O_IN_FLIGHT (Some ''x'') 5)"
  "distinct (map ob_id (outboxes held_lane_db))" "keys_ok held_lane_db"
  by (simp_all add: held_lane_db_def outbox_of_def lane_held_def)

lemma held_lane_fails: "\<exists>d'. fail_projection 0 ''VECTOR'' ''w'' ''x'' ''Boom'' True held_lane_db = Inr (True, d')"
  by (simp add: fail_projection_def report_failure_def held_lane_db_def outbox_of_def lane_held_def mark_failed_def
      insert_attempt_def transition_mutation_def mut_of_def Let_def cas_mutation_def mut_hit_def
      after_mutation_change_def recompute_run_def children_def run_state_of_def run_of_def
      aggregate_state_def transition_run_def cas_run_def run_hit_def)

theorem failure_spends_retry_budget_witness:
  "\<exists>d' q. fail_projection 0 ''VECTOR'' ''w'' ''x'' ''Boom'' True held_lane_db = Inr (True, d') \<and>
    outbox_of d' ''VECTOR'' = Some q \<and> ob_state q = O_DEAD_LETTER"
proof -
  obtain d' where f: "fail_projection 0 ''VECTOR'' ''w'' ''x'' ''Boom'' True held_lane_db = Inr (True, d')"
    using held_lane_fails by blast
  have m: "mut_of held_lane_db (ob_mutation (lane_row VECTOR O_IN_FLIGHT (Some ''x'') 5))
      = Some ((received candidate1)\<lparr>mu_state := M_SQL_APPLIED\<rparr>)"
    by (simp add: held_lane_db_def)
  show ?thesis
    using failure_spends_retry_budget [OF held_lane_db_facts(3,1) m held_lane_db_facts(2) f] f by auto
qed

text \<open>
  The failure of a lane is not recorded on its run: when the mutation is the run's only child and
  its state changes, the run has already been recomputed when the \<open>PROJECTION_FAILED\<close> transition is
  attempted, so no event of that type, and no failure class, is written.
\<close>

lemma projection_failure_event_dropped:
  assumes "keys_ok d" and "outbox_of d pid = Some p" and "mut_of d (ob_mutation p) = Some m"
    and "mu_run m = Some r" and "r \<noteq> []" and "children d r = [m]"
    and "mu_state m \<in> {M_RECEIVED, M_EXTRACTED, M_VALIDATED, M_PENDING, M_SQL_APPLIED, M_VECTOR_APPLIED,
           M_GRAPH_APPLIED}"
    and "fail_projection now pid w tok err retryable d = Inr (ok, d')"
  shows "\<exists>new. events d' = events d @ new \<and>
    (\<forall>e \<in> set new. ev_type e \<noteq> ''PROJECTION_FAILED'' \<and> ev_detail e = [])"
proof -
  define t where "t \<longleftrightarrow> \<not> retryable \<or> ob_limit p \<le> ob_attempts p"
  define to where "to = (if t then M_DEAD_LETTER else M_RETRY_PENDING)"
  define rto where "rto = (if t then P_DLQ else P_RETRY_PENDING)"
  let ?mid = "ob_mutation p" and ?d2 = "mark_failed now pid tok p err t d"
  have mf: "muts ?d2 = muts d" "runs ?d2 = runs d" "events ?d2 = events d"
    by (simp_all add: mark_failed_def insert_attempt_def Let_def)
  have keys2: "keys_ok ?d2" using assms(1) mf by (simp add: keys_ok_def)
  consider (quiet) "events d' = events d"
    | (go) ok1 d3 where "transition_mutation ?mid to (Some (take 120 err)) ?d2 = Inr (ok1, d3)"
      "report_failure ?mid rto err d3 = Inr d'"
    using assms(2,3,8) mf(3) that(1)
      that(2) [unfolded t_def to_def rto_def]
    by (auto simp: fail_projection_def Let_def t_def bindE_Inr_iff split: if_splits)
  then have "quiet d d'"
  proof cases
    case quiet
    then show ?thesis by (auto simp: quiet_def)
  next
    case go
    have m2: "mut_state_of ?d2 ?mid = Some (mu_state m)" using assms(3) mf by (simp add: mut_state_of_def mut_of_def)
    let ?d0 = "cas_mutation ?mid (mu_state m) to (Some (take 120 err)) ?d2"
    let ?m0 = "m\<lparr>mu_state := to, mu_failure := Some (take 120 err)\<rparr>"
    have after: "after_mutation_change ?mid to ?d0 = Inr (ok1, d3)"
      using go(1) keys2
    proof (cases rule: transition_mutation_cases)
      case same
      then show ?thesis using m2 assms(7) by (auto simp: to_def split: if_splits)
    next
      case (illegal cur)
      then show ?thesis using m2 assms(7) by (auto simp: to_def split: if_splits)
    next
      case (moved cur)
      then show ?thesis using m2 by simp
    qed
    have mid: "mu_id m = ?mid" using assms(3) by (auto simp: mut_of_def dest: find_SomeD)
    have m0: "mut_of ?d0 ?mid = Some ?m0"
      using assms(3) mid find_upd_key [of mu_id "\<lambda>m :: mutation. m\<lparr>mu_state := to, mu_failure := Some (take 120 err)\<rparr>"]
      by (simp add: mut_of_def cas_mutation_def mut_hit_def mf)
    have kid: "children ?d0 r = [?m0]"
    proof -
      have "filter (\<lambda>m. mu_run m = Some r) (upd P f t) = upd P f (filter (\<lambda>m. mu_run m = Some r) t)"
        if "\<And>m. mu_run (f m) = mu_run m" for P f and t :: "mutation list"
        using that by (induction t) auto
      then show ?thesis using assms(6) mid by (simp add: children_def cas_mutation_def mut_hit_def mf)
    qed
    have k0: "keys_ok ?d0" using keys2 by (simp add: keys_ok_def cas_mutation_def table_simps)
    obtain b d4 where d4: "recompute_run r ''MUTATION_STATE_CHANGE'' None [] ?d0 = Inr (b, d4)"
      "runs d3 = runs d4" "events d3 = events d4" "muts d3 = muts d4" "quiet ?d0 d3"
      using after_change_cases [OF after m0] assms(4,5) by auto
    have agg: "aggregate_state (map mu_state (children ?d0 r)) = rto"
      unfolding kid by (simp add: aggregate_state_def to_def rto_def)
    obtain cur where cur: "run_state_of ?d0 r = Some cur"
      using d4(1) kid by (auto simp: recompute_run_def Let_def split: option.splits)
    have st4: "run_state_of d4 r = Some (if reach_aggregate cur rto then rto else cur)"
    proof -
      have ne: "children ?d0 r \<noteq> []" using kid by simp
      obtain ok5 d5 where "recompute_run r ''MUTATION_STATE_CHANGE'' None [] ?d0 = Inr (ok5, d5)"
        "run_state_of d5 r = Some (if reach_aggregate cur rto then rto else cur)"
        using recompute_run_total [OF k0 cur ne, of "''MUTATION_STATE_CHANGE''" None "[]"] unfolding agg by blast
      then show ?thesis using d4(1) by simp
    qed
    have st3: "run_state_of d3 r = Some (if reach_aggregate cur rto then rto else cur)"
      using st4 d4(2) by (simp add: run_state_of_def run_of_def)
    have run3: "Option.bind (mut_of d3 ?mid) mu_run = Some r"
      using after_change_muts [OF after] m0 assms(4) by (simp add: mut_of_def)
    have "d' = d3"
    proof -
      have same: "x = d3" if "transition_run r rto ''PROJECTION_FAILED'' (Some (take 120 err)) [] d3 = Inr (y, x)" for x y
        using that st3 by (auto simp: transition_run_def reach_aggregate_def split: if_splits)
      show ?thesis using go(2) run3 assms(5) same by (auto simp: report_failure_def bindE_Inr_iff)
    qed
    moreover have "events ?d0 = events d" by (simp add: cas_mutation_def mf)
    ultimately show ?thesis using d4(5) by (simp add: quiet_def)
  qed
  then show ?thesis by (fastforce simp: quiet_def)
qed

theorem projection_failure_event_dropped_witness:
  "\<exists>d' new. fail_projection 0 ''VECTOR'' ''w'' ''x'' ''Boom'' True held_lane_db = Inr (True, d') \<and>
    events d' = events held_lane_db @ new \<and> (\<forall>e \<in> set new. ev_type e \<noteq> ''PROJECTION_FAILED'' \<and> ev_detail e = [])"
proof -
  obtain d' where f: "fail_projection 0 ''VECTOR'' ''w'' ''x'' ''Boom'' True held_lane_db = Inr (True, d')"
    using held_lane_fails by blast
  have "\<exists>new. events d' = events held_lane_db @ new \<and> (\<forall>e \<in> set new. ev_type e \<noteq> ''PROJECTION_FAILED'' \<and> ev_detail e = [])"
    by (rule projection_failure_event_dropped [OF held_lane_db_facts(4,1) _ _ _ _ _ f, where r = "''r''"
          and m = "(received candidate1)\<lparr>mu_state := M_SQL_APPLIED\<rparr>"]) (simp_all add: held_lane_db_def)
  then show ?thesis using f by blast
qed

end
