(* ===== verification/Rollback_Properties.thy ===== *)
theory Rollback_Properties imports Recovery_Properties begin

text \<open>
  What a rollback releases and what it leaves to other owners, when a run counts as rolled back,
  and three places where recovery does not do what it is for: a late completion, a replay of
  committed mutations and the re-registration of a tombstoned artifact.
\<close>

subsection \<open>Rollback\<close>

text \<open>
  C5. A rollback releases this run's ownerships and no others; an artifact that still has an active
  owner keeps its registry row unchanged; and every lane of the run's mutations is cancelled and can
  never be claimed again.
\<close>

theorem rollback_spares_shared_artifacts:
  assumes "request_rollback now rid d = Inr (res, d')" and "run_state_of d rid \<noteq> Some P_ROLLED_BACK"
  shows "owners d' = map (\<lambda>s. if so_run s = Some rid \<and> so_state s = S_ACTIVE
        then s\<lparr>so_state := S_RELEASED\<rparr> else s) (owners d) \<and>
    (\<forall>g \<in> set (registries d). (\<exists>s \<in> set (owners d'). so_registry s = rg_id g \<and> so_state s = S_ACTIVE)
        \<longrightarrow> g \<in> set (registries d')) \<and>
    (\<forall>p \<in> set (outboxes d'). run_lane rid d' p \<longrightarrow> ob_state p = O_CANCELLED \<and> \<not> lane_free t p)"
proof -
  note tables = request_rollback_tables [OF assms]
  have "g \<in> set (registries d')"
    if g: "g \<in> set (registries d)" and s: "s \<in> set (owners d')" "so_registry s = rg_id g" "so_state s = S_ACTIVE" for g s
  proof -
    have "rg_id g \<notin> rg_id ` set (unowned rid (release_owners rid d))"
      using s tables(1) by (auto simp: unowned_def list_ex_iff)
    then show ?thesis unfolding tables(2) by (intro upd_miss g)
  qed
  moreover have "ob_state p = O_CANCELLED" if "p \<in> set (outboxes d')" "run_lane rid d' p" for p
    using that tables(3) by (auto simp: set_upd release_claim_def split: if_splits)
  ultimately show ?thesis using tables(1)
    by (fastforce simp: release_owners_def upd_def lane_free_def)
qed

definition owned_db :: db where
  "owned_db = (work_db P_COMMITTED M_COMMITTED [lane_row SQL O_COMPLETED None 1])\<lparr>
     registries := [\<lparr>rg_id = ''g'', rg_tenant = ''t'', rg_agent = ''a'', rg_store = VECTOR, rg_kind = ENTITY_VECTOR,
       rg_physical = ''e'', rg_state = G_ACTIVE\<rparr>],
     owners := [\<lparr>so_registry = ''g'', so_mutation = ''m'', so_run = Some ''r'', so_dataset = ''s'',
         so_document = None, so_chunk = None, so_state = S_ACTIVE\<rparr>,
       \<lparr>so_registry = ''g'', so_mutation = ''n'', so_run = Some ''q'', so_dataset = ''s'',
         so_document = None, so_chunk = None, so_state = S_ACTIVE\<rparr>]\<rparr>"

definition owned_rolled_back :: db where
  "owned_rolled_back = (case request_rollback 0 ''r'' owned_db of Inl _ \<Rightarrow> empty_db | Inr (_, d) \<Rightarrow> d)"

lemmas rollback_eval = request_rollback_def non_head_def children_def run_lane_def transition_run_def Let_def
  cas_run_def run_hit_def release_owners_def unowned_def transition_children_def transition_mutation_def
  mut_of_def cas_mutation_def mut_hit_def after_mutation_change_def recompute_run_def aggregate_state_def
  restore_supersession_def restore_facts_def superseding_links_def restore_rows_def distinct_rows_def
  restore_revision_def rev_of_def doc_of_def cancel_run_lanes_def run_state_of_def run_of_def

lemma owned_rollback: "request_rollback 0 ''r'' owned_db = Inr ((0, P_ROLLED_BACK), owned_rolled_back)"
  by (simp add: owned_rolled_back_def owned_db_def rollback_eval)

theorem rollback_spares_shared_artifacts_witness:
  "owners owned_rolled_back = [\<lparr>so_registry = ''g'', so_mutation = ''m'', so_run = Some ''r'', so_dataset = ''s'',
         so_document = None, so_chunk = None, so_state = S_RELEASED\<rparr>,
       \<lparr>so_registry = ''g'', so_mutation = ''n'', so_run = Some ''q'', so_dataset = ''s'',
         so_document = None, so_chunk = None, so_state = S_ACTIVE\<rparr>]"
proof -
  have "run_state_of owned_db ''r'' \<noteq> Some P_ROLLED_BACK"
    by (simp add: owned_db_def run_state_of_def run_of_def)
  from rollback_spares_shared_artifacts [OF owned_rollback this] show ?thesis
    by (simp add: owned_db_def)
qed

text \<open>
  C6. A run becomes \<open>ROLLED_BACK\<close> at the end of a cleanup only when every artifact queued for it has
  been deleted: no cleanup row of the run is in any other state than \<open>COMPLETED\<close>.
\<close>

theorem rolled_back_only_when_clean:
  assumes "keys_ok d" and "finish_cleanup cid w tok err d = Inr (ok, d')"
    and "run_state_of d r \<noteq> Some P_ROLLED_BACK" and "run_state_of d' r = Some P_ROLLED_BACK"
  shows "\<forall>c \<in> set (cleanups d'). cl_run c = r \<longrightarrow> cl_state c = C_COMPLETED"
proof -
  have agg: "P_ROLLED_BACK \<notin> aggregates" by (simp add: aggregates_def)
  have kids: "run_state_of b r \<noteq> Some P_ROLLED_BACK"
    if "transition_children q to fc a = Inr (n, b)" "keys_ok a" "run_state_of a r \<noteq> Some P_ROLLED_BACK" for q to fc a n b
    using transition_children_derived [OF that(1)] that(2,3) agg unfolding derived_def by (metis image_iff option.inject)
  have loop: "\<exists>a. transition_run q to ty fc det e = Inr (x, a) \<and> strip_life b = strip_life e \<and>
      (to \<noteq> P_ROLLED_BACK \<or> q \<noteq> r \<longrightarrow> run_state_of b r \<noteq> Some P_ROLLED_BACK)"
    if t: "transition_run q to ty fc det e = Inr (x, a)" and c: "transition_children q mto mfc a = Inr (n, b)"
      and k: "keys_ok e" "run_state_of e r \<noteq> Some P_ROLLED_BACK" for q to ty fc det e x a mto mfc n b
    using t transition_run_frame [OF t] transition_children_frame [OF c] transition_run_state [OF t k(1), of r] k
      kids [OF c] same_ids_keys [OF transition_run_ids [OF t]] by auto
  obtain c where c: "cleanup_of d cid = Some c" "cleanup_held tok w c"
    using assms(2-4) by (auto simp: finish_cleanup_def split: option.splits if_splits)
  define terminal where "terminal \<longleftrightarrow> truthy err \<and> cl_limit c \<le> cl_attempts c"
  obtain d2 where d2: "runs d2 = runs d" "muts d2 = muts d"
    and res: "if terminal then (\<exists>b a n. transition_run (cl_run c) P_BLOCKED ''ROLLBACK_CLEANUP_BLOCKED'' err [] d2 = Inr (b, a)
          \<and> transition_children (cl_run c) M_BLOCKED (clip err) a = Inr (n, d'))
      else if \<not> truthy err \<and> \<not> list_ex (\<lambda>x. cl_run x = cl_run c \<and> cl_state x \<noteq> C_COMPLETED) (cleanups d2)
      then (\<exists>b a n. transition_run (cl_run c) P_ROLLED_BACK ''ROLLBACK_COMPLETED'' None [] d2 = Inr (b, a)
          \<and> transition_children (cl_run c) M_ROLLED_BACK None a = Inr (n, d'))
      else d' = d2"
  proof -
    let ?hit = "\<lambda>x. cl_id x = cid \<and> cl_token x = Some tok"
    let ?next = "if terminal then C_BLOCKED else if truthy err then C_RETRY_PENDING else C_COMPLETED"
    let ?d1 = "d\<lparr>cleanups := upd ?hit (\<lambda>x. x\<lparr>cl_state := ?next, cl_token := None, cl_by := None,
                     cl_lease := None, cl_error := clip err\<rparr>) (cleanups d)\<rparr>"
    let ?d2 = "if rowcount ?hit (cleanups d) = 1 \<and> \<not> truthy err then ?d1\<lparr>registries := upd (\<lambda>g. rg_id g = cl_registry c)
                     (rg_state_update (\<lambda>_. G_DELETED)) (registries ?d1)\<rparr> else ?d1"
    show thesis
    proof (rule that [of ?d2])
      show "if terminal then (\<exists>b a n. transition_run (cl_run c) P_BLOCKED ''ROLLBACK_CLEANUP_BLOCKED'' err [] ?d2 = Inr (b, a)
          \<and> transition_children (cl_run c) M_BLOCKED (clip err) a = Inr (n, d'))
      else if \<not> truthy err \<and> \<not> list_ex (\<lambda>x. cl_run x = cl_run c \<and> cl_state x \<noteq> C_COMPLETED) (cleanups ?d2)
      then (\<exists>b a n. transition_run (cl_run c) P_ROLLED_BACK ''ROLLBACK_COMPLETED'' None [] ?d2 = Inr (b, a)
          \<and> transition_children (cl_run c) M_ROLLED_BACK None a = Inr (n, d'))
      else d' = ?d2"
        using assms(2) c unfolding finish_cleanup_def terminal_def Let_def
        by (cases "terminal"; cases "truthy err") (auto simp: bindE_Inr_iff terminal_def split: if_splits)
    qed simp_all
  qed
  have k2: "keys_ok d2" "run_state_of d2 r \<noteq> Some P_ROLLED_BACK"
    using assms(1,3) d2 by (simp_all add: keys_ok_def run_state_of_def run_of_def)
  have clean: "cleanups d' = cleanups a" if "strip_life d' = strip_life a" for a
    using strip_life_sel(9) [OF that] .
  have "r = cl_run c \<and> \<not> list_ex (\<lambda>x. cl_run x = cl_run c \<and> cl_state x \<noteq> C_COMPLETED) (cleanups d2)
      \<and> cleanups d' = cleanups d2"
  proof (cases terminal)
    case True
    then obtain b a n where "transition_run (cl_run c) P_BLOCKED ''ROLLBACK_CLEANUP_BLOCKED'' err [] d2 = Inr (b, a)"
      "transition_children (cl_run c) M_BLOCKED (clip err) a = Inr (n, d')" using res by auto
    from loop [OF this k2] assms(4) show ?thesis by simp
  next
    case False
    show ?thesis
    proof (cases "\<not> truthy err \<and> \<not> list_ex (\<lambda>x. cl_run x = cl_run c \<and> cl_state x \<noteq> C_COMPLETED) (cleanups d2)")
      case True
      then obtain b a n where "transition_run (cl_run c) P_ROLLED_BACK ''ROLLBACK_COMPLETED'' None [] d2 = Inr (b, a)"
        "transition_children (cl_run c) M_ROLLED_BACK None a = Inr (n, d')" using res False by auto
      from loop [OF this k2] assms(4) True clean show ?thesis by auto
    next
      case False
      with \<open>\<not> terminal\<close> res have "d' = d2" by simp
      then show ?thesis using k2 assms(4) by simp
    qed
  qed
  then show ?thesis by (auto simp: list_ex_iff)
qed

definition cleaning_db :: db where
  "cleaning_db = (work_db P_ROLLING_BACK M_ROLLING_BACK [])\<lparr>cleanups := [\<lparr>cl_id = ''c'', cl_run = ''r'',
     cl_registry = ''g'', cl_state = C_IN_FLIGHT, cl_attempts = 1, cl_limit = 5, cl_token = Some ''x'',
     cl_by = Some ''w'', cl_lease = Some 300, cl_error = None, cl_created = 0\<rparr>]\<rparr>"

definition cleaned_db :: db where
  "cleaned_db = (case finish_cleanup ''c'' ''w'' ''x'' None cleaning_db of Inl _ \<Rightarrow> empty_db | Inr (_, d) \<Rightarrow> d)"

lemmas cleanup_eval = finish_cleanup_def cleanup_of_def cleanup_held_def transition_run_def Let_def cas_run_def
  run_hit_def transition_children_def transition_mutation_def mut_of_def cas_mutation_def mut_hit_def
  after_mutation_change_def recompute_run_def aggregate_state_def children_def run_state_of_def run_of_def

lemma cleaned: "finish_cleanup ''c'' ''w'' ''x'' None cleaning_db = Inr (True, cleaned_db)"
  and cleaned_state: "run_state_of cleaned_db ''r'' = Some P_ROLLED_BACK"
  by (simp_all add: cleaned_db_def cleaning_db_def cleanup_eval)

lemma cleaned_row: "map cl_run (cleanups cleaned_db) = [''r'']"
  by (simp add: cleaned_db_def cleaning_db_def cleanup_eval)

theorem rolled_back_only_when_clean_witness:
  "run_state_of cleaned_db ''r'' = Some P_ROLLED_BACK \<and> map cl_state (cleanups cleaned_db) = [C_COMPLETED]"
proof -
  have k: "keys_ok cleaning_db" by (simp add: cleaning_db_def keys_ok_def work_db_def)
  have "run_state_of cleaning_db ''r'' \<noteq> Some P_ROLLED_BACK"
    by (simp add: cleaning_db_def run_state_of_def run_of_def)
  from rolled_back_only_when_clean [OF k cleaned this cleaned_state] cleaned_row cleaned_state
  show ?thesis by auto
qed

subsection \<open>Late completions\<close>

text \<open>
  A completion by a worker that no longer holds the lane is refused, but it also deletes every
  vector and graph artifact of the mutation: the deletes depend on the token alone, not on the
  mutation being fenced.
\<close>

lemma stale_completion_deletes:
  assumes "outbox_of d pid = Some p" and "mut_of d (ob_mutation p) = Some m" and "\<not> lane_held tok w p"
  shows "fst (complete_projection del vec gra now pid w tok outcome d) \<noteq> Inr True \<and>
    fst (snd (complete_projection del vec gra now pid w tok outcome d)) =
      filter compensated (filter (\<lambda>a. ar_mutation a = mu_id m) (artifacts d))"
proof -
  have "mu_id m = ob_mutation p" using assms(2) by (auto simp: mut_of_def dest: find_SomeD)
  moreover obtain d1 where "complete_tx vec gra pid w tok outcome d =
      Inr (Stale (ob_mutation p) (filter (\<lambda>a. ar_mutation a = ob_mutation p) (artifacts d)), d1)"
    using assms by (simp add: complete_tx_def)
  ultimately show ?thesis
    by (auto simp: complete_projection_def Let_def split: prod.splits sum.splits)
qed

definition vector_artifact :: artifact where
  "vector_artifact = \<lparr>ar_mutation = ''m'', ar_store = VECTOR, ar_kind = ENTITY_VECTOR, ar_artifact = ''e''\<rparr>"

definition committed_db :: db where
  "committed_db = (work_db P_COMMITTED M_COMMITTED [lane_row SQL O_COMPLETED None 1, lane_row VECTOR O_COMPLETED None 2,
     lane_row GRAPH O_COMPLETED None 1])\<lparr>artifacts := [vector_artifact]\<rparr>"

lemma stale_completion_deletes_witness:
  "mut_state_of committed_db ''m'' = Some M_COMMITTED \<and>
   fst (snd (complete_projection (\<lambda>_. True) True True 0 ''VECTOR'' ''w'' ''x'' ''APPLIED'' committed_db)) = [vector_artifact]"
proof -
  have p: "outbox_of committed_db ''VECTOR'' = Some (lane_row VECTOR O_COMPLETED None 2)"
    and m: "mut_of committed_db (ob_mutation (lane_row VECTOR O_COMPLETED None 2))
      = Some ((received candidate1)\<lparr>mu_state := M_COMMITTED\<rparr>)"
    by (simp_all add: committed_db_def outbox_of_def mut_of_def)
  have "\<not> lane_held ''x'' ''w'' (lane_row VECTOR O_COMPLETED None 2)" by (simp add: lane_held_def)
  from stale_completion_deletes [OF p m this] show ?thesis
    by (simp add: committed_db_def mut_state_of_def mut_of_def vector_artifact_def compensated_def)
qed

text \<open>
  The compensation of a late write reopens a run that was already \<open>ROLLED_BACK\<close>: a move no entry
  of the transition table allows, and one that appends no event.
\<close>

lemma compensation_reopens_silently:
  assumes "mut_of d mid = Some m" and "mu_run m = Some r" and "r \<noteq> []"
    and "run_state_of d r = Some P_ROLLED_BACK" and "enqueue_unowned now mid arts d = Inr (u, d')"
  shows "run_state_of d' r = Some P_ROLLING_BACK \<and> P_ROLLING_BACK \<notin> set (run_edges P_ROLLED_BACK) \<and>
    events d' = events d"
proof -
  let ?step = "\<lambda>a d. let agent = registry_agent (ar_store a) (mu_agent m);
                   reg = registry_id (mu_tenant m) agent (ar_store a) (ar_kind a) (ar_artifact a);
                   d' = insert_registry \<lparr>rg_id = reg, rg_tenant = mu_tenant m, rg_agent = agent,
                     rg_store = ar_store a, rg_kind = ar_kind a, rg_physical = ar_artifact a,
                     rg_state = G_TOMBSTONED\<rparr> d
               in insert_cleanup now r reg (d'\<lparr>registries := upd (\<lambda>g. rg_id g = reg)
                    (rg_state_update (\<lambda>_. G_TOMBSTONED)) (registries d')\<rparr>)"
  have loop: "runs (fold ?step arts e) = runs e \<and> events (fold ?step arts e) = events e" for e
    by (induction arts arbitrary: e) (simp_all add: Let_def insert_cleanup_def insert_registry_def)
  have "runs d' = upd (\<lambda>r'. rn_id r' = r \<and> rn_state r' \<in> {P_ROLLED_BACK, P_ROLLING_BACK})
      (\<lambda>r. r\<lparr>rn_state := P_ROLLING_BACK, rn_failure := compensation_pending\<rparr>) (runs d)" and "events d' = events d"
    using assms(1-3,5) loop by (auto simp: enqueue_unowned_def Let_def)
  moreover have "find (\<lambda>x. rn_id x = r) (upd (\<lambda>r'. rn_id r' = r \<and> rn_state r' \<in> {P_ROLLED_BACK, P_ROLLING_BACK})
      (\<lambda>r. r\<lparr>rn_state := P_ROLLING_BACK, rn_failure := compensation_pending\<rparr>) (runs d)) =
    map_option (\<lambda>r'. if rn_id r' = r \<and> rn_state r' \<in> {P_ROLLED_BACK, P_ROLLING_BACK}
      then r'\<lparr>rn_state := P_ROLLING_BACK, rn_failure := compensation_pending\<rparr> else r') (find (\<lambda>x. rn_id x = r) (runs d))"
    by (rule find_upd_key) simp
  moreover obtain z where "find (\<lambda>x. rn_id x = r) (runs d) = Some z" "rn_state z = P_ROLLED_BACK"
    using assms(4) by (auto simp: run_state_of_def run_of_def)
  moreover from this have "rn_id z = r" by (auto dest: find_SomeD)
  ultimately show ?thesis by (simp add: run_state_of_def run_of_def)
qed

definition rolled_back_db :: db where
  "rolled_back_db = work_db P_ROLLED_BACK M_ROLLED_BACK [lane_row VECTOR O_IN_FLIGHT (Some ''x'') 1]"

theorem compensation_reopens_silently_witness:
  "\<exists>u d'. enqueue_unowned 0 ''m'' [vector_artifact] rolled_back_db = Inr (u, d') \<and>
    run_state_of d' ''r'' = Some P_ROLLING_BACK"
proof -
  have m: "mut_of rolled_back_db ''m'' = Some ((received candidate1)\<lparr>mu_state := M_ROLLED_BACK\<rparr>)"
    and r: "run_state_of rolled_back_db ''r'' = Some P_ROLLED_BACK"
    by (simp_all add: rolled_back_db_def)
  have "\<exists>u d'. enqueue_unowned 0 ''m'' [vector_artifact] rolled_back_db = Inr (u, d')"
    using m by (simp add: enqueue_unowned_def Let_def)
  then obtain u d' where e: "enqueue_unowned 0 ''m'' [vector_artifact] rolled_back_db = Inr (u, d')" by blast
  show ?thesis using compensation_reopens_silently [OF m _ _ r e] e by simp
qed

subsection \<open>Replay\<close>

lemma requeue_dispatch_work: "muts (requeue_dispatch rid d) = muts d \<and> outboxes (requeue_dispatch rid d) = outboxes d"
proof -
  have "muts (fold requeue_one qs e) = muts e \<and> outboxes (fold requeue_one qs e) = outboxes e" for qs e
    by (induction qs arbitrary: e) (simp_all add: requeue_one_def)
  then show ?thesis by (simp add: requeue_dispatch_def)
qed

text \<open>
  An operator replay of a run moves its already committed mutations back to \<open>RETRY_PENDING\<close>, but
  leaves their completed lanes completed; no claim can ever take such a lane, so nothing brings the
  mutation back to \<open>COMMITTED\<close>.
\<close>

lemma replay_strands_committed:
  assumes "keys_ok d" and "replay_run rid target d = Inr (s, d')"
    and "\<not> list_ex (\<lambda>c. cl_run c = rid \<and> cl_state c = C_BLOCKED) (cleanups d)"
    and "mut_of d mid = Some m" and "mu_run m = Some rid" and "mu_state m = M_COMMITTED"
  shows "mut_state_of d' mid = Some M_RETRY_PENDING \<and>
    (\<forall>p \<in> set (outboxes d). ob_mutation p = mid \<and> ob_state p = O_COMPLETED \<longrightarrow>
       p \<in> set (outboxes d') \<and> (\<forall>t. \<not> lane_free t p))"
proof -
  let ?reset = "\<lambda>d1. d1\<lparr>outboxes := upd (\<lambda>p. run_lane rid d1 p \<and> ob_state p = O_DEAD_LETTER)
       (\<lambda>p. (release_claim O_RETRY_PENDING p)\<lparr>ob_error := None\<rparr>) (outboxes d1),
     cleanups := upd (\<lambda>c. cl_run c = rid \<and> cl_state c = C_BLOCKED)
       (\<lambda>c. c\<lparr>cl_state := C_RETRY_PENDING, cl_token := None, cl_by := None,
          cl_lease := None, cl_error := None\<rparr>) (cleanups d1)\<rparr>"
  obtain d1 n d3 where run: "transition_run rid P_RETRY_PENDING ''OPERATOR_REPLAY'' None [] d = Inr (True, d1)"
    and kids: "transition_children rid M_RETRY_PENDING None (?reset d1) = Inr (n, d3)"
    and d': "d' = requeue_dispatch rid d3"
    using assms(2,3) by (auto simp: replay_run_def Let_def bindE_Inr_iff split: option.splits if_splits)
  have m1: "muts d1 = muts d" using run assms(1) by (cases rule: transition_run_cases) (auto simp: cas_run_def)
  have o1: "outboxes d1 = outboxes d" using strip_life_sel(10) [OF transition_run_frame [OF run]] .
  have k2: "keys_ok (?reset d1)"
    using assms(1) same_ids_keys [OF transition_run_ids [OF run]] by (simp add: keys_ok_def)
  have "m \<in> set (children d rid)" "mu_id m = mid" using assms(4,5) by (auto simp: children_def mut_of_def dest: find_SomeD)
  then have "mid \<in> mu_id ` set (children (?reset d1) rid)" using m1 by (auto simp: children_def)
  moreover have "mut_state_of (?reset d1) mid = Some M_COMMITTED"
    using assms(4,6) m1 by (simp add: mut_state_of_def mut_of_def)
  ultimately have "mut_state_of d3 mid = Some M_RETRY_PENDING"
    using transition_children_states [OF kids k2, of mid] by (simp add: moved_state_def)
  moreover have "outboxes d' = outboxes (?reset d1)" "muts d' = muts d3"
    using requeue_dispatch_work strip_life_sel(10) [OF transition_children_frame [OF kids]] d' by simp_all
  ultimately show ?thesis
    using o1 by (auto simp: mut_state_of_def mut_of_def set_upd lane_free_def image_iff)
qed

definition half_dead_db :: db where
  "half_dead_db = (work_db P_DLQ M_COMMITTED [lane_row SQL O_COMPLETED None 1, lane_row VECTOR O_COMPLETED None 1,
     lane_row GRAPH O_COMPLETED None 1])\<lparr>muts := [(received candidate1)\<lparr>mu_state := M_COMMITTED\<rparr>,
       (received candidate1)\<lparr>mu_id := ''n'', mu_state := M_DEAD_LETTER\<rparr>]\<rparr>"

lemmas replay_eval = replay_run_def transition_run_def cas_run_def run_hit_def transition_children_def
  transition_mutation_def mut_of_def cas_mutation_def mut_hit_def after_mutation_change_def recompute_run_def
  aggregate_state_def children_def run_state_of_def run_of_def requeue_dispatch_def Let_def

lemma half_dead_replay: "\<exists>s d'. replay_run ''r'' None half_dead_db = Inr (s, d')"
  by (simp add: half_dead_db_def replay_eval)

lemma replay_strands_committed_witness:
  "\<exists>s d'. replay_run ''r'' None half_dead_db = Inr (s, d') \<and> mut_state_of d' ''m'' = Some M_RETRY_PENDING"
proof -
  obtain s d' where r: "replay_run ''r'' None half_dead_db = Inr (s, d')" using half_dead_replay by blast
  have "keys_ok half_dead_db" "mut_of half_dead_db ''m'' = Some ((received candidate1)\<lparr>mu_state := M_COMMITTED\<rparr>)"
    "\<not> list_ex (\<lambda>c. cl_run c = ''r'' \<and> cl_state c = C_BLOCKED) (cleanups half_dead_db)"
    by (simp_all add: half_dead_db_def keys_ok_def mut_of_def)
  from replay_strands_committed [OF this(1) r this(3,2)] r show ?thesis by simp
qed

subsection \<open>Re-registration and purge\<close>

text \<open>
  Recording an artifact whose registry row is a tombstone gives it a new active owner but leaves
  the tombstone, the pending cleanup and the cleanup's decision to delete it as they were.
\<close>

lemma tombstone_survives_reregistration:
  assumes "record_artifact mid s k a d = Inr d'" and "mut_of d mid = Some m"
    and "g \<in> set (registries d)" and "rg_state g = G_TOMBSTONED"
    and "rg_id g = registry_id (mu_tenant m) (registry_agent s (mu_agent m)) s k a"
    and "\<And>x. x \<in> set (owners d) \<Longrightarrow> so_mutation x \<noteq> mid"
  shows "g \<in> set (registries d') \<and>
    (\<exists>x \<in> set (owners d'). so_registry x = rg_id g \<and> so_mutation x = mid \<and> so_state x = S_ACTIVE) \<and>
    cleanups d' = cleanups d \<and> fst (apply_cleanup g d') = fst (apply_cleanup g d)"
proof -
  have "list_ex (\<lambda>x. same_physical x h \<or> rg_id x = rg_id g) (registries d)" for h
    using assms(3) by (auto simp: list_ex_iff)
  moreover have "\<not> list_ex (\<lambda>x. so_registry x = r \<and> so_mutation x = mid \<and> P x) (owners d)" for r P
    using assms(6) by (auto simp: list_ex_iff)
  ultimately have d': "d' = insert_artifact \<lparr>ar_mutation = mid, ar_store = s, ar_kind = k, ar_artifact = a\<rparr> d\<lparr>owners := owners d @
      [\<lparr>so_registry = rg_id g, so_mutation = mid, so_run = mu_run m, so_dataset = mu_dataset m,
         so_document = mu_document m, so_chunk = mu_chunk m, so_state = S_ACTIVE\<rparr>]\<rparr>"
    using assms(1,2,5)
    by (auto simp: record_artifact_def Let_def insert_owner_def insert_registry_def insert_artifact_def
        split: if_splits)
  then show ?thesis using assms(3)
    by (auto simp: insert_artifact_def apply_cleanup_def live_fact_def live_entity_def fact_mentions_def Let_def
        split: lane.splits)
qed

definition tombstone_db :: db where
  "tombstone_db = (work_db P_PROJECTING M_VALIDATED [lane_row SQL O_IN_FLIGHT (Some ''x'') 1])\<lparr>
     registries := [\<lparr>rg_id = registry_id ''t'' ''a'' VECTOR ENTITY_VECTOR ''e'', rg_tenant = ''t'', rg_agent = ''a'',
       rg_store = VECTOR, rg_kind = ENTITY_VECTOR, rg_physical = ''e'', rg_state = G_TOMBSTONED\<rparr>]\<rparr>"

lemma tombstone_survives_reregistration_witness:
  "\<exists>d'. record_artifact ''m'' VECTOR ENTITY_VECTOR ''e'' tombstone_db = Inr d' \<and>
    hd (registries tombstone_db) \<in> set (registries d')"
proof -
  have m: "mut_of tombstone_db ''m'' = Some ((received candidate1)\<lparr>mu_state := M_VALIDATED\<rparr>)"
    by (simp add: tombstone_db_def mut_of_def)
  have "\<exists>d'. record_artifact ''m'' VECTOR ENTITY_VECTOR ''e'' tombstone_db = Inr d'"
    by (simp add: record_artifact_def m fenced_mut_def fenced_run_def joined_run_state_def doc_purged_def
        Let_def doc_of_def run_state_of_def run_of_def)
      (simp add: tombstone_db_def)
  then obtain d' where r: "record_artifact ''m'' VECTOR ENTITY_VECTOR ''e'' tombstone_db = Inr d'" by blast
  have "hd (registries tombstone_db) \<in> set (registries d')"
    using tombstone_survives_reregistration [OF r m, of "hd (registries tombstone_db)"]
    by (simp add: tombstone_db_def registry_agent_def)
  then show ?thesis using r by blast
qed

text \<open>
  C9. After the purge transaction of a document no write for it gets through: the write fence
  raises, no artifact can be recorded and no lane completes for any mutation of the document.
\<close>

theorem purged_document_accepts_no_write:
  assumes "purge_document_tx tenant ds doc d = Inr (rs, d')" and "doc \<noteq> []"
    and "mut_of d' mid = Some m" and "mu_document m = Some doc"
  shows "write_allowed mid d' = Inl Fenced_Owner \<and> (\<exists>e. record_artifact mid s k a d' = Inl e) \<and>
    (outbox_of d' pid = Some p \<longrightarrow> ob_mutation p = mid \<longrightarrow>
      fst (complete_projection del vec gra now pid w tok outcome d') \<noteq> Inr True)"
proof -
  obtain ids d1 where p: "purge_mutations (\<lambda>m. mu_dataset m = ds \<and> mu_document m = Some doc) d = Inr (ids, d1)"
    and ex: "list_ex (\<lambda>c. dc_id c = doc \<and> dc_dataset c = ds \<and> dc_tenant c = tenant) (docs d)"
    and docs': "docs d' = upd (\<lambda>c. dc_id c = doc) (\<lambda>c. c\<lparr>dc_status := D_PURGED, dc_title := []\<rparr>) (docs d1)"
    using assms(1) by (auto simp: purge_document_tx_def Let_def bindE_Inr_iff split: if_splits)
  have same: "docs d1 = docs d" by (rule strip_life_sel [OF purge_mutations_frame [OF p]])
  have "find (\<lambda>c. dc_id c = doc) (docs d') = map_option (\<lambda>c. if dc_id c = doc then c\<lparr>dc_status := D_PURGED, dc_title := []\<rparr> else c)
      (find (\<lambda>c. dc_id c = doc) (docs d))"
    unfolding docs' same by (rule find_upd_key) simp
  moreover obtain c where c: "find (\<lambda>c. dc_id c = doc) (docs d) = Some c"
    using ex by (cases "find (\<lambda>c. dc_id c = doc) (docs d)") (auto simp: find_None_iff list_ex_iff)
  ultimately have dd: "map_option dc_status (doc_of d' doc) = Some D_PURGED"
    using find_SomeD [OF c] by (simp add: doc_of_def)
  then have f: "fenced d' m" "doc_purged d' (mu_document m)" using assms(2,4) by (simp_all add: fenced_def doc_purged_def)
  have "write_allowed mid d' = Inl Fenced_Owner" using assms(3,4) dd by (auto simp: write_allowed_def)
  moreover have "\<exists>e. record_artifact mid s k a d' = Inl e" using assms(3) f(2) by (auto simp: record_artifact_def)
  moreover have "fst (complete_projection del vec gra now pid w tok outcome d') \<noteq> Inr True"
    if own: "outbox_of d' pid = Some p" "ob_mutation p = mid"
  proof -
    obtain d2 where "complete_tx vec gra pid w tok outcome d' =
        Inr (Stale mid (filter (\<lambda>a. ar_mutation a = mid) (artifacts d')), d2)"
      using own assms(3) f(1) by (simp add: complete_tx_def)
    then show ?thesis by (auto simp: complete_projection_def Let_def split: prod.splits sum.splits)
  qed
  ultimately show ?thesis by blast
qed

definition purge_db :: db where
  "purge_db = (work_db P_PROJECTING M_SQL_APPLIED [lane_row VECTOR O_IN_FLIGHT (Some ''x'') 1])\<lparr>
     docs := [\<lparr>dc_id = ''d'', dc_tenant = ''t'', dc_dataset = ''s'', dc_ref = None, dc_title = ''n'', dc_status = D_ACTIVE\<rparr>]\<rparr>"

definition after_purge_db :: db where
  "after_purge_db = (case purge_document_tx ''t'' ''s'' ''d'' purge_db of Inl _ \<Rightarrow> empty_db | Inr (_, d) \<Rightarrow> d)"

lemmas purge_eval = purge_document_tx_def purge_mutations_def purge_runs_def distinct_rows_def transition_mutation_def
  mut_of_def cas_mutation_def mut_hit_def after_mutation_change_def recompute_run_def aggregate_state_def
  children_def run_state_of_def run_of_def transition_run_def cas_run_def run_hit_def Let_def

lemma purge_step: "purge_document_tx ''t'' ''s'' ''d'' purge_db = Inr ([''r''], after_purge_db)"
  and purge_mut: "\<exists>m. mut_of after_purge_db ''m'' = Some m \<and> mu_document m = Some ''d''"
  by (simp_all add: after_purge_db_def purge_db_def purge_eval received_def candidate1_def)

theorem purged_document_accepts_no_write_witness:
  "write_allowed ''m'' after_purge_db = Inl Fenced_Owner"
proof -
  obtain m where m: "mut_of after_purge_db ''m'' = Some m" "mu_document m = Some ''d''" using purge_mut by blast
  from purged_document_accepts_no_write [OF purge_step _ m] show ?thesis by simp
qed

end
