(* ===== verification/Dispatch.thy ===== *)
theory Dispatch imports Rollback begin

text \<open>
  The admission of raw logs and the durable dispatch queue of \<open>mesa_storage/dao.py\<close>: payload checks,
  capacity, deduplication, the atomic enqueue with its journal entry and receipt, the recovery of
  undispatched logs, claims and completions. Ids from \<open>uuid4\<close> are arguments; the JSON length of a
  value and the secret patterns are parameters.
\<close>

subsection \<open>Payload checks\<close>

datatype jval = JNull | JBool bool | JNum string | JText string | JList "jval list" | JDict "(string \<times> jval) list"

fun is_container :: "jval \<Rightarrow> bool" where
  "is_container (JList _) = True" | "is_container (JDict _) = True" | "is_container _ = False"

definition reserved_prefix :: "string \<Rightarrow> bool" where
  "reserved_prefix k \<longleftrightarrow> take 6 k = ''_mesa_''"

text \<open>\<open>_validate_metadata_depth\<close>: \<open>True\<close> when it does not raise.\<close>

fun depth_ok :: "(string \<times> jval) list \<Rightarrow> nat \<Rightarrow> bool" and value_ok :: "jval \<Rightarrow> nat \<Rightarrow> bool" where
  "depth_ok [] depth = (depth \<le> 2)"
| "depth_ok ((k, v) # m) depth = (depth \<le> 2 \<and> \<not> reserved_prefix k \<and> value_ok v depth \<and> depth_ok m depth)"
| "value_ok (JDict m) depth = depth_ok m (Suc depth)"
| "value_ok (JList xs) depth = (depth < 2 \<and> \<not> list_ex is_container xs)"
| "value_ok _ depth = True"

text \<open>Every key at any depth.\<close>

fun dict_keys :: "(string \<times> jval) list \<Rightarrow> string list" and value_keys :: "jval \<Rightarrow> string list"
  and item_keys :: "jval list \<Rightarrow> string list" where
  "dict_keys [] = []"
| "dict_keys ((k, v) # m) = k # value_keys v @ dict_keys m"
| "value_keys (JDict m) = dict_keys m"
| "value_keys (JList xs) = item_keys xs"
| "value_keys _ = []"
| "item_keys [] = []"
| "item_keys (v # vs) = value_keys v @ item_keys vs"

lemma flat_item_keys: "\<not> list_ex is_container xs \<Longrightarrow> item_keys xs = []"
proof (induction xs)
  case (Cons v vs)
  then show ?case by (cases v) auto
qed simp

lemma depth_ok_keys:
  "depth_ok m depth \<Longrightarrow> \<forall>k \<in> set (dict_keys m). \<not> reserved_prefix k"
  "value_ok v depth \<Longrightarrow> \<forall>k \<in> set (value_keys v). \<not> reserved_prefix k"
  by (induction m depth and v depth rule: depth_ok_value_ok.induct) (auto simp: flat_item_keys)

record payload =
  pl_tenant :: "string option"
  pl_agent :: "string option"
  pl_session :: "string option"
  pl_text :: string
  pl_metadata :: "(string \<times> jval) list"
  pl_bytes :: nat

definition text_member :: "string \<Rightarrow> (string \<times> jval) list \<Rightarrow> string option" where
  "text_member k m = (case map_of m k of Some (JText t) \<Rightarrow> Some t | _ \<Rightarrow> None)"

text \<open>\<open>_validate_write_payload\<close>.\<close>

definition payload_ok :: "((string \<times> jval) list \<Rightarrow> nat) \<Rightarrow> (string \<Rightarrow> (string \<times> jval) list \<Rightarrow> bool) \<Rightarrow> payload \<Rightarrow> bool" where
  "payload_ok json_length secret p \<longleftrightarrow> json_length (pl_metadata p) \<le> 16 * 1024 \<and> depth_ok (pl_metadata p) 1
     \<and> \<not> secret (pl_text p) (pl_metadata p)"


lemma accepted_keys: "payload_ok json_length secret p \<Longrightarrow> \<forall>k \<in> set (dict_keys (pl_metadata p)). \<not> reserved_prefix k"
  unfolding payload_ok_def by (blast dest: depth_ok_keys(1))

subsection \<open>Capacity\<close>

record policy =
  po_records :: nat
  po_bytes :: nat
  po_tenant_records :: nat
  po_tenant_bytes :: nat
  po_in_flight :: nat
  po_tenant_in_flight :: nat
  po_retry :: nat
  po_tenant_retry :: nat
  po_single :: nat

definition default_policy :: policy where
  "default_policy = \<lparr>po_records = 10000, po_bytes = 536870912, po_tenant_records = 2000,
    po_tenant_bytes = 134217728, po_in_flight = 32, po_tenant_in_flight = 8, po_retry = 2000,
    po_tenant_retry = 500, po_single = 8388608\<rparr>"

record usage =
  us_records :: nat
  us_bytes :: nat
  us_in_flight :: nat
  us_retry :: nat

definition active :: "queue_row \<Rightarrow> bool" where
  "active q \<longleftrightarrow> qu_state q \<in> {Q_ENQUEUED, Q_IN_FLIGHT, Q_RETRY_PENDING}"

definition charged :: "string option \<Rightarrow> queue_row \<Rightarrow> bool" where
  "charged tenant q \<longleftrightarrow> active q \<and> (tenant = None \<or> tenant = Some (qu_tenant q))"

definition queue_usage :: "string option \<Rightarrow> queue_row list \<Rightarrow> usage" where
  "queue_usage tenant t =
    \<lparr>us_records = rowcount (charged tenant) t,
     us_bytes = sum_list (map qu_bytes (filter (charged tenant) t)),
     us_in_flight = rowcount (\<lambda>q. charged tenant q \<and> qu_state q = Q_IN_FLIGHT) t,
     us_retry = rowcount (\<lambda>q. charged tenant q \<and> qu_state q = Q_RETRY_PENDING) t\<rparr>"

text \<open>\<open>_enforce_queue_capacity\<close>: the checks in order.\<close>

definition capacity_checks :: "usage \<Rightarrow> usage \<Rightarrow> nat \<Rightarrow> policy \<Rightarrow> (bool \<times> dao_error) list" where
  "capacity_checks g t n p =
    [(po_records p < us_records g + 1, Over_Capacity_Global),
     (po_bytes p < us_bytes g + n, Over_Capacity_Global),
     (po_in_flight p \<le> us_in_flight g, Over_Capacity_Global),
     (po_retry p \<le> us_retry g, Over_Capacity_Global),
     (po_tenant_records p < us_records t + 1, Over_Capacity_Tenant),
     (po_tenant_bytes p < us_bytes t + n, Over_Capacity_Tenant),
     (po_tenant_in_flight p \<le> us_in_flight t, Over_Capacity_Tenant),
     (po_tenant_retry p \<le> us_retry t, Over_Capacity_Tenant)]"

definition enforce_capacity :: "usage \<Rightarrow> usage \<Rightarrow> nat \<Rightarrow> policy \<Rightarrow> dao_error + unit" where
  "enforce_capacity g t n p =
    (if po_single p < n then Inl Record_Too_Large
     else case find fst (capacity_checks g t n p) of Some (_, e) \<Rightarrow> Inl e | None \<Rightarrow> Inr ())"

lemma enforce_capacity_fits:
  "enforce_capacity g t n p = Inr u \<Longrightarrow> us_records g + 1 \<le> po_records p \<and> us_bytes g + n \<le> po_bytes p
     \<and> us_records t + 1 \<le> po_tenant_records p \<and> us_bytes t + n \<le> po_tenant_bytes p \<and> n \<le> po_single p"
  by (auto simp: enforce_capacity_def capacity_checks_def split: if_splits)

subsection \<open>Admission\<close>

datatype admission = Deduplicated int | Deferred int string string

text \<open>The rows one admission or dispatch inserts; \<open>INTEGER PRIMARY KEY\<close> takes the next id.\<close>

definition next_log_id :: "db \<Rightarrow> int" where
  "next_log_id d = (if raw_logs d = [] then 1 else Max (set (map rl_id (raw_logs d))) + 1)"

definition fresh_log :: "int \<Rightarrow> string \<Rightarrow> string \<Rightarrow> payload \<Rightarrow> raw_log" where
  "fresh_log i agent tenant p =
    \<lparr>rl_id = i, rl_agent = agent, rl_tenant = tenant, rl_session = pl_session p,
     rl_memory_type = text_member ''memory_type'' (pl_metadata p),
     rl_idempotency = text_member ''idempotency_key'' (pl_metadata p),
     rl_content_hash = text_member ''content_sha256'' (pl_metadata p), rl_bytes = pl_bytes p,
     rl_status = W_DEFERRED, rl_token = None, rl_by = None, rl_lease = None, rl_attempts = 0, rl_error = None\<rparr>"

definition queued :: "int \<Rightarrow> string \<Rightarrow> string \<Rightarrow> string \<Rightarrow> string \<Rightarrow> int \<Rightarrow> nat \<Rightarrow> queue_row" where
  "queued now did qid tenant agent i n =
    \<lparr>qu_id = qid, qu_dispatch = did, qu_tenant = tenant, qu_agent = agent, qu_log = i, qu_bytes = n,
     qu_state = Q_ENQUEUED, qu_attempts = 0, qu_token = None, qu_by = None, qu_lease = None,
     qu_error = None, qu_created = now\<rparr>"

text \<open>The log an earlier delivery left, by id order.\<close>

definition same_delivery :: "string \<Rightarrow> string \<Rightarrow> payload \<Rightarrow> raw_log \<Rightarrow> bool" where
  "same_delivery agent tenant p r \<longleftrightarrow>
    rl_agent r = agent \<and> rl_tenant r = tenant \<and> pl_session p \<noteq> None \<and> rl_session r = pl_session p
    \<and> rl_memory_type r = text_member ''memory_type'' (pl_metadata p)
    \<and> ((text_member ''idempotency_key'' (pl_metadata p) \<noteq> None
         \<and> rl_idempotency r = text_member ''idempotency_key'' (pl_metadata p))
      \<or> (text_member ''content_sha256'' (pl_metadata p) \<noteq> None
         \<and> rl_content_hash r = text_member ''content_sha256'' (pl_metadata p)))"

definition existing_delivery :: "string \<Rightarrow> string \<Rightarrow> payload \<Rightarrow> db \<Rightarrow> raw_log option" where
  "existing_delivery agent tenant p d =
    (if truthy (text_member ''idempotency_key'' (pl_metadata p))
        \<or> truthy (text_member ''content_sha256'' (pl_metadata p))
     then find (same_delivery agent tenant p) (sort_key rl_id (raw_logs d)) else None)"

text \<open>\<open>tenant_id or str(payload.get("tenant_id") or agent_id)\<close>.\<close>

definition durable_tenant :: "string option \<Rightarrow> string \<Rightarrow> payload \<Rightarrow> string" where
  "durable_tenant tenant agent p =
    (if truthy tenant then the tenant else if truthy (pl_tenant p) then the (pl_tenant p) else agent)"

definition enqueue_log :: "int \<Rightarrow> string \<Rightarrow> string \<Rightarrow> string \<Rightarrow> string \<Rightarrow> payload \<Rightarrow> db \<Rightarrow> db" where
  "enqueue_log now did qid tenant agent p d =
    (let i = next_log_id d in
     d\<lparr>raw_logs := raw_logs d @ [fresh_log i agent tenant p],
       journals := journals d @ [\<lparr>jr_id = did, jr_log = i, jr_tenant = tenant, jr_agent = agent,
         jr_state = J_RECEIPT_RECORDED, jr_attempts = 1, jr_queue = Some qid\<rparr>],
       queue := queue d @ [queued now did qid tenant agent i (pl_bytes p)],
       receipts := receipts d @ [\<lparr>rc_dispatch = did, rc_queue = qid\<rparr>]\<rparr>)"

text \<open>The unique keys the four inserts must not hit; a driver error is reported as unavailable.\<close>

definition enqueue_conflict :: "string \<Rightarrow> string \<Rightarrow> db \<Rightarrow> bool" where
  "enqueue_conflict did qid d \<longleftrightarrow>
    list_ex (\<lambda>j. jr_id j = did \<or> jr_log j = next_log_id d) (journals d)
    \<or> list_ex (\<lambda>q. qu_id q = qid \<or> qu_dispatch q = did) (queue d)
    \<or> list_ex (\<lambda>r. rc_dispatch r = did \<or> rc_queue r = qid) (receipts d)"

definition admit_tx :: "int \<Rightarrow> string \<Rightarrow> string \<Rightarrow> policy \<Rightarrow> string \<Rightarrow> string \<Rightarrow> payload \<Rightarrow> db
    \<Rightarrow> dao_error + (admission \<times> db)" where
  "admit_tx now did qid pol tenant agent p d =
    (case existing_delivery agent tenant p d of
      Some r \<Rightarrow> Inr (Deduplicated (rl_id r), d)
    | None \<Rightarrow> bindE (enforce_capacity (queue_usage None (queue d)) (queue_usage (Some tenant) (queue d)) (pl_bytes p) pol)
        (\<lambda>_. if enqueue_conflict did qid d then Inl Queue_Unavailable
             else Inr (Deferred (next_log_id d) did qid, enqueue_log now did qid tenant agent p d)))"

definition admit_raw_log ::
  "((string \<times> jval) list \<Rightarrow> nat) \<Rightarrow> (string \<Rightarrow> (string \<times> jval) list \<Rightarrow> bool) \<Rightarrow> int \<Rightarrow> string \<Rightarrow> string
    \<Rightarrow> policy \<Rightarrow> string option \<Rightarrow> string \<Rightarrow> payload \<Rightarrow> db \<Rightarrow> dao_error + (admission \<times> db)" where
  "admit_raw_log json_length secret now did qid pol tenant agent p d =
    (if \<not> valid_agent agent then Inl Invalid_Agent
     else if pl_tenant p \<notin> {None, Some (durable_tenant tenant agent p)} then Inl Tenant_Mismatch
     else if pl_agent p \<notin> {None, Some agent} then Inl Tenant_Mismatch
     else if \<not> payload_ok json_length secret p then Inl Invalid_Payload
     else admit_tx now did qid pol (durable_tenant tenant agent p) agent p d)"

subsection \<open>Dispatch of a recorded log\<close>

definition journal_for :: "int \<Rightarrow> string \<Rightarrow> db \<Rightarrow> journal option" where
  "journal_for i agent d = find (\<lambda>j. jr_log j = i \<and> jr_agent j = agent) (journals d)"

text \<open>\<open>INSERT OR IGNORE\<close> of the queue row and of the receipt.\<close>

definition insert_queued :: "queue_row \<Rightarrow> db \<Rightarrow> db" where
  "insert_queued q d =
    (if list_ex (\<lambda>x. qu_id x = qu_id q \<or> qu_dispatch x = qu_dispatch q
         \<or> (qu_agent x = qu_agent q \<and> qu_log x = qu_log q)) (queue d) then d
     else d\<lparr>queue := queue d @ [q]\<rparr>)"

definition insert_receipt :: "receipt \<Rightarrow> db \<Rightarrow> db" where
  "insert_receipt r d =
    (if list_ex (\<lambda>x. rc_dispatch x = rc_dispatch r \<or> rc_queue x = rc_queue r) (receipts d) then d
     else d\<lparr>receipts := receipts d @ [r]\<rparr>)"

definition open_journal :: "string \<Rightarrow> string \<Rightarrow> int \<Rightarrow> db \<Rightarrow> dao_error + (journal \<times> db)" where
  "open_journal did agent i d =
    (case journal_for i agent d of
      Some j \<Rightarrow> Inr (j, d)
    | None \<Rightarrow>
        if list_ex (\<lambda>j. jr_id j = did \<or> jr_log j = i) (journals d) then Inl Integrity_Error
        else let j = \<lparr>jr_id = did, jr_log = i, jr_tenant = agent, jr_agent = agent, jr_state = J_PENDING,
               jr_attempts = 0, jr_queue = None\<rparr>
             in Inr (j, d\<lparr>journals := journals d @ [j]\<rparr>))"

text \<open>\<open>journal["queue_record_id"] or str(uuid.uuid4())\<close>.\<close>

definition queue_id_of :: "journal \<Rightarrow> string \<Rightarrow> string" where
  "queue_id_of j qid = (if truthy (jr_queue j) then the (jr_queue j) else qid)"

definition deliver :: "int \<Rightarrow> string \<Rightarrow> string \<Rightarrow> int \<Rightarrow> nat \<Rightarrow> journal \<Rightarrow> db \<Rightarrow> db" where
  "deliver now qid agent i n j d =
    (let q = queue_id_of j qid;
         d1 = insert_receipt \<lparr>rc_dispatch = jr_id j, rc_queue = q\<rparr>
               (insert_queued (queued now (jr_id j) q agent agent i n) d)
     in d1\<lparr>journals := upd (\<lambda>x. jr_id x = jr_id j)
          (\<lambda>x. x\<lparr>jr_state := J_RECEIPT_RECORDED, jr_attempts := Suc (jr_attempts x), jr_queue := Some q\<rparr>)
          (journals d1)\<rparr>)"

definition dispatch_raw_log ::
  "int \<Rightarrow> string \<Rightarrow> string \<Rightarrow> policy \<Rightarrow> string \<Rightarrow> string \<Rightarrow> int \<Rightarrow> db \<Rightarrow> dao_error + (journal option \<times> db)" where
  "dispatch_raw_log now did qid pol worker agent i d =
    (if \<not> valid_agent agent then Inl Invalid_Agent
     else if worker = [] then Inl Invalid_Bounds
     else case find (\<lambda>r. rl_id r = i \<and> rl_agent r = agent) (raw_logs d) of
       None \<Rightarrow> Inl Unknown_Raw_Log
     | Some r \<Rightarrow> bindE (open_journal did agent i d) (\<lambda>(j, d1).
         if jr_state j = J_RECEIPT_RECORDED then Inr (journal_for i agent d1, d1)
         else bindE (enforce_capacity (queue_usage None (queue d1)) (queue_usage (Some agent) (queue d1)) (rl_bytes r) pol)
           (\<lambda>_. let d2 = deliver now qid agent i (rl_bytes r) j d1 in Inr (journal_for i agent d2, d2))))"

text \<open>\<open>recover_raw_log_dispatches\<close>: one transaction per pending log, with its two fresh ids.\<close>

definition undispatched :: "db \<Rightarrow> nat \<Rightarrow> raw_log list" where
  "undispatched d limit = take limit (sort_key rl_id (filter (\<lambda>r. rl_status r = W_DEFERRED \<and>
     \<not> list_ex (\<lambda>j. jr_log j = rl_id r \<and> jr_state j = J_RECEIPT_RECORDED) (journals d)) (raw_logs d)))"

fun dispatch_each :: "int \<Rightarrow> string \<Rightarrow> (raw_log \<times> string \<times> string) list \<Rightarrow> db \<Rightarrow> (dao_error + unit) \<times> db" where
  "dispatch_each now worker [] d = (Inr (), d)"
| "dispatch_each now worker ((r, did, qid) # rest) d =
    (case run_tx (dispatch_raw_log now did qid default_policy worker (rl_agent r) (rl_id r)) d of
      (Inl e, d') \<Rightarrow> (Inl e, d')
    | (Inr _, d') \<Rightarrow> dispatch_each now worker rest d')"

definition recover_dispatches ::
  "int \<Rightarrow> (nat \<Rightarrow> string \<times> string) \<Rightarrow> string \<Rightarrow> nat \<Rightarrow> db \<Rightarrow> (dao_error + unit) \<times> db" where
  "recover_dispatches now fresh worker limit d =
    (if worker = [] \<or> \<not> (1 \<le> limit \<and> limit \<le> 1000) then (Inl Invalid_Bounds, d)
     else dispatch_each now worker (map (\<lambda>(k, r). (r, fresh k)) (enumerate 0 (undispatched d limit))) d)"

subsection \<open>Queue claims\<close>

definition queue_free :: "int \<Rightarrow> queue_row \<Rightarrow> bool" where
  "queue_free now q \<longleftrightarrow> qu_state q = Q_ENQUEUED
     \<or> (qu_state q = Q_RETRY_PENDING \<and> (qu_lease q = None \<or> lease_expired now (qu_lease q)))
     \<or> (qu_state q = Q_IN_FLIGHT \<and> lease_expired now (qu_lease q))"

definition grab_queue :: "string \<Rightarrow> string \<Rightarrow> int \<Rightarrow> queue_row \<Rightarrow> queue_row" where
  "grab_queue tok w until q = q\<lparr>qu_state := Q_IN_FLIGHT, qu_by := Some w, qu_token := Some tok,
     qu_lease := Some until, qu_attempts := Suc (qu_attempts q)\<rparr>"

definition queue_held :: "string \<Rightarrow> string \<Rightarrow> queue_row \<Rightarrow> bool" where
  "queue_held tok w q \<longleftrightarrow> qu_state q = Q_IN_FLIGHT \<and> qu_by q = Some w \<and> qu_token q = Some tok"

interpretation dispatching: leased qu_id queue_free grab_queue queue_held
  by unfold_locales (auto simp: grab_queue_def queue_free_def queue_held_def)

definition claim_dispatch ::
  "int \<Rightarrow> string \<Rightarrow> string \<Rightarrow> nat \<Rightarrow> int \<Rightarrow> db \<Rightarrow> dao_error + (queue_row list \<times> db)" where
  "claim_dispatch now tok worker limit secs d =
    (if worker = [] \<or> \<not> (1 \<le> limit \<and> limit \<le> 1000) \<or> \<not> (1 \<le> secs \<and> secs \<le> 3600)
     then Inl Invalid_Bounds
     else
       let ids = map qu_id (take limit (sort_key qu_created (filter (queue_free now) (queue d))));
           (claimed, t) = claim_loop qu_id (queue_free now) (grab_queue tok worker (now + secs)) ids (queue d);
           d' = d\<lparr>queue := t\<rparr>
       in if claimed = [] then Inr ([], d') else Inr (filter (\<lambda>q. qu_id q \<in> set claimed) t, d'))"

subsection \<open>Queue completions\<close>

definition settle_queue :: "string \<Rightarrow> string \<Rightarrow> queue_state \<Rightarrow> int option \<Rightarrow> string option \<Rightarrow> db \<Rightarrow> db" where
  "settle_queue qid tok s lease err d =
    d\<lparr>queue := upd (\<lambda>q. qu_id q = qid \<and> qu_token q = Some tok)
       (\<lambda>q. q\<lparr>qu_state := s, qu_token := None, qu_by := None, qu_lease := lease, qu_error := err\<rparr>) (queue d)\<rparr>"

text \<open>The mutations of a log whose dispatch is exhausted; validated ones are left alone.\<close>

definition bury_mutations :: "queue_row \<Rightarrow> string \<Rightarrow> db \<Rightarrow> dao_error + db" where
  "bury_mutations q outcome d =
    foldE (\<lambda>m d. if mu_state m \<in> {M_RECEIVED, M_EXTRACTED, M_RETRY_PENDING}
        then bindE (transition_mutation (mu_id m) M_DEAD_LETTER (Some (take 120 outcome)) d) (\<lambda>(_, d'). Inr d')
        else Inr d)
      (filter (\<lambda>m. mu_raw_log m = Some (qu_log q) \<and> mu_agent m = qu_agent q \<and> mu_tenant m = qu_tenant q) (muts d)) d"

definition fail_log :: "queue_row \<Rightarrow> string \<Rightarrow> db \<Rightarrow> db" where
  "fail_log q outcome d =
    d\<lparr>raw_logs := upd (\<lambda>r. rl_id r = qu_log q \<and> rl_agent r = qu_agent q
          \<and> rl_status r \<in> {W_QUEUED, W_DEFERRED, W_PROCESSING, W_DISPATCHED})
       (\<lambda>r. r\<lparr>rl_status := W_FAILED None, rl_token := None, rl_by := None, rl_lease := None,
          rl_error := Some (take 120 outcome)\<rparr>) (raw_logs d)\<rparr>"

definition insert_completion :: "completion \<Rightarrow> db \<Rightarrow> db" where
  "insert_completion c d =
    (if list_ex (\<lambda>x. cp_queue x = cp_queue c \<or> cp_dispatch x = cp_dispatch c) (completions d) then d
     else d\<lparr>completions := completions d @ [c]\<rparr>)"

definition complete_dispatch ::
  "int \<Rightarrow> string \<Rightarrow> string \<Rightarrow> string \<Rightarrow> string \<Rightarrow> bool \<Rightarrow> db \<Rightarrow> dao_error + (bool \<times> db)" where
  "complete_dispatch now qid w tok outcome verified d =
    (if w = [] \<or> tok = [] then Inl Invalid_Bounds
     else case find (\<lambda>q. qu_id q = qid) (queue d) of
       None \<Rightarrow> Inr (False, d)
     | Some q \<Rightarrow>
         if \<not> queue_held tok w q then Inr (False, d)
         else if \<not> verified then
           (if 5 \<le> qu_attempts q
            then bindE (bury_mutations q outcome (settle_queue qid tok Q_DEAD_LETTER None (Some (take 120 outcome)) d))
              (\<lambda>d2. Inr (False, fail_log q outcome d2))
            else Inr (False, settle_queue qid tok Q_RETRY_PENDING (Some (now + retry_delay (qu_attempts q)))
              (Some (take 120 outcome)) d))
         else
           let d1 = insert_completion \<lparr>cp_queue = qid, cp_dispatch = qu_dispatch q, cp_worker = w, cp_token = tok,
                 cp_outcome = outcome, cp_attempts = qu_attempts q\<rparr> d;
               hit = (\<lambda>x. qu_id x = qid \<and> qu_state x = Q_IN_FLIGHT \<and> qu_token x = Some tok)
           in Inr (rowcount hit (queue d1) = 1, d1\<lparr>queue := upd hit
                (\<lambda>x. x\<lparr>qu_state := Q_FINALIZED, qu_token := None, qu_by := None, qu_lease := None\<rparr>) (queue d1)\<rparr>))"

end
