(* ===== verification/Dispatch_Properties.thy ===== *)
theory Dispatch_Properties imports Dispatch Lifecycle_Facts begin

text \<open>
  The dispatch queue keeps its capacity whatever sequence of operations runs, repeated deliveries
  are recognised, a queue row is finalized only with its receipt, and an exhausted row takes its
  log and its unvalidated mutations with it.
\<close>

subsection \<open>Load\<close>

text \<open>\<open>lighter a b\<close>: going from \<open>a\<close> to \<open>b\<close> no tenant's load grows.\<close>

definition lighter :: "db \<Rightarrow> db \<Rightarrow> bool" where
  "lighter a b \<longleftrightarrow> (\<forall>tn. us_records (queue_usage tn (queue b)) \<le> us_records (queue_usage tn (queue a))
     \<and> us_bytes (queue_usage tn (queue b)) \<le> us_bytes (queue_usage tn (queue a)))"

interpretation lighter: handler_frame lighter
proof
  show "lighter s s" for s by (simp add: lighter_def)
  show "lighter s t \<Longrightarrow> lighter t u \<Longrightarrow> lighter s u" for s t u
    unfolding lighter_def by (meson order_trans)
qed

lemma lighter_same: "queue b = queue a \<Longrightarrow> lighter a b"
  by (simp add: lighter_def)

lemma usage_upd:
  assumes "\<And>q. P q \<Longrightarrow> active (f q) \<Longrightarrow> active q" and "\<And>q. qu_tenant (f q) = qu_tenant q" "\<And>q. qu_bytes (f q) = qu_bytes q"
  shows "us_records (queue_usage tn (upd P f t)) \<le> us_records (queue_usage tn t) \<and>
    us_bytes (queue_usage tn (upd P f t)) \<le> us_bytes (queue_usage tn t)"
  using assms by (induction t) (auto simp: queue_usage_def charged_def le_SucI intro: trans_le_add2)

lemma lighter_upd:
  assumes "\<And>q. P q \<Longrightarrow> active (f q) \<Longrightarrow> active q" "\<And>q. qu_tenant (f q) = qu_tenant q" "\<And>q. qu_bytes (f q) = qu_bytes q"
    and "queue b = upd P f (queue a)"
  shows "lighter a b"
  using usage_upd [of P f, OF assms(1-3)] by (simp add: lighter_def assms(4))

lemma claim_loop_lighter:
  assumes "queue b = snd (claim_loop qu_id (queue_free now) (grab_queue tok w until) ids (queue a))"
  shows "lighter a b"
proof -
  have "us_records (queue_usage tn (snd (claim_loop qu_id (queue_free now) (grab_queue tok w until) ids t)))
        \<le> us_records (queue_usage tn t) \<and>
      us_bytes (queue_usage tn (snd (claim_loop qu_id (queue_free now) (grab_queue tok w until) ids t)))
        \<le> us_bytes (queue_usage tn t)" for tn t
  proof (induction ids arbitrary: t)
    case (Cons i ids)
    have "us_records (queue_usage tn (upd (\<lambda>q. qu_id q = i \<and> queue_free now q) (grab_queue tok w until) t))
        \<le> us_records (queue_usage tn t) \<and>
      us_bytes (queue_usage tn (upd (\<lambda>q. qu_id q = i \<and> queue_free now q) (grab_queue tok w until) t))
        \<le> us_bytes (queue_usage tn t)"
      by (rule usage_upd) (auto simp: active_def queue_free_def grab_queue_def)
    then show ?case using Cons.IH [of "upd (\<lambda>q. qu_id q = i \<and> queue_free now q) (grab_queue tok w until) t"]
      by (simp add: Let_def split_def)
  qed simp
  then show ?thesis by (simp add: lighter_def assms)
qed

lemma settle_lighter: "s \<noteq> Q_ENQUEUED \<Longrightarrow> \<forall>q \<in> set (queue d). qu_id q = qid \<longrightarrow> qu_token q = Some tok \<longrightarrow> active q
    \<Longrightarrow> lighter d (settle_queue qid tok s lease err d)"
proof -
  assume a: "\<forall>q \<in> set (queue d). qu_id q = qid \<longrightarrow> qu_token q = Some tok \<longrightarrow> active q"
  have eq: "upd (\<lambda>q. qu_id q = qid \<and> qu_token q = Some tok) f (queue d) =
      upd (\<lambda>q. qu_id q = qid \<and> qu_token q = Some tok \<and> active q) f (queue d)" for f
    by (rule upd_cong) (use a in auto)
  show ?thesis
    by (rule lighter_upd [where P = "\<lambda>q. qu_id q = qid \<and> qu_token q = Some tok \<and> active q"
          and f = "\<lambda>q. q\<lparr>qu_state := s, qu_token := None, qu_by := None, qu_lease := lease, qu_error := err\<rparr>"])
      (simp_all add: settle_queue_def eq)
qed

lemma bury_mutations_queue: "bury_mutations q outcome d = Inr d' \<Longrightarrow> strip_life d' = strip_life d"
proof -
  assume "bury_mutations q outcome d = Inr d'"
  then show ?thesis unfolding bury_mutations_def
    by (rule foldE_invariant [where I = "\<lambda>x. strip_life x = strip_life d", rotated 2])
      (auto simp: bindE_Inr_iff split: if_splits dest!: transition_mutation_frame)
qed

lemma complete_dispatch_lighter:
  assumes "complete_dispatch now qid w tok outcome verified d = Inr (ok, d')" and "distinct (map qu_id (queue d))"
  shows "lighter d d'"
proof -
  consider "queue d' = queue d"
    | q where "find (\<lambda>q. qu_id q = qid) (queue d) = Some q" "queue_held tok w q"
      "\<exists>s lease err. s \<noteq> Q_ENQUEUED \<and> queue d' = queue (settle_queue qid tok s lease err d)"
    | "queue d' = upd (\<lambda>x. qu_id x = qid \<and> qu_state x = Q_IN_FLIGHT \<and> qu_token x = Some tok)
         (\<lambda>x. x\<lparr>qu_state := Q_FINALIZED, qu_token := None, qu_by := None, qu_lease := None\<rparr>) (queue d)"
  proof (cases "find (\<lambda>q. qu_id q = qid) (queue d)")
    case None
    then show thesis using assms(1) that(1) by (auto simp: complete_dispatch_def split: if_splits)
  next
    case (Some q)
    have bury: "queue (fail_log q outcome d2) = queue e" if "bury_mutations q outcome e = Inr d2" for d2 e
      using strip_life_sel(13) [OF bury_mutations_queue [OF that]] by (simp add: fail_log_def)
    show thesis
    proof (cases "queue_held tok w q")
      case False
      then show thesis using assms(1) Some that(1) by (auto simp: complete_dispatch_def split: if_splits)
    next
      case True
      show thesis
      proof (cases verified)
        case v: True
        show thesis by (rule that(3))
          (use assms(1) Some True v in \<open>auto simp: complete_dispatch_def Let_def insert_completion_def split: if_splits\<close>)
      next
        case False
        have "\<exists>s lease err. s \<noteq> Q_ENQUEUED \<and> queue d' = queue (settle_queue qid tok s lease err d)"
        proof (cases "5 \<le> qu_attempts q")
          case five: True
          then obtain e where "bury_mutations q outcome (settle_queue qid tok Q_DEAD_LETTER None
              (Some (take 120 outcome)) d) = Inr e" "d' = fail_log q outcome e"
            using assms(1) Some True False by (auto simp: complete_dispatch_def bindE_Inr_iff split: if_splits)
          then have "queue d' = queue (settle_queue qid tok Q_DEAD_LETTER None (Some (take 120 outcome)) d)"
            using bury by simp
          then show ?thesis by blast
        next
          case few: False
          then have "queue d' = queue (settle_queue qid tok Q_RETRY_PENDING (Some (now + retry_delay (qu_attempts q)))
              (Some (take 120 outcome)) d)"
            using assms(1) Some True False by (auto simp: complete_dispatch_def split: if_splits)
          then show ?thesis by blast
        qed
        then show thesis by (rule that(2) [OF Some True])
      qed
    qed
  qed
  then show ?thesis
  proof cases
    case 1
    then show ?thesis by (rule lighter_same)
  next
    case (2 q)
    then obtain s lease err where s: "s \<noteq> Q_ENQUEUED" "queue d' = queue (settle_queue qid tok s lease err d)" by blast
    have "x = q" if "x \<in> set (queue d)" "qu_id x = qid" for x
      using find_SomeD [OF 2(1)] same_row [OF assms(2) that(1), of q] that(2) by simp
    then have "lighter d (settle_queue qid tok s lease err d)"
      using 2(2) s(1) by (intro settle_lighter) (auto simp: queue_held_def active_def)
    then show ?thesis using s(2) by (simp add: lighter_def)
  next
    case 3
    then show ?thesis by (rule lighter_upd [rotated 3]) (simp_all add: active_def)
  qed
qed

subsection \<open>Capacity\<close>

text \<open>The operations on the queue, each a transaction that committed.\<close>

inductive queue_step :: "policy \<Rightarrow> db \<Rightarrow> db \<Rightarrow> bool" for pol where
  admit: "admit_raw_log json_length secret now did qid pol tn agent p d = Inr (a, d') \<Longrightarrow> queue_step pol d d'"
| dispatch: "dispatch_raw_log now did qid pol w agent i d = Inr (j, d') \<Longrightarrow> queue_step pol d d'"
| claim: "claim_dispatch now tok w limit secs d = Inr (rs, d') \<Longrightarrow> queue_step pol d d'"
| complete: "complete_dispatch now qid w tok outcome verified d = Inr (ok, d') \<Longrightarrow> queue_step pol d d'"
| restart: "recover_in_flight d = (n, d') \<Longrightarrow> queue_step pol d d'"

definition fits :: "policy \<Rightarrow> queue_row list \<Rightarrow> bool" where
  "fits pol t \<longleftrightarrow>
    us_records (queue_usage None t) \<le> po_records pol \<and> us_bytes (queue_usage None t) \<le> po_bytes pol \<and>
    (\<forall>tn. us_records (queue_usage (Some tn) t) \<le> po_tenant_records pol \<and>
          us_bytes (queue_usage (Some tn) t) \<le> po_tenant_bytes pol)"

lemma lighter_fits: "lighter a b \<Longrightarrow> fits pol (queue a) \<Longrightarrow> fits pol (queue b)"
  unfolding lighter_def fits_def by (meson order_trans)

lemma usage_append:
  "us_records (queue_usage tn (t @ [q])) = us_records (queue_usage tn t) + (if charged tn q then 1 else 0)"
  "us_bytes (queue_usage tn (t @ [q])) = us_bytes (queue_usage tn t) + (if charged tn q then qu_bytes q else 0)"
  by (simp_all add: queue_usage_def rowcount_def)

lemma enqueue_fits:
  assumes "enforce_capacity (queue_usage None t) (queue_usage (Some tn) t) n pol = Inr u" and "fits pol t"
  shows "fits pol (t @ [queued now did qid tn agent i n])"
  using enforce_capacity_fits [OF assms(1)] assms(2)
  by (auto simp: fits_def usage_append charged_def queued_def active_def)

definition queue_ids_ok :: "db \<Rightarrow> bool" where
  "queue_ids_ok d \<longleftrightarrow> distinct (map qu_id (queue d))"

lemma queue_key: "queue_ids_ok a \<Longrightarrow> map qu_id (queue b) = map qu_id (queue a) \<Longrightarrow> queue_ids_ok b"
  by (simp add: queue_ids_ok_def)

lemma complete_dispatch_ids:
  assumes "complete_dispatch now qid w tok outcome verified d = Inr (ok, d')"
  shows "map qu_id (queue d') = map qu_id (queue d)"
proof -
  have s: "map qu_id (queue (settle_queue qid tok s l e d)) = map qu_id (queue d)" for s l e
    by (simp add: settle_queue_def table_simps)
  have b: "map qu_id (queue (fail_log q outcome d2)) = map qu_id (queue e)" if "bury_mutations q outcome e = Inr d2" for q e d2
    using strip_life_sel(13) [OF bury_mutations_queue [OF that]] by (simp add: fail_log_def)
  show ?thesis using assms s b
    by (auto simp: complete_dispatch_def Let_def bindE_Inr_iff insert_completion_def table_simps
        split: option.splits if_splits)
qed

lemma open_journal_queue: "open_journal did agent i d = Inr (j, d') \<Longrightarrow> queue d' = queue d"
  by (auto simp: open_journal_def Let_def split: option.splits if_splits)

lemma deliver_queue:
  "queue (deliver now qid agent i n j d) = queue (insert_queued (queued now (jr_id j) (queue_id_of j qid) agent agent i n) d)"
  by (simp add: deliver_def Let_def insert_receipt_def)

lemma admit_tx_cases:
  assumes "admit_tx now did qid pol tenant agent p d = Inr (a, d')"
  obtains (dup) r where "existing_delivery agent tenant p d = Some r" "a = Deduplicated (rl_id r)" "d' = d"
    | (new) "existing_delivery agent tenant p d = None"
        "enforce_capacity (queue_usage None (queue d)) (queue_usage (Some tenant) (queue d)) (pl_bytes p) pol = Inr ()"
        "\<not> enqueue_conflict did qid d" "a = Deferred (next_log_id d) did qid"
        "d' = enqueue_log now did qid tenant agent p d"
proof (cases "existing_delivery agent tenant p d")
  case None
  show thesis
  proof (cases "enforce_capacity (queue_usage None (queue d)) (queue_usage (Some tenant) (queue d)) (pl_bytes p) pol")
    case (Inl e)
    then show thesis using assms None by (simp add: admit_tx_def)
  next
    case (Inr u)
    have "\<not> enqueue_conflict did qid d \<and> a = Deferred (next_log_id d) did qid \<and>
        d' = enqueue_log now did qid tenant agent p d"
      using assms(1) unfolding admit_tx_def None Inr option.case bindE_simps
      by (cases "enqueue_conflict did qid d") simp_all
    then show thesis using new [OF None] Inr by (cases u) blast
  qed
next
  case (Some r)
  then have "a = Deduplicated (rl_id r) \<and> d' = d" using assms(1) by (simp add: admit_tx_def)
  then show thesis using dup [OF Some] by blast
qed

lemma dispatch_cases:
  assumes "dispatch_raw_log now did qid pol w agent i d = Inr (j, d')"
  obtains (old) j0 where "open_journal did agent i d = Inr (j0, d')"
    | (delivered) r :: raw_log and j0 d1 where "open_journal did agent i d = Inr (j0, d1)"
        "enforce_capacity (queue_usage None (queue d1)) (queue_usage (Some agent) (queue d1)) (rl_bytes r) pol = Inr ()"
        "d' = deliver now qid agent i (rl_bytes r) j0 d1"
proof -
  obtain r where r: "find (\<lambda>r. rl_id r = i \<and> rl_agent r = agent) (raw_logs d) = Some r"
    and g: "valid_agent agent" "w \<noteq> []"
    using assms by (simp add: dispatch_raw_log_def split: if_splits option.splits)
  note body = assms [unfolded dispatch_raw_log_def r option.case]
  obtain j0 d1 where o: "open_journal did agent i d = Inr (j0, d1)"
    using body g by (cases "open_journal did agent i d") auto
  show thesis
  proof (cases "jr_state j0 = J_RECEIPT_RECORDED")
    case True
    then show thesis using body g o old by simp
  next
    case False
    then obtain u where e: "enforce_capacity (queue_usage None (queue d1)) (queue_usage (Some agent) (queue d1))
        (rl_bytes r) pol = Inr u"
      using body g o by (cases "enforce_capacity (queue_usage None (queue d1)) (queue_usage (Some agent) (queue d1))
        (rl_bytes r) pol") auto
    have "d' = deliver now qid agent i (rl_bytes r) j0 d1"
      using body g o False e by (simp add: Let_def)
    then show thesis using delivered [OF o] e by simp
  qed
qed

lemma queue_step_fits:
  assumes "queue_step pol d d'" and "queue_ids_ok d" and "fits pol (queue d)"
  shows "queue_ids_ok d' \<and> fits pol (queue d')"
  using assms
proof (cases rule: queue_step.cases)
  case (admit json_length secret now did qid tn agent p a)
  then have "admit_tx now did qid pol (durable_tenant tn agent p) agent p d = Inr (a, d')"
    by (simp add: admit_raw_log_def split: if_splits)
  then show ?thesis
  proof (cases rule: admit_tx_cases)
    case (dup r)
    then show ?thesis using assms by simp
  next
    case new
    then have q: "queue d' = queue d @ [queued now did qid (durable_tenant tn agent p) agent (next_log_id d) (pl_bytes p)]"
      by (simp add: enqueue_log_def Let_def)
    have "qid \<notin> qu_id ` set (queue d)" using new(3) by (auto simp: enqueue_conflict_def list_ex_iff)
    then show ?thesis unfolding q queue_ids_ok_def
      using assms(2) enqueue_fits [OF new(2) assms(3)] by (simp add: queue_ids_ok_def queued_def)
  qed
next
  case (dispatch now did qid w agent i j)
  from dispatch show ?thesis
  proof (cases rule: dispatch_cases)
    case (old j0)
    then show ?thesis using open_journal_queue assms by (simp add: queue_ids_ok_def)
  next
    case (delivered r j0 d1)
    let ?q = "queued now (jr_id j0) (queue_id_of j0 qid) agent agent i (rl_bytes r)"
    have q1: "queue d1 = queue d" by (rule open_journal_queue [OF delivered(1)])
    have e: "enforce_capacity (queue_usage None (queue d)) (queue_usage (Some agent) (queue d)) (rl_bytes r) pol = Inr ()"
      using delivered(2) q1 by simp
    have "queue d' = queue d \<or> qu_id ?q \<notin> qu_id ` set (queue d) \<and> queue d' = queue d @ [?q]"
      unfolding delivered(3) deliver_queue using q1 by (auto simp: insert_queued_def list_ex_iff)
    then show ?thesis
    proof
      assume "queue d' = queue d"
      then show ?thesis using assms by (simp add: queue_ids_ok_def)
    next
      assume q: "qu_id ?q \<notin> qu_id ` set (queue d) \<and> queue d' = queue d @ [?q]"
      then have "queue_ids_ok d'" using assms(2) by (simp add: queue_ids_ok_def)
      moreover have "fits pol (queue d @ [?q])" by (rule enqueue_fits [OF e assms(3)])
      ultimately show ?thesis using q by simp
    qed
  qed
next
  case (claim now tok w limit secs rs)
  let ?ids = "map qu_id (take limit (sort_key qu_created (filter (queue_free now) (queue d))))"
  have q: "queue d' = snd (claim_loop qu_id (queue_free now) (grab_queue tok w (now + secs)) ?ids (queue d))"
    using claim by (auto simp: claim_dispatch_def Let_def split_def split: if_splits)
  have "map qu_id (queue d') = map qu_id (queue d)"
    unfolding q by (rule claim_loop_keys) (rule dispatching.key_grab)
  then show ?thesis using lighter_fits [OF claim_loop_lighter [OF q] assms(3)] queue_key [OF assms(2)] by blast
next
  case (complete now qid w tok outcome verified ok)
  then show ?thesis
    using lighter_fits [OF complete_dispatch_lighter [OF complete] assms(3)] assms(2)
      queue_key [OF assms(2) complete_dispatch_ids [OF complete]] by (simp add: queue_ids_ok_def)
next
  case (restart n)
  let ?f = "\<lambda>q. q\<lparr>qu_state := Q_RETRY_PENDING, qu_token := None, qu_by := None, qu_lease := None\<rparr>"
  have q: "queue d' = upd (\<lambda>q. qu_state q = Q_IN_FLIGHT) ?f (queue d)"
    using restart by (auto simp: recover_in_flight_def)
  have "lighter d d'" by (rule lighter_upd [OF _ _ _ q]) (simp_all add: active_def)
  moreover have "map qu_id (queue d') = map qu_id (queue d)" by (simp add: q table_simps)
  ultimately show ?thesis using lighter_fits assms(2,3) queue_key by blast
qed

text \<open>
  C10. The dispatch queue never exceeds its capacity: starting from an empty database, whatever
  sequence of admissions, dispatches, claims, completions and restarts commits, the pending records
  and bytes stay within the policy's global limits and within its limits for every tenant.
\<close>

theorem capacity_never_exceeded:
  assumes "(queue_step pol)\<^sup>*\<^sup>* empty_db d"
  shows "fits pol (queue d)"
proof -
  have "queue_ids_ok d \<and> fits pol (queue d)"
    using assms
  proof (induction rule: rtranclp_induct)
    case base
    show ?case by (simp add: queue_ids_ok_def fits_def queue_usage_def empty_db_def)
  next
    case (step y z)
    then show ?case using queue_step_fits by blast
  qed
  then show ?thesis by simp
qed

definition hello :: payload where
  "hello = \<lparr>pl_tenant = Some ''t'', pl_agent = None, pl_session = Some ''s'', pl_text = ''hello'',
     pl_metadata = [(''idempotency_key'', JText ''k1'')], pl_bytes = 40\<rparr>"

definition hello_db :: db where
  "hello_db = enqueue_log 0 ''did'' ''qid'' ''t'' ''a'' hello empty_db"

lemma hello_admit: "admit_raw_log (\<lambda>_. 26) (\<lambda>_ _. False) 0 ''did'' ''qid'' default_policy (Some ''t'') ''a'' hello empty_db
    = Inr (Deferred 1 ''did'' ''qid'', hello_db)"
  by (simp add: admit_raw_log_def valid_agent_def durable_tenant_def hello_def payload_ok_def reserved_prefix_def
      admit_tx_def existing_delivery_def text_member_def empty_db_def enforce_capacity_def capacity_checks_def
      queue_usage_def default_policy_def enqueue_conflict_def next_log_id_def hello_db_def)

theorem capacity_never_exceeded_witness: "fits default_policy (queue hello_db)"
  by (rule capacity_never_exceeded) (rule r_into_rtranclp, rule queue_step.admit [OF hello_admit])

subsection \<open>Deduplication\<close>

fun admitted_log :: "admission \<Rightarrow> int" where
  "admitted_log (Deduplicated i) = i"
| "admitted_log (Deferred i _ _) = i"

text \<open>
  A second delivery is recognised: once a payload with a session and a non-empty idempotency key
  or content hash was admitted, every later admission of it by the same agent and tenant returns the
  same log id and stores nothing, whatever the capacity policy says by then.
\<close>

lemma second_delivery_deduplicated:
  assumes "admit_raw_log json_length secret now did qid pol tn agent p d = Inr (a, d1)"
    and "pl_session p \<noteq> None"
    and "truthy (text_member ''idempotency_key'' (pl_metadata p)) \<or> truthy (text_member ''content_sha256'' (pl_metadata p))"
  shows "admit_raw_log json_length secret now' did' qid' pol' tn agent p d1 = Inr (Deduplicated (admitted_log a), d1)"
proof -
  let ?tn = "durable_tenant tn agent p"
  have tx: "admit_tx now did qid pol ?tn agent p d = Inr (a, d1)"
    and guards: "admit_raw_log json_length secret now' did' qid' pol' tn agent p d1 = admit_tx now' did' qid' pol' ?tn agent p d1"
    using assms(1) by (auto simp: admit_raw_log_def split: if_splits)
  have "\<exists>r. existing_delivery agent ?tn p d1 = Some r \<and> rl_id r = admitted_log a"
    using tx
  proof (cases rule: admit_tx_cases)
    case (dup r)
    then show ?thesis by simp
  next
    case new
    let ?r = "fresh_log (next_log_id d) agent ?tn p"
    have logs: "raw_logs d1 = raw_logs d @ [?r]" using new(5) by (simp add: enqueue_log_def Let_def)
    have "find (same_delivery agent ?tn p) (sort_key rl_id (raw_logs d)) = None"
      using new(1) assms(3) by (auto simp: existing_delivery_def split: if_splits)
    then have no: "\<forall>r \<in> set (raw_logs d). \<not> same_delivery agent ?tn p r" by (simp add: find_None_iff)
    have yes: "same_delivery agent ?tn p ?r"
      using assms(2,3) by (auto simp: same_delivery_def fresh_log_def truthy_def split: option.splits)
    then obtain x where x: "find (same_delivery agent ?tn p) (sort_key rl_id (raw_logs d1)) = Some x"
      by (cases "find (same_delivery agent ?tn p) (sort_key rl_id (raw_logs d1))") (auto simp: find_None_iff logs)
    then have "x = ?r" using find_SomeD [OF x] no logs by auto
    then show ?thesis using x assms(3) new(4) by (auto simp: existing_delivery_def fresh_log_def)
  qed
  then show ?thesis unfolding guards by (auto simp: admit_tx_def)
qed

lemma second_delivery_deduplicated_witness:
  "admit_raw_log (\<lambda>_. 26) (\<lambda>_ _. False) 9 ''did2'' ''qid2'' default_policy (Some ''t'') ''a'' hello hello_db
    = Inr (Deduplicated 1, hello_db)"
  using second_delivery_deduplicated [OF hello_admit, of 9 "''did2''" "''qid2''" default_policy]
  by (simp add: hello_def text_member_def)

text \<open>
  Engine-owned metadata cannot be forged from outside: whatever is admitted, no key of the
  payload's metadata, at any depth, starts with the reserved prefix \<open>_mesa_\<close>.
\<close>

lemma no_reserved_metadata_admitted:
  assumes "admit_raw_log json_length secret now did qid pol tn agent p d = Inr (a, d')"
    and "k \<in> set (dict_keys (pl_metadata p))"
  shows "take 6 k \<noteq> ''_mesa_''"
  using assms accepted_keys [of json_length secret p]
  by (auto simp: admit_raw_log_def reserved_prefix_def split: if_splits)

lemma no_reserved_metadata_admitted_witness: "take 6 ''idempotency_key'' \<noteq> ''_mesa_''"
  by (rule no_reserved_metadata_admitted [OF hello_admit]) (simp add: hello_def)

subsection \<open>Completions\<close>

lemma complete_dispatch_unverified:
  assumes "complete_dispatch now qid w tok outcome False d = Inr (ok, d')"
    and "find (\<lambda>q. qu_id q = qid) (queue d) = Some q" and "queue_held tok w q"
  shows "\<not> ok \<and> (if 5 \<le> qu_attempts q
    then (\<exists>e. bury_mutations q outcome (settle_queue qid tok Q_DEAD_LETTER None (Some (take 120 outcome)) d) = Inr e
        \<and> d' = fail_log q outcome e)
    else d' = settle_queue qid tok Q_RETRY_PENDING (Some (now + retry_delay (qu_attempts q))) (Some (take 120 outcome)) d)"
proof (cases "5 \<le> qu_attempts q")
  case True
  then show ?thesis using assms by (auto simp: complete_dispatch_def bindE_Inr_iff split: if_splits)
next
  case False
  then show ?thesis using assms by (auto simp: complete_dispatch_def split: if_splits)
qed

lemma settled_row:
  assumes "x \<in> set (queue (settle_queue qid tok s lease err d))"
  shows "x \<in> set (queue d) \<or> qu_state x = s"
  using assms by (auto simp: settle_queue_def set_upd split: if_splits)

text \<open>
  A queue row becomes \<open>FINALIZED\<close> only through a completion that reported a verified side effect
  under the live claim of that row, and a completion receipt for it exists by then.
\<close>

lemma finalized_only_with_receipt:
  assumes "complete_dispatch now qid w tok outcome verified d = Inr (ok, d')"
    and "q \<in> set (queue d')" and "qu_state q = Q_FINALIZED" and "q \<notin> set (queue d)"
    and "distinct (map qu_id (queue d))"
  shows "ok \<and> verified \<and> qu_id q = qid \<and> (\<exists>p \<in> set (queue d). qu_id p = qid \<and> queue_held tok w p \<and>
    (\<exists>c \<in> set (completions d'). cp_queue c = qid \<or> cp_dispatch c = qu_dispatch p))"
proof -
  obtain p where p: "find (\<lambda>q. qu_id q = qid) (queue d) = Some p" and held: "queue_held tok w p"
    using assms(1,2,4) by (auto simp: complete_dispatch_def split: if_splits option.splits)
  have pd: "p \<in> set (queue d)" "qu_id p = qid" using find_SomeD [OF p] by simp_all
  show ?thesis
  proof (cases verified)
    case True
    let ?hit = "\<lambda>x. qu_id x = qid \<and> qu_state x = Q_IN_FLIGHT \<and> qu_token x = Some tok"
    let ?f = "\<lambda>x. x\<lparr>qu_state := Q_FINALIZED, qu_token := None, qu_by := None, qu_lease := None\<rparr>"
    let ?d1 = "insert_completion \<lparr>cp_queue = qid, cp_dispatch = qu_dispatch p, cp_worker = w, cp_token = tok,
                 cp_outcome = outcome, cp_attempts = qu_attempts p\<rparr> d"
    have eq: "ok = (rowcount ?hit (queue ?d1) = 1)" "d' = ?d1\<lparr>queue := upd ?hit ?f (queue ?d1)\<rparr>" "queue ?d1 = queue d"
      using assms(1) p held True
      by (auto simp: complete_dispatch_def Let_def insert_completion_def split: if_splits)
    obtain x where x: "x \<in> set (queue d)" "?hit x" "q = ?f x"
      using assms(2,4) eq(2,3) by (auto simp: set_upd split: if_splits)
    have "\<exists>c \<in> set (completions d'). cp_queue c = qid \<or> cp_dispatch c = qu_dispatch p"
      using eq(2) by (auto simp: insert_completion_def list_ex_iff)
    moreover have ok
      unfolding eq(1,3) by (rule rowcount_key_1 [OF assms(5), where x = qid and r = x]) (use x in simp_all)
    ultimately show ?thesis using True x pd held by auto
  next
    case no: False
    have un: "if 5 \<le> qu_attempts p
        then (\<exists>e. bury_mutations p outcome (settle_queue qid tok Q_DEAD_LETTER None (Some (take 120 outcome)) d) = Inr e
          \<and> d' = fail_log p outcome e)
        else d' = settle_queue qid tok Q_RETRY_PENDING (Some (now + retry_delay (qu_attempts p))) (Some (take 120 outcome)) d"
      using complete_dispatch_unverified [of now qid w tok outcome d ok d' p] assms(1) p held no by simp
    have "\<exists>s lease err. s \<noteq> Q_FINALIZED \<and> queue d' = queue (settle_queue qid tok s lease err d)"
    proof (cases "5 \<le> qu_attempts p")
      case True
      then obtain e where e: "bury_mutations p outcome (settle_queue qid tok Q_DEAD_LETTER None
          (Some (take 120 outcome)) d) = Inr e" "d' = fail_log p outcome e" using un by auto
      have "queue d' = queue (settle_queue qid tok Q_DEAD_LETTER None (Some (take 120 outcome)) d)"
        using strip_life_sel(13) [OF bury_mutations_queue [OF e(1)]] e(2) by (simp add: fail_log_def)
      then show ?thesis by blast
    next
      case False
      then have "d' = settle_queue qid tok Q_RETRY_PENDING (Some (now + retry_delay (qu_attempts p)))
          (Some (take 120 outcome)) d" using un by simp
      then show ?thesis by blast
    qed
    then show ?thesis using settled_row [of q] assms(2-4) by metis
  qed
qed

definition hello_claimed :: db where
  "hello_claimed = hello_db\<lparr>queue := map (grab_queue ''x'' ''w'' 300) (queue hello_db)\<rparr>"

definition hello_final :: db where
  "hello_final = (case complete_dispatch 9 ''qid'' ''w'' ''x'' ''ok'' True hello_claimed of
     Inl _ \<Rightarrow> empty_db | Inr (_, d) \<Rightarrow> d)"

lemma hello_queue: "queue hello_claimed = [grab_queue ''x'' ''w'' 300 (queued 0 ''did'' ''qid'' ''t'' ''a'' 1 40)]"
  by (simp add: hello_claimed_def hello_db_def enqueue_log_def Let_def empty_db_def next_log_id_def hello_def)

lemma hello_completed:
  "complete_dispatch 9 ''qid'' ''w'' ''x'' ''ok'' True hello_claimed = Inr (True, hello_final)"
  "queue hello_final = [(queued 0 ''did'' ''qid'' ''t'' ''a'' 1 40)\<lparr>qu_state := Q_FINALIZED, qu_attempts := 1\<rparr>]"
  by (simp_all add: hello_final_def complete_dispatch_def hello_queue grab_queue_def queued_def queue_held_def
      insert_completion_def Let_def)

lemma finalized_only_with_receipt_witness:
  "\<exists>c \<in> set (completions hello_final). cp_queue c = ''qid'' \<or> cp_dispatch c = ''did''"
proof -
  let ?q = "(queued 0 ''did'' ''qid'' ''t'' ''a'' 1 40)\<lparr>qu_state := Q_FINALIZED, qu_attempts := 1\<rparr>"
  have "?q \<in> set (queue hello_final)" "qu_state ?q = Q_FINALIZED" "?q \<notin> set (queue hello_claimed)"
    "distinct (map qu_id (queue hello_claimed))"
    by (simp_all add: hello_completed hello_queue grab_queue_def queued_def)
  from finalized_only_with_receipt [OF hello_completed(1) this] show ?thesis
    by (auto simp: hello_queue grab_queue_def queued_def)
qed

text \<open>Burying the mutations of a log.\<close>

lemma bury_loop_states:
  assumes "foldE (\<lambda>m d. if mu_state m \<in> {M_RECEIVED, M_EXTRACTED, M_RETRY_PENDING}
        then bindE (transition_mutation (mu_id m) M_DEAD_LETTER (Some (take 120 outcome)) d) (\<lambda>(_, d'). Inr d')
        else Inr d) ms d = Inr d'"
    and "keys_ok d" and "distinct (map mu_id ms)"
    and "\<And>m. m \<in> set ms \<Longrightarrow> mut_state_of d (mu_id m) = Some (mu_state m)"
  shows "mut_state_of d' i = (if \<exists>m \<in> set ms. mu_id m = i \<and> mu_state m \<in> {M_RECEIVED, M_EXTRACTED, M_RETRY_PENDING}
     then Some M_DEAD_LETTER else mut_state_of d i)"
  using assms
proof (induction ms arbitrary: d)
  case (Cons m ms)
  show ?case
  proof (cases "mu_state m \<in> {M_RECEIVED, M_EXTRACTED, M_RETRY_PENDING}")
    case early: True
    obtain b d1 where t: "transition_mutation (mu_id m) M_DEAD_LETTER (Some (take 120 outcome)) d = Inr (b, d1)"
      and rest: "foldE (\<lambda>m d. if mu_state m \<in> {M_RECEIVED, M_EXTRACTED, M_RETRY_PENDING}
        then bindE (transition_mutation (mu_id m) M_DEAD_LETTER (Some (take 120 outcome)) d) (\<lambda>(_, d'). Inr d')
        else Inr d) ms d1 = Inr d'"
      using Cons.prems(1) early by (auto simp: bindE_Inr_iff)
    have s1: "mut_state_of d1 j = (if j = mu_id m then Some M_DEAD_LETTER else mut_state_of d j)" for j
      using transition_mutation_states [OF t Cons.prems(2), of j] Cons.prems(4) [of m] early
      by (auto split: if_splits)
    have k1: "keys_ok d1" using same_ids_keys [OF transition_mutation_ids [OF t]] Cons.prems(2) by simp
    have "mut_state_of d1 (mu_id x) = Some (mu_state x)" if "x \<in> set ms" for x
      using s1 Cons.prems(3,4) that by (auto simp: image_iff)
    from Cons.IH [OF rest k1 _ this] show ?thesis using s1 Cons.prems(3) early by auto
  next
    case False
    then have "foldE (\<lambda>m d. if mu_state m \<in> {M_RECEIVED, M_EXTRACTED, M_RETRY_PENDING}
        then bindE (transition_mutation (mu_id m) M_DEAD_LETTER (Some (take 120 outcome)) d) (\<lambda>(_, d'). Inr d')
        else Inr d) ms d = Inr d'" using Cons.prems(1) by (simp split: if_splits)
    from Cons.IH [OF this Cons.prems(2)] show ?thesis using Cons.prems(3,4) False by auto
  qed
qed simp

text \<open>
  An exhausted dispatch takes its work with it: when an unverified completion arrives at the
  fifth or a later attempt, the queue row is dead-lettered, the log is \<open>failed\<close> if it was still
  open, and exactly the mutations of the log that were not yet validated go to \<open>DEAD_LETTER\<close>;
  before that the row is retried after 60 to 900 seconds.
\<close>

lemma exhausted_dispatch_takes_its_work:
  assumes "complete_dispatch now qid w tok outcome False d = Inr (ok, d')" and "keys_ok d"
    and "find (\<lambda>q. qu_id q = qid) (queue d) = Some q" and "queue_held tok w q"
  shows "if 5 \<le> qu_attempts q then
      (\<exists>p \<in> set (queue d'). qu_id p = qid \<and> qu_state p = Q_DEAD_LETTER \<and> qu_token p = None) \<and>
      (\<forall>r \<in> set (raw_logs d'). rl_id r = qu_log q \<and> rl_agent r = qu_agent q \<longrightarrow>
         rl_status r \<notin> {W_QUEUED, W_DEFERRED, W_PROCESSING, W_DISPATCHED}) \<and>
      (\<forall>m \<in> set (muts d). mu_raw_log m = Some (qu_log q) \<and> mu_agent m = qu_agent q \<and> mu_tenant m = qu_tenant q \<longrightarrow>
         mut_state_of d' (mu_id m) = (if mu_state m \<in> {M_RECEIVED, M_EXTRACTED, M_RETRY_PENDING}
           then Some M_DEAD_LETTER else Some (mu_state m)))
    else (\<exists>p \<in> set (queue d'). qu_id p = qid \<and> qu_state p = Q_RETRY_PENDING \<and> qu_token p = None \<and>
      qu_lease p = Some (now + retry_delay (qu_attempts q)))"
proof -
  have q: "q \<in> set (queue d)" "qu_id q = qid" "qu_token q = Some tok"
    using find_SomeD [OF assms(3)] assms(4) by (simp_all add: queue_held_def)
  have row: "\<exists>p \<in> set (queue (settle_queue qid tok s lease err d)). qu_id p = qid \<and> qu_state p = s \<and> qu_token p = None
      \<and> qu_lease p = lease" for s lease err
  proof -
    let ?f = "\<lambda>q. q\<lparr>qu_state := s, qu_token := None, qu_by := None, qu_lease := lease, qu_error := err\<rparr>"
    have "?f q \<in> set (queue (settle_queue qid tok s lease err d))"
      unfolding settle_queue_def using upd_hit [of q "queue d" "\<lambda>q. qu_id q = qid \<and> qu_token q = Some tok" ?f] q by simp
    then show ?thesis by (rule bexI [rotated]) (simp add: q)
  qed
  note un = complete_dispatch_unverified [OF assms(1,3,4)]
  show ?thesis
  proof (cases "5 \<le> qu_attempts q")
    case False
    then show ?thesis using un row [of Q_RETRY_PENDING "Some (now + retry_delay (qu_attempts q))" "Some (take 120 outcome)"]
      by simp
  next
    case True
    let ?d1 = "settle_queue qid tok Q_DEAD_LETTER None (Some (take 120 outcome)) d"
    obtain e where e: "bury_mutations q outcome ?d1 = Inr e" "d' = fail_log q outcome e" using un True by auto
    have qe: "queue d' = queue ?d1"
      using strip_life_sel(13) [OF bury_mutations_queue [OF e(1)]] e(2) by (simp add: fail_log_def)
    have m1: "muts ?d1 = muts d" by (simp add: settle_queue_def)
    let ?mine = "\<lambda>m. mu_raw_log m = Some (qu_log q) \<and> mu_agent m = qu_agent q \<and> mu_tenant m = qu_tenant q"
    have st: "mut_state_of x (mu_id m) = Some (mu_state m)" if "m \<in> set (muts d)" "muts x = muts d" for x m
      using find_distinct [of mu_id "muts d" m] assms(2) that by (simp add: mut_state_of_def mut_of_def keys_ok_def)
    have "distinct (map mu_id (filter ?mine (muts d)))" using assms(2) by (simp add: keys_ok_def distinct_map_filter)
    then have "mut_state_of e i = (if \<exists>m \<in> set (filter ?mine (muts d)). mu_id m = i
          \<and> mu_state m \<in> {M_RECEIVED, M_EXTRACTED, M_RETRY_PENDING} then Some M_DEAD_LETTER else mut_state_of ?d1 i)" for i
      by (intro bury_loop_states [OF e(1) [unfolded bury_mutations_def m1]])
        (use assms(2) m1 st in \<open>auto simp: keys_ok_def settle_queue_def\<close>)
    note buried = this
    have muts: "mut_state_of d' (mu_id m) = (if mu_state m \<in> {M_RECEIVED, M_EXTRACTED, M_RETRY_PENDING}
           then Some M_DEAD_LETTER else Some (mu_state m))" if m: "m \<in> set (muts d)" "?mine m" for m
    proof -
      have "x = m" if "x \<in> set (muts d)" "mu_id x = mu_id m" for x
        using same_row [of mu_id "muts d" x m] assms(2) that m(1) by (simp add: keys_ok_def)
      then have "(\<exists>x \<in> set (filter ?mine (muts d)). mu_id x = mu_id m \<and> mu_state x \<in> {M_RECEIVED, M_EXTRACTED, M_RETRY_PENDING})
          \<longleftrightarrow> mu_state m \<in> {M_RECEIVED, M_EXTRACTED, M_RETRY_PENDING}" using m by auto
      moreover have "mut_state_of d' (mu_id m) = mut_state_of e (mu_id m)"
        by (simp add: e(2) fail_log_def mut_state_of_def mut_of_def)
      ultimately show ?thesis using buried [of "mu_id m"] st [OF m(1) m1] by simp
    qed
    have "rl_status r \<notin> {W_QUEUED, W_DEFERRED, W_PROCESSING, W_DISPATCHED}"
      if "r \<in> set (raw_logs d')" "rl_id r = qu_log q \<and> rl_agent r = qu_agent q" for r
      using that unfolding e(2) fail_log_def by (auto simp: set_upd split: if_splits)
    then show ?thesis using True muts row [of Q_DEAD_LETTER None "Some (take 120 outcome)"] qe by auto
  qed
qed

lemma exhausted_dispatch_takes_its_work_witness:
  "\<exists>d'. complete_dispatch 9 ''qid'' ''w'' ''x'' ''boom'' False hello_claimed = Inr (False, d') \<and>
    (\<exists>p \<in> set (queue d'). qu_id p = ''qid'' \<and> qu_state p = Q_RETRY_PENDING)"
proof -
  obtain d' where c: "complete_dispatch 9 ''qid'' ''w'' ''x'' ''boom'' False hello_claimed = Inr (False, d')"
    by (simp add: complete_dispatch_def hello_queue grab_queue_def queued_def queue_held_def)
  have k: "keys_ok hello_claimed"
    by (simp add: keys_ok_def hello_claimed_def hello_db_def enqueue_log_def Let_def empty_db_def)
  have q: "find (\<lambda>q. qu_id q = ''qid'') (queue hello_claimed) = Some (grab_queue ''x'' ''w'' 300 (queued 0 ''did'' ''qid'' ''t'' ''a'' 1 40))"
    "queue_held ''x'' ''w'' (grab_queue ''x'' ''w'' 300 (queued 0 ''did'' ''qid'' ''t'' ''a'' 1 40))"
    by (simp_all add: hello_queue grab_queue_def queued_def queue_held_def)
  show ?thesis
    using exhausted_dispatch_takes_its_work [OF c k q] c by (auto simp: grab_queue_def queued_def)
qed

end
