(* ===== verification/Sessions.thy ===== *)
theory Sessions imports Ledger Leases begin

text \<open>
  The claims on raw logs and the finalization journal of sessions: \<open>claim_raw_log\<close> to
  \<open>recover_processing_raw_logs\<close> and \<open>request_session_finalization\<close> to \<open>fail_session_finalization\<close>
  of \<open>mesa_storage/dao.py\<close>, and the worker \<open>process_session_finalization\<close> of
  \<open>mesa_workers/ingestion_worker.py\<close>.
\<close>

subsection \<open>The status text of a log\<close>

text \<open>\<open>f"{status}:{error_reason}" if error_reason else status\<close>, as the datatype of \<open>Store\<close>.\<close>

definition status_of :: "string \<Rightarrow> string option \<Rightarrow> log_status" where
  "status_of s err =
    (let e = (if truthy err then err else None) in
     if s = ''processed'' then W_PROCESSED e
     else if s = ''failed'' then W_FAILED e
     else if s = ''rejected'' then W_REJECTED e
     else case e of Some t \<Rightarrow> W_OTHER (s @ '':'' @ t)
       | None \<Rightarrow> if s = ''DEFERRED'' then W_DEFERRED else if s = ''queued'' then W_QUEUED
           else if s = ''processing'' then W_PROCESSING else if s = ''dispatched'' then W_DISPATCHED else W_OTHER s)"

text \<open>\<open>LIKE 'processed%'\<close> ignores the case of ASCII letters.\<close>

definition lower :: "char \<Rightarrow> char" where
  "lower c = (let n = of_char c :: nat in if 65 \<le> n \<and> n \<le> 90 then char_of (n + 32) else c)"

definition like_prefix :: "string \<Rightarrow> string \<Rightarrow> bool" where
  "like_prefix p s \<longleftrightarrow> map lower (take (length p) s) = p"

definition log_done :: "log_status \<Rightarrow> bool" where
  "log_done s = (case s of W_PROCESSED _ \<Rightarrow> True | W_REJECTED _ \<Rightarrow> True
     | W_OTHER t \<Rightarrow> like_prefix ''processed'' t \<or> like_prefix ''rejected'' t | _ \<Rightarrow> False)"

subsection \<open>Claims on logs\<close>

definition log_free :: "int \<Rightarrow> raw_log \<Rightarrow> bool" where
  "log_free now r \<longleftrightarrow> rl_status r = W_DEFERRED \<or> (rl_status r = W_PROCESSING \<and> lease_expired now (rl_lease r))"

definition grab_log :: "string \<Rightarrow> string \<Rightarrow> int \<Rightarrow> raw_log \<Rightarrow> raw_log" where
  "grab_log tok w until r = r\<lparr>rl_status := W_PROCESSING, rl_token := Some tok, rl_by := Some w,
     rl_lease := Some until, rl_attempts := Suc (rl_attempts r), rl_error := None\<rparr>"

definition log_held :: "string \<Rightarrow> string \<Rightarrow> raw_log \<Rightarrow> bool" where
  "log_held tok w r \<longleftrightarrow> rl_status r = W_PROCESSING \<and> rl_by r = Some w \<and> rl_token r = Some tok"

definition log_key :: "raw_log \<Rightarrow> int \<times> string" where
  "log_key r = (rl_id r, rl_agent r)"

interpretation logs: leased log_key log_free grab_log log_held
  by unfold_locales (auto simp: log_key_def grab_log_def log_free_def log_held_def)

definition claim_raw_log ::
  "int \<Rightarrow> string \<Rightarrow> string \<Rightarrow> int \<Rightarrow> string \<Rightarrow> int \<Rightarrow> raw_log list \<Rightarrow> dao_error + (raw_log option \<times> raw_log list)" where
  "claim_raw_log now tok worker secs agent i t =
    (if \<not> valid_agent agent then Inl Invalid_Agent
     else if worker = [] \<or> \<not> (1 \<le> secs \<and> secs \<le> 3600) then Inl Invalid_Bounds
     else case claim_loop log_key (log_free now) (grab_log tok worker (now + secs)) [(i, agent)] t of
       (claimed, t') \<Rightarrow> Inr (if claimed = [] then None else find (\<lambda>r. log_key r = (i, agent)) t', t'))"

definition transition_claimed ::
  "string \<Rightarrow> int \<Rightarrow> string \<Rightarrow> string \<Rightarrow> string \<Rightarrow> string option \<Rightarrow> raw_log list \<Rightarrow> dao_error + (bool \<times> raw_log list)" where
  "transition_claimed agent i w tok status err t =
    (if \<not> valid_agent agent then Inl Invalid_Agent
     else if status \<notin> {''processed'', ''failed'', ''rejected'', ''DEFERRED''} then Inl Invalid_State
     else
       let hit = (\<lambda>r. log_key r = (i, agent) \<and> log_held tok w r)
       in Inr (rowcount hit t = 1, upd hit (\<lambda>r. r\<lparr>rl_status := status_of status err, rl_token := None, rl_by := None,
            rl_lease := None, rl_error := err\<rparr>) t))"

definition update_log_status ::
  "string \<Rightarrow> int \<Rightarrow> string \<Rightarrow> string option \<Rightarrow> raw_log list \<Rightarrow> dao_error + raw_log list" where
  "update_log_status agent i status err t =
    (if \<not> valid_agent agent then Inl Invalid_Agent
     else Inr (upd (\<lambda>r. log_key r = (i, agent)) (rl_status_update (\<lambda>_. status_of status err)) t))"

definition defer_log :: "raw_log \<Rightarrow> raw_log" where
  "defer_log r = r\<lparr>rl_status := W_DEFERRED, rl_token := None, rl_by := None, rl_lease := None\<rparr>"

definition recover_expired_logs :: "int \<Rightarrow> raw_log list \<Rightarrow> nat \<times> raw_log list" where
  "recover_expired_logs now t =
    (let hit = (\<lambda>r. rl_status r = W_PROCESSING \<and> lease_expired now (rl_lease r))
     in (rowcount hit t, upd hit defer_log t))"

definition recover_processing_logs :: "raw_log list \<Rightarrow> nat \<times> raw_log list" where
  "recover_processing_logs t =
    (let hit = (\<lambda>r. rl_status r = W_PROCESSING) in (rowcount hit t, upd hit defer_log t))"

subsection \<open>Session finalization\<close>

datatype final_state = F_PENDING | F_CLAIMED | F_RETRY_PENDING | F_COMPLETED | F_BLOCKED

record finalization =
  sf_agent :: string
  sf_session :: string
  sf_state :: final_state
  sf_attempts :: nat
  sf_limit :: nat
  sf_token :: "string option"
  sf_by :: "string option"
  sf_lease :: "int option"
  sf_error :: "string option"
  sf_updated :: int

definition sf_key :: "finalization \<Rightarrow> string \<times> string" where
  "sf_key f = (sf_agent f, sf_session f)"

text \<open>The logs of a session that are neither processed nor rejected.\<close>

definition pending_logs :: "string \<Rightarrow> string \<Rightarrow> raw_log list \<Rightarrow> raw_log list" where
  "pending_logs agent session ls =
    filter (\<lambda>r. rl_agent r = agent \<and> rl_session r = Some session \<and> \<not> log_done (rl_status r)) ls"

definition request_finalization ::
  "int \<Rightarrow> string \<Rightarrow> string \<Rightarrow> raw_log list \<Rightarrow> finalization list \<Rightarrow> dao_error + (finalization option \<times> finalization list)" where
  "request_finalization now agent session ls t =
    (if \<not> valid_agent agent then Inl Invalid_Agent
     else if session = [] \<or> session = ''*'' then Inl Invalid_Bounds
     else
       let t' = (if find (\<lambda>f. sf_key f = (agent, session)) t = None
             then t @ [\<lparr>sf_agent = agent, sf_session = session,
               sf_state = (if pending_logs agent session ls = [] then F_COMPLETED else F_PENDING), sf_attempts = 0,
               sf_limit = 3, sf_token = None, sf_by = None, sf_lease = None, sf_error = None, sf_updated = now\<rparr>]
             else t)
       in Inr (find (\<lambda>f. sf_key f = (agent, session)) t', t'))"

definition final_free :: "int \<Rightarrow> finalization \<Rightarrow> bool" where
  "final_free now f \<longleftrightarrow> sf_state f \<in> {F_PENDING, F_RETRY_PENDING} \<or> (sf_state f = F_CLAIMED \<and> lease_expired now (sf_lease f))"

definition grab_final :: "int \<Rightarrow> string \<Rightarrow> string \<Rightarrow> int \<Rightarrow> finalization \<Rightarrow> finalization" where
  "grab_final now tok w until f = f\<lparr>sf_state := F_CLAIMED, sf_token := Some tok, sf_by := Some w, sf_lease := Some until,
     sf_attempts := Suc (sf_attempts f), sf_error := None, sf_updated := now\<rparr>"

definition final_held :: "string \<Rightarrow> string \<Rightarrow> finalization \<Rightarrow> bool" where
  "final_held tok w f \<longleftrightarrow> sf_state f = F_CLAIMED \<and> sf_by f = Some w \<and> sf_token f = Some tok"

interpretation finals: leased sf_key final_free "grab_final n" final_held for n
  by unfold_locales (auto simp: sf_key_def grab_final_def final_free_def final_held_def)

definition claim_finalization ::
  "int \<Rightarrow> string \<Rightarrow> string \<Rightarrow> int \<Rightarrow> string \<Rightarrow> string \<Rightarrow> finalization list
    \<Rightarrow> dao_error + (finalization option \<times> finalization list)" where
  "claim_finalization now tok worker secs agent session t =
    (if \<not> valid_agent agent then Inl Invalid_Agent
     else if worker = [] \<or> \<not> (1 \<le> secs \<and> secs \<le> 3600) then Inl Invalid_Bounds
     else case claim_loop sf_key (final_free now) (grab_final now tok worker (now + secs)) [(agent, session)] t of
       (claimed, t') \<Rightarrow> Inr (if claimed = [] then None else find (\<lambda>f. sf_key f = (agent, session)) t', t'))"

text \<open>\<open>list_pending_session_finalizations\<close> and \<open>get_pending_session_raw_logs\<close>.\<close>

definition list_finalizations :: "int \<Rightarrow> nat \<Rightarrow> finalization list \<Rightarrow> dao_error + (string \<times> string) list" where
  "list_finalizations now limit t =
    (if \<not> (1 \<le> limit \<and> limit \<le> 100) then Inl Invalid_Bounds
     else Inr (map sf_key (take limit (sort_key sf_updated (filter (final_free now) t)))))"

definition deferred_logs :: "string \<Rightarrow> string \<Rightarrow> raw_log list \<Rightarrow> int list" where
  "deferred_logs agent session ls = map rl_id (sort_key rl_id
     (filter (\<lambda>r. rl_agent r = agent \<and> rl_session r = Some session \<and> rl_status r = W_DEFERRED) ls))"

definition complete_finalization ::
  "int \<Rightarrow> string \<Rightarrow> string \<Rightarrow> string \<Rightarrow> string \<Rightarrow> raw_log list \<Rightarrow> finalization list
    \<Rightarrow> dao_error + (bool \<times> finalization list)" where
  "complete_finalization now agent session w tok ls t =
    (if \<not> valid_agent agent then Inl Invalid_Agent
     else if pending_logs agent session ls \<noteq> [] then Inr (False, t)
     else
       let hit = (\<lambda>f. sf_key f = (agent, session) \<and> final_held tok w f)
       in Inr (rowcount hit t = 1, upd hit (\<lambda>f. f\<lparr>sf_state := F_COMPLETED, sf_token := None, sf_by := None,
            sf_lease := None, sf_updated := now\<rparr>) t))"

definition fail_finalization ::
  "int \<Rightarrow> string \<Rightarrow> string \<Rightarrow> string \<Rightarrow> string \<Rightarrow> string \<Rightarrow> finalization list \<Rightarrow> dao_error + (bool \<times> finalization list)" where
  "fail_finalization now agent session w tok err t =
    (if \<not> valid_agent agent then Inl Invalid_Agent
     else
       let hit = (\<lambda>f. sf_key f = (agent, session) \<and> final_held tok w f)
       in Inr (rowcount hit t = 1, upd hit (\<lambda>f. f\<lparr>sf_state := (if sf_limit f \<le> sf_attempts f then F_BLOCKED
            else F_RETRY_PENDING), sf_error := Some (take 120 err), sf_token := None, sf_by := None,
            sf_lease := None, sf_updated := now\<rparr>) t))"

subsection \<open>The finalizer\<close>

text \<open>
  \<open>process_session_finalization\<close>: \<open>cold i\<close> is what \<open>process_cold_path\<close> makes of the logs for log \<open>i\<close>
  (it never raises), \<open>loop\<close> says whether a consolidation loop is configured. The result is the text
  the worker returns.
\<close>

fun state_name :: "final_state \<Rightarrow> string" where
  "state_name F_PENDING = ''PENDING''" | "state_name F_CLAIMED = ''CLAIMED''"
| "state_name F_RETRY_PENDING = ''RETRY_PENDING''" | "state_name F_COMPLETED = ''COMPLETED''"
| "state_name F_BLOCKED = ''BLOCKED''"

definition current_name :: "string \<Rightarrow> string \<Rightarrow> finalization list \<Rightarrow> string" where
  "current_name agent session t =
    (case find (\<lambda>f. sf_key f = (agent, session)) t of None \<Rightarrow> ''MISSING'' | Some f \<Rightarrow> state_name (sf_state f))"

definition finalizer :: "string \<Rightarrow> string" where
  "finalizer agent = ''session-finalizer:'' @ agent"

text \<open>The body of the \<open>try\<close> block, after the claim.\<close>

definition finalize_claimed ::
  "(int \<Rightarrow> raw_log list \<Rightarrow> raw_log list) \<Rightarrow> bool \<Rightarrow> int \<Rightarrow> string \<Rightarrow> string \<Rightarrow> string \<Rightarrow> raw_log list
    \<Rightarrow> finalization list \<Rightarrow> dao_error + (string \<times> raw_log list \<times> finalization list)" where
  "finalize_claimed cold loop now tok agent session ls t =
    (if deferred_logs agent session ls \<noteq> [] \<and> \<not> loop then
       bindE (fail_finalization now agent session (finalizer agent) tok ''ConsolidationUnavailable'' t)
         (\<lambda>(_, t'). Inr (current_name agent session t', ls, t'))
     else
       let ls' = fold cold (deferred_logs agent session ls) ls
       in bindE (complete_finalization now agent session (finalizer agent) tok ls' t) (\<lambda>(ok, t1).
            if ok then Inr (''COMPLETED'', ls', t1)
            else bindE (fail_finalization now agent session (finalizer agent) tok ''IncompleteSessionWork'' t1)
              (\<lambda>(_, t2). Inr (''RETRY_PENDING'', ls', t2))))"

definition process_finalization ::
  "(int \<Rightarrow> raw_log list \<Rightarrow> raw_log list) \<Rightarrow> bool \<Rightarrow> int \<Rightarrow> string \<Rightarrow> string \<Rightarrow> string \<Rightarrow> raw_log list
    \<Rightarrow> finalization list \<Rightarrow> dao_error + (string \<times> raw_log list \<times> finalization list)" where
  "process_finalization cold loop now tok agent session ls t =
    bindE (claim_finalization now tok (finalizer agent) 300 agent session t) (\<lambda>(row, t1).
      if row = None then Inr (current_name agent session t1, ls, t1)
      else finalize_claimed cold loop now tok agent session ls t1)"

end
