(* ===== verification/Session_Properties.thy ===== *)
theory Session_Properties imports Sessions begin

text \<open>
  When a session completes, why a log whose lease was taken over is lost to its old holder, and what
  a failed log does to its session.
\<close>

subsection \<open>Claims of one row\<close>

lemma rowcount_1_obtains:
  assumes "rowcount P t = 1"
  obtains r where "r \<in> set t" "P r"
proof -
  have "rowcount P t \<noteq> 0" using assms by simp
  then show thesis using that by (auto simp: rowcount_0_iff)
qed

subsection \<open>Logs\<close>

lemma claim_raw_log_row:
  assumes "claim_raw_log now tok w secs agent i t = Inr (Some r, t')"
  shows "t' = upd (\<lambda>r. log_key r = (i, agent) \<and> log_free now r) (grab_log tok w (now + secs)) t \<and>
    rowcount (\<lambda>r. log_key r = (i, agent) \<and> log_free now r) t = 1"
  using assms by (auto simp: claim_raw_log_def Let_def split: if_splits)

text \<open>
  Once a log was claimed, only the token of that claim can finish it: a transition under any other
  token, such as that of a holder whose lease ended, is refused and changes no log.
\<close>

lemma reclaimed_log_rejects_old_holder:
  assumes "claim_raw_log now tok w secs agent i t = Inr (Some r, t1)" and "distinct (map log_key t)" and "tok' \<noteq> tok"
    and "transition_claimed agent i w' tok' status err t1 = Inr (ok, t2)"
  shows "\<not> ok \<and> t2 = t1"
proof -
  let ?free = "\<lambda>r. log_key r = (i, agent) \<and> log_free now r"
  have t1: "t1 = upd ?free (grab_log tok w (now + secs)) t" and one: "rowcount ?free t = 1"
    using claim_raw_log_row [OF assms(1)] by simp_all
  obtain r0 where r0: "r0 \<in> set t" "?free r0" by (rule rowcount_1_obtains [OF one])
  have none: "\<not> (log_key x = (i, agent) \<and> log_held tok' w' x)" if "x \<in> set t1" for x
    using that unfolding t1
  proof (cases rule: in_set_updE)
    case (hit y)
    then show ?thesis using assms(3) by (simp add: grab_log_def log_held_def)
  next
    case miss
    then show ?thesis using same_row [OF assms(2), of x r0] r0 by auto
  qed
  then have "rowcount (\<lambda>x. log_key x = (i, agent) \<and> log_held tok' w' x) t1 = 0" by (simp add: rowcount_0_iff)
  moreover have "upd (\<lambda>x. log_key x = (i, agent) \<and> log_held tok' w' x) f t1 = t1" for f
    by (rule upd_id) (rule none)
  ultimately show ?thesis using assms(4) by (auto simp: transition_claimed_def Let_def split: if_splits)
qed

definition stale_log :: raw_log where
  "stale_log = \<lparr>rl_id = 1, rl_agent = ''a'', rl_tenant = ''t'', rl_session = Some ''s'', rl_memory_type = None,
     rl_idempotency = None, rl_content_hash = None, rl_bytes = 40, rl_status = W_PROCESSING, rl_token = Some ''old'',
     rl_by = Some ''w'', rl_lease = Some 100, rl_attempts = 1, rl_error = None\<rparr>"

lemma reclaimed_log_rejects_old_holder_witness:
  "\<exists>r t1. claim_raw_log 100 ''new'' ''v'' 60 ''a'' 1 [stale_log] = Inr (Some r, t1) \<and>
    transition_claimed ''a'' 1 ''w'' ''old'' ''processed'' None t1 = Inr (False, t1)"
proof -
  obtain r t1 where c: "claim_raw_log 100 ''new'' ''v'' 60 ''a'' 1 [stale_log] = Inr (Some r, t1)"
    by (simp add: claim_raw_log_def valid_agent_def Let_def stale_log_def log_key_def log_free_def grab_log_def)
  obtain ok t2 where u: "transition_claimed ''a'' 1 ''w'' ''old'' ''processed'' None t1 = Inr (ok, t2)"
    by (simp add: transition_claimed_def valid_agent_def Let_def)
  have "distinct (map log_key [stale_log])" by simp
  from reclaimed_log_rejects_old_holder [OF c this _ u] show ?thesis using c u by auto
qed

subsection \<open>Sessions\<close>

text \<open>
  A session is completed exactly when the caller holds the claim on it and every log of the session
  is processed or rejected; otherwise nothing changes.
\<close>

lemma session_completes_iff_done:
  assumes "complete_finalization now agent session w tok ls t = Inr (ok, t')" and "distinct (map sf_key t)"
  shows "(ok \<longleftrightarrow> (\<forall>r \<in> set ls. rl_agent r = agent \<and> rl_session r = Some session \<longrightarrow> log_done (rl_status r))
      \<and> (\<exists>f \<in> set t. sf_key f = (agent, session) \<and> final_held tok w f)) \<and>
    (ok \<longrightarrow> (\<exists>f \<in> set t'. sf_key f = (agent, session) \<and> sf_state f = F_COMPLETED)) \<and> (\<not> ok \<longrightarrow> t' = t)"
proof (cases "pending_logs agent session ls = []")
  case False
  then show ?thesis using assms(1)
    by (auto simp: complete_finalization_def pending_logs_def filter_empty_conv split: if_splits)
next
  case True
  let ?hit = "\<lambda>f. sf_key f = (agent, session) \<and> final_held tok w f"
  let ?f = "\<lambda>f. f\<lparr>sf_state := F_COMPLETED, sf_token := None, sf_by := None, sf_lease := None, sf_updated := now\<rparr>"
  have eq: "ok = (rowcount ?hit t = 1)" "t' = upd ?hit ?f t"
    using assms(1) True by (auto simp: complete_finalization_def Let_def split: if_splits)
  have le: "rowcount ?hit t \<le> 1" by (rule rowcount_key_le_1 [OF assms(2)]) simp
  have logs: "\<forall>r \<in> set ls. rl_agent r = agent \<and> rl_session r = Some session \<longrightarrow> log_done (rl_status r)"
    using True by (auto simp: pending_logs_def filter_empty_conv)
  show ?thesis
  proof (cases "rowcount ?hit t = 1")
    case one: True
    then obtain f where f: "f \<in> set t" "?hit f" by (rule rowcount_1_obtains)
    then have "?f f \<in> set t'" unfolding eq(2) by (intro upd_hit) simp_all
    moreover have "sf_key (?f f) = (agent, session) \<and> sf_state (?f f) = F_COMPLETED" using f(2) by (simp add: sf_key_def)
    ultimately show ?thesis using f logs one eq(1) by blast
  next
    case False
    then have zero: "\<forall>f \<in> set t. \<not> ?hit f" using le by (simp add: le_Suc_eq rowcount_0_iff)
    then have "t' = t" unfolding eq(2) by (intro upd_id) blast
    then show ?thesis using zero False eq(1) by blast
  qed
qed

definition claimed_session :: "nat \<Rightarrow> finalization" where
  "claimed_session n = \<lparr>sf_agent = ''a'', sf_session = ''s'', sf_state = F_CLAIMED, sf_attempts = n, sf_limit = 3,
     sf_token = Some ''x'', sf_by = Some ''w'', sf_lease = Some 300, sf_error = None, sf_updated = 0\<rparr>"

lemma session_completes_iff_done_witness:
  "\<exists>t'. complete_finalization 5 ''a'' ''s'' ''w'' ''x'' [stale_log\<lparr>rl_status := W_PROCESSED None\<rparr>] [claimed_session 1]
    = Inr (True, t') \<and> (\<exists>f \<in> set t'. sf_state f = F_COMPLETED)"
proof -
  obtain ok t' where c: "complete_finalization 5 ''a'' ''s'' ''w'' ''x'' [stale_log\<lparr>rl_status := W_PROCESSED None\<rparr>]
      [claimed_session 1] = Inr (ok, t')"
    by (simp add: complete_finalization_def valid_agent_def Let_def pending_logs_def log_done_def)
  have "distinct (map sf_key [claimed_session 1])" by simp
  from session_completes_iff_done [OF c this] show ?thesis using c
    by (auto simp: stale_log_def claimed_session_def log_done_def sf_key_def final_held_def)
qed

text \<open>
  One failed log blocks its session: when a log of the session is \<open>failed\<close> and none is deferred,
  an attempt of the finalizer that reaches the retry limit leaves the session \<open>BLOCKED\<close>, where no claim
  takes it again, and yet reports \<open>RETRY_PENDING\<close>.
\<close>

lemma failed_log_blocks_session:
  assumes "valid_agent agent" and "distinct (map sf_key t)" and "f \<in> set t" and "sf_key f = (agent, session)"
    and "final_free now f" and "sf_limit f \<le> Suc (sf_attempts f)"
    and "r \<in> set ls" and "rl_agent r = agent" and "rl_session r = Some session" and "rl_status r = W_FAILED e"
    and "deferred_logs agent session ls = []"
  shows "\<exists>t' g. process_finalization cold loop now tok agent session ls t = Inr (''RETRY_PENDING'', ls, t') \<and>
    g \<in> set t' \<and> sf_key g = (agent, session) \<and> sf_state g = F_BLOCKED \<and> (\<forall>now'. \<not> final_free now' g)"
proof -
  let ?w = "finalizer agent" and ?free = "\<lambda>f. sf_key f = (agent, session) \<and> final_free now f"
  let ?g = "grab_final now tok ?w (now + 300) f"
  let ?t1 = "upd ?free (grab_final now tok ?w (now + 300)) t"
  have one: "rowcount ?free t = 1"
    by (rule rowcount_key_1 [OF assms(2), where x = "(agent, session)" and r = f]) (use assms(3-5) in simp_all)
  have g: "?g \<in> set ?t1" by (rule upd_hit) (use assms(3-5) in simp_all)
  have key: "sf_key ?g = (agent, session)" using assms(4) finals.key_grab by simp
  have "map sf_key ?t1 = map sf_key t" by (rule map_upd_key) (rule finals.key_grab)
  then have dist: "distinct (map sf_key ?t1)" using assms(2) by simp
  have "find (\<lambda>f. sf_key f = (agent, session)) ?t1 \<noteq> None" using g key by (auto simp: find_None_iff)
  then obtain row where claim: "claim_finalization now tok ?w 300 agent session t = Inr (Some row, ?t1)"
    using assms(1) one by (auto simp: claim_finalization_def Let_def finalizer_def)
  have "r \<in> set (pending_logs agent session ls)" using assms(7-10) by (simp add: pending_logs_def log_done_def)
  then have incomplete: "complete_finalization now agent session ?w tok ls ?t1 = Inr (False, ?t1)"
    using assms(1) by (auto simp: complete_finalization_def)
  let ?hit = "\<lambda>f. sf_key f = (agent, session) \<and> final_held tok ?w f"
  let ?b = "\<lambda>f. f\<lparr>sf_state := (if sf_limit f \<le> sf_attempts f then F_BLOCKED else F_RETRY_PENDING),
      sf_error := Some (take 120 ''IncompleteSessionWork''), sf_token := None, sf_by := None, sf_lease := None, sf_updated := now\<rparr>"
  have fail: "fail_finalization now agent session ?w tok ''IncompleteSessionWork'' ?t1
      = Inr (rowcount ?hit ?t1 = 1, upd ?hit ?b ?t1)"
    using assms(1) by (simp add: fail_finalization_def Let_def)
  have b: "?b ?g \<in> set (upd ?hit ?b ?t1)"
    by (rule upd_hit [OF g]) (use key in \<open>simp add: finals.held_grab\<close>)
  have "process_finalization cold loop now tok agent session ls t = Inr (''RETRY_PENDING'', ls, upd ?hit ?b ?t1)"
    unfolding process_finalization_def claim bindE_simps prod.case
    using assms(11) incomplete fail by (simp add: finalize_claimed_def)
  moreover have "sf_state (?b ?g) = F_BLOCKED" using assms(6) by (simp add: grab_final_def)
  moreover have "sf_key (?b ?g) = (agent, session)" using key by (simp add: sf_key_def)
  moreover have "\<not> final_free now' (?b ?g)" for now' using calculation(2) by (simp add: final_free_def)
  ultimately show ?thesis using b by blast
qed

theorem failed_log_blocks_session_witness:
  "\<exists>t' g. process_finalization (\<lambda>_ ls. ls) True 5 ''x'' ''a'' ''s'' [stale_log\<lparr>rl_status := W_FAILED None\<rparr>]
      [(claimed_session 2)\<lparr>sf_state := F_RETRY_PENDING\<rparr>] = Inr (''RETRY_PENDING'', [stale_log\<lparr>rl_status := W_FAILED None\<rparr>], t') \<and>
    g \<in> set t' \<and> sf_key g = (''a'', ''s'') \<and> sf_state g = F_BLOCKED \<and> (\<forall>now'. \<not> final_free now' g)"
  by (rule failed_log_blocks_session [where f = "(claimed_session 2)\<lparr>sf_state := F_RETRY_PENDING\<rparr>"
        and r = "stale_log\<lparr>rl_status := W_FAILED None\<rparr>" and e = None])
    (simp_all add: valid_agent_def claimed_session_def sf_key_def final_free_def stale_log_def deferred_logs_def)

end
