(* ===== verification/Vector_Log.thy ===== *)
theory Vector_Log imports Leases begin

text \<open>
  The write-ahead log of the vector store, table \<open>lancedb_wal\<close> of \<open>mesa_storage/dao.py\<close>: entries
  queued while the vector store migrates, claimed with a fence epoch, applied to the vector and
  graph stores, reconciled against them and acknowledged. What the two stores answer is an
  argument: \<open>None\<close> is an exception.
\<close>

subsection \<open>Entries\<close>

datatype wal_state = V_PENDING | V_SQLITE_COMMITTED | V_CLAIMED | V_RETRY_PENDING | V_RECONCILED
  | V_RECONCILIATION_REQUIRED | V_BLOCKED | V_ACKED

datatype vector_state = VS_PENDING | VS_VECTOR_APPLIED
datatype graph_state = GS_PENDING | GS_GRAPH_APPLIED | GS_NOT_REQUIRED

datatype observation = Unknown_Or_Unverifiable | Aligned | Vector_Missing | Graph_Missing | Vector_Extra
  | Graph_Extra | Scope_Mismatch | Version_Mismatch

text \<open>The members of \<open>metadata\<close> that are read, after \<open>dict.get\<close> with its default.\<close>

record wal =
  wa_id :: string
  wa_agent :: string
  wa_node :: string
  wa_graph_required :: bool
  wa_canonical_agent :: string
  wa_payload_version :: int
  wa_expected_vector :: bool
  wa_expected_graph :: "bool option"
  wa_state :: wal_state
  wa_vector :: vector_state
  wa_graph :: graph_state
  wa_seen :: observation
  wa_token :: "string option"
  wa_by :: "string option"
  wa_lease :: "int option"
  wa_attempts :: nat
  wa_limit :: nat
  wa_epoch :: nat
  wa_error :: "string option"

datatype wal_error = Bad_Bounds | Unknown_Wal | Store_Raised | Graph_Unavailable

text \<open>A queued insert of a node during a migration; \<open>graph\<close> says whether a graph store is attached.\<close>

definition queue_wal :: "string \<Rightarrow> string \<Rightarrow> string \<Rightarrow> bool \<Rightarrow> wal list \<Rightarrow> wal list" where
  "queue_wal i agent node graph t = t @ [\<lparr>wa_id = i, wa_agent = agent, wa_node = node, wa_graph_required = graph,
     wa_canonical_agent = agent, wa_payload_version = 1, wa_expected_vector = True, wa_expected_graph = Some graph,
     wa_state = V_PENDING, wa_vector = VS_PENDING, wa_graph = GS_NOT_REQUIRED, wa_seen = Unknown_Or_Unverifiable,
     wa_token = None, wa_by = None, wa_lease = None, wa_attempts = 0, wa_limit = 3, wa_epoch = 0, wa_error = None\<rparr>]"

subsection \<open>Claims\<close>

definition wal_free :: "int \<Rightarrow> wal \<Rightarrow> bool" where
  "wal_free now r \<longleftrightarrow> wa_state r \<in> {V_PENDING, V_SQLITE_COMMITTED, V_RETRY_PENDING}
     \<or> (wa_state r = V_CLAIMED \<and> lease_expired now (wa_lease r))"

definition grab_wal :: "string \<Rightarrow> string \<Rightarrow> int \<Rightarrow> wal \<Rightarrow> wal" where
  "grab_wal tok w until r = r\<lparr>wa_state := V_CLAIMED, wa_token := Some tok, wa_by := Some w, wa_lease := Some until,
     wa_attempts := Suc (wa_attempts r), wa_epoch := Suc (wa_epoch r), wa_error := None\<rparr>"

definition wal_owned :: "string \<Rightarrow> string \<Rightarrow> wal \<Rightarrow> bool" where
  "wal_owned tok w r \<longleftrightarrow> wa_by r = Some w \<and> wa_token r = Some tok"

definition wal_held :: "string \<Rightarrow> string \<Rightarrow> wal \<Rightarrow> bool" where
  "wal_held tok w r \<longleftrightarrow> wa_state r = V_CLAIMED \<and> wal_owned tok w r"

interpretation wals: leased wa_id wal_free grab_wal wal_held
  by unfold_locales (auto simp: grab_wal_def wal_free_def wal_held_def wal_owned_def)

text \<open>\<open>before a b\<close>: the order of the text ids in \<open>ORDER BY id\<close>.\<close>

fun text_le :: "string \<Rightarrow> string \<Rightarrow> bool" where
  "text_le [] _ = True"
| "text_le (_ # _) [] = False"
| "text_le (a # as) (b # bs) = ((of_char a :: nat) < of_char b \<or> (a = b \<and> text_le as bs))"

fun insert_wal :: "wal \<Rightarrow> wal list \<Rightarrow> wal list" where
  "insert_wal r [] = [r]"
| "insert_wal r (x # xs) = (if text_le (wa_id r) (wa_id x) then r # x # xs else x # insert_wal r xs)"

definition by_id :: "wal list \<Rightarrow> wal list" where
  "by_id t = foldr insert_wal t []"

definition claim_wal :: "int \<Rightarrow> string \<Rightarrow> string \<Rightarrow> nat \<Rightarrow> int \<Rightarrow> wal list \<Rightarrow> wal_error + (wal list \<times> wal list)" where
  "claim_wal now tok worker limit secs t =
    (if worker = [] \<or> \<not> (1 \<le> limit \<and> limit \<le> 1000) \<or> \<not> (1 \<le> secs \<and> secs \<le> 3600) then Inl Bad_Bounds
     else case claim_loop wa_id (wal_free now) (grab_wal tok worker (now + secs))
         (map wa_id (take limit (by_id (filter (wal_free now) t)))) t of
       (claimed, t') \<Rightarrow> Inr (by_id (filter (\<lambda>r. wa_id r \<in> set claimed) t'), t'))"

subsection \<open>Fenced transitions\<close>

datatype projection = P_Vector_Applied | P_Graph_Applied | P_Graph_Not_Required

fun set_projection :: "projection \<Rightarrow> wal \<Rightarrow> wal" where
  "set_projection P_Vector_Applied r = r\<lparr>wa_vector := VS_VECTOR_APPLIED\<rparr>"
| "set_projection P_Graph_Applied r = r\<lparr>wa_graph := GS_GRAPH_APPLIED\<rparr>"
| "set_projection P_Graph_Not_Required r = r\<lparr>wa_graph := GS_NOT_REQUIRED\<rparr>"

definition fenced_update :: "(wal \<Rightarrow> bool) \<Rightarrow> string \<Rightarrow> (wal \<Rightarrow> wal) \<Rightarrow> wal list \<Rightarrow> bool \<times> wal list" where
  "fenced_update P i f t = (let hit = (\<lambda>r. wa_id r = i \<and> P r) in (rowcount hit t = 1, upd hit f t))"

definition record_projection :: "string \<Rightarrow> string \<Rightarrow> string \<Rightarrow> projection \<Rightarrow> wal list \<Rightarrow> bool \<times> wal list" where
  "record_projection i w tok p t = fenced_update (wal_held tok w) i (set_projection p) t"

definition retry_wal :: "string \<Rightarrow> string \<Rightarrow> string \<Rightarrow> string \<Rightarrow> wal list \<Rightarrow> bool \<times> wal list" where
  "retry_wal i w tok err t = fenced_update (wal_held tok w) i
     (\<lambda>r. r\<lparr>wa_state := (if wa_limit r \<le> wa_attempts r then V_BLOCKED else V_RETRY_PENDING), wa_token := None,
        wa_by := None, wa_lease := None, wa_error := Some (take 500 err)\<rparr>) t"

definition recover_expired_wal :: "int \<Rightarrow> wal list \<Rightarrow> nat \<times> wal list" where
  "recover_expired_wal now t =
    (let hit = (\<lambda>r. wa_state r = V_CLAIMED \<and> lease_expired now (wa_lease r))
     in (rowcount hit t, upd hit (\<lambda>r. r\<lparr>wa_state := V_RETRY_PENDING, wa_token := None, wa_by := None,
          wa_lease := None\<rparr>) t))"

definition ack_wal :: "string \<Rightarrow> string \<Rightarrow> string \<Rightarrow> wal list \<Rightarrow> bool \<times> wal list" where
  "ack_wal i w tok t = fenced_update (\<lambda>r. wa_state r = V_RECONCILED \<and> wa_seen r = Aligned \<and> wal_owned tok w r) i
     (\<lambda>r. r\<lparr>wa_state := V_ACKED, wa_token := None, wa_by := None, wa_lease := None\<rparr>) t"

subsection \<open>Reconciliation\<close>

text \<open>
  The observation: \<open>vec\<close> answers whether the vector store has the node, \<open>gra\<close> whether the graph
  store has it, \<open>attached\<close> whether there is a graph store.
\<close>

definition observe :: "bool option \<Rightarrow> bool option \<Rightarrow> bool \<Rightarrow> wal \<Rightarrow> observation" where
  "observe vec gra attached r =
    (if wa_canonical_agent r \<noteq> wa_agent r then Scope_Mismatch
     else if wa_payload_version r \<noteq> 1 then Version_Mismatch
     else
       let graph = (if attached then gra else Some False)
       in case vec of None \<Rightarrow> Unknown_Or_Unverifiable
       | Some v \<Rightarrow> (case (if wa_graph_required r then graph else Some True) of None \<Rightarrow> Unknown_Or_Unverifiable
         | Some g \<Rightarrow>
             if \<not> wa_expected_vector r \<and> v then Vector_Extra
             else if wa_expected_graph r = Some False \<and> attached \<and> gra = None then Unknown_Or_Unverifiable
             else if wa_expected_graph r = Some False \<and> attached \<and> gra = Some True then Graph_Extra
             else if wa_expected_vector r \<and> \<not> v then Vector_Missing
             else if wa_graph_required r \<and> \<not> g then Graph_Missing
             else Aligned))"

fun after_observation :: "observation \<Rightarrow> wal_state" where
  "after_observation Aligned = V_RECONCILED"
| "after_observation Vector_Missing = V_RETRY_PENDING"
| "after_observation Graph_Missing = V_RETRY_PENDING"
| "after_observation Scope_Mismatch = V_BLOCKED"
| "after_observation _ = V_RECONCILIATION_REQUIRED"

text \<open>
  The update: \<open>s\<close> is the entry as read before the observation, whose projection states are written
  back unless the observation resets one; only \<open>Aligned\<close> keeps the claim.
\<close>

definition apply_observation :: "observation \<Rightarrow> wal \<Rightarrow> wal \<Rightarrow> wal" where
  "apply_observation o' s r =
    (let r' = r\<lparr>wa_seen := o', wa_state := after_observation o',
           wa_vector := (if o' = Vector_Missing then VS_PENDING else wa_vector s),
           wa_graph := (if o' = Graph_Missing then GS_PENDING else wa_graph s)\<rparr>
     in if o' = Aligned then r' else r'\<lparr>wa_token := None, wa_by := None, wa_lease := None\<rparr>)"

text \<open>\<open>None\<close> as result is \<open>"FENCED_OUT"\<close>.\<close>

definition reconcile_wal :: "bool option \<Rightarrow> bool option \<Rightarrow> bool \<Rightarrow> string \<Rightarrow> string \<Rightarrow> string \<Rightarrow> wal list
    \<Rightarrow> wal_error + (observation option \<times> wal list)" where
  "reconcile_wal vec gra attached i w tok t =
    (case find (\<lambda>r. wa_id r = i) t of
      None \<Rightarrow> Inl Unknown_Wal
    | Some s \<Rightarrow>
        let o' = observe vec gra attached s
        in case fenced_update (wal_held tok w) i (apply_observation o' s) t of
             (ok, t') \<Rightarrow> Inr (if ok then Some o' else None, t'))"

subsection \<open>Replay\<close>

text \<open>
  What the stores do for one entry: the two writes return or raise an exception of class \<open>fault\<close>,
  then the two observations. The entry is the row the claim returned.
\<close>

record store_world =
  upsert_ok :: bool
  insert_ok :: bool
  has_vector :: "bool option"
  has_node :: "bool option"
  attached :: bool
  fault :: string

text \<open>Each step ends the replay with a result or goes on with the log; a raise keeps what was committed.\<close>

datatype 'a outcome = Raised wal_error | Finished bool | Goes_On 'a

definition vector_step :: "store_world \<Rightarrow> wal \<Rightarrow> string \<Rightarrow> string \<Rightarrow> wal list \<Rightarrow> unit outcome \<times> wal list" where
  "vector_step sw e w tok t =
    (if wa_vector e = VS_VECTOR_APPLIED then (Goes_On (), t)
     else if \<not> upsert_ok sw then (Raised Store_Raised, snd (retry_wal (wa_id e) w tok (fault sw) t))
     else case record_projection (wa_id e) w tok P_Vector_Applied t of
       (ok, t') \<Rightarrow> (if ok then Goes_On () else Finished False, t'))"

definition graph_step :: "store_world \<Rightarrow> wal \<Rightarrow> string \<Rightarrow> string \<Rightarrow> wal list \<Rightarrow> unit outcome \<times> wal list" where
  "graph_step sw e w tok t =
    (if wa_graph_required e then
       (if wa_graph e = GS_GRAPH_APPLIED then (Goes_On (), t)
        else if \<not> attached sw then
          (Raised Graph_Unavailable, snd (retry_wal (wa_id e) w tok ''GraphProviderUnavailable'' t))
        else if \<not> insert_ok sw then (Raised Store_Raised, snd (retry_wal (wa_id e) w tok (fault sw) t))
        else case record_projection (wa_id e) w tok P_Graph_Applied t of
          (ok, t') \<Rightarrow> (if ok then Goes_On () else Finished False, t'))
     else if wa_graph e \<noteq> GS_NOT_REQUIRED then
       (case record_projection (wa_id e) w tok P_Graph_Not_Required t of
          (ok, t') \<Rightarrow> (if ok then Goes_On () else Finished False, t'))
     else (Goes_On (), t))"

definition settle_step :: "store_world \<Rightarrow> wal \<Rightarrow> string \<Rightarrow> string \<Rightarrow> wal list \<Rightarrow> unit outcome \<times> wal list" where
  "settle_step sw e w tok t =
    (case reconcile_wal (has_vector sw) (has_node sw) (attached sw) (wa_id e) w tok t of
      Inl x \<Rightarrow> (Raised x, t)
    | Inr (o', t') \<Rightarrow> (if o' \<noteq> Some Aligned then (Finished False, t')
        else case ack_wal (wa_id e) w tok t' of (ok, t'') \<Rightarrow> (Finished ok, t'')))"

definition replay_entry :: "store_world \<Rightarrow> wal \<Rightarrow> string \<Rightarrow> string \<Rightarrow> wal list \<Rightarrow> unit outcome \<times> wal list" where
  "replay_entry sw e w tok t =
    (case vector_step sw e w tok t of
      (Goes_On _, t1) \<Rightarrow> (case graph_step sw e w tok t1 of
          (Goes_On _, t2) \<Rightarrow> settle_step sw e w tok t2
        | stop \<Rightarrow> stop)
    | stop \<Rightarrow> stop)"

text \<open>\<open>replay_lancedb_wal\<close>: an exception ends the loop with the entries done so far.\<close>

fun replay_entries :: "(string \<Rightarrow> store_world) \<Rightarrow> string \<Rightarrow> string \<Rightarrow> wal list \<Rightarrow> wal list \<Rightarrow> (wal_error + nat) \<times> wal list" where
  "replay_entries sw w tok [] t = (Inr 0, t)"
| "replay_entries sw w tok (e # es) t =
    (case replay_entry (sw (wa_id e)) e w tok t of
      (Raised x, t') \<Rightarrow> (Inl x, t')
    | (Finished ok, t') \<Rightarrow> (case replay_entries sw w tok es t' of
        (Inl x, t'') \<Rightarrow> (Inl x, t'')
      | (Inr n, t'') \<Rightarrow> (Inr (if ok then Suc n else n), t''))
    | (Goes_On _, t') \<Rightarrow> (Inr 0, t'))"

definition replay_wal :: "(string \<Rightarrow> store_world) \<Rightarrow> int \<Rightarrow> string \<Rightarrow> string \<Rightarrow> nat \<Rightarrow> wal list \<Rightarrow> (wal_error + nat) \<times> wal list" where
  "replay_wal sw now tok w limit t =
    (case claim_wal now tok w limit 300 t of
      Inl x \<Rightarrow> (Inl x, t)
    | Inr (es, t') \<Rightarrow> replay_entries sw w tok es t')"

end
