(* ===== verification/Vector_Log_Properties.thy ===== *)
theory Vector_Log_Properties imports Vector_Log begin

text \<open>
  The vector log acknowledges an entry only when the stores were seen to hold it, a later claim
  always has a larger fence epoch, and an entry whose worker died between reconciliation and
  acknowledgement stays where it is.
\<close>

subsection \<open>Rows through the operations\<close>

lemma text_le_total: "text_le a b \<or> text_le b a"
proof (induction a b rule: text_le.induct)
  case (3 a as b bs)
  have "(of_char a :: nat) = of_char b \<Longrightarrow> a = b" by (metis char_of_char)
  then show ?case using 3 by force
qed auto

lemma set_by_id [simp]: "set (by_id t) = set t"
proof -
  have "set (insert_wal r t) = insert r (set t)" for r t by (induction t) auto
  then show ?thesis by (induction t) (simp_all add: by_id_def)
qed

lemma distinct_by_id: "distinct (map wa_id t) \<Longrightarrow> distinct (map wa_id (by_id t))"
proof -
  have "wa_id r \<notin> wa_id ` set t \<Longrightarrow> distinct (map wa_id t) \<Longrightarrow> distinct (map wa_id (insert_wal r t))" for r t
  proof (induction t)
    case (Cons x xs)
    have "set (insert_wal r xs) = insert r (set xs)" by (induction xs) auto
    then show ?case using Cons by auto
  qed simp
  then show "distinct (map wa_id t) \<Longrightarrow> distinct (map wa_id (by_id t))"
  proof (induction t)
    case (Cons a t)
    have "by_id (a # t) = insert_wal a (by_id t)" by (simp add: by_id_def)
    then show ?case using Cons by simp
  qed (simp add: by_id_def)
qed

lemma wal_candidates_distinct:
  assumes "distinct (map wa_id t)"
  shows "distinct (map wa_id (take n (by_id (filter P t))))"
proof -
  have "distinct (map wa_id (by_id (filter P t)))"
    by (rule distinct_by_id) (use assms in \<open>simp add: distinct_map_filter\<close>)
  then show ?thesis by (metis distinct_take take_map)
qed

lemma fenced_update_1:
  assumes "fenced_update P i f t = (True, t')" and "distinct (map wa_id t)"
  obtains s where "s \<in> set t" "wa_id s = i" "P s" "find (\<lambda>r. wa_id r = i) t = Some s" "f s \<in> set t'"
proof -
  have one: "rowcount (\<lambda>r. wa_id r = i \<and> P r) t = 1" and t': "t' = upd (\<lambda>r. wa_id r = i \<and> P r) f t"
    using assms(1) by (simp_all add: fenced_update_def Let_def)
  have "rowcount (\<lambda>r. wa_id r = i \<and> P r) t \<noteq> 0" using one by simp
  then obtain s where s: "s \<in> set t" "wa_id s = i" "P s" by (auto simp: rowcount_0_iff)
  moreover have "find (\<lambda>r. wa_id r = i) t = Some s" using find_distinct [OF assms(2) s(1)] s(2) by simp
  moreover have "f s \<in> set t'" unfolding t' by (rule upd_hit) (use s in simp_all)
  ultimately show thesis by (rule that)
qed

text \<open>What no operation changes.\<close>

definition wal_static :: "wal \<Rightarrow> string \<times> string \<times> string \<times> bool \<times> string \<times> int \<times> bool \<times> bool option" where
  "wal_static r = (wa_id r, wa_agent r, wa_node r, wa_graph_required r, wa_canonical_agent r, wa_payload_version r,
     wa_expected_vector r, wa_expected_graph r)"

lemma set_projection_frame:
  "wal_static (set_projection p r) = wal_static r" "wa_state (set_projection p r) = wa_state r"
  "wal_held tok w (set_projection p r) = wal_held tok w r" "wa_id (set_projection p r) = wa_id r"
  "wa_epoch (set_projection p r) = wa_epoch r"
  by (cases p; simp add: wal_static_def wal_held_def wal_owned_def)+

lemma record_projection_rows:
  assumes "record_projection i w tok p t = (ok, t')"
  shows "map wa_id t' = map wa_id t \<and> (\<forall>x \<in> set t'. \<exists>y \<in> set t. wal_static x = wal_static y \<and> (wal_held tok w x = wal_held tok w y))"
proof -
  have t': "t' = upd (\<lambda>r. wa_id r = i \<and> wal_held tok w r) (set_projection p) t"
    using assms by (simp add: record_projection_def fenced_update_def Let_def)
  show ?thesis unfolding t'
    by (auto simp: set_upd set_projection_frame table_simps)
qed

subsection \<open>Acknowledgement\<close>

lemma observe_aligned:
  "observe vec gra att r = Aligned \<Longrightarrow> wa_canonical_agent r = wa_agent r \<and> (wa_expected_vector r \<longrightarrow> vec = Some True)
     \<and> (wa_graph_required r \<longrightarrow> att \<and> gra = Some True)"
  by (auto simp: observe_def Let_def split: if_splits option.splits)

lemma settle_step_acks:
  assumes "settle_step sw e w tok t = (Finished True, t')" and "distinct (map wa_id t)"
  obtains s where "s \<in> set t" "wa_id s = wa_id e" "wal_held tok w s"
    "observe (has_vector sw) (has_node sw) (attached sw) s = Aligned"
    "\<exists>r \<in> set t'. wa_id r = wa_id e \<and> wa_state r = V_ACKED"
proof -
  obtain t1 where rec: "reconcile_wal (has_vector sw) (has_node sw) (attached sw) (wa_id e) w tok t = Inr (Some Aligned, t1)"
    and ack: "ack_wal (wa_id e) w tok t1 = (True, t')"
    using assms(1) by (auto simp: settle_step_def split: sum.splits prod.splits if_splits)
  obtain s where s: "find (\<lambda>r. wa_id r = wa_id e) t = Some s"
    "fenced_update (wal_held tok w) (wa_id e) (apply_observation (observe (has_vector sw) (has_node sw) (attached sw) s) s) t
      = (True, t1)" "observe (has_vector sw) (has_node sw) (attached sw) s = Aligned"
    using rec by (auto simp: reconcile_wal_def Let_def split: option.splits prod.splits if_splits)
  obtain s' where s': "s' \<in> set t" "wa_id s' = wa_id e" "wal_held tok w s'" "find (\<lambda>r. wa_id r = wa_id e) t = Some s'"
    by (rule fenced_update_1 [OF s(2) assms(2)])
  have "map wa_id t1 = map wa_id t"
  proof -
    have "wa_id (apply_observation x s r) = wa_id r" for x r by (simp add: apply_observation_def Let_def)
    then show ?thesis using s(2) by (auto simp: fenced_update_def Let_def table_simps)
  qed
  then have "distinct (map wa_id t1)" using assms(2) by simp
  then obtain r where "r \<in> set t1" "wa_id r = wa_id e"
    "r\<lparr>wa_state := V_ACKED, wa_token := None, wa_by := None, wa_lease := None\<rparr> \<in> set t'"
    by (rule fenced_update_1 [OF ack [unfolded ack_wal_def]])
  then have "\<exists>r \<in> set t'. wa_id r = wa_id e \<and> wa_state r = V_ACKED"
    by (intro bexI [of _ "r\<lparr>wa_state := V_ACKED, wa_token := None, wa_by := None, wa_lease := None\<rparr>"]) simp_all
  then show thesis using that [of s] s' s(1,3) by simp
qed

lemma vector_step_rows:
  assumes "vector_step sw e w tok t = (Goes_On u, t')"
  shows "map wa_id t' = map wa_id t \<and> (\<forall>x \<in> set t'. \<exists>y \<in> set t. wal_static x = wal_static y \<and> (wal_held tok w x = wal_held tok w y))"
  using assms record_projection_rows by (auto simp: vector_step_def split: if_splits prod.splits)

lemma graph_step_rows:
  assumes "graph_step sw e w tok t = (Goes_On u, t')"
  shows "map wa_id t' = map wa_id t \<and> (\<forall>x \<in> set t'. \<exists>y \<in> set t. wal_static x = wal_static y \<and> (wal_held tok w x = wal_held tok w y))"
  using assms record_projection_rows by (auto simp: graph_step_def split: if_splits prod.splits)

text \<open>
  The replay of an entry reports success only when the entry was held under the caller's token,
  belongs to the scope it names, and the stores were observed to contain what it requires: its
  vector when one is expected and its graph node when one is required. It is then acknowledged.
\<close>

lemma replay_acks_only_observed:
  assumes "replay_entry sw e w tok t = (Finished True, t')" and "distinct (map wa_id t)"
  shows "\<exists>s \<in> set t. wa_id s = wa_id e \<and> wal_held tok w s \<and> wa_canonical_agent s = wa_agent s \<and>
    (wa_expected_vector s \<longrightarrow> has_vector sw = Some True) \<and>
    (wa_graph_required s \<longrightarrow> attached sw \<and> has_node sw = Some True) \<and>
    (\<exists>r \<in> set t'. wa_id r = wa_id e \<and> wa_state r = V_ACKED)"
proof -
  obtain t1 where v: "vector_step sw e w tok t = (Goes_On (), t1)"
    using assms(1) by (auto simp: replay_entry_def vector_step_def split: prod.splits if_splits outcome.splits)
  obtain t2 where g: "graph_step sw e w tok t1 = (Goes_On (), t2)"
    using assms(1) v by (auto simp: replay_entry_def graph_step_def split: prod.splits if_splits outcome.splits)
  have s: "settle_step sw e w tok t2 = (Finished True, t')" using assms(1) v g by (simp add: replay_entry_def)
  have "distinct (map wa_id t2)" using vector_step_rows [OF v] graph_step_rows [OF g] assms(2) by simp
  with s obtain x where x: "x \<in> set t2" "wa_id x = wa_id e" "wal_held tok w x"
    "observe (has_vector sw) (has_node sw) (attached sw) x = Aligned"
    "\<exists>r \<in> set t'. wa_id r = wa_id e \<and> wa_state r = V_ACKED"
    by (rule settle_step_acks)
  obtain y where y: "y \<in> set t1" "wal_static x = wal_static y" "wal_held tok w x = wal_held tok w y"
    using graph_step_rows [OF g] x(1) by blast
  obtain z where z: "z \<in> set t" "wal_static y = wal_static z" "wal_held tok w y = wal_held tok w z"
    using vector_step_rows [OF v] y(1) by blast
  have "wal_static x = wal_static z" "wal_held tok w z" using y z x(3) by simp_all
  then have "wa_id z = wa_id x" "wa_canonical_agent z = wa_canonical_agent x" "wa_agent z = wa_agent x"
    "wa_expected_vector z = wa_expected_vector x" "wa_graph_required z = wa_graph_required x" "wal_held tok w z"
    unfolding wal_static_def by simp_all
  then show ?thesis using z(1) x(2,5) observe_aligned [OF x(4)] by (intro bexI [of _ z]) simp_all
qed

definition one_entry :: "wal list" where
  "one_entry = queue_wal ''e'' ''a'' ''n'' True []"

definition healthy :: store_world where
  "healthy = \<lparr>upsert_ok = True, insert_ok = True, has_vector = Some True, has_node = Some True, attached = True, fault = []\<rparr>"

lemmas wal_eval = one_entry_def queue_wal_def healthy_def claim_wal_def by_id_def wal_free_def grab_wal_def
  replay_entry_def vector_step_def graph_step_def settle_step_def record_projection_def fenced_update_def
  wal_held_def wal_owned_def reconcile_wal_def observe_def apply_observation_def ack_wal_def Let_def

definition claimed_entry :: wal where
  "claimed_entry = grab_wal ''x'' ''w'' 300 (hd one_entry)"

lemma one_entry_claim: "claim_wal 0 ''x'' ''w'' 10 300 one_entry = Inr ([claimed_entry], [claimed_entry])"
  by (simp add: wal_eval claimed_entry_def)

lemma one_entry_replayed: "\<exists>t'. replay_entry healthy claimed_entry ''w'' ''x'' [claimed_entry] = (Finished True, t')"
  by (simp add: wal_eval claimed_entry_def)

lemma replay_acks_only_observed_witness:
  "\<exists>t'. replay_entry healthy claimed_entry ''w'' ''x'' [claimed_entry] = (Finished True, t') \<and>
    (\<exists>r \<in> set t'. wa_state r = V_ACKED)"
proof -
  obtain t' where r: "replay_entry healthy claimed_entry ''w'' ''x'' [claimed_entry] = (Finished True, t')"
    using one_entry_replayed by blast
  have "distinct (map wa_id [claimed_entry])" by simp
  from replay_acks_only_observed [OF r this] show ?thesis using r by blast
qed

subsection \<open>Any number of operations\<close>

text \<open>
  The transactions of the log, by anyone; \<open>dead tok\<close> marks the tokens of workers that no longer run.
\<close>

inductive wal_step :: "(string \<Rightarrow> bool) \<Rightarrow> wal list \<Rightarrow> wal list \<Rightarrow> bool" for dead where
  insert: "i \<notin> wa_id ` set t \<Longrightarrow> wal_step dead t (queue_wal i agent node graph t)"
| claim: "claim_wal now tok w n secs t = Inr (es, t') \<Longrightarrow> wal_step dead t t'"
| note_applied: "record_projection i w tok p t = (ok, t') \<Longrightarrow> wal_step dead t t'"
| retry: "retry_wal i w tok err t = (ok, t') \<Longrightarrow> wal_step dead t t'"
| reconcile: "reconcile_wal vec gra att i w tok t = Inr (o', t') \<Longrightarrow> wal_step dead t t'"
| ack: "ack_wal i w tok t = (ok, t') \<Longrightarrow> \<not> dead tok \<Longrightarrow> wal_step dead t t'"
| recover: "recover_expired_wal now t = (n, t') \<Longrightarrow> wal_step dead t t'"

lemma claim_wal_loop:
  assumes "claim_wal now tok w n secs t = Inr (es, t')"
  obtains ids where "ids = map wa_id (take n (by_id (filter (wal_free now) t)))"
    "t' = snd (claim_loop wa_id (wal_free now) (grab_wal tok w (now + secs)) ids t)"
    "set es = {r \<in> set t'. wa_id r \<in> set (fst (claim_loop wa_id (wal_free now) (grab_wal tok w (now + secs)) ids t))}"
proof (rule that)
  let ?ids = "map wa_id (take n (by_id (filter (wal_free now) t)))"
  show "?ids = map wa_id (take n (by_id (filter (wal_free now) t)))" ..
  show "t' = snd (claim_loop wa_id (wal_free now) (grab_wal tok w (now + secs)) ?ids t)"
    and "set es = {r \<in> set t'. wa_id r \<in> set (fst (claim_loop wa_id (wal_free now) (grab_wal tok w (now + secs)) ?ids t))}"
    using assms by (auto simp: claim_wal_def split: if_splits prod.splits)
qed

text \<open>Each step keeps the rows' ids and never lowers an epoch; what it writes is a per-row update.\<close>

definition epochs_le :: "wal list \<Rightarrow> wal list \<Rightarrow> bool" where
  "epochs_le a b \<longleftrightarrow> (\<forall>x \<in> set a. \<exists>y \<in> set b. wa_id y = wa_id x \<and> wa_epoch x \<le> wa_epoch y) \<and>
     (distinct (map wa_id a) \<longrightarrow> distinct (map wa_id b))"

interpretation epochs: handler_frame epochs_le
proof
  show "epochs_le s s" for s by (auto simp: epochs_le_def)
  show "epochs_le s t \<Longrightarrow> epochs_le t u \<Longrightarrow> epochs_le s u" for s t u
    unfolding epochs_le_def by (metis order_trans)
qed

lemma epochs_upd:
  assumes "\<And>r. wa_id (f r) = wa_id r" "\<And>r. wa_epoch r \<le> wa_epoch (f r)"
  shows "epochs_le t (upd P f t)"
proof -
  have "map wa_id (upd P f t) = map wa_id t" by (rule map_upd_key) (rule assms(1))
  moreover have "\<exists>y \<in> set (upd P f t). wa_id y = wa_id x \<and> wa_epoch x \<le> wa_epoch y" if "x \<in> set t" for x
  proof (cases "P x")
    case True
    then show ?thesis using upd_hit [OF that, of P f] assms by blast
  next
    case False
    then show ?thesis using upd_miss [OF that, of P f] by blast
  qed
  ultimately show ?thesis by (simp add: epochs_le_def)
qed

lemma epochs_fenced:
  assumes "fenced_update P i f t = (ok, t')" and "\<And>r. wa_id (f r) = wa_id r" "\<And>r. wa_epoch r \<le> wa_epoch (f r)"
  shows "epochs_le t t'"
  using assms(1) epochs_upd [OF assms(2,3)] by (auto simp: fenced_update_def Let_def)

lemma epochs_claim_loop:
  "epochs_le t (snd (claim_loop wa_id free (grab_wal tok w until) ids t))"
proof (induction ids arbitrary: t)
  case (Cons i ids)
  have "epochs_le t (upd (\<lambda>r. wa_id r = i \<and> free r) (grab_wal tok w until) t)"
    by (rule epochs_upd) (simp_all add: grab_wal_def)
  then show ?case using Cons by (auto simp: Let_def split_def intro: epochs.le_trans)
qed (simp add: epochs.le_refl)

lemma wal_step_epochs: "wal_step dead t t' \<Longrightarrow> epochs_le t t'"
proof (induction rule: wal_step.induct)
  case (insert i t agent node graph)
  then show ?case by (auto simp: epochs_le_def queue_wal_def)
next
  case (claim now tok w n secs t es t')
  then show ?case by (rule claim_wal_loop) (simp add: epochs_claim_loop)
next
  case (note_applied i w tok p t ok t')
  then show ?case unfolding record_projection_def
    by (rule epochs_fenced) (simp_all add: set_projection_frame)
next
  case (retry i w tok err t ok t')
  then show ?case unfolding retry_wal_def by (rule epochs_fenced) simp_all
next
  case (reconcile vec gra att i w tok t o' t')
  then obtain s ok where "fenced_update (wal_held tok w) i (apply_observation (observe vec gra att s) s) t = (ok, t')"
    by (auto simp: reconcile_wal_def Let_def split: option.splits prod.splits)
  then show ?case by (rule epochs_fenced) (simp_all add: apply_observation_def Let_def)
next
  case (ack i w tok t ok t')
  then show ?case unfolding ack_wal_def by (auto intro: epochs_fenced)
next
  case (recover now t n t')
  then show ?case by (auto simp: recover_expired_wal_def Let_def intro!: epochs_upd)
qed

lemma claim_wal_grabbed:
  assumes "claim_wal now tok w n secs t = Inr (es, t')" and "distinct (map wa_id t)" and "e \<in> set es"
  obtains r where "r \<in> set t" "wal_free now r" "e = grab_wal tok w (now + secs) r" "e \<in> set t'"
proof -
  obtain ids where ids: "ids = map wa_id (take n (by_id (filter (wal_free now) t)))"
    and t': "t' = snd (claim_loop wa_id (wal_free now) (grab_wal tok w (now + secs)) ids t)"
    and es: "set es = {r \<in> set t'. wa_id r \<in> set (fst (claim_loop wa_id (wal_free now) (grab_wal tok w (now + secs)) ids t))}"
    by (rule claim_wal_loop [OF assms(1)])
  have "distinct ids" unfolding ids by (rule wal_candidates_distinct [OF assms(2)])
  from wals.claim_loop_grabbed [OF this assms(2), of "wa_id e" now tok w "now + secs" e]
  show thesis using assms(3) es t' that by blast
qed

text \<open>
  Fence epochs order the claims: when the same entry is claimed twice, whatever happens in between,
  the later claim carries a strictly larger epoch.
\<close>

lemma later_claim_has_larger_epoch:
  assumes "claim_wal now tok w n secs t = Inr (es, t1)" and "distinct (map wa_id t)" and "e \<in> set es"
    and "(wal_step (\<lambda>_. False))\<^sup>*\<^sup>* t1 t2"
    and "claim_wal now' tok' w' n' secs' t2 = Inr (es', t3)" and "e' \<in> set es'" and "wa_id e' = wa_id e"
  shows "wa_epoch e < wa_epoch e'"
proof -
  have 1: "epochs_le t t1" using assms(1) by (intro wal_step_epochs wal_step.claim)
  have 2: "epochs_le t1 t2" by (rule epochs.le_rtranclp [OF _ assms(4)]) (rule wal_step_epochs)
  have d1: "distinct (map wa_id t1)" using 1 assms(2) by (simp add: epochs_le_def)
  have d2: "distinct (map wa_id t2)" using 2 d1 by (simp add: epochs_le_def)
  have e: "e \<in> set t1" by (rule claim_wal_grabbed [OF assms(1,2,3)])
  obtain r where r: "r \<in> set t2" "e' = grab_wal tok' w' (now' + secs') r"
    by (rule claim_wal_grabbed [OF assms(5) d2 assms(6)])
  obtain y where y: "y \<in> set t2" "wa_id y = wa_id e" "wa_epoch e \<le> wa_epoch y"
    using 2 e unfolding epochs_le_def by blast
  have "wa_id r = wa_id y" using assms(7) r(2) y(2) wals.key_grab [of tok' w' "now' + secs'" r] by simp
  then have "r = y" using same_row [OF d2 r(1) y(1)] by simp
  then show ?thesis using r(2) y(3) by (simp add: grab_wal_def)
qed

lemma later_claim_has_larger_epoch_witness:
  "wa_epoch claimed_entry < wa_epoch (grab_wal ''y'' ''v'' 600 claimed_entry)"
proof (rule later_claim_has_larger_epoch [OF one_entry_claim _ _ rtranclp.rtrancl_refl])
  show "claim_wal 300 ''y'' ''v'' 10 300 [claimed_entry]
      = Inr ([grab_wal ''y'' ''v'' 600 claimed_entry], [grab_wal ''y'' ''v'' 600 claimed_entry])"
    by (simp add: wal_eval claimed_entry_def)
qed (simp_all add: one_entry_def queue_wal_def wals.key_grab)

subsection \<open>A reconciled entry whose worker died\<close>

lemma keeps_claim_loop:
  assumes "r \<in> set t" and "\<not> free r"
  shows "r \<in> set (snd (claim_loop wa_id free grab ids t))"
  using assms
proof (induction ids arbitrary: t)
  case (Cons i ids)
  have "r \<in> set (upd (\<lambda>r. wa_id r = i \<and> free r) grab t)" using Cons.prems by (intro upd_miss) simp_all
  then show ?case using Cons.IH Cons.prems(2) by (simp add: Let_def split_def)
qed simp

text \<open>
  An entry that was reconciled but not acknowledged before its worker died is stranded: it keeps its
  lease for good, and no claim, recovery, retry, reconciliation or acknowledgement under another
  token ever changes it.
\<close>

lemma reconciled_entry_stranded:
  assumes "r \<in> set t" and "wa_state r = V_RECONCILED" and "\<And>tok. wa_token r = Some tok \<Longrightarrow> dead tok"
    and "(wal_step dead)\<^sup>*\<^sup>* t t'"
  shows "r \<in> set t'"
  using assms(4,1)
proof (induction rule: rtranclp_induct)
  case (step u v)
  have r: "r \<in> set u" using step.IH step.prems .
  have fenced: "r \<in> set v" if "fenced_update P i f u = (ok, v)" "\<not> P r" for P i f ok
    using that r by (auto simp: fenced_update_def Let_def intro: upd_miss)
  have held: "\<not> wal_held tok w r" for tok w using assms(2) by (simp add: wal_held_def)
  from step.hyps(2) show ?case
  proof cases
    case (insert i agent node graph)
    then show ?thesis using r by (simp add: queue_wal_def)
  next
    case (claim now tok w n secs es)
    have "\<not> wal_free now r" using assms(2) by (simp add: wal_free_def)
    then show ?thesis using claim r by (auto elim!: claim_wal_loop intro!: keeps_claim_loop)
  next
    case (note_applied i w tok p ok)
    then show ?thesis using fenced held unfolding record_projection_def by blast
  next
    case (retry i w tok err ok)
    then show ?thesis using fenced held unfolding retry_wal_def by blast
  next
    case (reconcile vec gra att i w tok o')
    then show ?thesis using fenced held
      by (auto simp: reconcile_wal_def Let_def split: option.splits prod.splits)
  next
    case (ack i w tok ok)
    have "\<not> wal_owned tok w r" using ack(2) assms(3) by (auto simp: wal_owned_def)
    then show ?thesis using fenced ack(1) unfolding ack_wal_def by blast
  next
    case (recover now n)
    then show ?thesis using r assms(2) by (auto simp: recover_expired_wal_def Let_def intro: upd_miss)
  qed
qed

definition dead_entry :: wal where
  "dead_entry = claimed_entry\<lparr>wa_state := V_RECONCILED, wa_seen := Aligned\<rparr>"

lemma dead_entry_recover: "recover_expired_wal 9999 [dead_entry] = (0, [dead_entry])"
  by (simp add: recover_expired_wal_def Let_def dead_entry_def)

lemma reconciled_entry_stranded_witness: "dead_entry \<in> set (snd (recover_expired_wal 9999 [dead_entry]))"
proof (rule reconciled_entry_stranded [where t = "[dead_entry]" and dead = "\<lambda>tok. tok = ''x''"])
  show "(wal_step (\<lambda>tok. tok = ''x''))\<^sup>*\<^sup>* [dead_entry] (snd (recover_expired_wal 9999 [dead_entry]))"
    by (rule r_into_rtranclp, rule wal_step.recover [where now = 9999 and n = 0]) (simp add: dead_entry_recover)
qed (simp_all add: dead_entry_def claimed_entry_def grab_wal_def)

end
