(* ===== verification/Chunking.thy ===== *)
theory Chunking imports Main begin

text \<open>
  \<open>mesa_memory/document_chunking.py\<close>: slices of a document that hold at most 512 tokens and 32768
  characters. A text is its list of code points; \<open>tok\<close> is the tokenizer (a library), \<open>uni\<close> the
  character tables of Python's \<open>str\<close>. A loop that might not end is an \<open>option\<close> whose \<open>None\<close> is
  divergence.
\<close>

type_synonym codes = "nat list"

record unicode =
  is_alnum :: "nat \<Rightarrow> bool"
  is_digit :: "nat \<Rightarrow> bool"
  is_alpha :: "nat \<Rightarrow> bool"
  lowered :: "codes \<Rightarrow> codes"

subsection \<open>Boundaries\<close>

definition blank :: "nat \<Rightarrow> bool" where
  "blank c \<longleftrightarrow> c = 32 \<or> c = 9"

text \<open>The white space of \<open>\s\<close> on a \<open>str\<close>.\<close>

definition is_space :: "nat \<Rightarrow> bool" where
  "is_space c \<longleftrightarrow> (9 \<le> c \<and> c \<le> 13) \<or> (28 \<le> c \<and> c \<le> 32) \<or> c \<in> {133, 160, 5760} \<or> (8192 \<le> c \<and> c \<le> 8202)
     \<or> c \<in> {8232, 8233, 8239, 8287, 12288}"

text \<open>Length of \<open>\r?\n[ \t]*\<close> at the head, 0 when it does not match.\<close>

fun line_break :: "codes \<Rightarrow> nat" where
  "line_break [] = 0"
| "line_break (c # xs) = (if c = 10 then 1 + length (takeWhile blank xs)
     else if c = 13 then (case xs of [] \<Rightarrow> 0 | d # ys \<Rightarrow> if d = 10 then 2 + length (takeWhile blank ys) else 0)
     else 0)"

lemma line_break_Nil [simp]: "line_break xs \<noteq> 0 \<Longrightarrow> xs \<noteq> []"
  by (cases xs) auto

function line_breaks :: "codes \<Rightarrow> nat \<times> nat" where
  "line_breaks xs = (if line_break xs = 0 then (0, 0)
     else case line_breaks (drop (line_break xs) xs) of (n, l) \<Rightarrow> (Suc n, line_break xs + l))"
  by pat_completeness auto

termination
  by (relation "measure length") (auto simp: line_break_Nil)

declare line_breaks.simps [simp del]

definition paragraph_at :: "codes \<Rightarrow> nat" where
  "paragraph_at xs = (case line_breaks xs of (n, l) \<Rightarrow> if 2 \<le> n then l else 0)"

definition sentence_at :: "codes \<Rightarrow> nat" where
  "sentence_at xs = (case xs of [] \<Rightarrow> 0
     | c # ys \<Rightarrow> if c \<in> {46, 33, 63} \<and> takeWhile is_space ys \<noteq> [] then 1 + length (takeWhile is_space ys) else 0)"

text \<open>\<open>finditer\<close>: the start and end of each match, from position \<open>i\<close>; \<open>m\<close> is the length of a match.\<close>

function scan :: "(codes \<Rightarrow> nat) \<Rightarrow> codes \<Rightarrow> nat \<Rightarrow> (nat \<times> nat) list" where
  "scan m xs i = (if xs = [] then []
     else if m xs = 0 then scan m (tl xs) (Suc i)
     else (i, i + m xs) # scan m (drop (m xs) xs) (i + m xs))"
  by pat_completeness auto

termination
  by (relation "measure (\<lambda>(m, xs, i). length xs)") auto

declare scan.simps [simp del]

subsection \<open>Sentence ends\<close>

text \<open>
  \<open>_TRAILING_WORD.search(prefix, lo, hi)\<close>: the word that ends the region, or that a final newline
  follows. A start of the match at the head of the region is what \<open>length w = length region\<close> says.
\<close>

definition region :: "nat \<Rightarrow> nat \<Rightarrow> codes \<Rightarrow> codes" where
  "region lo hi p = (let r = drop lo (take hi p) in if r \<noteq> [] \<and> last r = 10 then butlast r else r)"

definition trailing_word :: "unicode \<Rightarrow> nat \<Rightarrow> nat \<Rightarrow> codes \<Rightarrow> codes" where
  "trailing_word uni lo hi p = rev (takeWhile (is_alnum uni) (rev (region lo hi p)))"

definition abbreviations :: "codes list" where
  "abbreviations = map (map of_char) [''md'', ''mad'', ''bkz'', ''vb'', ''vs'', ''sy'', ''sf'', ''no'', ''yarg'',
     ''hd'', ''cgk'', ''hgk'', ''av'', ''dr'', ''prof'', ''yrd'', ''ltd'']
     @ [[100, 111, 231], [351, 116, 105]]"

text \<open>\<open>w.replace("\<dots>", "i").replace("I", "\<dots>")\<close> on dotted and dotless i.\<close>

definition turkish_i :: "codes \<Rightarrow> codes" where
  "turkish_i w = map (\<lambda>c. if c = 304 then 105 else if c = 73 then 305 else c) w"

text \<open>What the last word before a period says.\<close>

definition ends_sentence :: "unicode \<Rightarrow> codes \<Rightarrow> bool" where
  "ends_sentence uni w \<longleftrightarrow>
    w = [] \<or> \<not> (list_all (is_digit uni) w \<or> (length w = 1 \<and> list_all (is_alpha uni) w)
      \<or> lowered uni (turkish_i w) \<in> set abbreviations)"

definition is_sentence_end :: "unicode \<Rightarrow> codes \<Rightarrow> nat \<Rightarrow> bool" where
  "is_sentence_end uni p i =
    (if p ! i \<in> {33, 63} then True
     else
       let lookback = i - 64; w = trailing_word uni lookback i p;
           w' = (if w \<noteq> [] \<and> length w = length (region lookback i p) \<and> 0 < lookback
                 then trailing_word uni 0 i p else w)
       in ends_sentence uni w')"

text \<open>The reference: the whole word before the period.\<close>

definition sentence_end_spec :: "unicode \<Rightarrow> codes \<Rightarrow> nat \<Rightarrow> bool" where
  "sentence_end_spec uni p i \<longleftrightarrow> p ! i \<in> {33, 63} \<or> ends_sentence uni (trailing_word uni 0 i p)"

subsection \<open>Slices\<close>

text \<open>The doubling loop; \<open>rest\<close> is the text from \<open>start\<close> on and positions are relative to it.\<close>

partial_function (option) grow :: "(codes \<Rightarrow> nat) \<Rightarrow> codes \<Rightarrow> nat \<Rightarrow> nat \<Rightarrow> nat \<Rightarrow> (nat \<times> nat) option" where
  "grow tok rest ceiling low high =
    (if tok (take high rest) \<le> 512 then
       (if high = ceiling then Some (high, high)
        else grow tok rest ceiling high (min (high * 2) ceiling))
     else Some (low, high))"

function bisect :: "(codes \<Rightarrow> nat) \<Rightarrow> codes \<Rightarrow> nat \<Rightarrow> nat \<Rightarrow> nat" where
  "bisect tok rest low high =
    (if low + 1 < high then
       (if tok (take ((low + high) div 2) rest) \<le> 512 then bisect tok rest ((low + high) div 2) high
        else bisect tok rest low ((low + high) div 2))
     else low)"
  by pat_completeness auto

termination
  by (relation "measure (\<lambda>(tok, rest, low, high). high - low)") auto

declare bisect.simps [simp del]

definition natural_end :: "unicode \<Rightarrow> codes \<Rightarrow> nat \<Rightarrow> nat" where
  "natural_end uni rest low =
    (if low < length rest then
       let prefix = take low rest; paragraphs = scan paragraph_at prefix 0
       in if paragraphs \<noteq> [] then snd (last paragraphs)
          else
            let sentences = scan sentence_at prefix 0;
                filtered = filter (\<lambda>(i, _). is_sentence_end uni prefix i) sentences;
                chosen = (if filtered \<noteq> [] then filtered else sentences)
            in if sentences \<noteq> [] then snd (last chosen) else low
     else low)"

partial_function (option) shrink :: "(codes \<Rightarrow> nat) \<Rightarrow> codes \<Rightarrow> nat \<Rightarrow> nat option" where
  "shrink tok rest e = (if 512 < tok (take e rest) then shrink tok rest (e - 1) else Some e)"

definition slice_end :: "unicode \<Rightarrow> (codes \<Rightarrow> nat) \<Rightarrow> codes \<Rightarrow> nat option" where
  "slice_end uni tok rest =
    (let ceiling = min (length rest) 32768
     in Option.bind (grow tok rest ceiling 0 (min 512 ceiling))
       (\<lambda>(low, high). shrink tok rest (natural_end uni rest (bisect tok rest low high))))"

partial_function (option) chunk_document :: "unicode \<Rightarrow> (codes \<Rightarrow> nat) \<Rightarrow> codes \<Rightarrow> codes list option" where
  "chunk_document uni tok rest =
    (if rest = [] then Some []
     else Option.bind (slice_end uni tok rest) (\<lambda>e.
       Option.bind (chunk_document uni tok (drop e rest)) (\<lambda>cs. Some (take e rest # cs))))"

subsection \<open>Legal documents\<close>

text \<open>
  \<open>chunk_legal_document\<close>: \<open>headings\<close> are the starts of the matches of \<open>_ARTICLE_HEADING\<close>, \<open>preamble\<close>
  says whether \<open>_CASE_LAW_PREAMBLE\<close> occurs in a text. \<open>pieces\<close> cuts at the boundaries.
\<close>

fun pieces :: "codes \<Rightarrow> nat list \<Rightarrow> codes list" where
  "pieces t (a # b # bs) = drop a (take b t) # pieces t (b # bs)"
| "pieces t _ = []"

fun chunk_pieces :: "unicode \<Rightarrow> (codes \<Rightarrow> nat) \<Rightarrow> codes list \<Rightarrow> codes list option" where
  "chunk_pieces uni tok [] = Some []"
| "chunk_pieces uni tok (p # ps) =
    Option.bind (if length p \<le> 32768 \<and> tok p \<le> 512 then Some [p] else chunk_document uni tok p) (\<lambda>cs.
      Option.bind (chunk_pieces uni tok ps) (\<lambda>rest. Some (cs @ rest)))"

definition chunk_legal :: "(codes \<Rightarrow> nat list) \<Rightarrow> (codes \<Rightarrow> bool) \<Rightarrow> unicode \<Rightarrow> (codes \<Rightarrow> nat) \<Rightarrow> codes \<Rightarrow> codes list option" where
  "chunk_legal headings preamble uni tok t =
    (let starts = headings t
     in if length starts < 3 \<or> preamble (take (hd starts) t) then chunk_document uni tok t
        else chunk_pieces uni tok (pieces t (sorted_list_of_set (set (0 # length t # starts)))))"

end
