(* ===== verification/Chunking_Properties.thy ===== *)
theory Chunking_Properties imports Chunking begin

text \<open>
  The slicing of a document ends, loses no character and keeps its bounds; the look-back of the
  sentence test is exact; articles of a legal document start slices.
\<close>

subsection \<open>Look-back\<close>

lemma region_drop:
  assumes "lo < i" and "i < length p"
  shows "region lo i p = drop lo (region 0 i p)"
proof -
  have "length (take i p) = i" using assms by simp
  then have "drop lo (take i p) \<noteq> []" "take i p \<noteq> []" "last (drop lo (take i p)) = last (take i p)"
    using assms last_drop [of lo "take i p"] by auto
  then show ?thesis unfolding region_def Let_def by (simp add: butlast_drop del: drop_take take_eq_Nil)
qed

lemma takeWhile_suffix:
  assumes "takeWhile P (rev v) \<noteq> rev v"
  shows "takeWhile P (rev (u @ v)) = takeWhile P (rev v)"
  using assms by (auto simp: takeWhile_append takeWhile_eq_all_conv)

text \<open>
  The optimised sentence test, which reads 64 characters back and the whole prefix only when the
  word may be longer, decides exactly what reading the whole prefix decides.
\<close>

lemma lookback_is_exact:
  assumes "i < length p"
  shows "is_sentence_end uni p i = sentence_end_spec uni p i"
proof (cases "i - 64 = 0")
  case True
  then show ?thesis by (simp add: is_sentence_end_def sentence_end_spec_def)
next
  case False
  let ?lo = "i - 64" and ?r = "region 0 i p" and ?P = "is_alnum uni"
  have reg: "region ?lo i p = drop ?lo ?r" using False assms by (intro region_drop) auto
  have "length ?r \<ge> i - 1" using assms by (auto simp: region_def Let_def)
  then have "?lo < length ?r" using False by linarith
  then have ne: "drop ?lo ?r \<noteq> []" by simp
  have "(if trailing_word uni ?lo i p \<noteq> [] \<and> length (trailing_word uni ?lo i p) = length (region ?lo i p) \<and> 0 < ?lo
      then trailing_word uni 0 i p else trailing_word uni ?lo i p) = trailing_word uni 0 i p"
  proof (cases "takeWhile ?P (rev (drop ?lo ?r)) = rev (drop ?lo ?r)")
    case True
    then have "trailing_word uni ?lo i p = region ?lo i p"
      unfolding trailing_word_def reg by (simp only: rev_rev_ident)
    with ne reg False show ?thesis by auto
  next
    case whole: False
    from takeWhile_suffix [OF whole, of "take ?lo ?r"] have
      "trailing_word uni ?lo i p = trailing_word uni 0 i p" by (simp add: trailing_word_def reg)
    then show ?thesis by simp
  qed
  then show ?thesis unfolding is_sentence_end_def sentence_end_spec_def Let_def by simp
qed

definition ascii :: unicode where
  "ascii = \<lparr>is_alnum = (\<lambda>c. 48 \<le> c \<and> c \<le> 57 \<or> 97 \<le> c \<and> c \<le> 122), is_digit = (\<lambda>c. 48 \<le> c \<and> c \<le> 57),
     is_alpha = (\<lambda>c. 97 \<le> c \<and> c \<le> 122), lowered = id\<rparr>"

lemma lookback_is_exact_witness:
  "is_sentence_end ascii [110, 111, 46, 32, 97] 2 = sentence_end_spec ascii [110, 111, 46, 32, 97] 2"
  by (rule lookback_is_exact) simp

subsection \<open>The loops\<close>

text \<open>What the tokenizer is relied on for: one character never exceeds the budget.\<close>

definition small_characters :: "(codes \<Rightarrow> nat) \<Rightarrow> bool" where
  "small_characters tok \<longleftrightarrow> (\<forall>c. tok [c] \<le> 512)"

lemma tok_take_1: "small_characters tok \<Longrightarrow> rest \<noteq> [] \<Longrightarrow> tok (take 1 rest) \<le> 512"
  by (cases rest) (simp_all add: small_characters_def)

lemma grow_ends:
  assumes "0 < high" and "high \<le> ceiling" and "low < high"
  shows "\<exists>l h. grow tok rest ceiling low high = Some (l, h) \<and> l \<le> h \<and> h \<le> ceiling \<and> 0 < h \<and>
    (l = h \<or> l < h \<and> 512 < tok (take h rest))"
  using assms
proof (induction "ceiling - high" arbitrary: low high rule: less_induct)
  case less
  show ?case
  proof (cases "tok (take high rest) \<le> 512 \<and> high \<noteq> ceiling")
    case True
    let ?h = "min (high * 2) ceiling"
    have "ceiling - ?h < ceiling - high" "0 < ?h" "?h \<le> ceiling" "high < ?h" using True less.prems by auto
    from less.hyps [OF this] show ?thesis using True by (subst grow.simps) simp
  next
    case False
    then show ?thesis using less.prems by (subst grow.simps) auto
  qed
qed

lemma bisect_bounds:
  assumes "low < high" and "512 < tok (take high rest)" and "small_characters tok" and "rest \<noteq> []"
  shows "0 < bisect tok rest low high \<and> bisect tok rest low high < high"
  using assms
proof (induction tok rest low high rule: bisect.induct)
  case (1 tok rest low high)
  show ?case
  proof (cases "low + 1 < high")
    case True
    let ?m = "(low + high) div 2"
    have m: "low < ?m" "?m < high" using True by auto
    show ?thesis
    proof (cases "tok (take ?m rest) \<le> 512")
      case small: True
      then show ?thesis using "1.IH"(1) [OF True small m(2) "1.prems"(2-4)] True by (subst bisect.simps) (simp add: bisect.simps)
    next
      case False
      then have "512 < tok (take ?m rest)" by simp
      from "1.IH"(2) [OF True False m(1) this "1.prems"(3,4)] show ?thesis using True False m(2)
        by (subst (1 2) bisect.simps) simp
    qed
  next
    case False
    then have "high = low + 1" using "1.prems"(1) by simp
    moreover have "low \<noteq> 0"
    proof
      assume "low = 0"
      with \<open>high = low + 1\<close> have "512 < tok (take 1 rest)" using "1.prems"(2) by simp
      then show False using tok_take_1 [OF "1.prems"(3,4)] by simp
    qed
    ultimately show ?thesis by (subst (1 2) bisect.simps) simp
  qed
qed

lemma bisect_same: "bisect tok rest n n = n"
  by (subst bisect.simps) simp

lemma line_break_le: "line_break xs \<le> length xs"
  by (cases xs) (auto split: list.splits simp: length_takeWhile_le le_SucI)

lemma line_breaks_le: "snd (line_breaks xs) \<le> length xs"
proof (induction xs rule: line_breaks.induct)
  case (1 xs)
  show ?case
  proof (cases "line_break xs = 0")
    case False
    from "1.IH" [OF False] line_break_le [of xs] show ?thesis
      by (subst line_breaks.simps) (auto split: prod.splits)
  qed (subst line_breaks.simps, simp)
qed

lemma matches_le: "paragraph_at xs \<le> length xs" "sentence_at xs \<le> length xs"
  using line_breaks_le [of xs]
  by (auto simp: paragraph_at_def sentence_at_def length_takeWhile_le split: prod.splits list.splits)

lemma scan_bounds:
  assumes "\<forall>xs. m xs \<le> length xs" and "(a, b) \<in> set (scan m xs i)"
  shows "i \<le> a \<and> a < b \<and> b \<le> i + length xs"
  using assms
proof (induction m xs i rule: scan.induct)
  case (1 m xs i)
  consider "xs = []" | "xs \<noteq> []" "m xs = 0" | "xs \<noteq> []" "m xs \<noteq> 0" by blast
  then show ?case
  proof cases
    case 1
    then show ?thesis using "1.prems"(2) by (simp add: scan.simps [of m "[]"])
  next
    case 2
    then have "(a, b) \<in> set (scan m (tl xs) (Suc i))"
      using "1.prems"(2) by (simp add: scan.simps [of m xs])
    from "1.IH"(1) [OF 2 "1.prems"(1) this] 2 show ?thesis by (cases xs) auto
  next
    case 3
    have le: "m xs \<le> length xs" using "1.prems"(1) by simp
    from 3 have "(a, b) = (i, i + m xs) \<or> (a, b) \<in> set (scan m (drop (m xs) xs) (i + m xs))"
      using "1.prems"(2) by (simp add: scan.simps [of m xs])
    then show ?thesis
    proof
      assume "(a, b) = (i, i + m xs)"
      then show ?thesis using 3 le by simp
    next
      assume "(a, b) \<in> set (scan m (drop (m xs) xs) (i + m xs))"
      from "1.IH"(2) [OF 3 "1.prems"(1) this] le show ?thesis by auto
    qed
  qed
qed

lemma last_match_end:
  assumes "\<forall>xs. m xs \<le> length xs" and "ys \<noteq> []" and "set ys \<subseteq> set (scan m xs 0)"
  shows "0 < snd (last ys) \<and> snd (last ys) \<le> length xs"
proof -
  have "(fst (last ys), snd (last ys)) \<in> set (scan m xs 0)" using assms(2,3) last_in_set by fastforce
  from scan_bounds [OF assms(1) this] show ?thesis by simp
qed

lemma natural_end_bounds:
  assumes "0 < low" and "low \<le> length rest"
  shows "0 < natural_end uni rest low \<and> natural_end uni rest low \<le> low"
proof -
  let ?p = "take low rest" and ?f = "\<lambda>(i, _). is_sentence_end uni (take low rest) i"
  let ?chosen = "if filter ?f (scan sentence_at ?p 0) \<noteq> [] then filter ?f (scan sentence_at ?p 0) else scan sentence_at ?p 0"
  have len: "length ?p = low" using assms by simp
  have "scan paragraph_at ?p 0 \<noteq> [] \<Longrightarrow> 0 < snd (last (scan paragraph_at ?p 0)) \<and> snd (last (scan paragraph_at ?p 0)) \<le> low"
    using last_match_end [of paragraph_at "scan paragraph_at ?p 0" ?p] matches_le len by simp
  moreover have "scan sentence_at ?p 0 \<noteq> [] \<Longrightarrow> 0 < snd (last ?chosen) \<and> snd (last ?chosen) \<le> low"
    using last_match_end [of sentence_at ?chosen ?p] matches_le len by auto
  ultimately show ?thesis using assms(1) unfolding natural_end_def Let_def by simp
qed

lemma shrink_ends:
  assumes "0 < e" and "small_characters tok" and "rest \<noteq> []"
  shows "\<exists>e'. shrink tok rest e = Some e' \<and> 0 < e' \<and> e' \<le> e \<and> tok (take e' rest) \<le> 512"
  using assms(1)
proof (induction e)
  case (Suc e)
  show ?case
  proof (cases "512 < tok (take (Suc e) rest)")
    case True
    then have "0 < e" using tok_take_1 [OF assms(2,3)] by (cases e) auto
    with Suc.IH True show ?thesis by (subst shrink.simps) (auto intro: le_SucI)
  qed (subst shrink.simps, simp)
qed simp

lemma slice_end_bounds:
  assumes "small_characters tok" and "rest \<noteq> []"
  shows "\<exists>e. slice_end uni tok rest = Some e \<and> 0 < e \<and> e \<le> length rest \<and> e \<le> 32768 \<and> tok (take e rest) \<le> 512"
proof -
  let ?c = "min (length rest) 32768"
  have "0 < min 512 ?c" "min 512 ?c \<le> ?c" using assms(2) by auto
  from grow_ends [OF this this(1), of tok rest]
  obtain l h where g: "grow tok rest ?c 0 (min 512 ?c) = Some (l, h)" "h \<le> ?c" "0 < h"
      "l = h \<or> l < h \<and> 512 < tok (take h rest)" by blast
  have "0 < bisect tok rest l h \<and> bisect tok rest l h \<le> ?c"
    using g(4)
  proof
    assume "l = h" then show ?thesis using g by (simp add: bisect_same)
  next
    assume "l < h \<and> 512 < tok (take h rest)"
    then show ?thesis using bisect_bounds [of l h tok rest] assms g(2) by auto
  qed
  then have "0 < natural_end uni rest (bisect tok rest l h) \<and> natural_end uni rest (bisect tok rest l h) \<le> ?c"
    using natural_end_bounds [of "bisect tok rest l h" rest uni] by auto
  with shrink_ends [of "natural_end uni rest (bisect tok rest l h)", OF _ assms] obtain e where
    "shrink tok rest (natural_end uni rest (bisect tok rest l h)) = Some e" "0 < e" "e \<le> ?c" "tok (take e rest) \<le> 512"
    by (meson le_trans)
  then show ?thesis using g(1) unfolding slice_end_def Let_def by simp
qed

subsection \<open>The slices\<close>

definition good_slice :: "(codes \<Rightarrow> nat) \<Rightarrow> codes \<Rightarrow> bool" where
  "good_slice tok c \<longleftrightarrow> c \<noteq> [] \<and> length c \<le> 32768 \<and> tok c \<le> 512"

lemma chunk_document_total:
  assumes "small_characters tok"
  shows "\<exists>cs. chunk_document uni tok t = Some cs \<and> concat cs = t \<and> list_all (good_slice tok) cs"
proof (induction t rule: measure_induct_rule [where f = length])
  case (less t)
  show ?case
  proof (cases "t = []")
    case True
    then show ?thesis by (subst chunk_document.simps) simp
  next
    case False
    obtain e where e: "slice_end uni tok t = Some e" "0 < e" "e \<le> length t" "e \<le> 32768" "tok (take e t) \<le> 512"
      using slice_end_bounds [OF assms False] by blast
    then have "length (drop e t) < length t" using False by simp
    from less.IH [OF this] obtain cs where "chunk_document uni tok (drop e t) = Some cs"
      "concat cs = drop e t" "list_all (good_slice tok) cs" by blast
    moreover from this(1) have "chunk_document uni tok t = Some (take e t # cs)"
      using e(1) False by (subst chunk_document.simps) simp
    moreover have "good_slice tok (take e t)" using e False by (simp add: good_slice_def)
    ultimately show ?thesis by auto
  qed
qed

text \<open>
  C17. Slicing ends on every document, its slices joined are the document, and each of them is not
  empty, at most 32768 characters long and at most 512 tokens large, whatever the tokenizer, as long
  as no single character is over the budget.
\<close>

theorem chunk_document_lossless:
  assumes "small_characters tok"
  shows "\<exists>cs. chunk_document uni tok t = Some cs \<and> concat cs = t \<and> list_all (good_slice tok) cs"
  using chunk_document_total [OF assms] by simp

theorem chunk_document_lossless_witness:
  "\<exists>cs. chunk_document ascii length (replicate 3000 97) = Some cs \<and> concat cs = replicate 3000 97 \<and>
    list_all (good_slice length) cs"
  by (rule chunk_document_lossless) (simp add: small_characters_def)

subsection \<open>Articles\<close>

lemma chunk_pieces_lossless:
  assumes "small_characters tok"
  shows "\<exists>cs. chunk_pieces uni tok ps = Some cs \<and> concat cs = concat ps"
proof (induction ps)
  case (Cons p ps)
  from chunk_document_total [OF assms, of uni p] obtain cs where
    "chunk_document uni tok p = Some cs" "concat cs = p" by blast
  with Cons show ?case by auto
qed simp

lemma chunk_pieces_append:
  "chunk_pieces uni tok (ps @ qs) = Option.bind (chunk_pieces uni tok ps) (\<lambda>as.
     Option.bind (chunk_pieces uni tok qs) (\<lambda>bs. Some (as @ bs)))"
  by (induction ps) (auto simp: Option.bind_assoc)

lemma sorted_last_le:
  fixes xs :: "'a :: linorder list"
  shows "sorted xs \<Longrightarrow> x \<in> set xs \<Longrightarrow> x \<le> last xs"
  by (induction xs) auto

lemma concat_pieces:
  assumes "sorted (a # bs)"
  shows "concat (pieces t (a # bs)) = drop a (take (last (a # bs)) t)"
  using assms
proof (induction bs arbitrary: a)
  case (Cons b bs)
  let ?l = "last (b # bs)"
  have le: "a \<le> b" "b \<le> ?l" using Cons.prems by (auto simp: Cons.prems)
  have "drop a (take ?l t) = drop a (take b (take ?l t) @ drop b (take ?l t))"
    by (simp only: append_take_drop_id)
  also have "\<dots> = drop a (take b t) @ drop b (take ?l t)"
    using le by (cases "length t \<le> b") (auto simp: min_def)
  finally show ?case using Cons by simp
qed simp

lemma pieces_split: "pieces t (as @ s # bs) = pieces t (as @ [s]) @ pieces t (s # bs)"
  by (induction as rule: induct_list012) auto

lemma pieces_around:
  assumes "sorted (us @ s # vs)" and "{0, length t} \<subseteq> set (us @ s # vs)" and "\<forall>x \<in> set (us @ s # vs). x \<le> length t"
  shows "concat (pieces t (us @ [s])) = take s t" and "concat (pieces t (s # vs)) = drop s t"
proof -
  have s: "sorted (us @ [s])" "sorted (s # vs)" using assms(1) by (auto simp: sorted_append)
  show "concat (pieces t (us @ [s])) = take s t"
  proof (cases us)
    case Nil
    then have "s = 0" using assms(1,2) by auto
    with Nil show ?thesis by simp
  next
    case (Cons u us')
    then have "u = 0" using assms(1,2) by (auto simp: sorted_append)
    with Cons s(1) concat_pieces [of u "us' @ [s]" t] show ?thesis by simp
  qed
  have "last (s # vs) \<in> set (us @ s # vs)" by simp
  moreover have "length t \<le> last (s # vs)"
  proof -
    have "last (us @ s # vs) = last (s # vs)" by simp
    then show ?thesis using assms(2) sorted_last_le [OF assms(1)] by auto
  qed
  ultimately have "last (s # vs) = length t" using assms(3) by (meson le_antisym)
  with concat_pieces [OF s(2), of t] show "concat (pieces t (s # vs)) = drop s t" by simp
qed

text \<open>
  In a document with at least three article headings and no case-law preamble every heading starts
  a slice: the slices before it join to the text before it and the others to the text from it on.
\<close>

lemma articles_start_slices:
  assumes "small_characters tok" and "3 \<le> length (headings t)" and "\<not> preamble (take (hd (headings t)) t)"
    and "\<forall>h \<in> set (headings t). h \<le> length t" and "s \<in> set (headings t)"
  shows "\<exists>as bs. chunk_legal headings preamble uni tok t = Some (as @ bs) \<and>
    concat as = take s t \<and> concat bs = drop s t"
proof -
  define b where "b = sorted_list_of_set (set (0 # length t # headings t))"
  have b: "set b = {0, length t} \<union> set (headings t)" "sorted b"
    unfolding b_def by (simp_all only: set_sorted_list_of_set sorted_sorted_list_of_set finite_set) simp
  with assms(5) obtain us vs where uv: "b = us @ s # vs" by (metis UnCI split_list)
  have le: "\<forall>x \<in> set b. x \<le> length t" using b(1) assms(4) by auto
  note around = pieces_around [OF b(2) [unfolded uv], of t]
  obtain as bs where "chunk_pieces uni tok (pieces t (us @ [s])) = Some as" "concat as = take s t"
    "chunk_pieces uni tok (pieces t (s # vs)) = Some bs" "concat bs = drop s t"
    using chunk_pieces_lossless [OF assms(1)] around b(1) le uv by (metis Un_upper1)
  then have "chunk_pieces uni tok (pieces t b) = Some (as @ bs)" "concat as = take s t" "concat bs = drop s t"
    unfolding uv by (subst pieces_split, simp_all add: chunk_pieces_append)
  then show ?thesis using assms(2,3) unfolding chunk_legal_def Let_def b_def by auto
qed

text \<open>Three headings, the second at position 4.\<close>

lemma articles_start_slices_witness:
  "\<exists>as bs. chunk_legal (\<lambda>t. [0, 4, 7]) (\<lambda>t. False) ascii length [1, 2, 3, 10, 5, 6, 10, 8, 9] = Some (as @ bs) \<and>
    concat as = take 4 [1, 2, 3, 10, 5, 6, 10, 8, 9] \<and> concat bs = drop 4 [1, 2, 3, 10, 5, 6, 10, 8, 9]"
  by (rule articles_start_slices) (simp_all add: small_characters_def)

end
