(* ===== verification/Bounded_Cache.thy ===== *)
theory Bounded_Cache imports Main begin

text \<open>
  \<open>mesa_mcp/bounded_cache.py\<close>: the process-level caches of the gateway and the keyed locks that
  serialise its sessions. An \<open>OrderedDict\<close> is the list of its items, least recently used first. Clock
  readings are arguments: one per call of \<open>time.monotonic\<close>.
\<close>

subsection \<open>The cache\<close>

record ('k, 'v) cache =
  max_size :: nat
  default_ttl :: "int option"
  entries :: "('k \<times> 'v \<times> int option) list"

definition new_cache :: "nat \<Rightarrow> int option \<Rightarrow> ('k, 'v) cache option" where
  "new_cache n ttl = (if n < 1 then None else Some \<lparr>max_size = n, default_ttl = ttl, entries = []\<rparr>)"

definition expired :: "int \<Rightarrow> int option \<Rightarrow> bool" where
  "expired now e = (case e of None \<Rightarrow> False | Some t \<Rightarrow> t \<le> now)"

definition prune_expired :: "int \<Rightarrow> ('k, 'v) cache \<Rightarrow> ('k, 'v) cache" where
  "prune_expired now c = c\<lparr>entries := filter (\<lambda>(_, _, e). \<not> expired now e) (entries c)\<rparr>"

definition without :: "'k \<Rightarrow> ('k \<times> 'a) list \<Rightarrow> ('k \<times> 'a) list" where
  "without k es = filter (\<lambda>x. fst x \<noteq> k) es"

text \<open>\<open>while len(self._cache) > self._max_size: self._cache.popitem(last=False)\<close>\<close>

fun evict :: "nat \<Rightarrow> 'a list \<Rightarrow> 'a list" where
  "evict n [] = []"
| "evict n (x # xs) = (if n < length (x # xs) then evict n xs else x # xs)"

definition expiry :: "int \<Rightarrow> int option \<Rightarrow> ('k, 'v) cache \<Rightarrow> int option" where
  "expiry now ttl c = (case (case ttl of None \<Rightarrow> default_ttl c | Some t \<Rightarrow> Some t) of None \<Rightarrow> None | Some t \<Rightarrow> Some (now + t))"

text \<open>\<open>get\<close> reads the clock twice: to prune and to check the entry.\<close>

definition cache_get :: "int \<Rightarrow> int \<Rightarrow> 'k \<Rightarrow> 'v option \<Rightarrow> ('k, 'v) cache \<Rightarrow> 'v option \<times> ('k, 'v) cache" where
  "cache_get now now' k dflt c =
    (let c = prune_expired now c
     in case map_of (entries c) k of
          None \<Rightarrow> (dflt, c)
        | Some (v, e) \<Rightarrow>
            if expired now' e then (dflt, c\<lparr>entries := without k (entries c)\<rparr>)
            else (Some v, c\<lparr>entries := without k (entries c) @ [(k, v, e)]\<rparr>))"

definition cache_put :: "int \<Rightarrow> int \<Rightarrow> 'k \<Rightarrow> 'v \<Rightarrow> int option \<Rightarrow> ('k, 'v) cache \<Rightarrow> ('k, 'v) cache" where
  "cache_put now now' k v ttl c =
    (let c = prune_expired now c
     in c\<lparr>entries := evict (max_size c) (without k (entries c) @ [(k, v, expiry now' ttl c)])\<rparr>)"

definition cache_setdefault :: "int \<Rightarrow> int \<Rightarrow> 'k \<Rightarrow> 'v \<Rightarrow> int option \<Rightarrow> ('k, 'v) cache \<Rightarrow> 'v \<times> ('k, 'v) cache" where
  "cache_setdefault now now' k v ttl c =
    (let c = prune_expired now c
     in case map_of (entries c) k of
          Some (v', e) \<Rightarrow> (v', c\<lparr>entries := without k (entries c) @ [(k, v', e)]\<rparr>)
        | None \<Rightarrow> (v, c\<lparr>entries := evict (max_size c) (entries c @ [(k, v, expiry now' ttl c)])\<rparr>))"

definition cache_pop :: "'k \<Rightarrow> 'v option \<Rightarrow> ('k, 'v) cache \<Rightarrow> 'v option \<times> ('k, 'v) cache" where
  "cache_pop k dflt c = (case map_of (entries c) k of
      Some (v, _) \<Rightarrow> (Some v, c\<lparr>entries := without k (entries c)\<rparr>)
    | None \<Rightarrow> (dflt, c))"

definition cache_clear :: "('k, 'v) cache \<Rightarrow> ('k, 'v) cache" where
  "cache_clear c = c\<lparr>entries := []\<rparr>"

definition cache_len :: "int \<Rightarrow> ('k, 'v) cache \<Rightarrow> nat \<times> ('k, 'v) cache" where
  "cache_len now c = (let c = prune_expired now c in (length (entries c), c))"

subsection \<open>Runs of a cache\<close>

datatype ('k, 'v) cache_op = Get int int 'k | Put int int 'k 'v "int option" | Setdefault int int 'k 'v "int option"
  | Pop 'k | Clear | Len int

fun run_op :: "('k, 'v) cache_op \<Rightarrow> ('k, 'v) cache \<Rightarrow> ('k, 'v) cache" where
  "run_op (Get n n' k) c = snd (cache_get n n' k None c)"
| "run_op (Put n n' k v ttl) c = cache_put n n' k v ttl c"
| "run_op (Setdefault n n' k v ttl) c = snd (cache_setdefault n n' k v ttl c)"
| "run_op (Pop k) c = snd (cache_pop k None c)"
| "run_op Clear c = cache_clear c"
| "run_op (Len n) c = snd (cache_len n c)"

text \<open>The reference: a map that forgets nothing by itself, told which defaults were stored.\<close>

fun spec_op :: "('k, 'v) cache_op \<Rightarrow> ('k, 'v) cache \<Rightarrow> ('k \<rightharpoonup> 'v \<times> int option) \<Rightarrow> ('k \<rightharpoonup> 'v \<times> int option)" where
  "spec_op (Put n n' k v ttl) c m = m(k \<mapsto> (v, expiry n' ttl c))"
| "spec_op (Setdefault n n' k v ttl) c m =
    (if map_of (entries (prune_expired n c)) k = None then m(k \<mapsto> (v, expiry n' ttl c)) else m)"
| "spec_op (Pop k) c m = m(k := None)"
| "spec_op Clear c m = Map.empty"
| "spec_op _ c m = m"

fun run_ops :: "('k, 'v) cache_op list \<Rightarrow> ('k, 'v) cache \<Rightarrow> ('k \<rightharpoonup> 'v \<times> int option) \<Rightarrow>
    ('k, 'v) cache \<times> ('k \<rightharpoonup> 'v \<times> int option)" where
  "run_ops [] c m = (c, m)"
| "run_ops (x # xs) c m = run_ops xs (run_op x c) (spec_op x c m)"

subsection \<open>Keyed locks\<close>

text \<open>
  A lock object is its number; \<open>users\<close> and \<open>owner\<close> are its fields. \<open>table\<close> is the dict. A task in
  \<open>hold\<close> has a phase. The sections under \<open>_guard\<close> await nothing, so each is one step and the guard
  is free whenever it is asked for; a task may be cancelled only while it waits for its lock.
\<close>

datatype phase = Waiting | Holding | Leaving

record ('k, 't) locks =
  capacity :: nat
  table :: "('k \<times> nat) list"
  users :: "nat \<Rightarrow> int"
  owner :: "nat \<Rightarrow> 't option"
  tasks :: "'t \<Rightarrow> ('k \<times> nat \<times> phase) option"
  fresh :: nat

definition no_locks :: "nat \<Rightarrow> ('k, 't) locks" where
  "no_locks n = \<lparr>capacity = n, table = [], users = (\<lambda>_. 0), owner = (\<lambda>_. None), tasks = Map.empty, fresh = 0\<rparr>"

definition enter :: "'t \<Rightarrow> 'k \<Rightarrow> ('k, 't) locks \<Rightarrow> ('k, 't) locks option" where
  "enter t k l = (case map_of (table l) k of
      Some i \<Rightarrow> Some (l\<lparr>users := (users l)(i := users l i + 1), tasks := (tasks l)(t \<mapsto> (k, i, Waiting))\<rparr>)
    | None \<Rightarrow>
        if capacity l \<le> length (table l) then None
        else let i = fresh l
             in Some (l\<lparr>table := table l @ [(k, i)], users := (users l)(i := 1), owner := (owner l)(i := None),
                  tasks := (tasks l)(t \<mapsto> (k, i, Waiting)), fresh := i + 1\<rparr>))"

definition leave :: "'t \<Rightarrow> 'k \<Rightarrow> nat \<Rightarrow> ('k, 't) locks \<Rightarrow> ('k, 't) locks" where
  "leave t k i l =
    (let l = l\<lparr>users := (users l)(i := users l i - 1), tasks := (tasks l)(t := None)\<rparr>
     in if users l i = 0 \<and> map_of (table l) k = Some i then l\<lparr>table := without k (table l)\<rparr> else l)"

inductive lock_step :: "('k, 't) locks \<Rightarrow> ('k, 't) locks \<Rightarrow> bool" where
  enters: "tasks l t = None \<Longrightarrow> enter t k l = Some l' \<Longrightarrow> lock_step l l'"
| acquires: "tasks l t = Some (k, i, Waiting) \<Longrightarrow> owner l i = None \<Longrightarrow>
    lock_step l (l\<lparr>owner := (owner l)(i := Some t), tasks := (tasks l)(t \<mapsto> (k, i, Holding))\<rparr>)"
| gives_up: "tasks l t = Some (k, i, Waiting) \<Longrightarrow> lock_step l (l\<lparr>tasks := (tasks l)(t \<mapsto> (k, i, Leaving))\<rparr>)"
| releases: "tasks l t = Some (k, i, Holding) \<Longrightarrow>
    lock_step l (l\<lparr>owner := (owner l)(i := None), tasks := (tasks l)(t \<mapsto> (k, i, Leaving))\<rparr>)"
| leaves: "tasks l t = Some (k, i, Leaving) \<Longrightarrow> lock_step l (leave t k i l)"

inductive_cases lock_stepE: "lock_step l l'"

end
