(* ===== verification/Bounded_Cache_Properties.thy ===== *)
theory Bounded_Cache_Properties imports Bounded_Cache begin

text \<open>
  The cache holds at most its size, answers only with values it was given and that have not expired,
  and keeps what was used recently. The keyed locks exclude each other.
\<close>

subsection \<open>Items\<close>

lemma map_of_without: "map_of (without k es) = (map_of es)(k := None)"
  by (induction es) (auto simp: without_def fun_eq_iff)

lemma without_props [simp]:
  "distinct (map fst es) \<Longrightarrow> distinct (map fst (without k es))"
  "k \<notin> fst ` set (without k es)"
  "length (without k es) \<le> length es"
  by (auto simp: without_def distinct_map_filter)

lemma map_of_filter_le:
  assumes "distinct (map fst es)"
  shows "map_of (filter P es) \<subseteq>\<^sub>m map_of es"
  using assms by (induction es) (auto simp: map_le_def image_iff dom_map_of_conv_image_fst)

lemma evict_drop: "evict n es = drop (length es - n) es"
  by (induction es) (auto simp: Suc_diff_le)

lemma map_of_drop_le:
  assumes "distinct (map fst es)"
  shows "map_of (drop n es) \<subseteq>\<^sub>m map_of es"
proof -
  have "distinct (map fst (drop n es))" using assms by (metis distinct_drop drop_map)
  then show ?thesis
    using assms set_drop_subset [of n es]
    by (auto simp: map_le_def dom_map_of_conv_image_fst intro!: map_of_is_SomeI [symmetric] dest: map_of_SomeD)
qed

lemma prune_props:
  "max_size (prune_expired now c) = max_size c" "expiry n ttl (prune_expired now c) = expiry n ttl c"
  "entries (prune_expired now c) = filter (\<lambda>(_, _, e). \<not> expired now e) (entries c)"
  by (simp_all add: prune_expired_def expiry_def split: option.split)

subsection \<open>The invariant\<close>

definition cache_ok :: "('k, 'v) cache \<Rightarrow> ('k \<rightharpoonup> 'v \<times> int option) \<Rightarrow> bool" where
  "cache_ok c m \<longleftrightarrow> distinct (map fst (entries c)) \<and> length (entries c) \<le> max_size c \<and> 1 \<le> max_size c \<and>
     map_of (entries c) \<subseteq>\<^sub>m m"

lemma cache_ok_prune: "cache_ok c m \<Longrightarrow> cache_ok (prune_expired now c) m"
  using map_of_filter_le [of "entries c"]
  by (auto simp: cache_ok_def prune_props distinct_map_filter intro: map_le_trans le_trans [OF length_filter_le])

lemma cache_ok_without:
  assumes "cache_ok c m"
  shows "cache_ok (c\<lparr>entries := without k (entries c)\<rparr>) (m(k := None))"
proof -
  have "length (without k (entries c)) \<le> max_size c"
    using assms without_props(3) [of k "entries c"] unfolding cache_ok_def by linarith
  then show ?thesis using assms by (auto simp: cache_ok_def map_of_without map_le_def)
qed

lemma cache_ok_mono: "cache_ok c m \<Longrightarrow> m \<subseteq>\<^sub>m m' \<Longrightarrow> cache_ok c m'"
  by (auto simp: cache_ok_def intro: map_le_trans)

lemma cache_ok_touch:
  assumes "cache_ok c m" and "map_of (entries c) k = Some (v, e)"
  shows "cache_ok (c\<lparr>entries := without k (entries c) @ [(k, v, e)]\<rparr>) m"
proof -
  have "(k, v, e) \<in> set (entries c)" using assms(2) by (rule map_of_SomeD)
  then have "length (without k (entries c)) < length (entries c)"
    unfolding without_def by (auto intro: length_filter_less)
  moreover have "map_of (without k (entries c) @ [(k, v, e)]) = map_of (entries c)"
    using assms(2) by (auto simp: map_of_without map_add_def fun_eq_iff split: option.splits)
  ultimately show ?thesis using assms(1) by (auto simp: cache_ok_def)
qed

lemma cache_ok_insert:
  assumes "cache_ok c m"
  shows "cache_ok (c\<lparr>entries := evict (max_size c) (without k (entries c) @ [(k, x)])\<rparr>) (m(k \<mapsto> x))"
proof -
  let ?es = "without k (entries c) @ [(k, x)]"
  have d: "distinct (map fst ?es)" using assms by (simp add: cache_ok_def)
  have "map_of ?es = (map_of (entries c))(k \<mapsto> x)"
    by (auto simp: map_of_without map_add_def fun_eq_iff split: option.splits)
  then have "map_of ?es \<subseteq>\<^sub>m m(k \<mapsto> x)" using assms by (auto simp: cache_ok_def map_le_def)
  with map_of_drop_le [OF d] have "map_of (evict (max_size c) ?es) \<subseteq>\<^sub>m m(k \<mapsto> x)"
    unfolding evict_drop by (rule map_le_trans)
  moreover have "distinct (map fst (evict (max_size c) ?es))"
    unfolding evict_drop drop_map [symmetric] using d by (rule distinct_drop)
  moreover have "length (evict (max_size c) ?es) \<le> max_size c" unfolding evict_drop by simp
  ultimately show ?thesis using assms by (simp add: cache_ok_def)
qed

lemma without_absent: "map_of es k = None \<Longrightarrow> without k es = es"
  by (auto simp: without_def map_of_eq_None_iff filter_id_conv)

lemma cache_get_ok: "cache_ok c m \<Longrightarrow> cache_ok (snd (cache_get n n' k d c)) m"
  using cache_ok_prune [of c m n] cache_ok_without [of "prune_expired n c" m k]
  by (auto simp: cache_get_def Let_def intro: cache_ok_touch cache_ok_mono split: option.splits)

lemma cache_put_ok: "cache_ok c m \<Longrightarrow> cache_ok (cache_put n n' k v ttl c) (m(k \<mapsto> (v, expiry n' ttl c)))"
  using cache_ok_insert [OF cache_ok_prune, of c m n k "(v, expiry n' ttl c)"]
  by (simp add: cache_put_def Let_def prune_props)

lemma cache_setdefault_ok:
  assumes "cache_ok c m"
  shows "cache_ok (snd (cache_setdefault n n' k v ttl c)) (spec_op (Setdefault n n' k v ttl) c m)"
proof (cases "map_of (entries (prune_expired n c)) k")
  case None
  then show ?thesis
    using cache_ok_insert [OF cache_ok_prune [OF assms], of n k "(v, expiry n' ttl c)"]
    by (simp add: cache_setdefault_def Let_def prune_props without_absent)
next
  case (Some x)
  obtain v' e where "x = (v', e)" by (cases x)
  with Some cache_ok_touch [OF cache_ok_prune [OF assms], of n k v' e] show ?thesis
    by (simp add: cache_setdefault_def Let_def)
qed

lemma run_op_ok: "cache_ok c m \<Longrightarrow> cache_ok (run_op x c) (spec_op x c m)"
proof (cases x)
  case (Pop k)
  assume ok: "cache_ok c m"
  show ?thesis
  proof (cases "map_of (entries c) k")
    case None
    then show ?thesis using ok Pop by (auto simp: cache_pop_def cache_ok_def map_le_def)
  qed (use ok Pop cache_ok_without [of c m k] in \<open>auto simp: cache_pop_def\<close>)
next
  case Clear
  assume "cache_ok c m" with Clear show ?thesis by (simp add: cache_clear_def cache_ok_def)
next
  case (Len n)
  assume "cache_ok c m" with Len cache_ok_prune show ?thesis by (simp add: cache_len_def Let_def)
qed (auto simp del: spec_op.simps(2) intro: cache_get_ok cache_put_ok [simplified] cache_setdefault_ok)

lemma run_ops_ok: "cache_ok c m \<Longrightarrow> run_ops xs c m = (c', m') \<Longrightarrow> cache_ok c' m'"
  by (induction xs arbitrary: c m) (auto intro: run_op_ok)

lemma new_cache_ok: "new_cache n ttl = Some c \<Longrightarrow> cache_ok c Map.empty"
  by (auto simp: new_cache_def cache_ok_def split: if_splits)

lemma max_size_run_op: "max_size (run_op x c) = max_size c"
  by (cases x) (auto simp: cache_get_def cache_put_def cache_setdefault_def cache_pop_def cache_clear_def cache_len_def
      Let_def prune_props split: option.splits)

lemma max_size_run_ops: "run_ops xs c m = (c', m') \<Longrightarrow> max_size c' = max_size c"
  by (induction xs arbitrary: c m) (auto simp: max_size_run_op)

text \<open>
  C19. After any use of a new cache it holds at most its maximal number of entries, and a lookup answers
  with the default or with the value an unbounded map would hold for the key, which has not expired.
\<close>

theorem cache_refines_map:
  assumes "new_cache n ttl = Some c0" and "run_ops xs c0 Map.empty = (c, m)"
  shows "length (entries c) \<le> n \<and>
    (fst (cache_get now now' k d c) = d \<or>
      (\<exists>v e. m k = Some (v, e) \<and> \<not> expired now e \<and> \<not> expired now' e \<and> fst (cache_get now now' k d c) = Some v))"
proof -
  have ok: "cache_ok c m" by (rule run_ops_ok [OF new_cache_ok [OF assms(1)] assms(2)])
  have "max_size c = n" using max_size_run_ops [OF assms(2)] assms(1) by (auto simp: new_cache_def split: if_splits)
  then have "length (entries c) \<le> n" using ok by (simp add: cache_ok_def)
  moreover have "fst (cache_get now now' k d c) = d \<or> (\<exists>v e. m k = Some (v, e) \<and> \<not> expired now e \<and> \<not> expired now' e \<and>
      fst (cache_get now now' k d c) = Some v)"
  proof (cases "map_of (entries (prune_expired now c)) k")
    case None
    then show ?thesis by (simp add: cache_get_def Let_def)
  next
    case (Some x)
    obtain v e where x: "x = (v, e)" by (cases x)
    have "map_of (entries (prune_expired now c)) \<subseteq>\<^sub>m m" using cache_ok_prune [OF ok] by (simp add: cache_ok_def)
    with Some x have "m k = Some (v, e)" by (auto simp: map_le_def dom_def)
    moreover have "\<not> expired now e" using map_of_SomeD [OF Some] x by (simp add: prune_props)
    ultimately show ?thesis using Some x by (auto simp: cache_get_def Let_def)
  qed
  ultimately show ?thesis by blast
qed

definition small_cache :: "(nat, nat) cache" where
  "small_cache = \<lparr>max_size = 1, default_ttl = Some 5, entries = [(2, 9, Some 6)]\<rparr>"

theorem cache_refines_map_witness:
  "length (entries small_cache) \<le> 1 \<and>
    (fst (cache_get 2 3 2 None small_cache) = None \<or>
      (\<exists>v e. [1 \<mapsto> (7 :: nat, Some 5), 2 \<mapsto> (9, Some 6)] (2 :: nat) = Some (v, e) \<and> \<not> expired 2 e \<and> \<not> expired 3 e \<and>
        fst (cache_get 2 3 2 None small_cache) = Some v))"
  by (rule cache_refines_map [where xs = "[Put 0 0 1 7 None, Put 1 1 2 9 None]" and ttl = "Some 5" and c = small_cache
        and c0 = "small_cache\<lparr>entries := []\<rparr>"
        and m = "[1 \<mapsto> (7, Some 5), 2 \<mapsto> (9, Some 6)]" and k = 2])
     (simp_all add: new_cache_def small_cache_def, simp add: cache_put_def Let_def prune_expired_def expired_def expiry_def without_def)

subsection \<open>Recently used entries\<close>

definition kept :: "'k set \<Rightarrow> 'k \<Rightarrow> 'a \<Rightarrow> ('k \<times> 'a) list \<Rightarrow> bool" where
  "kept U k x es \<longleftrightarrow> distinct (map fst es) \<and> (\<exists>pre suf. es = pre @ (k, x) # suf \<and> fst ` set suf \<subseteq> U)"

lemma kept_filter:
  assumes "kept U k x es" and "P (k, x)"
  shows "kept U k x (filter P es)"
proof -
  obtain pre suf where "es = pre @ (k, x) # suf" "fst ` set suf \<subseteq> U" using assms(1) by (auto simp: kept_def)
  then have "filter P es = filter P pre @ (k, x) # filter P suf" "fst ` set (filter P suf) \<subseteq> U" using assms(2) by auto
  then show ?thesis using assms(1) unfolding kept_def by (meson distinct_map_filter)
qed

lemma kept_append:
  assumes "kept U k x es" and "j \<in> U" and "j \<notin> fst ` set es"
  shows "kept U k x (es @ [(j, y)])"
proof -
  obtain pre suf where "es = pre @ (k, x) # suf" "fst ` set suf \<subseteq> U" using assms(1) by (auto simp: kept_def)
  then have "es @ [(j, y)] = pre @ (k, x) # (suf @ [(j, y)])" "fst ` set (suf @ [(j, y)]) \<subseteq> U" using assms(2) by auto
  moreover have "distinct (map fst (es @ [(j, y)]))" using assms by (auto simp: kept_def)
  ultimately show ?thesis unfolding kept_def by blast
qed

lemma kept_evict:
  assumes "kept U k x es" and "finite U" and "card U < n"
  shows "kept U k x (evict n es)"
proof -
  obtain pre suf where es: "es = pre @ (k, x) # suf" "fst ` set suf \<subseteq> U" using assms(1) by (auto simp: kept_def)
  have "distinct (map fst suf)" using assms(1) es(1) by (simp add: kept_def)
  then have "length suf = card (fst ` set suf)" by (metis distinct_card length_map set_map)
  also have "\<dots> \<le> card U" using es(2) assms(2) by (rule card_mono [rotated])
  finally have "length es - n \<le> length pre" using assms(3) es(1) by simp
  then have "evict n es = drop (length es - n) pre @ (k, x) # suf" unfolding evict_drop using es(1) by simp
  moreover have "distinct (map fst (evict n es))"
    using assms(1) unfolding evict_drop kept_def by (metis distinct_drop drop_map)
  ultimately show ?thesis using es(2) unfolding kept_def by blast
qed

lemma kept_last: "distinct (map fst es) \<Longrightarrow> kept U k x (without k es @ [(k, x)])"
  unfolding kept_def by (rule conjI) (auto intro: exI [where x = "without k es"])

lemma kept_lookup: "kept U k x es \<Longrightarrow> map_of es k = Some x"
  by (auto simp: kept_def)

lemma kept_distinct: "kept U k x es \<Longrightarrow> distinct (map fst es)"
  by (simp add: kept_def)

fun touched :: "('k, 'v) cache_op \<Rightarrow> 'k set" where
  "touched (Get _ _ k) = {k}"
| "touched (Put _ _ k _ _) = {k}"
| "touched (Setdefault _ _ k _ _) = {k}"
| "touched _ = {}"

fun readings :: "('k, 'v) cache_op \<Rightarrow> int list" where
  "readings (Get n n' _) = [n, n']"
| "readings (Put n n' _ _ _) = [n, n']"
| "readings (Setdefault n n' _ _ _) = [n, n']"
| "readings (Len n) = [n]"
| "readings _ = []"

fun removes :: "'k \<Rightarrow> ('k, 'v) cache_op \<Rightarrow> bool" where
  "removes k (Pop j) = (j = k)"
| "removes k (Put _ _ j _ _) = (j = k)"
| "removes k Clear = True"
| "removes k _ = False"

lemma kept_prune: "kept U k (v, e) (entries c) \<Longrightarrow> \<not> expired now e \<Longrightarrow> kept U k (v, e) (entries (prune_expired now c))"
  unfolding prune_props by (rule kept_filter) simp_all

lemma kept_without: "kept U k x es \<Longrightarrow> j \<noteq> k \<Longrightarrow> kept U k x (without j es)"
  unfolding without_def by (rule kept_filter) simp_all

lemma run_op_kept:
  assumes "kept U k (v, e) (entries c)" and "finite U" and "card U < max_size c"
    and "touched x \<subseteq> insert k U" and "\<not> removes k x" and "\<forall>t \<in> set (readings x). \<not> expired t e"
  shows "kept U k (v, e) (entries (run_op x c))"
proof -
  have step: "kept U k (v, e) (without j es @ [(j, y)])" if "kept U k (v, e) es" "j \<in> insert k U" "j = k \<longrightarrow> y = (v, e)" for j es y
  proof (cases "j = k")
    case True
    with that show ?thesis by (simp add: kept_last kept_distinct)
  next
    case False
    with that kept_append [OF kept_without [OF that(1) False]] show ?thesis by simp
  qed
  show ?thesis
  proof (cases x)
    case (Get n n' j)
    then have p: "kept U k (v, e) (entries (prune_expired n c))" using kept_prune [OF assms(1)] assms(6) by simp
    show ?thesis
    proof (cases "map_of (entries (prune_expired n c)) j")
      case None
      then show ?thesis using Get p by (simp add: cache_get_def Let_def)
    next
      case (Some y)
      obtain w f where y: "y = (w, f)" by (cases y)
      have "kept U k (v, e) (without j (entries (prune_expired n c)) @ [(j, w, f)])"
        using Get assms(4) Some y kept_lookup [OF p] by (intro step [OF p]) auto
      moreover have "j \<noteq> k" if "expired n' f" using that Get assms(6) Some y kept_lookup [OF p] by auto
      ultimately show ?thesis using Get Some y kept_without [OF p] by (auto simp: cache_get_def Let_def)
    qed
  next
    case (Put n n' j w ttl)
    then have "kept U k (v, e) (entries (prune_expired n c))" using kept_prune [OF assms(1)] assms(6) by simp
    then have "kept U k (v, e) (without j (entries (prune_expired n c)) @ [(j, w, expiry n' ttl c)])"
      using Put assms(4,5) by (intro step) auto
    then show ?thesis using Put assms(2,3) by (simp add: cache_put_def Let_def prune_props kept_evict)
  next
    case (Setdefault n n' j w ttl)
    then have p: "kept U k (v, e) (entries (prune_expired n c))" using kept_prune [OF assms(1)] assms(6) by simp
    show ?thesis
    proof (cases "map_of (entries (prune_expired n c)) j")
      case None
      then have "j \<noteq> k" using kept_lookup [OF p] by auto
      moreover have "j \<notin> fst ` set (entries (prune_expired n c))" using None by (simp add: map_of_eq_None_iff)
      ultimately have "j \<noteq> k" "j \<notin> fst ` set (entries (prune_expired n c))" by simp_all
      then show ?thesis using None Setdefault p assms(2-4)
        by (auto simp: cache_setdefault_def Let_def prune_props intro!: kept_evict kept_append)
    next
      case (Some y)
      obtain w' f where "y = (w', f)" by (cases y)
      moreover have "kept U k (v, e) (without j (entries (prune_expired n c)) @ [(j, y)])"
        using Some Setdefault assms(4) kept_lookup [OF p] by (intro step [OF p]) auto
      ultimately show ?thesis using Some Setdefault
        by (auto simp: cache_setdefault_def Let_def)
    qed
  next
    case (Len n)
    then show ?thesis using kept_prune [OF assms(1)] assms(6) by (simp add: cache_len_def Let_def)
  qed (use assms in \<open>auto simp: cache_pop_def kept_without split: option.split\<close>)
qed

lemma run_ops_kept:
  assumes "kept U k (v, e) (entries c)" and "finite U" and "card U < max_size c"
    and "\<forall>x \<in> set xs. touched x \<subseteq> insert k U \<and> \<not> removes k x \<and> (\<forall>t \<in> set (readings x). \<not> expired t e)"
  shows "kept U k (v, e) (entries (fst (run_ops xs c m)))"
  using assms
proof (induction xs arbitrary: c m)
  case (Cons x xs)
  have "kept U k (v, e) (entries (run_op x c))" using Cons.prems by (intro run_op_kept) auto
  with Cons show ?case by (simp add: max_size_run_op)
qed simp

text \<open>
  A stored value survives every later use of the cache that neither removes nor replaces its key nor
  outlives it and that touches fewer other keys than the cache has room for.
\<close>

lemma recently_used_survives:
  assumes "cache_ok c m" and "finite U" and "card U < max_size c"
    and "\<forall>x \<in> set xs. touched x \<subseteq> insert k U \<and> \<not> removes k x \<and> (\<forall>t \<in> set (readings x). \<not> expired t (expiry n' ttl c))"
    and "\<not> expired now (expiry n' ttl c)" and "\<not> expired now' (expiry n' ttl c)"
  shows "fst (cache_get now now' k d (fst (run_ops xs (cache_put n n' k v ttl c) m))) = Some v"
proof -
  let ?e = "expiry n' ttl c" and ?c = "cache_put n n' k v ttl c"
  have "kept U k (v, ?e) (entries ?c)"
    using cache_ok_prune [OF assms(1), of n] assms(2,3)
    by (auto simp: cache_put_def Let_def cache_ok_def prune_props intro!: kept_evict kept_last)
  moreover have "max_size ?c = max_size c" by (simp add: cache_put_def Let_def prune_props)
  ultimately have "kept U k (v, ?e) (entries (fst (run_ops xs ?c m)))" using assms(2-4) by (intro run_ops_kept) auto
  from kept_lookup [OF kept_prune [OF this assms(5)]] assms(6) show ?thesis by (simp add: cache_get_def Let_def)
qed

text \<open>Room for two: key 1 is stored, key 2 is stored twice.\<close>

lemma recently_used_survives_witness:
  "fst (cache_get 3 3 1 None (fst (run_ops [Put 1 1 (2 :: nat) 8 None, Put 2 2 2 9 None]
      (cache_put 0 0 1 7 None \<lparr>max_size = 2, default_ttl = Some 5, entries = []\<rparr>) Map.empty))) = Some (7 :: nat)"
  by (rule recently_used_survives [where U = "{2 :: nat}"]) (simp_all add: cache_ok_def expired_def expiry_def)

subsection \<open>The keyed locks\<close>

definition clients :: "('k, 't) locks \<Rightarrow> nat \<Rightarrow> 't set" where
  "clients l i = {t. \<exists>k p. tasks l t = Some (k, i, p)}"

definition locks_ok :: "('k, 't) locks \<Rightarrow> bool" where
  "locks_ok l \<longleftrightarrow> distinct (map fst (table l)) \<and> length (table l) \<le> capacity l \<and>
     (\<forall>k i. map_of (table l) k = Some i \<longrightarrow> i < fresh l) \<and>
     (\<forall>k k' i. map_of (table l) k = Some i \<longrightarrow> map_of (table l) k' = Some i \<longrightarrow> k = k') \<and>
     (\<forall>k i. map_of (table l) k = Some i \<longrightarrow> finite (clients l i) \<and> clients l i \<noteq> {} \<and> users l i = int (card (clients l i))) \<and>
     (\<forall>t k i p. tasks l t = Some (k, i, p) \<longrightarrow> map_of (table l) k = Some i) \<and>
     (\<forall>t k i. tasks l t = Some (k, i, Holding) \<longrightarrow> owner l i = Some t)"

lemma locks_okD:
  assumes "locks_ok l"
  shows "distinct (map fst (table l))" "length (table l) \<le> capacity l"
    "map_of (table l) k = Some i \<Longrightarrow> i < fresh l"
    "map_of (table l) k = Some i \<Longrightarrow> map_of (table l) k' = Some i \<Longrightarrow> k = k'"
    "map_of (table l) k = Some i \<Longrightarrow> finite (clients l i) \<and> clients l i \<noteq> {} \<and> users l i = int (card (clients l i))"
    "tasks l t = Some (k, i, p) \<Longrightarrow> map_of (table l) k = Some i"
    "tasks l t = Some (k, i, Holding) \<Longrightarrow> owner l i = Some t"
  using assms unfolding locks_ok_def by blast+

lemma locks_ok_enter:
  assumes "locks_ok l" and "tasks l t = None" and "enter t k l = Some l'"
  shows "locks_ok l'"
proof (cases "map_of (table l) k")
  case (Some i)
  note ok = locks_okD [OF assms(1)]
  have l': "l' = l\<lparr>users := (users l)(i := users l i + 1), tasks := (tasks l)(t \<mapsto> (k, i, Waiting))\<rparr>"
    using assms(3) Some by (simp add: enter_def)
  have c: "clients l' j = (if j = i then insert t (clients l i) else clients l j)" for j
    using assms(2) l' by (auto simp: clients_def)
  have "t \<notin> clients l i" using assms(2) by (simp add: clients_def)
  then have "finite (clients l' j) \<and> clients l' j \<noteq> {} \<and> users l' j = int (card (clients l' j))" if "map_of (table l) k' = Some j" for k' j
    using ok(5) [OF that] unfolding c by (auto simp: l')
  moreover have "table l' = table l" "capacity l' = capacity l" "fresh l' = fresh l" "owner l' = owner l"
      "tasks l' = (tasks l)(t \<mapsto> (k, i, Waiting))" by (simp_all add: l')
  ultimately show ?thesis using ok Some unfolding locks_ok_def by auto
next
  case None
  note ok = locks_okD [OF assms(1)]
  let ?i = "fresh l"
  have l': "l' = l\<lparr>table := table l @ [(k, ?i)], users := (users l)(?i := 1), owner := (owner l)(?i := None),
      tasks := (tasks l)(t \<mapsto> (k, ?i, Waiting)), fresh := ?i + 1\<rparr>" and cap: "length (table l) < capacity l"
    using assms(3) None by (auto simp: enter_def Let_def split: if_splits)
  have new: "i \<noteq> ?i" if "map_of (table l) k' = Some i" for k' i using ok(3) [OF that] by simp
  have m: "map_of (table l') = (map_of (table l))(k \<mapsto> ?i)"
    using None l' by (auto simp: map_add_def fun_eq_iff split: option.split)
  have "clients l ?i = {}" using new [OF ok(6)] by (auto simp: clients_def)
  then have c: "clients l' j = (if j = ?i then {t} else clients l j)" for j
    using assms(2) l' by (auto simp: clients_def)
  have "distinct (map fst (table l'))" using ok(1) None l' by (auto simp: map_of_eq_None_iff)
  moreover have "\<forall>k' i. map_of (table l') k' = Some i \<longrightarrow> finite (clients l' i) \<and> clients l' i \<noteq> {} \<and> users l' i = int (card (clients l' i))"
    using ok(5) new unfolding m by (auto simp: c) (auto simp: l')
  moreover have "\<forall>k' k'' i. map_of (table l') k' = Some i \<longrightarrow> map_of (table l') k'' = Some i \<longrightarrow> k' = k''"
    using ok(4) new unfolding m by (auto dest: new)
  moreover have "\<forall>t' k' i p. tasks l' t' = Some (k', i, p) \<longrightarrow> map_of (table l') k' = Some i"
    using ok(6) None unfolding m by (auto simp: l')
  moreover have "\<forall>t' k' i. tasks l' t' = Some (k', i, Holding) \<longrightarrow> owner l' i = Some t'"
    using ok(7) new [OF ok(6)] by (auto simp: l')
  moreover have "\<forall>k' i. map_of (table l') k' = Some i \<longrightarrow> i < fresh l'" using ok(3) unfolding m by (auto simp: l' less_SucI)
  ultimately show ?thesis using cap unfolding locks_ok_def by (simp add: l')
qed

lemma locks_ok_move:
  assumes "locks_ok l" and "tasks l t = Some (k, i, p)"
    and "\<forall>t' k' j. tasks l t' = Some (k', j, Holding) \<longrightarrow> t' \<noteq> t \<longrightarrow> o' j = Some t'" and "q = Holding \<longrightarrow> o' i = Some t"
  shows "locks_ok (l\<lparr>owner := o', tasks := (tasks l)(t \<mapsto> (k, i, q))\<rparr>)"
proof -
  have "clients (l\<lparr>owner := o', tasks := (tasks l)(t \<mapsto> (k, i, q))\<rparr>) = clients l"
    using assms(2) by (auto simp: clients_def fun_eq_iff)
  then show ?thesis using locks_okD [OF assms(1)] assms(2-4) unfolding locks_ok_def by auto
qed

lemma locks_ok_leave:
  assumes "locks_ok l" and "tasks l t = Some (k, i, p)"
  shows "locks_ok (leave t k i l)"
proof -
  note ok = locks_okD [OF assms(1)]
  note ki = ok(6) [OF assms(2)]
  define l' where "l' = l\<lparr>users := (users l)(i := users l i - 1), tasks := (tasks l)(t := None)\<rparr>"
  have c: "clients l' j = (if j = i then clients l i - {t} else clients l j)" for j
    using assms(2) unfolding l'_def by (auto simp: clients_def)
  have t: "t \<in> clients l i" using assms(2) by (auto simp: clients_def)
  have u: "users l' j = int (card (clients l' j))" "finite (clients l' j)" if "map_of (table l) k' = Some j" for k' j
  proof -
    have "card (clients l i) = Suc (card (clients l i - {t}))" using ok(5) [OF ki] t by (intro card.remove) auto
    then show "users l' j = int (card (clients l' j))" "finite (clients l' j)"
      using ok(5) [OF that] unfolding c by (auto simp: l'_def)
  qed
  show ?thesis
  proof (cases "users l' i = 0")
    case True
    then have empty: "clients l' i = {}" using u [OF ki] by simp
    have leave: "leave t k i l = l'\<lparr>table := without k (table l)\<rparr>"
      using True ki unfolding leave_def l'_def by simp
    have "tasks l' t' \<noteq> Some (k, j, q)" for t' j q
    proof
      assume t': "tasks l' t' = Some (k, j, q)"
      then have "tasks l t' = Some (k, j, q)" by (auto simp: l'_def split: if_splits)
      with ok(6) ki have "j = i" by fastforce
      with t' empty show False by (auto simp: clients_def)
    qed
    then have tk: "k' \<noteq> k" "tasks l t' = Some (k', j, q)" if "tasks l' t' = Some (k', j, q)" for t' k' j q
      using that by blast (use that in \<open>simp add: l'_def split: if_splits\<close>)
    have cl: "clients (leave t k i l) = clients l'" "users (leave t k i l) = users l'"
        "tasks (leave t k i l) = tasks l'" "owner (leave t k i l) = owner l" "fresh (leave t k i l) = fresh l"
        "capacity (leave t k i l) = capacity l" "table (leave t k i l) = without k (table l)"
      by (simp_all add: leave clients_def fun_eq_iff) (simp_all add: l'_def)
    have T: "map_of (without k (table l)) k' = Some j \<longleftrightarrow> k' \<noteq> k \<and> map_of (table l) k' = Some j" for k' j
      by (simp add: map_of_without)
    have "clients l' j \<noteq> {}" if "map_of (table l) k' = Some j" "k' \<noteq> k" for k' j
      using ok(4) [OF ki] ok(5) [OF that(1)] that by (auto simp: c)
    moreover have "length (without k (table l)) \<le> capacity l"
      using without_props(3) [of k "table l"] ok(2) by (rule le_trans)
    moreover have "distinct (map fst (without k (table l)))" using ok(1) by simp
    moreover have "\<forall>t' k' j q. tasks l' t' = Some (k', j, q) \<longrightarrow> k' \<noteq> k \<and> map_of (table l) k' = Some j"
      using tk ok(6) by blast
    moreover have "\<forall>t' k' j. tasks l' t' = Some (k', j, Holding) \<longrightarrow> owner l j = Some t'" using tk(2) ok(7) by blast
    ultimately show ?thesis unfolding locks_ok_def cl T using u ok(3,4) by blast
  next
    case False
    then have "clients l' i \<noteq> {}" using u [OF ki] by auto
    then have ne: "clients l' j \<noteq> {}" if "map_of (table l) k' = Some j" for k' j using ok(5) [OF that] by (simp add: c)
    have "leave t k i l = l'" using False unfolding leave_def l'_def by simp
    then show ?thesis using ok u ne unfolding locks_ok_def by (auto simp: l'_def)
  qed
qed

lemma locks_ok_step: "lock_step l l' \<Longrightarrow> locks_ok l \<Longrightarrow> locks_ok l'"
proof (induction rule: lock_step.induct)
  case (enters l t k l')
  from enters.prems enters.hyps show ?case by (rule locks_ok_enter)
next
  case (acquires l t k i)
  show ?case using acquires locks_okD(7) [OF acquires.prems] by (intro locks_ok_move) auto
next
  case (gives_up l t k i)
  have "locks_ok (l\<lparr>owner := owner l, tasks := (tasks l)(t \<mapsto> (k, i, Leaving))\<rparr>)"
    using gives_up locks_okD(7) [OF gives_up.prems] by (intro locks_ok_move) auto
  then show ?case by simp
next
  case (releases l t k i)
  have "owner l i = Some t" by (rule locks_okD(7) [OF releases.prems releases.hyps])
  then have "\<forall>t' k' j. tasks l t' = Some (k', j, Holding) \<longrightarrow> t' \<noteq> t \<longrightarrow> ((owner l)(i := None)) j = Some t'"
    using locks_okD(7) [OF releases.prems] by fastforce
  then show ?case using releases by (intro locks_ok_move) auto
next
  case (leaves l t k i)
  from leaves.prems leaves.hyps show ?case by (rule locks_ok_leave)
qed

lemma locks_ok_reachable: "lock_step\<^sup>*\<^sup>* (no_locks n) l \<Longrightarrow> locks_ok l \<and> capacity l = n"
proof (induction rule: rtranclp_induct)
  case base
  show ?case by (simp add: locks_ok_def no_locks_def)
next
  case (step l l')
  moreover have "capacity l' = capacity l" using step.hyps(2)
    by (cases rule: lock_step.cases) (auto simp: enter_def leave_def Let_def split: option.splits if_splits)
  ultimately show ?case using locks_ok_step by blast
qed

text \<open>
  Whatever the tasks do, at most one of them holds the lock of a key, there are never more locks
  than the capacity, and a lock is in the table exactly while a task holds, awaits or is leaving it.
\<close>

lemma keyed_locks_exclude:
  assumes "lock_step\<^sup>*\<^sup>* (no_locks n) l"
  shows "(\<forall>t t' k i j. tasks l t = Some (k, i, Holding) \<and> tasks l t' = Some (k, j, Holding) \<longrightarrow> t = t') \<and>
    length (table l) \<le> n \<and> dom (map_of (table l)) = {k. \<exists>t i p. tasks l t = Some (k, i, p)}"
proof -
  have ok: "locks_ok l" "capacity l = n" using locks_ok_reachable [OF assms] by auto
  note okD = locks_okD [OF ok(1)]
  have "t = t'" if "tasks l t = Some (k, i, Holding)" "tasks l t' = Some (k, j, Holding)" for t t' k i j
  proof -
    have "i = j" using okD(6) [OF that(1)] okD(6) [OF that(2)] by simp
    then show ?thesis using okD(7) [OF that(1)] okD(7) [OF that(2)] by simp
  qed
  moreover have "dom (map_of (table l)) = {k. \<exists>t i p. tasks l t = Some (k, i, p)}"
  proof (intro set_eqI iffI)
    fix k assume "k \<in> dom (map_of (table l))"
    then obtain i where i: "map_of (table l) k = Some i" by blast
    with okD(5) obtain t k' p where t: "tasks l t = Some (k', i, p)" by (fastforce simp: clients_def)
    with okD(4) [OF i okD(6) [OF t]] show "k \<in> {k. \<exists>t i p. tasks l t = Some (k, i, p)}" by blast
  next
    fix k assume "k \<in> {k. \<exists>t i p. tasks l t = Some (k, i, p)}"
    then show "k \<in> dom (map_of (table l))" using okD(6) by fastforce
  qed
  ultimately show ?thesis using okD(2) ok(2) by blast
qed

definition one_holder :: "(nat, nat) locks" where
  "one_holder = \<lparr>capacity = 1, table = [(5, 0)], users = (\<lambda>_. 0)(0 := 1), owner = (\<lambda>_. None)(0 := Some 7),
     tasks = [7 \<mapsto> (5, 0, Holding)], fresh = 1\<rparr>"

lemma one_holder_reachable: "lock_step\<^sup>*\<^sup>* (no_locks 1) one_holder"
proof -
  have "lock_step (no_locks 1) (one_holder\<lparr>owner := (\<lambda>_. None), tasks := [7 \<mapsto> (5, 0, Waiting)]\<rparr>)"
    by (rule lock_step.enters [where t = 7 and k = 5]) (simp_all add: no_locks_def enter_def one_holder_def)
  moreover have "lock_step (one_holder\<lparr>owner := (\<lambda>_. None), tasks := [7 \<mapsto> (5, 0, Waiting)]\<rparr>) one_holder"
    using lock_step.acquires [of "one_holder\<lparr>owner := (\<lambda>_. None), tasks := [7 \<mapsto> (5, 0, Waiting)]\<rparr>" 7 5 0]
    by (simp add: one_holder_def)
  ultimately show ?thesis by (meson converse_rtranclp_into_rtranclp r_into_rtranclp)
qed

lemma keyed_locks_exclude_witness:
  "length (table one_holder) \<le> 1 \<and> dom (map_of (table one_holder)) = {k. \<exists>t i p. tasks one_holder t = Some (k, i, p)}"
  using keyed_locks_exclude [OF one_holder_reachable] by blast

end
