(* ===== verification/Gateway.thy ===== *)
theory Gateway imports Prelude begin

text \<open>
  The MCP gateway: \<open>mesa_mcp/gateway/policy/engine.py\<close>, \<open>mesa_mcp/gateway/operations.py\<close>,
  \<open>mesa_mcp/gateway/approval.py\<close> and the control repositories it reads. A handler is a task that
  stops at every \<open>await\<close> that opens a transaction or calls the V4 service; \<open>advance\<close> runs a task to
  its next stop, so tasks interleave at the granularity of the code's transactions. What the V4 service
  answers is an argument.
\<close>

subsection \<open>Tables\<close>

datatype op_status = CREATED | DENIED | PENDING_APPROVAL | APPROVED | REJECTED | DISPATCHING | SUBMITTED
  | PROCESSING | ACCEPTED | COMMITTED | FAILED

datatype approval_status = A_PENDING | A_APPROVED | A_REJECTED | A_EXPIRED

record operation =
  op_id :: string
  op_client :: string
  op_binding :: string
  op_connection :: string
  op_tool :: string
  op_key :: string
  op_hash :: string
  op_cipher :: string
  op_status :: op_status
  op_approval :: "string option"
  op_mutation :: "string option"
  op_response :: "string option"
  op_error :: "string option"
  op_message :: "string option"
  op_completed :: bool

record approval =
  ap_id :: string
  ap_call :: string
  ap_client :: string
  ap_operation :: string
  ap_hash :: string
  ap_status :: approval_status
  ap_requested :: int
  ap_decided_by :: "string option"
  ap_reason :: "string option"

record rule =
  rule_id :: string
  scope_type :: string
  scope_id :: "string option"
  rule_operation :: string
  effect :: string
  priority :: int

record client =
  cl_id :: string
  cl_principal :: string
  cl_enabled :: bool

record binding =
  bd_id :: string
  bd_client :: string
  bd_project :: string
  bd_tenant :: string
  bd_workspace :: string
  bd_dataset :: string
  bd_enabled :: bool

record connection =
  cn_id :: string
  cn_client :: string
  cn_status :: string
  cn_project :: string

record config =
  rules :: "rule list"
  settings :: "string \<Rightarrow> string option"
  clients :: "client list"
  bindings :: "binding list"
  connections :: "connection list"

datatype mcp_error = Access_Denied | Not_Found | Invalid_Argument | Backend string string bool

subsection \<open>Policy\<close>

definition rule_matches :: "string \<Rightarrow> string option \<Rightarrow> rule \<Rightarrow> bool" where
  "rule_matches client project r \<longleftrightarrow> scope_type r = ''GLOBAL'' \<or>
     (scope_type r = ''CLIENT'' \<and> scope_id r = Some client) \<or> (scope_type r = ''PROJECT'' \<and> scope_id r = project)"

text \<open>The order of strings is the order of code points; \<open>key_less\<close> is the order of the sort key.\<close>

fun text_less :: "string \<Rightarrow> string \<Rightarrow> bool" where
  "text_less xs [] = False"
| "text_less [] (y # ys) = True"
| "text_less (x # xs) (y # ys) = (if x = y then text_less xs ys else (of_char x :: nat) < of_char y)"

definition key_less :: "rule \<Rightarrow> rule \<Rightarrow> bool" where
  "key_less r s \<longleftrightarrow> priority r < priority s \<or> (priority r = priority s \<and> text_less (rule_id r) (rule_id s))"

text \<open>The first of the rules sorted in reverse: the largest, and the first of equals.\<close>

fun best_rule :: "rule list \<Rightarrow> rule option" where
  "best_rule [] = None"
| "best_rule (r # rs) = (case best_rule rs of None \<Rightarrow> Some r | Some s \<Rightarrow> if key_less r s then Some s else Some r)"

definition safest_default :: "string \<Rightarrow> string" where
  "safest_default operation =
    (if operation \<in> {''HEALTH'', ''READ'', ''SEARCH'', ''CONTEXT'', ''GRAPH_PROCESS'', ''VECTOR_INDEX''} then ''ALLOW''
     else if operation \<in> {''WRITE'', ''UPDATE'', ''DELETE'', ''REPLAY'', ''VIEW_RAW_CONTENT''} then ''REQUIRE_APPROVAL''
     else ''DENY'')"

definition setting_key :: "string \<Rightarrow> string option" where
  "setting_key operation = (if operation \<in> {''WRITE'', ''UPDATE''} then Some ''writes.default_policy''
     else if operation = ''DELETE'' then Some ''deletes.default_policy'' else None)"

definition evaluate :: "config \<Rightarrow> string \<Rightarrow> string option \<Rightarrow> string \<Rightarrow> string" where
  "evaluate cfg client project operation =
    (case best_rule (filter (rule_matches client project) (filter (\<lambda>r. rule_operation r = operation) (rules cfg))) of
       Some r \<Rightarrow> effect r
     | None \<Rightarrow>
         (case Option.bind (setting_key operation) (settings cfg) of
            Some v \<Rightarrow> if v = [] then safest_default operation else v
          | None \<Rightarrow> safest_default operation))"

definition policy_operation :: "string \<Rightarrow> string" where
  "policy_operation tool = (if tool = ''mesa_remember'' then ''WRITE'' else if tool = ''mesa_improve'' then ''UPDATE'' else ''DELETE'')"

definition write_tools :: "string list" where
  "write_tools = [''mesa_remember'', ''mesa_improve'', ''mesa_forget'']"

subsection \<open>Scope\<close>

definition get_client :: "config \<Rightarrow> string \<Rightarrow> client option" where
  "get_client cfg c = find (\<lambda>r. cl_id r = c) (clients cfg)"

definition scope :: "config \<Rightarrow> string \<Rightarrow> string \<Rightarrow> mcp_error + (binding \<times> client)" where
  "scope cfg c connection =
    (case find (\<lambda>r. cn_id r = connection) (connections cfg) of
       None \<Rightarrow> Inl Access_Denied
     | Some cn \<Rightarrow>
         if cn_client cn \<noteq> c \<or> cn_status cn = ''REVOKED'' then Inl Access_Denied
         else (case (find (\<lambda>b. bd_client b = c \<and> bd_project b = cn_project cn \<and> bd_enabled b) (bindings cfg), get_client cfg c) of
             (Some b, Some cl) \<Rightarrow> if cl_enabled cl then Inr (b, cl) else Inl Access_Denied
           | _ \<Rightarrow> Inl Access_Denied))"

definition scope_for_principal :: "config \<Rightarrow> string \<Rightarrow> string \<Rightarrow> mcp_error + (binding \<times> client)" where
  "scope_for_principal cfg c b =
    (case (find (\<lambda>r. bd_id r = b \<and> bd_enabled r) (bindings cfg), get_client cfg c) of
       (Some bd, Some cl) \<Rightarrow> if bd_client bd = c \<and> cl_enabled cl then Inr (bd, cl) else Inl Access_Denied
     | _ \<Rightarrow> Inl Access_Denied)"

definition scope_for_operation :: "config \<Rightarrow> operation \<Rightarrow> mcp_error + (binding \<times> client)" where
  "scope_for_operation cfg op =
    (case (find (\<lambda>b. bd_id b = op_binding op \<and> bd_enabled b) (bindings cfg), get_client cfg (op_client op)) of
       (Some b, Some cl) \<Rightarrow> if cl_enabled cl then Inr (b, cl) else Inl Access_Denied
     | _ \<Rightarrow> Inl Access_Denied)"

subsection \<open>The operation ledger\<close>

text \<open>The library calls: SHA-256 of the canonical JSON, and the Fernet cipher.\<close>

record crypto =
  sha :: "string \<Rightarrow> string"
  encrypt :: "string \<Rightarrow> string"
  decrypt :: "string \<Rightarrow> string"

record gateway =
  operations :: "operation list"
  approvals :: "approval list"
  config :: config

definition get_operation :: "gateway \<Rightarrow> string \<Rightarrow> operation option" where
  "get_operation g i = find (\<lambda>r. op_id r = i) (operations g)"

definition get_approval :: "gateway \<Rightarrow> string \<Rightarrow> approval option" where
  "get_approval g i = find (\<lambda>r. ap_id r = i) (approvals g)"

definition coalesce :: "'a option \<Rightarrow> 'a option \<Rightarrow> 'a option" where
  "coalesce a b = (case a of None \<Rightarrow> b | Some x \<Rightarrow> Some x)"

definition terminal :: "op_status \<Rightarrow> bool" where
  "terminal st \<longleftrightarrow> st \<in> {COMMITTED, REJECTED, DENIED, FAILED}"

definition same_request :: "string \<Rightarrow> string \<Rightarrow> string \<Rightarrow> string \<Rightarrow> operation \<Rightarrow> bool" where
  "same_request c b tool key r \<longleftrightarrow> op_client r = c \<and> op_binding r = b \<and> op_tool r = tool \<and> op_key r = key"

text \<open>\<open>INSERT OR IGNORE\<close> gives way to the primary key and to the unique key of the request.\<close>

definition create_operation :: "crypto \<Rightarrow> string \<Rightarrow> string \<Rightarrow> string \<Rightarrow> string \<Rightarrow> string \<Rightarrow> string \<Rightarrow> string \<Rightarrow> gateway \<Rightarrow>
    gateway \<times> (mcp_error + operation)" where
  "create_operation k new_id c b connection tool key payload g =
    (let fresh = \<lparr>op_id = new_id, op_client = c, op_binding = b, op_connection = connection, op_tool = tool,
           op_key = key, op_hash = sha k payload, op_cipher = encrypt k payload, op_status = CREATED,
           op_approval = None, op_mutation = None, op_response = None, op_error = None, op_message = None,
           op_completed = False\<rparr>;
         conflict = (\<exists>r \<in> set (operations g). op_id r = new_id \<or> same_request c b tool key r);
         g' = (if conflict then g else g\<lparr>operations := operations g @ [fresh]\<rparr>)
     in (g', case find (same_request c b tool key) (operations g') of
           None \<Rightarrow> Inl (Backend ''RuntimeError'' ''operation ledger insert did not persist'' False)
         | Some r \<Rightarrow> if op_hash r \<noteq> sha k payload then Inl Invalid_Argument else Inr r))"

definition set_operation :: "string \<Rightarrow> op_status \<Rightarrow> string option \<Rightarrow> string option \<Rightarrow> string option \<Rightarrow> string option \<Rightarrow>
    string option \<Rightarrow> gateway \<Rightarrow> gateway" where
  "set_operation i st approval mutation response code message g =
    g\<lparr>operations := upd (\<lambda>r. op_id r = i) (\<lambda>r. r\<lparr>op_status := st, op_approval := coalesce approval (op_approval r),
        op_mutation := coalesce mutation (op_mutation r), op_response := coalesce response (op_response r),
        op_error := coalesce code (op_error r), op_message := coalesce message (op_message r),
        op_completed := terminal st\<rparr>) (operations g)\<rparr>"

definition transition_operation :: "string \<Rightarrow> op_status \<Rightarrow> op_status \<Rightarrow> string option \<Rightarrow> gateway \<Rightarrow> gateway \<times> bool" where
  "transition_operation i expected st code g =
    (let P = (\<lambda>r. op_id r = i \<and> op_status r = expected)
     in (g\<lparr>operations := upd P (\<lambda>r. r\<lparr>op_status := st, op_error := coalesce code (op_error r), op_completed := terminal st\<rparr>) (operations g)\<rparr>,
         rowcount P (operations g) = 1))"

subsection \<open>Approvals\<close>

text \<open>A second row under the same key would raise; the identifiers are random.\<close>

definition create_approval_request :: "string \<Rightarrow> operation \<Rightarrow> string \<Rightarrow> int \<Rightarrow> gateway \<Rightarrow> gateway option" where
  "create_approval_request aid op operation now g =
    (if \<exists>a \<in> set (approvals g). ap_id a = aid then None
     else Some (g\<lparr>approvals := approvals g @ [\<lparr>ap_id = aid, ap_call = op_id op, ap_client = op_client op, ap_operation = operation,
       ap_hash = op_hash op, ap_status = A_PENDING, ap_requested = now, ap_decided_by = None, ap_reason = None\<rparr>]\<rparr>))"

definition decide_approval :: "string \<Rightarrow> approval_status \<Rightarrow> string \<Rightarrow> string option \<Rightarrow> gateway \<Rightarrow> gateway \<times> bool" where
  "decide_approval aid st who reason g =
    (let P = (\<lambda>a. ap_id a = aid \<and> ap_status a = A_PENDING)
     in (g\<lparr>approvals := upd P (\<lambda>a. a\<lparr>ap_status := st, ap_decided_by := Some who, ap_reason := reason\<rparr>) (approvals g)\<rparr>,
         rowcount P (approvals g) = 1))"

definition expire_stale_approvals :: "int \<Rightarrow> int \<Rightarrow> gateway \<Rightarrow> gateway \<times> nat" where
  "expire_stale_approvals now ttl g =
    (let P = (\<lambda>a. ap_status a = A_PENDING \<and> ap_requested a < now - ttl)
     in (g\<lparr>approvals := upd P (\<lambda>a. a\<lparr>ap_status := A_EXPIRED, ap_reason := Some ''TTL expired''\<rparr>) (approvals g)\<rparr>,
         rowcount P (approvals g)))"

text \<open>\<open>not s.strip()\<close>\<close>

definition no_text :: "string \<Rightarrow> bool" where
  "no_text s = list_all (\<lambda>c. (of_char c :: nat) \<in> {9, 10, 11, 12, 13, 28, 29, 30, 31, 32, 133, 160}) s"

datatype decide_error = Bad_Decision | No_Operation_Id | No_Operator | Not_Admin | Unknown_Operation | Scope_Inactive
  | Not_Pending | No_Pending_Approval

definition decided :: "op_status \<Rightarrow> string option \<Rightarrow> operation \<Rightarrow> operation" where
  "decided decision reason r = r\<lparr>op_status := decision,
     op_error := (if decision = REJECTED then Some ''OPERATOR_REJECTED'' else None),
     op_message := (if decision = REJECTED then
        Some (case reason of Some m \<Rightarrow> if m = [] then ''Operator rejected the operation'' else m
              | None \<Rightarrow> ''Operator rejected the operation'') else None),
     op_completed := (decision = REJECTED)\<rparr>"

text \<open>\<open>OperationApprovalService.decide\<close>; \<open>admin\<close> is the answer of \<open>check_control_role\<close>.\<close>

definition decide :: "bool \<Rightarrow> string \<Rightarrow> op_status \<Rightarrow> string \<Rightarrow> string option \<Rightarrow> gateway \<Rightarrow> decide_error + gateway" where
  "decide admin i decision who reason g =
    (if decision \<notin> {APPROVED, REJECTED} then Inl Bad_Decision
     else if no_text i then Inl No_Operation_Id
     else if no_text who then Inl No_Operator
     else if \<not> admin then Inl Not_Admin
     else (case get_operation g i of
         None \<Rightarrow> Inl Unknown_Operation
       | Some op \<Rightarrow>
           if \<not> ((\<exists>b \<in> set (bindings (config g)). bd_id b = op_binding op \<and> bd_client b = op_client op \<and> bd_enabled b)
                 \<and> (\<exists>c \<in> set (clients (config g)). cl_id c = op_client op \<and> cl_enabled c)) then Inl Scope_Inactive
           else if op_status op \<noteq> PENDING_APPROVAL then Inl Not_Pending
           else (case Option.bind (op_approval op) (get_approval g) of
               None \<Rightarrow> Inl No_Pending_Approval
             | Some a \<Rightarrow>
                 if ap_call a \<noteq> i \<or> ap_client a \<noteq> op_client op \<or> ap_status a \<noteq> A_PENDING then Inl No_Pending_Approval
                 else
                   let st = (if decision = APPROVED then A_APPROVED else A_REJECTED);
                       result = decide_approval (ap_id a) st who reason g; g1 = fst result;
                       P = (\<lambda>r. op_id r = i \<and> op_status r = PENDING_APPROVAL)
                   in if \<not> snd result \<or> rowcount P (operations g1) \<noteq> 1 then Inl Not_Pending
                      else Inr (g1\<lparr>operations := upd P (decided decision reason) (operations g1)\<rparr>))))"

subsection \<open>Tasks\<close>

text \<open>
  A task holds the rows it has read. \<open>Evaluate\<close> to \<open>Mark_Pending\<close> are the stops of \<open>call_tool\<close>,
  \<open>Send\<close> and \<open>Finish\<close> those of \<open>_run_operation\<close>, \<open>Review\<close> to \<open>Enter_Scope\<close> those of
  \<open>process_approved_operations\<close> and \<open>Refresh\<close> that of \<open>_refresh_operation_finality\<close>.
\<close>

datatype v4_reply = Reply "string option" "string option" | Mutation string "string option" "string option"
  | Mcp_Error string string bool | Interrupted

datatype task = Evaluate operation binding client | Deny operation | Ask operation | Mark_Pending operation string
  | Send operation binding client | Finish operation v4_reply
  | Review operation | Reviewed operation approval | Verify operation approval | Enter_Scope operation
  | Refresh operation

text \<open>\<open>_mcp_status_from_mutation\<close>.\<close>

definition status_from_mutation :: "string \<Rightarrow> string option \<Rightarrow> op_status \<times> string option \<times> string option" where
  "status_from_mutation state reason =
    (if state = ''COMMITTED'' then (COMMITTED, None, None)
     else if state = ''REJECTED'' then (REJECTED, Some ''MUTATION_REJECTED'',
       Some (case reason of Some r \<Rightarrow> if r = [] then ''V4 rejected the mutation'' else ''V4 rejected the mutation: '' @ take 120 r
             | None \<Rightarrow> ''V4 rejected the mutation''))
     else if state \<in> {''DEAD_LETTER'', ''ROLLED_BACK'', ''BLOCKED'', ''FAILED''} then
       (FAILED, Some ''MUTATION_FAILED'', Some (''V4 mutation ended as '' @ state))
     else (PROCESSING, None, None))"

definition absent :: "string option \<Rightarrow> bool" where
  "absent m \<longleftrightarrow> m = None \<or> m = Some []"

text \<open>\<open>_run_operation\<close> before and after the call; the request to V4 is the third result.\<close>

definition send :: "crypto \<Rightarrow> v4_reply \<Rightarrow> operation \<Rightarrow> gateway \<Rightarrow> gateway \<times> task list \<times> (operation \<times> string) list" where
  "send k reply op g =
    (let payload = decrypt k (op_cipher op)
     in if sha k payload \<noteq> op_hash op
        then (set_operation (op_id op) DENIED None None None (Some ''OPERATION_PAYLOAD_MISMATCH'') None g, [], [])
        else (g, [Finish op reply], [(op, payload)]))"

fun finish :: "operation \<Rightarrow> v4_reply \<Rightarrow> gateway \<Rightarrow> gateway" where
  "finish op (Reply m response) g =
    set_operation (op_id op) (if absent m then COMMITTED else SUBMITTED) None m response None None g"
| "finish op (Mcp_Error code message retryable) g = set_operation (op_id op) FAILED None None None (Some code) (Some message) g"
| "finish op _ g = g"

definition reviewed :: "operation \<Rightarrow> approval \<Rightarrow> gateway \<Rightarrow> gateway \<times> task list" where
  "reviewed op a g =
    (if op_status op = PENDING_APPROVAL then
       let target = (if ap_status a = A_APPROVED then APPROVED else REJECTED);
           (g', ok) = transition_operation (op_id op) PENDING_APPROVAL target None g
       in (g', if ok \<and> target = APPROVED then [Verify (op\<lparr>op_status := target\<rparr>) a] else [])
     else (g, if ap_status a = A_APPROVED then [Verify op a] else []))"

definition verify :: "operation \<Rightarrow> approval \<Rightarrow> gateway \<Rightarrow> gateway \<times> task list" where
  "verify op a g =
    (if ap_hash a \<noteq> op_hash op
     then (fst (transition_operation (op_id op) APPROVED DENIED (Some ''APPROVAL_PAYLOAD_MISMATCH'') g), [])
     else let (g', ok) = transition_operation (op_id op) APPROVED DISPATCHING None g
          in (g', if ok then [Enter_Scope op] else []))"

fun refresh :: "operation \<Rightarrow> v4_reply \<Rightarrow> gateway \<Rightarrow> gateway" where
  "refresh op reply g =
    (if absent (op_mutation op) then
       (if op_tool op = ''mesa_remember''
        then set_operation (op_id op) FAILED None None None (Some ''FINALITY_UNAVAILABLE'')
               (Some ''V4 mutation identifier is unavailable'') g
        else set_operation (op_id op) COMMITTED None None None None None g)
     else (case reply of
         Mcp_Error code message retryable \<Rightarrow>
           if retryable then g else set_operation (op_id op) FAILED None None None (Some code) (Some message) g
       | Mutation state reason response \<Rightarrow>
           (case status_from_mutation state reason of (st, code, message) \<Rightarrow>
              set_operation (op_id op) st None None response code message g)
       | _ \<Rightarrow> g))"

definition error_code :: "mcp_error \<Rightarrow> string" where
  "error_code e = (case e of Access_Denied \<Rightarrow> ''ACCESS_DENIED'' | Not_Found \<Rightarrow> ''NOT_FOUND''
     | Invalid_Argument \<Rightarrow> ''INVALID_ARGUMENT'' | Backend c _ _ \<Rightarrow> c)"

fun advance :: "crypto \<Rightarrow> v4_reply \<Rightarrow> string \<Rightarrow> int \<Rightarrow> task \<Rightarrow> gateway \<Rightarrow> gateway \<times> task list \<times> (operation \<times> string) list" where
  "advance k reply aid now (Evaluate op b c) g =
    (let effect = evaluate (config g) (op_client op) (Some (bd_project b)) (policy_operation (op_tool op))
     in (g, [if effect = ''DENY'' then Deny op else if effect = ''REQUIRE_APPROVAL'' then Ask op else Send op b c], []))"
| "advance k reply aid now (Deny op) g = (set_operation (op_id op) DENIED None None None (Some ''DENIED'') None g, [], [])"
| "advance k reply aid now (Ask op) g =
    (case create_approval_request aid op (policy_operation (op_tool op)) now g of
       None \<Rightarrow> (g, [], []) | Some g' \<Rightarrow> (g', [Mark_Pending op aid], []))"
| "advance k reply aid now (Mark_Pending op a) g = (set_operation (op_id op) PENDING_APPROVAL (Some a) None None None None g, [], [])"
| "advance k reply aid now (Send op b c) g = send k reply op g"
| "advance k reply aid now (Finish op r) g = (finish op r g, [], [])"
| "advance k reply aid now (Review op) g =
    (case get_approval g (case op_approval op of None \<Rightarrow> ''None'' | Some a \<Rightarrow> a) of
       None \<Rightarrow> (g, [], [])
     | Some a \<Rightarrow> (g, if ap_status a = A_PENDING then [] else [Reviewed op a], []))"
| "advance k reply aid now (Reviewed op a) g = (case reviewed op a g of (g', ts) \<Rightarrow> (g', ts, []))"
| "advance k reply aid now (Verify op a) g = (case verify op a g of (g', ts) \<Rightarrow> (g', ts, []))"
| "advance k reply aid now (Enter_Scope op) g =
    (case scope_for_operation (config g) op of
       Inl e \<Rightarrow> (set_operation (op_id op) FAILED None None None (Some (error_code e)) (Some ''operation scope is no longer active'') g, [], [])
     | Inr (b, c) \<Rightarrow> (g, [Send op b c], []))"
| "advance k reply aid now (Refresh op) g = (refresh op reply g, [], [])"

subsection \<open>The service\<close>

record world =
  gw :: gateway
  tasks :: "task list"
  sent :: "(operation \<times> string) list"
  granted :: "string list"

text \<open>What the policy let through: a record of the decision, which the code does not keep.\<close>

fun grants :: "task \<Rightarrow> gateway \<Rightarrow> string list" where
  "grants (Evaluate op b c) g =
    (if evaluate (config g) (op_client op) (Some (bd_project b)) (policy_operation (op_tool op)) \<in> {''DENY'', ''REQUIRE_APPROVAL''}
     then [] else [op_id op])"
| "grants _ g = []"

definition refreshable :: "op_status \<Rightarrow> bool" where
  "refreshable st \<longleftrightarrow> st \<in> {SUBMITTED, PROCESSING, ACCEPTED}"

text \<open>The end of \<open>operation_status\<close>: a stop when there is something to ask V4.\<close>

definition status_tasks :: "operation \<Rightarrow> task list" where
  "status_tasks op = (if refreshable (op_status op) then [Refresh op] else [])"

text \<open>\<open>call_tool\<close> with a scope, up to its first stop after the ledger.\<close>

definition call_write :: "crypto \<Rightarrow> string \<Rightarrow> binding \<times> client \<Rightarrow> string \<Rightarrow> string \<Rightarrow> string \<Rightarrow> string \<Rightarrow> string \<Rightarrow> world \<Rightarrow>
    world \<times> (mcp_error + operation)" where
  "call_write k new_id bc caller connection tool key payload w =
    (if tool \<notin> set write_tools then (w, Inl Not_Found)
     else if no_text key then (w, Inl Invalid_Argument)
     else (case create_operation k new_id caller (bd_id (fst bc)) connection tool key payload (gw w) of
         (g, Inl e) \<Rightarrow> (w\<lparr>gw := g\<rparr>, Inl e)
       | (g, Inr op) \<Rightarrow>
           (w\<lparr>gw := g, tasks := tasks w @ (if op_status op \<noteq> CREATED then status_tasks op else [Evaluate op (fst bc) (snd bc)])\<rparr>, Inr op)))"

definition review_all :: "gateway \<Rightarrow> task list" where
  "review_all g = map Review (filter (\<lambda>r. op_status r \<in> {PENDING_APPROVAL, APPROVED}) (operations g))"

inductive gw_step :: "crypto \<Rightarrow> world \<Rightarrow> world \<Rightarrow> bool" for k where
  calls: "scope (config (gw w)) caller cn = Inr bc \<or> scope_for_principal (config (gw w)) caller bd = Inr bc \<Longrightarrow>
    gw_step k w (fst (call_write k new_id bc caller cn tool key payload w))"
| polls: "get_operation (gw w) i = Some op \<Longrightarrow> gw_step k w (w\<lparr>tasks := tasks w @ status_tasks op\<rparr>)"
| wakes: "gw_step k w (w\<lparr>tasks := tasks w @ review_all (gw w)\<rparr>)"
| runs: "tasks w = pre @ t # post \<Longrightarrow> advance k reply (''apr_'' @ hex) now t (gw w) = (g, ts, out) \<Longrightarrow>
    gw_step k w (w\<lparr>gw := g, tasks := pre @ ts @ post, sent := sent w @ out, granted := granted w @ grants t (gw w)\<rparr>)"
| decides: "decide admin i decision who reason (gw w) = Inr g \<Longrightarrow> gw_step k w (w\<lparr>gw := g\<rparr>)"
| decides_request: "st \<in> {A_APPROVED, A_REJECTED} \<Longrightarrow> gw_step k w (w\<lparr>gw := fst (decide_approval aid st who reason (gw w))\<rparr>)"
| expires: "gw_step k w (w\<lparr>gw := fst (expire_stale_approvals now ttl (gw w))\<rparr>)"
| configures: "gw_step k w (w\<lparr>gw := (gw w)\<lparr>config := cfg\<rparr>\<rparr>)"
| crashes: "gw_step k w (w\<lparr>tasks := []\<rparr>)"

definition started :: "config \<Rightarrow> world" where
  "started cfg = \<lparr>gw = \<lparr>operations = [], approvals = [], config = cfg\<rparr>, tasks = [], sent = [], granted = []\<rparr>"

end
