(* ===== verification/Gateway_Properties.thy ===== *)
theory Gateway_Properties imports Gateway begin

text \<open>
  No write reaches the memory service without a policy or an operator that let it through; a
  dispatched operation whose worker died stays where it is.
\<close>

subsection \<open>What a step keeps\<close>

text \<open>A decided approval never changes, and approvals are only added.\<close>

definition settled :: "approval list \<Rightarrow> approval list \<Rightarrow> bool" where
  "settled as bs \<longleftrightarrow> (\<forall>a \<in> set as. \<exists>b \<in> set bs. ap_id b = ap_id a \<and> ap_call b = ap_call a \<and> (ap_status a \<noteq> A_PENDING \<longrightarrow> b = a))"

lemma settled_refl [simp]: "settled as as"
  by (auto simp: settled_def)

lemma settled_upd:
  assumes "\<And>a. P a \<Longrightarrow> ap_status a = A_PENDING" and "\<And>a. ap_id (f a) = ap_id a \<and> ap_call (f a) = ap_call a"
  shows "settled as (upd P f as)"
  unfolding settled_def
proof
  fix a assume "a \<in> set as"
  then show "\<exists>b \<in> set (upd P f as). ap_id b = ap_id a \<and> ap_call b = ap_call a \<and> (ap_status a \<noteq> A_PENDING \<longrightarrow> b = a)"
    using assms by (cases "P a") (auto intro: upd_hit upd_miss bexI [of _ "f a"] bexI [of _ a])
qed

definition ids_ok :: "gateway \<Rightarrow> bool" where
  "ids_ok g \<longleftrightarrow> distinct (map ap_id (approvals g)) \<and> (\<forall>a \<in> set (approvals g). \<exists>h. ap_id a = ''apr_'' @ h)"

definition linked :: "approval list \<Rightarrow> string option \<Rightarrow> string \<Rightarrow> bool" where
  "linked as aid i \<longleftrightarrow> (case aid of None \<Rightarrow> True | Some x \<Rightarrow> \<exists>a \<in> set as. ap_id a = x \<and> ap_call a = i)"

lemma linked_mono: "linked as aid i \<Longrightarrow> settled as bs \<Longrightarrow> linked bs aid i"
  by (fastforce simp: linked_def settled_def split: option.splits)

definition authorised :: "approval list \<Rightarrow> string list \<Rightarrow> operation \<Rightarrow> bool" where
  "authorised as gs op \<longleftrightarrow> op_id op \<in> set gs \<or>
     (\<exists>a \<in> set as. ap_call a = op_id op \<and> ap_status a = A_APPROVED \<and> ap_hash a = op_hash op)"

lemma authorised_mono:
  assumes "authorised as gs op" and "settled as bs" and "set gs \<subseteq> set gs'"
  shows "authorised bs gs' op"
proof -
  have "b \<in> set bs" if "a \<in> set as" "ap_status a = A_APPROVED" "b = a" for a b
    using that assms(2) by (fastforce simp: settled_def)
  then show ?thesis using assms by (auto simp: authorised_def)
qed

fun task_ok :: "approval list \<Rightarrow> string list \<Rightarrow> task \<Rightarrow> bool" where
  "task_ok as gs (Send op b c) = authorised as gs op"
| "task_ok as gs (Mark_Pending op aid) = linked as (Some aid) (op_id op)"
| "task_ok as gs (Review op) = linked as (op_approval op) (op_id op)"
| "task_ok as gs (Reviewed op a) = (a \<in> set as \<and> ap_call a = op_id op \<and> ap_status a \<noteq> A_PENDING)"
| "task_ok as gs (Verify op a) = (a \<in> set as \<and> ap_call a = op_id op \<and> ap_status a = A_APPROVED)"
| "task_ok as gs (Enter_Scope op) = authorised as gs op"
| "task_ok as gs _ = True"

lemma settled_mem: "settled as bs \<Longrightarrow> a \<in> set as \<Longrightarrow> ap_status a \<noteq> A_PENDING \<Longrightarrow> a \<in> set bs"
  by (fastforce simp: settled_def)

lemma task_ok_mono: "task_ok as gs t \<Longrightarrow> settled as bs \<Longrightarrow> set gs \<subseteq> set gs' \<Longrightarrow> task_ok bs gs' t"
  by (cases t) (auto intro: authorised_mono linked_mono settled_mem)

definition world_ok :: "crypto \<Rightarrow> world \<Rightarrow> bool" where
  "world_ok k w \<longleftrightarrow> ids_ok (gw w) \<and>
     (\<forall>r \<in> set (operations (gw w)). linked (approvals (gw w)) (op_approval r) (op_id r)) \<and>
     (\<forall>t \<in> set (tasks w). task_ok (approvals (gw w)) (granted w) t) \<and>
     (\<forall>(op, p) \<in> set (sent w). sha k p = op_hash op \<and> authorised (approvals (gw w)) (granted w) op)"

subsection \<open>Ledger updates\<close>

lemma operations_set: "approvals (set_operation i st a m r c msg g) = approvals g"
  "config (set_operation i st a m r c msg g) = config g"
  by (simp_all add: set_operation_def)

lemma approvals_transition: "approvals (fst (transition_operation i e st c g)) = approvals g"
  "config (fst (transition_operation i e st c g)) = config g"
  by (simp_all add: transition_operation_def Let_def)

definition rows_linked :: "gateway \<Rightarrow> bool" where
  "rows_linked g \<longleftrightarrow> (\<forall>r \<in> set (operations g). linked (approvals g) (op_approval r) (op_id r))"

lemma rows_linked_set:
  assumes "rows_linked g" and "linked (approvals g) a i"
  shows "rows_linked (set_operation i st a m r c msg g)"
  using assms by (auto simp: rows_linked_def set_operation_def linked_def coalesce_def elim!: in_set_updE split: option.splits)

lemma linked_None [simp]: "linked as None i"
  by (simp add: linked_def)

lemma rows_linked_transition: "rows_linked g \<Longrightarrow> rows_linked (fst (transition_operation i e st c g))"
  by (auto simp: rows_linked_def transition_operation_def Let_def elim!: in_set_updE)

lemma rows_linked_settled: "rows_linked g \<Longrightarrow> settled (approvals g) bs \<Longrightarrow> rows_linked (g\<lparr>approvals := bs\<rparr>)"
  by (auto simp: rows_linked_def intro: linked_mono)

subsection \<open>Every step keeps the authorisation\<close>

definition ledger_ok :: "gateway \<Rightarrow> bool" where
  "ledger_ok g \<longleftrightarrow> ids_ok g \<and> rows_linked g"

lemma ledger_ok_set: "ledger_ok g \<Longrightarrow> linked (approvals g) a i \<Longrightarrow> ledger_ok (set_operation i st a m r c msg g)"
  by (auto simp: ledger_ok_def ids_ok_def operations_set intro: rows_linked_set)

lemma ledger_ok_transition: "ledger_ok g \<Longrightarrow> ledger_ok (fst (transition_operation i e st c g))"
  by (auto simp: ledger_ok_def ids_ok_def approvals_transition intro: rows_linked_transition)

lemma ledger_ok_decide:
  assumes "ledger_ok g" and "\<And>a. P a \<Longrightarrow> ap_status a = A_PENDING" and "\<And>a. ap_id (f a) = ap_id a \<and> ap_call (f a) = ap_call a"
  shows "ledger_ok (g\<lparr>approvals := upd P f (approvals g)\<rparr>)"
proof -
  have "map ap_id (upd P f (approvals g)) = map ap_id (approvals g)" by (rule map_upd_key) (simp add: assms(3))
  moreover have "\<forall>a \<in> set (upd P f (approvals g)). \<exists>h. ap_id a = ''apr_'' @ h"
    using assms(1,3) by (auto simp: ledger_ok_def ids_ok_def elim!: in_set_updE)
  ultimately show ?thesis
    using assms rows_linked_settled [OF _ settled_upd] by (simp add: ledger_ok_def ids_ok_def)
qed

definition step_ok :: "crypto \<Rightarrow> gateway \<Rightarrow> string list \<Rightarrow> gateway \<times> task list \<times> (operation \<times> string) list \<Rightarrow> bool" where
  "step_ok k g gs x \<longleftrightarrow> (case x of (g', ts, out) \<Rightarrow> ledger_ok g' \<and> settled (approvals g) (approvals g') \<and>
     (\<forall>t \<in> set ts. task_ok (approvals g') gs t) \<and>
     (\<forall>(op, p) \<in> set out. sha k p = op_hash op \<and> authorised (approvals g') gs op))"

lemma get_approval_ok:
  assumes "ledger_ok g" and "get_approval g (case aid of None \<Rightarrow> ''None'' | Some a \<Rightarrow> a) = Some a" and "linked (approvals g) aid i"
  shows "a \<in> set (approvals g)" and "ap_call a = i"
proof -
  let ?x = "case aid of None \<Rightarrow> ''None'' | Some a \<Rightarrow> a"
  have a: "a \<in> set (approvals g)" "ap_id a = ?x" using find_SomeD [OF assms(2) [unfolded get_approval_def]] by auto
  then show "a \<in> set (approvals g)" by simp
  obtain h where "ap_id a = ''apr_'' @ h" using a(1) assms(1) by (auto simp: ledger_ok_def ids_ok_def)
  with a(2) obtain x where x: "aid = Some x" by (cases aid) auto
  with assms(3) obtain b where "b \<in> set (approvals g)" "ap_id b = x" "ap_call b = i" by (auto simp: linked_def)
  moreover from this a x have "b = a"
    using assms(1) by (auto simp: ledger_ok_def ids_ok_def distinct_map inj_on_def)
  ultimately show "ap_call a = i" by simp
qed

lemma create_approval_ok:
  assumes "ledger_ok g" and "create_approval_request (''apr_'' @ h) op x now g = Some g'"
  shows "ledger_ok g'" and "settled (approvals g) (approvals g')" and "linked (approvals g') (Some (''apr_'' @ h)) (op_id op)"
proof -
  let ?a = "\<lparr>ap_id = ''apr_'' @ h, ap_call = op_id op, ap_client = op_client op, ap_operation = x, ap_hash = op_hash op,
      ap_status = A_PENDING, ap_requested = now, ap_decided_by = None, ap_reason = None\<rparr>"
  have g': "g' = g\<lparr>approvals := approvals g @ [?a]\<rparr>" and new: "\<forall>a \<in> set (approvals g). ap_id a \<noteq> ''apr_'' @ h"
    using assms(2) by (auto simp: create_approval_request_def split: if_splits)
  have st: "settled (approvals g) (approvals g @ [?a])" by (auto simp: settled_def)
  then show "settled (approvals g) (approvals g')" by (simp add: g')
  show "ledger_ok g'" using assms(1) new rows_linked_settled [OF _ st] by (auto simp: g' ledger_ok_def ids_ok_def)
  show "linked (approvals g') (Some (''apr_'' @ h)) (op_id op)" by (simp add: g' linked_def)
qed

lemma advance_ok:
  assumes "ledger_ok g" and "task_ok (approvals g) gs t"
  shows "step_ok k g (gs @ grants t g) (advance k reply (''apr_'' @ h) now t g)"
proof (cases t)
  case (Evaluate op b c)
  then show ?thesis using assms(1) by (simp add: step_ok_def Let_def authorised_def)
next
  case (Ask op)
  then show ?thesis using assms create_approval_ok [OF assms(1), of h op]
    by (auto simp: step_ok_def split: option.split)
next
  case (Mark_Pending op a)
  then show ?thesis using assms by (auto simp: step_ok_def operations_set intro: ledger_ok_set)
next
  case (Send op b c)
  then show ?thesis using assms by (simp add: step_ok_def send_def Let_def operations_set ledger_ok_set)
next
  case (Finish op r)
  then show ?thesis using assms by (cases r) (simp_all add: step_ok_def operations_set ledger_ok_set)
next
  case (Review op)
  then show ?thesis using assms get_approval_ok [OF assms(1), of "op_approval op" _ "op_id op"]
    by (auto simp: step_ok_def split: option.split)
next
  case (Reviewed op a)
  then show ?thesis using assms
    by (auto simp: step_ok_def reviewed_def Let_def transition_operation_def split: if_splits
        dest: ledger_ok_transition [unfolded transition_operation_def Let_def fst_conv])
next
  case (Verify op a)
  then have "authorised (approvals g) gs op" if "ap_hash a = op_hash op" using that assms(2) by (auto simp: authorised_def)
  then show ?thesis using Verify assms
    by (auto simp: step_ok_def verify_def Let_def transition_operation_def split: if_splits
        dest: ledger_ok_transition [unfolded transition_operation_def Let_def fst_conv])
next
  case (Enter_Scope op)
  then show ?thesis using assms by (auto simp: step_ok_def operations_set ledger_ok_set split: sum.split)
next
  case (Refresh op)
  then show ?thesis using assms(1)
    by (auto simp: step_ok_def operations_set ledger_ok_set split: v4_reply.split prod.split)
qed (use assms in \<open>simp_all add: step_ok_def operations_set ledger_ok_set\<close>)

lemma world_okI:
  assumes "world_ok k w" and "ledger_ok g" and "settled (approvals (gw w)) (approvals g)" and "set (granted w) \<subseteq> set gs"
    and "\<forall>t \<in> set ts. t \<in> set (tasks w) \<or> task_ok (approvals g) gs t"
    and "\<forall>(op, p) \<in> set out. sha k p = op_hash op \<and> authorised (approvals g) gs op"
  shows "world_ok k \<lparr>gw = g, tasks = ts, sent = sent w @ out, granted = gs\<rparr>"
proof -
  have "task_ok (approvals g) gs t" if "t \<in> set ts" for t
    using that assms(1,3-5) task_ok_mono unfolding world_ok_def by blast
  moreover have "authorised (approvals g) gs op \<and> sha k p = op_hash op" if "(op, p) \<in> set (sent w @ out)" for op p
    using that assms authorised_mono unfolding world_ok_def by fastforce
  ultimately show ?thesis using assms(2) unfolding world_ok_def ledger_ok_def rows_linked_def by auto
qed

lemma create_operation_ok:
  assumes "ledger_ok g"
  shows "ledger_ok (fst (create_operation k new_id c b cn tool key payload g))"
    and "approvals (fst (create_operation k new_id c b cn tool key payload g)) = approvals g"
  using assms by (auto simp: create_operation_def Let_def ledger_ok_def ids_ok_def rows_linked_def)

lemma create_operation_row:
  assumes "ledger_ok g" and "create_operation k new_id c b cn tool key payload g = (g', Inr op)"
  shows "op \<in> set (operations g')"
  using assms(2) by (auto simp: create_operation_def Let_def split: option.splits if_splits dest: find_SomeD)

lemma decide_approval_ok:
  assumes "ledger_ok g"
  shows "ledger_ok (fst (decide_approval aid st who reason g))"
    and "settled (approvals g) (approvals (fst (decide_approval aid st who reason g)))"
  by (auto simp: decide_approval_def Let_def intro: ledger_ok_decide [OF assms] settled_upd)

lemma decide_ok:
  assumes "ledger_ok g" and "decide admin i decision who reason g = Inr g'"
  shows "ledger_ok g'" and "settled (approvals g) (approvals g')"
proof -
  obtain aid st P where "g' = fst (decide_approval aid st who reason g)
      \<lparr>operations := upd P (decided decision reason) (operations (fst (decide_approval aid st who reason g)))\<rparr>"
    using assms(2) unfolding decide_def Let_def by (simp split: option.splits if_splits) blast+
  moreover have "op_approval (decided decision reason r) = op_approval r \<and> op_id (decided decision reason r) = op_id r" for r
    by (simp add: decided_def)
  ultimately show "ledger_ok g'" "settled (approvals g) (approvals g')"
    using decide_approval_ok [OF assms(1), of aid st who reason]
    by (auto simp: ledger_ok_def ids_ok_def rows_linked_def elim!: in_set_updE)
qed

lemma expire_ok:
  assumes "ledger_ok g"
  shows "ledger_ok (fst (expire_stale_approvals now ttl g))"
    and "settled (approvals g) (approvals (fst (expire_stale_approvals now ttl g)))"
  by (auto simp: expire_stale_approvals_def Let_def intro: ledger_ok_decide [OF assms] settled_upd)

lemma world_ok_ledger: "world_ok k w \<Longrightarrow> ledger_ok (gw w)"
  by (simp add: world_ok_def ledger_ok_def rows_linked_def)

lemma world_ok_gw:
  assumes "world_ok k w" and "ledger_ok g" and "settled (approvals (gw w)) (approvals g)"
  shows "world_ok k (w\<lparr>gw := g\<rparr>)"
  using world_okI [OF assms, of "granted w" "tasks w" "[]"] by (cases w) simp

lemma world_ok_tasks:
  assumes "world_ok k w" and "\<forall>t \<in> set ts. t \<in> set (tasks w) \<or> task_ok (approvals (gw w)) (granted w) t"
  shows "world_ok k (w\<lparr>tasks := ts\<rparr>)"
  using world_okI [OF assms(1) world_ok_ledger [OF assms(1)] settled_refl subset_refl assms(2), of "[]"] by (cases w) simp

lemma status_tasks_ok: "t \<in> set (status_tasks op) \<Longrightarrow> task_ok as gs t"
  by (auto simp: status_tasks_def split: if_splits)

lemma world_ok_call:
  assumes "world_ok k w"
  shows "world_ok k (fst (call_write k new_id bc caller cn tool key payload w))"
proof -
  note ok = world_ok_ledger [OF assms]
  obtain g x where c: "create_operation k new_id caller (bd_id (fst bc)) cn tool key payload (gw w) = (g, x)" by fastforce
  then have w': "world_ok k (w\<lparr>gw := g\<rparr>)"
    using create_operation_ok [OF ok, of k new_id caller "bd_id (fst bc)" cn tool key payload] assms
    by (intro world_ok_gw) auto
  then have "world_ok k (w\<lparr>gw := g, tasks := tasks w @ ts\<rparr>)" if "\<forall>t \<in> set ts. \<forall>as gs. task_ok as gs t" for ts
    using world_ok_tasks [OF w', of "tasks w @ ts"] that by auto
  then show ?thesis using assms w' c by (auto simp: call_write_def status_tasks_ok split: sum.split)
qed

lemma world_ok_step: "gw_step k w w' \<Longrightarrow> world_ok k w \<Longrightarrow> world_ok k w'"
proof (induction rule: gw_step.induct)
  case (calls w caller cn bc bd new_id tool key payload)
  then show ?case by (intro world_ok_call)
next
  case (polls w i op)
  then show ?case by (intro world_ok_tasks) (auto simp: status_tasks_ok)
next
  case (wakes w)
  then show ?case by (intro world_ok_tasks) (auto simp: review_all_def world_ok_def)
next
  case (runs w pre t post reply hex now g ts out)
  have "task_ok (approvals (gw w)) (granted w) t" using runs by (simp add: world_ok_def)
  from advance_ok [OF world_ok_ledger [OF runs.prems] this, of k reply hex now] runs.hyps(2) have
    s: "ledger_ok g" "settled (approvals (gw w)) (approvals g)"
      "\<forall>t' \<in> set ts. task_ok (approvals g) (granted w @ grants t (gw w)) t'"
      "\<forall>(op, p) \<in> set out. sha k p = op_hash op \<and> authorised (approvals g) (granted w @ grants t (gw w)) op"
    by (simp_all add: step_ok_def)
  have "w\<lparr>gw := g, tasks := pre @ ts @ post, sent := sent w @ out, granted := granted w @ grants t (gw w)\<rparr>
      = \<lparr>gw = g, tasks = pre @ ts @ post, sent = sent w @ out, granted = granted w @ grants t (gw w)\<rparr>" by (cases w) simp
  moreover have "world_ok k \<lparr>gw = g, tasks = pre @ ts @ post, sent = sent w @ out, granted = granted w @ grants t (gw w)\<rparr>"
    using s runs.hyps(1) by (intro world_okI [OF runs.prems]) auto
  ultimately show ?case by (simp only:)
next
  case (decides admin i decision who reason w g)
  then show ?case using decide_ok [OF world_ok_ledger [OF decides.prems] decides.hyps] by (intro world_ok_gw)
next
  case (decides_request st w aid who reason)
  then show ?case using decide_approval_ok [OF world_ok_ledger [OF decides_request.prems]] by (intro world_ok_gw)
next
  case (expires w now ttl)
  then show ?case using expire_ok [OF world_ok_ledger [OF expires.prems]] by (intro world_ok_gw)
next
  case (configures w cfg)
  then show ?case using world_ok_ledger [OF configures.prems]
    by (intro world_ok_gw) (auto simp: ledger_ok_def ids_ok_def rows_linked_def)
next
  case (crashes w)
  then show ?case by (intro world_ok_tasks) simp_all
qed

lemma world_ok_reachable: "(gw_step k)\<^sup>*\<^sup>* (started cfg) w \<Longrightarrow> world_ok k w"
proof (induction rule: rtranclp_induct)
  case base
  show ?case by (simp add: world_ok_def started_def ids_ok_def)
qed (rule world_ok_step)

text \<open>
  C11. Whatever clients, operators and workers do, in any order and with crashes, every write sent to the
  memory service carries the payload its operation was admitted with, and either the policy let that
  operation through or an approval of that operation for that payload was granted.
\<close>

theorem writes_are_authorised:
  assumes "(gw_step k)\<^sup>*\<^sup>* (started cfg) w" and "(op, p) \<in> set (sent w)"
  shows "sha k p = op_hash op \<and> (op_id op \<in> set (granted w) \<or>
    (\<exists>a \<in> set (approvals (gw w)). ap_call a = op_id op \<and> ap_status a = A_APPROVED \<and> ap_hash a = op_hash op))"
  using world_ok_reachable [OF assms(1)] assms(2) unfolding world_ok_def authorised_def by blast

subsection \<open>Sample runs\<close>

definition run_nth :: "crypto \<Rightarrow> v4_reply \<Rightarrow> string \<Rightarrow> nat \<Rightarrow> world \<Rightarrow> world" where
  "run_nth k reply hex n w = (case advance k reply (''apr_'' @ hex) 0 (tasks w ! n) (gw w) of (g, ts, out) \<Rightarrow>
     w\<lparr>gw := g, tasks := take n (tasks w) @ ts @ drop (Suc n) (tasks w), sent := sent w @ out,
       granted := granted w @ grants (tasks w ! n) (gw w)\<rparr>)"

lemma run_nth_step: "n < length (tasks w) \<Longrightarrow> gw_step k w (run_nth k reply hex n w)"
proof -
  assume n: "n < length (tasks w)"
  obtain g ts out where a: "advance k reply (''apr_'' @ hex) 0 (tasks w ! n) (gw w) = (g, ts, out)" by (metis prod_cases3)
  from gw_step.runs [OF id_take_nth_drop [OF n] a] show ?thesis unfolding run_nth_def a prod.case .
qed

definition plain :: crypto where
  "plain = \<lparr>sha = id, encrypt = id, decrypt = id\<rparr>"

definition sample_config :: "string \<Rightarrow> config" where
  "sample_config e = \<lparr>rules = [\<lparr>rule_id = ''r'', scope_type = ''GLOBAL'', scope_id = None, rule_operation = ''WRITE'', effect = e, priority = 100\<rparr>],
     settings = (\<lambda>_. None), clients = [\<lparr>cl_id = ''c'', cl_principal = ''p'', cl_enabled = True\<rparr>],
     bindings = [\<lparr>bd_id = ''b'', bd_client = ''c'', bd_project = ''f'', bd_tenant = ''t'', bd_workspace = ''w'', bd_dataset = ''d'', bd_enabled = True\<rparr>],
     connections = []\<rparr>"

definition sample_op :: operation where
  "sample_op = \<lparr>op_id = ''o1'', op_client = ''c'', op_binding = ''b'', op_connection = ''n'', op_tool = ''mesa_remember'', op_key = ''k'',
     op_hash = ''x'', op_cipher = ''x'', op_status = CREATED, op_approval = None, op_mutation = None, op_response = None,
     op_error = None, op_message = None, op_completed = False\<rparr>"

definition sample_call :: "string \<Rightarrow> world \<Rightarrow> world" where
  "sample_call i w = fst (call_write plain i (hd (bindings (config (gw w))), hd (clients (config (gw w)))) ''c'' ''n'' ''mesa_remember'' ''k'' ''x'' w)"

lemma sample_call_step:
  assumes "config (gw w) = sample_config e"
  shows "gw_step plain w (sample_call i w)"
  unfolding sample_call_def
  by (rule gw_step.calls [where bd = "''b''"]) (simp add: assms scope_for_principal_def get_client_def sample_config_def)

lemmas sample_simps = sample_call_def call_write_def create_operation_def Let_def sample_config_def started_def
  write_tools_def no_text_def same_request_def plain_def run_nth_def evaluate_def rule_matches_def policy_operation_def
  status_tasks_def refreshable_def

text \<open>An effect that is none of the three is let through.\<close>

definition sent_world :: "string \<Rightarrow> world" where
  "sent_world e = run_nth plain Interrupted [] 0 (run_nth plain Interrupted [] 0 (sample_call ''o1'' (started (sample_config e))))"

lemma sent_world_reachable: "(gw_step plain)\<^sup>*\<^sup>* (started (sample_config ''allow'')) (sent_world ''allow'')"
proof -
  let ?w0 = "started (sample_config ''allow'')"
  let ?w1 = "sample_call ''o1'' ?w0"
  let ?w2 = "run_nth plain Interrupted [] 0 ?w1"
  have t1: "length (tasks ?w1) = 1" by (simp add: sample_simps)
  have t2: "length (tasks ?w2) = 1" by (simp add: sample_simps)
  have "gw_step plain ?w0 ?w1" by (rule sample_call_step) (simp add: started_def)
  moreover have "gw_step plain ?w1 ?w2" by (rule run_nth_step) (simp add: t1)
  moreover have "gw_step plain ?w2 (sent_world ''allow'')" unfolding sent_world_def by (rule run_nth_step) (simp add: t2)
  ultimately show ?thesis by (meson r_into_rtranclp rtranclp_trans)
qed

lemma sent_world_sent: "sent (sent_world ''allow'') = [(sample_op, ''x'')]"
  by (simp add: sample_simps sent_world_def sample_op_def send_def)

theorem writes_are_authorised_witness:
  "sha plain ''x'' = op_hash sample_op \<and> (op_id sample_op \<in> set (granted (sent_world ''allow'')) \<or>
    (\<exists>a \<in> set (approvals (gw (sent_world ''allow''))). ap_call a = op_id sample_op \<and> ap_status a = A_APPROVED \<and> ap_hash a = op_hash sample_op))"
  by (rule writes_are_authorised [OF sent_world_reachable]) (simp add: sent_world_sent)

subsection \<open>A dispatch that died\<close>

fun task_op :: "task \<Rightarrow> string" where
  "task_op (Evaluate op b c) = op_id op"
| "task_op (Deny op) = op_id op"
| "task_op (Ask op) = op_id op"
| "task_op (Mark_Pending op a) = op_id op"
| "task_op (Send op b c) = op_id op"
| "task_op (Finish op r) = op_id op"
| "task_op (Review op) = op_id op"
| "task_op (Reviewed op a) = op_id op"
| "task_op (Verify op a) = op_id op"
| "task_op (Enter_Scope op) = op_id op"
| "task_op (Refresh op) = op_id op"

definition only_row :: "string \<Rightarrow> gateway \<Rightarrow> gateway \<Rightarrow> bool" where
  "only_row i g g' \<longleftrightarrow> map op_id (operations g') = map op_id (operations g) \<and>
     (\<forall>r \<in> set (operations g). op_id r \<noteq> i \<longrightarrow> r \<in> set (operations g'))"

lemma only_row_refl [simp]: "only_row i g g"
  by (simp add: only_row_def)

lemma only_row_upd:
  assumes "\<And>r. P r \<Longrightarrow> op_id r = i" and "\<And>r. op_id (f r) = op_id r"
  shows "only_row i g (g\<lparr>operations := upd P f (operations g)\<rparr>)"
  using assms by (auto simp: only_row_def map_upd_key intro: upd_miss)

lemma only_row_set: "only_row i g (set_operation i st a m r c msg g)"
  unfolding set_operation_def by (rule only_row_upd) auto

lemma only_row_transition: "only_row i g (fst (transition_operation i e st c g))"
  unfolding transition_operation_def Let_def fst_conv by (rule only_row_upd) auto

lemma only_row_advance:
  assumes "advance k reply aid now t g = (g', ts, out)"
  shows "only_row (task_op t) g g'" and "\<forall>t' \<in> set ts. task_op t' = task_op t" and "\<forall>(op, p) \<in> set out. op_id op = task_op t"
proof -
  have "only_row (task_op t) g g' \<and> (\<forall>t' \<in> set ts. task_op t' = task_op t) \<and> (\<forall>(op, p) \<in> set out. op_id op = task_op t)"
  proof (cases t)
    case (Ask op)
    then show ?thesis using assms
      by (auto simp: create_approval_request_def only_row_def split: option.splits if_splits)
  next
    case (Reviewed op a)
    then show ?thesis using assms only_row_transition [of "op_id op" g]
      by (auto simp: reviewed_def Let_def split: prod.splits if_splits) (metis fst_conv)+
  next
    case (Verify op a)
    then show ?thesis using assms only_row_transition [of "op_id op" g]
      by (auto simp: verify_def Let_def split: prod.splits if_splits) (metis fst_conv)+
  next
    case (Finish op r)
    then show ?thesis using assms by (cases r) (auto simp: only_row_set)
  qed (use assms only_row_set in \<open>auto simp: Let_def send_def split: if_splits option.splits sum.splits v4_reply.splits prod.splits\<close>)
  then show "only_row (task_op t) g g'" and "\<forall>t' \<in> set ts. task_op t' = task_op t" and "\<forall>(op, p) \<in> set out. op_id op = task_op t"
    by auto
qed

definition sent_for :: "string \<Rightarrow> world \<Rightarrow> (operation \<times> string) list" where
  "sent_for i w = filter (\<lambda>(op, p). op_id op = i) (sent w)"

definition stranded :: "operation \<Rightarrow> world \<Rightarrow> bool" where
  "stranded r w \<longleftrightarrow> distinct (map op_id (operations (gw w))) \<and> r \<in> set (operations (gw w)) \<and> op_status r = DISPATCHING \<and>
     (\<forall>t \<in> set (tasks w). task_op t \<noteq> op_id r)"

lemma strandedD:
  assumes "stranded r w" and "op \<in> set (operations (gw w))" and "op_id op = op_id r"
  shows "op = r"
  using assms by (auto simp: stranded_def distinct_map inj_on_def)

lemma status_tasks_other: "(op_id op = i \<Longrightarrow> op_status op = DISPATCHING) \<Longrightarrow> t \<in> set (status_tasks op) \<Longrightarrow> task_op t \<noteq> i"
  by (auto simp: status_tasks_def refreshable_def split: if_splits)

lemma stranded_call:
  assumes "stranded r w"
  shows "stranded r (fst (call_write k new_id bc caller cn tool key payload w))
    \<and> sent (fst (call_write k new_id bc caller cn tool key payload w)) = sent w"
proof -
  obtain g x where c: "create_operation k new_id caller (bd_id (fst bc)) cn tool key payload (gw w) = (g, x)" by fastforce
  have g: "distinct (map op_id (operations g))" "r \<in> set (operations g)"
    using assms c by (auto simp: create_operation_def Let_def stranded_def split: if_splits)
  have new: "task_op t \<noteq> op_id r" if "x = Inr op" "t \<in> set (if op_status op \<noteq> CREATED then status_tasks op else [Evaluate op (fst bc) (snd bc)])" for op t
  proof -
    have "op \<in> set (operations g)"
      using c that(1) by (auto simp: create_operation_def Let_def split: option.splits if_splits dest: find_SomeD)
    then have "op = r" if "op_id op = op_id r" using that g by (auto simp: distinct_map inj_on_def)
    then have "op_id op = op_id r \<Longrightarrow> op_status op = DISPATCHING" using assms by (auto simp: stranded_def)
    then show ?thesis using that(2) status_tasks_other [of op "op_id r" t] by (auto split: if_splits)
  qed
  have gw: "stranded r (w\<lparr>gw := g\<rparr>)" using assms g by (simp add: stranded_def)
  show ?thesis
  proof (cases x)
    case (Inl e)
    then show ?thesis using assms gw c by (simp add: call_write_def)
  next
    case (Inr op)
    let ?ts = "if op_status op \<noteq> CREATED then status_tasks op else [Evaluate op (fst bc) (snd bc)]"
    have "stranded r (w\<lparr>gw := g, tasks := tasks w @ ?ts\<rparr>)"
      using gw new [OF Inr] unfolding stranded_def by (simp only: gateway.simps world.simps set_append Un_iff) auto
    then show ?thesis using Inr assms c by (simp add: call_write_def)
  qed
qed

lemma stranded_step: "gw_step k w w' \<Longrightarrow> stranded r w \<Longrightarrow> stranded r w' \<and> sent_for (op_id r) w' = sent_for (op_id r) w"
proof (induction rule: gw_step.induct)
  case (calls w caller cn bc bd new_id tool key payload)
  then show ?case using stranded_call by (simp add: sent_for_def)
next
  case (polls w i op)
  have "op \<in> set (operations (gw w))" using polls.hyps by (auto simp: get_operation_def dest: find_SomeD)
  then have "op_id op = op_id r \<Longrightarrow> op_status op = DISPATCHING" using strandedD [OF polls.prems] polls.prems by (auto simp: stranded_def)
  then show ?case using polls.prems status_tasks_other [of op "op_id r"] by (auto simp: stranded_def sent_for_def)
next
  case (wakes w)
  then show ?case using strandedD [OF wakes] by (fastforce simp: stranded_def sent_for_def review_all_def)
next
  case (runs w pre t post reply hex now g ts out)
  have t: "task_op t \<noteq> op_id r" using runs by (simp add: stranded_def)
  note o = only_row_advance [OF runs.hyps(2)]
  have "r \<in> set (operations g)" "map op_id (operations g) = map op_id (operations (gw w))"
    using o(1) t runs.prems by (auto simp: only_row_def stranded_def)
  moreover have "filter (\<lambda>(op, p). op_id op = op_id r) out = []" using o(3) t by (auto simp: filter_empty_conv)
  ultimately show ?case using runs.prems runs.hyps(1) o(2) t by (auto simp: stranded_def sent_for_def)
next
  case (decides admin i decision who reason w g)
  obtain aid st P where g: "g = fst (decide_approval aid st who reason (gw w))
      \<lparr>operations := upd P (decided decision reason) (operations (fst (decide_approval aid st who reason (gw w))))\<rparr>"
      and P: "P = (\<lambda>r. op_id r = i \<and> op_status r = PENDING_APPROVAL)"
    using decides.hyps unfolding decide_def Let_def by (simp split: option.splits if_splits) blast+
  have "operations g = upd P (decided decision reason) (operations (gw w))"
    by (simp add: g decide_approval_def Let_def)
  moreover have "map op_id (upd P (decided decision reason) (operations (gw w))) = map op_id (operations (gw w))"
    by (rule map_upd_key) (simp add: decided_def)
  ultimately show ?case using decides.prems by (auto simp: stranded_def sent_for_def P intro: upd_miss)
qed (auto simp: stranded_def sent_for_def decide_approval_def expire_stale_approvals_def Let_def)

text \<open>
  C20. When the gateway stops while an approved operation is DISPATCHING, that operation is never sent,
  failed or finished afterwards: no client retry, poll, operator decision or worker changes its row.
\<close>

theorem dispatching_stranded:
  assumes "distinct (map op_id (operations (gw w)))" and "r \<in> set (operations (gw w))" and "op_status r = DISPATCHING"
    and "(gw_step k)\<^sup>*\<^sup>* (w\<lparr>tasks := []\<rparr>) w'"
  shows "r \<in> set (operations (gw w')) \<and> sent_for (op_id r) w' = sent_for (op_id r) w"
proof -
  have "stranded r (w\<lparr>tasks := []\<rparr>)" using assms(1-3) by (simp add: stranded_def)
  with assms(4) have "stranded r w' \<and> sent_for (op_id r) w' = sent_for (op_id r) (w\<lparr>tasks := []\<rparr>)"
  proof (induction rule: rtranclp_induct)
    case (step y z)
    then show ?case using stranded_step [OF step.hyps(2), of r] by simp
  qed simp
  then show ?thesis by (simp add: stranded_def sent_for_def)
qed

text \<open>A worker claims an approved operation; then the gateway restarts and a client retries.\<close>

lemma reach_run: "(gw_step k)\<^sup>*\<^sup>* w0 w \<Longrightarrow> n < length (tasks w) \<Longrightarrow> (gw_step k)\<^sup>*\<^sup>* w0 (run_nth k reply hex n w)"
  by (meson rtranclp.rtrancl_into_rtrancl run_nth_step)

definition pending_world :: world where
  "pending_world = run_nth plain Interrupted ''1'' 0 (run_nth plain Interrupted ''1'' 0 (run_nth plain Interrupted ''1'' 0
     (sample_call ''o1'' (started (sample_config ''REQUIRE_APPROVAL'')))))"

definition approved_world :: world where
  "approved_world = pending_world\<lparr>gw := projr (decide True ''o1'' APPROVED ''boss'' None (gw pending_world))\<rparr>"

definition dispatching_world :: world where
  "dispatching_world = run_nth plain Interrupted ''2'' 0 (run_nth plain Interrupted ''2'' 0
     (run_nth plain Interrupted ''2'' 0 (approved_world\<lparr>tasks := review_all (gw approved_world)\<rparr>)))"

lemmas world_defs = pending_world_def approved_world_def dispatching_world_def

lemmas gateway_simps = sample_simps decide_def decide_approval_def create_approval_request_def set_operation_def
  transition_operation_def get_operation_def get_approval_def coalesce_def terminal_def decided_def review_all_def
  reviewed_def verify_def

definition pending_op :: operation where
  "pending_op = sample_op\<lparr>op_status := PENDING_APPROVAL, op_approval := Some ''apr_1''\<rparr>"

definition dispatched_op :: operation where
  "dispatched_op = pending_op\<lparr>op_status := DISPATCHING\<rparr>"

lemma pending_world_ops: "operations (gw pending_world) = [pending_op]"
  by (simp add: pending_world_def gateway_simps pending_op_def sample_op_def)

lemma dispatching_world_ops: "operations (gw dispatching_world) = [dispatched_op]"
  by (simp add: world_defs gateway_simps dispatched_op_def pending_op_def sample_op_def)

text \<open>Rejected by one path, an operation is pending again when a second call of the client goes on.\<close>

definition rejected_world :: world where
  "rejected_world = (let w = run_nth plain Interrupted ''1'' 0 (run_nth plain Interrupted ''1'' 0 (run_nth plain Interrupted ''1'' 0
       (sample_call ''o2'' (sample_call ''o1'' (started (sample_config ''REQUIRE_APPROVAL''))))))
     in w\<lparr>gw := projr (decide True ''o1'' REJECTED ''boss'' None (gw w))\<rparr>)"

definition reopened_world :: world where
  "reopened_world = run_nth plain Interrupted ''2'' 0 (run_nth plain Interrupted ''2'' 0 (run_nth plain Interrupted ''2'' 0 rejected_world))"

lemma rejected_then_pending:
  "map op_status (operations (gw rejected_world)) = [REJECTED] \<and> map op_status (operations (gw reopened_world)) = [PENDING_APPROVAL]"
  by (simp add: reopened_world_def rejected_world_def gateway_simps)

lemma rejected_world_reachable: "(gw_step plain)\<^sup>*\<^sup>* (started (sample_config ''REQUIRE_APPROVAL'')) rejected_world"
  and reopened_world_reachable: "(gw_step plain)\<^sup>*\<^sup>* rejected_world reopened_world"
proof -
  let ?w0 = "started (sample_config ''REQUIRE_APPROVAL'')"
  let ?w1 = "sample_call ''o1'' ?w0"
  let ?w2 = "sample_call ''o2'' ?w1"
  let ?r = "\<lambda>h. run_nth plain Interrupted h 0"
  let ?w3 = "?r ''1'' (?r ''1'' (?r ''1'' ?w2))"
  let ?g = "projr (decide True ''o1'' REJECTED ''boss'' None (gw ?w3))"
  have "(gw_step plain)\<^sup>*\<^sup>* ?w0 ?w1" by (intro r_into_rtranclp sample_call_step) (simp add: started_def)
  then have "(gw_step plain)\<^sup>*\<^sup>* ?w0 ?w2"
    by (rule rtranclp.rtrancl_into_rtrancl) (rule sample_call_step, simp add: sample_simps)
  then have w3: "(gw_step plain)\<^sup>*\<^sup>* ?w0 ?w3"
    by (intro reach_run) (simp_all add: gateway_simps)
  have "decide True ''o1'' REJECTED ''boss'' None (gw ?w3) = Inr ?g" by (simp add: gateway_simps)
  then have "gw_step plain ?w3 (?w3\<lparr>gw := ?g\<rparr>)" by (rule gw_step.decides)
  with w3 show "(gw_step plain)\<^sup>*\<^sup>* ?w0 rejected_world" unfolding rejected_world_def Let_def by (rule rtranclp.rtrancl_into_rtrancl)
  show "(gw_step plain)\<^sup>*\<^sup>* rejected_world reopened_world"
    unfolding reopened_world_def by (intro reach_run rtranclp.rtrancl_refl) (simp_all add: rejected_world_def gateway_simps)
qed

theorem dispatching_stranded_witness:
  "dispatched_op \<in> set (operations (gw (sample_call ''o2'' (dispatching_world\<lparr>tasks := []\<rparr>)))) \<and>
    sent_for (op_id dispatched_op) (sample_call ''o2'' (dispatching_world\<lparr>tasks := []\<rparr>)) = sent_for (op_id dispatched_op) dispatching_world"
proof (rule dispatching_stranded)
  show "(gw_step plain)\<^sup>*\<^sup>* (dispatching_world\<lparr>tasks := []\<rparr>) (sample_call ''o2'' (dispatching_world\<lparr>tasks := []\<rparr>))"
    by (rule r_into_rtranclp, rule sample_call_step [where e = "''REQUIRE_APPROVAL''"])
       (simp add: world_defs gateway_simps)
qed (simp_all add: dispatching_world_ops dispatched_op_def pending_op_def)

end
