(* ===== verification/Supervision.thy ===== *)
theory Supervision imports Main begin

text \<open>
  Two guards around calls that may fail: the circuit breaker between the gateway and the memory
  service (\<open>CircuitBreaker\<close> of \<open>mesa_mcp/gateway/operations.py\<close>) and the worker supervisor
  (\<open>mesa_workers/supervision.py\<close>). Sections between two \<open>await\<close>s are one step.
\<close>

subsection \<open>Circuit breaker\<close>

datatype breaker_state = CLOSED | OPEN | HALF_OPEN

record breaker =
  failure_threshold :: nat
  recovery_seconds :: int
  failures :: nat
  opened_at :: "int option"
  probe_in_flight :: bool

definition new_breaker :: "nat \<Rightarrow> int \<Rightarrow> breaker" where
  "new_breaker n s = \<lparr>failure_threshold = n, recovery_seconds = s, failures = 0, opened_at = None, probe_in_flight = False\<rparr>"

definition breaker_state :: "int \<Rightarrow> breaker \<Rightarrow> breaker_state" where
  "breaker_state now b = (case opened_at b of None \<Rightarrow> CLOSED
     | Some t \<Rightarrow> if recovery_seconds b \<le> now - t then HALF_OPEN else OPEN)"

text \<open>\<open>call\<close> up to the operation: refused, or admitted with its \<open>probe\<close> flag.\<close>

definition breaker_enter :: "int \<Rightarrow> breaker \<Rightarrow> (bool \<times> breaker) option" where
  "breaker_enter now b = (case breaker_state now b of
      OPEN \<Rightarrow> None
    | HALF_OPEN \<Rightarrow> if probe_in_flight b then None else Some (True, b\<lparr>probe_in_flight := True\<rparr>)
    | CLOSED \<Rightarrow> Some (False, b))"

text \<open>The operation returned, raised an \<open>MCPError\<close> that is retryable or not, or ended otherwise.\<close>

datatype call_outcome = Returned | Mcp_Failed bool | Other_Exit

definition breaker_leave :: "int \<Rightarrow> bool \<Rightarrow> call_outcome \<Rightarrow> breaker \<Rightarrow> breaker" where
  "breaker_leave now probe out b = (case out of
      Returned \<Rightarrow> b\<lparr>failures := 0, opened_at := None, probe_in_flight := False\<rparr>
    | Mcp_Failed retryable \<Rightarrow>
        if retryable then
          (if probe then b\<lparr>opened_at := Some now, probe_in_flight := False\<rparr>
           else b\<lparr>failures := failures b + 1,
             opened_at := (if failure_threshold b \<le> failures b + 1 then Some now else opened_at b), probe_in_flight := False\<rparr>)
        else b
    | Other_Exit \<Rightarrow> b)"

text \<open>The calls in flight are their \<open>probe\<close> flags.\<close>

datatype breaker_event = Enter int | Leave int nat call_outcome

definition breaker_event :: "breaker_event \<Rightarrow> breaker \<times> bool list \<Rightarrow> (breaker \<times> bool list) \<times> bool" where
  "breaker_event e s = (case (e, s) of
      (Enter now, b, calls) \<Rightarrow> (case breaker_enter now b of None \<Rightarrow> (s, False) | Some (p, b') \<Rightarrow> ((b', calls @ [p]), True))
    | (Leave now i out, b, calls) \<Rightarrow>
        if i < length calls then ((breaker_leave now (calls ! i) out b, take i calls @ drop (Suc i) calls), True) else (s, True))"

text \<open>The answers list whether each event was served.\<close>

fun breaker_run :: "breaker_event list \<Rightarrow> breaker \<times> bool list \<Rightarrow> (breaker \<times> bool list) \<times> bool list" where
  "breaker_run [] s = (s, [])"
| "breaker_run (e # es) s = (case breaker_event e s of (s', ok) \<Rightarrow> (case breaker_run es s' of (s'', oks) \<Rightarrow> (s'', ok # oks)))"

subsection \<open>Worker supervisor\<close>

datatype worker_state = STARTING | RUNNING | DEGRADED | STOPPING | STOPPED | CRASHED | BLOCKED

text \<open>\<open>alive\<close> is \<open>not task.done()\<close>; \<open>started\<close> counts the tasks made for the worker.\<close>

record worker =
  w_state :: worker_state
  restart_count :: nat
  required :: bool
  alive :: bool
  started :: nat

record supervisor =
  max_restarts :: nat
  stopping :: bool
  workers :: "(string \<times> worker) list"

datatype task_end = Cancelled | Finished | Failed

definition set_worker :: "string \<Rightarrow> worker \<Rightarrow> supervisor \<Rightarrow> supervisor" where
  "set_worker n w s = s\<lparr>workers := (if n \<in> fst ` set (workers s)
     then map (\<lambda>(m, v). if m = n then (m, w) else (m, v)) (workers s) else workers s @ [(n, w)])\<rparr>"

definition start :: "string \<Rightarrow> bool \<Rightarrow> supervisor \<Rightarrow> supervisor option" where
  "start n req s =
    (if stopping s then None
     else (case map_of (workers s) n of
         None \<Rightarrow> Some (set_worker n \<lparr>w_state = RUNNING, restart_count = 0, required = req, alive = True, started = 1\<rparr> s)
       | Some w \<Rightarrow>
           if alive w then Some s
           else Some (set_worker n (w\<lparr>required := req, w_state := RUNNING, alive := True, started := started w + 1\<rparr>) s)))"

definition observe_end :: "string \<Rightarrow> task_end \<Rightarrow> supervisor \<Rightarrow> supervisor" where
  "observe_end n e s = (case map_of (workers s) n of
      None \<Rightarrow> s
    | Some w \<Rightarrow>
        if stopping s \<or> e \<noteq> Failed then set_worker n (w\<lparr>w_state := STOPPED\<rparr>) s
        else if max_restarts s \<le> restart_count w then set_worker n (w\<lparr>w_state := BLOCKED\<rparr>) s
        else
          let w' = w\<lparr>restart_count := restart_count w + 1, w_state := DEGRADED\<rparr>; s' = set_worker n w' s
          in (case start n (required w') s' of None \<Rightarrow> s' | Some s'' \<Rightarrow> s''))"

definition shutdown :: "supervisor \<Rightarrow> supervisor" where
  "shutdown s = s\<lparr>stopping := True, workers := map (\<lambda>(n, w). (n, w\<lparr>w_state := STOPPED, alive := False\<rparr>)) (workers s)\<rparr>"

definition readiness :: "supervisor \<Rightarrow> string" where
  "readiness s =
    (let req = filter (\<lambda>(n, w). required w) (workers s)
     in if req = [] \<or> (\<exists>(n, w) \<in> set req. w_state w = BLOCKED) then ''blocked''
        else if \<exists>(n, w) \<in> set req. w_state w \<noteq> RUNNING then ''degraded''
        else ''healthy'')"

text \<open>
  A task ends and its callback schedules an observation, which runs later: \<open>pending\<close> are those that
  are scheduled.
\<close>

datatype sup_event = Start string bool | Ends string task_end | Observe nat | Shutdown

type_synonym sup = "supervisor \<times> (string \<times> task_end) list"

fun sup_step :: "sup_event \<Rightarrow> sup \<Rightarrow> sup" where
  "sup_step (Start n req) (s, pending) = (case start n req s of None \<Rightarrow> (s, pending) | Some s' \<Rightarrow> (s', pending))"
| "sup_step (Ends n e) (s, pending) = (case map_of (workers s) n of
      Some w \<Rightarrow> if alive w then (set_worker n (w\<lparr>alive := False\<rparr>) s, pending @ [(n, e)]) else (s, pending)
    | None \<Rightarrow> (s, pending))"
| "sup_step (Observe i) (s, pending) =
    (if i < length pending then (observe_end (fst (pending ! i)) (snd (pending ! i)) s, take i pending @ drop (Suc i) pending)
     else (s, pending))"
| "sup_step Shutdown (s, pending) = (shutdown s, pending)"

definition new_supervisor :: "nat \<Rightarrow> sup" where
  "new_supervisor n = (\<lparr>max_restarts = n, stopping = False, workers = []\<rparr>, [])"

end
