(* ===== verification/Supervision_Properties.thy ===== *)
theory Supervision_Properties imports Supervision begin

text \<open>
  A crashing worker is restarted at most as often as its budget allows; a probe that ends in an error
  that is not retryable closes the circuit breaker for good.
\<close>

subsection \<open>Restart budget\<close>

lemma set_worker_mem: "(m, v) \<in> set (workers (set_worker n w s)) \<Longrightarrow> (m, v) = (n, w) \<or> ((m, v) \<in> set (workers s) \<and> m \<noteq> n)"
  by (force simp: set_worker_def split: if_splits)

lemma map_of_set_worker: "map_of (workers (set_worker n w s)) n = Some w"
proof -
  have "map_of (map (\<lambda>(m, v). if m = n then (m, w) else (m, v)) ws) n = Some w" if "n \<in> fst ` set ws" for ws :: "(string \<times> worker) list"
    using that by (induction ws) auto
  moreover have "map_of (ws @ [(n, w)]) n = Some w" if "n \<notin> fst ` set ws" for ws :: "(string \<times> worker) list"
    using that by (auto simp: map_add_def split: option.split dest: map_of_SomeD) (metis fst_conv image_eqI map_of_SomeD)
  ultimately show ?thesis by (simp add: set_worker_def)
qed

lemma set_worker_fields [simp]: "max_restarts (set_worker n w s) = max_restarts s" "stopping (set_worker n w s) = stopping s"
  by (simp_all add: set_worker_def)

fun starts_of :: "string \<Rightarrow> sup_event list \<Rightarrow> nat" where
  "starts_of n [] = 0"
| "starts_of n (Start m req # es) = (if m = n then 1 else 0) + starts_of n es"
| "starts_of n (_ # es) = starts_of n es"

lemma starts_of_append: "starts_of n (es @ fs) = starts_of n es + starts_of n fs"
  by (induction n es rule: starts_of.induct) auto

definition worker_ok :: "nat \<Rightarrow> (string \<Rightarrow> nat) \<Rightarrow> string \<times> worker \<Rightarrow> bool" where
  "worker_ok k c x \<longleftrightarrow> (case x of (n, w) \<Rightarrow> restart_count w \<le> k \<and> started w \<le> c n + restart_count w \<and>
     (w_state w = BLOCKED \<longrightarrow> restart_count w = k))"

definition sup_ok :: "nat \<Rightarrow> (string \<Rightarrow> nat) \<Rightarrow> supervisor \<Rightarrow> bool" where
  "sup_ok k c s \<longleftrightarrow> max_restarts s = k \<and> (\<forall>x \<in> set (workers s). worker_ok k c x)"

lemma sup_ok_set: "sup_ok k c s \<Longrightarrow> worker_ok k c (n, w) \<Longrightarrow> sup_ok k c (set_worker n w s)"
  using set_worker_mem by (fastforce simp: sup_ok_def)

lemma sup_ok_worker: "sup_ok k c s \<Longrightarrow> map_of (workers s) n = Some w \<Longrightarrow> worker_ok k c (n, w)"
  by (auto simp: sup_ok_def dest: map_of_SomeD)

lemma sup_ok_more: "sup_ok k c s \<Longrightarrow> (\<And>n. c n \<le> c' n) \<Longrightarrow> sup_ok k c' s"
  by (fastforce simp: sup_ok_def worker_ok_def intro: le_trans add_le_mono1)

lemma start_ok:
  assumes "sup_ok k c s" and "start n req s = Some s'"
  shows "sup_ok k (c(n := c n + 1)) s'"
proof -
  have s: "sup_ok k (c(n := c n + 1)) s" using assms(1) by (rule sup_ok_more) simp
  show ?thesis
  proof (cases "map_of (workers s) n")
    case None
    then show ?thesis using assms(2) s by (auto simp: start_def worker_ok_def split: if_splits intro!: sup_ok_set)
  next
    case (Some w)
    then show ?thesis using assms(2) s sup_ok_worker [OF assms(1) Some]
      by (auto simp: start_def worker_ok_def split: if_splits intro!: sup_ok_set)
  qed
qed

lemma observe_end_ok:
  assumes "sup_ok k c s"
  shows "sup_ok k c (observe_end n e s)"
proof (cases "map_of (workers s) n")
  case None
  then show ?thesis using assms by (simp add: observe_end_def)
next
  case (Some w)
  note w = sup_ok_worker [OF assms Some]
  show ?thesis
  proof (cases "stopping s \<or> e \<noteq> Failed \<or> k \<le> restart_count w")
    case True
    have k: "max_restarts s = k" using assms by (simp add: sup_ok_def)
    have "sup_ok k c (set_worker n (w\<lparr>w_state := STOPPED\<rparr>) s)" using w by (intro sup_ok_set [OF assms]) (simp add: worker_ok_def)
    moreover have "sup_ok k c (set_worker n (w\<lparr>w_state := BLOCKED\<rparr>) s)" if "k \<le> restart_count w"
      using w that by (intro sup_ok_set [OF assms]) (simp add: worker_ok_def)
    ultimately show ?thesis using True Some k by (auto simp: observe_end_def)
  next
    case False
    let ?w = "w\<lparr>restart_count := restart_count w + 1, w_state := DEGRADED\<rparr>"
    have ok: "sup_ok k c (set_worker n ?w s)"
      using False w by (intro sup_ok_set [OF assms]) (auto simp: worker_ok_def)
    have "sup_ok k c (set_worker n (?w\<lparr>required := required w, w_state := RUNNING, alive := True, started := started w + 1\<rparr>) (set_worker n ?w s))"
      using False w by (intro sup_ok_set [OF ok]) (auto simp: worker_ok_def)
    moreover have "max_restarts s = k" using assms by (simp add: sup_ok_def)
    ultimately show ?thesis using False Some ok by (auto simp: observe_end_def start_def Let_def map_of_set_worker)
  qed
qed

lemma sup_step_ok:
  assumes "sup_ok k c (fst s)"
  shows "sup_ok k (\<lambda>n. c n + starts_of n [e]) (fst (sup_step e s))"
proof (cases e)
  case (Start n req)
  have "(\<lambda>m. c m + starts_of m [e]) = c(n := c n + 1)" using Start by (auto simp: fun_eq_iff)
  moreover have "sup_ok k (c(n := c n + 1)) (fst s)" using assms by (rule sup_ok_more) simp
  ultimately show ?thesis using Start start_ok [OF assms] by (cases s) (auto split: option.split)
next
  case (Ends n f)
  have "sup_ok k c (set_worker n (w\<lparr>alive := False\<rparr>) (fst s))" if "map_of (workers (fst s)) n = Some w" for w
    using sup_ok_worker [OF assms that] by (intro sup_ok_set [OF assms]) (simp add: worker_ok_def)
  then show ?thesis using Ends assms by (cases s) (simp split: option.split)
next
  case (Observe i)
  then show ?thesis using assms observe_end_ok by (cases s) auto
next
  case Shutdown
  then show ?thesis using assms by (cases s) (auto simp: shutdown_def sup_ok_def worker_ok_def)
qed

lemma sup_run_ok:
  "sup_ok k (\<lambda>n. starts_of n es) (fst (foldl (\<lambda>s e. sup_step e s) (new_supervisor k) es))"
proof (induction es rule: rev_induct)
  case Nil
  show ?case by (simp add: new_supervisor_def sup_ok_def)
next
  case (snoc e es)
  from sup_step_ok [OF snoc, of e] show ?case by (simp only: starts_of_append foldl_append foldl.simps)
qed

text \<open>
  Whatever starts, crashes and late observations happen, a worker has been started at most as often
  as it was asked for plus the restart budget, and it is BLOCKED only when the budget is spent.
\<close>

lemma restarts_are_bounded:
  assumes "(n, w) \<in> set (workers (fst (foldl (\<lambda>s e. sup_step e s) (new_supervisor k) es)))"
  shows "restart_count w \<le> k \<and> started w \<le> starts_of n es + k \<and> (w_state w = BLOCKED \<longrightarrow> restart_count w = k)"
  using sup_run_ok [of k es] assms by (fastforce simp: sup_ok_def worker_ok_def)

text \<open>Budget one: the worker is restarted once and blocked at its second crash.\<close>

definition crashed :: worker where
  "crashed = \<lparr>w_state = BLOCKED, restart_count = 1, required = True, alive = False, started = 2\<rparr>"

lemma restarts_are_bounded_witness:
  "restart_count crashed \<le> 1 \<and> started crashed \<le> starts_of ''w'' [Start ''w'' True, Ends ''w'' Failed, Observe 0, Ends ''w'' Failed, Observe 0] + 1 \<and>
    restart_count crashed = 1"
proof -
  have "(''w'', crashed) \<in> set (workers (fst (foldl (\<lambda>s e. sup_step e s) (new_supervisor 1)
      [Start ''w'' True, Ends ''w'' Failed, Observe 0, Ends ''w'' Failed, Observe 0])))"
    by (simp add: new_supervisor_def start_def set_worker_def observe_end_def crashed_def)
  from restarts_are_bounded [OF this] show ?thesis by (simp add: crashed_def)
qed

subsection \<open>The lost probe\<close>

definition refusals :: "breaker_event \<Rightarrow> bool" where
  "refusals e = (case e of Enter _ \<Rightarrow> False | Leave _ _ _ \<Rightarrow> True)"

lemma breaker_stuck:
  assumes "opened_at b = Some t" and "probe_in_flight b"
  shows "breaker_run es (b, []) = ((b, []), map refusals es)"
proof (induction es)
  case (Cons e es)
  have "breaker_event e (b, []) = ((b, []), refusals e)"
    using assms by (auto simp: breaker_event_def breaker_enter_def breaker_state_def refusals_def split: breaker_event.split)
  with Cons show ?case by simp
qed simp

text \<open>
  When no other call is under way and the probe of a half-open breaker ends in an error that is not
  retryable, or is cancelled, the breaker refuses every later call, whatever time passes.
\<close>

lemma lost_probe_refuses_forever:
  assumes "opened_at b = Some t" and "recovery_seconds b \<le> now - t" and "\<not> probe_in_flight b" and "out \<in> {Mcp_Failed False, Other_Exit}"
  shows "snd (breaker_run (Enter now # Leave now' 0 out # es) (b, [])) = True # True # map refusals es"
proof -
  let ?b = "b\<lparr>probe_in_flight := True\<rparr>"
  have "breaker_event (Enter now) (b, []) = ((?b, [True]), True)"
    using assms(1-3) by (simp add: breaker_event_def breaker_enter_def breaker_state_def)
  moreover have "breaker_event (Leave now' 0 out) (?b, [True]) = ((?b, []), True)"
    using assms(4) by (auto simp: breaker_event_def breaker_leave_def)
  moreover have "breaker_run es (?b, []) = ((?b, []), map refusals es)"
    using assms(1) by (intro breaker_stuck [where t = t]) simp_all
  ultimately show ?thesis by simp
qed

lemma lost_probe_refuses_forever_witness:
  "snd (breaker_run (Enter 20 # Leave 21 0 (Mcp_Failed False) # [Enter 100000])
      (\<lparr>failure_threshold = 5, recovery_seconds = 10, failures = 5, opened_at = Some 0, probe_in_flight = False\<rparr>, []))
    = True # True # map refusals [Enter 100000]"
  by (rule lost_probe_refuses_forever [where t = 0]) simp_all

end
