(* ===== verification/Fusion.thy ===== *)
theory Fusion imports Complex_Main Prelude "HOL-Library.AList" "HOL-Library.Char_ord" "HOL-Library.List_Lexorder"
  "HOL-Library.Log_Nat" "HOL-Library.Product_Lexorder"
begin

text \<open>
  Reciprocal rank fusion (\<open>mesa_storage/retrieval_scope.py\<close>) and the bounded query expansion above it
  (\<open>mesa_memory/retrieval/adaptive.py\<close>). A dict is its list of items in insertion order. Scores,
  weights and \<open>k\<close> are the rationals a double stands for, and every division and addition of the code is
  rounded as the hardware rounds it.
\<close>

subsection \<open>Doubles\<close>

text \<open>
  Rounding of a non-negative rational to a double: to the nearest multiple of the spacing of doubles at its
  size (53 bits, subnormal below \<open>2 ^ -1022\<close>), ties to the even one. Infinity is \<open>2 ^ 1024\<close>, which is larger
  than every double and absorbs every addition; the code refuses NaN, and no operation on such values makes one.
\<close>

definition nearest_even :: "rat \<Rightarrow> int" where
  "nearest_even x =
    (let f = floor x; r = x - of_int f
     in if r < 1 / 2 then f else if 1 / 2 < r then f + 1 else if even f then f else f + 1)"

definition magnitude :: "rat \<Rightarrow> int" where
  "magnitude x =
    (let e = bitlen (fst (quotient_of x)) - bitlen (snd (quotient_of x))
     in if 2 powi e \<le> x then e else e - 1)"

definition spacing :: "rat \<Rightarrow> rat" where
  "spacing x = 2 powi (max (magnitude x - 52) (- 1074))"

definition dbl :: "rat \<Rightarrow> rat" where
  "dbl x = (if x \<le> 0 then 0 else min (2 ^ 1024) (of_int (nearest_even (x / spacing x)) * spacing x))"

subsection \<open>Fusion of lanes\<close>

datatype fusion_error = Bad_Rank | Bad_K | Bad_Weight

type_synonym 'a dict = "(string \<times> 'a) list"

definition default_lane_weights :: "rat dict" where
  "default_lane_weights = [(''vector'', 1), (''bm25'', 1), (''assertion'', 1), (''graph'', 1)]"

definition lane_weight :: "rat dict option \<Rightarrow> string \<Rightarrow> rat" where
  "lane_weight weights lane =
    (case map_of (case weights of None \<Rightarrow> default_lane_weights | Some w \<Rightarrow> w) lane of None \<Rightarrow> 1 | Some x \<Rightarrow> x)"

definition compute_rrf_lane_score :: "nat \<Rightarrow> string \<Rightarrow> rat \<Rightarrow> rat dict option \<Rightarrow> fusion_error + rat" where
  "compute_rrf_lane_score rank lane k weights =
    (if rank < 1 then Inl Bad_Rank
     else if k < 1 then Inl Bad_K
     else if lane_weight weights lane < 0 then Inl Bad_Weight
     else Inr (dbl (lane_weight weights lane / dbl (k + of_nat rank))))"

type_synonym tally = "rat dict \<times> nat dict dict"

definition get_or :: "'a \<Rightarrow> 'a dict \<Rightarrow> string \<Rightarrow> 'a" where
  "get_or d m c = (case map_of m c of None \<Rightarrow> d | Some x \<Rightarrow> x)"

definition vote :: "rat \<Rightarrow> rat dict option \<Rightarrow> string \<Rightarrow> nat \<times> string \<Rightarrow> tally \<Rightarrow> fusion_error + tally" where
  "vote k weights lane x s = (case x of (rank, c) \<Rightarrow>
     bindE (compute_rrf_lane_score rank lane k weights) (\<lambda>contrib.
       Inr (AList.update c (dbl (get_or 0 (fst s) c + contrib)) (fst s),
            AList.update c (AList.update lane rank (get_or [] (snd s) c)) (snd s))))"

text \<open>\<open>enumerate(dict.fromkeys(ranking), start=1)\<close>\<close>

definition ranked :: "string list \<Rightarrow> (nat \<times> string) list" where
  "ranked ids = enumerate 1 (distinct_rows ids)"

definition count_lane :: "rat \<Rightarrow> rat dict option \<Rightarrow> string \<times> string list \<Rightarrow> tally \<Rightarrow> fusion_error + tally" where
  "count_lane k weights x s = foldE (vote k weights (fst x)) (ranked (snd x)) s"

definition rrf_fuse_lanes :: "string list dict \<Rightarrow> rat \<Rightarrow> rat dict option \<Rightarrow> fusion_error + (string \<times> rat \<times> nat dict) list" where
  "rrf_fuse_lanes lanes k weights =
    (if \<exists>w. weights = Some w \<and> (\<exists>(_, x) \<in> set w. x < 0) then Inl Bad_Weight
     else bindE (foldE (count_lane k weights) (sort_key fst lanes) ([], [])) (\<lambda>(scores, ranks).
       Inr (map (\<lambda>c. (c, get_or 0 scores c, get_or [] ranks c))
         (sort_key (\<lambda>c. (- get_or 0 scores c, c)) (map fst scores)))))"

subsection \<open>The reference\<close>

text \<open>The rank of a candidate in a lane: its place among the different candidates of the lane.\<close>

definition rank_in :: "string list \<Rightarrow> string \<Rightarrow> nat" where
  "rank_in ids c = Suc (length (takeWhile (\<lambda>x. x \<noteq> c) (distinct_rows ids)))"

text \<open>The rounded sum, in the order of the lanes' names, of the rounded reciprocal ranks.\<close>

definition reciprocal :: "rat \<Rightarrow> rat dict option \<Rightarrow> string \<Rightarrow> nat \<Rightarrow> rat" where
  "reciprocal k weights lane n = dbl (lane_weight weights lane / dbl (k + of_nat n))"

definition fused_score :: "rat \<Rightarrow> rat dict option \<Rightarrow> string list dict \<Rightarrow> string \<Rightarrow> rat" where
  "fused_score k weights lanes c =
    foldl (\<lambda>s (lane, ids). dbl (s + reciprocal k weights lane (rank_in ids c))) 0
      (filter (\<lambda>(_, ids). c \<in> set ids) (sort_key fst lanes))"

definition fused_ranks :: "string list dict \<Rightarrow> string \<Rightarrow> nat dict" where
  "fused_ranks lanes c = map (\<lambda>(lane, ids). (lane, rank_in ids c)) (filter (\<lambda>(_, ids). c \<in> set ids) (sort_key fst lanes))"

definition candidates :: "string list dict \<Rightarrow> string list" where
  "candidates lanes = sorted_list_of_set (\<Union>x \<in> set lanes. set (snd x))"

definition fused_reference :: "string list dict \<Rightarrow> rat \<Rightarrow> rat dict option \<Rightarrow> (string \<times> rat \<times> nat dict) list" where
  "fused_reference lanes k weights =
    map (\<lambda>c. (c, fused_score k weights lanes c, fused_ranks lanes c))
      (sort_key (\<lambda>c. (- fused_score k weights lanes c, c)) (candidates lanes))"

subsection \<open>Scope of vector hits\<close>

definition scope_vector_result_ids :: "string list \<Rightarrow> string set \<Rightarrow> string list" where
  "scope_vector_result_ids rows allowed =
    foldl (\<lambda>scoped i. if i \<in> allowed \<and> i \<notin> set scoped then scoped @ [i] else scoped) [] rows"

subsection \<open>Query expansion\<close>

text \<open>
  The planner's language tools: NFKC and Turkish normalisation with white space and case folding, the
  control-character test, \<open>str.strip\<close>, and the citations of a text.
\<close>

record language =
  normalize :: "string \<Rightarrow> string"
  control :: "string \<Rightarrow> bool"
  nonblank :: "string \<Rightarrow> bool"
  citations :: "string \<Rightarrow> (string \<times> string option) list"

definition introduces_citation :: "language \<Rightarrow> string \<Rightarrow> string \<Rightarrow> bool" where
  "introduces_citation L original expansion \<longleftrightarrow>
    (\<exists>(statute, article) \<in> set (citations L expansion).
       statute \<notin> fst ` set (citations L original) \<or> (article \<noteq> None \<and> (statute, article) \<notin> set (citations L original)))"

datatype planner_reply = Invalid_Output | Unavailable | Queries "string list"

text \<open>The loop over \<open>response.queries\<close>: \<open>seen\<close> and \<open>accepted\<close> grow together.\<close>

definition accept_query :: "language \<Rightarrow> string \<Rightarrow> string list \<Rightarrow> string \<Rightarrow> string list" where
  "accept_query L original accepted raw =
    (if \<not> nonblank L raw \<or> 4096 < length raw \<or> control L raw then accepted
     else
       let q = normalize L raw
       in if q = [] \<or> 4096 < length q \<or> q \<in> set (original # accepted) then accepted
          else if introduces_citation L original q then accepted
          else accepted @ [q])"

text \<open>A reply with more than two queries does not validate.\<close>

definition plan :: "language \<Rightarrow> planner_reply \<Rightarrow> string \<Rightarrow> string list \<times> string" where
  "plan L reply query =
    (let original = normalize L query
     in if original = [] \<or> 4096 < length original \<or> control L query then ([], ''planner_invalid_query_fallback_single'')
        else (case reply of
            Invalid_Output \<Rightarrow> ([], ''planner_invalid_output_fallback_single'')
          | Unavailable \<Rightarrow> ([], ''planner_unavailable_fallback_single'')
          | Queries qs \<Rightarrow>
              if 2 < length qs then ([], ''planner_invalid_output_fallback_single'')
              else
                let accepted = foldl (accept_query L original) [] qs
                in if accepted = [] then ([], ''planner_no_valid_expansions'') else (accepted, ''planner_expanded'')))"

text \<open>A candidate is its identity (\<open>_candidate_identity\<close>), its origins and the rest.\<close>

record 'a hit =
  identity :: string
  origins :: "string list"
  payload :: 'a

definition retrieval_is_weak :: "'a hit list \<Rightarrow> bool" where
  "retrieval_is_weak hits \<longleftrightarrow> (\<forall>h \<in> set (take 3 hits). card (set (filter (\<lambda>x. x \<noteq> []) (origins h))) < 2)"

definition query_ranking :: "'a hit list \<Rightarrow> string list" where
  "query_ranking hits = distinct_rows (filter (\<lambda>i. i \<noteq> []) (map identity hits))"

definition query_weights :: "rat dict" where
  "query_weights = [(''Q0'', 1), (''Q1'', 1 / 2), (''Q2'', 1 / 2)]"

text \<open>The fused candidate: the first hit of its identity, its ranks by query and its score.\<close>

definition fuse_query_results :: "'a hit list dict \<Rightarrow> fusion_error + ('a hit \<times> nat dict \<times> rat) list" where
  "fuse_query_results results =
    bindE (rrf_fuse_lanes (map (\<lambda>(q, hits). (q, query_ranking hits)) results) 60 (Some query_weights)) (\<lambda>fused.
      let first = (\<lambda>i. find (\<lambda>h. identity h = i) (concat (map snd results)));
          found = map (\<lambda>(i, score, ranks). (the (first i), filter (\<lambda>(q, _). q \<in> {''Q0'', ''Q1'', ''Q2''}) ranks, score)) fused
      in Inr (sort_key (\<lambda>(h, ranks, score). (- score, (if ''Q0'' \<in> fst ` set ranks then 0 else 1 :: nat), identity h)) found))"

record 'a retrieved =
  hits :: "('a hit \<times> nat dict \<times> rat) list"
  mode_status :: string
  expansion_count :: nat
  retrieval_count :: nat
  failure_count :: nat

definition single :: "'a hit list \<Rightarrow> ('a hit \<times> nat dict \<times> rat) list" where
  "single hs = map (\<lambda>h. (h, [], 0)) hs"

text \<open>The searches of the expansions; \<open>None\<close> is one that raised.\<close>

fun expand :: "(string \<Rightarrow> 'a hit list option) \<Rightarrow> (string \<times> string) list \<Rightarrow> 'a hit list dict \<times> nat" where
  "expand search [] = ([], 0)"
| "expand search ((q, e) # xs) = (case expand search xs of (found, failed) \<Rightarrow>
     (case search e of None \<Rightarrow> (found, Suc failed) | Some hs \<Rightarrow> ((q, hs) # found, failed)))"

text \<open>\<open>original\<close> is the result of the first search, \<open>planner\<close> the reply of the planner if there is one.\<close>

definition retrieve :: "language \<Rightarrow> (string \<Rightarrow> 'a hit list option) \<Rightarrow> planner_reply option \<Rightarrow> 'a hit list \<Rightarrow> string \<Rightarrow>
    fusion_error + 'a retrieved" where
  "retrieve L search planner original query =
    (let alone = (\<lambda>status n r f. Inr \<lparr>hits = single original, mode_status = status, expansion_count = n, retrieval_count = r, failure_count = f\<rparr>)
     in if \<not> retrieval_is_weak original then alone ''planner_not_needed'' 0 1 0
        else (case planner of
            None \<Rightarrow> alone ''planner_unavailable_fallback_single'' 0 1 0
          | Some reply \<Rightarrow>
              (case plan L reply (normalize L query) of (expansions, status) \<Rightarrow>
                 let es = take 2 expansions
                 in if es = [] then alone status 0 1 0
                    else (case expand search (zip [''Q1'', ''Q2''] es) of (found, failed) \<Rightarrow>
                        if found = [] then alone status (length es) (1 + length es) failed
                        else bindE (fuse_query_results ((''Q0'', original) # found)) (\<lambda>fs.
                          Inr \<lparr>hits = fs, mode_status = status, expansion_count = length es,
                            retrieval_count = 1 + length es, failure_count = failed\<rparr>)))))"

end
