(* ===== verification/Fusion_Properties.thy ===== *)
theory Fusion_Properties imports Fusion "HOL-Library.Multiset" begin

text \<open>
  Rounding to doubles is characterised; fusion computes its reference, so it depends neither on the order of the lanes nor on repeated hits;
  query expansion stays within its bounds and loses no query.
\<close>

subsection \<open>Rounding\<close>

text \<open>The exponent of a double, and the error of its rounding.\<close>

lemma magnitude_bounds:
  assumes "0 < x" shows "2 powi magnitude x \<le> x" and "x < 2 powi (magnitude x + 1)"
proof -
  obtain p q where pq: "quotient_of x = (p, q)" by fastforce
  have q: "0 < q" by (rule quotient_of_denom_pos [OF pq])
  have x: "x = of_int p / of_int q" by (rule quotient_of_div [OF pq])
  then have p: "0 < p" using assms q by (simp add: zero_less_divide_iff)
  have pow: "(of_int (2 ^ nat m) :: rat) = 2 powi m" if "0 \<le> m" for m using that by (simp add: power_int_def)
  have b: "2 powi (bitlen n - 1) \<le> (of_int n :: rat) \<and> of_int n < (2 powi bitlen n :: rat)" if "0 < n" for n
    using bitlen_bounds [OF that] that pow [of "bitlen n"] pow [of "bitlen n - 1"]
    by (metis bitlen_nonneg bitlen_eq_zero_iff diff_ge_0_iff_ge int_one_le_iff_zero_less not_le of_int_le_iff of_int_less_iff order_le_less)
  let ?e = "bitlen p - bitlen q"
  have "x < 2 powi bitlen p / 2 powi (bitlen q - 1)" unfolding x
    by (rule frac_less) (use b [OF p] b [OF q] p q in auto)
  then have up: "x < 2 powi (?e + 1)" by (simp add: power_int_diff power_int_add field_simps)
  have "2 powi (bitlen p - 1) / 2 powi bitlen q \<le> x" unfolding x
    by (rule frac_le) (use b [OF p] b [OF q] p q in auto)
  then have lo: "2 powi (?e - 1) \<le> x" by (simp add: power_int_diff power_int_add field_simps)
  have m: "magnitude x = (if 2 powi ?e \<le> x then ?e else ?e - 1)" by (simp add: magnitude_def pq)
  show "2 powi magnitude x \<le> x" "x < 2 powi (magnitude x + 1)" using up lo by (auto simp: m)
qed

lemma magnitude_eq:
  assumes "2 powi e \<le> x" and "x < 2 powi (e + 1)"
  shows "magnitude x = e"
proof -
  have x: "0 < x" by (rule less_le_trans [OF _ assms(1)]) simp
  have "(2 :: rat) powi e < 2 powi (magnitude x + 1)" "(2 :: rat) powi magnitude x < 2 powi (e + 1)"
    using assms magnitude_bounds [OF x] by linarith+
  moreover have "a < b" if "(2 :: rat) powi a < 2 powi b" for a b
    using that power_int_increasing [of b a "2 :: rat"] by (metis le_less_linear not_less one_le_numeral)
  ultimately have "e < magnitude x + 1" "magnitude x < e + 1" by blast+
  then show ?thesis by simp
qed

lemma nearest_even_error: "\<bar>of_int (nearest_even x) - x\<bar> \<le> 1 / 2"
  using of_int_floor_le [of x] floor_correct [of x] by (auto simp: nearest_even_def Let_def)

lemma dbl_error:
  assumes "0 < x" and "dbl x < 2 ^ 1024"
  shows "\<bar>dbl x - x\<bar> \<le> spacing x / 2"
proof -
  have s: "0 < spacing x" by (simp add: spacing_def)
  have "dbl x - x = (of_int (nearest_even (x / spacing x)) - x / spacing x) * spacing x"
    using assms s by (auto simp: dbl_def field_simps min_def split: if_splits)
  then have "\<bar>dbl x - x\<bar> = \<bar>of_int (nearest_even (x / spacing x)) - x / spacing x\<bar> * spacing x"
    using s by (simp add: abs_mult)
  also have "\<dots> \<le> 1 / 2 * spacing x" using nearest_even_error s by (intro mult_right_mono) auto
  finally show ?thesis by simp
qed

lemma nearest_even_eq:
  assumes "\<bar>y - of_int n\<bar> < 1 / 2 \<or> \<bar>y - of_int n\<bar> = 1 / 2 \<and> even n"
  shows "nearest_even y = n"
  using assms
proof (elim disjE conjE)
  assume *: "\<bar>y - of_int n\<bar> < 1 / 2"
  have "of_int (nearest_even y) - of_int n < (1 :: rat)" "of_int n - of_int (nearest_even y) < (1 :: rat)"
    using nearest_even_error [of y] * by linarith+
  then have "nearest_even y - n < 1" "n - nearest_even y < 1" by linarith+
  then show ?thesis by simp
next
  assume "\<bar>y - of_int n\<bar> = 1 / 2" and n: "even n"
  then have "y = of_int n + 1 / 2 \<or> y = of_int (n - 1) + 1 / 2" by (auto simp: abs_if split: if_splits)
  then show ?thesis
  proof
    assume y: "y = of_int n + 1 / 2"
    then have "floor y = n" by linarith
    then show ?thesis using n y by (simp add: nearest_even_def)
  next
    assume y: "y = of_int (n - 1) + 1 / 2"
    then have "floor y = n - 1" by linarith
    then show ?thesis using n y by (simp add: nearest_even_def)
  qed
qed

text \<open>The double nearest to \<open>x\<close>, given by its exponent and its mantissa.\<close>

lemma dbl_eq:
  assumes "2 powi e \<le> x" and "x < 2 powi (e + 1)" and "- 1022 \<le> e" and "e \<le> 1000"
    and "\<bar>x / 2 powi (e - 52) - of_int n\<bar> < 1 / 2 \<or> \<bar>x / 2 powi (e - 52) - of_int n\<bar> = 1 / 2 \<and> even n"
  shows "dbl x = of_int n * 2 powi (e - 52)"
proof -
  have x: "0 < x" by (rule less_le_trans [OF _ assms(1)]) simp
  have s: "spacing x = 2 powi (e - 52)"
    unfolding spacing_def magnitude_eq [OF assms(1,2)] using assms(3) by (intro arg_cong [where f = "(powi) 2"]) simp
  have n: "nearest_even (x / spacing x) = n" unfolding s by (rule nearest_even_eq [OF assms(5)])
  have "of_int n < x / 2 powi (e - 52) + 1" using assms(5) by linarith
  then have "of_int n * 2 powi (e - 52) < (x / 2 powi (e - 52) + 1) * 2 powi (e - 52)"
    by (intro mult_strict_right_mono) simp_all
  also have "\<dots> = x + 2 powi (e - 52)" by (simp add: field_simps)
  also have "\<dots> \<le> 2 powi (e + 1) + 2 powi (e + 1)"
    using assms(2) power_int_increasing [of "e - 52" "e + 1" "2 :: rat"] by (intro add_mono) simp_all
  also have "\<dots> = 2 powi (e + 2)" by (simp add: power_int_add)
  also have "\<dots> \<le> 2 powi 1024" using assms(4) by (intro power_int_increasing) simp_all
  finally have "of_int n * 2 powi (e - 52) \<le> (2 ^ 1024 :: rat)" by (simp add: power_int_def)
  then show ?thesis using x n by (simp add: dbl_def s min_def)
qed

text \<open>Two candidates with the ranks 1, 1, 2, 3 and 2, 3, 1, 1 in four lanes tie in the rationals, not in doubles.\<close>

lemma addition_is_rounded:
  "foldl (\<lambda>s n. dbl (s + reciprocal 60 None ''vector'' n)) 0 [1, 1, 2, 3] <
   foldl (\<lambda>s n. dbl (s + reciprocal 60 None ''vector'' n)) 0 [2, 3, 1, 1]"
proof -
  have w: "lane_weight None ''vector'' = 1" by (simp add: lane_weight_def default_lane_weights_def)
  have d: "dbl 61 = 61" "dbl 62 = 62" "dbl 63 = 63"
    using dbl_eq [where x = 61 and e = 5 and n = "61 * 2 ^ 47"] dbl_eq [where x = 62 and e = 5 and n = "62 * 2 ^ 47"]
      dbl_eq [where x = 63 and e = 5 and n = "63 * 2 ^ 47"] by simp_all
  have r: "reciprocal 60 None ''vector'' 1 = 4725088133634619 / 2 ^ 58" "reciprocal 60 None ''vector'' 2 = 4648877034705028 / 2 ^ 58"
    "reciprocal 60 None ''vector'' 3 = 4575085335741456 / 2 ^ 58"
    using dbl_eq [where x = "1 / 61" and e = "- 6" and n = 4725088133634619] dbl_eq [where x = "1 / 62" and e = "- 6" and n = 4648877034705028]
      dbl_eq [where x = "1 / 63" and e = "- 6" and n = 4575085335741456]
    by (simp_all add: reciprocal_def w d abs_if)
  have a: "dbl (0 + 4725088133634619 / 2 ^ 58) = 4725088133634619 / 2 ^ 58"
    "dbl (4725088133634619 / 2 ^ 58 + 4725088133634619 / 2 ^ 58) = 4725088133634619 / 2 ^ 57"
    "dbl (4725088133634619 / 2 ^ 57 + 4648877034705028 / 2 ^ 58) = 7049526650987133 / 2 ^ 57"
    "dbl (7049526650987133 / 2 ^ 57 + 4575085335741456 / 2 ^ 58) = 4668534659428930 / 2 ^ 56"
    "dbl (0 + 4648877034705028 / 2 ^ 58) = 4648877034705028 / 2 ^ 58"
    "dbl (4648877034705028 / 2 ^ 58 + 4575085335741456 / 2 ^ 58) = 4611981185223242 / 2 ^ 57"
    "dbl (4611981185223242 / 2 ^ 57 + 4725088133634619 / 2 ^ 58) = 6974525252040552 / 2 ^ 57"
    "dbl (6974525252040552 / 2 ^ 57 + 4725088133634619 / 2 ^ 58) = 4668534659428931 / 2 ^ 56"
    using dbl_eq [where x = "0 + 4725088133634619 / 2 ^ 58" and e = "- 6" and n = 4725088133634619]
      dbl_eq [where x = "4725088133634619 / 2 ^ 58 + 4725088133634619 / 2 ^ 58" and e = "- 5" and n = 4725088133634619]
      dbl_eq [where x = "4725088133634619 / 2 ^ 57 + 4648877034705028 / 2 ^ 58" and e = "- 5" and n = 7049526650987133]
      dbl_eq [where x = "7049526650987133 / 2 ^ 57 + 4575085335741456 / 2 ^ 58" and e = "- 4" and n = 4668534659428930]
      dbl_eq [where x = "0 + 4648877034705028 / 2 ^ 58" and e = "- 6" and n = 4648877034705028]
      dbl_eq [where x = "4648877034705028 / 2 ^ 58 + 4575085335741456 / 2 ^ 58" and e = "- 5" and n = 4611981185223242]
      dbl_eq [where x = "4611981185223242 / 2 ^ 57 + 4725088133634619 / 2 ^ 58" and e = "- 5" and n = 6974525252040552]
      dbl_eq [where x = "6974525252040552 / 2 ^ 57 + 4725088133634619 / 2 ^ 58" and e = "- 4" and n = 4668534659428931]
    by (simp_all add: abs_if)
  show ?thesis unfolding foldl.simps r a by simp
qed
subsection \<open>Tallies\<close>

lemma get_or_update: "get_or d (AList.update c x m) = (get_or d m)(c := x)"
  by (auto simp: get_or_def update_conv' fun_eq_iff)

lemma update_fresh: "k \<notin> fst ` set m \<Longrightarrow> AList.update k v m = m @ [(k, v)]"
  by (induction m) auto

definition place :: "string \<Rightarrow> (nat \<times> string) list \<Rightarrow> nat option" where
  "place c xs = map_option fst (find (\<lambda>x. snd x = c) xs)"

lemma place_Cons: "place c (x # xs) = (if snd x = c then Some (fst x) else place c xs)"
  by (simp add: place_def)

lemma place_None: "place c xs = None \<longleftrightarrow> c \<notin> snd ` set xs"
  by (force simp: place_def find_None_iff)

lemma place_Nil: "place c [] = None"
  by (simp add: place_def)

lemma place_enumerate:
  "place c (enumerate n ds) = (if c \<in> set ds then Some (n + length (takeWhile (\<lambda>x. x \<noteq> c) ds)) else None)"
  by (induction ds arbitrary: n) (auto simp: place_Cons place_Nil)

text \<open>The score of a candidate after the lane, given its place there.\<close>

definition gain :: "rat \<Rightarrow> rat dict option \<Rightarrow> string \<Rightarrow> nat option \<Rightarrow> rat \<Rightarrow> rat" where
  "gain k weights lane p x = (case p of None \<Rightarrow> x | Some n \<Rightarrow> dbl (x + reciprocal k weights lane n))"

definition mark :: "string \<Rightarrow> nat option \<Rightarrow> nat dict" where
  "mark lane p = (case p of None \<Rightarrow> [] | Some n \<Rightarrow> [(lane, n)])"

definition tally_is :: "tally \<Rightarrow> string set \<Rightarrow> (string \<Rightarrow> rat) \<Rightarrow> (string \<Rightarrow> nat dict) \<Rightarrow> bool" where
  "tally_is s C f g \<longleftrightarrow> distinct (map fst (fst s)) \<and> fst ` set (fst s) = C \<and> get_or 0 (fst s) = f \<and> get_or [] (snd s) = g"

lemma vote_tally:
  assumes "tally_is s C f g" and "1 \<le> k" and "0 \<le> lane_weight weights lane" and "1 \<le> n" and "lane \<notin> fst ` set (g c)"
  shows "\<exists>s'. vote k weights lane (n, c) s = Inr s' \<and>
    tally_is s' (insert c C) (f(c := gain k weights lane (Some n) (f c))) (g(c := g c @ mark lane (Some n)))"
proof -
  have "compute_rrf_lane_score n lane k weights = Inr (reciprocal k weights lane n)"
    using assms(2-4) by (simp add: compute_rrf_lane_score_def reciprocal_def)
  then show ?thesis using assms(1,5)
    by (simp add: vote_def tally_is_def distinct_update dom_update get_or_update update_fresh mark_def gain_def)
qed

lemma votes_tally:
  assumes "tally_is s C f g" and "1 \<le> k" and "0 \<le> lane_weight weights lane" and "distinct (map snd xs)"
    and "\<forall>x \<in> set xs. 1 \<le> fst x \<and> lane \<notin> fst ` set (g (snd x))"
  shows "\<exists>s'. foldE (vote k weights lane) xs s = Inr s' \<and>
    tally_is s' (C \<union> snd ` set xs) (\<lambda>c. gain k weights lane (place c xs) (f c)) (\<lambda>c. g c @ mark lane (place c xs))"
  using assms
proof (induction xs arbitrary: s C f g)
  case Nil
  then show ?case by (simp add: place_def gain_def mark_def)
next
  case (Cons x xs)
  obtain n c where x: "x = (n, c)" by (cases x)
  from vote_tally [OF Cons.prems(1-3), of n c] Cons.prems(5) x obtain s1 where
    s1: "vote k weights lane (n, c) s = Inr s1"
      "tally_is s1 (insert c C) (f(c := gain k weights lane (Some n) (f c))) (g(c := g c @ mark lane (Some n)))" by auto
  have c: "place c xs = None" using Cons.prems(4) x by (simp add: place_None)
  have "distinct (map snd xs)" "\<forall>y \<in> set xs. 1 \<le> fst y \<and> lane \<notin> fst ` set ((g(c := g c @ mark lane (Some n))) (snd y))"
    using Cons.prems(4,5) x by auto
  from Cons.IH [OF s1(2) Cons.prems(2,3) this] obtain s' where
    s': "foldE (vote k weights lane) xs s1 = Inr s'"
      "tally_is s' (insert c C \<union> snd ` set xs) (\<lambda>d. gain k weights lane (place d xs) ((f(c := gain k weights lane (Some n) (f c))) d))
        (\<lambda>d. (g(c := g c @ mark lane (Some n))) d @ mark lane (place d xs))" by blast
  have "(\<lambda>d. gain k weights lane (place d xs) ((f(c := gain k weights lane (Some n) (f c))) d)) =
      (\<lambda>d. gain k weights lane (place d (x # xs)) (f d))"
    using c x by (auto simp: place_Cons gain_def fun_eq_iff)
  moreover have "(\<lambda>d. (g(c := g c @ mark lane (Some n))) d @ mark lane (place d xs)) = (\<lambda>d. g d @ mark lane (place d (x # xs)))"
    using c x by (auto simp: place_Cons mark_def fun_eq_iff)
  ultimately show ?case using s1(1) s' x by (auto simp: insert_commute)
qed

lemma snd_enumerate: "map snd (enumerate n xs) = xs" and fst_enumerate: "x \<in> set (enumerate n xs) \<Longrightarrow> n \<le> fst x"
  by (auto simp: enumerate_eq_zip in_set_zip)

lemma place_ranked: "place c (ranked ids) = (if c \<in> set ids then Some (rank_in ids c) else None)"
  by (simp add: ranked_def place_enumerate rank_in_def)

lemma count_lane_tally:
  assumes "tally_is s C f g" and "1 \<le> k" and "0 \<le> lane_weight weights lane" and "\<forall>c. lane \<notin> fst ` set (g c)"
  shows "\<exists>s'. count_lane k weights (lane, ids) s = Inr s' \<and>
    tally_is s' (C \<union> set ids) (\<lambda>c. gain k weights lane (place c (ranked ids)) (f c)) (\<lambda>c. g c @ mark lane (place c (ranked ids)))"
proof -
  have "distinct (map snd (ranked ids))" "snd ` set (ranked ids) = set ids" "\<forall>x \<in> set (ranked ids). 1 \<le> fst x"
    using snd_enumerate [of 1 "distinct_rows ids"] fst_enumerate by (auto simp: ranked_def simp flip: set_map)
  with votes_tally [OF assms(1-3), of "ranked ids"] assms(4) show ?thesis by (simp add: count_lane_def)
qed

lemma count_lanes_tally:
  assumes "tally_is s C f g" and "1 \<le> k" and "\<forall>lane. 0 \<le> lane_weight weights lane" and "distinct (map fst ls)"
    and "\<forall>x \<in> set ls. \<forall>c. fst x \<notin> fst ` set (g c)"
  shows "\<exists>s'. foldE (count_lane k weights) ls s = Inr s' \<and>
    tally_is s' (C \<union> (\<Union>x \<in> set ls. set (snd x)))
      (\<lambda>c. foldl (\<lambda>x (lane, ids). gain k weights lane (place c (ranked ids)) x) (f c) ls)
      (\<lambda>c. g c @ concat (map (\<lambda>(lane, ids). mark lane (place c (ranked ids))) ls))"
  using assms
proof (induction ls arbitrary: s C f g)
  case Nil
  then show ?case by simp
next
  case (Cons x ls)
  obtain lane ids where x: "x = (lane, ids)" by (cases x)
  from count_lane_tally [OF Cons.prems(1,2), of weights lane ids] Cons.prems(3,5) x obtain s1 where
    s1: "count_lane k weights (lane, ids) s = Inr s1"
      "tally_is s1 (C \<union> set ids) (\<lambda>c. gain k weights lane (place c (ranked ids)) (f c)) (\<lambda>c. g c @ mark lane (place c (ranked ids)))"
    by auto
  have "distinct (map fst ls)" "\<forall>y \<in> set ls. \<forall>c. fst y \<notin> fst ` set (g c @ mark lane (place c (ranked ids)))"
    using Cons.prems(4) x by simp (use Cons.prems(4,5) x in \<open>force simp: mark_def split: option.splits\<close>)
  from Cons.IH [OF s1(2) Cons.prems(2,3) this] s1(1) x show ?case by (auto simp: Un_assoc)
qed

subsection \<open>Equivalence\<close>

lemma gains_filter:
  "foldl (\<lambda>x (lane, ids). gain k weights lane (place c (ranked ids)) x) a ls =
    foldl (\<lambda>s (lane, ids). dbl (s + reciprocal k weights lane (rank_in ids c))) a (filter (\<lambda>(_, ids). c \<in> set ids) ls)"
  by (induction ls arbitrary: a) (auto simp: gain_def place_ranked)

lemma fused_score_sorted:
  "foldl (\<lambda>x (lane, ids). gain k weights lane (place c (ranked ids)) x) 0 (sort_key fst lanes) = fused_score k weights lanes c"
  unfolding gains_filter fused_score_def ..

lemma fused_ranks_sorted:
  "concat (map (\<lambda>(lane, ids). mark lane (place c (ranked ids))) ls) =
    map (\<lambda>(lane, ids). (lane, rank_in ids c)) (filter (\<lambda>(_, ids). c \<in> set ids) ls)"
  by (induction ls) (auto simp: mark_def place_ranked)

lemma lane_weight_nonneg:
  assumes "\<forall>w. weights = Some w \<longrightarrow> (\<forall>(_, x) \<in> set w. 0 \<le> x)"
  shows "0 \<le> lane_weight weights lane"
proof -
  have "0 \<le> x" if "map_of (case weights of None \<Rightarrow> default_lane_weights | Some w \<Rightarrow> w) lane = Some x" for x
    using map_of_SomeD [OF that] assms by (cases weights) (auto simp: default_lane_weights_def)
  then show ?thesis by (simp add: lane_weight_def split: option.split)
qed

lemma sort_key_same:
  assumes "distinct xs" and "set xs = set ys" and "distinct ys" and "inj_on f (set xs)"
  shows "sort_key f xs = sort_key f ys"
  using assms by (intro sort_key_inj_key_eq) (simp_all add: set_eq_iff_mset_eq_distinct)

lemma rrf_fuse_lanes_reference:
  assumes "1 \<le> k" and "\<forall>w. weights = Some w \<longrightarrow> (\<forall>(_, x) \<in> set w. 0 \<le> x)" and "distinct (map fst lanes)"
  shows "rrf_fuse_lanes lanes k weights = Inr (fused_reference lanes k weights)"
proof -
  let ?ls = "sort_key fst lanes"
  have ls: "set ?ls = set lanes" "distinct (map fst ?ls)"
    using assms(3) by (auto simp: distinct_map)
  have start: "tally_is ([], []) {} (\<lambda>_. 0) (\<lambda>_. [])" by (simp add: tally_is_def get_or_def fun_eq_iff)
  have nn: "\<forall>lane. 0 \<le> lane_weight weights lane" using lane_weight_nonneg [OF assms(2)] by simp
  from count_lanes_tally [OF start assms(1) nn ls(2)] obtain s where
    s: "foldE (count_lane k weights) ?ls ([], []) = Inr s"
      "tally_is s (\<Union>x \<in> set lanes. set (snd x)) (fused_score k weights lanes) (fused_ranks lanes)"
    by (auto simp: ls(1) fused_score_sorted fused_ranks_sorted fused_ranks_def [abs_def])
  have "set (map fst (fst s)) = set (candidates lanes)" "distinct (map fst (fst s))"
    using s(2) by (simp_all add: tally_is_def candidates_def)
  then have "sort_key (\<lambda>c. (- fused_score k weights lanes c, c)) (map fst (fst s)) =
      sort_key (\<lambda>c. (- fused_score k weights lanes c, c)) (candidates lanes)"
    by (intro sort_key_same) (auto simp: candidates_def inj_on_def)
  moreover have "\<not> (\<exists>w. weights = Some w \<and> (\<exists>(_, x) \<in> set w. x < 0))" using assms(2) by fastforce
  ultimately show ?thesis using s
    unfolding rrf_fuse_lanes_def fused_reference_def tally_is_def by (simp add: case_prod_beta)
qed

lemma fused_reference_perm:
  assumes "mset lanes' = mset lanes" and "distinct (map fst lanes)"
  shows "fused_reference lanes' k weights = fused_reference lanes k weights"
proof -
  have "distinct (map fst lanes')" using assms by (metis mset_eq_imp_distinct_iff mset_map)
  then have "sort_key fst lanes' = sort_key fst lanes"
    using assms by (intro sort_key_inj_key_eq) (auto simp: distinct_map)
  then have "fused_ranks lanes' = fused_ranks lanes" "fused_score k weights lanes' = fused_score k weights lanes"
    by (simp_all add: fused_ranks_def fused_score_def fun_eq_iff)
  moreover have "candidates lanes' = candidates lanes" using mset_eq_setD [OF assms(1)] by (simp add: candidates_def)
  ultimately show ?thesis by (simp add: fused_reference_def)
qed

text \<open>
  C18. Fusion over doubles, with every division and addition rounded: the fused ranking is every candidate
  once, with its rank in each lane that holds it and the score that adds the rounded reciprocal ranks of those
  lanes in the order of their names, in falling score and rising identity; so a permutation of the lanes
  changes nothing, although rounded addition is not associative.
\<close>

theorem fusion_is_reference:
  assumes "1 \<le> k" and "\<forall>w. weights = Some w \<longrightarrow> (\<forall>(_, x) \<in> set w. 0 \<le> x)" and "distinct (map fst lanes)"
    and "mset lanes' = mset lanes"
  shows "rrf_fuse_lanes lanes' k weights = Inr (fused_reference lanes k weights)"
proof -
  have "distinct (map fst lanes')" using assms(3,4) by (metis mset_eq_imp_distinct_iff mset_map)
  from rrf_fuse_lanes_reference [OF assms(1,2) this] show ?thesis by (simp add: fused_reference_perm [OF assms(4,3)])
qed

theorem fusion_is_reference_witness:
  "rrf_fuse_lanes [(''vector'', [''b'', ''a'', ''b'']), (''bm25'', [''a''])] 60 None =
    Inr (fused_reference [(''bm25'', [''a'']), (''vector'', [''b'', ''a'', ''b''])] 60 None)"
  by (rule fusion_is_reference) simp_all

subsection \<open>Query expansion\<close>

lemma accept_queries:
  "length (foldl (accept_query L original) acc qs) \<le> length acc + length qs \<and>
   (distinct (original # acc) \<longrightarrow> distinct (original # foldl (accept_query L original) acc qs)) \<and>
   ((\<forall>q \<in> set acc. \<not> introduces_citation L original q) \<longrightarrow>
     (\<forall>q \<in> set (foldl (accept_query L original) acc qs). \<not> introduces_citation L original q))"
proof (induction qs arbitrary: acc)
  case (Cons q qs)
  have "length (accept_query L original acc q) \<le> Suc (length acc)" by (simp add: accept_query_def Let_def)
  moreover have "distinct (original # acc) \<Longrightarrow> distinct (original # accept_query L original acc q)"
    by (auto simp: accept_query_def Let_def)
  moreover have "\<forall>q \<in> set acc. \<not> introduces_citation L original q \<Longrightarrow>
      \<forall>r \<in> set (accept_query L original acc q). \<not> introduces_citation L original r"
    by (auto simp: accept_query_def Let_def)
  ultimately show ?case using Cons [of "accept_query L original acc q"] by simp
qed simp

lemma plan_props:
  "length (fst (plan L reply query)) \<le> 2 \<and> distinct (normalize L query # fst (plan L reply query)) \<and>
   (\<forall>q \<in> set (fst (plan L reply query)). \<not> introduces_citation L (normalize L query) q)"
  using accept_queries [of L "normalize L query" "[]"]
  by (auto simp: plan_def Let_def split: planner_reply.split) (meson le_trans not_less)+

lemma set_query_ranking: "i \<in> set (query_ranking hs) \<longleftrightarrow> i \<noteq> [] \<and> (\<exists>h \<in> set hs. identity h = i)"
  by (auto simp: query_ranking_def)

lemma fuse_query_results_props:
  assumes "distinct (map fst results)"
  shows "\<exists>fs. fuse_query_results results = Inr fs \<and>
    (\<forall>x \<in> set fs. \<exists>hs \<in> snd ` set results. fst x \<in> set hs) \<and>
    (\<forall>hs \<in> snd ` set results. \<forall>h \<in> set hs. identity h \<noteq> [] \<longrightarrow> identity h \<in> (identity \<circ> fst) ` set fs) \<and>
    distinct (map (identity \<circ> fst) fs)"
proof -
  let ?lanes = "map (\<lambda>(q, hs). (q, query_ranking hs)) results"
  let ?first = "\<lambda>i. find (\<lambda>h. identity h = i) (concat (map snd results))"
  let ?found = "map (\<lambda>(i, score, ranks). (the (?first i), filter (\<lambda>(q, _). q \<in> {''Q0'', ''Q1'', ''Q2''}) ranks, score))
    (fused_reference ?lanes 60 (Some query_weights))"
  let ?key = "\<lambda>(h, ranks, score). (- score, (if ''Q0'' \<in> fst ` set ranks then 0 else 1 :: nat), identity h)"
  have d: "distinct (map fst ?lanes)" using assms by (simp add: comp_def case_prod_beta)
  have rrf: "rrf_fuse_lanes ?lanes 60 (Some query_weights) = Inr (fused_reference ?lanes 60 (Some query_weights))"
    by (rule rrf_fuse_lanes_reference [OF _ _ d]) (auto simp: query_weights_def)
  then have fs: "fuse_query_results results = Inr (sort_key ?key ?found)"
    by (simp add: fuse_query_results_def Let_def)
  have cand: "i \<in> set (candidates ?lanes) \<longleftrightarrow> i \<noteq> [] \<and> (\<exists>hs \<in> snd ` set results. \<exists>h \<in> set hs. identity h = i)" for i
    by (auto simp: candidates_def set_query_ranking case_prod_beta)
  have first: "the (?first i) \<in> set (concat (map snd results)) \<and> identity (the (?first i)) = i" if "i \<in> set (candidates ?lanes)" for i
  proof -
    from that cand have "?first i \<noteq> None" by (fastforce simp: find_None_iff)
    then obtain h where "?first i = Some h" by blast
    then show ?thesis using find_SomeD by fastforce
  qed
  have ids: "map (identity \<circ> fst) ?found = sort_key (\<lambda>c. (- fused_score 60 (Some query_weights) ?lanes c, c)) (candidates ?lanes)"
    using first by (auto simp: fused_reference_def comp_def intro!: map_idI)
  have "set (map (identity \<circ> fst) ?found) = set (candidates ?lanes)" unfolding ids by (simp only: set_sort)
  then have set_ids: "(identity \<circ> fst) ` set ?found = set (candidates ?lanes)" by (simp only: set_map)
  have "distinct (map (identity \<circ> fst) ?found)" unfolding ids by (simp add: candidates_def)
  then have "distinct (map (identity \<circ> fst) (sort_key ?key ?found))"
    unfolding distinct_map distinct_sort set_sort .
  moreover have "\<forall>x \<in> set (sort_key ?key ?found). \<exists>hs \<in> snd ` set results. fst x \<in> set hs"
    using first by (fastforce simp: fused_reference_def)
  moreover have "\<forall>hs \<in> snd ` set results. \<forall>h \<in> set hs. identity h \<noteq> [] \<longrightarrow> identity h \<in> (identity \<circ> fst) ` set (sort_key ?key ?found)"
    using set_ids cand by auto
  ultimately show ?thesis using fs by blast
qed

lemma expand_props:
  assumes "expand search qs = (found, failed)" and "distinct (map fst qs)"
  shows "distinct (map fst found) \<and> fst ` set found \<subseteq> fst ` set qs \<and> failed \<le> length qs \<and>
    (\<forall>hs \<in> snd ` set found. \<exists>e \<in> snd ` set qs. search e = Some hs)"
  using assms
proof (induction search qs arbitrary: found failed rule: expand.induct)
  case (2 search q e xs)
  obtain found' failed' where x: "expand search xs = (found', failed')" by fastforce
  with 2 have IH: "distinct (map fst found')" "fst ` set found' \<subseteq> fst ` set xs" "failed' \<le> length xs"
    "\<forall>hs \<in> snd ` set found'. \<exists>e \<in> snd ` set xs. search e = Some hs" by auto
  show ?case
  proof (cases "search e")
    case None
    then show ?thesis using IH x "2.prems" by auto
  next
    case (Some hs)
    then have "found = (q, hs) # found'" "failed = failed'" using x "2.prems" by auto
    then show ?thesis using IH Some "2.prems"(2) by auto
  qed
qed simp

text \<open>
  Adaptive retrieval always answers, with at most three searches and two expansions; every hit it
  returns was found by the first search or by the search of an accepted expansion, and no identified hit
  of the first search is lost.
\<close>

lemma adaptive_is_bounded:
  "\<exists>r. retrieve L search planner original query = Inr r \<and> retrieval_count r \<le> 3 \<and> expansion_count r \<le> 2 \<and>
    failure_count r \<le> expansion_count r \<and>
    (\<forall>x \<in> set (hits r). fst x \<in> set original \<or> (\<exists>reply e hs. planner = Some reply \<and>
       e \<in> set (fst (plan L reply (normalize L query))) \<and> search e = Some hs \<and> fst x \<in> set hs)) \<and>
    (\<forall>h \<in> set original. identity h \<noteq> [] \<longrightarrow> identity h \<in> (identity \<circ> fst) ` set (hits r))"
proof -
  have single: "(\<forall>x \<in> set (single original). fst x \<in> set original)"
    "\<forall>h \<in> set original. identity h \<in> (identity \<circ> fst) ` set (single original)"
    by (auto simp: single_def image_iff)
  show ?thesis
  proof (cases "\<exists>reply. planner = Some reply \<and> fst (plan L reply (normalize L query)) \<noteq> [] \<and> retrieval_is_weak original")
    case False
    then show ?thesis using single unfolding retrieve_def by (auto simp: Let_def split: option.split prod.split)
  next
    case True
    then obtain reply es status where r: "planner = Some reply" "plan L reply (normalize L query) = (es, status)"
      "es \<noteq> []" "retrieval_is_weak original" by (metis prod.collapse)
    have len: "length es \<le> 2" using plan_props [of L reply "normalize L query"] r(2) by simp
    obtain found failed where e: "expand search (zip [''Q1'', ''Q2''] es) = (found, failed)" by fastforce
    have d: "distinct (map fst (zip [''Q1'', ''Q2''] es))" by (simp add: map_fst_zip_take distinct_take)
    have x: "distinct (map fst found)" "fst ` set found \<subseteq> {''Q1'', ''Q2''}" "failed \<le> length es"
      "\<forall>hs \<in> snd ` set found. \<exists>e \<in> set es. search e = Some hs"
    proof -
      have "fst ` set (zip [''Q1'', ''Q2''] es) \<subseteq> {''Q1'', ''Q2''}" "snd ` set (zip [''Q1'', ''Q2''] es) \<subseteq> set es"
        by (auto dest: set_zip_leftD set_zip_rightD)
      with expand_props [OF e d] show "distinct (map fst found)" "fst ` set found \<subseteq> {''Q1'', ''Q2''}"
        "\<forall>hs \<in> snd ` set found. \<exists>e \<in> set es. search e = Some hs" by blast+
      from expand_props [OF e d] show "failed \<le> length es" by simp
    qed
    show ?thesis
    proof (cases "found = []")
      case True
      then show ?thesis using single r len e x by (simp add: retrieve_def Let_def)
    next
      case False
      have "distinct (map fst ((''Q0'', original) # found))" using x by auto
      from fuse_query_results_props [OF this] obtain fs where fs: "fuse_query_results ((''Q0'', original) # found) = Inr fs"
        "\<forall>x \<in> set fs. fst x \<in> set original \<or> (\<exists>hs \<in> snd ` set found. fst x \<in> set hs)"
        "\<forall>h \<in> set original. identity h \<noteq> [] \<longrightarrow> identity h \<in> (identity \<circ> fst) ` set fs" by auto
      have "retrieve L search planner original query = Inr \<lparr>hits = fs, mode_status = status, expansion_count = length es,
          retrieval_count = 1 + length es, failure_count = failed\<rparr>"
        using r len e False fs(1) by (simp add: retrieve_def Let_def)
      moreover have "fst y \<in> set original \<or> (\<exists>e hs. e \<in> set es \<and> search e = Some hs \<and> fst y \<in> set hs)" if "y \<in> set fs" for y
        using fs(2) x(4) that by blast
      ultimately show ?thesis using fs(3) len x(3) r(1,2) by simp
    qed
  qed
qed

definition plain_language :: language where
  "plain_language = \<lparr>normalize = id, control = (\<lambda>_. False), nonblank = (\<lambda>s. s \<noteq> []), citations = (\<lambda>_. [])\<rparr>"

text \<open>A weak first result, two expansions, one search that fails.\<close>

lemma adaptive_is_bounded_witness:
  "\<exists>r. retrieve plain_language (\<lambda>q. if q = ''x'' then Some [\<lparr>identity = ''b'', origins = [], payload = ()\<rparr>] else None)
      (Some (Queries [''x'', ''y''])) [\<lparr>identity = ''a'', origins = [''vector''], payload = ()\<rparr>] ''q'' = Inr r \<and>
    retrieval_count r \<le> 3 \<and> expansion_count r \<le> 2"
  using adaptive_is_bounded [of plain_language "\<lambda>q. if q = ''x'' then Some [\<lparr>identity = ''b'', origins = [], payload = ()\<rparr>] else None"
      "Some (Queries [''x'', ''y''])" "[\<lparr>identity = ''a'', origins = [''vector''], payload = ()\<rparr>]" "''q''"]
  by blast

end
