(* ===== verification/Rebuild.thy ===== *)
theory Rebuild imports Prelude begin

text \<open>
  The durable system operations (\<open>mesa_storage/repositories/operations.py\<close>) and the projection
  generations they cut over (\<open>mesa_storage/projection_generations.py\<close>). A table column that only
  records a time is left out; \<open>now\<close> is \<open>CURRENT_TIMESTAMP\<close>. JSON values are passed as their serialised
  text, \<open>sha\<close> is SHA-256. A function is one transaction: an error leaves the store as it was.
\<close>

subsection \<open>Tables\<close>

datatype sys_state = PENDING | CLAIMED | RUNNING | VERIFYING | READY_TO_CUTOVER | COMPLETED | RETRYABLE_FAILED
  | FINAL_FAILED | CANCELLED

record sysop =
  sy_id :: string
  sy_principal :: string
  sy_key :: string
  sy_hash :: string
  sy_state :: sys_state
  sy_by :: "string option"
  sy_token :: "string option"
  sy_fence :: nat
  sy_lease :: "int option"
  sy_attempts :: nat
  sy_limit :: nat
  sy_done :: int
  sy_total :: int
  sy_checkpoint :: string
  sy_manifest_hash :: "string option"
  sy_manifest :: string
  sy_source :: "string option"
  sy_target :: "string option"
  sy_error_class :: "string option"
  sy_error_code :: "string option"

datatype sys_event_type = SUBMITTED | EV_CLAIMED | RECLAIMED | CHECKPOINTED | TRANSITIONED | EV_CANCELLED | RETRIED

record sys_event =
  se_op :: string
  se_seq :: nat
  se_type :: sys_event_type
  se_from :: "sys_state option"
  se_to :: sys_state
  se_fence :: nat
  se_attempts :: nat
  se_done :: int
  se_total :: int
  se_checkpoint :: "string option"
  se_error :: "string option"

datatype gen_state = STAGING | ACTIVE | RETAINED | GEN_FAILED

record generation =
  ge_id :: string
  ge_state :: gen_state
  ge_vector :: string
  ge_graph :: string
  ge_manifest_hash :: "string option"
  ge_provider :: string
  ge_created_by :: "string option"

record runtime =
  ru_active :: string
  ru_previous :: "string option"
  ru_fence :: nat

record system =
  sysops :: "sysop list"
  sys_events :: "sys_event list"
  generations :: "generation list"
  runtime :: "runtime option"

datatype sys_error = Value_Error | Op_Not_Found | Idempotency_Conflict | Active_Conflict | State_Error | Fenced | Integrity_Error
  | Gen_Not_Found | Gen_Conflict | Gen_Fenced

subsection \<open>Validation\<close>

definition bounded :: "string \<Rightarrow> bool" where
  "bounded s \<longleftrightarrow> s \<noteq> [] \<and> length s \<le> 128 \<and> list_all (\<lambda>c. (32 :: nat) \<le> of_char c) s"

definition lower_char :: "char \<Rightarrow> char" where
  "lower_char c = (let n = of_char c :: nat in if 65 \<le> n \<and> n \<le> 90 then char_of (n + 32) else c)"

definition is_hex :: "char \<Rightarrow> bool" where
  "is_hex c = (let n = of_char c :: nat in (48 \<le> n \<and> n \<le> 57) \<or> (97 \<le> n \<and> n \<le> 102))"

definition hash_ok :: "string \<Rightarrow> bool" where
  "hash_ok h \<longleftrightarrow> length h = 64 \<and> list_all is_hex h"

definition alnum :: "char \<Rightarrow> bool" where
  "alnum c = (let n = of_char c :: nat in (48 \<le> n \<and> n \<le> 57) \<or> (65 \<le> n \<and> n \<le> 90) \<or> (97 \<le> n \<and> n \<le> 122))"

text \<open>\<open>^[A-Za-z][A-Za-z0-9_.-]{0,127}$\<close> and \<open>^[A-Za-z0-9][A-Za-z0-9_-]{0,63}$\<close>.\<close>

definition error_ok :: "string \<Rightarrow> bool" where
  "error_ok s \<longleftrightarrow> (case s of [] \<Rightarrow> False | c # cs \<Rightarrow> alnum c \<and> (65 :: nat) \<le> of_char c \<and> length cs \<le> 127 \<and>
     list_all (\<lambda>x. alnum x \<or> x \<in> set ''_.-'') cs)"

definition identifier_ok :: "string \<Rightarrow> bool" where
  "identifier_ok s \<longleftrightarrow> (case s of [] \<Rightarrow> False | c # cs \<Rightarrow> alnum c \<and> length cs \<le> 63 \<and> list_all (\<lambda>x. alnum x \<or> x \<in> set ''_-'') cs)"

definition opt_ok :: "('a \<Rightarrow> bool) \<Rightarrow> 'a option \<Rightarrow> bool" where
  "opt_ok P x = (case x of None \<Rightarrow> True | Some v \<Rightarrow> P v)"

subsection \<open>Operations\<close>

definition executing :: "sys_state \<Rightarrow> bool" where
  "executing st \<longleftrightarrow> st \<in> {CLAIMED, RUNNING, VERIFYING, READY_TO_CUTOVER}"

definition maintenance :: "sys_state \<Rightarrow> bool" where
  "maintenance st \<longleftrightarrow> st \<in> {PENDING, CLAIMED, RUNNING, VERIFYING, READY_TO_CUTOVER, RETRYABLE_FAILED}"

definition is_pending :: "system \<Rightarrow> bool" where
  "is_pending s = list_ex (\<lambda>r. maintenance (sy_state r)) (sysops s)"

fun allowed_transitions :: "sys_state \<Rightarrow> sys_state list" where
  "allowed_transitions CLAIMED = [RUNNING, RETRYABLE_FAILED, FINAL_FAILED]"
| "allowed_transitions RUNNING = [RUNNING, VERIFYING, RETRYABLE_FAILED, FINAL_FAILED]"
| "allowed_transitions VERIFYING = [VERIFYING, READY_TO_CUTOVER, RETRYABLE_FAILED, FINAL_FAILED]"
| "allowed_transitions READY_TO_CUTOVER = [READY_TO_CUTOVER, COMPLETED, RETRYABLE_FAILED, FINAL_FAILED]"
| "allowed_transitions _ = []"

definition released_state :: "sys_state \<Rightarrow> bool" where
  "released_state st \<longleftrightarrow> st \<in> {COMPLETED, RETRYABLE_FAILED, FINAL_FAILED, CANCELLED}"

definition sysop_of :: "system \<Rightarrow> string \<Rightarrow> sysop option" where
  "sysop_of s i = find (\<lambda>r. sy_id r = i) (sysops s)"

definition lease_valid :: "int \<Rightarrow> sysop \<Rightarrow> bool" where
  "lease_valid now r = (case sy_lease r of None \<Rightarrow> False | Some t \<Rightarrow> now < t)"

definition next_seq :: "system \<Rightarrow> string \<Rightarrow> nat" where
  "next_seq s i = Suc (fold max (map se_seq (filter (\<lambda>e. se_op e = i) (sys_events s))) 0)"

definition log_event :: "string \<Rightarrow> sys_event_type \<Rightarrow> sys_state option \<Rightarrow> sysop \<Rightarrow> string option \<Rightarrow> string option \<Rightarrow> system \<Rightarrow> system" where
  "log_event i ty src r checkpoint err s = s\<lparr>sys_events := sys_events s @
     [\<lparr>se_op = i, se_seq = next_seq s i, se_type = ty, se_from = src, se_to = sy_state r, se_fence = sy_fence r,
       se_attempts = sy_attempts r, se_done = sy_done r, se_total = sy_total r, se_checkpoint = checkpoint, se_error = err\<rparr>]\<rparr>"

text \<open>The foreign keys of \<open>source_generation_id\<close> and \<open>target_generation_id\<close>.\<close>

definition known_generation :: "system \<Rightarrow> string \<Rightarrow> bool" where
  "known_generation s g = list_ex (\<lambda>x. ge_id x = g) (generations s)"

definition submit :: "string \<Rightarrow> string \<Rightarrow> string \<Rightarrow> string \<Rightarrow> system \<Rightarrow> sys_error + (sysop \<times> system)" where
  "submit new_id who key hash s =
    (if \<not> bounded who \<or> \<not> bounded key \<or> \<not> hash_ok (map lower_char hash) then Inl Value_Error
     else (case find (\<lambda>r. sy_key r = key) (sysops s) of
         Some r \<Rightarrow> if sy_hash r \<noteq> map lower_char hash then Inl Idempotency_Conflict else Inr (r, s)
       | None \<Rightarrow>
           if list_ex (\<lambda>r. sy_id r = new_id \<or> maintenance (sy_state r)) (sysops s) then Inl Active_Conflict
           else
             let r = \<lparr>sy_id = new_id, sy_principal = who, sy_key = key, sy_hash = map lower_char hash, sy_state = PENDING,
                   sy_by = None, sy_token = None, sy_fence = 0, sy_lease = None, sy_attempts = 0, sy_limit = 3,
                   sy_done = 0, sy_total = 0, sy_checkpoint = ''{}'', sy_manifest_hash = None, sy_manifest = ''{}'',
                   sy_source = None, sy_target = None, sy_error_class = None, sy_error_code = None\<rparr>
             in Inr (r, log_event new_id SUBMITTED None r None None (s\<lparr>sysops := sysops s @ [r]\<rparr>))))"

text \<open>\<open>UPDATE system_operations .. WHERE operation_id = ? AND <guard>\<close> with the check of its \<open>rowcount\<close>.\<close>

definition update_op :: "string \<Rightarrow> (sysop \<Rightarrow> bool) \<Rightarrow> (sysop \<Rightarrow> sysop) \<Rightarrow> system \<Rightarrow> sys_error + system" where
  "update_op i guard f s =
    (let P = (\<lambda>r. sy_id r = i \<and> guard r)
     in if rowcount P (sysops s) \<noteq> 1 then Inl Fenced else Inr (s\<lparr>sysops := upd P f (sysops s)\<rparr>))"

text \<open>The columns \<open>claim\<close> writes.\<close>

definition claimed :: "int \<Rightarrow> string \<Rightarrow> string \<Rightarrow> int \<Rightarrow> sysop \<Rightarrow> sysop" where
  "claimed now tok runner seconds r = r\<lparr>sy_state := (if sy_state r = PENDING then CLAIMED else sy_state r), sy_by := Some runner,
     sy_token := Some tok, sy_fence := sy_fence r + 1, sy_attempts := sy_attempts r + 1, sy_lease := Some (now + seconds)\<rparr>"

definition claim_op :: "int \<Rightarrow> string \<Rightarrow> string \<Rightarrow> string \<Rightarrow> int \<Rightarrow> system \<Rightarrow> sys_error + (sysop \<times> system)" where
  "claim_op now tok i runner seconds s =
    (if \<not> bounded i \<or> \<not> bounded runner \<or> seconds < 1 \<or> 3600 < seconds then Inl Value_Error
     else (case sysop_of s i of
         None \<Rightarrow> Inl Op_Not_Found
       | Some r \<Rightarrow>
           if \<not> (sy_state r = PENDING \<or> (executing (sy_state r) \<and> \<not> lease_valid now r)) then Inl State_Error
           else
             let r' = claimed now tok runner seconds r
             in bindE (update_op i (\<lambda>x. sy_fence x = sy_fence r) (\<lambda>_. r') s) (\<lambda>s'.
                  Inr (r', log_event i (if sy_state r = PENDING then EV_CLAIMED else RECLAIMED) (Some (sy_state r)) r' None None s'))))"

definition fence_ok :: "int \<Rightarrow> string \<Rightarrow> string \<Rightarrow> nat \<Rightarrow> sysop \<Rightarrow> bool" where
  "fence_ok now runner tok fence r \<longleftrightarrow> sy_by r = Some runner \<and> sy_token r = Some tok \<and> sy_fence r = fence \<and> lease_valid now r"

definition renew_op :: "int \<Rightarrow> string \<Rightarrow> string \<Rightarrow> string \<Rightarrow> nat \<Rightarrow> int \<Rightarrow> system \<Rightarrow> sys_error + (sysop \<times> system)" where
  "renew_op now i runner tok fence seconds s =
    (if \<not> bounded i \<or> \<not> bounded runner \<or> \<not> bounded tok \<or> seconds < 1 \<or> 3600 < seconds then Inl Value_Error
     else (case sysop_of s i of
         None \<Rightarrow> Inl Op_Not_Found
       | Some r \<Rightarrow>
           if \<not> executing (sy_state r) then Inl State_Error
           else if \<not> fence_ok now runner tok fence r then Inl Fenced
           else
             let r' = r\<lparr>sy_lease := Some (now + seconds)\<rparr>
             in bindE (update_op i (fence_ok now runner tok fence) (\<lambda>_. r') s) (\<lambda>s'. Inr (r', s'))))"

text \<open>The optional arguments of \<open>transition\<close>; the checkpoint and the manifest are serialised.\<close>

record progress =
  pr_done :: "int option"
  pr_total :: "int option"
  pr_checkpoint :: "string option"
  pr_manifest_hash :: "string option"
  pr_manifest :: "string option"
  pr_source :: "string option"
  pr_target :: "string option"
  pr_error_class :: "string option"
  pr_error_code :: "string option"

definition progress_ok :: "progress \<Rightarrow> bool" where
  "progress_ok p \<longleftrightarrow> opt_ok error_ok (pr_error_class p) \<and> opt_ok error_ok (pr_error_code p) \<and>
     opt_ok (\<lambda>h. hash_ok (map lower_char h)) (pr_manifest_hash p) \<and> opt_ok bounded (pr_source p) \<and> opt_ok bounded (pr_target p) \<and>
     opt_ok (\<lambda>j. length j \<le> 65536) (pr_checkpoint p) \<and> opt_ok (\<lambda>j. length j \<le> 65536) (pr_manifest p)"

definition or_else :: "'a option \<Rightarrow> 'a \<Rightarrow> 'a" where
  "or_else x d = (case x of None \<Rightarrow> d | Some v \<Rightarrow> v)"

definition failed_state :: "sys_state \<Rightarrow> bool" where
  "failed_state st \<longleftrightarrow> st \<in> {RETRYABLE_FAILED, FINAL_FAILED}"

text \<open>The checks of \<open>transition\<close> after the fence, in order.\<close>

definition transition_allowed :: "sysop \<Rightarrow> sys_state \<Rightarrow> progress \<Rightarrow> bool" where
  "transition_allowed r st p =
    (let completed = or_else (pr_done p) (sy_done r); total = or_else (pr_total p) (sy_total r) in
     st \<in> set (allowed_transitions (sy_state r)) \<and>
     \<not> (failed_state st \<and> pr_error_class p = None) \<and>
     \<not> (\<not> failed_state st \<and> (pr_error_class p \<noteq> None \<or> pr_error_code p \<noteq> None)) \<and>
     \<not> (st = RETRYABLE_FAILED \<and> sy_limit r \<le> sy_attempts r) \<and>
     \<not> completed < sy_done r \<and> \<not> (sy_total r \<noteq> 0 \<and> total \<noteq> sy_total r) \<and> \<not> (completed < 0 \<or> total < completed) \<and>
     \<not> (st \<in> {VERIFYING, READY_TO_CUTOVER, COMPLETED} \<and> completed \<noteq> total) \<and>
     \<not> (st = sy_state r \<and> pr_checkpoint p = None \<and> completed = sy_done r \<and> total = sy_total r))"

definition moved :: "sysop \<Rightarrow> sys_state \<Rightarrow> progress \<Rightarrow> sysop" where
  "moved r st p =
    (let r' = r\<lparr>sy_state := st, sy_done := or_else (pr_done p) (sy_done r), sy_total := or_else (pr_total p) (sy_total r),
         sy_checkpoint := or_else (pr_checkpoint p) (sy_checkpoint r),
         sy_manifest_hash := (case pr_manifest_hash p of None \<Rightarrow> sy_manifest_hash r | Some h \<Rightarrow> Some (map lower_char h)),
         sy_manifest := or_else (pr_manifest p) (sy_manifest r),
         sy_source := (if pr_source p = None then sy_source r else pr_source p),
         sy_target := (if pr_target p = None then sy_target r else pr_target p),
         sy_error_class := (if pr_error_class p = None then sy_error_class r else pr_error_class p),
         sy_error_code := (if pr_error_code p = None then sy_error_code r else pr_error_code p)\<rparr>
     in if released_state st then r'\<lparr>sy_by := None, sy_token := None, sy_lease := None\<rparr> else r')"

definition transition_op :: "(string \<Rightarrow> string) \<Rightarrow> int \<Rightarrow> string \<Rightarrow> sys_state \<Rightarrow> string \<Rightarrow> string \<Rightarrow> nat \<Rightarrow> progress \<Rightarrow> system \<Rightarrow>
    sys_error + (sysop \<times> system)" where
  "transition_op sha now i st runner tok fence p s =
    (if \<not> bounded i \<or> \<not> bounded runner \<or> \<not> bounded tok \<or> \<not> progress_ok p then Inl Value_Error
     else (case sysop_of s i of
         None \<Rightarrow> Inl Op_Not_Found
       | Some r \<Rightarrow>
           if \<not> fence_ok now runner tok fence r then Inl Fenced
           else if \<not> transition_allowed r st p then Inl State_Error
           else if \<not> opt_ok (known_generation s) (pr_source p) \<or> \<not> opt_ok (known_generation s) (pr_target p) then Inl Integrity_Error
           else
             let r' = moved r st p
             in bindE (update_op i (fence_ok now runner tok fence) (\<lambda>_. r') s) (\<lambda>s'.
                  Inr (r', log_event i (if st = sy_state r then CHECKPOINTED else TRANSITIONED) (Some (sy_state r))
                    r' (map_option sha (pr_checkpoint p)) (pr_error_class p) s'))))"

definition cancel_op :: "string \<Rightarrow> system \<Rightarrow> sys_error + (sysop \<times> system)" where
  "cancel_op i s =
    (if \<not> bounded i then Inl Value_Error
     else (case sysop_of s i of
         None \<Rightarrow> Inl Op_Not_Found
       | Some r \<Rightarrow>
           if sy_state r \<notin> {PENDING, RETRYABLE_FAILED} then Inl State_Error
           else
             let r' = r\<lparr>sy_state := CANCELLED, sy_by := None, sy_token := None, sy_lease := None\<rparr>
             in Inr (r', log_event i EV_CANCELLED (Some (sy_state r)) r' None None
                  (s\<lparr>sysops := upd (\<lambda>x. sy_id x = i \<and> sy_state x = sy_state r) (\<lambda>_. r') (sysops s)\<rparr>))))"

definition retry_op :: "string \<Rightarrow> system \<Rightarrow> sys_error + (sysop \<times> system)" where
  "retry_op i s =
    (if \<not> bounded i then Inl Value_Error
     else (case sysop_of s i of
         None \<Rightarrow> Inl Op_Not_Found
       | Some r \<Rightarrow>
           if sy_state r \<noteq> RETRYABLE_FAILED then Inl State_Error
           else if sy_limit r \<le> sy_attempts r then Inl State_Error
           else
             let r' = r\<lparr>sy_state := PENDING, sy_by := None, sy_token := None, sy_lease := None, sy_error_class := None, sy_error_code := None\<rparr>
             in Inr (r', log_event i RETRIED (Some RETRYABLE_FAILED) r' None None
                  (s\<lparr>sysops := upd (\<lambda>x. sy_id x = i \<and> sy_state x = RETRYABLE_FAILED) (\<lambda>_. r') (sysops s)\<rparr>))))"

end
