(* ===== verification/Generations.thy ===== *)
theory Generations imports Rebuild begin

text \<open>
  \<open>mesa_storage/projection_generations.py\<close>: the rows of \<open>projection_generations\<close> and the one row of
  \<open>projection_runtime\<close> that names the generation in use, changed by \<open>create_staging\<close>, \<open>activate\<close> and
  \<open>rollback\<close> under the fence of a system operation; and the paths a generation resolves to. A path is
  the list of its components; whether it is a symbolic link, and what \<open>resolve\<close> makes of it, come
  from the file system.
\<close>

subsection \<open>Paths\<close>

datatype path_error = Unsafe_Path | Path_Is_Symlink | Path_Escapes | Paths_Overlap | Outside_Trusted_Root

type_synonym path = "string list"

fun split_slash :: "string \<Rightarrow> string list" where
  "split_slash [] = [[]]"
| "split_slash (c # cs) =
    (if c = CHR ''/'' then [] # split_slash cs
     else case split_slash cs of [] \<Rightarrow> [[c]] | p # ps \<Rightarrow> (c # p) # ps)"

text \<open>\<open>Path(value).parts\<close> of a relative value: empty components and \<open>.\<close> are dropped.\<close>

definition parts :: "string \<Rightarrow> path" where
  "parts v = filter (\<lambda>p. p \<noteq> '''' \<and> p \<noteq> ''.'') (split_slash v)"

definition is_absolute :: "string \<Rightarrow> bool" where
  "is_absolute v = (case v of [] \<Rightarrow> False | c # _ \<Rightarrow> c = CHR ''/'')"

definition under :: "path \<Rightarrow> path \<Rightarrow> bool" where
  "under p root \<longleftrightarrow> take (length root) p = root"

text \<open>\<open>while current != storage_root: .. current = current.parent\<close>, on the components below the root.\<close>

fun symlink_below :: "(path \<Rightarrow> bool) \<Rightarrow> path \<Rightarrow> path \<Rightarrow> bool" where
  "symlink_below is_symlink root [] = False"
| "symlink_below is_symlink root (p # ps) = (is_symlink (root @ [p]) \<or> symlink_below is_symlink (root @ [p]) ps)"

definition safe_store_path :: "(path \<Rightarrow> bool) \<Rightarrow> (path \<Rightarrow> path) \<Rightarrow> path \<Rightarrow> string \<Rightarrow> path_error + path" where
  "safe_store_path is_symlink resolve root v =
    (if CHR 92 \<in> set v \<or> is_absolute v \<or> parts v = [] \<or> ''..'' \<in> set (parts v) then Inl Unsafe_Path
     else if symlink_below is_symlink root (parts v) then Inl Path_Is_Symlink
     else let r = resolve (root @ parts v) in if r = root \<or> \<not> under r root then Inl Path_Escapes else Inr r)"

text \<open>\<open>_resolve_paths\<close> on roots that are existing directories and already resolved.\<close>

definition resolve_paths :: "(path \<Rightarrow> bool) \<Rightarrow> (path \<Rightarrow> path) \<Rightarrow> path \<Rightarrow> path \<Rightarrow> string \<Rightarrow> string \<Rightarrow> path_error + (path \<times> path)" where
  "resolve_paths is_symlink resolve storage trusted vector graph =
    (if storage \<noteq> trusted \<and> \<not> under storage trusted then Inl Outside_Trusted_Root
     else bindE (safe_store_path is_symlink resolve storage vector) (\<lambda>v.
       bindE (safe_store_path is_symlink resolve storage graph) (\<lambda>g.
         if v = g \<or> under v g \<or> under g v then Inl Paths_Overlap else Inr (v, g))))"

subsection \<open>Generations\<close>

definition generation_of :: "system \<Rightarrow> string \<Rightarrow> generation option" where
  "generation_of s g = find (\<lambda>x. ge_id x = g) (generations s)"

definition gen_state_is :: "system \<Rightarrow> string \<Rightarrow> gen_state \<Rightarrow> bool" where
  "gen_state_is s g st \<longleftrightarrow> map_option ge_state (generation_of s g) = Some st"

text \<open>\<open>UPDATE projection_generations SET lifecycle_state = ? WHERE generation_id = ? AND lifecycle_state = ?\<close>.\<close>

definition set_gen_state :: "string \<Rightarrow> gen_state \<Rightarrow> gen_state \<Rightarrow> system \<Rightarrow> system" where
  "set_gen_state g old new s = s\<lparr>generations := upd (\<lambda>x. ge_id x = g \<and> ge_state x = old) (\<lambda>x. x\<lparr>ge_state := new\<rparr>) (generations s)\<rparr>"

definition operation_fenced :: "sys_state \<Rightarrow> int \<Rightarrow> string \<Rightarrow> string \<Rightarrow> nat \<Rightarrow> sysop \<Rightarrow> bool" where
  "operation_fenced st now runner tok fence r \<longleftrightarrow> sy_state r = st \<and> fence_ok now runner tok fence r"

definition resolve_active :: "(path \<Rightarrow> bool) \<Rightarrow> (path \<Rightarrow> path) \<Rightarrow> path \<Rightarrow> path \<Rightarrow> system \<Rightarrow> sys_error + (path_error + (string \<times> path \<times> path \<times> nat \<times> string option))" where
  "resolve_active is_symlink resolve storage trusted s =
    (case runtime s of
       None \<Rightarrow> Inl Gen_Not_Found
     | Some u \<Rightarrow>
         (case generation_of s (ru_active u) of
            None \<Rightarrow> Inl Gen_Not_Found
          | Some g \<Rightarrow>
              if ge_state g \<noteq> ACTIVE then Inl Gen_Not_Found
              else Inr (bindE (resolve_paths is_symlink resolve storage trusted (ge_vector g) (ge_graph g))
                (\<lambda>(v, k). Inr (ru_active u, v, k, ru_fence u, ru_previous u)))))"

definition vector_path :: "string \<Rightarrow> string" where
  "vector_path g = ''projection-generations/'' @ g @ ''/vector.lance''"

definition graph_path :: "string \<Rightarrow> string" where
  "graph_path g = ''projection-generations/'' @ g @ ''/kuzu_db''"

definition in_use :: "system \<Rightarrow> string \<Rightarrow> bool" where
  "in_use s g = (case runtime s of None \<Rightarrow> False | Some u \<Rightarrow> ru_active u = g \<or> ru_previous u = Some g)"

definition create_staging :: "int \<Rightarrow> string \<Rightarrow> string \<Rightarrow> string \<Rightarrow> string \<Rightarrow> nat \<Rightarrow> string option \<Rightarrow> string \<Rightarrow> system \<Rightarrow>
    sys_error + (generation \<times> system)" where
  "create_staging now i g runner tok fence hash provider s =
    (let h = map_option (map lower_char) hash in
     if \<not> bounded i \<or> \<not> identifier_ok g \<or> g = ''legacy'' \<or> \<not> identifier_ok runner \<or> \<not> bounded tok \<or> \<not> opt_ok hash_ok h \<or>
       16384 < length provider then Inl Value_Error
     else (case sysop_of s i of
         None \<Rightarrow> Inl Gen_Not_Found
       | Some r \<Rightarrow>
           if \<not> operation_fenced RUNNING now runner tok fence r then Inl Gen_Fenced
           else (case generation_of s g of
               Some x \<Rightarrow>
                 if ge_created_by x \<noteq> Some i \<or> ge_vector x \<noteq> vector_path g \<or> ge_graph x \<noteq> graph_path g \<or> ge_manifest_hash x \<noteq> h \<or>
                   ge_provider x \<noteq> provider then Inl Gen_Conflict
                 else if ge_state x = GEN_FAILED then
                   (if in_use s g then Inl Gen_Conflict else Inr (x\<lparr>ge_state := STAGING\<rparr>, set_gen_state g GEN_FAILED STAGING s))
                 else if ge_state x \<noteq> STAGING then Inl Gen_Conflict
                 else Inr (x, s)
             | None \<Rightarrow>
                 if list_ex (\<lambda>x. ge_vector x = vector_path g \<or> ge_graph x = graph_path g) (generations s) then Inl Gen_Conflict
                 else
                   let x = \<lparr>ge_id = g, ge_state = STAGING, ge_vector = vector_path g, ge_graph = graph_path g, ge_manifest_hash = h,
                         ge_provider = provider, ge_created_by = Some i\<rparr>
                   in Inr (x, s\<lparr>generations := generations s @ [x]\<rparr>))))"

text \<open>
  \<open>activate\<close>. The last \<open>UPDATE\<close> repeats every condition the transaction has already read, so its
  \<open>rowcount\<close> is one.
\<close>

definition activate :: "int \<Rightarrow> string \<Rightarrow> string \<Rightarrow> string \<Rightarrow> string \<Rightarrow> nat \<Rightarrow> string \<Rightarrow> nat \<Rightarrow> system \<Rightarrow> sys_error + (runtime \<times> system)" where
  "activate now g i runner tok fence expected ru_token s =
    (if \<not> identifier_ok g \<or> \<not> bounded i \<or> \<not> identifier_ok runner \<or> \<not> bounded tok \<or> \<not> identifier_ok expected then Inl Value_Error
     else (case sysop_of s i of
         None \<Rightarrow> Inl Gen_Not_Found
       | Some r \<Rightarrow>
           if \<not> operation_fenced READY_TO_CUTOVER now runner tok fence r then Inl Gen_Fenced
           else if sy_target r \<noteq> Some g then Inl Gen_Conflict
           else (case runtime s of
               None \<Rightarrow> Inl Gen_Not_Found
             | Some u \<Rightarrow>
                 if ru_active u \<noteq> expected \<or> ru_fence u \<noteq> ru_token then Inl Gen_Fenced
                 else if \<not> gen_state_is s expected ACTIVE \<or> \<not> gen_state_is s g STAGING then Inl Gen_Conflict
                 else
                   let u' = \<lparr>ru_active = g, ru_previous = Some expected, ru_fence = ru_fence u + 1\<rparr>
                   in Inr (u', (set_gen_state g STAGING ACTIVE (set_gen_state expected ACTIVE RETAINED s))\<lparr>runtime := Some u'\<rparr>))))"

definition rollback :: "int \<Rightarrow> string \<Rightarrow> string \<Rightarrow> string \<Rightarrow> nat \<Rightarrow> string \<Rightarrow> nat \<Rightarrow> system \<Rightarrow> sys_error + (runtime \<times> system)" where
  "rollback now i runner tok fence expected ru_token s =
    (if \<not> bounded i \<or> \<not> identifier_ok runner \<or> \<not> bounded tok \<or> \<not> identifier_ok expected then Inl Value_Error
     else (case sysop_of s i of
         None \<Rightarrow> Inl Gen_Not_Found
       | Some r \<Rightarrow>
           if \<not> operation_fenced READY_TO_CUTOVER now runner tok fence r then Inl Gen_Fenced
           else if sy_target r \<noteq> Some expected then Inl Gen_Conflict
           else (case runtime s of
               None \<Rightarrow> Inl Gen_Conflict
             | Some u \<Rightarrow>
                 (case ru_previous u of
                    None \<Rightarrow> Inl Gen_Conflict
                  | Some retained \<Rightarrow>
                      if ru_active u \<noteq> expected \<or> ru_fence u \<noteq> ru_token then Inl Gen_Fenced
                      else if \<not> gen_state_is s expected ACTIVE \<or> \<not> gen_state_is s retained RETAINED then Inl Gen_Conflict
                      else
                        let u' = \<lparr>ru_active = retained, ru_previous = None, ru_fence = ru_fence u + 1\<rparr>
                        in Inr (u', (set_gen_state retained RETAINED ACTIVE (set_gen_state expected ACTIVE GEN_FAILED s))\<lparr>runtime := Some u'\<rparr>)))))"

subsection \<open>The store over time\<close>

text \<open>What the migration writes.\<close>

definition migrated :: system where
  "migrated = \<lparr>sysops = [], sys_events = [],
     generations = [\<lparr>ge_id = ''legacy'', ge_state = ACTIVE, ge_vector = ''vector.lance'', ge_graph = ''kuzu_db'', ge_manifest_hash = None,
       ge_provider = ''{}'', ge_created_by = None\<rparr>],
     runtime = Some \<lparr>ru_active = ''legacy'', ru_previous = None, ru_fence = 0\<rparr>\<rparr>"

text \<open>One committed call of a repository, by any process at any time.\<close>

inductive sys_step :: "(string \<Rightarrow> string) \<Rightarrow> system \<Rightarrow> system \<Rightarrow> bool" for sha where
  Submitted: "submit new_id who key hash s = Inr (r, s') \<Longrightarrow> sys_step sha s s'"
| Claimed: "claim_op now tok i runner seconds s = Inr (r, s') \<Longrightarrow> sys_step sha s s'"
| Renewed: "renew_op now i runner tok fence seconds s = Inr (r, s') \<Longrightarrow> sys_step sha s s'"
| Moved: "transition_op sha now i st runner tok fence p s = Inr (r, s') \<Longrightarrow> sys_step sha s s'"
| Cancelled_Op: "cancel_op i s = Inr (r, s') \<Longrightarrow> sys_step sha s s'"
| Retried_Op: "retry_op i s = Inr (r, s') \<Longrightarrow> sys_step sha s s'"
| Staged: "create_staging now i g runner tok fence mhash provider s = Inr (x, s') \<Longrightarrow> sys_step sha s s'"
| Activated: "activate now g i runner tok fence expected ru_token s = Inr (u, s') \<Longrightarrow> sys_step sha s s'"
| Rolled_Back_Gen: "rollback now i runner tok fence expected ru_token s = Inr (u, s') \<Longrightarrow> sys_step sha s s'"

end
