(* ===== verification/Cutover.thy ===== *)
theory Cutover imports Generations begin

text \<open>
  \<open>ParityGatedActivator\<close> of \<open>mesa_storage/rebuild_cutover.py\<close>: one run from the end of the replay to COMPLETED, as
  the sequence of committed repository calls it makes. What the verifier finds in the two stores and whether the
  process was asked to stop are inputs, the serialised checkpoint of a phase comes from a parameter, and
  \<open>clock k\<close> is the time of the \<open>k\<close>-th repository call. \<open>mark_assertion_vector_representation\<close> is
  reduced to its check of the pointer; its updates of the artifact registry are not in this store.
\<close>

datatype probe_verdict = Passed | Parity_Mismatch | Probe_Failed

datatype cut_error = Repo sys_error | Path_Problem path_error | Verification_Error | Rollback_Unproven

type_synonym 'a act = "(cut_error + 'a) \<times> system"

definition committed :: "(sys_error + ('a \<times> system)) \<Rightarrow> system \<Rightarrow> 'a act" where
  "committed x s = (case x of Inl e \<Rightarrow> (Inl (Repo e), s) | Inr (a, s') \<Rightarrow> (Inr a, s'))"

definition then_act :: "'a act \<Rightarrow> ('a \<Rightarrow> system \<Rightarrow> 'b act) \<Rightarrow> 'b act" where
  "then_act x f = (case fst x of Inl e \<Rightarrow> (Inl e, snd x) | Inr a \<Rightarrow> f a (snd x))"

text \<open>\<open>preparation\<close>, \<open>replay\<close> and the arguments of \<open>activate\<close>.\<close>

record cut_run =
  cu_op :: string
  cu_runner :: string
  cu_token :: string
  cu_fence :: nat
  cu_source :: string
  cu_target :: string
  cu_done :: int
  cu_total :: int
  cu_replayed :: int
  cu_lease :: int
  cu_links :: "path \<Rightarrow> bool"
  cu_resolve :: "path \<Rightarrow> path"
  cu_storage :: path
  cu_trusted :: path
  cu_checkpoint :: "string \<Rightarrow> string"
  cu_sha :: "string \<Rightarrow> string"
  cu_clock :: "nat \<Rightarrow> int"

definition move_to :: "cut_run \<Rightarrow> nat \<Rightarrow> sys_state \<Rightarrow> int \<Rightarrow> int \<Rightarrow> string \<Rightarrow> string option \<Rightarrow> system \<Rightarrow> sysop act" where
  "move_to c k st completed goal phase err s =
    committed (transition_op (cu_sha c) (cu_clock c k) (cu_op c) st (cu_runner c) (cu_token c) (cu_fence c)
      \<lparr>pr_done = Some completed, pr_total = Some goal, pr_checkpoint = Some (cu_checkpoint c phase), pr_manifest_hash = None, pr_manifest = None,
        pr_source = None, pr_target = None, pr_error_class = err, pr_error_code = None\<rparr> s) s"

definition record_failure :: "cut_run \<Rightarrow> nat \<Rightarrow> int \<Rightarrow> int \<Rightarrow> string \<Rightarrow> cut_error \<Rightarrow> system \<Rightarrow> 'a act" where
  "record_failure c k completed goal err raised s =
    then_act (move_to c k RETRYABLE_FAILED completed goal ''RETRYABLE_FAILED'' (Some err) s) (\<lambda>_ s'. (Inl raised, s'))"

definition active_pointer :: "cut_run \<Rightarrow> system \<Rightarrow> (string \<times> nat \<times> string option) act" where
  "active_pointer c s =
    (case resolve_active (cu_links c) (cu_resolve c) (cu_storage c) (cu_trusted c) s of
       Inl e \<Rightarrow> (Inl (Repo e), s)
     | Inr (Inl e) \<Rightarrow> (Inl (Path_Problem e), s)
     | Inr (Inr (g, v, k, fence, previous)) \<Rightarrow> (Inr (g, fence, previous), s))"

text \<open>The handler of a failed verification after the pointer has moved.\<close>

definition undo_cutover :: "cut_run \<Rightarrow> probe_verdict \<Rightarrow> nat \<Rightarrow> system \<Rightarrow> 'a act" where
  "undo_cutover c v3 fence s =
    then_act (committed (rollback (cu_clock c 3) (cu_op c) (cu_runner c) (cu_token c) (cu_fence c) (cu_target c) fence s) s) (\<lambda>u s1.
    then_act (active_pointer c s1) (\<lambda>_ s2.
      if v3 \<noteq> Passed then record_failure c 4 (cu_replayed c) (cu_replayed c) ''RollbackVerificationFailed'' Rollback_Unproven s2
      else record_failure c 4 (cu_replayed c) (cu_replayed c) ''PostCutoverVerificationFailed''
        (if ru_active u \<noteq> cu_source c then Rollback_Unproven else Verification_Error) s2))"

definition publish :: "cut_run \<Rightarrow> system \<Rightarrow> unit act" where
  "publish c s =
    (case runtime s of
       None \<Rightarrow> (Inl (Repo Gen_Fenced), s)
     | Some u \<Rightarrow> if ru_active u = cu_target c \<and> gen_state_is s (cu_target c) ACTIVE then (Inr (), s) else (Inl (Repo Gen_Fenced), s))"

definition finish_cutover :: "cut_run \<Rightarrow> probe_verdict \<Rightarrow> probe_verdict \<Rightarrow> nat \<Rightarrow> system \<Rightarrow> sysop act" where
  "finish_cutover c v2 v3 fence s =
    (if v2 \<noteq> Passed then undo_cutover c v3 fence s
     else then_act (publish c s) (\<lambda>_. move_to c 3 COMPLETED (cu_replayed c) (cu_replayed c) ''COMPLETED'' None))"

definition move_pointer :: "cut_run \<Rightarrow> system \<Rightarrow> nat act" where
  "move_pointer c s =
    then_act (active_pointer c s) (\<lambda>(g, fence, previous) s1.
      if g = cu_source c then
        then_act (committed (activate (cu_clock c 2) (cu_target c) (cu_op c) (cu_runner c) (cu_token c) (cu_fence c) (cu_source c) fence s1) s1)
          (\<lambda>u s2. (Inr (ru_fence u), s2))
      else if g = cu_target c \<and> previous = Some (cu_source c) then (Inr fence, s1)
      else (Inl Verification_Error, s1))"

definition verification_class :: "probe_verdict \<Rightarrow> string" where
  "verification_class v = (if v = Parity_Mismatch then ''ProjectionParityMismatch'' else ''ProjectionVerificationFailed'')"

definition activate_gated :: "cut_run \<Rightarrow> bool \<Rightarrow> probe_verdict \<Rightarrow> bool \<Rightarrow> probe_verdict \<Rightarrow> probe_verdict \<Rightarrow> system \<Rightarrow> sysop act" where
  "activate_gated c stop1 v1 stop2 v2 v3 s =
    (case resolve_paths (cu_links c) (cu_resolve c) (cu_storage c) (cu_trusted c) (vector_path (cu_target c)) (graph_path (cu_target c)) of
       Inl e \<Rightarrow> (Inl (Path_Problem e), s)
     | Inr _ \<Rightarrow>
         if stop1 then record_failure c 0 (cu_done c) (cu_total c) ''RebuildInterrupted'' Verification_Error s
         else then_act (committed (renew_op (cu_clock c 0) (cu_op c) (cu_runner c) (cu_token c) (cu_fence c) (cu_lease c) s) s) (\<lambda>_ s1.
           if v1 \<noteq> Passed then record_failure c 1 (cu_done c) (cu_total c) (verification_class v1) Verification_Error s1
           else if stop2 then record_failure c 1 (cu_done c) (cu_total c) ''RebuildInterrupted'' Verification_Error s1
           else then_act (move_to c 1 READY_TO_CUTOVER (cu_replayed c) (cu_replayed c) ''READY_TO_CUTOVER'' None s1) (\<lambda>_ s2.
             then_act (move_pointer c s2) (finish_cutover c v2 v3))))"

end
