(* ===== verification/Rebuild_Properties.thy ===== *)
theory Rebuild_Properties imports Generations begin

text \<open>
  What the steps of a system operation keep: the columns of its row, the one maintenance operation of the
  storage root, the history its events give, and the fence that shuts a stale runner out.
\<close>

subsection \<open>A change of one row\<close>

definition sys_row_ok :: "sysop \<Rightarrow> bool" where
  "sys_row_ok r \<longleftrightarrow> hash_ok (sy_hash r) \<and> 0 \<le> sy_done r \<and> sy_done r \<le> sy_total r \<and> sy_attempts r = sy_fence r \<and>
     (sy_state r \<in> {VERIFYING, READY_TO_CUTOVER, COMPLETED} \<longrightarrow> sy_done r = sy_total r) \<and>
     (if executing (sy_state r) then sy_by r \<noteq> None \<and> sy_token r \<noteq> None \<and> sy_lease r \<noteq> None
      else sy_by r = None \<and> sy_token r = None \<and> sy_lease r = None)"

text \<open>The row of an operation and the event that tells its last change.\<close>

definition tells :: "sys_event \<Rightarrow> sysop \<Rightarrow> bool" where
  "tells e r \<longleftrightarrow> se_op e = sy_id r \<and> se_to e = sy_state r \<and> se_fence e = sy_fence r \<and> se_attempts e = sy_attempts r \<and>
     se_done e = sy_done r \<and> se_total e = sy_total r"

definition row_change :: "system \<Rightarrow> sysop \<Rightarrow> sysop \<Rightarrow> bool" where
  "row_change s r r' \<longleftrightarrow> sy_id r' = sy_id r \<and> sy_key r' = sy_key r \<and> sy_fence r \<le> sy_fence r' \<and> (sys_row_ok r \<longrightarrow> sys_row_ok r') \<and>
     (maintenance (sy_state r') \<longrightarrow> maintenance (sy_state r)) \<and>
     (sy_source r' = sy_source r \<or> opt_ok (known_generation s) (sy_source r')) \<and>
     (sy_target r' = sy_target r \<or> opt_ok (known_generation s) (sy_target r'))"

lemma sysop_ofD: "sysop_of s i = Some r \<Longrightarrow> r \<in> set (sysops s) \<and> sy_id r = i"
  unfolding sysop_of_def by (auto simp: find_Some_iff in_set_conv_nth)

lemma sysop_of_mem: "distinct (map sy_id (sysops s)) \<Longrightarrow> r \<in> set (sysops s) \<Longrightarrow> sysop_of s (sy_id r) = Some r"
  unfolding sysop_of_def by (rule find_distinct)

lemma upd_row:
  assumes "distinct (map sy_id rs)" and "r \<in> set rs" and "sy_id r = i" and "P r"
  shows "upd (\<lambda>x. sy_id x = i \<and> P x) f rs = upd (\<lambda>x. sy_id x = i) f rs"
proof (rule upd_cong)
  fix x
  assume "x \<in> set rs"
  then show "(sy_id x = i \<and> P x) = (sy_id x = i)" using assms eq_key_imp_eq_value [of "[]"]
    by (metis (no_types, lifting) distinct_map inj_onD)
qed

lemma update_op_row:
  assumes "update_op i P f s = Inr s'" and "distinct (map sy_id (sysops s))" and "sysop_of s i = Some r" and "P r"
  shows "s' = s\<lparr>sysops := upd (\<lambda>x. sy_id x = i) f (sysops s)\<rparr>"
  using assms upd_row [of "sysops s" r i P f] sysop_ofD [of s i r]
  by (auto simp: update_op_def Let_def split: if_splits)


definition replaced :: "string \<Rightarrow> sysop \<Rightarrow> system \<Rightarrow> system" where
  "replaced i r s = s\<lparr>sysops := upd (\<lambda>x. sy_id x = i) (\<lambda>_. r) (sysops s)\<rparr>"

definition row_moved :: "system \<Rightarrow> sysop \<Rightarrow> sysop \<Rightarrow> system \<Rightarrow> bool" where
  "row_moved s r r' s' \<longleftrightarrow> sysop_of s (sy_id r) = Some r \<and> row_change s r r' \<and>
     (\<exists>ty cp er. s' = log_event (sy_id r) ty (Some (sy_state r)) r' cp er (replaced (sy_id r) r' s))"

definition row_renewed :: "system \<Rightarrow> sysop \<Rightarrow> sysop \<Rightarrow> system \<Rightarrow> bool" where
  "row_renewed s r r' s' \<longleftrightarrow> sysop_of s (sy_id r) = Some r \<and> row_change s r r' \<and> (\<forall>e. tells e r' = tells e r) \<and> s' = replaced (sy_id r) r' s"

definition row_added :: "system \<Rightarrow> sysop \<Rightarrow> system \<Rightarrow> bool" where
  "row_added s r s' \<longleftrightarrow> sys_row_ok r \<and> sy_source r = None \<and> sy_target r = None \<and>
     (\<forall>x \<in> set (sysops s). sy_id x \<noteq> sy_id r \<and> sy_key x \<noteq> sy_key r \<and> \<not> maintenance (sy_state x)) \<and>
     s' = log_event (sy_id r) SUBMITTED None r None None (s\<lparr>sysops := sysops s @ [r]\<rparr>)"

definition rows_kept :: "system \<Rightarrow> system \<Rightarrow> bool" where
  "rows_kept s s' \<longleftrightarrow> sysops s' = sysops s \<and> sys_events s' = sys_events s \<and>
     (\<forall>g. known_generation s g \<longrightarrow> known_generation s' g)"

lemma row_movedI:
  assumes "sysop_of s i = Some r" and "row_change s r r'" and "s' = log_event i ty (Some (sy_state r)) r' cp er (replaced i r' s)"
  shows "row_moved s r r' s'"
  using assms sysop_ofD [OF assms(1)] by (auto simp: row_moved_def)

lemma submit_rows:
  assumes "submit i who key hash s = Inr (r, s')"
  shows "s' = s \<or> row_added s r s'"
proof (cases "find (\<lambda>r. sy_key r = key) (sysops s)")
  case None
  have h: "hash_ok (map lower_char hash)" using assms by (auto simp: submit_def split: if_splits)
  have n: "\<not> list_ex (\<lambda>r. sy_id r = i \<or> maintenance (sy_state r)) (sysops s)" using assms None by (auto simp: submit_def split: if_splits)
  have k: "\<forall>x \<in> set (sysops s). sy_key x \<noteq> key" using None by (auto simp: find_None_iff)
  from assms None n have r: "s' = log_event i SUBMITTED None r None None (s\<lparr>sysops := sysops s @ [r]\<rparr>)" "sy_id r = i" "sy_key r = key"
      "sy_hash r = map lower_char hash" "sy_state r = PENDING" "sy_done r = 0" "sy_total r = 0" "sy_attempts r = 0" "sy_fence r = 0"
      "sy_by r = None" "sy_token r = None" "sy_lease r = None" "sy_source r = None" "sy_target r = None"
    unfolding submit_def Let_def by (auto split: if_splits)
  then have "row_added s r s'" using n h k by (auto simp: row_added_def sys_row_ok_def executing_def list_ex_iff)
  then show ?thesis ..
next
  case (Some x)
  with assms show ?thesis by (auto simp: submit_def split: if_splits)
qed

lemma claim_rows:
  assumes "claim_op now tok i runner n s = Inr (r', s')" and "distinct (map sy_id (sysops s))"
  shows "\<exists>r. row_moved s r r' s'"
proof -
  obtain r s1 where r: "sysop_of s i = Some r"
    and st: "sy_state r = PENDING \<or> executing (sy_state r)"
    and r': "r' = claimed now tok runner n r"
    and u: "update_op i (\<lambda>x. sy_fence x = sy_fence r) (\<lambda>_. r') s = Inr s1"
    and s': "s' = log_event i (if sy_state r = PENDING then EV_CLAIMED else RECLAIMED) (Some (sy_state r)) r' None None s1"
    using assms(1) unfolding claim_op_def Let_def
    by (auto simp: bindE_Inr_iff split: if_split_asm option.split_asm)
  have "s1 = replaced i r' s" using update_op_row [OF u assms(2) r] by (simp add: replaced_def)
  moreover have "row_change s r r'"
    using st by (auto simp: r' claimed_def row_change_def sys_row_ok_def executing_def maintenance_def)
  ultimately show ?thesis using r s' by (blast intro: row_movedI)
qed

lemma renew_rows:
  assumes "renew_op now i runner tok fence n s = Inr (r', s')" and "distinct (map sy_id (sysops s))"
  shows "\<exists>r. row_renewed s r r' s'"
proof -
  obtain r where r: "sysop_of s i = Some r" and st: "executing (sy_state r)" and f: "fence_ok now runner tok fence r"
    and r': "r' = r\<lparr>sy_lease := Some (now + n)\<rparr>" and u: "update_op i (fence_ok now runner tok fence) (\<lambda>_. r') s = Inr s'"
    using assms(1) by (auto simp: renew_op_def Let_def bindE_Inr_iff split: if_splits option.splits)
  have "s' = replaced i r' s" using update_op_row [OF u assms(2) r f] by (simp add: replaced_def)
  moreover have "row_change s r r'" using st by (auto simp: r' row_change_def sys_row_ok_def)
  ultimately show ?thesis using r sysop_ofD [OF r] by (auto simp: row_renewed_def r' tells_def)
qed

lemma moved_change:
  assumes "transition_allowed r st p" and "opt_ok (known_generation s) (pr_source p)" and "opt_ok (known_generation s) (pr_target p)"
  shows "row_change s r (moved r st p)"
proof -
  have ex: "executing (sy_state r)" using assms(1) by (cases "sy_state r") (auto simp: transition_allowed_def Let_def executing_def)
  have st: "st \<in> {RUNNING, VERIFYING, READY_TO_CUTOVER, COMPLETED, RETRYABLE_FAILED, FINAL_FAILED}"
    using assms(1) by (cases "sy_state r") (auto simp: transition_allowed_def Let_def)
  have "sys_row_ok r \<longrightarrow> sys_row_ok (moved r st p)"
    using assms(1) ex st
    by (auto simp: transition_allowed_def sys_row_ok_def moved_def Let_def released_state_def executing_def)
  moreover have "maintenance (sy_state r)" using ex by (auto simp: executing_def maintenance_def)
  ultimately show ?thesis using assms(2,3) by (auto simp: row_change_def moved_def Let_def)
qed

lemma transition_rows:
  assumes "transition_op sha now i st runner tok fence p s = Inr (r', s')" and "distinct (map sy_id (sysops s))"
  shows "\<exists>r. row_moved s r r' s' \<and> transition_allowed r st p \<and> fence_ok now runner tok fence r \<and> sy_id r = i"
proof -
  obtain r s1 ty where r: "sysop_of s i = Some r" and f: "fence_ok now runner tok fence r" and a: "transition_allowed r st p"
    and g: "opt_ok (known_generation s) (pr_source p)" "opt_ok (known_generation s) (pr_target p)"
    and r': "r' = moved r st p" and u: "update_op i (fence_ok now runner tok fence) (\<lambda>_. r') s = Inr s1"
    and s': "s' = log_event i ty (Some (sy_state r)) r' (map_option sha (pr_checkpoint p)) (pr_error_class p) s1"
    using assms(1) by (auto simp: transition_op_def Let_def bindE_Inr_iff split: if_splits option.splits)
  have "s1 = replaced i r' s" using update_op_row [OF u assms(2) r f] by (simp add: replaced_def)
  with moved_change [OF a g] show ?thesis using r s' a f sysop_ofD [OF r] unfolding r' by (blast intro: row_movedI)
qed

lemma cancel_rows:
  assumes "cancel_op i s = Inr (r', s')" and "distinct (map sy_id (sysops s))"
  shows "\<exists>r. row_moved s r r' s'"
proof -
  obtain r where r: "sysop_of s i = Some r" and st: "sy_state r \<in> {PENDING, RETRYABLE_FAILED}"
    and r': "r' = r\<lparr>sy_state := CANCELLED, sy_by := None, sy_token := None, sy_lease := None\<rparr>"
    and s': "s' = log_event i EV_CANCELLED (Some (sy_state r)) r' None None
      (s\<lparr>sysops := upd (\<lambda>x. sy_id x = i \<and> sy_state x = sy_state r) (\<lambda>_. r') (sysops s)\<rparr>)"
    using assms(1) unfolding cancel_op_def Let_def by (auto split: if_splits option.splits)
  have "upd (\<lambda>x. sy_id x = i \<and> sy_state x = sy_state r) (\<lambda>_. r') (sysops s) = upd (\<lambda>x. sy_id x = i) (\<lambda>_. r') (sysops s)"
    using assms(2) sysop_ofD [OF r] by (intro upd_row [where r = r]) auto
  moreover have "row_change s r r'" using st by (auto simp: r' row_change_def sys_row_ok_def executing_def maintenance_def)
  ultimately show ?thesis using r s' by (intro exI row_movedI [where i = i]) (auto simp: replaced_def)
qed

lemma retry_rows:
  assumes "retry_op i s = Inr (r', s')" and "distinct (map sy_id (sysops s))"
  shows "\<exists>r. row_moved s r r' s'"
proof -
  obtain r where r: "sysop_of s i = Some r" and st: "sy_state r = RETRYABLE_FAILED"
    and r': "r' = r\<lparr>sy_state := PENDING, sy_by := None, sy_token := None, sy_lease := None, sy_error_class := None, sy_error_code := None\<rparr>"
    and s': "s' = log_event i RETRIED (Some RETRYABLE_FAILED) r' None None
      (s\<lparr>sysops := upd (\<lambda>x. sy_id x = i \<and> sy_state x = RETRYABLE_FAILED) (\<lambda>_. r') (sysops s)\<rparr>)"
    using assms(1) unfolding retry_op_def Let_def by (auto split: if_splits option.splits)
  have "upd (\<lambda>x. sy_id x = i \<and> sy_state x = RETRYABLE_FAILED) (\<lambda>_. r') (sysops s) = upd (\<lambda>x. sy_id x = i) (\<lambda>_. r') (sysops s)"
    using assms(2) sysop_ofD [OF r] st by (intro upd_row [where r = r]) auto
  moreover have "row_change s r r'" using st by (auto simp: r' row_change_def sys_row_ok_def executing_def maintenance_def)
  ultimately show ?thesis using r s' st by (intro exI row_movedI [where i = i]) (auto simp: replaced_def)
qed

lemma ge_ids_set [simp]: "map ge_id (generations (set_gen_state g a b s)) = map ge_id (generations s)"
  unfolding set_gen_state_def by (simp add: map_upd_key)

lemma known_generation_ids: "known_generation s g \<longleftrightarrow> g \<in> set (map ge_id (generations s))"
  by (auto simp: known_generation_def list_ex_iff)

lemma sysops_set_gen [simp]: "sysops (set_gen_state g a b s) = sysops s" "sys_events (set_gen_state g a b s) = sys_events s"
    "runtime (set_gen_state g a b s) = runtime s"
  by (simp_all add: set_gen_state_def)

lemma rows_kept_set [simp]: "rows_kept s (set_gen_state g a b t) = rows_kept s t"
  unfolding rows_kept_def known_generation_ids ge_ids_set by simp

lemma rows_kept_runtime [simp]: "rows_kept s (s'\<lparr>runtime := u\<rparr>) = rows_kept s s'"
  by (simp add: rows_kept_def known_generation_def)

lemma rows_kept_more [simp]: "rows_kept s (s\<lparr>generations := generations s @ xs\<rparr>)" "rows_kept s s"
  by (auto simp: rows_kept_def known_generation_def)

lemma create_staging_rows: "create_staging now i g runner tok fence mh pm s = Inr (x, s') \<Longrightarrow> rows_kept s s'"
  by (auto simp: create_staging_def Let_def split: if_splits option.splits)

lemma activate_rows: "activate now g i runner tok fence ex rt s = Inr (u, s') \<Longrightarrow> rows_kept s s'"
  by (auto simp: activate_def Let_def split: if_splits option.splits)

lemma rollback_rows: "rollback now i runner tok fence ex rt s = Inr (u, s') \<Longrightarrow> rows_kept s s'"
  by (auto simp: rollback_def Let_def split: if_splits option.splits)

lemma step_rows:
  assumes "sys_step sha s s'" and "distinct (map sy_id (sysops s))"
  shows "rows_kept s s' \<or> (\<exists>r. row_added s r s') \<or> (\<exists>r r'. row_moved s r r' s') \<or> (\<exists>r r'. row_renewed s r r' s')"
  using assms(1)
proof cases
  case Submitted
  from submit_rows [OF this] show ?thesis by auto
qed (use assms(2) in \<open>blast dest: claim_rows renew_rows transition_rows cancel_rows retry_rows create_staging_rows activate_rows rollback_rows\<close>)+

subsection \<open>The invariant of the rows\<close>

definition history_rows :: "system \<Rightarrow> string \<Rightarrow> sys_event list" where
  "history_rows s i = filter (\<lambda>e. se_op e = i) (sys_events s)"

definition history_ok :: "sys_event list \<Rightarrow> sysop \<Rightarrow> bool" where
  "history_ok h r \<longleftrightarrow> h \<noteq> [] \<and> map se_seq h = [1..<Suc (length h)] \<and> map se_from h = None # map (\<lambda>e. Some (se_to e)) (butlast h) \<and>
     sorted (map se_fence h) \<and> tells (last h) r"

definition rows_ok :: "system \<Rightarrow> bool" where
  "rows_ok s \<longleftrightarrow> distinct (map sy_id (sysops s)) \<and> distinct (map sy_key (sysops s)) \<and>
     rowcount (\<lambda>r. maintenance (sy_state r)) (sysops s) \<le> 1 \<and>
     (\<forall>r \<in> set (sysops s). sys_row_ok r \<and> opt_ok (known_generation s) (sy_source r) \<and> opt_ok (known_generation s) (sy_target r))"

definition histories_ok :: "system \<Rightarrow> bool" where
  "histories_ok s \<longleftrightarrow> (\<forall>e \<in> set (sys_events s). \<exists>r \<in> set (sysops s). sy_id r = se_op e) \<and>
     (\<forall>r \<in> set (sysops s). history_ok (history_rows s (sy_id r)) r)"

lemma sysops_log [simp]: "sysops (log_event i ty src r cp er s) = sysops s"
  and generations_log [simp]: "generations (log_event i ty src r cp er s) = generations s"
  and runtime_log [simp]: "runtime (log_event i ty src r cp er s) = runtime s"
  and sysops_replaced [simp]: "sysops (replaced i r s) = upd (\<lambda>x. sy_id x = i) (\<lambda>_. r) (sysops s)"
  and sys_events_replaced [simp]: "sys_events (replaced i r s) = sys_events s"
  and generations_replaced [simp]: "generations (replaced i r s) = generations s"
  and runtime_replaced [simp]: "runtime (replaced i r s) = runtime s"
  and known_log [simp]: "known_generation (log_event i ty src r cp er s) g = known_generation s g"
  and known_replaced [simp]: "known_generation (replaced i r s) g = known_generation s g"
  by (simp_all add: log_event_def replaced_def known_generation_def)

lemma opt_ok_mono: "opt_ok P x \<Longrightarrow> (\<And>y. P y \<Longrightarrow> Q y) \<Longrightarrow> opt_ok Q x"
  by (cases x) (auto simp: opt_ok_def)

lemma upd_split:
  assumes "distinct (map k t)" and "r \<in> set t" and "k r = i"
  obtains xs ys where "t = xs @ r # ys" and "upd (\<lambda>x. k x = i) (\<lambda>_. r') t = xs @ r' # ys"
proof -
  obtain xs ys where t: "t = xs @ r # ys" using split_list [OF assms(2)] by blast
  then have "\<forall>x \<in> set xs \<union> set ys. k x \<noteq> i" using assms(1,3) by (auto simp: image_iff)
  then have "upd (\<lambda>x. k x = i) (\<lambda>_. r') t = xs @ r' # ys"
    unfolding t using assms(3) by (simp add: upd_def) (simp add: map_idI)
  with t show thesis by (rule that)
qed

lemma map_upd_same:
  assumes "distinct (map k t)" and "r \<in> set t" and "k r = i" and "k' r' = k' r"
  shows "map k' (upd (\<lambda>x. k x = i) (\<lambda>_. r') t) = map k' t"
  using assms(4) by (rule_tac r' = r' in upd_split [OF assms(1-3)]) simp

lemma rowcount_upd_le:
  assumes "distinct (map k t)" and "r \<in> set t" and "k r = i" and "P r' \<longrightarrow> P r"
  shows "rowcount P (upd (\<lambda>x. k x = i) (\<lambda>_. r') t) \<le> rowcount P t"
  using assms(4) by (rule_tac r' = r' in upd_split [OF assms(1-3)]) (simp add: rowcount_def)

lemma rows_ok_replaced:
  assumes "rows_ok s" and "sysop_of s (sy_id r) = Some r" and "row_change s r r'"
  shows "rows_ok (replaced (sy_id r) r' s)"
proof -
  have r: "r \<in> set (sysops s)" using sysop_ofD [OF assms(2)] by simp
  have d: "distinct (map sy_id (sysops s))" using assms(1) by (simp add: rows_ok_def)
  have "opt_ok (known_generation s) (sy_source r')" "opt_ok (known_generation s) (sy_target r')" "sys_row_ok r'"
    using assms(1,3) r by (auto simp: row_change_def rows_ok_def)
  moreover have "rowcount (\<lambda>r. maintenance (sy_state r)) (upd (\<lambda>x. sy_id x = sy_id r) (\<lambda>_. r') (sysops s)) \<le> 1"
    using rowcount_upd_le [OF d r refl, of "\<lambda>r. maintenance (sy_state r)" r'] assms(1,3) by (simp add: row_change_def rows_ok_def)
  ultimately show ?thesis
    using assms(1,3) map_upd_same [OF d r refl, of sy_id r'] map_upd_same [OF d r refl, of sy_key r']
    by (auto simp: rows_ok_def row_change_def set_upd opt_ok_def split: option.splits)
qed

lemma rows_ok_log [simp]: "rows_ok (log_event i ty src r cp er s) = rows_ok s"
  by (simp add: rows_ok_def known_generation_def opt_ok_def split: option.splits)

lemma rows_ok_added: "rows_ok s \<Longrightarrow> row_added s r s' \<Longrightarrow> rows_ok s'"
proof -
  assume ok: "rows_ok s" and add: "row_added s r s'"
  have "rowcount (\<lambda>r. maintenance (sy_state r)) (sysops s) = 0" using add by (auto simp: row_added_def rowcount_0_iff)
  then have "rowcount (\<lambda>r. maintenance (sy_state r)) (sysops s @ [r]) \<le> 1" by (simp add: rowcount_def)
  moreover have "known_generation (s\<lparr>sysops := sysops s @ [r]\<rparr>) = known_generation s" by (simp add: fun_eq_iff known_generation_def)
  ultimately have "rows_ok (s\<lparr>sysops := sysops s @ [r]\<rparr>)"
    using ok add by (auto simp: rows_ok_def row_added_def opt_ok_def split: option.splits)
  then show ?thesis using add by (simp add: row_added_def)
qed

lemma rows_ok_step: "sys_step sha s s' \<Longrightarrow> rows_ok s \<Longrightarrow> rows_ok s'"
proof -
  assume st: "sys_step sha s s'" and ok: "rows_ok s"
  then have "distinct (map sy_id (sysops s))" by (simp add: rows_ok_def)
  from step_rows [OF st this] show ?thesis
  proof (elim disjE exE)
    assume "rows_kept s s'"
    with ok show ?thesis by (auto simp: rows_kept_def rows_ok_def intro: opt_ok_mono)
  next
    fix r assume "row_added s r s'" with ok show ?thesis by (rule rows_ok_added)
  next
    fix r r' assume "row_moved s r r' s'"
    then show ?thesis using ok by (auto simp: row_moved_def intro: rows_ok_replaced)
  next
    fix r r' assume "row_renewed s r r' s'"
    then show ?thesis using ok by (auto simp: row_renewed_def intro: rows_ok_replaced)
  qed
qed

subsection \<open>The history of an operation\<close>

lemma next_seq_last:
  assumes "map se_seq (history_rows s i) = [1..<Suc n]"
  shows "next_seq s i = Suc n"
proof -
  have "fold max [1..<Suc n] 0 = n" by (induction n) simp_all
  then show ?thesis using assms unfolding next_seq_def history_rows_def by simp
qed

lemma history_log:
  "history_rows (log_event i ty src r cp er s) j = history_rows s j @
    (if i = j then [\<lparr>se_op = i, se_seq = next_seq s i, se_type = ty, se_from = src, se_to = sy_state r, se_fence = sy_fence r,
       se_attempts = sy_attempts r, se_done = sy_done r, se_total = sy_total r, se_checkpoint = cp, se_error = er\<rparr>] else [])"
  by (simp add: history_rows_def log_event_def)

lemma history_rows_cong: "sys_events s' = sys_events s \<Longrightarrow> history_rows s' j = history_rows s j"
  by (simp add: history_rows_def)

lemma history_rows_table [simp]: "history_rows (replaced i r s) j = history_rows s j" "history_rows (s\<lparr>sysops := rs\<rparr>) j = history_rows s j"
  by (simp_all add: history_rows_def replaced_def)

lemma next_seq_table [simp]: "next_seq (replaced i r s) j = next_seq s j" "next_seq (s\<lparr>sysops := rs\<rparr>) j = next_seq s j"
  by (simp_all add: next_seq_def replaced_def)

lemma history_ok_snoc:
  assumes "history_ok h r" and "sy_id r' = sy_id r" and "sy_fence r \<le> sy_fence r'" and "tells e r'" and "se_from e = Some (sy_state r)"
    and "se_seq e = Suc (length h)"
  shows "history_ok (h @ [e]) r'"
proof -
  have h: "h = butlast h @ [last h]" and l: "tells (last h) r" using assms(1) by (simp_all add: history_ok_def)
  have "sorted (map se_fence (butlast h) @ [sy_fence r])"
    using assms(1) l h unfolding history_ok_def tells_def by (metis (no_types, lifting) list.map map_append)
  then have "sorted (map se_fence (butlast h) @ [sy_fence r, sy_fence r'])" using assms(3) by (auto simp: sorted_append)
  then have "sorted (map se_fence (h @ [e]))"
    using l assms(4) unfolding tells_def by (subst h) simp
  moreover have "map (\<lambda>e. Some (se_to e)) h = map (\<lambda>e. Some (se_to e)) (butlast h) @ [Some (sy_state r)]"
    using l unfolding tells_def by (subst h) simp
  ultimately show ?thesis using assms by (simp add: history_ok_def)
qed

lemma histories_ok_moved:
  assumes "rows_ok s" and ok: "histories_ok s" and "row_moved s r r' s'"
  shows "histories_ok s'"
proof -
  obtain ty cp er where r: "sysop_of s (sy_id r) = Some r" and ch: "row_change s r r'"
    and s': "s' = log_event (sy_id r) ty (Some (sy_state r)) r' cp er (replaced (sy_id r) r' s)"
    using assms(3) by (auto simp: row_moved_def)
  have d: "distinct (map sy_id (sysops s))" and m: "r \<in> set (sysops s)" and i: "sy_id r' = sy_id r"
    using assms(1) sysop_ofD [OF r] ch by (auto simp: rows_ok_def row_change_def)
  obtain xs ys where t: "sysops s = xs @ r # ys" "sysops s' = xs @ r' # ys"
    using upd_split [OF d m refl, of r'] by (auto simp: s')
  have h: "history_ok (history_rows s (sy_id r)) r" using ok m by (simp add: histories_ok_def)
  then have n: "next_seq s (sy_id r) = Suc (length (history_rows s (sy_id r)))" by (intro next_seq_last) (simp add: history_ok_def)
  let ?e = "\<lparr>se_op = sy_id r, se_seq = next_seq s (sy_id r), se_type = ty, se_from = Some (sy_state r), se_to = sy_state r',
    se_fence = sy_fence r', se_attempts = sy_attempts r', se_done = sy_done r', se_total = sy_total r', se_checkpoint = cp, se_error = er\<rparr>"
  have hist: "history_rows s' j = history_rows s j @ (if sy_id r = j then [?e] else [])" for j
    unfolding s' history_log by simp
  have new: "history_ok (history_rows s (sy_id r) @ [?e]) r'"
    using ch n by (intro history_ok_snoc [OF h i]) (auto simp: row_change_def tells_def)
  have "history_ok (history_rows s' (sy_id x)) x" if "x \<in> set (sysops s')" for x
  proof (cases "x = r'")
    case True
    then show ?thesis using new i hist by simp
  next
    case False
    then have "x \<in> set xs \<union> set ys" using that t by auto
    then have "sy_id x \<noteq> sy_id r" "x \<in> set (sysops s)" using d t by (auto simp: image_iff)
    then show ?thesis using ok hist by (simp add: histories_ok_def)
  qed
  moreover have "\<exists>x \<in> set (sysops s'). sy_id x = se_op e" if "e \<in> set (sys_events s')" for e
  proof -
    have "se_op e = sy_id r \<or> (\<exists>x \<in> set (sysops s). sy_id x = se_op e)"
      using that ok by (auto simp: s' log_event_def histories_ok_def)
    then show ?thesis using t i by auto
  qed
  ultimately show ?thesis by (auto simp: histories_ok_def)
qed

lemma histories_ok_added:
  assumes ok: "histories_ok s" and "row_added s r s'"
  shows "histories_ok s'"
proof -
  let ?s = "s\<lparr>sysops := sysops s @ [r]\<rparr>"
  have s': "s' = log_event (sy_id r) SUBMITTED None r None None ?s" and new: "\<forall>x \<in> set (sysops s). sy_id x \<noteq> sy_id r"
    using assms(2) by (auto simp: row_added_def)
  have e: "history_rows s (sy_id r) = []" using ok new by (fastforce simp: history_rows_def filter_empty_conv histories_ok_def)
  have n: "next_seq s (sy_id r) = 1" using next_seq_last [of s "sy_id r" 0] e by simp
  have hist: "history_rows s' j = history_rows s j @ (if sy_id r = j then [\<lparr>se_op = sy_id r, se_seq = 1, se_type = SUBMITTED, se_from = None,
      se_to = sy_state r, se_fence = sy_fence r, se_attempts = sy_attempts r, se_done = sy_done r, se_total = sy_total r,
      se_checkpoint = None, se_error = None\<rparr>] else [])" for j
    unfolding s' history_log using n by auto
  have "history_ok (history_rows s' (sy_id x)) x" if "x \<in> set (sysops s')" for x
  proof -
    have "x \<in> set (sysops s) \<or> x = r" using that by (auto simp: s')
    then show ?thesis using ok new e by (auto simp: hist histories_ok_def history_ok_def [of "[_]"] tells_def)
  qed
  moreover have "\<exists>x \<in> set (sysops s'). sy_id x = se_op e" if "e \<in> set (sys_events s')" for e
    using that ok by (auto simp: s' log_event_def histories_ok_def)
  ultimately show ?thesis by (auto simp: histories_ok_def)
qed

lemma histories_ok_renewed:
  assumes "rows_ok s" and ok: "histories_ok s" and "row_renewed s r r' s'"
  shows "histories_ok s'"
proof -
  have r: "sysop_of s (sy_id r) = Some r" and i: "sy_id r' = sy_id r" and te: "\<And>e. tells e r' = tells e r" and s': "s' = replaced (sy_id r) r' s"
    using assms(3) by (auto simp: row_renewed_def row_change_def)
  have d: "distinct (map sy_id (sysops s))" and m: "r \<in> set (sysops s)" using assms(1) sysop_ofD [OF r] by (auto simp: rows_ok_def)
  have "history_ok (history_rows s' (sy_id x)) x" if "x \<in> set (sysops s')" for x
  proof -
    have "\<exists>y \<in> set (sysops s). sy_id x = sy_id y \<and> (\<forall>e. tells e x = tells e y)"
      using that m i te by (auto simp: s' set_upd)
    then show ?thesis using ok by (auto simp: s' histories_ok_def history_ok_def)
  qed
  moreover have "\<exists>x \<in> set (sysops s'). sy_id x = se_op e" if "e \<in> set (sys_events s')" for e
  proof -
    have "se_op e \<in> set (map sy_id (sysops s))" using that ok unfolding histories_ok_def by (auto simp: s' image_iff) metis
    also have "map sy_id (sysops s) = map sy_id (sysops s')" unfolding s' using map_upd_same [OF d m refl, of sy_id r'] i by simp
    finally show ?thesis by auto
  qed
  ultimately show ?thesis by (simp add: histories_ok_def)
qed

lemma histories_ok_step: "sys_step sha s s' \<Longrightarrow> rows_ok s \<Longrightarrow> histories_ok s \<Longrightarrow> histories_ok s'"
proof -
  assume st: "sys_step sha s s'" and ok: "rows_ok s" "histories_ok s"
  then have "distinct (map sy_id (sysops s))" by (simp add: rows_ok_def)
  from step_rows [OF st this] show ?thesis
  proof (elim disjE exE)
    assume "rows_kept s s'"
    with ok(2) show ?thesis by (auto simp: rows_kept_def histories_ok_def history_rows_def)
  qed (blast intro: ok histories_ok_added histories_ok_moved histories_ok_renewed)+
qed

lemma migrated_rows: "rows_ok migrated" "histories_ok migrated"
  by (simp_all add: migrated_def rows_ok_def histories_ok_def)

lemma rows_ok_reachable: "(sys_step sha)\<^sup>*\<^sup>* migrated s \<Longrightarrow> rows_ok s \<and> histories_ok s"
  by (induction rule: rtranclp_induct) (auto intro: migrated_rows rows_ok_step histories_ok_step)

text \<open>
  C16. In every reachable store the operations have distinct identifiers and idempotency keys, at most one is in a
  maintenance state, and each row is one the code means to write: a SHA-256 payload hash, progress between zero and
  the total and complete from VERIFYING on, a lease exactly while executing, one attempt per fencing token, and
  references to generations that exist.
\<close>

theorem operation_rows_are_typed:
  assumes "(sys_step sha)\<^sup>*\<^sup>* migrated s"
  shows "distinct (map sy_id (sysops s)) \<and> distinct (map sy_key (sysops s)) \<and>
    rowcount (\<lambda>r. maintenance (sy_state r)) (sysops s) \<le> 1 \<and>
    (\<forall>r \<in> set (sysops s). sys_row_ok r \<and> opt_ok (known_generation s) (sy_source r) \<and> opt_ok (known_generation s) (sy_target r))"
  using rows_ok_reachable [OF assms] by (simp add: rows_ok_def)

text \<open>
  The append-only events of an operation are numbered from one without a gap, each starts in the state
  the one before ended in, their fencing tokens never fall, and the last one repeats the state,
  fence, attempts and progress of the row.
\<close>

lemma history_tells_the_row:
  assumes "(sys_step sha)\<^sup>*\<^sup>* migrated s" and "r \<in> set (sysops s)"
  shows "history_ok (history_rows s (sy_id r)) r"
  using rows_ok_reachable [OF assms(1)] assms(2) by (simp add: histories_ok_def)

subsection \<open>Fencing\<close>

lemma sysop_replaced:
  assumes "sysop_of s i = Some r" and "sy_id r' = sy_id r0" and "sy_fence r0 \<le> sy_fence r'" and "sysop_of s (sy_id r0) = Some r0"
  shows "\<exists>x. sysop_of (replaced (sy_id r0) r' s) i = Some x \<and> sy_fence r \<le> sy_fence x"
proof (cases "i = sy_id r0")
  case True
  have "find (\<lambda>x. sy_id x = i) (upd (\<lambda>x. sy_id x = i) (\<lambda>_. r') rs) = Some r'" if "find (\<lambda>x. sy_id x = i) rs = Some r0" for rs
    using that assms(2) True by (induction rs) (auto split: if_splits)
  then show ?thesis using True assms by (auto simp: sysop_of_def)
next
  case False
  have "find (\<lambda>x. sy_id x = i) (upd (\<lambda>x. sy_id x = sy_id r0) (\<lambda>_. r') rs) = find (\<lambda>x. sy_id x = i) rs" for rs
    using assms(2) False by (induction rs) auto
  then show ?thesis using assms(1) by (auto simp: sysop_of_def)
qed

lemma sysop_of_log [simp]: "sysop_of (log_event i ty src r cp er s) j = sysop_of s j"
  by (simp add: sysop_of_def)

lemma fence_grows:
  assumes "sys_step sha s s'" and "rows_ok s" and r: "sysop_of s i = Some r"
  shows "\<exists>x. sysop_of s' i = Some x \<and> sy_fence r \<le> sy_fence x"
proof -
  have "distinct (map sy_id (sysops s))" using assms(2) by (simp add: rows_ok_def)
  from step_rows [OF assms(1) this] show ?thesis
  proof (elim disjE exE)
    assume "rows_kept s s'"
    with r show ?thesis by (auto simp: rows_kept_def sysop_of_def)
  next
    fix n assume "row_added s n s'"
    with r show ?thesis by (auto simp: row_added_def sysop_of_def find_append)
  next
    fix r0 r' assume "row_moved s r0 r' s'"
    with sysop_replaced [OF r, of r' r0] show ?thesis by (auto simp: row_moved_def row_change_def)
  next
    fix r0 r' assume "row_renewed s r0 r' s'"
    with sysop_replaced [OF r, of r' r0] show ?thesis by (auto simp: row_renewed_def row_change_def)
  qed
qed

lemma fence_grows_reachable:
  assumes "(sys_step sha)\<^sup>*\<^sup>* s s'" and "rows_ok s" and "sysop_of s i = Some r"
  shows "rows_ok s' \<and> (\<exists>x. sysop_of s' i = Some x \<and> sy_fence r \<le> sy_fence x)"
  using assms
proof (induction rule: rtranclp_induct)
  case (step s' s'')
  then obtain x where "rows_ok s'" "sysop_of s' i = Some x" "sy_fence r \<le> sy_fence x" by blast
  with fence_grows [OF step(2)] rows_ok_step [OF step(2)] show ?case by (meson order_trans)
qed auto

text \<open>
  C15. Once an operation has been claimed with a larger fencing token, a runner that still holds an older one can, in
  every later store and at any time, neither renew its lease, move the operation, stage a generation, activate one
  nor roll one back.
\<close>

theorem stale_runner_is_fenced:
  assumes "(sys_step sha)\<^sup>*\<^sup>* migrated s" and "sysop_of s i = Some r" and "fence < sy_fence r" and "(sys_step sha)\<^sup>*\<^sup>* s s'"
  shows "renew_op now i runner tok fence n s' \<in> {Inl Value_Error, Inl State_Error, Inl Fenced} \<and>
    transition_op sha now i st runner tok fence p s' \<in> {Inl Value_Error, Inl Fenced} \<and>
    create_staging now i g runner tok fence mh pm s' \<in> {Inl Value_Error, Inl Gen_Fenced} \<and>
    activate now g i runner tok fence ex rt s' \<in> {Inl Value_Error, Inl Gen_Fenced} \<and>
    rollback now i runner tok fence ex rt s' \<in> {Inl Value_Error, Inl Gen_Fenced}"
proof -
  obtain x where "sysop_of s' i = Some x" "sy_fence r \<le> sy_fence x"
    using fence_grows_reachable [OF assms(4) _ assms(2)] rows_ok_reachable [OF assms(1)] by blast
  with assms(3) show ?thesis
    by (simp add: renew_op_def transition_op_def create_staging_def activate_def rollback_def operation_fenced_def fence_ok_def Let_def)
qed

end
