(* ===== verification/Generation_Properties.thy ===== *)
theory Generation_Properties imports Rebuild_Properties begin

text \<open>
  The generation in use: exactly one generation is ACTIVE, it is the one \<open>projection_runtime\<close> points at, and
  the pointer moves only under an operation that has replayed everything. The last section runs one rebuild
  through every step.
\<close>

subsection \<open>A rebuild from submission to cutover\<close>

definition after :: "(system \<Rightarrow> sys_error + ('a \<times> system)) \<Rightarrow> system \<Rightarrow> system" where
  "after f s = (case f s of Inl _ \<Rightarrow> s | Inr (_, s') \<Rightarrow> s')"

definition no_progress :: progress where
  "no_progress = \<lparr>pr_done = None, pr_total = None, pr_checkpoint = None, pr_manifest_hash = None, pr_manifest = None, pr_source = None,
     pr_target = None, pr_error_class = None, pr_error_code = None\<rparr>"

definition sample_digest :: string where
  "sample_digest = replicate 64 CHR ''a''"

definition submitted_store :: system where
  "submitted_store = after (submit ''op'' ''admin'' ''key'' sample_digest) migrated"

definition claimed_store :: system where
  "claimed_store = after (claim_op 0 ''t1'' ''op'' ''a'' 60) submitted_store"

definition reclaimed_store :: system where
  "reclaimed_store = after (claim_op 60 ''t2'' ''op'' ''b'' 60) claimed_store"

definition running_store :: system where
  "running_store = after (transition_op id 61 ''op'' RUNNING ''b'' ''t2'' 2 (no_progress\<lparr>pr_source := Some ''legacy''\<rparr>)) reclaimed_store"

definition staged_store :: system where
  "staged_store = after (create_staging 62 ''op'' ''g'' ''b'' ''t2'' 2 None ''{}'') running_store"

definition verifying_store :: system where
  "verifying_store = after (transition_op id 63 ''op'' VERIFYING ''b'' ''t2'' 2 (no_progress\<lparr>pr_target := Some ''g'', pr_done := Some 7, pr_total := Some 7\<rparr>)) staged_store"

definition ready_store :: system where
  "ready_store = after (transition_op id 64 ''op'' READY_TO_CUTOVER ''b'' ''t2'' 2 no_progress) verifying_store"

definition cut_over_store :: system where
  "cut_over_store = after (activate 65 ''g'' ''op'' ''b'' ''t2'' 2 ''legacy'' 0) ready_store"

definition rolled_back_store :: system where
  "rolled_back_store = after (rollback 66 ''op'' ''b'' ''t2'' 2 ''g'' 1) cut_over_store"

text \<open>The one row of the operation after each of its steps.\<close>

definition sample_row :: sysop where
  "sample_row = \<lparr>sy_id = ''op'', sy_principal = ''admin'', sy_key = ''key'', sy_hash = sample_digest, sy_state = PENDING,
     sy_by = None, sy_token = None, sy_fence = 0, sy_lease = None, sy_attempts = 0, sy_limit = 3, sy_done = 0, sy_total = 0,
     sy_checkpoint = ''{}'', sy_manifest_hash = None, sy_manifest = ''{}'', sy_source = None, sy_target = None,
     sy_error_class = None, sy_error_code = None\<rparr>"

definition reclaimed_row :: sysop where
  "reclaimed_row = sample_row\<lparr>sy_state := CLAIMED, sy_by := Some ''b'', sy_token := Some ''t2'', sy_fence := 2, sy_attempts := 2, sy_lease := Some 120\<rparr>"

definition staged_generation :: generation where
  "staged_generation = \<lparr>ge_id = ''g'', ge_state = STAGING, ge_vector = vector_path ''g'', ge_graph = graph_path ''g'', ge_manifest_hash = None,
     ge_provider = ''{}'', ge_created_by = Some ''op''\<rparr>"

lemma after_Inr: "f s = Inr (x, s') \<Longrightarrow> after f s = s'"
  by (simp add: after_def)

lemma sample_digest_ok: "map lower_char sample_digest = sample_digest" "hash_ok sample_digest"
  by (simp_all add: sample_digest_def lower_char_def hash_ok_def is_hex_def list_all_iff)

lemma bounded_sample [simp]: "bounded ''op''" "bounded ''admin''" "bounded ''key''" "bounded ''a''" "bounded ''b''" "bounded ''t1''" "bounded ''t2''"
    "bounded ''g''" "bounded ''legacy''"
  by (simp_all add: bounded_def)

lemma identifier_sample [simp]: "identifier_ok ''g''" "identifier_ok ''b''" "identifier_ok ''legacy''"
  by (simp_all add: identifier_ok_def alnum_def)

lemma submitted_step: "\<exists>x. submit ''op'' ''admin'' ''key'' sample_digest migrated = Inr (x, submitted_store)"
  and submitted_parts: "sysops submitted_store = [sample_row]" "generations submitted_store = generations migrated" "runtime submitted_store = runtime migrated"
  unfolding submitted_store_def after_def
  by (simp_all add: submit_def migrated_def sample_digest_ok sample_row_def Let_def)

lemma claim_parts:
  assumes "sysops s = [r]" and "sy_id r = i" and "sy_state r = PENDING \<or> executing (sy_state r) \<and> \<not> lease_valid now r"
    and "bounded i" and "bounded runner" and "1 \<le> n" and "n \<le> 3600"
  shows "sysops (after (claim_op now tok i runner n) s) = [claimed now tok runner n r] \<and>
    generations (after (claim_op now tok i runner n) s) = generations s \<and> runtime (after (claim_op now tok i runner n) s) = runtime s \<and>
    (\<exists>x. claim_op now tok i runner n s = Inr (x, after (claim_op now tok i runner n) s))"
  using assms by (simp add: after_def claim_op_def sysop_of_def update_op_def Let_def)

lemma transition_parts:
  assumes "sysops s = [r]" and "sy_id r = i" and "fence_ok now runner tok fence r" and "transition_allowed r st p" and "progress_ok p"
    and "bounded i" and "bounded runner" and "bounded tok" and "opt_ok (known_generation s) (pr_source p)" and "opt_ok (known_generation s) (pr_target p)"
  shows "sysops (after (transition_op sha now i st runner tok fence p) s) = [moved r st p] \<and>
    generations (after (transition_op sha now i st runner tok fence p) s) = generations s \<and>
    runtime (after (transition_op sha now i st runner tok fence p) s) = runtime s \<and>
    (\<exists>x. transition_op sha now i st runner tok fence p s = Inr (x, after (transition_op sha now i st runner tok fence p) s))"
  using assms by (simp add: after_def transition_op_def sysop_of_def update_op_def Let_def)

lemmas sample_facts = sample_row_def fence_ok_def lease_valid_def transition_allowed_def moved_def or_else_def no_progress_def progress_ok_def
  opt_ok_def released_state_def failed_state_def executing_def known_generation_def migrated_def

lemma claimed_step: "\<exists>x. claim_op 0 ''t1'' ''op'' ''a'' 60 submitted_store = Inr (x, claimed_store)"
  and claimed_parts: "sysops claimed_store = [claimed 0 ''t1'' ''a'' 60 sample_row]" "generations claimed_store = generations migrated"
    "runtime claimed_store = runtime migrated"
  using claim_parts [OF submitted_parts(1), of "''op''" 0 "''a''" 60 "''t1''"] submitted_parts unfolding claimed_store_def
  by (simp_all add: sample_row_def)

lemma reclaimed_step: "\<exists>x. claim_op 60 ''t2'' ''op'' ''b'' 60 claimed_store = Inr (x, reclaimed_store)"
  and reclaimed_parts: "sysops reclaimed_store = [reclaimed_row]" "generations reclaimed_store = generations migrated"
    "runtime reclaimed_store = runtime migrated"
  using claim_parts [OF claimed_parts(1), of "''op''" 60 "''b''" 60 "''t2''"] claimed_parts unfolding reclaimed_store_def
  by (simp_all add: sample_row_def claimed_def executing_def lease_valid_def reclaimed_row_def)

definition running_row :: sysop where
  "running_row = reclaimed_row\<lparr>sy_state := RUNNING, sy_source := Some ''legacy''\<rparr>"

definition ready_row :: sysop where
  "ready_row = running_row\<lparr>sy_state := READY_TO_CUTOVER, sy_done := 7, sy_total := 7, sy_target := Some ''g''\<rparr>"

lemma running_step: "\<exists>x. transition_op id 61 ''op'' RUNNING ''b'' ''t2'' 2 (no_progress\<lparr>pr_source := Some ''legacy''\<rparr>) reclaimed_store = Inr (x, running_store)"
  and running_parts: "sysops running_store = [running_row]" "generations running_store = generations migrated"
    "runtime running_store = runtime migrated"
  using transition_parts [OF reclaimed_parts(1), of "''op''" 61 "''b''" "''t2''" 2 RUNNING "no_progress\<lparr>pr_source := Some ''legacy''\<rparr>" id] reclaimed_parts
  unfolding running_store_def by (simp_all add: reclaimed_row_def running_row_def sample_facts)

lemma staged_step: "create_staging 62 ''op'' ''g'' ''b'' ''t2'' 2 None ''{}'' running_store = Inr (staged_generation, staged_store)"
  and staged_parts: "sysops staged_store = [running_row]" "generations staged_store = generations migrated @ [staged_generation]"
    "runtime staged_store = runtime migrated"
  unfolding staged_store_def after_def
  by (simp_all add: create_staging_def running_parts sysop_of_def generation_of_def operation_fenced_def staged_generation_def
    reclaimed_row_def running_row_def sample_facts Let_def vector_path_def graph_path_def)

definition verifying_row :: sysop where
  "verifying_row = ready_row\<lparr>sy_state := VERIFYING\<rparr>"

lemma verifying_step: "\<exists>x. transition_op id 63 ''op'' VERIFYING ''b'' ''t2'' 2
      (no_progress\<lparr>pr_target := Some ''g'', pr_done := Some 7, pr_total := Some 7\<rparr>) staged_store = Inr (x, verifying_store)"
  and verifying_parts: "sysops verifying_store = [verifying_row]" "generations verifying_store = generations staged_store"
    "runtime verifying_store = runtime migrated"
  using transition_parts [OF staged_parts(1), of "''op''" 63 "''b''" "''t2''" 2 VERIFYING
      "no_progress\<lparr>pr_target := Some ''g'', pr_done := Some 7, pr_total := Some 7\<rparr>" id] staged_parts
  unfolding verifying_store_def
  by (simp_all add: reclaimed_row_def running_row_def ready_row_def verifying_row_def staged_generation_def sample_facts)

lemma ready_step: "\<exists>x. transition_op id 64 ''op'' READY_TO_CUTOVER ''b'' ''t2'' 2 no_progress verifying_store = Inr (x, ready_store)"
  and ready_parts: "sysops ready_store = [ready_row]" "generations ready_store = generations staged_store" "runtime ready_store = runtime migrated"
  using transition_parts [OF verifying_parts(1), of "''op''" 64 "''b''" "''t2''" 2 READY_TO_CUTOVER no_progress id] verifying_parts
  unfolding ready_store_def
  by (simp_all add: reclaimed_row_def running_row_def ready_row_def verifying_row_def sample_facts)

lemma cut_over_step: "activate 65 ''g'' ''op'' ''b'' ''t2'' 2 ''legacy'' 0 ready_store
      = Inr (\<lparr>ru_active = ''g'', ru_previous = Some ''legacy'', ru_fence = 1\<rparr>, cut_over_store)"
  and cut_over_parts: "runtime cut_over_store = Some \<lparr>ru_active = ''g'', ru_previous = Some ''legacy'', ru_fence = 1\<rparr>"
  unfolding cut_over_store_def after_def
  by (simp_all add: activate_def ready_parts sysop_of_def operation_fenced_def ready_row_def running_row_def reclaimed_row_def
    gen_state_is_def generation_of_def staged_parts staged_generation_def sample_facts Let_def)

lemma rebuild_reachable:
  shows claimed_reachable: "(sys_step id)\<^sup>*\<^sup>* migrated claimed_store"
    and reclaimed_reachable: "(sys_step id)\<^sup>*\<^sup>* migrated reclaimed_store"
    and ready_reachable: "(sys_step id)\<^sup>*\<^sup>* migrated ready_store"
    and cut_over_reachable: "(sys_step id)\<^sup>*\<^sup>* migrated cut_over_store"
proof -
  have 1: "sys_step id migrated submitted_store" using submitted_step by (blast intro: sys_step.intros)
  have 2: "sys_step id submitted_store claimed_store" using claimed_step by (blast intro: sys_step.intros)
  have 3: "sys_step id claimed_store reclaimed_store" using reclaimed_step by (blast intro: sys_step.intros)
  have 4: "sys_step id reclaimed_store running_store" using running_step by (blast intro: sys_step.intros)
  have 5: "sys_step id running_store staged_store" using staged_step by (blast intro: sys_step.intros)
  have 6: "sys_step id staged_store verifying_store" using verifying_step by (blast intro: sys_step.intros)
  have 7: "sys_step id verifying_store ready_store" using ready_step by (blast intro: sys_step.intros)
  have 8: "sys_step id ready_store cut_over_store" using cut_over_step by (blast intro: sys_step.intros)
  note into = rtranclp.rtrancl_into_rtrancl [of "sys_step id"]
  show c: "(sys_step id)\<^sup>*\<^sup>* migrated claimed_store" by (rule into [OF into [OF rtranclp.rtrancl_refl 1] 2])
  then show r: "(sys_step id)\<^sup>*\<^sup>* migrated reclaimed_store" using 3 by (rule into)
  then show d: "(sys_step id)\<^sup>*\<^sup>* migrated ready_store" by (rule into [OF into [OF into [OF into [OF _ 4] 5] 6] 7])
  then show "(sys_step id)\<^sup>*\<^sup>* migrated cut_over_store" using 8 by (rule into)
qed

subsection \<open>The generation in use\<close>

definition gen_states :: "system \<Rightarrow> string \<Rightarrow> gen_state option" where
  "gen_states s g = map_option ge_state (generation_of s g)"

definition gens_ok :: "system \<Rightarrow> bool" where
  "gens_ok s \<longleftrightarrow> distinct (map ge_id (generations s)) \<and>
     (\<exists>u. runtime s = Some u \<and> (\<forall>g. gen_states s g = Some ACTIVE \<longleftrightarrow> g = ru_active u) \<and>
       (\<forall>p. ru_previous u = Some p \<longrightarrow> gen_states s p = Some RETAINED))"

lemma gen_states_set:
  "gen_states (set_gen_state g a b s) = (if gen_states s g = Some a then (gen_states s)(g \<mapsto> b) else gen_states s)"
proof -
  have "gen_states (set_gen_state g a b s) h = (if h = g \<and> gen_states s g = Some a then Some b else gen_states s h)" for h
  proof (cases "generation_of s h")
    case None
    then show ?thesis by (auto simp: gen_states_def generation_of_def set_gen_state_def find_upd_key)
  next
    case (Some x)
    then have "ge_id x = h" by (auto simp: generation_of_def dest: find_SomeD)
    with Some show ?thesis by (auto simp: gen_states_def generation_of_def set_gen_state_def find_upd_key)
  qed
  then show ?thesis by (auto simp: fun_eq_iff)
qed

lemma gen_states_append: "generation_of s (ge_id x) = None \<Longrightarrow> gen_states (s\<lparr>generations := generations s @ [x]\<rparr>) = (gen_states s)(ge_id x \<mapsto> ge_state x)"
  by (auto simp: fun_eq_iff gen_states_def generation_of_def find_append split: option.splits)

lemma gen_states_runtime [simp]: "gen_states (s\<lparr>runtime := u\<rparr>) = gen_states s"
  by (simp add: fun_eq_iff gen_states_def generation_of_def)

lemma gens_ok_cong: "generations s' = generations s \<Longrightarrow> runtime s' = runtime s \<Longrightarrow> gens_ok s' = gens_ok s"
  by (simp add: gens_ok_def gen_states_def generation_of_def)

lemma gens_ok_rows:
  assumes "(\<exists>r. row_added s r s') \<or> (\<exists>r r'. row_moved s r r' s') \<or> (\<exists>r r'. row_renewed s r r' s')"
  shows "generations s' = generations s" and "runtime s' = runtime s"
  using assms by (auto simp: row_added_def row_moved_def row_renewed_def)

lemma gens_ok_staging:
  assumes "create_staging now i g runner tok fence mh pm s = Inr (x, s')" and ok: "gens_ok s"
  shows "gens_ok s' \<and> runtime s' = runtime s"
proof (cases "generation_of s g")
  case None
  then have "s' = s\<lparr>generations := generations s @ [x]\<rparr>" "ge_id x = g" "ge_state x = STAGING"
    using assms(1) by (auto simp: create_staging_def Let_def split: if_splits option.splits)
  moreover have "g \<notin> ge_id ` set (generations s)" using None by (auto simp: generation_of_def find_None_iff)
  moreover obtain u where "runtime s = Some u" "\<And>h. gen_states s h = Some ACTIVE \<longleftrightarrow> h = ru_active u"
    using ok by (auto simp: gens_ok_def)
  moreover have "gen_states s g = None" using None by (simp add: gen_states_def)
  moreover from calculation have "g \<noteq> ru_active u" by (metis option.distinct(1))
  ultimately show ?thesis using ok gen_states_append [of s x] None by (auto simp: gens_ok_def)
next
  case (Some y)
  then have "s' = s \<or> s' = set_gen_state g GEN_FAILED STAGING s"
    using assms(1) by (auto simp: create_staging_def Let_def split: if_splits option.splits)
  moreover obtain u where u: "runtime s = Some u" "gen_states s (ru_active u) = Some ACTIVE" using ok by (auto simp: gens_ok_def)
  moreover have "gens_ok (set_gen_state g GEN_FAILED STAGING s)"
  proof (cases "gen_states s g = Some GEN_FAILED")
    case True
    then have "g \<noteq> ru_active u" using u by auto
    then show ?thesis using ok True u by (auto simp: gens_ok_def gen_states_set)
  next
    case False
    then show ?thesis using ok by (auto simp: gens_ok_def gen_states_set)
  qed
  ultimately show ?thesis using ok by auto
qed

lemma activate_change:
  assumes "activate now g i runner tok fence ex rt s = Inr (u', s')"
  obtains r u where "sysop_of s i = Some r" and "sy_state r = READY_TO_CUTOVER" and "fence_ok now runner tok fence r"
    and "sy_target r = Some g" and "runtime s = Some u" and "gen_states s (ru_active u) = Some ACTIVE" and "gen_states s g = Some STAGING"
    and "u' = \<lparr>ru_active = g, ru_previous = Some (ru_active u), ru_fence = ru_fence u + 1\<rparr>"
    and "s' = (set_gen_state g STAGING ACTIVE (set_gen_state (ru_active u) ACTIVE RETAINED s))\<lparr>runtime := Some u'\<rparr>"
  using assms by (auto simp: activate_def operation_fenced_def gen_state_is_def gen_states_def Let_def split: if_splits option.splits)

lemma rollback_change:
  assumes "rollback now i runner tok fence ex rt s = Inr (u', s')"
  obtains r u p where "sysop_of s i = Some r" and "sy_state r = READY_TO_CUTOVER" and "fence_ok now runner tok fence r"
    and "sy_target r = Some (ru_active u)" and "runtime s = Some u" and "ru_previous u = Some p"
    and "gen_states s (ru_active u) = Some ACTIVE" and "gen_states s p = Some RETAINED"
    and "u' = \<lparr>ru_active = p, ru_previous = None, ru_fence = ru_fence u + 1\<rparr>"
    and "s' = (set_gen_state p RETAINED ACTIVE (set_gen_state (ru_active u) ACTIVE GEN_FAILED s))\<lparr>runtime := Some u'\<rparr>"
  using assms by (auto simp: rollback_def operation_fenced_def gen_state_is_def gen_states_def Let_def split: if_splits option.splits)

lemma ids_set_gen: "map ge_id (generations ((set_gen_state g a b (set_gen_state h c d s))\<lparr>runtime := u\<rparr>)) = map ge_id (generations s)"
  using ge_ids_set [of g a b "set_gen_state h c d s"] ge_ids_set [of h c d s] by simp

lemma gens_ok_activate:
  assumes "activate now g i runner tok fence ex rt s = Inr (u', s')" and ok: "gens_ok s"
  shows "gens_ok s'"
  using assms(1)
proof (rule activate_change)
  fix r u
  assume u: "runtime s = Some u" and st: "gen_states s (ru_active u) = Some ACTIVE" "gen_states s g = Some STAGING"
    and u': "u' = \<lparr>ru_active = g, ru_previous = Some (ru_active u), ru_fence = ru_fence u + 1\<rparr>"
    and s': "s' = (set_gen_state g STAGING ACTIVE (set_gen_state (ru_active u) ACTIVE RETAINED s))\<lparr>runtime := Some u'\<rparr>"
  have ne: "g \<noteq> ru_active u" using st by auto
  then have states: "gen_states s' = (gen_states s)(ru_active u \<mapsto> RETAINED, g \<mapsto> ACTIVE)"
    using st by (simp add: s' gen_states_set)
  have act: "\<And>h. gen_states s h = Some ACTIVE \<longleftrightarrow> h = ru_active u" and d: "distinct (map ge_id (generations s))"
    using ok u by (auto simp: gens_ok_def)
  have "distinct (map ge_id (generations s'))" unfolding s' ids_set_gen by (rule d)
  moreover have "runtime s' = Some u'" by (simp add: s')
  ultimately show ?thesis using ne act states by (simp add: gens_ok_def u')
qed

lemma gens_ok_rollback:
  assumes "rollback now i runner tok fence ex rt s = Inr (u', s')" and ok: "gens_ok s"
  shows "gens_ok s'"
  using assms(1)
proof (rule rollback_change)
  fix r u p
  assume u: "runtime s = Some u" and st: "gen_states s (ru_active u) = Some ACTIVE" "gen_states s p = Some RETAINED"
    and u': "u' = \<lparr>ru_active = p, ru_previous = None, ru_fence = ru_fence u + 1\<rparr>"
    and s': "s' = (set_gen_state p RETAINED ACTIVE (set_gen_state (ru_active u) ACTIVE GEN_FAILED s))\<lparr>runtime := Some u'\<rparr>"
  have ne: "p \<noteq> ru_active u" using st by auto
  then have states: "gen_states s' = (gen_states s)(ru_active u \<mapsto> GEN_FAILED, p \<mapsto> ACTIVE)"
    using st by (simp add: s' gen_states_set)
  have act: "\<And>h. gen_states s h = Some ACTIVE \<longleftrightarrow> h = ru_active u" and d: "distinct (map ge_id (generations s))"
    using ok u by (auto simp: gens_ok_def)
  have "distinct (map ge_id (generations s'))" unfolding s' ids_set_gen by (rule d)
  moreover have "runtime s' = Some u'" by (simp add: s')
  ultimately show ?thesis using ne act states by (simp add: gens_ok_def u')
qed

lemma step_runtime:
  assumes "sys_step sha s s'" and "rows_ok s"
  obtains (kept) "generations s' = generations s" and "runtime s' = runtime s"
    | (staged) now i g runner tok fence mh pm x where "create_staging now i g runner tok fence mh pm s = Inr (x, s')"
    | (activated) now g i runner tok fence ex rt u where "activate now g i runner tok fence ex rt s = Inr (u, s')"
    | (rolled_back) now i runner tok fence ex rt u where "rollback now i runner tok fence ex rt s = Inr (u, s')"
proof -
  have d: "distinct (map sy_id (sysops s))" using assms(2) by (simp add: rows_ok_def)
  have rows: "(\<exists>r. row_added s r s') \<or> (\<exists>r r'. row_moved s r r' s') \<or> (\<exists>r r'. row_renewed s r r' s') \<Longrightarrow> thesis"
    by (rule kept) (erule gens_ok_rows)+
  from assms(1) show thesis
  proof cases
    case Submitted
    with submit_rows [OF this] rows kept show thesis by blast
  next
    case Claimed
    from claim_rows [OF this d] show thesis by (intro rows) blast
  next
    case Renewed
    from renew_rows [OF this d] show thesis by (intro rows) blast
  next
    case Moved
    from transition_rows [OF this d] show thesis by (intro rows) blast
  next
    case Cancelled_Op
    from cancel_rows [OF this d] show thesis by (intro rows) blast
  next
    case Retried_Op
    from retry_rows [OF this d] show thesis by (intro rows) blast
  next
    case Staged
    then show thesis by (rule staged)
  next
    case Activated
    then show thesis by (rule activated)
  next
    case Rolled_Back_Gen
    then show thesis by (rule rolled_back)
  qed
qed

lemma gens_ok_step:
  assumes "sys_step sha s s'" and "rows_ok s" and ok: "gens_ok s"
  shows "gens_ok s'"
  using assms(1,2)
proof (cases rule: step_runtime)
  case kept
  then show ?thesis using gens_ok_cong ok by blast
next
  case staged
  then show ?thesis using gens_ok_staging ok by blast
next
  case activated
  then show ?thesis using gens_ok_activate ok by blast
next
  case rolled_back
  then show ?thesis using gens_ok_rollback ok by blast
qed

lemma migrated_gens: "gens_ok migrated"
  by (auto simp: migrated_def gens_ok_def gen_states_def generation_of_def)

lemma gens_ok_reachable: "(sys_step sha)\<^sup>*\<^sup>* migrated s \<Longrightarrow> gens_ok s"
  by (induction rule: rtranclp_induct) (auto intro: migrated_gens gens_ok_step dest: rows_ok_reachable)

text \<open>
  C12. In every reachable store exactly one generation is ACTIVE, it is the one the runtime pointer names, and the
  generation kept for a rollback is RETAINED.
\<close>

theorem one_active_generation:
  assumes "(sys_step sha)\<^sup>*\<^sup>* migrated s"
  shows "\<exists>u. runtime s = Some u \<and> (\<forall>g. gen_state_is s g ACTIVE \<longleftrightarrow> g = ru_active u) \<and>
    (ru_previous u = None \<or> gen_state_is s (the (ru_previous u)) RETAINED)"
proof -
  obtain u where "runtime s = Some u" "\<forall>g. gen_states s g = Some ACTIVE \<longleftrightarrow> g = ru_active u" "\<forall>p. ru_previous u = Some p \<longrightarrow> gen_states s p = Some RETAINED"
    using gens_ok_reachable [OF assms] by (auto simp: gens_ok_def)
  then show ?thesis by (cases "ru_previous u") (auto simp: gen_state_is_def gen_states_def)
qed

theorem one_active_generation_witness:
  "runtime cut_over_store = Some \<lparr>ru_active = ''g'', ru_previous = Some ''legacy'', ru_fence = 1\<rparr> \<and>
    gen_state_is cut_over_store ''g'' ACTIVE \<and> \<not> gen_state_is cut_over_store ''legacy'' ACTIVE \<and> gen_state_is cut_over_store ''legacy'' RETAINED"
  using one_active_generation [OF cut_over_reachable] cut_over_parts by auto

text \<open>
  The call may move the pointer: its runner, token and fence are those of the lease of an operation that has replayed
  every record, the lease has not ended at the time of the call, and the pointer and its fence are the expected ones.
\<close>

definition may_move :: "int \<Rightarrow> string \<Rightarrow> string \<Rightarrow> string \<Rightarrow> nat \<Rightarrow> string \<Rightarrow> nat \<Rightarrow> system \<Rightarrow> sysop \<Rightarrow> runtime \<Rightarrow> bool" where
  "may_move now i runner tok fence expected ru_token s r u \<longleftrightarrow>
    sysop_of s i = Some r \<and> sy_state r = READY_TO_CUTOVER \<and> sy_done r = sy_total r \<and>
    sy_by r = Some runner \<and> sy_token r = Some tok \<and> sy_fence r = fence \<and> lease_valid now r \<and>
    runtime s = Some u \<and> ru_active u = expected \<and> ru_fence u = ru_token"

lemma fenced_may_move:
  assumes "rows_ok s" and "sysop_of s i = Some r" and "sy_state r = READY_TO_CUTOVER" and "fence_ok now runner tok fence r"
    and "runtime s = Some u" and "ru_active u = expected" and "ru_fence u = ru_token"
  shows "may_move now i runner tok fence expected ru_token s r u"
  using assms sysop_ofD [of s i r] by (auto simp: may_move_def rows_ok_def sys_row_ok_def fence_ok_def)

text \<open>
  C13. In every reachable store only a successful activation or rollback changes the runtime pointer, and each succeeds
  only for a caller who holds, at the time of the call, the unexpired lease of an operation that has replayed every
  record, with its runner, token and fence, and who names the current pointer and its fence. An activation moves the
  pointer to that operation's target, which was STAGING, and keeps the old generation for a rollback; a
  rollback moves it from that target back to the generation kept; each adds one to the pointer's fence.
\<close>

theorem pointer_moves_after_full_replay:
  assumes "(sys_step sha)\<^sup>*\<^sup>* migrated s"
  shows "(activate now g i runner tok fence expected ru_token s = Inr (u', s') \<longrightarrow>
      (\<exists>r u. may_move now i runner tok fence expected ru_token s r u \<and> sy_target r = Some g \<and> gen_state_is s g STAGING \<and>
        runtime s' = Some u' \<and> u' = \<lparr>ru_active = g, ru_previous = Some expected, ru_fence = ru_token + 1\<rparr>)) \<and>
    (rollback now i runner tok fence expected ru_token s = Inr (u', s') \<longrightarrow>
      (\<exists>r u p. may_move now i runner tok fence expected ru_token s r u \<and> sy_target r = Some expected \<and> ru_previous u = Some p \<and>
        runtime s' = Some u' \<and> u' = \<lparr>ru_active = p, ru_previous = None, ru_fence = ru_token + 1\<rparr>)) \<and>
    (sys_step sha s t \<longrightarrow> runtime t = runtime s \<or>
      (\<exists>now g i runner tok fence ex rt v. activate now g i runner tok fence ex rt s = Inr (v, t)) \<or>
      (\<exists>now i runner tok fence ex rt v. rollback now i runner tok fence ex rt s = Inr (v, t)))"
proof (intro conjI impI)
  have ok: "rows_ok s" and gens: "gens_ok s" using rows_ok_reachable gens_ok_reachable assms by auto
  assume a: "activate now g i runner tok fence expected ru_token s = Inr (u', s')"
  have e: "\<exists>u. runtime s = Some u \<and> ru_active u = expected \<and> ru_fence u = ru_token"
    using a by (auto simp: activate_def Let_def split: if_splits option.splits)
  show "\<exists>r u. may_move now i runner tok fence expected ru_token s r u \<and> sy_target r = Some g \<and> gen_state_is s g STAGING \<and>
      runtime s' = Some u' \<and> u' = \<lparr>ru_active = g, ru_previous = Some expected, ru_fence = ru_token + 1\<rparr>"
  proof (rule activate_change [OF a])
    fix r u
    assume r: "sysop_of s i = Some r" "sy_state r = READY_TO_CUTOVER" "fence_ok now runner tok fence r" and u: "runtime s = Some u"
      and rest: "sy_target r = Some g" "gen_states s g = Some STAGING" "u' = \<lparr>ru_active = g, ru_previous = Some (ru_active u), ru_fence = ru_fence u + 1\<rparr>"
        "s' = (set_gen_state g STAGING ACTIVE (set_gen_state (ru_active u) ACTIVE RETAINED s))\<lparr>runtime := Some u'\<rparr>"
    have "ru_active u = expected" "ru_fence u = ru_token" using e u by auto
    with fenced_may_move [OF ok r u this] rest show ?thesis by (auto simp: gen_state_is_def gen_states_def)
  qed
next
  have ok: "rows_ok s" using rows_ok_reachable assms by auto
  assume a: "rollback now i runner tok fence expected ru_token s = Inr (u', s')"
  have e: "\<exists>u. runtime s = Some u \<and> ru_active u = expected \<and> ru_fence u = ru_token"
    using a by (auto simp: rollback_def Let_def split: if_splits option.splits)
  show "\<exists>r u p. may_move now i runner tok fence expected ru_token s r u \<and> sy_target r = Some expected \<and> ru_previous u = Some p \<and>
      runtime s' = Some u' \<and> u' = \<lparr>ru_active = p, ru_previous = None, ru_fence = ru_token + 1\<rparr>"
  proof (rule rollback_change [OF a])
    fix r u p
    assume r: "sysop_of s i = Some r" "sy_state r = READY_TO_CUTOVER" "fence_ok now runner tok fence r" and u: "runtime s = Some u"
      and rest: "sy_target r = Some (ru_active u)" "ru_previous u = Some p" "u' = \<lparr>ru_active = p, ru_previous = None, ru_fence = ru_fence u + 1\<rparr>"
        "s' = (set_gen_state p RETAINED ACTIVE (set_gen_state (ru_active u) ACTIVE GEN_FAILED s))\<lparr>runtime := Some u'\<rparr>"
    have "ru_active u = expected" "ru_fence u = ru_token" using e u by auto
    with fenced_may_move [OF ok r u this] rest show ?thesis by auto
  qed
next
  have ok: "rows_ok s" and gens: "gens_ok s" using rows_ok_reachable gens_ok_reachable assms by auto
  assume "sys_step sha s t"
  then show "runtime t = runtime s \<or> (\<exists>now g i runner tok fence ex rt v. activate now g i runner tok fence ex rt s = Inr (v, t)) \<or>
      (\<exists>now i runner tok fence ex rt v. rollback now i runner tok fence ex rt s = Inr (v, t))"
    using ok
  proof (cases rule: step_runtime)
    case staged
    with gens_ok_staging [OF staged gens] show ?thesis by simp
  qed blast+
qed

theorem pointer_moves_after_full_replay_witness:
  "\<exists>r u. may_move 65 ''op'' ''b'' ''t2'' 2 ''legacy'' 0 ready_store r u \<and> sy_target r = Some ''g'' \<and> gen_state_is ready_store ''g'' STAGING"
  using pointer_moves_after_full_replay [OF ready_reachable, THEN conjunct1] cut_over_step by blast

text \<open>The rebuild, after its second claim, against the three theorems on operations.\<close>

theorem operation_rows_are_typed_witness:
  "distinct (map sy_id (sysops ready_store)) \<and> rowcount (\<lambda>r. maintenance (sy_state r)) (sysops ready_store) = 1 \<and> sys_row_ok ready_row"
  using operation_rows_are_typed [OF ready_reachable] by (simp add: ready_parts ready_row_def maintenance_def)

theorem history_tells_the_row_witness: "history_ok (history_rows ready_store ''op'') ready_row"
  using history_tells_the_row [OF ready_reachable, of ready_row]
  by (simp add: ready_parts ready_row_def running_row_def reclaimed_row_def sample_row_def)

theorem stale_runner_is_fenced_witness:
  "transition_op id 30 ''op'' RUNNING ''a'' ''t1'' 1 no_progress reclaimed_store \<in> {Inl Value_Error, Inl Fenced}"
  using stale_runner_is_fenced [OF reclaimed_reachable, of "''op''" reclaimed_row 1 reclaimed_store 30 "''a''" "''t1''" 60 RUNNING no_progress]
  by (simp add: sysop_of_def reclaimed_parts reclaimed_row_def sample_row_def)

subsection \<open>Paths\<close>

lemma split_slash_append: "CHR ''/'' \<notin> set a \<Longrightarrow> split_slash (a @ CHR ''/'' # b) = a # split_slash b"
  by (induction a) auto

lemma split_slash_atom: "CHR ''/'' \<notin> set a \<Longrightarrow> split_slash a = [a]"
  by (induction a) auto

lemma identifier_chars:
  assumes "identifier_ok g"
  shows "CHR ''/'' \<notin> set g" and "CHR 92 \<notin> set g" and "CHR ''.'' \<notin> set g" and "g \<noteq> []"
  using assms by (auto simp: identifier_ok_def alnum_def list_all_iff split: list.splits)

lemma symlink_free: "(\<And>p. \<not> is_symlink p) \<Longrightarrow> \<not> symlink_below is_symlink root ps"
  by (induction is_symlink root ps rule: symlink_below.induct) auto

lemma generation_parts:
  assumes "identifier_ok g"
  shows "parts (vector_path g) = [''projection-generations'', g, ''vector.lance'']"
    and "parts (graph_path g) = [''projection-generations'', g, ''kuzu_db'']"
proof -
  have v: "vector_path g = ''projection-generations'' @ CHR ''/'' # g @ CHR ''/'' # ''vector.lance''"
    and k: "graph_path g = ''projection-generations'' @ CHR ''/'' # g @ CHR ''/'' # ''kuzu_db''"
    by (simp_all add: vector_path_def graph_path_def)
  show "parts (vector_path g) = [''projection-generations'', g, ''vector.lance'']" "parts (graph_path g) = [''projection-generations'', g, ''kuzu_db'']"
    unfolding parts_def v k using identifier_chars [OF assms] by (subst split_slash_append, simp, subst split_slash_append; auto simp: split_slash_atom)+
qed

text \<open>
  Whatever the identifier a generation was staged under, the relative paths stored for it resolve, in a file system
  without symbolic links and under a storage root inside the trusted root, to two directories of its own below the
  storage root.
\<close>

lemma staged_paths_resolve:
  assumes "identifier_ok g" and "storage = trusted \<or> under storage trusted" and "\<And>p. \<not> is_symlink p" and "\<And>p. resolve p = p"
  shows "resolve_paths is_symlink resolve storage trusted (vector_path g) (graph_path g) =
    Inr (storage @ [''projection-generations'', g, ''vector.lance''], storage @ [''projection-generations'', g, ''kuzu_db''])"
proof -
  have "safe_store_path is_symlink resolve storage (vector_path g) = Inr (storage @ [''projection-generations'', g, ''vector.lance''])"
    "safe_store_path is_symlink resolve storage (graph_path g) = Inr (storage @ [''projection-generations'', g, ''kuzu_db''])"
    using identifier_chars [OF assms(1)] symlink_free [of is_symlink, OF assms(3)]
    unfolding safe_store_path_def generation_parts [OF assms(1)]
    by (auto simp: assms(3,4) vector_path_def graph_path_def is_absolute_def under_def Let_def)
  then show ?thesis using assms(2) by (auto simp: resolve_paths_def under_def)
qed

lemma staged_paths_resolve_witness:
  "resolve_paths (\<lambda>_. False) id [''srv'', ''mesa''] [''srv''] (vector_path ''g'') (graph_path ''g'') =
    Inr ([''srv'', ''mesa'', ''projection-generations'', ''g'', ''vector.lance''], [''srv'', ''mesa'', ''projection-generations'', ''g'', ''kuzu_db''])"
  using staged_paths_resolve [of "''g''" "[''srv'', ''mesa'']" "[''srv'']" "\<lambda>_. False" id] by (simp add: under_def)

end
