(* ===== verification/Cutover_Properties.thy ===== *)
theory Cutover_Properties imports Cutover Generation_Properties begin

text \<open>
  Where the runtime pointer stands after one run of the activator, for every verdict of the verifier and every
  refusal of the repositories.
\<close>

definition pointer :: "system \<Rightarrow> string option" where
  "pointer s = map_option ru_active (runtime s)"

lemma runtime_update_op: "update_op i P f s = Inr s' \<Longrightarrow> runtime s' = runtime s"
  by (auto simp: update_op_def Let_def split: if_splits)

lemma runtime_transition: "transition_op sha now i st runner tok fence p s = Inr (r, s') \<Longrightarrow> runtime s' = runtime s"
  unfolding transition_op_def Let_def by (auto simp: bindE_Inr_iff dest: runtime_update_op split: if_splits option.splits)

lemma runtime_renew: "renew_op now i runner tok fence n s = Inr (r, s') \<Longrightarrow> runtime s' = runtime s"
  unfolding renew_op_def Let_def by (auto simp: bindE_Inr_iff dest: runtime_update_op split: if_splits option.splits)

lemma runtime_move_to [simp]: "runtime (snd (move_to c k st d t ph er s)) = runtime s"
  by (auto simp: move_to_def committed_def dest: runtime_transition split: sum.split)

lemma fst_record_failure: "fst (record_failure c k d t er raised s) = Inr x \<Longrightarrow> False"
  and record_failure_error: "fst (record_failure c k d t er raised s) = Inl e \<Longrightarrow> e = raised \<or> (\<exists>x. e = Repo x)"
  and runtime_record_failure [simp]: "runtime (snd (record_failure c k d t er raised s)) = runtime s"
  by (auto simp: record_failure_def then_act_def move_to_def committed_def dest: runtime_transition split: sum.splits)

lemma snd_active_pointer [simp]: "snd (active_pointer c s) = s"
  by (auto simp: active_pointer_def split: sum.split)

lemma active_pointer_Inr: "fst (active_pointer c s) = Inr (g, fence, previous) \<Longrightarrow> runtime s = Some \<lparr>ru_active = g, ru_previous = previous, ru_fence = fence\<rparr>"
  by (auto simp: active_pointer_def resolve_active_def bindE_Inr_iff split: sum.splits option.splits if_splits)

text \<open>
  What a run may report, given the pointer \<open>u\<close> at its start; \<open>halt\<close> says that it stops before the pointer is moved. A
  run whose predecessor has already moved the pointer goes on from there (\<open>resumed\<close>); any other pointer is left alone.
\<close>

definition resumed :: "cut_run \<Rightarrow> runtime \<Rightarrow> bool" where
  "resumed c u \<longleftrightarrow> ru_active u = cu_target c \<and> ru_previous u = Some (cu_source c)"

definition in_hand :: "cut_run \<Rightarrow> runtime \<Rightarrow> bool" where
  "in_hand c u \<longleftrightarrow> ru_active u = cu_source c \<or> resumed c u"

definition cut_over :: "cut_run \<Rightarrow> runtime \<Rightarrow> runtime" where
  "cut_over c u = \<lparr>ru_active = cu_target c, ru_previous = Some (cu_source c),
     ru_fence = (if ru_active u = cu_source c then ru_fence u + 1 else ru_fence u)\<rparr>"

definition moved_only :: "cut_run \<Rightarrow> bool \<Rightarrow> runtime \<Rightarrow> system \<Rightarrow> bool" where
  "moved_only c halt u s \<longleftrightarrow> runtime s = Some u \<or> \<not> halt \<and> in_hand c u \<and> pointer s \<in> {Some (cu_source c), Some (cu_target c)}"

definition verdict_ok :: "cut_run \<Rightarrow> bool \<Rightarrow> probe_verdict \<Rightarrow> probe_verdict \<Rightarrow> runtime \<Rightarrow> sysop act \<Rightarrow> bool" where
  "verdict_ok c halt v2 v3 u out \<longleftrightarrow>
    (case fst out of
       Inr r \<Rightarrow> \<not> halt \<and> v2 = Passed \<and> sy_state r = COMPLETED \<and> in_hand c u \<and> runtime (snd out) = Some (cut_over c u)
     | Inl Verification_Error \<Rightarrow>
         (if halt \<or> \<not> in_hand c u then runtime (snd out) = Some u else v2 \<noteq> Passed \<and> pointer (snd out) = Some (cu_source c))
     | Inl Rollback_Unproven \<Rightarrow> \<not> halt \<and> in_hand c u \<and> pointer (snd out) = Some (cu_source c) \<and> v2 \<noteq> Passed \<and> v3 \<noteq> Passed
     | Inl (Repo e) \<Rightarrow> moved_only c halt u (snd out)
     | Inl (Path_Problem e) \<Rightarrow> moved_only c halt u (snd out))"

lemma then_act_simps [simp]: "then_act (Inl e, s) f = (Inl e, s)" "then_act (Inr a, s) f = f a s"
  by (simp_all add: then_act_def)

lemma committed_simps [simp]: "committed (Inl e) s = (Inl (Repo e), s)" "committed (Inr (a, s')) s = (Inr a, s')"
  by (simp_all add: committed_def)

lemma verdict_stopped:
  assumes "halt \<or> \<not> in_hand c u" and "runtime s = Some u"
  shows "verdict_ok c halt v2 v3 u (record_failure c k d t er Verification_Error s)"
proof (cases "fst (record_failure c k d t er Verification_Error s :: sysop act)")
  case (Inr r)
  from fst_record_failure [OF Inr] show ?thesis by simp
next
  case (Inl e)
  then show ?thesis using record_failure_error [OF Inl] assms by (auto simp: verdict_ok_def moved_only_def)
qed

lemma verdict_undone:
  assumes "raised = Verification_Error \<or> raised = Rollback_Unproven \<and> v3 \<noteq> Passed" and "v2 \<noteq> Passed"
    and "pointer s = Some (cu_source c)" and "in_hand c u"
  shows "verdict_ok c False v2 v3 u (record_failure c k d t er raised s)"
proof (cases "fst (record_failure c k d t er raised s :: sysop act)")
  case (Inr r)
  from fst_record_failure [OF Inr] show ?thesis by simp
next
  case (Inl e)
  then show ?thesis using record_failure_error [OF Inl] assms by (auto simp: verdict_ok_def moved_only_def pointer_def)
qed

lemma pointer_move_to: "pointer (snd (move_to c k st d t ph er s)) = pointer s"
  by (simp add: pointer_def)

lemma move_to_cases:
  obtains (refused) e where "move_to c k st d t ph er s = (Inl (Repo e), s)"
    | (moved) r s' where "move_to c k st d t ph er s = (Inr r, s')" and "runtime s' = runtime s" and "sy_state r = st"
proof (cases "fst (move_to c k st d t ph er s)")
  case (Inl e)
  then have "\<exists>e'. move_to c k st d t ph er s = (Inl (Repo e'), s)" by (auto simp: move_to_def committed_def split: sum.splits)
  then show thesis using refused by blast
next
  case (Inr r)
  then obtain s' where m: "move_to c k st d t ph er s = (Inr r, s')" by (cases "move_to c k st d t ph er s") simp
  then have "sy_state r = st" unfolding move_to_def committed_def
    by (auto simp: transition_op_def Let_def bindE_Inr_iff moved_def split: sum.splits if_splits option.splits)
  then show thesis using m runtime_move_to [of c k st d t ph er s] moved by simp
qed

lemma active_pointer_cases:
  obtains (refused) e where "active_pointer c s = (Inl (Repo e), s)" | (unsafe) e where "active_pointer c s = (Inl (Path_Problem e), s)"
    | (at) g fence previous where "active_pointer c s = (Inr (g, fence, previous), s)"
        and "runtime s = Some \<lparr>ru_active = g, ru_previous = previous, ru_fence = fence\<rparr>"
proof (cases "fst (active_pointer c s)")
  case (Inl e)
  then have "active_pointer c s = (Inl e, s)" using snd_active_pointer [of c s] by (cases "active_pointer c s") simp
  moreover have "(\<exists>x. e = Repo x) \<or> (\<exists>x. e = Path_Problem x)" using Inl by (auto simp: active_pointer_def split: sum.splits)
  ultimately show thesis using refused unsafe by blast
next
  case (Inr x)
  then obtain g fence previous where "active_pointer c s = (Inr (g, fence, previous), s)"
    using snd_active_pointer [of c s] by (cases x; cases "active_pointer c s") auto
  then show thesis using active_pointer_Inr [of c s g fence previous] at by simp
qed

lemma undo_cutover_ok:
  assumes "runtime s = Some (cut_over c u)" and "v2 \<noteq> Passed" and "in_hand c u"
  shows "verdict_ok c False v2 v3 u (undo_cutover c v3 fence s)"
proof (cases "rollback (cu_clock c 3) (cu_op c) (cu_runner c) (cu_token c) (cu_fence c) (cu_target c) fence s")
  case (Inl e)
  then show ?thesis using assms by (simp add: undo_cutover_def verdict_ok_def moved_only_def pointer_def cut_over_def)
next
  case (Inr x)
  obtain u' s1 where x: "x = (u', s1)" by (cases x)
  have u': "ru_active u' = cu_source c" and s1: "pointer s1 = Some (cu_source c)"
    using Inr assms(1) unfolding x by (auto elim!: rollback_change simp: pointer_def cut_over_def)
  show ?thesis
  proof (cases rule: active_pointer_cases [of c s1])
    case refused
    then show ?thesis using Inr x s1 assms(3) by (simp add: undo_cutover_def verdict_ok_def moved_only_def)
  next
    case unsafe
    then show ?thesis using Inr x s1 assms(3) by (simp add: undo_cutover_def verdict_ok_def moved_only_def)
  next
    case at
    then show ?thesis using Inr x u' s1 assms(2,3) by (simp add: undo_cutover_def verdict_undone)
  qed
qed

lemma finish_cutover_ok:
  assumes "runtime s = Some (cut_over c u)" and "in_hand c u"
  shows "verdict_ok c False v2 v3 u (finish_cutover c v2 v3 fence s)"
proof (cases "v2 = Passed")
  case False
  then show ?thesis using undo_cutover_ok [OF assms(1) False assms(2)] by (simp add: finish_cutover_def)
next
  case True
  have p: "moved_only c False u s" using assms by (simp add: moved_only_def pointer_def cut_over_def)
  show ?thesis
  proof (cases "gen_state_is s (cu_target c) ACTIVE")
    case active: True
    then have publish: "publish c s = (Inr (), s)" using assms(1) by (simp add: publish_def cut_over_def)
    show ?thesis
      by (cases rule: move_to_cases [of c 3 COMPLETED "cu_replayed c" "cu_replayed c" "''COMPLETED''" None s])
        (simp_all add: finish_cutover_def publish True assms verdict_ok_def p)
  next
    case False
    then have "publish c s = (Inl (Repo Gen_Fenced), s)" using assms(1) by (simp add: publish_def)
    with True p show ?thesis by (simp add: finish_cutover_def verdict_ok_def)
  qed
qed

lemma move_pointer_ok:
  assumes "runtime s = Some u"
  shows "verdict_ok c False v2 v3 u (then_act (move_pointer c s) (finish_cutover c v2 v3))"
proof (cases rule: active_pointer_cases [of c s])
  case refused
  then show ?thesis using assms by (simp add: move_pointer_def verdict_ok_def moved_only_def)
next
  case unsafe
  then show ?thesis using assms by (simp add: move_pointer_def verdict_ok_def moved_only_def)
next
  case (at g n previous)
  then have u: "u = \<lparr>ru_active = g, ru_previous = previous, ru_fence = n\<rparr>" using assms by simp
  consider "g = cu_source c" | "g \<noteq> cu_source c" "resumed c u" | "\<not> in_hand c u" using u by (auto simp: in_hand_def)
  then show ?thesis
  proof cases
    case 1
    then have h: "in_hand c u" using u by (simp add: in_hand_def)
    show ?thesis
    proof (cases "activate (cu_clock c 2) (cu_target c) (cu_op c) (cu_runner c) (cu_token c) (cu_fence c) (cu_source c) n s")
      case (Inl e)
      then show ?thesis using at 1 assms by (simp add: move_pointer_def verdict_ok_def moved_only_def)
    next
      case (Inr x)
      obtain u' s' where x: "x = (u', s')" by (cases x)
      have "runtime s' = Some (cut_over c u)"
        using Inr assms 1 u unfolding x by (auto elim!: activate_change simp: cut_over_def)
      then show ?thesis using finish_cutover_ok [OF _ h] at 1 Inr x by (simp add: move_pointer_def)
    qed
  next
    case 2
    then have "u = cut_over c u" "in_hand c u" using u by (auto simp: cut_over_def resumed_def in_hand_def)
    then show ?thesis using finish_cutover_ok [of s c u] at 2 u assms by (simp add: move_pointer_def resumed_def)
  next
    case 3
    then show ?thesis using at u assms by (auto simp: move_pointer_def verdict_ok_def in_hand_def resumed_def)
  qed
qed

text \<open>
  C14. A run of the activator, for every verdict of the verifier and every refusal of the repositories, from wherever the
  pointer stands. It completes the operation only if both verifications passed, with the pointer at the target and
  the source kept for a rollback. A run that was asked to stop, that failed the first verification, or that found
  the pointer neither at the source nor at the target of an interrupted cutover, leaves the pointer as it found it
  (so at the target, when an earlier run had moved it). A verification that fails after the cutover is reported only
  with the pointer back at the source, an unproven rollback only after a second failed verification and with the
  pointer back at the source, and whatever else is raised, the pointer was left alone or is at the source or the target.
\<close>

theorem cutover_keeps_a_verified_generation:
  assumes "runtime s = Some u"
  shows "verdict_ok c (stop1 \<or> v1 \<noteq> Passed \<or> stop2) v2 v3 u (activate_gated c stop1 v1 stop2 v2 v3 s)"
proof (cases "resolve_paths (cu_links c) (cu_resolve c) (cu_storage c) (cu_trusted c) (vector_path (cu_target c)) (graph_path (cu_target c))")
  case (Inl e)
  then show ?thesis using assms by (simp add: activate_gated_def verdict_ok_def moved_only_def)
next
  case (Inr p)
  note gate = activate_gated_def Inr
  show ?thesis
  proof (cases stop1)
    case True
    then show ?thesis using assms by (simp add: gate verdict_stopped)
  next
    case False
    show ?thesis
    proof (cases "renew_op (cu_clock c 0) (cu_op c) (cu_runner c) (cu_token c) (cu_fence c) (cu_lease c) s")
      case renewed: (Inl e)
      then show ?thesis using False assms by (simp add: gate verdict_ok_def moved_only_def)
    next
      case renewed: (Inr x)
      obtain r s1 where x: "x = (r, s1)" by (cases x)
      then have s1: "runtime s1 = Some u" using runtime_renew renewed assms by auto
      show ?thesis
      proof (cases "v1 = Passed \<and> \<not> stop2")
        case failed: False
        then show ?thesis using False renewed x s1 by (auto simp: gate intro: verdict_stopped)
      next
        case go: True
        show ?thesis
          by (cases rule: move_to_cases [of c 1 READY_TO_CUTOVER "cu_replayed c" "cu_replayed c" "''READY_TO_CUTOVER''" None s1])
            (use False renewed x s1 go move_pointer_ok in \<open>simp_all add: gate verdict_ok_def [of _ _ _ _ _ "(Inl _, _)"] moved_only_def\<close>)
      qed
    qed
  qed
qed

text \<open>The rebuild of \<open>Generation_Properties\<close> handed to the activator in VERIFYING, every verification passing.\<close>

definition sample_run :: cut_run where
  "sample_run = \<lparr>cu_op = ''op'', cu_runner = ''b'', cu_token = ''t2'', cu_fence = 2, cu_source = ''legacy'', cu_target = ''g'', cu_done = 7, cu_total = 7,
     cu_replayed = 7, cu_lease = 300, cu_links = (\<lambda>_. False), cu_resolve = id, cu_storage = [''srv''], cu_trusted = [''srv''],
     cu_checkpoint = (\<lambda>_. ''{}''), cu_sha = id, cu_clock = (\<lambda>k. 64 + int k)\<rparr>"

lemma sample_paths:
  "resolve_paths (\<lambda>_. False) id [''srv''] [''srv''] (vector_path ''g'') (graph_path ''g'') =
    Inr ([''srv'', ''projection-generations'', ''g'', ''vector.lance''], [''srv'', ''projection-generations'', ''g'', ''kuzu_db''])"
  "resolve_paths (\<lambda>_. False) id [''srv''] [''srv''] ''vector.lance'' ''kuzu_db'' = Inr ([''srv'', ''vector.lance''], [''srv'', ''kuzu_db''])"
  by (simp_all add: resolve_paths_def safe_store_path_def parts_def is_absolute_def under_def vector_path_def graph_path_def)

lemma sample_run_returns: "\<exists>r. fst (activate_gated sample_run False Passed False Passed Passed verifying_store) = Inr r"
  by (simp add: activate_gated_def sample_run_def sample_paths renew_op_def sysop_of_def verifying_parts verifying_row_def ready_row_def
      running_row_def reclaimed_row_def sample_row_def executing_def fence_ok_def lease_valid_def update_op_def move_to_def transition_op_def
      progress_ok_def opt_ok_def transition_allowed_def failed_state_def or_else_def moved_def released_state_def move_pointer_def active_pointer_def
      resolve_active_def migrated_def generation_of_def staged_parts staged_generation_def activate_def operation_fenced_def gen_state_is_def
      set_gen_state_def finish_cutover_def publish_def Let_def)

theorem cutover_keeps_a_verified_generation_witness:
  "\<exists>r. fst (activate_gated sample_run False Passed False Passed Passed verifying_store) = Inr r \<and> sy_state r = COMPLETED \<and>
    pointer (snd (activate_gated sample_run False Passed False Passed Passed verifying_store)) = Some ''g''"
proof -
  obtain r where r: "fst (activate_gated sample_run False Passed False Passed Passed verifying_store) = Inr r"
    using sample_run_returns by blast
  have "runtime verifying_store = Some \<lparr>ru_active = ''legacy'', ru_previous = None, ru_fence = 0\<rparr>"
    by (simp add: verifying_parts migrated_def)
  from cutover_keeps_a_verified_generation [where c = sample_run and ?v1.0 = Passed and ?v2.0 = Passed and ?v3.0 = Passed and ?stop1.0 = False and ?stop2.0 = False, OF this] r
  show ?thesis by (simp add: verdict_ok_def pointer_def cut_over_def) (simp add: sample_run_def)
qed

end
