(* ===== verification/Purge.thy ===== *)
theory Purge imports Projection begin

text \<open>
  The purge of an agent's or a session's legacy memory (\<open>mesa_storage/dao.py\<close>, \<open>purge_memory\<close> to
  \<open>_mark_purge_retry\<close>). A call is a task that stops wherever the code awaits a transaction or a store, and
  \<open>purge_step\<close> interleaves tasks at these stops. A reply says whether a store call succeeds; one that
  raises may have deleted some of its nodes. A failure of SQLite itself is not modelled, a vector counts
  as active while it exists, and \<open>session_of\<close> is the session column of a mutation.
\<close>

subsection \<open>State\<close>

datatype purge_state = PREPARED | TOMBSTONED | KUZU_APPLIED | VECTOR_APPLIED | VERIFIED | FINALIZED | RETRY_PENDING
  | COMPENSATION_REQUIRED | BLOCKED | FAILED_SAFE

record node =
  nd_id :: string
  nd_agent :: string
  nd_session :: string
  nd_invalid :: bool
  nd_deleted :: bool
  nd_purge :: "string option"

record purge =
  pj_id :: string
  pj_key :: string
  pj_principal :: string
  pj_agent :: string
  pj_scope :: string
  pj_session :: "string option"
  pj_targets :: "string list"
  pj_state :: purge_state
  pj_kuzu :: bool
  pj_vector :: bool
  pj_retries :: nat
  pj_error :: "string option"

datatype purge_error = Bad_Value | Already_Finalized | Purge_Blocked | Purge_Retry_Pending | Ledger_Error dao_error

datatype purge_phase = Begin | Delete_Graph | Check_Graph | Apply_Graph | Mark_Graph | Reread | Delete_Vector "string list"
  | Check_Vector | Apply_Vector | Mark_Vector | Apply_Verified | Apply_Final | Undo_Check | Undo_Write | Ended "purge_error + nat"

record purge_task =
  tk_purge :: string
  tk_agent :: string
  tk_targets :: "string list"
  tk_phase :: purge_phase

text \<open>The graph and the vector store as the pairs of an agent and a node they hold.\<close>

record purge_world =
  pw_db :: db
  pw_nodes :: "node list"
  pw_journal :: "purge list"
  pw_graph :: "(string \<times> string) list"
  pw_vectors :: "(string \<times> string) list"

record purge_config =
  pc_writer :: bool
  pc_stores :: bool
  pc_session_of :: "mutation \<Rightarrow> string"

datatype store_reply = Fine | Raises "string list"

subsection \<open>The request\<close>

definition blank_key :: "string \<Rightarrow> bool" where
  "blank_key s = list_all (\<lambda>c. c \<in> {CHR '' '', CHR 9, CHR 10, CHR 11, CHR 12, CHR 13, CHR 28, CHR 29, CHR 30, CHR 31}) s"

definition purge_args_ok :: "string \<Rightarrow> string \<Rightarrow> string option \<Rightarrow> string option \<Rightarrow> bool" where
  "purge_args_ok agent scope session key \<longleftrightarrow> valid_agent agent \<and> scope \<in> {''agent'', ''session''} \<and>
     (if scope = ''session'' then session \<noteq> None \<and> session \<noteq> Some '''' \<and> session \<noteq> Some ''*'' else session = None) \<and>
     (case key of None \<Rightarrow> True | Some k \<Rightarrow> \<not> blank_key k)"

definition in_scope :: "string \<Rightarrow> string option \<Rightarrow> node \<Rightarrow> bool" where
  "in_scope agent session n \<longleftrightarrow> nd_agent n = agent \<and> (case session of None \<Rightarrow> True | Some x \<Rightarrow> nd_session n = x) \<and>
     \<not> nd_invalid n \<and> \<not> nd_deleted n \<and> nd_purge n = None"

definition tombstone_node :: "string \<Rightarrow> node \<Rightarrow> node" where
  "tombstone_node p n = n\<lparr>nd_invalid := True, nd_deleted := True, nd_purge := Some p\<rparr>"

text \<open>The transaction of \<open>purge_memory\<close>; \<open>None\<close> means that nothing is in scope.\<close>

definition purge_tx :: "purge_config \<Rightarrow> string \<Rightarrow> string \<Rightarrow> string \<Rightarrow> string \<Rightarrow> string option \<Rightarrow> string \<Rightarrow> purge_world \<Rightarrow>
    purge_error + (string option \<times> purge_world)" where
  "purge_tx c new_id key agent scope session who w =
    (case find (\<lambda>j. pj_key j = key) (pw_journal w) of
       Some j \<Rightarrow>
         if pj_agent j \<noteq> agent \<or> pj_scope j \<noteq> scope \<or> pj_session j \<noteq> session then Inl Bad_Value
         else if pj_state j = FINALIZED then Inl Already_Finalized
         else Inr (Some (pj_id j), w)
     | None \<Rightarrow>
         (case purge_mutations (\<lambda>m. mu_agent m = agent \<and> (scope = ''session'' \<longrightarrow> session = Some (pc_session_of c m))) (pw_db w) of
            Inl e \<Rightarrow> Inl (Ledger_Error e)
          | Inr (ids, d) \<Rightarrow>
              let d' = d\<lparr>outboxes := upd (\<lambda>p. ob_mutation p \<in> set ids) (release_claim O_CANCELLED) (outboxes d)\<rparr>;
                  sess = (if scope = ''session'' then session else None);
                  targets = map nd_id (filter (in_scope agent sess) (pw_nodes w))
              in if targets = [] then Inr (None, w\<lparr>pw_db := d'\<rparr>)
                 else Inr (Some new_id, w\<lparr>pw_db := d',
                   pw_nodes := upd (\<lambda>n. in_scope agent None n \<and> nd_id n \<in> set targets) (tombstone_node new_id) (pw_nodes w),
                   pw_journal := pw_journal w @ [\<lparr>pj_id = new_id, pj_key = key, pj_principal = who, pj_agent = agent, pj_scope = scope,
                     pj_session = session, pj_targets = targets, pj_state = TOMBSTONED, pj_kuzu = False, pj_vector = False,
                     pj_retries = 0, pj_error = None\<rparr>]\<rparr>)))"

definition journal_row :: "purge_world \<Rightarrow> string \<Rightarrow> purge option" where
  "journal_row w p = find (\<lambda>j. pj_id j = p) (pw_journal w)"

text \<open>
  \<open>purge_memory\<close> up to its last await: it returns, or goes on as the task that resumes the purge. Without an
  idempotency key the journal key is \<open>purge:\<close> and a fresh identifier.
\<close>

definition purge_memory :: "purge_config \<Rightarrow> string \<Rightarrow> string \<Rightarrow> string \<Rightarrow> string option \<Rightarrow> string option \<Rightarrow> string option \<Rightarrow> string \<Rightarrow> purge_world \<Rightarrow>
    (purge_error + (nat + string)) \<times> purge_world" where
  "purge_memory c new_id agent scope session who key fresh w =
    (if \<not> purge_args_ok agent scope session key then (Inl Bad_Value, w)
     else
       let k = (case key of None \<Rightarrow> ''purge:'' @ fresh | Some x \<Rightarrow> x); by = (case who of None \<Rightarrow> ''__internal__'' | Some x \<Rightarrow> if x = [] then ''__internal__'' else x) in
       (case purge_tx c new_id k agent scope session by w of
          Inl e \<Rightarrow> (Inl e, w)
        | Inr (None, w') \<Rightarrow> (Inr (Inl 0), w')
        | Inr (Some p, w') \<Rightarrow>
            if \<not> pc_writer c then (Inr (Inl (case journal_row w' p of None \<Rightarrow> 0 | Some j \<Rightarrow> length (pj_targets j))), w')
            else (Inr (Inr p), w')))"

subsection \<open>The saga\<close>

definition new_task :: "purge_phase \<Rightarrow> string \<Rightarrow> purge_task" where
  "new_task ph p = \<lparr>tk_purge = p, tk_agent = '''', tk_targets = [], tk_phase = ph\<rparr>"

definition ended :: "(purge_error + nat) \<Rightarrow> purge_task \<Rightarrow> purge_task" where
  "ended r t = t\<lparr>tk_phase := Ended r\<rparr>"

definition at_phase :: "purge_phase \<Rightarrow> purge_task \<Rightarrow> purge_task" where
  "at_phase ph t = t\<lparr>tk_phase := ph\<rparr>"

definition begin_resume :: "purge_config \<Rightarrow> purge_task \<Rightarrow> purge_world \<Rightarrow> purge_task" where
  "begin_resume c t w =
    (if \<not> pc_writer c then ended (Inl Purge_Blocked) t
     else (case journal_row w (tk_purge t) of
         None \<Rightarrow> ended (Inl Bad_Value) t
       | Some j \<Rightarrow>
           if pj_state j = FINALIZED then ended (Inl Already_Finalized) t
           else if pj_state j \<in> {BLOCKED, COMPENSATION_REQUIRED, FAILED_SAFE} then ended (Inl Purge_Blocked) t
           else if \<not> pc_stores c then ended (Inr (length (pj_targets j))) t
           else t\<lparr>tk_agent := pj_agent j, tk_targets := pj_targets j, tk_phase := if pj_kuzu j then Reread else Delete_Graph\<rparr>))"

definition without_nodes :: "string \<Rightarrow> string list \<Rightarrow> (string \<times> string) list \<Rightarrow> (string \<times> string) list" where
  "without_nodes agent ids st = filter (\<lambda>(a, i). \<not> (a = agent \<and> i \<in> set ids)) st"

definition all_absent :: "string \<Rightarrow> string list \<Rightarrow> (string \<times> string) list \<Rightarrow> bool" where
  "all_absent agent ids st = list_all (\<lambda>i. (agent, i) \<notin> set st) ids"

definition to_vectors :: "string list \<Rightarrow> purge_phase" where
  "to_vectors ids = (if ids = [] then Check_Vector else Delete_Vector ids)"

text \<open>\<open>_advance_purge\<close>: the \<open>UPDATE\<close> looks at nothing but the identifier.\<close>

definition advance_purge :: "string \<Rightarrow> purge_state \<Rightarrow> bool \<Rightarrow> bool \<Rightarrow> purge_world \<Rightarrow> purge_world" where
  "advance_purge p st kuzu vector w = w\<lparr>pw_journal := upd (\<lambda>j. pj_id j = p)
     (\<lambda>j. j\<lparr>pj_state := st, pj_error := None, pj_kuzu := pj_kuzu j \<or> kuzu, pj_vector := pj_vector j \<or> vector\<rparr>) (pw_journal w)\<rparr>"

definition mark_purge_retry :: "string \<Rightarrow> string \<Rightarrow> purge_world \<Rightarrow> purge_error + purge_world" where
  "mark_purge_retry p msg w =
    (case journal_row w p of
       None \<Rightarrow> Inl Bad_Value
     | Some j \<Rightarrow> Inr (w\<lparr>pw_journal := upd (\<lambda>x. pj_id x = p)
         (\<lambda>x. x\<lparr>pj_state := if 3 \<le> pj_retries j + 1 then BLOCKED else RETRY_PENDING, pj_retries := pj_retries j + 1, pj_error := Some msg\<rparr>)
         (pw_journal w)\<rparr>))"

definition marked :: "string \<Rightarrow> purge_task \<Rightarrow> purge_world \<Rightarrow> purge_task \<times> purge_world" where
  "marked msg t w = (case mark_purge_retry (tk_purge t) msg w of
     Inl e \<Rightarrow> (ended (Inl e) t, w) | Inr w' \<Rightarrow> (ended (Inl Purge_Retry_Pending) t, w'))"

definition undo_check :: "purge_task \<Rightarrow> purge_world \<Rightarrow> purge_task" where
  "undo_check t w =
    (case journal_row w (tk_purge t) of
       None \<Rightarrow> ended (Inl Bad_Value) t
     | Some j \<Rightarrow>
         if pj_state j \<notin> {PREPARED, TOMBSTONED, RETRY_PENDING} \<or> pj_kuzu j \<or> pj_vector j then ended (Inl Purge_Blocked) t
         else t\<lparr>tk_agent := pj_agent j, tk_targets := pj_targets j, tk_phase := Undo_Write\<rparr>)"

definition undo_write :: "purge_task \<Rightarrow> purge_world \<Rightarrow> purge_task \<times> purge_world" where
  "undo_write t w =
    (let P = (\<lambda>n. nd_purge n = Some (tk_purge t) \<and> nd_agent n = tk_agent t \<and> nd_id n \<in> set (tk_targets t)) in
     (ended (Inr (rowcount P (pw_nodes w))) t,
      w\<lparr>pw_nodes := upd P (\<lambda>n. n\<lparr>nd_invalid := False, nd_deleted := False, nd_purge := None\<rparr>) (pw_nodes w),
        pw_journal := upd (\<lambda>j. pj_id j = tk_purge t) (\<lambda>j. j\<lparr>pj_state := FAILED_SAFE, pj_error := Some ''pre-downstream tombstone_node rollback''\<rparr>) (pw_journal w)\<rparr>))"

fun task_step :: "purge_config \<Rightarrow> store_reply \<Rightarrow> purge_phase \<Rightarrow> purge_task \<Rightarrow> purge_world \<Rightarrow> purge_task \<times> purge_world" where
  "task_step c reply Begin t w = (begin_resume c t w, w)"
| "task_step c Fine Delete_Graph t w = (at_phase Check_Graph t, w\<lparr>pw_graph := without_nodes (tk_agent t) (tk_targets t) (pw_graph w)\<rparr>)"
| "task_step c (Raises ids) Delete_Graph t w =
     (at_phase Mark_Graph t, w\<lparr>pw_graph := without_nodes (tk_agent t) (filter (\<lambda>i. i \<in> set ids) (tk_targets t)) (pw_graph w)\<rparr>)"
| "task_step c Fine Check_Graph t w = (at_phase (if all_absent (tk_agent t) (tk_targets t) (pw_graph w) then Apply_Graph else Mark_Graph) t, w)"
| "task_step c (Raises ids) Check_Graph t w = (at_phase Mark_Graph t, w)"
| "task_step c reply Apply_Graph t w = (at_phase Reread t, advance_purge (tk_purge t) KUZU_APPLIED True False w)"
| "task_step c reply Mark_Graph t w = marked ''kuzu'' t w"
| "task_step c reply Reread t w =
     (case journal_row w (tk_purge t) of
        None \<Rightarrow> (ended (Inl Bad_Value) t, w)
      | Some j \<Rightarrow> (at_phase (if pj_vector j then Apply_Verified else to_vectors (tk_targets t)) t, w))"
| "task_step c Fine (Delete_Vector ids) t w =
     (at_phase (to_vectors (tl ids)) t, w\<lparr>pw_vectors := without_nodes (tk_agent t) (take 1 ids) (pw_vectors w)\<rparr>)"
| "task_step c (Raises gone) (Delete_Vector ids) t w =
     (at_phase Mark_Vector t, w\<lparr>pw_vectors := without_nodes (tk_agent t) (filter (\<lambda>i. i \<in> set gone) (take 1 ids)) (pw_vectors w)\<rparr>)"
| "task_step c Fine Check_Vector t w = (at_phase (if all_absent (tk_agent t) (tk_targets t) (pw_vectors w) then Apply_Vector else Mark_Vector) t, w)"
| "task_step c (Raises ids) Check_Vector t w = (at_phase Mark_Vector t, w)"
| "task_step c reply Apply_Vector t w = (at_phase Apply_Verified t, advance_purge (tk_purge t) VECTOR_APPLIED False True w)"
| "task_step c reply Mark_Vector t w = marked ''vector'' t w"
| "task_step c reply Apply_Verified t w = (at_phase Apply_Final t, advance_purge (tk_purge t) VERIFIED False False w)"
| "task_step c reply Apply_Final t w = (ended (Inr (length (tk_targets t))) t, advance_purge (tk_purge t) FINALIZED False False w)"
| "task_step c reply Undo_Check t w = (undo_check t w, w)"
| "task_step c reply Undo_Write t w = undo_write t w"
| "task_step c reply (Ended r) t w = (t, w)"

text \<open>
  A purge is requested (and its task started when this process writes the stores), a resumption or a rollback is
  started for a journal entry, a task reaches its next stop, a task is cut off by the end of its process, and
  other code writes a node under a fresh identifier into the three stores.
\<close>

type_synonym purge_system = "purge_world \<times> purge_task list"

inductive purge_step :: "purge_config \<Rightarrow> purge_system \<Rightarrow> purge_system \<Rightarrow> bool" for c where
  Requested: "purge_memory c new_id agent scope session who key fresh w = (r, w') \<Longrightarrow> new_id \<notin> pj_id ` set (pw_journal w) \<Longrightarrow>
    purge_step c (w, ts) (w', ts @ (case r of Inr (Inr p) \<Rightarrow> [new_task Begin p] | _ \<Rightarrow> []))"
| Resumed: "purge_step c (w, ts) (w, ts @ [new_task Begin p])"
| Rollback_Started: "purge_step c (w, ts) (w, ts @ [new_task Undo_Check p])"
| Ran: "n < length ts \<Longrightarrow> task_step c reply (tk_phase (ts ! n)) (ts ! n) w = (t, w') \<Longrightarrow> purge_step c (w, ts) (w', ts[n := t])"
| Crashed: "purge_step c (w, ts) (w, take n ts @ drop (Suc n) ts)"
| Written: "i \<notin> nd_id ` set (pw_nodes w) \<Longrightarrow>
    purge_step c (w, ts) (w\<lparr>pw_nodes := pw_nodes w @ [\<lparr>nd_id = i, nd_agent = agent, nd_session = session, nd_invalid = False, nd_deleted = False, nd_purge = None\<rparr>],
      pw_graph := pw_graph w @ [(agent, i)], pw_vectors := pw_vectors w @ [(agent, i)]\<rparr>, ts)"

definition no_memory :: "db \<Rightarrow> purge_world" where
  "no_memory d = \<lparr>pw_db = d, pw_nodes = [], pw_journal = [], pw_graph = [], pw_vectors = []\<rparr>"

end
