(* ===== verification/Purge_Properties.thy ===== *)
theory Purge_Properties imports Purge begin

text \<open>
  What holds of a purge however its tasks interleave, crash and fail: it is final only when both stores have lost every
  target, and nothing else is ever deleted. The last section shows two races of the code and the run of an undisturbed task.
\<close>

subsection \<open>The invariant\<close>

definition row_for :: "purge_world \<Rightarrow> purge_task \<Rightarrow> purge \<Rightarrow> bool" where
  "row_for w t j \<longleftrightarrow> j \<in> set (pw_journal w) \<and> pj_id j = tk_purge t \<and> pj_agent j = tk_agent t \<and> pj_targets j = tk_targets t"

fun phase_ok :: "purge_phase \<Rightarrow> purge_task \<Rightarrow> purge \<Rightarrow> purge_world \<Rightarrow> bool" where
  "phase_ok Apply_Graph t j w = all_absent (tk_agent t) (tk_targets t) (pw_graph w)"
| "phase_ok Reread t j w = pj_kuzu j"
| "phase_ok (Delete_Vector ids) t j w = (pj_kuzu j \<and> set ids \<subseteq> set (tk_targets t))"
| "phase_ok Check_Vector t j w = pj_kuzu j"
| "phase_ok Mark_Vector t j w = pj_kuzu j"
| "phase_ok Apply_Vector t j w = (pj_kuzu j \<and> all_absent (tk_agent t) (tk_targets t) (pw_vectors w))"
| "phase_ok Apply_Verified t j w = (pj_kuzu j \<and> pj_vector j)"
| "phase_ok Apply_Final t j w = (pj_kuzu j \<and> pj_vector j)"
| "phase_ok _ t j w = True"

fun unbound :: "purge_phase \<Rightarrow> bool" where
  "unbound Begin = True"
| "unbound Undo_Check = True"
| "unbound (Ended r) = True"
| "unbound _ = False"

definition task_ok :: "purge_world \<Rightarrow> purge_task \<Rightarrow> bool" where
  "task_ok w t \<longleftrightarrow> unbound (tk_phase t) \<or> (\<exists>j. row_for w t j \<and> phase_ok (tk_phase t) t j w)"

definition purge_row_ok :: "purge_world \<Rightarrow> purge \<Rightarrow> bool" where
  "purge_row_ok w j \<longleftrightarrow> (pj_kuzu j \<longrightarrow> all_absent (pj_agent j) (pj_targets j) (pw_graph w)) \<and>
     (pj_vector j \<longrightarrow> all_absent (pj_agent j) (pj_targets j) (pw_vectors w)) \<and>
     (pj_state j \<in> {VERIFIED, FINALIZED} \<longrightarrow> pj_kuzu j \<and> pj_vector j) \<and>
     (\<forall>i \<in> set (pj_targets j). \<exists>n \<in> set (pw_nodes w). nd_id n = i \<and> nd_agent n = pj_agent j \<and>
        (pj_scope j = ''session'' \<longrightarrow> pj_session j = Some (nd_session n)))"

definition targeted :: "purge_world \<Rightarrow> string \<Rightarrow> string \<Rightarrow> bool" where
  "targeted w a i \<longleftrightarrow> (\<exists>j \<in> set (pw_journal w). pj_agent j = a \<and> i \<in> set (pj_targets j))"

definition spared :: "purge_world \<Rightarrow> bool" where
  "spared w \<longleftrightarrow> (\<forall>n \<in> set (pw_nodes w). targeted w (nd_agent n) (nd_id n) \<or>
     ((nd_agent n, nd_id n) \<in> set (pw_graph w) \<and> (nd_agent n, nd_id n) \<in> set (pw_vectors w)))"

definition purge_ok :: "purge_system \<Rightarrow> bool" where
  "purge_ok s \<longleftrightarrow> distinct (map pj_id (pw_journal (fst s))) \<and> (\<forall>j \<in> set (pw_journal (fst s)). purge_row_ok (fst s) j) \<and>
     spared (fst s) \<and> (\<forall>t \<in> set (snd s). task_ok (fst s) t)"

subsection \<open>What a task may change\<close>

text \<open>A change of the journal that forgets nothing, and a deletion among the targets of a row.\<close>

definition keeps_row :: "(purge \<Rightarrow> purge) \<Rightarrow> bool" where
  "keeps_row f \<longleftrightarrow> (\<forall>j. pj_id (f j) = pj_id j \<and> pj_agent (f j) = pj_agent j \<and> pj_targets (f j) = pj_targets j \<and> pj_scope (f j) = pj_scope j \<and>
     pj_session (f j) = pj_session j \<and> (pj_kuzu j \<longrightarrow> pj_kuzu (f j)) \<and> (pj_vector j \<longrightarrow> pj_vector (f j)))"

definition grows :: "purge_world \<Rightarrow> purge_world \<Rightarrow> bool" where
  "grows w w' \<longleftrightarrow> (\<forall>t j. row_for w t j \<longrightarrow> (\<exists>j'. row_for w' t j' \<and> (pj_kuzu j \<longrightarrow> pj_kuzu j') \<and> (pj_vector j \<longrightarrow> pj_vector j'))) \<and>
     (\<forall>a i. i \<in> nd_id ` set (pw_nodes w) \<longrightarrow> (a, i) \<in> set (pw_graph w') \<longrightarrow> (a, i) \<in> set (pw_graph w)) \<and>
     (\<forall>a i. i \<in> nd_id ` set (pw_nodes w) \<longrightarrow> (a, i) \<in> set (pw_vectors w') \<longrightarrow> (a, i) \<in> set (pw_vectors w))"

lemma absent_iff: "all_absent a ids st \<longleftrightarrow> (\<forall>i \<in> set ids. (a, i) \<notin> set st)"
  by (simp add: all_absent_def list_all_iff)

lemma set_without: "set (without_nodes a ids st) = set st - {(a, i) |i. i \<in> set ids}"
  by (auto simp: without_nodes_def)

lemma journal_rowD: "journal_row w p = Some j \<Longrightarrow> j \<in> set (pw_journal w) \<and> pj_id j = p"
  unfolding journal_row_def by (drule find_SomeD) simp

lemma targeted_pairs: "targeted w a i \<longleftrightarrow> (\<exists>p \<in> set (map (\<lambda>j. (pj_agent j, pj_targets j)) (pw_journal w)). fst p = a \<and> i \<in> set (snd p))"
  by (auto simp: targeted_def)

lemma row_unique:
  assumes "distinct (map pj_id (pw_journal w))" and "row_for w t j" and "journal_row w (tk_purge t) = Some j'"
  shows "j' = j"
  using assms journal_rowD [OF assms(3)] unfolding row_for_def by (metis distinct_map inj_onD)

lemma row_found:
  assumes "distinct (map pj_id (pw_journal w))" and "row_for w t j"
  shows "journal_row w (tk_purge t) = Some j"
  using find_distinct [OF assms(1), of j] assms(2) by (simp add: row_for_def journal_row_def)

lemma grows_refl [simp]: "grows w w"
  by (auto simp: grows_def)

lemma task_ok_grows:
  assumes "grows w w'" and "task_ok w t" and rows: "\<forall>j \<in> set (pw_journal w). purge_row_ok w j"
  shows "task_ok w' t"
proof (cases "unbound (tk_phase t)")
  case False
  then obtain j where j: "row_for w t j" "phase_ok (tk_phase t) t j w" using assms(2) by (auto simp: task_ok_def)
  then obtain j' where j': "row_for w' t j'" "pj_kuzu j \<longrightarrow> pj_kuzu j'" "pj_vector j \<longrightarrow> pj_vector j'"
    using assms(1) unfolding grows_def by blast
  have known: "\<And>i. i \<in> set (tk_targets t) \<Longrightarrow> i \<in> nd_id ` set (pw_nodes w)"
    using j(1) rows by (fastforce simp: row_for_def purge_row_ok_def)
  have shrink: "\<And>a i. i \<in> nd_id ` set (pw_nodes w) \<Longrightarrow> (a, i) \<in> set (pw_graph w') \<Longrightarrow> (a, i) \<in> set (pw_graph w)"
    "\<And>a i. i \<in> nd_id ` set (pw_nodes w) \<Longrightarrow> (a, i) \<in> set (pw_vectors w') \<Longrightarrow> (a, i) \<in> set (pw_vectors w)"
    using assms(1) by (simp_all add: grows_def)
  have "all_absent (tk_agent t) (tk_targets t) (pw_graph w) \<longrightarrow> all_absent (tk_agent t) (tk_targets t) (pw_graph w')"
    "all_absent (tk_agent t) (tk_targets t) (pw_vectors w) \<longrightarrow> all_absent (tk_agent t) (tk_targets t) (pw_vectors w')"
    unfolding absent_iff using known shrink by blast+
  with j(2) j' have "phase_ok (tk_phase t) t j' w'" by (cases "tk_phase t") auto
  with j' show ?thesis by (auto simp: task_ok_def)
qed (simp add: task_ok_def)

text \<open>The three kinds of change a running task makes to the world.\<close>

lemma journal_change:
  assumes "keeps_row f" and ok: "purge_ok (w, ts)" and w': "w' = w\<lparr>pw_journal := upd P f (pw_journal w)\<rparr>"
    and new: "\<And>j. j \<in> set (pw_journal w) \<Longrightarrow> P j \<Longrightarrow> purge_row_ok w j \<Longrightarrow> purge_row_ok w (f j)"
  shows "purge_ok (w', ts) \<and> grows w w'"
proof -
  have keep: "\<And>j. pj_id (f j) = pj_id j \<and> pj_agent (f j) = pj_agent j \<and> pj_targets (f j) = pj_targets j"
    using assms(1) by (simp add: keeps_row_def)
  have "row_for w' t (if P j then f j else j)" if "row_for w t j" for t j
    using that keep by (auto simp: row_for_def w' set_upd)
  moreover have "(pj_kuzu j \<longrightarrow> pj_kuzu (if P j then f j else j)) \<and> (pj_vector j \<longrightarrow> pj_vector (if P j then f j else j))" for j
    using assms(1) by (simp add: keeps_row_def)
  ultimately have g: "grows w w'" unfolding grows_def w' by fastforce
  have rows: "purge_row_ok w' j" if "j \<in> set (pw_journal w')" for j
    using that ok new by (auto simp: w' purge_ok_def purge_row_ok_def set_upd)
  have "targeted w' a i = targeted w a i" for a i
    unfolding targeted_pairs by (simp add: w' map_upd_key keep)
  then have "spared w'" using ok by (simp add: spared_def purge_ok_def w')
  moreover have "map pj_id (pw_journal w') = map pj_id (pw_journal w)" by (simp add: w' map_upd_key keep)
  ultimately show ?thesis using g rows ok task_ok_grows [OF g] by (auto simp: purge_ok_def)
qed

lemma store_change:
  assumes ok: "purge_ok (w, ts)" and row: "row_for w t j" and sub: "set ids \<subseteq> set (tk_targets t)"
    and w': "w' = w\<lparr>pw_graph := without_nodes (tk_agent t) ids (pw_graph w)\<rparr> \<or> w' = w\<lparr>pw_vectors := without_nodes (tk_agent t) ids (pw_vectors w)\<rparr>"
  shows "purge_ok (w', ts) \<and> grows w w'"
proof -
  have g: "grows w w'" using w' by (auto simp: grows_def row_for_def set_without)
  have same: "pw_journal w' = pw_journal w" "pw_nodes w' = pw_nodes w" using w' by auto
  have rows: "\<forall>j \<in> set (pw_journal w'). purge_row_ok w' j"
    using ok w' by (auto simp: purge_ok_def purge_row_ok_def absent_iff set_without)
  have tg: "targeted w (tk_agent t) i" if "i \<in> set ids" for i
    using that row sub unfolding targeted_def row_for_def by (intro bexI [of _ j]) auto
  have "spared w'"
    unfolding spared_def same
  proof
    fix n assume n: "n \<in> set (pw_nodes w)"
    have "targeted w (nd_agent n) (nd_id n) \<or> ((nd_agent n, nd_id n) \<in> set (pw_graph w) \<and> (nd_agent n, nd_id n) \<in> set (pw_vectors w))"
      using ok n by (simp add: purge_ok_def spared_def)
    moreover have "targeted w (nd_agent n) (nd_id n)" if "nd_agent n = tk_agent t" "nd_id n \<in> set ids" using tg that by simp
    ultimately show "targeted w' (nd_agent n) (nd_id n) \<or> ((nd_agent n, nd_id n) \<in> set (pw_graph w') \<and> (nd_agent n, nd_id n) \<in> set (pw_vectors w'))"
      using w' by (auto simp: targeted_def set_without)
  qed
  then show ?thesis using g rows ok task_ok_grows [OF g] by (auto simp: purge_ok_def same)
qed

subsection \<open>Every step keeps the invariant\<close>

lemma ok_task: "purge_ok (w, ts) \<Longrightarrow> t \<in> set ts \<Longrightarrow> task_ok w t"
  by (simp add: purge_ok_def)

lemma bound_row:
  assumes "task_ok w t" and "\<not> unbound (tk_phase t)"
  obtains j where "row_for w t j" and "phase_ok (tk_phase t) t j w"
  using assms by (auto simp: task_ok_def)

lemma advance_purge_ok:
  assumes ok: "purge_ok (w, ts)" and row: "row_for w t j"
    and new: "purge_row_ok w (j\<lparr>pj_state := st, pj_error := None, pj_kuzu := pj_kuzu j \<or> k, pj_vector := pj_vector j \<or> v\<rparr>)"
  shows "purge_ok (advance_purge (tk_purge t) st k v w, ts) \<and> grows w (advance_purge (tk_purge t) st k v w)"
proof (rule journal_change [OF _ ok advance_purge_def])
  show "keeps_row (\<lambda>j. j\<lparr>pj_state := st, pj_error := None, pj_kuzu := pj_kuzu j \<or> k, pj_vector := pj_vector j \<or> v\<rparr>)"
    by (simp add: keeps_row_def)
next
  fix j' assume "j' \<in> set (pw_journal w)" "pj_id j' = tk_purge t"
  then have "j' = j" using ok row unfolding purge_ok_def row_for_def by (metis distinct_map fst_conv inj_onD)
  then show "purge_row_ok w (j'\<lparr>pj_state := st, pj_error := None, pj_kuzu := pj_kuzu j' \<or> k, pj_vector := pj_vector j' \<or> v\<rparr>)"
    using new by simp
qed

lemma advanced_row:
  assumes "row_for w t j"
  shows "row_for (advance_purge (tk_purge t) st k v w) t (j\<lparr>pj_state := st, pj_error := None, pj_kuzu := pj_kuzu j \<or> k, pj_vector := pj_vector j \<or> v\<rparr>)"
  using assms by (auto simp: row_for_def advance_purge_def set_upd)

lemma marked_ok:
  assumes ok: "purge_ok (w, ts)"
  shows "purge_ok (snd (marked msg t w), ts) \<and> grows w (snd (marked msg t w)) \<and> (\<exists>r. tk_phase (fst (marked msg t w)) = Ended r)"
proof (cases "journal_row w (tk_purge t)")
  case None
  then show ?thesis using ok by (simp add: marked_def mark_purge_retry_def ended_def)
next
  case (Some j)
  let ?f = "\<lambda>x. x\<lparr>pj_state := if 3 \<le> pj_retries j + 1 then BLOCKED else RETRY_PENDING, pj_retries := pj_retries j + 1, pj_error := Some msg\<rparr>"
  let ?w = "w\<lparr>pw_journal := upd (\<lambda>x. pj_id x = tk_purge t) ?f (pw_journal w)\<rparr>"
  have "purge_ok (?w, ts) \<and> grows w ?w"
    by (rule journal_change [OF _ ok refl]) (auto simp: keeps_row_def purge_row_ok_def)
  then show ?thesis using Some by (simp add: marked_def mark_purge_retry_def ended_def)
qed

text \<open>The nodes matter to the invariant by their keys only.\<close>

lemma spared_keys:
  "spared w \<longleftrightarrow> (\<forall>k \<in> set (map (\<lambda>n. (nd_agent n, nd_id n)) (pw_nodes w)). targeted w (fst k) (snd k) \<or> (k \<in> set (pw_graph w) \<and> k \<in> set (pw_vectors w)))"
  by (auto simp: spared_def)

lemma row_keys:
  "purge_row_ok w j \<longleftrightarrow> (pj_kuzu j \<longrightarrow> all_absent (pj_agent j) (pj_targets j) (pw_graph w)) \<and>
     (pj_vector j \<longrightarrow> all_absent (pj_agent j) (pj_targets j) (pw_vectors w)) \<and>
     (pj_state j \<in> {VERIFIED, FINALIZED} \<longrightarrow> pj_kuzu j \<and> pj_vector j) \<and>
     (\<forall>i \<in> set (pj_targets j). \<exists>k \<in> set (map (\<lambda>n. (nd_id n, nd_agent n, nd_session n)) (pw_nodes w)).
        fst k = i \<and> fst (snd k) = pj_agent j \<and> (pj_scope j = ''session'' \<longrightarrow> pj_session j = Some (snd (snd k))))"
  by (auto simp: purge_row_ok_def)

lemma node_change:
  assumes ok: "purge_ok (w, ts)" and w': "w' = w\<lparr>pw_nodes := upd P f (pw_nodes w)\<rparr>"
    and keep: "\<And>n. nd_id (f n) = nd_id n \<and> nd_agent (f n) = nd_agent n \<and> nd_session (f n) = nd_session n"
  shows "purge_ok (w', ts) \<and> grows w w'"
proof -
  have keys: "map (\<lambda>n. (nd_id n, nd_agent n, nd_session n)) (pw_nodes w') = map (\<lambda>n. (nd_id n, nd_agent n, nd_session n)) (pw_nodes w)"
    "map (\<lambda>n. (nd_agent n, nd_id n)) (pw_nodes w') = map (\<lambda>n. (nd_agent n, nd_id n)) (pw_nodes w)"
    by (simp_all add: w' map_upd_key keep)
  have same: "pw_journal w' = pw_journal w" "pw_graph w' = pw_graph w" "pw_vectors w' = pw_vectors w" by (simp_all add: w')
  have g: "grows w w'" by (auto simp: grows_def row_for_def same)
  have tg: "targeted w' = targeted w" by (simp add: fun_eq_iff targeted_def same)
  have "spared w'" using ok unfolding purge_ok_def spared_keys keys tg same by simp
  moreover have "\<forall>j \<in> set (pw_journal w'). purge_row_ok w' j" using ok unfolding purge_ok_def row_keys keys same by simp
  ultimately show ?thesis using ok g task_ok_grows [OF g] by (auto simp: purge_ok_def same)
qed

lemma grows_trans:
  assumes "grows w w'" and "grows w' w''" and "nd_id ` set (pw_nodes w) \<subseteq> nd_id ` set (pw_nodes w')"
  shows "grows w w''"
  using assms unfolding grows_def by (meson subsetD)

lemma undo_write_ok:
  assumes ok: "purge_ok (w, ts)"
  shows "purge_ok (snd (undo_write t w), ts) \<and> grows w (snd (undo_write t w))"
proof -
  let ?w1 = "w\<lparr>pw_journal := upd (\<lambda>j. pj_id j = tk_purge t)
    (\<lambda>j. j\<lparr>pj_state := FAILED_SAFE, pj_error := Some ''pre-downstream tombstone_node rollback''\<rparr>) (pw_journal w)\<rparr>"
  have one: "purge_ok (?w1, ts) \<and> grows w ?w1"
    by (rule journal_change [OF _ ok refl]) (auto simp: keeps_row_def purge_row_ok_def)
  have two: "purge_ok (snd (undo_write t w), ts) \<and> grows ?w1 (snd (undo_write t w))"
    by (rule node_change [where P = "\<lambda>n. nd_purge n = Some (tk_purge t) \<and> nd_agent n = tk_agent t \<and> nd_id n \<in> set (tk_targets t)"
          and f = "\<lambda>n. n\<lparr>nd_invalid := False, nd_deleted := False, nd_purge := None\<rparr>"])
      (use one in \<open>simp_all add: undo_write_def Let_def\<close>)
  then show ?thesis using one grows_trans [of w ?w1] by auto
qed

lemma begin_resume_ok:
  assumes ok: "purge_ok (w, ts)"
  shows "task_ok w (begin_resume c t w)"
proof (cases "journal_row w (tk_purge t)")
  case None
  then show ?thesis by (simp add: begin_resume_def ended_def task_ok_def)
next
  case (Some j)
  have "row_for w (t\<lparr>tk_agent := pj_agent j, tk_targets := pj_targets j, tk_phase := ph\<rparr>) j" for ph
    using journal_rowD [OF Some] by (simp add: row_for_def)
  then show ?thesis using Some by (fastforce simp: begin_resume_def ended_def task_ok_def)
qed

lemma undo_check_ok: "task_ok w (undo_check t w)"
proof (cases "journal_row w (tk_purge t)")
  case None
  then show ?thesis by (simp add: undo_check_def ended_def task_ok_def)
next
  case (Some j)
  have "row_for w (t\<lparr>tk_agent := pj_agent j, tk_targets := pj_targets j, tk_phase := Undo_Write\<rparr>) j"
    using journal_rowD [OF Some] by (simp add: row_for_def)
  then show ?thesis using Some by (fastforce simp: undo_check_def ended_def task_ok_def)
qed

lemma row_for_at [simp]: "row_for w (at_phase ph t) j = row_for w t j"
  by (simp add: row_for_def at_phase_def)

lemma task_at [simp]: "tk_phase (at_phase ph t) = ph" "tk_agent (at_phase ph t) = tk_agent t" "tk_targets (at_phase ph t) = tk_targets t"
    "tk_purge (at_phase ph t) = tk_purge t"
  by (simp_all add: at_phase_def)

lemma phase_ok_at [simp]: "phase_ok ph (at_phase ph' t) j w = phase_ok ph t j w"
  by (cases ph) simp_all

lemma task_ok_at: "row_for w t j \<Longrightarrow> phase_ok ph t j w \<Longrightarrow> task_ok w (at_phase ph t)"
  by (auto simp: task_ok_def)

lemma task_ended [simp]: "task_ok w (ended r t)"
  by (simp add: task_ok_def ended_def)

lemma to_vectors_ok: "set ids \<subseteq> set (tk_targets t) \<Longrightarrow> pj_kuzu j \<Longrightarrow> phase_ok (to_vectors ids) t j w"
  by (simp add: to_vectors_def)

lemma row_in_ok: "purge_ok (w, ts) \<Longrightarrow> row_for w t j \<Longrightarrow> purge_row_ok w j \<and> pj_agent j = tk_agent t \<and> pj_targets j = tk_targets t"
  by (simp add: purge_ok_def row_for_def)

lemma task_shrunk:
  assumes ok: "purge_ok (w, ts)" and row: "row_for w t j" and sub: "set ids \<subseteq> set (tk_targets t)"
    and w': "w' = w\<lparr>pw_graph := without_nodes (tk_agent t) ids (pw_graph w)\<rparr> \<or> w' = w\<lparr>pw_vectors := without_nodes (tk_agent t) ids (pw_vectors w)\<rparr>"
    and ph: "phase_ok ph t j w'"
  shows "purge_ok (w', ts) \<and> grows w w' \<and> task_ok w' (at_phase ph t)"
proof -
  have "row_for w' t j" using w' row by (auto simp: row_for_def)
  then show ?thesis using store_change [OF ok row sub w'] task_ok_at [OF _ ph] by blast
qed

lemma task_advanced:
  assumes ok: "purge_ok (w, ts)" and row: "row_for w t j"
    and "purge_row_ok w (j\<lparr>pj_state := st, pj_error := None, pj_kuzu := pj_kuzu j \<or> k, pj_vector := pj_vector j \<or> v\<rparr>)"
    and "w' = advance_purge (tk_purge t) st k v w"
    and "phase_ok ph t (j\<lparr>pj_state := st, pj_error := None, pj_kuzu := pj_kuzu j \<or> k, pj_vector := pj_vector j \<or> v\<rparr>) w'"
  shows "purge_ok (w', ts) \<and> grows w w' \<and> task_ok w' (at_phase ph t)"
  using advance_purge_ok [OF ok row assms(3)] task_ok_at [OF advanced_row [OF row]] assms(4,5) by blast

lemma task_step_ok:
  assumes ok: "purge_ok (w, ts)" and t: "task_ok w t" and step: "task_step c reply (tk_phase t) t w = (t', w')"
  shows "purge_ok (w', ts) \<and> grows w w' \<and> task_ok w' t'"
proof (cases "unbound (tk_phase t)")
  case True
  then show ?thesis using step ok t begin_resume_ok [OF ok] undo_check_ok
    by (cases "tk_phase t") (auto simp: task_ok_def)
next
  case False
  then obtain j where j: "row_for w t j" "phase_ok (tk_phase t) t j w" using t bound_row by blast
  have d: "distinct (map pj_id (pw_journal w))" using ok by (simp add: purge_ok_def)
  note row = row_in_ok [OF ok j(1)]
  note shrunk = task_shrunk [OF ok j(1), where w' = w'] and moved = task_advanced [OF ok j(1), where w' = w']
  show ?thesis
  proof (cases "tk_phase t")
    case Delete_Graph
    then show ?thesis using step shrunk [where ids = "tk_targets t" and ph = Check_Graph]
        shrunk [where ids = "filter (\<lambda>i. i \<in> set (case reply of Fine \<Rightarrow> [] | Raises ids \<Rightarrow> ids)) (tk_targets t)" and ph = Mark_Graph]
      by (cases reply) auto
  next
    case Check_Graph
    then show ?thesis using step ok task_ok_at [OF j(1), of Apply_Graph] task_ok_at [OF j(1), of Mark_Graph] by (cases reply) auto
  next
    case Apply_Graph
    then show ?thesis using step j row moved [where st = KUZU_APPLIED and k = True and v = False and ph = Reread] by (auto simp: purge_row_ok_def)
  next
    case Mark_Graph
    then show ?thesis using step marked_ok [OF ok, of "''kuzu''" t] by (auto simp: task_ok_def)
  next
    case Reread
    then show ?thesis using step ok j row_found [OF d j(1)] task_ok_at [OF j(1), of Apply_Verified] task_ok_at [OF j(1), of "to_vectors (tk_targets t)"]
      by (auto simp: to_vectors_ok split: if_splits)
  next
    case (Delete_Vector ids)
    have "set (take 1 ids) \<subseteq> set (tk_targets t)" "set (tl ids) \<subseteq> set (tk_targets t)"
      using j(2) Delete_Vector by (cases ids; auto)+
    moreover have "pj_kuzu j" using j(2) Delete_Vector by simp
    ultimately show ?thesis using step Delete_Vector shrunk [where ids = "take 1 ids" and ph = "to_vectors (tl ids)"]
        shrunk [where ids = "filter (\<lambda>i. i \<in> set (case reply of Fine \<Rightarrow> [] | Raises gone \<Rightarrow> gone)) (take 1 ids)" and ph = Mark_Vector]
      by (cases reply) (auto simp: to_vectors_ok)
  next
    case Check_Vector
    then show ?thesis using step ok j(2) task_ok_at [OF j(1), of Apply_Vector] task_ok_at [OF j(1), of Mark_Vector] by (cases reply) auto
  next
    case Apply_Vector
    then show ?thesis using step j row moved [where st = VECTOR_APPLIED and k = False and v = True and ph = Apply_Verified] by (auto simp: purge_row_ok_def)
  next
    case Mark_Vector
    then show ?thesis using step marked_ok [OF ok, of "''vector''" t] by (auto simp: task_ok_def)
  next
    case Apply_Verified
    then show ?thesis using step j row moved [where st = VERIFIED and k = False and v = False and ph = Apply_Final] by (auto simp: purge_row_ok_def)
  next
    case Apply_Final
    have "purge_row_ok w (j\<lparr>pj_state := FINALIZED, pj_error := None, pj_kuzu := pj_kuzu j \<or> False, pj_vector := pj_vector j \<or> False\<rparr>)"
      using j(2) row Apply_Final unfolding purge_row_ok_def by auto
    then show ?thesis using step Apply_Final advance_purge_ok [OF ok j(1)] by auto
  next
    case Undo_Write
    then show ?thesis using step undo_write_ok [OF ok, of t] by (auto simp: undo_write_def Let_def)
  qed (use False in simp_all)
qed

lemma purge_ok_db [simp]: "purge_ok (w\<lparr>pw_db := d\<rparr>, ts) = purge_ok (w, ts)"
proof -
  have "grows w (w\<lparr>pw_db := d\<rparr>)" "grows (w\<lparr>pw_db := d\<rparr>) w" by (auto simp: grows_def row_for_def)
  moreover have "purge_row_ok (w\<lparr>pw_db := d\<rparr>) = purge_row_ok w" "spared (w\<lparr>pw_db := d\<rparr>) = spared w"
    by (auto simp: fun_eq_iff purge_row_ok_def spared_def targeted_def)
  ultimately show ?thesis using task_ok_grows unfolding purge_ok_def by auto
qed

lemma journal_append:
  assumes ok: "purge_ok (w, ts)" and "purge_row_ok w j" and "pj_id j \<notin> pj_id ` set (pw_journal w)"
    and w': "w' = w\<lparr>pw_journal := pw_journal w @ [j]\<rparr>"
  shows "purge_ok (w', ts)"
proof -
  have g: "grows w w'" by (auto simp: grows_def row_for_def w')
  have "targeted w a i \<Longrightarrow> targeted w' a i" for a i by (auto simp: targeted_def w')
  then have "spared w'" using ok by (auto simp: purge_ok_def spared_def w')
  moreover have "\<forall>j \<in> set (pw_journal w'). purge_row_ok w' j" using ok assms(2) by (auto simp: w' purge_ok_def purge_row_ok_def)
  ultimately show ?thesis using ok assms(3) task_ok_grows [OF g] by (auto simp: purge_ok_def w')
qed

lemma purge_tx_ok:
  assumes ok: "purge_ok (w, ts)" and fresh: "new_id \<notin> pj_id ` set (pw_journal w)" and args: "scope = ''session'' \<longrightarrow> session \<noteq> None"
    and tx: "purge_tx c new_id key agent scope session who w = Inr (p, w')"
  shows "purge_ok (w', ts)"
proof (cases "find (\<lambda>j. pj_key j = key) (pw_journal w)")
  case (Some j)
  with tx ok show ?thesis by (auto simp: purge_tx_def split: if_splits)
next
  case None
  define sess where "sess = (if scope = ''session'' then session else None)"
  define targets where "targets = map nd_id (filter (in_scope agent sess) (pw_nodes w))"
  obtain ids d where "purge_mutations (\<lambda>m. mu_agent m = agent \<and> (scope = ''session'' \<longrightarrow> session = Some (pc_session_of c m))) (pw_db w) = Inr (ids, d)"
    using tx None by (auto simp: purge_tx_def split: sum.splits)
  note tx' = tx [unfolded purge_tx_def None option.case this sum.case prod.case Let_def, folded sess_def, folded targets_def]
  show ?thesis
  proof (cases "targets = []")
    case True
    with tx' ok show ?thesis by auto
  next
    case False
    define w1 where "w1 = w\<lparr>pw_nodes := upd (\<lambda>n. in_scope agent None n \<and> nd_id n \<in> set targets) (tombstone_node new_id) (pw_nodes w)\<rparr>"
    define j where "j = \<lparr>pj_id = new_id, pj_key = key, pj_principal = who, pj_agent = agent, pj_scope = scope,
      pj_session = session, pj_targets = targets, pj_state = TOMBSTONED, pj_kuzu = False, pj_vector = False, pj_retries = 0, pj_error = None\<rparr>"
    have w1: "purge_ok (w1, ts)" using node_change [OF ok w1_def] by (simp add: tombstone_node_def)
    have "purge_row_ok w j"
      using args by (auto simp: purge_row_ok_def j_def targets_def sess_def in_scope_def split: option.splits)
    then have "purge_row_ok w1 j" unfolding row_keys by (simp add: w1_def map_upd_key tombstone_node_def)
    then have "purge_ok (w1\<lparr>pw_journal := pw_journal w1 @ [j]\<rparr>, ts)"
      using journal_append [OF w1] fresh by (simp add: j_def w1_def)
    then have "purge_ok ((w1\<lparr>pw_journal := pw_journal w1 @ [j]\<rparr>)\<lparr>pw_db := pw_db w'\<rparr>, ts)" by simp
    moreover have "w' = (w1\<lparr>pw_journal := pw_journal w1 @ [j]\<rparr>)\<lparr>pw_db := pw_db w'\<rparr>"
      using tx' False by (auto simp: w1_def j_def)
    ultimately show ?thesis by simp
  qed
qed

lemma purge_memory_ok:
  assumes ok: "purge_ok (w, ts)" and "new_id \<notin> pj_id ` set (pw_journal w)" and "purge_memory c new_id agent scope session who key fresh w = (r, w')"
  shows "purge_ok (w', ts)"
proof (cases "purge_args_ok agent scope session key")
  case True
  then have "scope = ''session'' \<longrightarrow> session \<noteq> None" by (auto simp: purge_args_ok_def split: if_splits)
  note tx = purge_tx_ok [OF ok assms(2) this]
  from True assms(1,3) show ?thesis
    by (auto simp: purge_memory_def Let_def split: sum.splits option.splits if_splits dest: tx)
next
  case False
  with assms show ?thesis by (simp add: purge_memory_def)
qed

lemma written_ok:
  assumes ok: "purge_ok (w, ts)" and fresh: "i \<notin> nd_id ` set (pw_nodes w)"
    and w': "w' = w\<lparr>pw_nodes := pw_nodes w @ [\<lparr>nd_id = i, nd_agent = a, nd_session = x, nd_invalid = False, nd_deleted = False, nd_purge = None\<rparr>],
      pw_graph := pw_graph w @ [(a, i)], pw_vectors := pw_vectors w @ [(a, i)]\<rparr>"
  shows "purge_ok (w', ts)"
proof -
  have g: "grows w w'" using fresh by (auto simp: grows_def row_for_def w')
  have tg: "targeted w' = targeted w" by (simp add: fun_eq_iff targeted_def w')
  have "spared w'" using ok by (auto simp: purge_ok_def spared_def tg) (auto simp: w')
  moreover have "\<forall>j \<in> set (pw_journal w'). purge_row_ok w' j"
  proof
    fix j assume "j \<in> set (pw_journal w')"
    then have j: "purge_row_ok w j" using ok by (simp add: purge_ok_def w')
    then have "i \<notin> set (pj_targets j)" using fresh by (force simp: purge_row_ok_def)
    with j show "purge_row_ok w' j" by (auto simp: purge_row_ok_def w' absent_iff)
  qed
  ultimately show ?thesis using ok task_ok_grows [OF g] by (auto simp: purge_ok_def w')
qed

lemma purge_ok_step: "purge_step c s s' \<Longrightarrow> purge_ok s \<Longrightarrow> purge_ok s'"
proof (induction rule: purge_step.induct)
  case (Requested new_id agent scope session who key fresh w r w' ts)
  then have "purge_ok (w', ts)" by (auto intro: purge_memory_ok)
  then show ?case by (auto simp: purge_ok_def task_ok_def new_task_def split: sum.splits)
next
  case (Ran n ts reply w t w')
  then have "task_ok w (ts ! n)" by (simp add: purge_ok_def)
  then show ?case using task_step_ok [OF Ran(3) _ Ran(2)] by (auto simp: purge_ok_def dest!: set_update_subset_insert [THEN subsetD])
next
  case (Crashed w ts n)
  then show ?case by (auto simp: purge_ok_def dest: in_set_takeD in_set_dropD)
next
  case (Written i w ts agent session)
  then show ?case by (auto intro: written_ok)
qed (auto simp: purge_ok_def task_ok_def new_task_def)

lemma purge_ok_reachable: "(purge_step c)\<^sup>*\<^sup>* (no_memory d, []) s \<Longrightarrow> purge_ok s"
proof (induction rule: rtranclp_induct)
  case base
  show ?case by (simp add: purge_ok_def no_memory_def spared_def)
qed (rule purge_ok_step)

text \<open>
  C21. However requests, resumptions, rollbacks and crashes interleave and whatever the stores answer, a purge that is
  FINALIZED has removed each of its targets from the graph and from the vector store, and each of them was a node of its
  agent (and of its session).
\<close>

theorem final_purge_is_complete:
  assumes "(purge_step c)\<^sup>*\<^sup>* (no_memory d, []) (w, ts)" and "j \<in> set (pw_journal w)" and "pj_state j = FINALIZED" and "i \<in> set (pj_targets j)"
  shows "(pj_agent j, i) \<notin> set (pw_graph w) \<and> (pj_agent j, i) \<notin> set (pw_vectors w) \<and>
    (\<exists>n \<in> set (pw_nodes w). nd_id n = i \<and> nd_agent n = pj_agent j \<and> (pj_scope j \<noteq> ''session'' \<or> pj_session j = Some (nd_session n)))"
proof -
  have "purge_row_ok w j" using purge_ok_reachable [OF assms(1)] assms(2) by (simp add: purge_ok_def)
  then show ?thesis using assms(3,4) unfolding purge_row_ok_def absent_iff by blast
qed

text \<open>
  No interleaving of purges widens their scope: a node that was written and that no journal entry of its agent
  targets is still in the graph and in the vector store.
\<close>

lemma purge_spares_the_rest:
  assumes "(purge_step c)\<^sup>*\<^sup>* (no_memory d, []) (w, ts)" and "n \<in> set (pw_nodes w)"
    and "list_all (\<lambda>j. pj_agent j = nd_agent n \<longrightarrow> nd_id n \<notin> set (pj_targets j)) (pw_journal w)"
  shows "(nd_agent n, nd_id n) \<in> set (pw_graph w) \<and> (nd_agent n, nd_id n) \<in> set (pw_vectors w)"
  using purge_ok_reachable [OF assms(1)] assms(2,3) by (auto simp: purge_ok_def spared_def targeted_def list_all_iff)

subsection \<open>An undisturbed resumption\<close>

fun on_course :: "purge_phase \<Rightarrow> purge_task \<Rightarrow> purge_world \<Rightarrow> bool" where
  "on_course Delete_Graph t w = True"
| "on_course Check_Graph t w = all_absent (tk_agent t) (tk_targets t) (pw_graph w)"
| "on_course Apply_Graph t w = True"
| "on_course Reread t w = True"
| "on_course (Delete_Vector ids) t w = (ids \<noteq> [] \<and> (\<forall>i \<in> set (tk_targets t). i \<in> set ids \<or> (tk_agent t, i) \<notin> set (pw_vectors w)))"
| "on_course Check_Vector t w = all_absent (tk_agent t) (tk_targets t) (pw_vectors w)"
| "on_course Apply_Vector t w = True"
| "on_course Apply_Verified t w = True"
| "on_course Apply_Final t w = True"
| "on_course _ t w = False"

fun stops_left :: "purge_phase \<Rightarrow> nat \<Rightarrow> nat" where
  "stops_left Delete_Graph k = 8 + k"
| "stops_left Check_Graph k = 7 + k"
| "stops_left Apply_Graph k = 6 + k"
| "stops_left Reread k = 5 + k"
| "stops_left (Delete_Vector ids) k = 4 + length ids"
| "stops_left Check_Vector k = 4"
| "stops_left Apply_Vector k = 3"
| "stops_left Apply_Verified k = 2"
| "stops_left Apply_Final k = 1"
| "stops_left _ k = 0"

definition alone :: "purge_config \<Rightarrow> purge_task \<times> purge_world \<Rightarrow> purge_task \<times> purge_world" where
  "alone c = (\<lambda>(t, w). task_step c Fine (tk_phase t) t w)"

definition finished :: "string \<Rightarrow> string \<Rightarrow> string list \<Rightarrow> purge_task \<times> purge_world \<Rightarrow> bool" where
  "finished p a ids = (\<lambda>(t, w). tk_phase t = Ended (Inr (length ids)) \<and>
     map_option pj_state (journal_row w p) = Some FINALIZED \<and> all_absent a ids (pw_graph w) \<and> all_absent a ids (pw_vectors w))"

lemma finished_stays: "finished p a ids x \<Longrightarrow> finished p a ids ((alone c ^^ k) x)"
  by (induction k) (auto simp: finished_def alone_def)

lemma on_course_at [simp]: "on_course ph (at_phase ph' t) w = on_course ph t w"
  by (cases ph) simp_all

lemma on_course_step:
  assumes ok: "purge_ok (w, [])" and t: "task_ok w t" and course: "on_course (tk_phase t) t w"
  obtains t' w' where "alone c (t, w) = (t', w')" and "purge_ok (w', [])" and "task_ok w' t'" and "tk_purge t' = tk_purge t"
    and "tk_agent t' = tk_agent t" and "tk_targets t' = tk_targets t"
    and "finished (tk_purge t) (tk_agent t) (tk_targets t) (t', w') \<or>
      on_course (tk_phase t') t' w' \<and> stops_left (tk_phase t') (length (tk_targets t)) < stops_left (tk_phase t) (length (tk_targets t))"
proof -
  obtain t' w' where st: "task_step c Fine (tk_phase t) t w = (t', w')" by fastforce
  have ok': "purge_ok (w', [])" "task_ok w' t'" using task_step_ok [OF ok t st] by auto
  have nu: "\<not> unbound (tk_phase t)" using course by (cases "tk_phase t") auto
  obtain j where j: "row_for w t j" "phase_ok (tk_phase t) t j w" using bound_row [OF t nu] by blast
  have d: "distinct (map pj_id (pw_journal w))" "distinct (map pj_id (pw_journal w'))" using ok ok' by (auto simp: purge_ok_def)
  have same: "tk_purge t' = tk_purge t \<and> tk_agent t' = tk_agent t \<and> tk_targets t' = tk_targets t"
    using st course row_found [OF d(1) j(1)] by (cases "tk_phase t") (auto simp: ended_def)
  have "finished (tk_purge t) (tk_agent t) (tk_targets t) (t', w') \<or>
      on_course (tk_phase t') t' w' \<and> stops_left (tk_phase t') (length (tk_targets t)) < stops_left (tk_phase t) (length (tk_targets t))"
  proof (cases "tk_phase t")
    case Reread
    then show ?thesis using st row_found [OF d(1) j(1)] by (auto simp: to_vectors_def absent_iff)
  next
    case (Delete_Vector ids)
    then obtain a as where ids: "ids = a # as" using course by (cases ids) auto
    have t': "t' = at_phase (to_vectors as) t" and w': "w' = w\<lparr>pw_vectors := without_nodes (tk_agent t) [a] (pw_vectors w)\<rparr>"
      using st Delete_Vector ids by simp_all
    have "i \<in> set as \<or> (tk_agent t, i) \<notin> set (pw_vectors w')" if "i \<in> set (tk_targets t)" for i
      using that course Delete_Vector ids by (cases "i = a") (auto simp: w' set_without)
    then show ?thesis using Delete_Vector ids by (auto simp: t' to_vectors_def absent_iff)
  next
    case Apply_Final
    let ?j = "j\<lparr>pj_state := FINALIZED, pj_error := None, pj_kuzu := pj_kuzu j \<or> False, pj_vector := pj_vector j \<or> False\<rparr>"
    have w': "w' = advance_purge (tk_purge t) FINALIZED False False w" and t': "tk_phase t' = Ended (Inr (length (tk_targets t)))"
      using st Apply_Final by (auto simp: ended_def)
    have r: "row_for w' t ?j" unfolding w' by (rule advanced_row [OF j(1)])
    have "journal_row w' (tk_purge t) = Some ?j" by (rule row_found [OF d(2) r])
    moreover have "purge_row_ok w' ?j" "pj_agent ?j = tk_agent t" "pj_targets ?j = tk_targets t" using row_in_ok [OF ok'(1) r] by auto
    ultimately show ?thesis using t' j(2) Apply_Final by (auto simp: finished_def purge_row_ok_def)
  qed (use st course in \<open>auto simp: absent_iff set_without\<close>)
  then show thesis using that [of t' w'] st ok' same by (simp add: alone_def)
qed

lemma course_finishes:
  assumes "purge_ok (w, [])" and "task_ok w t" and "on_course (tk_phase t) t w" and "stops_left (tk_phase t) (length (tk_targets t)) \<le> k"
  shows "finished (tk_purge t) (tk_agent t) (tk_targets t) ((alone c ^^ k) (t, w))"
  using assms
proof (induction k arbitrary: t w)
  case 0
  then show ?case by (cases "tk_phase t") auto
next
  case (Suc k)
  from on_course_step [OF Suc.prems(1-3), of c] obtain t' w' where st: "alone c (t, w) = (t', w')" and ok: "purge_ok (w', [])" "task_ok w' t'"
    and same: "tk_purge t' = tk_purge t" "tk_agent t' = tk_agent t" "tk_targets t' = tk_targets t"
    and go: "finished (tk_purge t) (tk_agent t) (tk_targets t) (t', w') \<or>
      on_course (tk_phase t') t' w' \<and> stops_left (tk_phase t') (length (tk_targets t)) < stops_left (tk_phase t) (length (tk_targets t))"
    by blast
  from go show ?case
  proof
    assume "finished (tk_purge t) (tk_agent t) (tk_targets t) (t', w')"
    then show ?thesis using finished_stays st by (simp add: funpow_swap1)
  next
    assume c: "on_course (tk_phase t') t' w' \<and> stops_left (tk_phase t') (length (tk_targets t)) < stops_left (tk_phase t) (length (tk_targets t))"
    then have "finished (tk_purge t') (tk_agent t') (tk_targets t') ((alone c ^^ k) (t', w'))"
      using Suc.prems(4) ok same by (intro Suc.IH) auto
    then show ?thesis using st same by (simp add: funpow_swap1)
  qed
qed

text \<open>
  C22. In every reachable state a resumption of a purge that is neither final nor given up, left alone with stores that
  answer, ends after at most nine stops and one per target with the purge FINALIZED and its targets gone from both stores.
\<close>

theorem resumption_finishes:
  assumes "(purge_step c)\<^sup>*\<^sup>* (no_memory d, []) (w, ts)" and "journal_row w p = Some j"
    and "pj_state j \<notin> {FINALIZED, BLOCKED, COMPENSATION_REQUIRED, FAILED_SAFE}" and "pc_writer c" and "pc_stores c"
    and "9 + length (pj_targets j) \<le> k"
  shows "finished p (pj_agent j) (pj_targets j) ((alone c ^^ k) (new_task Begin p, w))"
proof -
  obtain k' where k: "k = Suc k'" "8 + length (pj_targets j) \<le> k'" using assms(6) by (cases k) auto
  define t where "t = begin_resume c (new_task Begin p) w"
  have t: "tk_purge t = p" "tk_agent t = pj_agent j" "tk_targets t = pj_targets j" "tk_phase t = (if pj_kuzu j then Reread else Delete_Graph)"
    using assms(2-5) by (auto simp: t_def begin_resume_def new_task_def)
  have ok: "purge_ok (w, ts)" by (rule purge_ok_reachable [OF assms(1)])
  have "task_ok w t" unfolding t_def by (rule begin_resume_ok [OF ok])
  with ok have "finished (tk_purge t) (tk_agent t) (tk_targets t) ((alone c ^^ k') (t, w))"
    using k(2) t by (intro course_finishes) (auto simp: purge_ok_def)
  then show ?thesis using t k(1) by (simp add: funpow_swap1 alone_def [of c] t_def new_task_def)
qed

subsection \<open>A purge, and a rollback that comes too late\<close>

text \<open>One node of one agent; its purge is requested and its task runs, while a rollback read the journal before the first delete.\<close>

definition plain_config :: purge_config where
  "plain_config = \<lparr>pc_writer = True, pc_stores = True, pc_session_of = (\<lambda>_. [])\<rparr>"

definition lone_node :: node where
  "lone_node = \<lparr>nd_id = ''n'', nd_agent = ''a'', nd_session = ''s'', nd_invalid = False, nd_deleted = False, nd_purge = None\<rparr>"

definition written_world :: purge_world where
  "written_world = \<lparr>pw_db = empty_db, pw_nodes = [lone_node], pw_journal = [], pw_graph = [(''a'', ''n'')], pw_vectors = [(''a'', ''n'')]\<rparr>"

definition requested_row :: purge where
  "requested_row = \<lparr>pj_id = ''p'', pj_key = ''purge:k'', pj_principal = ''__internal__'', pj_agent = ''a'', pj_scope = ''agent'', pj_session = None,
     pj_targets = [''n''], pj_state = TOMBSTONED, pj_kuzu = False, pj_vector = False, pj_retries = 0, pj_error = None\<rparr>"

definition requested_world :: purge_world where
  "requested_world = written_world\<lparr>pw_nodes := [tombstone_node ''p'' lone_node], pw_journal := [requested_row]\<rparr>"

lemma written_step: "purge_step plain_config (no_memory empty_db, []) (written_world, [])"
  using Written [of "''n''" "no_memory empty_db" plain_config "[]" "''a''" "''s''"] by (simp add: no_memory_def written_world_def lone_node_def)

lemma written_reachable: "(purge_step plain_config)\<^sup>*\<^sup>* (no_memory empty_db, []) (written_world, [])"
  using written_step by (rule r_into_rtranclp)

lemma request_eval: "purge_memory plain_config ''p'' ''a'' ''agent'' None None None ''k'' written_world = (Inr (Inr ''p''), requested_world)"
  by (simp add: purge_memory_def purge_args_ok_def valid_agent_def purge_tx_def written_world_def lone_node_def purge_mutations_def
    empty_db_def in_scope_def plain_config_def requested_world_def requested_row_def tombstone_node_def Let_def)

lemma requested_step: "purge_step plain_config (written_world, []) (requested_world, [new_task Begin ''p''])"
  using Requested [OF request_eval, of "[]"] by (simp add: written_world_def)

lemma requested_reachable: "(purge_step plain_config)\<^sup>*\<^sup>* (no_memory empty_db, []) (requested_world, [new_task Begin ''p''])"
  using written_reachable requested_step by (rule rtranclp.rtrancl_into_rtrancl)

definition run_task :: "nat \<Rightarrow> purge_system \<Rightarrow> purge_system" where
  "run_task n s = (case task_step plain_config Fine (tk_phase (snd s ! n)) (snd s ! n) (fst s) of (t, w) \<Rightarrow> (w, (snd s)[n := t]))"

lemma run_reachable:
  assumes "(purge_step plain_config)\<^sup>*\<^sup>* s0 s" and "n < length (snd s)"
  shows "(purge_step plain_config)\<^sup>*\<^sup>* s0 (run_task n s)"
proof -
  obtain w ts where s: "s = (w, ts)" by (cases s)
  obtain t w' where st: "task_step plain_config Fine (tk_phase (ts ! n)) (ts ! n) w = (t, w')" by fastforce
  have "purge_step plain_config (w, ts) (w', ts[n := t])" using assms(2) st by (intro Ran) (simp_all add: s)
  then show ?thesis using assms(1) st by (simp add: s run_task_def)
qed

lemma length_run [simp]: "length (snd (run_task n s)) = length (snd s)"
  by (simp add: run_task_def split: prod.split)

lemma schedule_reachable:
  assumes "(purge_step plain_config)\<^sup>*\<^sup>* s0 s" and "\<forall>n \<in> set ns. n < length (snd s)"
  shows "(purge_step plain_config)\<^sup>*\<^sup>* s0 (foldl (\<lambda>s n. run_task n s) s ns)"
  using assms
proof (induction ns arbitrary: s)
  case (Cons n ns)
  then have "(purge_step plain_config)\<^sup>*\<^sup>* s0 (run_task n s)" by (intro run_reachable) auto
  then show ?case using Cons.IH [of "run_task n s"] Cons.prems(2) by simp
qed simp

lemma two_tasks_reachable:
  "(purge_step plain_config)\<^sup>*\<^sup>* (no_memory empty_db, []) (requested_world, [new_task Begin ''p'', new_task Undo_Check ''p''])"
proof -
  have "purge_step plain_config (requested_world, [new_task Begin ''p'']) (requested_world, [new_task Begin ''p'', new_task Undo_Check ''p''])"
    using Rollback_Started [of plain_config requested_world "[new_task Begin ''p'']" "''p''"] by simp
  with requested_reachable show ?thesis by (rule rtranclp.rtrancl_into_rtrancl)
qed

definition raced :: purge_system where
  "raced = foldl (\<lambda>s n. run_task n s) (requested_world, [new_task Begin ''p'', new_task Undo_Check ''p'']) [1, 0, 0, 0, 1, 0, 0, 0, 0, 0, 0, 0]"

lemmas raced_simps = run_task_def new_task_def requested_world_def written_world_def requested_row_def plain_config_def lone_node_def undo_check_def
  begin_resume_def journal_row_def at_phase_def without_nodes_def all_absent_def to_vectors_def advance_purge_def undo_write_def ended_def tombstone_node_def

lemma raced_world: "pw_nodes (fst raced) = [lone_node] \<and> map pj_state (pw_journal (fst raced)) = [FINALIZED] \<and>
    pw_graph (fst raced) = [] \<and> pw_vectors (fst raced) = []"
  by (simp add: raced_def raced_simps Let_def)

lemma raced_reachable: "(purge_step plain_config)\<^sup>*\<^sup>* (no_memory empty_db, []) raced"
  unfolding raced_def by (rule schedule_reachable [OF two_tasks_reachable]) simp

text \<open>
  A rollback that has read the journal before the first delete restores the nodes in SQLite although the purge goes on
  to delete them from both stores and to become FINALIZED: live rows without_nodes graph node or vector are reachable.
\<close>

lemma late_rollback_loses_memory:
  "\<exists>w ts. (purge_step plain_config)\<^sup>*\<^sup>* (no_memory empty_db, []) (w, ts) \<and>
    (\<exists>n \<in> set (pw_nodes w). \<not> nd_invalid n \<and> \<not> nd_deleted n \<and> nd_purge n = None \<and>
      (nd_agent n, nd_id n) \<notin> set (pw_graph w) \<and> (nd_agent n, nd_id n) \<notin> set (pw_vectors w)) \<and>
    (\<exists>j \<in> set (pw_journal w). pj_state j = FINALIZED)"
proof (intro exI conjI)
  show "(purge_step plain_config)\<^sup>*\<^sup>* (no_memory empty_db, []) (fst raced, snd raced)" using raced_reachable by simp
  show "\<exists>n \<in> set (pw_nodes (fst raced)). \<not> nd_invalid n \<and> \<not> nd_deleted n \<and> nd_purge n = None \<and>
      (nd_agent n, nd_id n) \<notin> set (pw_graph (fst raced)) \<and> (nd_agent n, nd_id n) \<notin> set (pw_vectors (fst raced))"
    using raced_world by (simp add: lone_node_def)
  show "\<exists>j \<in> set (pw_journal (fst raced)). pj_state j = FINALIZED"
    using raced_world by (cases "pw_journal (fst raced)") auto
qed

text \<open>The witnesses of the first three theorems.\<close>

definition done_purge :: purge_system where
  "done_purge = foldl (\<lambda>s n. run_task n s) (requested_world, [new_task Begin ''p'']) (replicate 10 0)"

lemma done_reachable: "(purge_step plain_config)\<^sup>*\<^sup>* (no_memory empty_db, []) (fst done_purge, snd done_purge)"
  using schedule_reachable [OF requested_reachable, of "replicate 10 0"] by (simp add: done_purge_def)

definition final_row :: purge where
  "final_row = requested_row\<lparr>pj_state := FINALIZED, pj_kuzu := True, pj_vector := True\<rparr>"

lemma done_journal: "pw_journal (fst done_purge) = [final_row]"
  by (simp add: done_purge_def raced_simps final_row_def numeral_eq_Suc Let_def)

theorem final_purge_is_complete_witness:
  "(''a'', ''n'') \<notin> set (pw_graph (fst done_purge)) \<and> (''a'', ''n'') \<notin> set (pw_vectors (fst done_purge))"
  using final_purge_is_complete [OF done_reachable, of final_row "''n''"] by (simp add: done_journal) (simp add: final_row_def requested_row_def)

lemma purge_spares_the_rest_witness:
  "(''a'', ''n'') \<in> set (pw_graph written_world) \<and> (''a'', ''n'') \<in> set (pw_vectors written_world)"
  using purge_spares_the_rest [OF written_reachable, of lone_node] by (simp add: written_world_def lone_node_def)

theorem resumption_finishes_witness:
  "finished ''p'' ''a'' [''n''] ((alone plain_config ^^ 10) (new_task Begin ''p'', requested_world))"
  using resumption_finishes [OF requested_reachable, of "''p''" requested_row 10]
  by (simp add: journal_row_def requested_world_def) (simp add: requested_row_def plain_config_def)

end
