(* ===== verification/Access.thy ===== *)
theory Access imports Prelude begin

text \<open>
  The role and permission tables of \<open>mesa_memory/security/rbac.py\<close>. A table is the list of its primary keys with
  the column they determine; \<open>INSERT .. ON CONFLICT DO UPDATE\<close> is \<open>upsert\<close>. Names are ASCII. The migration of
  old tables in \<open>initialize\<close> copies rows and is left out.
\<close>

subsection \<open>Tables with a primary key\<close>

definition upsert :: "'k \<Rightarrow> 'v \<Rightarrow> ('v \<Rightarrow> 'v) \<Rightarrow> ('k \<times> 'v) list \<Rightarrow> ('k \<times> 'v) list" where
  "upsert k v f t = (if k \<in> fst ` set t then map (\<lambda>(k', x). if k' = k then (k', f x) else (k', x)) t else t @ [(k, v)])"

definition delete_key :: "'k \<Rightarrow> ('k \<times> 'v) list \<Rightarrow> bool \<times> ('k \<times> 'v) list" where
  "delete_key k t = (k \<in> fst ` set t, filter (\<lambda>(k', x). k' \<noteq> k) t)"

definition insert_ignore :: "'a \<Rightarrow> 'a list \<Rightarrow> 'a list" where
  "insert_ignore x t = (if x \<in> set t then t else t @ [x])"

lemma map_of_upsert: "map_of (upsert k v f t) = (map_of t)(k \<mapsto> (case map_of t k of None \<Rightarrow> v | Some x \<Rightarrow> f x))"
proof -
  have "map_of (map (\<lambda>(k', x). if k' = k then (k', f x) else (k', x)) t) j = (if j = k then map_option f (map_of t k) else map_of t j)" for j
    by (induction t) auto
  moreover have "k \<in> fst ` set t \<longleftrightarrow> map_of t k \<noteq> None" by (simp add: map_of_eq_None_iff)
  ultimately show ?thesis
    by (auto simp: fun_eq_iff upsert_def map_add_def split: option.splits)
qed

lemma map_of_delete: "map_of (snd (delete_key k t)) = (map_of t)(k := None)"
  by (induction t) (auto simp: fun_eq_iff delete_key_def)

lemma set_insert_ignore [simp]: "set (insert_ignore x t) = insert x (set t)"
  by (auto simp: insert_ignore_def)

subsection \<open>Levels\<close>

definition upper_char :: "char \<Rightarrow> char" where
  "upper_char c = (let n = of_char c :: nat in if 97 \<le> n \<and> n \<le> 122 then char_of (n - 32) else c)"

definition upper :: "string \<Rightarrow> string" where
  "upper s = map upper_char s"

definition access_level :: "string \<Rightarrow> nat" where
  "access_level l = (if l = ''READ'' then 1 else if l = ''WRITE'' then 2 else if l = ''ADMIN'' then 3 else 0)"

definition is_level :: "string \<Rightarrow> bool" where
  "is_level l \<longleftrightarrow> l \<in> {''READ'', ''WRITE'', ''ADMIN''}"

definition satisfies :: "string \<Rightarrow> string \<Rightarrow> bool" where
  "satisfies granted required \<longleftrightarrow> access_level required \<le> access_level granted"

definition role_level :: "string \<Rightarrow> nat" where
  "role_level r = (if r = ''READER'' then 1 else if r = ''WRITER'' then 2 else if r = ''OWNER'' then 3 else 0)"

subsection \<open>The policy\<close>

record access_policy =
  agent_perms :: "((string \<times> string) \<times> string) list"
  principal_perms :: "(string \<times> string \<times> string) list"
  session_perms :: "((string \<times> string) \<times> (string \<times> string)) list"
  tenant_roles :: "((string \<times> string) \<times> string) list"
  workspace_roles :: "((string \<times> string \<times> string) \<times> string) list"
  dataset_roles :: "((string \<times> string \<times> string \<times> string) \<times> string) list"
  dataset_perms :: "(string \<times> string \<times> string \<times> string) list"
  control_roles :: "(string \<times> string) list"

datatype policy_error = Policy_Value_Error

text \<open>\<open>grant_scope_role\<close>, \<open>revoke_scope_role\<close>, \<open>check_scope_role\<close>.\<close>

definition grant_scope_role :: "string \<Rightarrow> string \<Rightarrow> string \<Rightarrow> string option \<Rightarrow> string option \<Rightarrow> access_policy \<Rightarrow> policy_error + access_policy" where
  "grant_scope_role p t role w d pol =
    (let r = upper role in
     if r \<notin> {''OWNER'', ''WRITER'', ''READER''} then Inl Policy_Value_Error
     else if truthy d then
       (if \<not> truthy w then Inl Policy_Value_Error
        else Inr (pol\<lparr>dataset_roles := upsert (p, t, the w, the d) r (\<lambda>_. r) (dataset_roles pol)\<rparr>))
     else if truthy w then Inr (pol\<lparr>workspace_roles := upsert (p, t, the w) r (\<lambda>_. r) (workspace_roles pol)\<rparr>)
     else Inr (pol\<lparr>tenant_roles := upsert (p, t) r (\<lambda>_. r) (tenant_roles pol)\<rparr>))"

definition revoke_scope_role :: "string \<Rightarrow> string \<Rightarrow> string option \<Rightarrow> string option \<Rightarrow> access_policy \<Rightarrow> policy_error + (bool \<times> access_policy)" where
  "revoke_scope_role p t w d pol =
    (if truthy d then
       (if \<not> truthy w then Inl Policy_Value_Error
        else let (b, x) = delete_key (p, t, the w, the d) (dataset_roles pol) in Inr (b, pol\<lparr>dataset_roles := x\<rparr>))
     else if truthy w then (let (b, x) = delete_key (p, t, the w) (workspace_roles pol) in Inr (b, pol\<lparr>workspace_roles := x\<rparr>))
     else (let (b, x) = delete_key (p, t) (tenant_roles pol) in Inr (b, pol\<lparr>tenant_roles := x\<rparr>)))"

definition granted_level :: "string option \<Rightarrow> nat" where
  "granted_level r = (case r of None \<Rightarrow> 0 | Some x \<Rightarrow> role_level (upper x))"

definition check_scope_role :: "string \<Rightarrow> string \<Rightarrow> string \<Rightarrow> string \<Rightarrow> string \<Rightarrow> access_policy \<Rightarrow> policy_error + bool" where
  "check_scope_role p t w d required pol =
    (if role_level (upper required) = 0 then Inl Policy_Value_Error
     else Inr (role_level (upper required) \<le> max (max (max 0 (granted_level (map_of (tenant_roles pol) (p, t))))
       (granted_level (map_of (workspace_roles pol) (p, t, w)))) (granted_level (map_of (dataset_roles pol) (p, t, w, d)))))"

definition is_dataset_permission :: "string \<Rightarrow> bool" where
  "is_dataset_permission x \<longleftrightarrow> x \<in> {''PURGE'', ''ROLLBACK''}"

definition grant_dataset_permission :: "string \<Rightarrow> string \<Rightarrow> string \<Rightarrow> string \<Rightarrow> access_policy \<Rightarrow> policy_error + access_policy" where
  "grant_dataset_permission p t d perm pol =
    (if \<not> is_dataset_permission (upper perm) then Inl Policy_Value_Error
     else Inr (pol\<lparr>dataset_perms := insert_ignore (p, t, d, upper perm) (dataset_perms pol)\<rparr>))"

definition revoke_dataset_permission :: "string \<Rightarrow> string \<Rightarrow> string \<Rightarrow> string \<Rightarrow> access_policy \<Rightarrow> policy_error + (bool \<times> access_policy)" where
  "revoke_dataset_permission p t d perm pol =
    (if \<not> is_dataset_permission (upper perm) then Inl Policy_Value_Error
     else Inr ((p, t, d, upper perm) \<in> set (dataset_perms pol), pol\<lparr>dataset_perms := filter (\<lambda>x. x \<noteq> (p, t, d, upper perm)) (dataset_perms pol)\<rparr>))"

definition check_dataset_permission :: "string \<Rightarrow> string \<Rightarrow> string \<Rightarrow> string \<Rightarrow> access_policy \<Rightarrow> bool" where
  "check_dataset_permission p t d perm pol \<longleftrightarrow> (p, t, d, upper perm) \<in> set (dataset_perms pol)"

definition grant_control_role :: "string \<Rightarrow> string \<Rightarrow> access_policy \<Rightarrow> policy_error + access_policy" where
  "grant_control_role p role pol =
    (if upper role \<noteq> ''ADMIN'' then Inl Policy_Value_Error
     else Inr (pol\<lparr>control_roles := upsert p (upper role) (\<lambda>_. upper role) (control_roles pol)\<rparr>))"

definition check_control_role :: "string \<Rightarrow> string \<Rightarrow> access_policy \<Rightarrow> bool" where
  "check_control_role p required pol \<longleftrightarrow> upper required = ''ADMIN'' \<and>
     (case map_of (control_roles pol) p of None \<Rightarrow> False | Some r \<Rightarrow> upper r = ''ADMIN'')"

definition principal_permissions :: "string list" where
  "principal_permissions = [''READ'', ''WRITE'', ''SESSION_CREATE'', ''SESSION_READ'', ''SESSION_UPDATE'', ''STATUS_READ'', ''PURGE'', ''ADMIN'']"

definition grant_principal_permission :: "string \<Rightarrow> string \<Rightarrow> string \<Rightarrow> access_policy \<Rightarrow> policy_error + access_policy" where
  "grant_principal_permission p a perm pol =
    (if perm \<notin> set principal_permissions then Inl Policy_Value_Error
     else Inr (pol\<lparr>principal_perms := insert_ignore (p, a, perm) (principal_perms pol)\<rparr>))"

definition check_principal_permission :: "string \<Rightarrow> string \<Rightarrow> string \<Rightarrow> access_policy \<Rightarrow> bool" where
  "check_principal_permission p a perm pol \<longleftrightarrow>
    (if is_level perm then list_ex (\<lambda>(p', a', x). p' = p \<and> a' = a \<and> is_level x \<and> satisfies x perm) (principal_perms pol)
     else (p, a, perm) \<in> set (principal_perms pol))"

text \<open>\<open>CASE WHEN old >= new THEN old ELSE new\<close>.\<close>

definition higher :: "string \<Rightarrow> string \<Rightarrow> string" where
  "higher old new = (if access_level new \<le> access_level old then old else new)"

definition grant_session :: "string \<Rightarrow> string \<Rightarrow> string \<Rightarrow> string \<Rightarrow> access_policy \<Rightarrow> policy_error + access_policy" where
  "grant_session p a s level pol =
    (if \<not> is_level level then Inl Policy_Value_Error
     else Inr (pol\<lparr>session_perms := upsert (p, s) (a, level) (\<lambda>(a', old). (a, higher old level)) (session_perms pol)\<rparr>))"

definition check_session :: "string \<Rightarrow> string \<Rightarrow> string \<Rightarrow> string \<Rightarrow> access_policy \<Rightarrow> policy_error + bool" where
  "check_session p a s required pol =
    (if \<not> is_level required then Inl Policy_Value_Error
     else Inr (case map_of (session_perms pol) (p, s) of None \<Rightarrow> False | Some (a', l) \<Rightarrow> a' = a \<and> satisfies l required))"

definition grant_access :: "string \<Rightarrow> string \<Rightarrow> string \<Rightarrow> access_policy \<Rightarrow> policy_error + access_policy" where
  "grant_access a s level pol =
    (if \<not> is_level level then Inl Policy_Value_Error
     else Inr (pol\<lparr>agent_perms := upsert (a, s) level (\<lambda>old. higher old level) (agent_perms pol)\<rparr>))"

definition revoke_access :: "string \<Rightarrow> string \<Rightarrow> access_policy \<Rightarrow> access_policy" where
  "revoke_access a s pol = pol\<lparr>agent_perms := snd (delete_key (a, s) (agent_perms pol))\<rparr>"

definition check_access :: "string \<Rightarrow> string \<Rightarrow> string \<Rightarrow> access_policy \<Rightarrow> bool" where
  "check_access a s required pol \<longleftrightarrow> is_level required \<and>
     (case map_of (agent_perms pol) (a, s) of None \<Rightarrow> False | Some l \<Rightarrow> satisfies l required)"

text \<open>A fresh policy database has the daemon's permission and nothing else.\<close>

definition initial_policy :: "string \<Rightarrow> string \<Rightarrow> access_policy" where
  "initial_policy system_agent system_session = \<lparr>agent_perms = [((system_agent, system_session), ''WRITE'')], principal_perms = [], session_perms = [],
     tenant_roles = [], workspace_roles = [], dataset_roles = [], dataset_perms = [], control_roles = []\<rparr>"

subsection \<open>Histories of calls\<close>

datatype access_call =
    Grant_Role string string string "string option" "string option"
  | Revoke_Role string string "string option" "string option"
  | Grant_Permission string string string string
  | Revoke_Permission string string string string
  | Grant_Control string string
  | Grant_Principal string string string
  | Grant_Session string string string string
  | Grant_Access string string string
  | Revoke_Access string string

definition settle :: "access_policy \<Rightarrow> policy_error + access_policy \<Rightarrow> access_policy" where
  "settle pol r = (case r of Inl _ \<Rightarrow> pol | Inr pol' \<Rightarrow> pol')"

fun policy_call :: "access_policy \<Rightarrow> access_call \<Rightarrow> access_policy" where
  "policy_call pol (Grant_Role p t role w d) = settle pol (grant_scope_role p t role w d pol)"
| "policy_call pol (Revoke_Role p t w d) = settle pol (bindE (revoke_scope_role p t w d pol) (\<lambda>x. Inr (snd x)))"
| "policy_call pol (Grant_Permission p t d x) = settle pol (grant_dataset_permission p t d x pol)"
| "policy_call pol (Revoke_Permission p t d x) = settle pol (bindE (revoke_dataset_permission p t d x pol) (\<lambda>x. Inr (snd x)))"
| "policy_call pol (Grant_Control p role) = settle pol (grant_control_role p role pol)"
| "policy_call pol (Grant_Principal p a x) = settle pol (grant_principal_permission p a x pol)"
| "policy_call pol (Grant_Session p a s l) = settle pol (grant_session p a s l pol)"
| "policy_call pol (Grant_Access a s l) = settle pol (grant_access a s l pol)"
| "policy_call pol (Revoke_Access a s) = revoke_access a s pol"

end
