(* ===== verification/Access_Properties.thy ===== *)
theory Access_Properties imports Access begin

text \<open>
  The policy tables against an abstract authorisation state: a role per principal and scope, and per agent and session the
  highest level granted since the last revocation; and a grant on one agent's session that confers another grant's level.
\<close>

subsection \<open>Scope roles\<close>

text \<open>A scope of the catalog and the role each principal was last given there.\<close>

datatype catalog_scope = Tenant string | Workspace string string | Dataset string string string

type_synonym roles = "string \<times> catalog_scope \<Rightarrow> string option"

definition scope_of :: "string \<Rightarrow> string option \<Rightarrow> string option \<Rightarrow> catalog_scope option" where
  "scope_of t w d = (if truthy d then (if truthy w then Some (Dataset t (the w) (the d)) else None)
     else if truthy w then Some (Workspace t (the w)) else Some (Tenant t))"

fun role_spec :: "roles \<Rightarrow> access_call \<Rightarrow> roles" where
  "role_spec m (Grant_Role p t role w d) =
     (case scope_of t w d of None \<Rightarrow> m
      | Some sc \<Rightarrow> if upper role \<in> {''OWNER'', ''WRITER'', ''READER''} then m((p, sc) \<mapsto> upper role) else m)"
| "role_spec m (Revoke_Role p t w d) = (case scope_of t w d of None \<Rightarrow> m | Some sc \<Rightarrow> m((p, sc) := None))"
| "role_spec m _ = m"

definition roles_of :: "access_policy \<Rightarrow> roles" where
  "roles_of pol = (\<lambda>(p, sc). case sc of Tenant t \<Rightarrow> map_of (tenant_roles pol) (p, t) | Workspace t w \<Rightarrow> map_of (workspace_roles pol) (p, t, w)
     | Dataset t w d \<Rightarrow> map_of (dataset_roles pol) (p, t, w, d))"

lemma roles_of_grant:
  assumes "grant_scope_role p t role w d pol = Inr pol'"
  shows "\<exists>sc. scope_of t w d = Some sc \<and> upper role \<in> {''OWNER'', ''WRITER'', ''READER''} \<and> roles_of pol' = (roles_of pol)((p, sc) \<mapsto> upper role)"
  using assms
  by (auto simp: grant_scope_role_def scope_of_def roles_of_def fun_eq_iff map_of_upsert Let_def split: if_splits catalog_scope.splits option.splits)

lemma roles_of_revoke:
  assumes "revoke_scope_role p t w d pol = Inr (b, pol')"
  shows "\<exists>sc. scope_of t w d = Some sc \<and> roles_of pol' = (roles_of pol)((p, sc) := None)"
  using assms
  by (auto simp: revoke_scope_role_def scope_of_def roles_of_def fun_eq_iff map_of_delete [unfolded delete_key_def snd_conv] delete_key_def
      split: if_splits catalog_scope.splits)

lemma grant_refused: "grant_scope_role p t role w d pol = Inl e \<Longrightarrow> scope_of t w d = None \<or> upper role \<notin> {''OWNER'', ''WRITER'', ''READER''}"
  by (auto simp: grant_scope_role_def scope_of_def Let_def split: if_splits)

lemma revoke_refused: "revoke_scope_role p t w d pol = Inl e \<Longrightarrow> scope_of t w d = None"
  by (auto simp: revoke_scope_role_def scope_of_def Let_def split: if_splits prod.splits)

lemma roles_of_call: "roles_of (policy_call pol c) = role_spec (roles_of pol) c"
proof (cases c)
  case (Grant_Role p t role w d)
  show ?thesis
  proof (cases "grant_scope_role p t role w d pol")
    case (Inl e)
    with grant_refused [OF Inl] show ?thesis by (auto simp: Grant_Role settle_def split: option.splits)
  next
    case (Inr pol')
    with roles_of_grant [OF Inr] show ?thesis by (auto simp: Grant_Role settle_def)
  qed
next
  case (Revoke_Role p t w d)
  show ?thesis
  proof (cases "revoke_scope_role p t w d pol")
    case (Inl e)
    with revoke_refused [OF Inl] show ?thesis by (simp add: Revoke_Role settle_def)
  next
    case (Inr x)
    then have "revoke_scope_role p t w d pol = Inr (fst x, snd x)" by simp
    from roles_of_revoke [OF this] Inr show ?thesis by (auto simp: Revoke_Role settle_def)
  qed
qed (auto simp: roles_of_def settle_def fun_eq_iff grant_dataset_permission_def revoke_dataset_permission_def grant_control_role_def
    grant_principal_permission_def grant_session_def grant_access_def revoke_access_def split: catalog_scope.splits)

lemma roles_of_calls: "roles_of (foldl policy_call pol cs) = foldl role_spec (roles_of pol) cs"
  by (induction cs arbitrary: pol) (simp_all add: roles_of_call)

text \<open>
  C23. After any calls on a new policy database, a principal holds a role on a dataset exactly when the role it was last
  given, and not revoked since, at the tenant, the workspace or the dataset is at least as high.
\<close>

theorem scope_check_refines:
  assumes "role_level (upper required) \<noteq> 0"
  shows "check_scope_role p t w d required (foldl policy_call (initial_policy a s) cs) =
    Inr (list_ex (\<lambda>sc. role_level (upper required) \<le> granted_level (foldl role_spec (\<lambda>_. None) cs (p, sc)))
      [Tenant t, Workspace t w, Dataset t w d])"
proof -
  have init: "roles_of (initial_policy a s) = (\<lambda>_. None)"
    by (auto simp: fun_eq_iff roles_of_def initial_policy_def split: catalog_scope.splits)
  let ?pol = "foldl policy_call (initial_policy a s) cs"
  have eq: "foldl role_spec (\<lambda>_. None) cs = roles_of ?pol" by (simp add: roles_of_calls init)
  show ?thesis using assms unfolding eq by (auto simp: check_scope_role_def le_max_iff_disj roles_of_def)
qed

theorem scope_check_refines_witness:
  "check_scope_role ''p'' ''t'' ''w'' ''d'' ''writer''
      (foldl policy_call (initial_policy ''sys'' ''s'') [Grant_Role ''p'' ''t'' ''Owner'' None None, Revoke_Role ''p'' ''t'' None None,
        Grant_Role ''p'' ''t'' ''writer'' (Some ''w'') (Some [])]) = Inr True"
  by (subst scope_check_refines) (simp_all add: role_level_def upper_def upper_char_def scope_of_def truthy_def granted_level_def char_of_def bit_0)

subsection \<open>Agent sessions\<close>

text \<open>The highest level granted to an agent's session since it was last revoked.\<close>

fun level_spec :: "string \<Rightarrow> string \<Rightarrow> nat \<Rightarrow> access_call \<Rightarrow> nat" where
  "level_spec a s n (Grant_Access a' s' l) = (if a' = a \<and> s' = s then max n (access_level l) else n)"
| "level_spec a s n (Revoke_Access a' s') = (if a' = a \<and> s' = s then 0 else n)"
| "level_spec a s n _ = n"

definition held_level :: "string \<Rightarrow> string \<Rightarrow> access_policy \<Rightarrow> nat" where
  "held_level a s pol = (case map_of (agent_perms pol) (a, s) of None \<Rightarrow> 0 | Some l \<Rightarrow> access_level l)"

lemma access_level_higher: "access_level (higher x y) = max (access_level x) (access_level y)"
  by (simp add: higher_def)

lemma access_level_0: "\<not> is_level l \<Longrightarrow> access_level l = 0"
  by (simp add: is_level_def access_level_def)

lemma held_level_call: "held_level a s (policy_call pol c) = level_spec a s (held_level a s pol) c"
proof (cases c)
  case (Grant_Access a' s' l)
  then show ?thesis
    by (auto simp: held_level_def settle_def grant_access_def map_of_upsert access_level_higher access_level_0
        split: option.splits)
next
  case (Revoke_Access a' s')
  then show ?thesis by (auto simp: held_level_def revoke_access_def map_of_delete)
qed (auto simp: held_level_def settle_def grant_dataset_permission_def revoke_dataset_permission_def grant_control_role_def
    grant_principal_permission_def grant_session_def grant_scope_role_def revoke_scope_role_def Let_def delete_key_def bindE_def)

lemma held_level_calls: "held_level a s (foldl policy_call pol cs) = foldl (level_spec a s) (held_level a s pol) cs"
  by (induction cs arbitrary: pol) (simp_all add: held_level_call)

text \<open>
  After any calls an agent passes a check on a session exactly when a level at least as high was granted to it on that
  session and not revoked since; a lower grant never takes a higher one away.
\<close>

lemma access_is_highest_grant:
  assumes "is_level required"
  shows "check_access a s required (foldl policy_call pol cs) \<longleftrightarrow> access_level required \<le> foldl (level_spec a s) (held_level a s pol) cs"
proof -
  note held_level_calls [of a s pol cs, symmetric]
  moreover have "0 < access_level required" using assms by (auto simp: is_level_def access_level_def)
  ultimately show ?thesis using assms by (auto simp: check_access_def held_level_def satisfies_def split: option.splits)
qed

lemma access_is_highest_grant_witness:
  "check_access ''a'' ''s'' ''WRITE'' (foldl policy_call (initial_policy ''sys'' ''s0'') [Grant_Access ''a'' ''s'' ''WRITE'', Grant_Access ''a'' ''s'' ''READ''])"
  by (subst access_is_highest_grant) (simp_all add: is_level_def access_level_def held_level_def initial_policy_def)

subsection \<open>Principal sessions\<close>

text \<open>
  When a principal holds a level on one agent's session, granting it any lower level on the same session for another
  agent gives it the old level for the other agent and takes the first agent's access away.
\<close>

lemma session_grant_moves_level:
  assumes "map_of (session_perms pol) (p, s) = Some (a, l)" and "is_level level" and "access_level level \<le> access_level l" and "is_level required"
    and "b \<noteq> a" and "grant_session p b s level pol = Inr pol'"
  shows "check_session p b s required pol' = Inr (satisfies l required) \<and> check_session p a s required pol' = Inr False"
  using assms by (auto simp: grant_session_def check_session_def map_of_upsert higher_def)

lemma session_grant_moves_level_witness:
  "check_session ''p'' ''b'' ''s'' ''ADMIN''
     (settle (initial_policy ''sys'' ''s0'') (grant_session ''p'' ''b'' ''s'' ''READ'' ((initial_policy ''sys'' ''s0'')\<lparr>session_perms := [((''p'', ''s''), (''a'', ''ADMIN''))]\<rparr>)))
   = Inr True"
proof -
  let ?pol = "(initial_policy ''sys'' ''s0'')\<lparr>session_perms := [((''p'', ''s''), (''a'', ''ADMIN''))]\<rparr>"
  obtain pol' where g: "grant_session ''p'' ''b'' ''s'' ''READ'' ?pol = Inr pol'" by (auto simp: grant_session_def is_level_def)
  have "check_session ''p'' ''b'' ''s'' ''ADMIN'' pol' = Inr (satisfies ''ADMIN'' ''ADMIN'')"
    by (rule session_grant_moves_level [where a = "''a''" and pol = ?pol and level = "''READ''", THEN conjunct1])
      (use g in \<open>simp_all add: is_level_def access_level_def\<close>)
  then show ?thesis using g by (simp add: settle_def satisfies_def)
qed

end
