(* ===== verification/Keys.thy ===== *)
theory Keys imports Prelude begin

text \<open>
  The two credential stores: the API keys of \<open>mesa_memory/security/api_keys.py\<close>, and the clients, bindings and
  bearer credentials of the gateway (\<open>mesa_storage/control/client_repo.py\<close>, \<open>credential_repo.py\<close>). scrypt and
  SHA-256 are parameters, random identifiers, secrets and salts and the clock are arguments. Identifiers are ASCII.
  \<open>IntegrityError\<close> stands for every violated key of a table.
\<close>

datatype key_error = Key_Value_Error | Integrity_Error

subsection \<open>The contract of both stores\<close>

text \<open>Whether \<open>P\<close> holds of some operation of a sequence when it is executed.\<close>

fun ever :: "('s \<Rightarrow> 'o \<Rightarrow> bool) \<Rightarrow> ('s \<Rightarrow> 'o \<Rightarrow> 's) \<Rightarrow> 's \<Rightarrow> 'o list \<Rightarrow> bool" where
  "ever P f s [] \<longleftrightarrow> False"
| "ever P f s (x # xs) \<longleftrightarrow> P s x \<or> ever P f (f s x) xs"

text \<open>A row keeps its content, and it stays active until an operation retires it; it never becomes active again.\<close>

locale registry =
  fixes entry :: "'s \<Rightarrow> 'i \<Rightarrow> 'r option"
    and content :: "'r \<Rightarrow> 'c"
    and active :: "'r \<Rightarrow> bool"
    and retires :: "'i \<Rightarrow> 's \<Rightarrow> 'o \<Rightarrow> bool"
    and exec :: "'s \<Rightarrow> 'o \<Rightarrow> 's"
  assumes entry_kept: "entry s i = Some r \<Longrightarrow>
    \<exists>r'. entry (exec s x) i = Some r' \<and> content r' = content r \<and> (active r' \<longleftrightarrow> active r \<and> \<not> retires i s x)"
begin

lemma entry_after:
  assumes "entry s i = Some r"
  shows "\<exists>r'. entry (foldl exec s xs) i = Some r' \<and> content r' = content r \<and>
    (active r' \<longleftrightarrow> active r \<and> \<not> ever (retires i) exec s xs)"
  using assms
proof (induction xs arbitrary: s r)
  case (Cons x xs)
  obtain r1 where r1: "entry (exec s x) i = Some r1" "content r1 = content r" "active r1 \<longleftrightarrow> active r \<and> \<not> retires i s x"
    using entry_kept [OF Cons.prems] by blast
  show ?case using Cons.IH [OF r1(1)] r1(2,3) by auto
qed simp

lemma retired_for_good:
  assumes "entry s i = Some r" and "\<not> active r"
  shows "\<exists>r'. entry (foldl exec s xs) i = Some r' \<and> \<not> active r'"
  using entry_after [OF assms(1)] assms(2) by blast

end

subsection \<open>API keys\<close>

record api_key =
  ak_id :: string
  ak_salt :: string
  ak_digest :: string
  ak_principal :: string
  ak_type :: string
  ak_status :: string
  ak_expires :: "int option"

record verified_key =
  vk_id :: string
  vk_principal :: string
  vk_type :: string
  vk_status :: string

definition ascii_alnum :: "char \<Rightarrow> bool" where
  "ascii_alnum c = (let n = of_char c :: nat in 48 \<le> n \<and> n \<le> 57 \<or> 65 \<le> n \<and> n \<le> 90 \<or> 97 \<le> n \<and> n \<le> 122)"

text \<open>\<open>isalnum\<close> of the identifier without its underscores and hyphens.\<close>

definition key_id_ok :: "string \<Rightarrow> bool" where
  "key_id_ok i = (let r = filter (\<lambda>c. c \<noteq> CHR ''_'' \<and> c \<noteq> CHR ''-'') i in r \<noteq> [] \<and> list_all ascii_alnum r)"

definition api_row :: "api_key list \<Rightarrow> string \<Rightarrow> api_key option" where
  "api_row t i = find (\<lambda>k. ak_id k = i) t"

definition insert_key :: "api_key \<Rightarrow> api_key list \<Rightarrow> key_error + api_key list" where
  "insert_key k t = (if api_row t (ak_id k) \<noteq> None then Inl Integrity_Error else Inr (t @ [k]))"

text \<open>\<open>_upsert_key\<close> as it is called, with \<open>replace=False\<close> and the status active.\<close>

definition upsert_key :: "(string \<Rightarrow> string \<Rightarrow> string) \<Rightarrow> string \<Rightarrow> string \<Rightarrow> string \<Rightarrow> string \<Rightarrow> string \<Rightarrow> int option \<Rightarrow> api_key list \<Rightarrow>
    key_error + api_key list" where
  "upsert_key digest salt i secret who ty expires t =
    insert_key \<lparr>ak_id = i, ak_salt = salt, ak_digest = digest secret salt, ak_principal = who, ak_type = ty, ak_status = ''active'', ak_expires = expires\<rparr> t"

definition issue_key :: "(string \<Rightarrow> string \<Rightarrow> string) \<Rightarrow> int \<Rightarrow> string \<Rightarrow> string \<Rightarrow> string \<Rightarrow> string \<Rightarrow> string \<Rightarrow> string option \<Rightarrow> int \<Rightarrow> api_key list \<Rightarrow>
    key_error + (string \<times> api_key list)" where
  "issue_key digest now salt random secret who ty kid ttl t =
    (let i = (case kid of None \<Rightarrow> ''mk_'' @ random | Some x \<Rightarrow> if x = [] then ''mk_'' @ random else x) in
     if who = [] then Inl Key_Value_Error
     else if \<not> key_id_ok i then Inl Key_Value_Error
     else if ttl \<le> 0 then Inl Key_Value_Error
     else bindE (upsert_key digest salt i secret who ty (Some (now + ttl)) t) (\<lambda>t'. Inr (i @ ''.'' @ secret, t')))"

text \<open>\<open>bootstrap_legacy_key\<close>; \<open>seen\<close> is the table its first connection read.\<close>

definition bootstrap_key :: "(string \<Rightarrow> string \<Rightarrow> string) \<Rightarrow> string \<Rightarrow> string option \<Rightarrow> string option \<Rightarrow> string \<Rightarrow> api_key list \<Rightarrow> api_key list \<Rightarrow>
    key_error + api_key list" where
  "bootstrap_key digest salt secret who ty seen t =
    (case (secret, who) of
       (Some s, Some p) \<Rightarrow>
         if s = [] \<or> p = [] then Inr t
         else if api_row seen ''bootstrap'' \<noteq> None then Inr t
         else upsert_key digest salt ''bootstrap'' s p ty None t
     | _ \<Rightarrow> Inr t)"

text \<open>\<open>str.partition('.')\<close>: the text before the first dot, whether there is one, and the text after it.\<close>

definition partition_dot :: "string \<Rightarrow> string \<times> bool \<times> string" where
  "partition_dot s = (let a = takeWhile (\<lambda>c. c \<noteq> CHR ''.'') s; b = dropWhile (\<lambda>c. c \<noteq> CHR ''.'') s in (a, b \<noteq> [], tl b))"

definition live_key :: "int \<Rightarrow> api_key \<Rightarrow> bool" where
  "live_key now k \<longleftrightarrow> ak_status k = ''active'' \<and> (case ak_expires k of None \<Rightarrow> True | Some e \<Rightarrow> now < e)"

text \<open>The key identifier and the secret of a credential; without a dot it is the secret of the bootstrap key.\<close>

definition split_cred :: "string \<Rightarrow> string \<times> string" where
  "split_cred c = (let (a, dot, b) = partition_dot c in if dot then (a, b) else (''bootstrap'', c))"

definition verify_key :: "(string \<Rightarrow> string \<Rightarrow> string) \<Rightarrow> int \<Rightarrow> string option \<Rightarrow> api_key list \<Rightarrow> verified_key option" where
  "verify_key digest now cred t =
    (case cred of None \<Rightarrow> None | Some c \<Rightarrow>
       if c = [] then None
       else let (i, secret) = split_cred c in
         if i = [] \<or> secret = [] then None
         else (case api_row t i of None \<Rightarrow> None | Some k \<Rightarrow>
           if \<not> live_key now k then None
           else if ak_digest k \<noteq> digest secret (ak_salt k) then None
           else Some \<lparr>vk_id = ak_id k, vk_principal = ak_principal k, vk_type = ak_type k, vk_status = ak_status k\<rparr>))"

definition has_active_key :: "int \<Rightarrow> api_key list \<Rightarrow> bool" where
  "has_active_key now t = list_ex (live_key now) t"

definition retire_key :: "string \<Rightarrow> api_key list \<Rightarrow> api_key list" where
  "retire_key i t = upd (\<lambda>k. ak_id k = i \<and> ak_status k = ''active'') (\<lambda>k. k\<lparr>ak_status := ''revoked''\<rparr>) t"

definition revoke_key :: "string \<Rightarrow> api_key list \<Rightarrow> bool \<times> api_key list" where
  "revoke_key i t = (rowcount (\<lambda>k. ak_id k = i \<and> ak_status k = ''active'') t = 1, retire_key i t)"

text \<open>\<open>rotate_key\<close>: one transaction, which any exception rolls back.\<close>

definition rotate_key :: "(string \<Rightarrow> string \<Rightarrow> string) \<Rightarrow> int \<Rightarrow> string \<Rightarrow> string \<Rightarrow> string \<Rightarrow> string \<Rightarrow> api_key list \<Rightarrow>
    key_error + (string \<times> api_key list)" where
  "rotate_key digest now salt random secret i t =
    (case find (\<lambda>k. ak_id k = i \<and> ak_status k = ''active'') t of
       None \<Rightarrow> Inl Key_Value_Error
     | Some k \<Rightarrow>
         bindE (upsert_key digest salt (''mk_'' @ random) secret (ak_principal k) (ak_type k) (Some (now + 7776000)) t)
           (\<lambda>t'. Inr (''mk_'' @ random @ ''.'' @ secret, retire_key i t')))"

datatype key_call =
    Issue_Key int string string string string string "string option" int
  | Bootstrap string "string option" "string option" string "api_key list"
  | Revoke_Key string
  | Rotate_Key int string string string string

fun key_result :: "(string \<Rightarrow> string \<Rightarrow> string) \<Rightarrow> api_key list \<Rightarrow> key_call \<Rightarrow> key_error + (string list \<times> api_key list)" where
  "key_result digest t (Issue_Key now salt random secret who ty kid ttl) =
     bindE (issue_key digest now salt random secret who ty kid ttl t) (\<lambda>(c, t'). Inr ([c], t'))"
| "key_result digest t (Bootstrap salt secret who ty seen) = bindE (bootstrap_key digest salt secret who ty seen t) (\<lambda>t'. Inr ([], t'))"
| "key_result digest t (Revoke_Key i) = Inr ([], snd (revoke_key i t))"
| "key_result digest t (Rotate_Key now salt random secret i) =
     bindE (rotate_key digest now salt random secret i t) (\<lambda>(c, t'). Inr ([c], t'))"

definition after_call :: "(string \<Rightarrow> string \<Rightarrow> string) \<Rightarrow> api_key list \<Rightarrow> key_call \<Rightarrow> api_key list" where
  "after_call digest t x = (case key_result digest t x of Inl _ \<Rightarrow> t | Inr (_, t') \<Rightarrow> t')"

end
