(* ===== verification/Credentials.thy ===== *)
theory Credentials imports Keys begin

text \<open>
  The gateway's clients, project bindings and bearer credentials (\<open>mesa_storage/control/client_repo.py\<close>,
  \<open>credential_repo.py\<close>). Foreign keys are enforced. Of \<open>update_client\<close> the two columns its callers write are
  modelled; columns that only record a time are left out.
\<close>

record gw_client =
  gc_id :: string
  gc_name :: string
  gc_type :: string
  gc_principal :: string
  gc_enabled :: bool

record gw_binding =
  gb_id :: string
  gb_client :: string
  gb_project :: string
  gb_tenant :: string
  gb_workspace :: string
  gb_dataset :: string
  gb_enabled :: bool

record credential =
  cr_id :: string
  cr_client :: string
  cr_binding :: string
  cr_hash :: string
  cr_prefix :: string
  cr_status :: string
  cr_expires :: "int option"

record control =
  ct_clients :: "gw_client list"
  ct_bindings :: "gw_binding list"
  ct_credentials :: "credential list"

subsection \<open>Clients and bindings\<close>

definition client_row :: "control \<Rightarrow> string \<Rightarrow> gw_client option" where
  "client_row s i = find (\<lambda>x. gc_id x = i) (ct_clients s)"

definition binding_row :: "control \<Rightarrow> string \<Rightarrow> gw_binding option" where
  "binding_row s i = find (\<lambda>x. gb_id x = i) (ct_bindings s)"

definition create_client :: "string \<Rightarrow> string \<Rightarrow> string \<Rightarrow> string \<Rightarrow> control \<Rightarrow> key_error + control" where
  "create_client i name ty who s =
    (if client_row s i \<noteq> None then Inl Integrity_Error
     else Inr (s\<lparr>ct_clients := ct_clients s @ [\<lparr>gc_id = i, gc_name = name, gc_type = ty, gc_principal = who, gc_enabled = True\<rparr>]\<rparr>))"

definition update_client :: "string \<Rightarrow> string \<Rightarrow> string \<Rightarrow> control \<Rightarrow> control" where
  "update_client i name who s = s\<lparr>ct_clients := upd (\<lambda>x. gc_id x = i) (\<lambda>x. x\<lparr>gc_name := name, gc_principal := who\<rparr>) (ct_clients s)\<rparr>"

definition toggle_client :: "string \<Rightarrow> bool \<Rightarrow> control \<Rightarrow> control" where
  "toggle_client i e s = s\<lparr>ct_clients := upd (\<lambda>x. gc_id x = i) (gc_enabled_update (\<lambda>_. e)) (ct_clients s)\<rparr>"

definition binding_id :: "string \<Rightarrow> string \<Rightarrow> string" where
  "binding_id c p = ''bnd_'' @ c @ ''_'' @ p"

text \<open>The conflict target is the unique pair of client and project; the primary key can be violated beside it.\<close>

definition add_binding :: "string \<Rightarrow> string \<Rightarrow> string \<Rightarrow> string \<Rightarrow> string \<Rightarrow> control \<Rightarrow> key_error + (string \<times> control)" where
  "add_binding c p tenant workspace dataset s =
    (let P = (\<lambda>x. gb_client x = c \<and> gb_project x = p) in
     if list_ex P (ct_bindings s) then
       Inr (binding_id c p, s\<lparr>ct_bindings := upd P
         (\<lambda>x. x\<lparr>gb_tenant := tenant, gb_workspace := workspace, gb_dataset := dataset, gb_enabled := True\<rparr>) (ct_bindings s)\<rparr>)
     else if binding_row s (binding_id c p) \<noteq> None \<or> client_row s c = None then Inl Integrity_Error
     else Inr (binding_id c p, s\<lparr>ct_bindings := ct_bindings s @ [\<lparr>gb_id = binding_id c p, gb_client = c, gb_project = p,
       gb_tenant = tenant, gb_workspace = workspace, gb_dataset = dataset, gb_enabled = True\<rparr>]\<rparr>))"

definition get_binding :: "string \<Rightarrow> string \<Rightarrow> control \<Rightarrow> gw_binding option" where
  "get_binding c p s = find (\<lambda>x. gb_client x = c \<and> gb_project x = p \<and> gb_enabled x) (ct_bindings s)"

definition get_binding_by_id :: "string \<Rightarrow> control \<Rightarrow> gw_binding option" where
  "get_binding_by_id i s = find (\<lambda>x. gb_id x = i \<and> gb_enabled x) (ct_bindings s)"

subsection \<open>Credentials\<close>

definition cred_row :: "control \<Rightarrow> string \<Rightarrow> credential option" where
  "cred_row s i = find (\<lambda>x. cr_id x = i) (ct_credentials s)"

definition cred_token :: "string \<Rightarrow> string \<Rightarrow> string \<Rightarrow> string" where
  "cred_token kind i secret = ''mesa_'' @ kind @ ''_'' @ i @ ''_'' @ secret"

definition starts_with :: "string \<Rightarrow> string \<Rightarrow> bool" where
  "starts_with p s \<longleftrightarrow> take (length p) s = p"

definition token_kind :: "string \<Rightarrow> string option" where
  "token_kind p = (if starts_with ''mesa_antigravity_'' p then Some ''antigravity''
     else if starts_with ''mesa_codex_'' p then Some ''codex'' else None)"

definition insert_credential :: "credential \<Rightarrow> control \<Rightarrow> key_error + control" where
  "insert_credential x s =
    (if cred_row s (cr_id x) \<noteq> None \<or> list_ex (\<lambda>y. cr_hash y = cr_hash x) (ct_credentials s)
        \<or> client_row s (cr_client x) = None \<or> binding_row s (cr_binding x) = None then Inl Integrity_Error
     else Inr (s\<lparr>ct_credentials := ct_credentials s @ [x]\<rparr>))"

definition new_credential :: "(string \<Rightarrow> string) \<Rightarrow> string \<Rightarrow> string \<Rightarrow> string \<Rightarrow> string \<Rightarrow> int \<Rightarrow> credential" where
  "new_credential hash i client bnd token expires = \<lparr>cr_id = i, cr_client = client, cr_binding = bnd, cr_hash = hash token,
     cr_prefix = take 24 token, cr_status = ''ACTIVE'', cr_expires = Some expires\<rparr>"

definition issue_credential :: "(string \<Rightarrow> string) \<Rightarrow> int \<Rightarrow> string \<Rightarrow> string \<Rightarrow> string \<Rightarrow> string \<Rightarrow> string \<Rightarrow> int \<Rightarrow> control \<Rightarrow>
    key_error + (string \<times> control)" where
  "issue_credential hash now random secret client bnd kind ttl s =
    (if kind \<notin> {''codex'', ''antigravity''} then Inl Key_Value_Error
     else if ttl \<le> 0 then Inl Key_Value_Error
     else let i = ''cred_'' @ random; token = cred_token kind i secret in
       bindE (insert_credential (new_credential hash i client bnd token (now + ttl)) s) (\<lambda>s'. Inr (token, s')))"

definition retire_credential :: "string \<Rightarrow> control \<Rightarrow> control" where
  "retire_credential i s = s\<lparr>ct_credentials := upd (\<lambda>x. cr_id x = i \<and> cr_status x = ''ACTIVE'') (cr_status_update (\<lambda>_. ''REVOKED'')) (ct_credentials s)\<rparr>"

definition rotate_credential :: "(string \<Rightarrow> string) \<Rightarrow> int \<Rightarrow> string \<Rightarrow> string \<Rightarrow> string \<Rightarrow> int \<Rightarrow> control \<Rightarrow> key_error + (string \<times> control)" where
  "rotate_credential hash now random secret i ttl s =
    (if ttl \<le> 0 then Inl Key_Value_Error
     else (case find (\<lambda>x. cr_id x = i \<and> cr_status x = ''ACTIVE'') (ct_credentials s) of
         None \<Rightarrow> Inl Key_Value_Error
       | Some x \<Rightarrow> (case token_kind (cr_prefix x) of
           None \<Rightarrow> Inl Key_Value_Error
         | Some kind \<Rightarrow>
             let j = ''cred_'' @ random; token = cred_token kind j secret in
             bindE (insert_credential (new_credential hash j (cr_client x) (cr_binding x) token (now + ttl)) s)
               (\<lambda>s'. Inr (token, retire_credential i s')))))"

definition revoke_credential :: "string \<Rightarrow> control \<Rightarrow> bool \<times> control" where
  "revoke_credential i s = (0 < rowcount (\<lambda>x. cr_id x = i \<and> cr_status x = ''ACTIVE'') (ct_credentials s), retire_credential i s)"

text \<open>\<open>authenticate\<close>; the time of the last use, which its second transaction writes, is left out.\<close>

definition authenticate :: "(string \<Rightarrow> string) \<Rightarrow> int \<Rightarrow> string \<Rightarrow> control \<Rightarrow> (credential \<times> gw_client \<times> gw_binding) option" where
  "authenticate hash now token s =
    (case find (\<lambda>x. cr_hash x = hash token \<and> cr_status x = ''ACTIVE'' \<and> (case cr_expires x of None \<Rightarrow> True | Some e \<Rightarrow> now < e))
        (ct_credentials s) of
       None \<Rightarrow> None
     | Some x \<Rightarrow> (case (client_row s (cr_client x), binding_row s (cr_binding x)) of
         (Some c, Some b) \<Rightarrow> if \<not> gc_enabled c \<or> \<not> gb_enabled b then None else Some (x, c, b)
       | _ \<Rightarrow> None))"

datatype control_call =
    Create_Client string string string string
  | Update_Client string string string
  | Toggle_Client string bool
  | Add_Binding string string string string string
  | Issue_Credential int string string string string string int
  | Rotate_Credential int string string string int
  | Revoke_Credential string

fun control_result :: "(string \<Rightarrow> string) \<Rightarrow> control \<Rightarrow> control_call \<Rightarrow> key_error + (string list \<times> control)" where
  "control_result hash s (Create_Client i name ty who) = bindE (create_client i name ty who s) (\<lambda>s'. Inr ([], s'))"
| "control_result hash s (Update_Client i name who) = Inr ([], update_client i name who s)"
| "control_result hash s (Toggle_Client i e) = Inr ([], toggle_client i e s)"
| "control_result hash s (Add_Binding c p t w d) = bindE (add_binding c p t w d s) (\<lambda>(_, s'). Inr ([], s'))"
| "control_result hash s (Issue_Credential now random secret c b kind ttl) =
     bindE (issue_credential hash now random secret c b kind ttl s) (\<lambda>(t, s'). Inr ([t], s'))"
| "control_result hash s (Rotate_Credential now random secret i ttl) =
     bindE (rotate_credential hash now random secret i ttl s) (\<lambda>(t, s'). Inr ([t], s'))"
| "control_result hash s (Revoke_Credential i) = Inr ([], snd (revoke_credential i s))"

definition after_control :: "(string \<Rightarrow> string) \<Rightarrow> control \<Rightarrow> control_call \<Rightarrow> control" where
  "after_control hash s x = (case control_result hash s x of Inl _ \<Rightarrow> s | Inr (_, s') \<Rightarrow> s')"

definition no_control :: control where
  "no_control = \<lparr>ct_clients = [], ct_bindings = [], ct_credentials = []\<rparr>"

end
