(* ===== verification/Keys_Properties.thy ===== *)
theory Keys_Properties imports Credentials begin

text \<open>
  A credential opens what it was issued for until it expires or is retired, and nothing else does. Both stores keep
  the contract \<open>registry\<close>.
\<close>

subsection \<open>API keys\<close>

text \<open>A revocation, or a rotation that succeeds, retires a key.\<close>

fun retires_key :: "(string \<Rightarrow> string \<Rightarrow> string) \<Rightarrow> string \<Rightarrow> api_key list \<Rightarrow> key_call \<Rightarrow> bool" where
  "retires_key digest i t (Revoke_Key j) \<longleftrightarrow> j = i"
| "retires_key digest i t (Rotate_Key now salt random secret j) \<longleftrightarrow>
     j = i \<and> (case key_result digest t (Rotate_Key now salt random secret j) of Inl _ \<Rightarrow> False | Inr _ \<Rightarrow> True)"
| "retires_key digest i t _ \<longleftrightarrow> False"

definition key_content :: "api_key \<Rightarrow> api_key" where
  "key_content k = k\<lparr>ak_status := []\<rparr>"

definition active_key :: "api_key \<Rightarrow> bool" where
  "active_key k \<longleftrightarrow> ak_status k = ''active''"

lemma insert_key_row: "insert_key k t = Inr t' \<Longrightarrow> api_row t i = Some r \<Longrightarrow> api_row t' i = Some r"
  by (auto simp: insert_key_def api_row_def find_append split: if_splits)

lemma inserted_row: "insert_key k t = Inr t' \<Longrightarrow> api_row t' (ak_id k) = Some k"
  by (auto simp: insert_key_def api_row_def find_append split: if_splits)

lemma retire_key_row:
  "api_row (retire_key j t) i = map_option (\<lambda>k. if ak_id k = j \<and> active_key k then k\<lparr>ak_status := ''revoked''\<rparr> else k) (api_row t i)"
  unfolding api_row_def retire_key_def active_key_def by (rule find_upd_key) simp

lemma api_row_id: "api_row t i = Some k \<Longrightarrow> ak_id k = i"
  unfolding api_row_def by (drule find_SomeD) simp

lemma key_call_keeps:
  assumes "api_row t i = Some r"
  shows "\<exists>r'. api_row (after_call digest t x) i = Some r' \<and> key_content r' = key_content r \<and>
    (active_key r' \<longleftrightarrow> active_key r \<and> \<not> retires_key digest i t x)"
proof (cases "key_result digest t x")
  case (Inl e)
  then have "retires_key digest i t x \<Longrightarrow> False" by (cases x) auto
  then show ?thesis using assms Inl by (auto simp: after_call_def)
next
  case (Inr y)
  obtain cs t' where y: "y = (cs, t')" by (cases y)
  have call: "after_call digest t x = t'" using Inr y by (simp add: after_call_def)
  note id = api_row_id [OF assms]
  show ?thesis
  proof (cases x)
    case (Issue_Key now salt random secret who ty kid ttl)
    then have "api_row t' i = Some r"
      using Inr y assms by (auto simp: issue_key_def upsert_key_def Let_def bindE_Inr_iff insert_key_row split: if_splits)
    then show ?thesis using call Issue_Key by simp
  next
    case (Bootstrap salt secret who ty seen)
    then have "api_row t' i = Some r"
      using Inr y assms by (auto simp: bootstrap_key_def upsert_key_def bindE_Inr_iff insert_key_row split: if_splits option.splits)
    then show ?thesis using call Bootstrap by simp
  next
    case (Revoke_Key j)
    then have "t' = retire_key j t" using Inr y by (simp add: revoke_key_def)
    then show ?thesis using call Revoke_Key assms id by (auto simp: retire_key_row active_key_def key_content_def)
  next
    case (Rotate_Key now salt random secret j)
    then obtain t1 where t1: "t' = retire_key j t1" "api_row t1 i = Some r"
      using Inr y assms by (auto simp: rotate_key_def upsert_key_def bindE_Inr_iff insert_key_row split: option.splits)
    moreover have "retires_key digest i t x \<longleftrightarrow> j = i" using Inr Rotate_Key by auto
    ultimately show ?thesis using call id by (auto simp: retire_key_row active_key_def key_content_def)
  qed
qed

interpretation keys: registry api_row key_content active_key "retires_key digest" "after_call digest" for digest
  by unfold_locales (rule key_call_keeps)

lemma partition_dot_join: "CHR ''.'' \<notin> set a \<Longrightarrow> partition_dot (a @ CHR ''.'' # b) = (a, True, b)"
  by (induction a) (auto simp: partition_dot_def Let_def)

lemma split_cred_join: "CHR ''.'' \<notin> set a \<Longrightarrow> split_cred (a @ CHR ''.'' # b) = (a, b)"
  by (simp add: split_cred_def partition_dot_join)

lemma key_id_no_dot: "key_id_ok i \<Longrightarrow> CHR ''.'' \<notin> set i \<and> i \<noteq> []"
  by (auto simp: key_id_ok_def Let_def ascii_alnum_def list_all_iff)

lemma verify_row:
  assumes "split_cred c = (i, secret)" and "c \<noteq> []" and "i \<noteq> []" and "secret \<noteq> []" and "api_row t i = Some k"
  shows "verify_key digest now (Some c) t = (if live_key now k \<and> ak_digest k = digest secret (ak_salt k)
    then Some \<lparr>vk_id = i, vk_principal = ak_principal k, vk_type = ak_type k, vk_status = ak_status k\<rparr> else None)"
  using assms by (simp add: verify_key_def api_row_id)

text \<open>
  C27. The credential an administrator is handed opens the key's principal until the key expires or is revoked or
  rotated, and never afterwards, whatever other calls are made in between.
\<close>

theorem issued_key_valid_until_retired:
  assumes "issue_key digest now salt random secret who ty kid ttl t = Inr (c, t')" and "secret \<noteq> []"
  shows "verify_key digest at (Some c) (foldl (after_call digest) t' xs) =
    (if at < now + ttl \<and> \<not> ever (retires_key digest (fst (split_cred c))) (after_call digest) t' xs
     then Some \<lparr>vk_id = fst (split_cred c), vk_principal = who, vk_type = ty, vk_status = ''active''\<rparr> else None)"
proof -
  obtain i where i: "key_id_ok i" "c = i @ ''.'' @ secret" "upsert_key digest salt i secret who ty (Some (now + ttl)) t = Inr t'"
    using assms(1) by (auto simp: issue_key_def Let_def bindE_Inr_iff split: if_splits)
  have sp: "split_cred c = (i, secret)" using key_id_no_dot [OF i(1)] i(2) by (simp add: split_cred_join)
  obtain k where k: "api_row t' i = Some k" "active_key k" "key_content k = key_content
      \<lparr>ak_id = i, ak_salt = salt, ak_digest = digest secret salt, ak_principal = who, ak_type = ty, ak_status = ''active'', ak_expires = Some (now + ttl)\<rparr>"
    using inserted_row [OF i(3) [unfolded upsert_key_def]] by (auto simp: active_key_def)
  obtain r where r: "api_row (foldl (after_call digest) t' xs) i = Some r" "key_content r = key_content k"
      "active_key r \<longleftrightarrow> active_key k \<and> \<not> ever (retires_key digest i) (after_call digest) t' xs"
    using keys.entry_after [OF k(1)] by blast
  have "ak_salt r = salt" "ak_digest r = digest secret salt" "ak_principal r = who" "ak_type r = ty" "ak_expires r = Some (now + ttl)"
    using r(2) k(3) by (cases r; simp add: key_content_def)+
  then show ?thesis using verify_row [OF sp _ _ assms(2) r(1)] i(2) key_id_no_dot [OF i(1)] r(3) k(2) sp
    by (auto simp: live_key_def active_key_def)
qed


text \<open>
  The credentials handed to someone by a sequence of calls: those the calls return, and a bootstrap key, which can
  also be written with its identifier.
\<close>

fun handed :: "(string \<Rightarrow> string \<Rightarrow> string) \<Rightarrow> api_key list \<Rightarrow> key_call list \<Rightarrow> string list" where
  "handed digest t [] = []"
| "handed digest t (x # xs) =
     (case key_result digest t x of Inl _ \<Rightarrow> [] | Inr (cs, _) \<Rightarrow>
        cs @ (case x of Bootstrap salt (Some s) who ty seen \<Rightarrow> [''bootstrap.'' @ s] | _ \<Rightarrow> []))
     @ handed digest (after_call digest t x) xs"

text \<open>The random identifiers of rotations are URL-safe, so they have no dot.\<close>

fun dot_free :: "key_call \<Rightarrow> bool" where
  "dot_free (Rotate_Key now salt random secret i) \<longleftrightarrow> CHR ''.'' \<notin> set random"
| "dot_free _ \<longleftrightarrow> True"

definition backed :: "(string \<Rightarrow> string \<Rightarrow> string) \<Rightarrow> string list \<Rightarrow> api_key \<Rightarrow> bool" where
  "backed digest cs k \<longleftrightarrow> (\<exists>c \<in> set cs. fst (split_cred c) = ak_id k \<and> ak_digest k = digest (snd (split_cred c)) (ak_salt k))"

lemma backed_mono: "backed digest cs k \<Longrightarrow> backed digest (cs @ ds) k" "backed digest ds k \<Longrightarrow> backed digest (cs @ ds) k"
  by (auto simp: backed_def)

lemma retire_key_backed: "k \<in> set (retire_key i t) \<Longrightarrow> \<exists>k0 \<in> set t. ak_id k = ak_id k0 \<and> ak_digest k = ak_digest k0 \<and> ak_salt k = ak_salt k0"
  unfolding retire_key_def by (erule in_set_updE) auto

lemma upserted_row: "upsert_key digest salt i secret who ty e t = Inr t' \<Longrightarrow> k \<in> set t' \<Longrightarrow> k \<notin> set t \<Longrightarrow>
    ak_id k = i \<and> ak_digest k = digest secret (ak_salt k)"
  by (auto simp: upsert_key_def insert_key_def split: if_splits)

lemma call_backs_rows:
  assumes "k \<in> set (after_call digest t x)" and "dot_free x"
  shows "(\<exists>k0 \<in> set t. ak_id k = ak_id k0 \<and> ak_digest k = ak_digest k0 \<and> ak_salt k = ak_salt k0) \<or> backed digest (handed digest t [x]) k"
proof (cases "\<exists>k0 \<in> set t. ak_id k = ak_id k0 \<and> ak_digest k = ak_digest k0 \<and> ak_salt k = ak_salt k0")
  case False
  then obtain cs t' where y: "key_result digest t x = Inr (cs, t')" and k: "k \<in> set t'" "k \<notin> set t"
    using assms(1) by (auto simp: after_call_def split: sum.splits)
  have "backed digest (handed digest t [x]) k"
  proof (cases x)
    case (Issue_Key now salt random secret who ty kid ttl)
    then obtain i where i: "key_id_ok i" "cs = [i @ ''.'' @ secret]" "upsert_key digest salt i secret who ty (Some (now + ttl)) t = Inr t'"
      using y by (auto simp: issue_key_def Let_def bindE_Inr_iff split: if_splits)
    then show ?thesis using Issue_Key y upserted_row [OF i(3) k] key_id_no_dot [OF i(1)]
      by (auto simp: backed_def split_cred_join)
  next
    case (Bootstrap salt secret who ty seen)
    then obtain s p where sp: "secret = Some s" "upsert_key digest salt ''bootstrap'' s p ty None t = Inr t'" "cs = []"
      using y k by (auto simp: bootstrap_key_def bindE_Inr_iff split: option.splits if_splits)
    have "split_cred (''bootstrap.'' @ s) = (''bootstrap'', s)" using split_cred_join [of "''bootstrap''" s] by simp
    then show ?thesis using Bootstrap y sp upserted_row [OF sp(2) k] by (simp add: backed_def)
  next
    case (Revoke_Key j)
    then have "k \<in> set (retire_key j t)" using y k by (simp add: revoke_key_def)
    then show ?thesis using retire_key_backed False by blast
  next
    case (Rotate_Key now salt random secret j)
    then obtain p ty t1 where t1: "t' = retire_key j t1" "upsert_key digest salt (''mk_'' @ random) secret p ty (Some (now + 7776000)) t = Inr t1"
      "cs = [''mk_'' @ random @ ''.'' @ secret]"
      using y by (auto simp: rotate_key_def bindE_Inr_iff split: option.splits)
    obtain k0 where k0: "k0 \<in> set t1" "ak_id k = ak_id k0" "ak_digest k = ak_digest k0" "ak_salt k = ak_salt k0"
      using retire_key_backed k(1) t1(1) by blast
    then have "k0 \<notin> set t" using False by auto
    note new = upserted_row [OF t1(2) k0(1) this]
    have "split_cred ((''mk_'' @ random) @ ''.'' @ secret) = (''mk_'' @ random, secret)"
      using assms(2) Rotate_Key by (subst split_cred_join [symmetric]) auto
    then show ?thesis using Rotate_Key y t1(3) new k0 by (simp add: backed_def)
  qed
  then show ?thesis ..
qed blast

lemma reachable_backed:
  assumes "\<And>k. k \<in> set t \<Longrightarrow> backed digest cs k" and "list_all dot_free xs"
  shows "k \<in> set (foldl (after_call digest) t xs) \<Longrightarrow> backed digest (cs @ handed digest t xs) k"
  using assms
proof (induction xs arbitrary: t cs)
  case (Cons x xs)
  have step: "backed digest (cs @ handed digest t [x]) k" if k: "k \<in> set (after_call digest t x)" for k
  proof -
    consider (old) k0 where "k0 \<in> set t" "ak_id k = ak_id k0" "ak_digest k = ak_digest k0" "ak_salt k = ak_salt k0"
      | (new) "backed digest (handed digest t [x]) k"
      using call_backs_rows [OF k] Cons.prems by auto
    then show ?thesis
    proof cases
      case old
      then show ?thesis using Cons.prems(2) [OF old(1)] by (auto simp: backed_def)
    qed (rule backed_mono)
  qed
  have "backed digest ((cs @ handed digest t [x]) @ handed digest (after_call digest t x) xs) k"
    by (rule Cons.IH) (use Cons.prems step in auto)
  then show ?case by simp
qed simp

text \<open>
  Nobody guesses a key: a credential that opens something names the key of a credential that was handed out, and
  its secret has the same scrypt digest under that key's salt.
\<close>

lemma accepted_key_was_handed_out:
  assumes "list_all dot_free xs" and "verify_key digest now (Some c) (foldl (after_call digest) [] xs) = Some v"
  shows "\<exists>c' salt. c' \<in> set (handed digest [] xs) \<and> fst (split_cred c') = vk_id v \<and> fst (split_cred c) = vk_id v \<and>
    digest (snd (split_cred c')) salt = digest (snd (split_cred c)) salt"
proof -
  let ?t = "foldl (after_call digest) [] xs"
  obtain i secret where sp: "split_cred c = (i, secret)" by force
  with assms(2) obtain k where k: "api_row ?t i = Some k" "ak_digest k = digest secret (ak_salt k)" "vk_id v = ak_id k"
    by (auto simp: verify_key_def split: if_splits option.splits)
  have "k \<in> set ?t" using k(1) by (auto simp: api_row_def dest: find_SomeD)
  with reachable_backed [of "[]" digest "[]" xs k] assms(1) have "backed digest (handed digest [] xs) k" by simp
  then obtain c' where "c' \<in> set (handed digest [] xs)" "fst (split_cred c') = ak_id k" "ak_digest k = digest (snd (split_cred c')) (ak_salt k)"
    by (auto simp: backed_def)
  then show ?thesis using sp k api_row_id [OF k(1)] by (intro exI [of _ c'] exI [of _ "ak_salt k"]) simp
qed


text \<open>A rotation passes the principal on: the old key never opens anything again, and the new one opens what the old one did.\<close>

lemma rotation_hands_over:
  assumes "rotate_key digest now salt random secret i t = Inr (c, t')" and "CHR ''.'' \<notin> set random" and "secret \<noteq> []" and "at < now + 7776000"
    and "distinct (map ak_id t)" and "fst (split_cred old) = i"
  shows "verify_key digest at (Some old) (foldl (after_call digest) t' xs) = None"
    and "\<exists>k. api_row t i = Some k \<and> active_key k \<and> verify_key digest at (Some c) t' =
      Some \<lparr>vk_id = ''mk_'' @ random, vk_principal = ak_principal k, vk_type = ak_type k, vk_status = ''active''\<rparr>"
proof -
  obtain k t1 where f: "find (\<lambda>k. ak_id k = i \<and> ak_status k = ''active'') t = Some k" and t1: "t' = retire_key i t1"
      "upsert_key digest salt (''mk_'' @ random) secret (ak_principal k) (ak_type k) (Some (now + 7776000)) t = Inr t1"
      and c: "c = ''mk_'' @ random @ ''.'' @ secret"
    using assms(1) by (auto simp: rotate_key_def bindE_Inr_iff split: option.splits)
  have k: "k \<in> set t" "ak_id k = i" "active_key k" using find_SomeD [OF f] by (auto simp: active_key_def)
  then have row: "api_row t i = Some k" using find_distinct [OF assms(5)] by (auto simp: api_row_def)
  obtain k' where k': "api_row t' i = Some k'" "\<not> active_key k'"
    using insert_key_row [OF t1(2) [unfolded upsert_key_def] row] k t1(1) by (auto simp: retire_key_row active_key_def)
  then obtain r where "api_row (foldl (after_call digest) t' xs) i = Some r" "\<not> active_key r"
    using keys.retired_for_good by blast
  then show "verify_key digest at (Some old) (foldl (after_call digest) t' xs) = None"
    using assms(6) by (cases "split_cred old") (auto simp: verify_key_def live_key_def active_key_def)
  have "''mk_'' @ random \<noteq> i"
    using t1(2) row by (auto simp: upsert_key_def insert_key_def split: if_splits)
  then have "api_row t' (''mk_'' @ random) = Some \<lparr>ak_id = ''mk_'' @ random, ak_salt = salt, ak_digest = digest secret salt,
      ak_principal = ak_principal k, ak_type = ak_type k, ak_status = ''active'', ak_expires = Some (now + 7776000)\<rparr>"
    using inserted_row [OF t1(2) [unfolded upsert_key_def]] t1(1) by (simp add: retire_key_row)
  moreover have "split_cred c = (''mk_'' @ random, secret)"
    using split_cred_join [of "''mk_'' @ random" secret] assms(2) c by simp
  ultimately have "verify_key digest at (Some c) t' =
      Some \<lparr>vk_id = ''mk_'' @ random, vk_principal = ak_principal k, vk_type = ak_type k, vk_status = ''active''\<rparr>"
    using c assms(3,4) by (subst verify_row) (auto simp: live_key_def)
  with row k show "\<exists>k. api_row t i = Some k \<and> active_key k \<and> verify_key digest at (Some c) t' =
      Some \<lparr>vk_id = ''mk_'' @ random, vk_principal = ak_principal k, vk_type = ak_type k, vk_status = ''active''\<rparr>" by blast
qed

text \<open>
  A legacy secret with a dot in it is stored, so the server finds an active key and starts, but it is never accepted:
  what stands before its first dot is taken for a key identifier.
\<close>

lemma dotted_legacy_key_refused:
  assumes "bootstrap_key digest salt (Some secret) (Some who) ty [] [] = Inr t" and "who \<noteq> []" and "CHR ''.'' \<in> set secret"
    and "fst (split_cred secret) \<noteq> ''bootstrap''"
  shows "has_active_key now t \<and> verify_key digest now (Some secret) t = None"
proof -
  have t: "t = [\<lparr>ak_id = ''bootstrap'', ak_salt = salt, ak_digest = digest secret salt, ak_principal = who, ak_type = ty, ak_status = ''active'', ak_expires = None\<rparr>]"
    using assms(1-3) by (auto simp: bootstrap_key_def upsert_key_def insert_key_def api_row_def split: if_splits)
  show ?thesis using assms(4) by (cases "split_cred secret") (simp add: t has_active_key_def live_key_def verify_key_def api_row_def)
qed

text \<open>Witnesses: a key is issued, used, and rotated.\<close>

definition pair_digest :: "string \<Rightarrow> string \<Rightarrow> string" where
  "pair_digest secret salt = secret @ '':'' @ salt"

definition issued_row :: api_key where
  "issued_row = \<lparr>ak_id = ''k1'', ak_salt = ''x'', ak_digest = ''s:x'', ak_principal = ''p'', ak_type = ''SERVICE'', ak_status = ''active'', ak_expires = Some 100\<rparr>"

lemma issue_k1: "issue_key pair_digest 0 ''x'' ''r'' ''s'' ''p'' ''SERVICE'' (Some ''k1'') 100 [] = Inr (''k1.s'', [issued_row])"
  by (simp add: issue_key_def key_id_ok_def ascii_alnum_def upsert_key_def insert_key_def api_row_def pair_digest_def issued_row_def Let_def)

lemma split_k1: "split_cred ''k1.s'' = (''k1'', ''s'')"
  by (simp add: split_cred_def partition_dot_def Let_def)

theorem issued_key_valid_until_retired_witness:
  "verify_key pair_digest 99 (Some ''k1.s'') (foldl (after_call pair_digest) [issued_row] [Revoke_Key ''k2'', Rotate_Key 50 ''y'' ''r'' ''u'' ''k1'']) = None"
  by (subst issued_key_valid_until_retired [OF issue_k1])
    (simp_all add: split_k1 after_call_def revoke_key_def retire_key_def rotate_key_def upsert_key_def insert_key_def api_row_def issued_row_def)

lemma accepted_key_was_handed_out_witness:
  "\<exists>c' salt. c' \<in> set (handed pair_digest [] [Issue_Key 0 ''x'' ''r'' ''s'' ''p'' ''SERVICE'' (Some ''k1'') 100]) \<and> fst (split_cred c') = ''k1''
     \<and> fst (split_cred ''k1.s'') = ''k1'' \<and> pair_digest (snd (split_cred c')) salt = pair_digest (snd (split_cred ''k1.s'')) salt"
  using accepted_key_was_handed_out [of "[Issue_Key 0 ''x'' ''r'' ''s'' ''p'' ''SERVICE'' (Some ''k1'') 100]" pair_digest 1 "''k1.s''"
      "\<lparr>vk_id = ''k1'', vk_principal = ''p'', vk_type = ''SERVICE'', vk_status = ''active''\<rparr>"]
  by (simp add: issue_k1 after_call_def verify_key_def split_k1 api_row_def live_key_def issued_row_def pair_digest_def del: handed.simps)

subsection \<open>Bearer credentials\<close>

fun retires_credential :: "(string \<Rightarrow> string) \<Rightarrow> string \<Rightarrow> control \<Rightarrow> control_call \<Rightarrow> bool" where
  "retires_credential hash i s (Revoke_Credential j) \<longleftrightarrow> j = i"
| "retires_credential hash i s (Rotate_Credential now random secret j ttl) \<longleftrightarrow>
     j = i \<and> (case control_result hash s (Rotate_Credential now random secret j ttl) of Inl _ \<Rightarrow> False | Inr _ \<Rightarrow> True)"
| "retires_credential hash i s _ \<longleftrightarrow> False"

definition cred_content :: "credential \<Rightarrow> credential" where
  "cred_content x = x\<lparr>cr_status := []\<rparr>"

definition active_credential :: "credential \<Rightarrow> bool" where
  "active_credential x \<longleftrightarrow> cr_status x = ''ACTIVE''"

lemma insert_credential_row: "insert_credential x s = Inr s' \<Longrightarrow> cred_row s i = Some r \<Longrightarrow> cred_row s' i = Some r"
  by (auto simp: insert_credential_def cred_row_def find_append split: if_splits)

lemma inserted_credential: "insert_credential x s = Inr s' \<Longrightarrow> cred_row s' (cr_id x) = Some x"
  by (auto simp: insert_credential_def cred_row_def find_append split: if_splits)

lemma retire_credential_row: "cred_row (retire_credential j s) i =
    map_option (\<lambda>x. if cr_id x = j \<and> active_credential x then x\<lparr>cr_status := ''REVOKED''\<rparr> else x) (cred_row s i)"
  unfolding cred_row_def retire_credential_def active_credential_def by (simp add: find_upd_key)

lemma cred_row_id: "cred_row s i = Some x \<Longrightarrow> x \<in> set (ct_credentials s) \<and> cr_id x = i"
  unfolding cred_row_def by (drule find_SomeD) simp

lemma control_call_keeps:
  assumes "cred_row s i = Some r"
  shows "\<exists>r'. cred_row (after_control hash s x) i = Some r' \<and> cred_content r' = cred_content r \<and>
    (active_credential r' \<longleftrightarrow> active_credential r \<and> \<not> retires_credential hash i s x)"
proof (cases "control_result hash s x")
  case (Inl e)
  then have "retires_credential hash i s x \<Longrightarrow> False" by (cases x) auto
  then show ?thesis using assms Inl by (auto simp: after_control_def)
next
  case (Inr y)
  obtain ts s' where y: "y = (ts, s')" by (cases y)
  have call: "after_control hash s x = s'" using Inr y by (simp add: after_control_def)
  note id = cred_row_id [OF assms]
  have other: ?thesis if "ct_credentials s' = ct_credentials s" "\<not> retires_credential hash i s x"
    using that call assms by (simp add: cred_row_def)
  show ?thesis
  proof (cases x)
    case (Issue_Credential now random secret c b kind ttl)
    then have "cred_row s' i = Some r"
      using Inr y assms by (auto simp: issue_credential_def Let_def bindE_Inr_iff insert_credential_row split: if_splits)
    then show ?thesis using call Issue_Credential by simp
  next
    case (Rotate_Credential now random secret j ttl)
    then obtain s1 where "s' = retire_credential j s1" "cred_row s1 i = Some r"
      using Inr y assms by (auto simp: rotate_credential_def Let_def bindE_Inr_iff insert_credential_row split: option.splits if_splits)
    moreover have "retires_credential hash i s x \<longleftrightarrow> j = i" using Inr Rotate_Credential by auto
    ultimately show ?thesis using call id by (auto simp: retire_credential_row active_credential_def cred_content_def)
  next
    case (Revoke_Credential j)
    then have "s' = retire_credential j s" using Inr y by (simp add: revoke_credential_def)
    then show ?thesis using call Revoke_Credential assms id by (auto simp: retire_credential_row active_credential_def cred_content_def)
  qed (rule other; use Inr y in \<open>auto simp: create_client_def update_client_def toggle_client_def add_binding_def Let_def bindE_Inr_iff split: if_splits\<close>)+
qed

interpretation credentials: registry cred_row cred_content active_credential "retires_credential hash" "after_control hash" for hash
  by unfold_locales (rule control_call_keeps)


text \<open>Unique token hashes, bindings that are all enabled, and the two foreign keys of a credential.\<close>

definition refers :: "control \<Rightarrow> credential \<Rightarrow> bool" where
  "refers s x \<longleftrightarrow> client_row s (cr_client x) \<noteq> None \<and> binding_row s (cr_binding x) \<noteq> None"

definition control_ok :: "control \<Rightarrow> bool" where
  "control_ok s \<longleftrightarrow> distinct (map cr_hash (ct_credentials s)) \<and> list_all gb_enabled (ct_bindings s) \<and> list_all (refers s) (ct_credentials s)"

lemma rows_stay:
  shows "client_row s i \<noteq> None \<Longrightarrow> client_row (after_control hash s x) i \<noteq> None"
    and "binding_row s i \<noteq> None \<Longrightarrow> binding_row (after_control hash s x) i \<noteq> None"
proof -
  have "(client_row s i \<noteq> None \<longrightarrow> client_row s' i \<noteq> None) \<and> (binding_row s i \<noteq> None \<longrightarrow> binding_row s' i \<noteq> None)"
    if "control_result hash s x = Inr (ts, s')" for ts s'
    using that by (cases x) (auto simp: client_row_def binding_row_def create_client_def update_client_def toggle_client_def add_binding_def
        issue_credential_def rotate_credential_def revoke_credential_def insert_credential_def retire_credential_def find_upd_key find_append
        Let_def bindE_Inr_iff split: if_splits option.splits)
  then show "client_row s i \<noteq> None \<Longrightarrow> client_row (after_control hash s x) i \<noteq> None"
    and "binding_row s i \<noteq> None \<Longrightarrow> binding_row (after_control hash s x) i \<noteq> None"
    by (auto simp: after_control_def split: sum.splits)
qed

lemma refers_stays: "refers s x \<Longrightarrow> refers (after_control hash s y) x"
  unfolding refers_def using rows_stay by blast

lemma refers_cong: "ct_clients s = ct_clients s' \<Longrightarrow> ct_bindings s = ct_bindings s' \<Longrightarrow> refers s x = refers s' x"
  by (simp add: refers_def client_row_def binding_row_def)

lemma insert_credential_ok: "insert_credential x s = Inr s' \<Longrightarrow> control_ok s \<Longrightarrow> control_ok s'"
  by (auto simp: insert_credential_def control_ok_def list_all_iff list_ex_iff refers_def client_row_def binding_row_def split: if_splits)
    (blast | metis image_iff)

lemma retire_credential_ok: "control_ok s \<Longrightarrow> control_ok (retire_credential j s)"
  by (auto simp: retire_credential_def control_ok_def map_upd_key list_all_iff refers_def client_row_def binding_row_def elim!: in_set_updE)

lemma control_ok_call:
  assumes "control_ok s"
  shows "control_ok (after_control hash s x)"
proof (cases "control_result hash s x")
  case (Inl e)
  then show ?thesis using assms by (simp add: after_control_def)
next
  case (Inr y)
  obtain ts s' where y: "y = (ts, s')" by (cases y)
  have call: "after_control hash s x = s'" using Inr y by (simp add: after_control_def)
  have other: "control_ok s'" if "ct_credentials s' = ct_credentials s" "list_all gb_enabled (ct_bindings s')"
    using that assms refers_stays [of s _ hash x] call by (auto simp: control_ok_def list_all_iff)
  have "control_ok s'"
  proof (cases x)
    case (Issue_Credential now random secret c b kind ttl)
    then show ?thesis using Inr y assms by (auto simp: issue_credential_def Let_def bindE_Inr_iff insert_credential_ok split: if_splits)
  next
    case (Rotate_Credential now random secret j ttl)
    then show ?thesis using Inr y assms
      by (auto simp: rotate_credential_def Let_def bindE_Inr_iff intro!: retire_credential_ok dest: insert_credential_ok split: option.splits if_splits)
  next
    case (Revoke_Credential j)
    then show ?thesis using Inr y assms retire_credential_ok by (auto simp: revoke_credential_def)
  qed (rule other; use Inr y assms in \<open>auto simp: control_ok_def create_client_def update_client_def toggle_client_def add_binding_def list_all_iff
      Let_def bindE_Inr_iff elim!: in_set_updE split: if_splits\<close>)+
  then show ?thesis using call by simp
qed

lemma control_ok_calls: "control_ok s \<Longrightarrow> control_ok (foldl (after_control hash) s xs)"
  by (induction xs arbitrary: s) (simp_all add: control_ok_call)

lemma token_decides:
  assumes "control_ok s" and "cred_row s i = Some x" and "cr_hash x = hash token"
  shows "authenticate hash at token s =
    (if active_credential x \<and> (case cr_expires x of None \<Rightarrow> True | Some e \<Rightarrow> at < e) \<and> map_option gc_enabled (client_row s (cr_client x)) = Some True
     then Some (x, the (client_row s (cr_client x)), the (binding_row s (cr_binding x))) else None)"
proof -
  let ?P = "\<lambda>y. cr_hash y = hash token \<and> cr_status y = ''ACTIVE'' \<and> (case cr_expires y of None \<Rightarrow> True | Some e \<Rightarrow> at < e)"
  have x: "x \<in> set (ct_credentials s)" using cred_row_id [OF assms(2)] by simp
  have only: "y = x" if "y \<in> set (ct_credentials s)" "?P y" for y
    using that x assms(1,3) by (auto simp: control_ok_def distinct_map inj_on_def)
  have found: "find ?P (ct_credentials s) = (if ?P x then Some x else None)"
  proof (cases "find ?P (ct_credentials s)")
    case None
    then show ?thesis using x by (auto simp: find_None_iff)
  next
    case (Some y)
    with only [of y] find_SomeD [OF Some] have "y = x" "?P x" by blast+
    then show ?thesis using Some by simp
  qed
  have "refers s x" using assms(1) x by (simp add: control_ok_def list_all_iff)
  then obtain c b where cb: "client_row s (cr_client x) = Some c" "binding_row s (cr_binding x) = Some b" by (auto simp: refers_def)
  moreover have "gb_enabled b"
    using assms(1) find_SomeD [OF cb(2) [unfolded binding_row_def]] by (simp add: control_ok_def list_all_iff)
  ultimately show ?thesis using found assms(3) by (auto simp: authenticate_def active_credential_def)
qed

text \<open>
  A bearer token opens the client and the binding it was issued for exactly until it expires or is revoked or
  rotated, and only while the client is enabled, whatever other calls are made in between.
\<close>

lemma token_opens_until_retired:
  assumes "issue_credential hash now random secret client bnd kind ttl (foldl (after_control hash) no_control xs) = Inr (token, s)"
  shows "map_option (\<lambda>(x, c, b). (cr_client x, gc_id c, cr_binding x, gb_id b)) (authenticate hash at token (foldl (after_control hash) s ys)) =
    (if at < now + ttl \<and> \<not> ever (retires_credential hash (''cred_'' @ random)) (after_control hash) s ys
       \<and> map_option gc_enabled (client_row (foldl (after_control hash) s ys) client) = Some True then Some (client, client, bnd, bnd) else None)"
proof -
  let ?x = "new_credential hash (''cred_'' @ random) client bnd token (now + ttl)"
  let ?s = "foldl (after_control hash) s ys"
  have ins: "insert_credential ?x (foldl (after_control hash) no_control xs) = Inr s"
    using assms by (auto simp: issue_credential_def Let_def bindE_Inr_iff split: if_splits)
  have "control_ok no_control" by (simp add: control_ok_def no_control_def)
  then have ok: "control_ok ?s" using insert_credential_ok [OF ins] control_ok_calls by blast
  obtain r where r: "cred_row ?s (''cred_'' @ random) = Some r" "cred_content r = cred_content ?x"
      "active_credential r \<longleftrightarrow> active_credential ?x \<and> \<not> ever (retires_credential hash (''cred_'' @ random)) (after_control hash) s ys"
    using credentials.entry_after [OF inserted_credential [OF ins]] by (auto simp: new_credential_def)
  have f: "cr_client r = client" "cr_binding r = bnd" "cr_hash r = hash token" "cr_expires r = Some (now + ttl)"
    using r(2) by (cases r; simp add: cred_content_def new_credential_def)+
  have "refers ?s r" using ok cred_row_id [OF r(1)] by (simp add: control_ok_def list_all_iff)
  then obtain c b where cb: "client_row ?s client = Some c" "binding_row ?s bnd = Some b" "gc_id c = client" "gb_id b = bnd"
    using f by (auto simp: refers_def client_row_def binding_row_def dest: find_SomeD)
  show ?thesis using token_decides [where hash = hash and token = token and at = at, OF ok r(1) f(3)] f cb r(3)
    by (simp add: active_credential_def new_credential_def)
qed

definition bound_calls :: "control_call list" where
  "bound_calls = [Create_Client ''c'' ''C'' ''codex'' ''p'', Add_Binding ''c'' ''j'' ''t'' ''w'' ''d'']"

definition bound :: control where
  "bound = foldl (after_control rev) no_control bound_calls"

lemma bound_eq: "bound = \<lparr>ct_clients = [\<lparr>gc_id = ''c'', gc_name = ''C'', gc_type = ''codex'', gc_principal = ''p'', gc_enabled = True\<rparr>],
    ct_bindings = [\<lparr>gb_id = ''bnd_c_j'', gb_client = ''c'', gb_project = ''j'', gb_tenant = ''t'', gb_workspace = ''w'', gb_dataset = ''d'', gb_enabled = True\<rparr>],
    ct_credentials = []\<rparr>"
  by (simp add: bound_def bound_calls_def after_control_def no_control_def create_client_def add_binding_def client_row_def binding_row_def binding_id_def Let_def)

definition first_token :: string where
  "first_token = cred_token ''codex'' ''cred_1'' ''s''"

definition token_world :: control where
  "token_world = bound\<lparr>ct_credentials := [new_credential rev ''cred_1'' ''c'' ''bnd_c_j'' first_token 100]\<rparr>"

lemma issue_first: "issue_credential rev 0 ''1'' ''s'' ''c'' ''bnd_c_j'' ''codex'' 100 (foldl (after_control rev) no_control bound_calls) = Inr (first_token, token_world)"
  unfolding bound_def [symmetric]
  by (simp add: bound_eq issue_credential_def insert_credential_def new_credential_def cred_row_def client_row_def binding_row_def token_world_def first_token_def Let_def)

lemma token_opens_until_retired_witness:
  "map_option (\<lambda>(x, c, b). (cr_client x, gc_id c, cr_binding x, gb_id b))
     (authenticate rev 99 first_token (foldl (after_control rev) token_world [Toggle_Client ''c'' False, Revoke_Credential ''cred_2'', Toggle_Client ''c'' True]))
   = Some (''c'', ''c'', ''bnd_c_j'', ''bnd_c_j'')"
  by (subst token_opens_until_retired [OF issue_first])
    (simp add: after_control_def toggle_client_def revoke_credential_def retire_credential_def token_world_def bound_eq new_credential_def client_row_def)

text \<open>Two projects of two clients can have one binding identifier; the second can never be bound.\<close>

lemma binding_ids_collide:
  assumes "add_binding c p t w d s = Inr (i, s')" and "binding_id c' p' = binding_id c p"
    and "\<not> list_ex (\<lambda>x. gb_client x = c' \<and> gb_project x = p') (ct_bindings s')" and "\<not> list_ex (\<lambda>x. gb_client x = c \<and> gb_project x = p) (ct_bindings s)"
  shows "add_binding c' p' t' w' d' s' = Inl Integrity_Error"
  using assms by (auto simp: add_binding_def binding_row_def find_append Let_def split: if_splits option.splits)

end
