(* ===== verification/Context_Properties.thy ===== *)
theory Context_Properties imports Context "HOL-Library.Multiset" begin

text \<open>
  The packing of a context keeps its budget, loses no candidate silently, never cuts a proof or a fact, and evidence
  cannot forge the boundary it is wrapped in.
\<close>

subsection \<open>The evidence boundary\<close>

definition angle :: "char \<Rightarrow> bool" where
  "angle c \<longleftrightarrow> c = CHR ''<'' \<or> c = CHR ''>''"

lemma not_angle [simp]: "\<not> angle CHR ''=''" "\<not> angle CHR '' ''" "\<not> angle CHR 10"
  by (simp_all add: angle_def)

lemma no_angle_serialized: "filter angle (serialize_record json e) = []"
proof -
  have "x \<in> set (serialize_record json e) \<Longrightarrow> \<not> angle x" for x
    by (auto simp: serialize_record_def replace_char_def angle_def split: if_splits)
  then show ?thesis by (simp add: filter_empty_conv)
qed

lemma filter_join_lines: "filter angle (join_lines xs) = concat (map (filter angle) xs)"
  by (induction xs rule: join_lines.induct) (auto simp: angle_def)

lemma no_angle_section: "filter angle (fst s) = [] \<Longrightarrow> xs \<in> set (section_lines json s) \<Longrightarrow> filter angle xs = []"
  by (auto simp: section_lines_def no_angle_serialized)

lemma angles_rendered:
  assumes "\<And>s. s \<in> set sections \<Longrightarrow> filter angle (fst s) = []"
  shows "filter angle (render_untrusted json sections) = (if list_all (\<lambda>s. snd s = []) sections then [] else ''<><>'')"
proof -
  have body: "concat (map (filter angle) (concat (map (section_lines json) ps))) = []" if "set ps \<subseteq> set sections" for ps
    using that no_angle_section assms by auto blast
  have "filter angle trust_header = []" "filter angle tag_open = ''<>''" "filter angle tag_close = ''<>''"
    by (simp_all add: trust_header_def tag_open_def tag_close_def angle_def)
  moreover have "concat (map (filter angle) (concat (map (section_lines json) (filter (\<lambda>s. snd s \<noteq> []) sections)))) = []"
    by (rule body) auto
  moreover have "filter (\<lambda>s. snd s \<noteq> []) sections = [] \<longleftrightarrow> list_all (\<lambda>s. snd s = []) sections"
    by (auto simp: filter_empty_conv list_all_iff)
  ultimately show ?thesis by (simp add: render_untrusted_def filter_join_lines Let_def del: concat_eq_Nil_conv map_concat)
qed

lemma ends_with_join: "xs \<noteq> [] \<Longrightarrow> \<exists>s. join_lines (xs @ [y]) = s @ CHR 10 # y"
proof (induction xs rule: join_lines.induct)
  case (3 x x' xs)
  then obtain s where "join_lines ((x' # xs) @ [y]) = s @ CHR 10 # y" by auto
  then show ?case by (intro exI [of _ "x @ CHR 10 # s"]) simp
qed auto

lemma starts_with_join: "\<exists>s. join_lines (a # b # xs) = a @ CHR 10 # b @ s"
  by (cases xs) auto

text \<open>
  C26. Whatever the stored memories and logs contain, the rendered context is empty or starts with the trust header and
  the opening tag and ends with the closing tag, and no other angle bracket stands in it.
\<close>

theorem boundary_is_not_forged:
  "(let text = render_context json logs ms in
     if logs = [] \<and> ms = [] then text = []
     else (\<exists>inside. text = trust_header @ CHR 10 # tag_open @ inside @ CHR 10 # tag_close) \<and> filter angle text = ''<><>'')"
proof -
  let ?sections = "[(''Current Session Information'', map Session_Log logs), (''Long-Term Canonical Truth'', map visible_memory ms)]"
  have "filter angle (render_context json logs ms) = (if list_all (\<lambda>s. snd s = []) ?sections then [] else ''<><>'')"
    unfolding render_context_def by (rule angles_rendered) (auto simp: angle_def)
  then have ang: "filter angle (render_context json logs ms) = ''<><>''" if "logs \<noteq> [] \<or> ms \<noteq> []" using that by auto
  show ?thesis
  proof (cases "logs = [] \<and> ms = []")
    case True
    then show ?thesis by (simp add: render_context_def render_untrusted_def)
  next
    case False
    define ps where "ps = filter (\<lambda>s. snd s \<noteq> []) ?sections"
    have "ps \<noteq> []" using False by (auto simp: ps_def)
    then have rendered: "render_context json logs ms = join_lines (trust_header # tag_open # concat (map (section_lines json) ps) @ [tag_close])"
      unfolding render_context_def render_untrusted_def Let_def ps_def [symmetric] by simp
    have "\<exists>inside. join_lines (trust_header # tag_open # xs @ [tag_close]) = trust_header @ CHR 10 # tag_open @ inside @ CHR 10 # tag_close" for xs
      using ends_with_join [of xs tag_close] by (cases "xs = []") (auto simp: neq_Nil_conv)
    then have "\<exists>inside. render_context json logs ms = trust_header @ CHR 10 # tag_open @ inside @ CHR 10 # tag_close"
      unfolding rendered .
    with ang False show ?thesis unfolding Let_def by auto
  qed
qed


subsection \<open>Selection\<close>

lemma nths_0: "nths (x # xs) {0} = [x]"
  by (simp add: nths_Cons)

lemma select_pair_fits:
  assumes "select_pair fit mins = Some (a, b)"
  shows "fit (nths mins {a, b}) \<and> a < length mins \<and> b < length mins \<and> a \<noteq> b"
proof -
  let ?ps = "\<lambda>a. filter (\<lambda>b. b \<noteq> a \<and> fit (nths mins {a, b})) [0..<length mins]"
  have f: "find (\<lambda>a. ?ps a \<noteq> []) [0..<length mins] = Some a" and b: "b = hd (?ps a)"
    using assms by (auto simp: select_pair_def Let_def)
  then have "b \<in> set (?ps a)" using find_SomeD [OF f] by (metis hd_in_set)
  then show ?thesis using find_SomeD [OF f] by auto
qed

lemma reserve_fits:
  assumes "\<And>m. m \<in> set mins \<Longrightarrow> fit [m]"
  shows "reserve fit mins \<subseteq> {..<length mins} \<and> (mins \<noteq> [] \<longrightarrow> fit (nths mins (reserve fit mins)))"
proof (cases "select_pair fit mins")
  case None
  then show ?thesis using assms by (cases mins) (auto simp: reserve_def nths_0)
next
  case (Some ab)
  obtain a b where "ab = (a, b)" by (cases ab)
  with Some select_pair_fits show ?thesis by (auto simp: reserve_def)
qed

lemma fill_step:
  assumes "s \<subseteq> {..<n}" and "fit (nths mins s)" and "set xs \<subseteq> {..<n}"
    and "s' = foldl (\<lambda>s i. if i \<notin> s \<and> fit (nths mins (insert i s)) then insert i s else s) s xs"
  shows "s \<subseteq> s' \<and> s' \<subseteq> {..<n} \<and> fit (nths mins s')"
  using assms
proof (induction xs arbitrary: s)
  case (Cons x xs)
  let ?s = "if x \<notin> s \<and> fit (nths mins (insert x s)) then insert x s else s"
  have "?s \<subseteq> s' \<and> s' \<subseteq> {..<n} \<and> fit (nths mins s')"
    by (rule Cons.IH) (use Cons.prems in auto)
  then show ?case by (auto split: if_splits)
qed simp

lemma fill_fits:
  assumes "\<And>m. m \<in> set mins \<Longrightarrow> fit [m]"
  shows "reserve fit mins \<subseteq> fill fit mins" and "fill fit mins \<subseteq> {..<length mins}" and "mins \<noteq> [] \<Longrightarrow> fit (nths mins (fill fit mins))"
proof -
  have "reserve fit mins \<subseteq> fill fit mins \<and> fill fit mins \<subseteq> {..<length mins} \<and> (mins \<noteq> [] \<longrightarrow> fit (nths mins (fill fit mins)))"
  proof (cases "mins = []")
    case True
    then show ?thesis by (simp add: fill_def reserve_def select_pair_def)
  next
    case False
    then show ?thesis using fill_step [of "reserve fit mins" "length mins" fit mins "[0..<length mins]" "fill fit mins"] reserve_fits [of mins fit] assms
      by (simp add: fill_def lessThan_atLeast0)
  qed
  then show "reserve fit mins \<subseteq> fill fit mins" "fill fit mins \<subseteq> {..<length mins}" "mins \<noteq> [] \<Longrightarrow> fit (nths mins (fill fit mins))"
    by blast+
qed

lemma reserve_two:
  assumes "a < length mins" and "b < length mins" and "a \<noteq> b" and "fit (nths mins {a, b})"
  shows "\<exists>i j. i \<noteq> j \<and> {i, j} \<subseteq> reserve fit mins"
proof -
  have "select_pair fit mins \<noteq> None"
    using assms by (auto simp: select_pair_def Let_def find_None_iff filter_empty_conv insert_commute intro!: bexI [of _ a] bexI [of _ b])
  then obtain i j where "select_pair fit mins = Some (i, j)" by auto
  then show ?thesis using select_pair_fits [of fit mins i j] by (auto simp: reserve_def)
qed

subsection \<open>Enrichment\<close>

text \<open>What may be shown of a candidate: all of it, its minimal proof, or leading facts.\<close>

definition piece :: "memory \<Rightarrow> memory \<Rightarrow> bool" where
  "piece m c \<longleftrightarrow> (if me_atomic m then c = m \<or> c = minimum_memory m
     else (\<exists>k. 1 \<le> k \<and> k \<le> length (me_facts m) \<and> c = m\<lparr>me_facts := take k (me_facts m)\<rparr>))"

lemma minimum_raw [simp]: "me_raw (minimum_memory m) = me_raw m"
  by (auto simp: minimum_memory_def minimum_proof_def split: option.splits list.splits)

lemma piece_raw: "piece m c \<Longrightarrow> me_raw c = me_raw m"
  by (auto simp: piece_def split: if_splits)

lemma minimum_piece: "me_facts m \<noteq> [] \<Longrightarrow> piece m (minimum_memory m)"
  by (auto simp: piece_def minimum_memory_def intro!: exI [of _ 1] simp: Suc_le_eq)

lemma add_facts_piece:
  assumes "i < length cur" and "cur ! i = m\<lparr>me_facts := take k (me_facts m)\<rparr>" and "fs = drop k (me_facts m)" and "1 \<le> k" and "k \<le> length (me_facts m)"
    and "fit cur"
  shows "fit (add_facts fit i fs cur) \<and> (\<exists>j. 1 \<le> j \<and> j \<le> length (me_facts m) \<and> add_facts fit i fs cur = cur[i := m\<lparr>me_facts := take j (me_facts m)\<rparr>])"
  using assms
proof (induction fs arbitrary: cur k)
  case Nil
  then have "add_facts fit i [] cur = cur[i := m\<lparr>me_facts := take k (me_facts m)\<rparr>]" by (metis add_facts.simps(1) list_update_id)
  with Nil show ?case by auto
next
  case (Cons f fs)
  have k: "k < length (me_facts m)" using Cons.prems(3) by (metis drop_all list.distinct(1) not_less)
  have f: "me_facts m ! k = f" and fs: "fs = drop (Suc k) (me_facts m)"
    using Cons.prems(3) k by (metis Cons_nth_drop_Suc list.inject)+
  let ?e = "cur[i := (cur ! i)\<lparr>me_facts := me_facts (cur ! i) @ [f]\<rparr>]"
  have e: "?e = cur[i := m\<lparr>me_facts := take (Suc k) (me_facts m)\<rparr>]"
    using Cons.prems(2) k f by (simp add: take_Suc_conv_app_nth)
  show ?case
  proof (cases "fit ?e")
    case fits_budget: True
    have "fit (add_facts fit i fs ?e) \<and> (\<exists>j. 1 \<le> j \<and> j \<le> length (me_facts m) \<and> add_facts fit i fs ?e = ?e[i := m\<lparr>me_facts := take j (me_facts m)\<rparr>])"
      by (rule Cons.IH [of _ "Suc k"]) (use Cons.prems(1) fits_budget e fs k in \<open>simp_all\<close>)
    then show ?thesis using fits_budget by (auto simp: Let_def)
  next
    case False
    have "cur = cur[i := m\<lparr>me_facts := take k (me_facts m)\<rparr>]" using Cons.prems(2) by (metis list_update_id)
    moreover have "add_facts fit i (f # fs) cur = cur" using False by (simp add: Let_def)
    ultimately show ?thesis using Cons.prems(4-6) by auto
  qed
qed


definition minimal :: "memory list \<Rightarrow> memory list \<Rightarrow> (memory \<times> memory) list \<Rightarrow> bool" where
  "minimal base cur cs \<longleftrightarrow> (\<forall>i < length cur. \<forall>c \<in> set cs. me_raw (fst c) = me_raw (base ! i) \<longrightarrow>
     base ! i = fst c \<and> cur ! i = snd c \<and> snd c = minimum_memory (fst c) \<and> me_facts (fst c) \<noteq> [])"

lemma enrich_piece:
  assumes "list_all2 piece base cur" and "minimal base cur [c]" and "cur \<noteq> [] \<longrightarrow> fit cur"
  shows "(enrich fit cur c \<noteq> [] \<longrightarrow> fit (enrich fit cur c)) \<and> list_all2 piece base (enrich fit cur c) \<and>
    (\<forall>j < length cur. me_raw (base ! j) \<noteq> me_raw (fst c) \<longrightarrow> enrich fit cur c ! j = cur ! j)"
proof (cases "find (\<lambda>i. me_raw (cur ! i) = me_raw (fst c)) [0..<length cur]")
  case None
  then show ?thesis using assms by (simp add: enrich_def)
next
  case (Some i)
  then have i: "i < length cur" "me_raw (cur ! i) = me_raw (fst c)" by (auto dest: find_SomeD)
  have len: "length base = length cur" using assms(1) by (rule list_all2_lengthD)
  have raw: "me_raw (base ! i) = me_raw (fst c)" using list_all2_nthD2 [OF assms(1) i(1)] i(2) piece_raw by metis
  then have m: "base ! i = fst c" "cur ! i = minimum_memory (fst c)" "snd c = minimum_memory (fst c)" "me_facts (fst c) \<noteq> []"
    using assms(2) i by (auto simp: minimal_def)
  have fit: "fit cur" using assms(3) i(1) by (cases cur) auto
  have "\<exists>x. enrich fit cur c = cur[i := x] \<and> piece (fst c) x \<and> fit (cur[i := x])"
  proof (cases "me_atomic (fst c)")
    case True
    have "cur[i := minimum_memory (fst c)] = cur" using m(2) by (metis list_update_id)
    then show ?thesis using True Some fit m
      by (cases "me_compacted (snd c) \<and> fit (cur[i := fst c])") (auto simp: enrich_def piece_def intro: exI [of _ "minimum_memory (fst c)"])
  next
    case False
    then have "cur ! i = (fst c)\<lparr>me_facts := take 1 (me_facts (fst c))\<rparr>" using m by (simp add: minimum_memory_def)
    from add_facts_piece [OF i(1) this, of "tl (me_facts (fst c))" fit] m(4) fit
    obtain j where "fit (add_facts fit i (tl (me_facts (fst c))) cur)" "1 \<le> j" "j \<le> length (me_facts (fst c))"
      "add_facts fit i (tl (me_facts (fst c))) cur = cur[i := (fst c)\<lparr>me_facts := take j (me_facts (fst c))\<rparr>]"
      by (auto simp: drop_Suc Suc_le_eq)
    then show ?thesis using False Some by (auto simp: enrich_def piece_def)
  qed
  then obtain x where x: "enrich fit cur c = cur[i := x]" "piece (fst c) x" "fit (cur[i := x])" by blast
  have "list_all2 piece base (cur[i := x])"
    using list_all2_update_cong [OF assms(1), of "fst c" x i] x(2) m(1) by (metis list_update_id)
  moreover have "cur[i := x] ! j = cur ! j" if "me_raw (base ! j) \<noteq> me_raw (fst c)" for j
    using that raw by (cases "i = j") auto
  ultimately show ?thesis using x by simp
qed

lemma enrich_all:
  assumes "list_all2 piece base cur" and "minimal base cur cs" and "distinct (map (me_raw \<circ> fst) cs)" and "cur \<noteq> [] \<longrightarrow> fit cur"
  shows "list_all2 piece base (foldl (enrich fit) cur cs) \<and> (foldl (enrich fit) cur cs \<noteq> [] \<longrightarrow> fit (foldl (enrich fit) cur cs))"
  using assms
proof (induction cs arbitrary: cur)
  case (Cons c cs)
  have "minimal base cur [c]" using Cons.prems(2) by (auto simp: minimal_def)
  note e = enrich_piece [where fit = fit and cur = cur, OF Cons.prems(1) this Cons.prems(4)]
  have len: "length (enrich fit cur c) = length cur"
    using e Cons.prems(1) by (metis list_all2_lengthD)
  have "minimal base (enrich fit cur c) cs"
    unfolding minimal_def
  proof (intro allI ballI impI)
    fix i d
    assume i: "i < length (enrich fit cur c)" and d: "d \<in> set cs" and r: "me_raw (fst d) = me_raw (base ! i)"
    have "me_raw (fst d) \<noteq> me_raw (fst c)" using Cons.prems(3) d by (metis (no_types, lifting) comp_apply distinct.simps(2) image_eqI list.simps(9) set_map)
    then have "enrich fit cur c ! i = cur ! i" using e i r len by auto
    then show "base ! i = fst d \<and> enrich fit cur c ! i = snd d \<and> snd d = minimum_memory (fst d) \<and> me_facts (fst d) \<noteq> []"
      using Cons.prems(2) i d r len by (auto simp: minimal_def)
  qed
  then show ?case using Cons.IH [of "enrich fit cur c"] e Cons.prems(3) by auto
qed simp

lemma mset_nths_split: "mset (nths xs s) + mset (nths xs (- s)) = mset xs"
proof (induction xs arbitrary: s)
  case (Cons x xs)
  have "{j. Suc j \<in> - s} = - {j. Suc j \<in> s}" by auto
  then show ?case using Cons [of "{j. Suc j \<in> s}"] by (auto simp: nths_Cons)
qed simp


subsection \<open>The whole packing\<close>

definition renderable :: "memory list \<Rightarrow> memory list" where
  "renderable ms = filter (\<lambda>m. me_facts m \<noteq> []) ms"

lemma prepare_alt: "prepare ms = map (\<lambda>m. (m, minimum_memory m)) (renderable ms)"
  by (simp add: prepare_def renderable_def)

lemma pack_spec:
  assumes "pack fit ms = (cur, rejected)" and "sorted_wrt (<) (map me_raw ms)"
  shows "\<exists>base. list_all2 piece base cur \<and> set base \<subseteq> set (renderable ms) \<and> sorted_wrt (<) (map me_raw base)
    \<and> mset (map me_raw base) + mset (map fst rejected) = mset (map me_raw (renderable ms))"
    and "cur \<noteq> [] \<longrightarrow> fit cur"
    and "\<exists>base. list_all2 piece base cur \<and> length base = card (fill fit (map minimum_memory (filter (\<lambda>m. fit [minimum_memory m]) (renderable ms))))"
proof -
  let ?rs = "renderable ms"
  let ?v = "filter (\<lambda>m. fit [minimum_memory m]) ?rs"
  let ?P = "fill fit (map minimum_memory ?v)"
  define base where "base = nths ?v ?P"
  have sorted: "sorted_wrt (<) (map me_raw ?rs)"
    using assms(2) unfolding renderable_def by (simp add: sorted_wrt_map sorted_wrt_filter)
  have viable: "filter (\<lambda>c. fit [snd c]) (prepare ms) = map (\<lambda>m. (m, minimum_memory m)) ?v"
    and large: "filter (\<lambda>c. \<not> fit [snd c]) (prepare ms) = map (\<lambda>m. (m, minimum_memory m)) (filter (\<lambda>m. \<not> fit [minimum_memory m]) ?rs)"
    by (simp_all add: prepare_alt filter_map o_def)
  have cur: "cur = foldl (enrich fit) (map minimum_memory base) (prepare ms)"
    and rej: "map fst rejected = map me_raw (filter (\<lambda>m. \<not> fit [minimum_memory m]) ?rs) @ map me_raw (nths ?v (- ?P))"
    using assms(1) by (auto simp: pack_def Let_def viable large base_def nths_map o_def)
  have sub: "set base \<subseteq> set ?v" unfolding base_def by (rule set_nths_subset)
  have p0: "list_all2 piece base (map minimum_memory base)"
    using sub by (auto simp: list_all2_map2 list_all2_same renderable_def intro!: minimum_piece)
  have inj: "x = y" if "x \<in> set ?rs" "y \<in> set ?rs" "me_raw x = me_raw y" for x y
    using that sorted by (metis strict_sorted_iff distinct_map inj_on_def)
  have fit0: "map minimum_memory base \<noteq> [] \<longrightarrow> fit (map minimum_memory base)"
  proof (cases "?v = []")
    case False
    have "fit (nths (map minimum_memory ?v) ?P)"
      by (rule fill_fits(3) [of "map minimum_memory ?v" fit]) (use False in auto)
    then show ?thesis by (simp add: base_def nths_map)
  qed (simp add: base_def)
  have "minimal base (map minimum_memory base) (prepare ms)"
    unfolding minimal_def
  proof (intro allI ballI impI)
    fix i c
    assume i: "i < length (map minimum_memory base)" and c: "c \<in> set (prepare ms)" and r: "me_raw (fst c) = me_raw (base ! i)"
    have c': "fst c \<in> set ?rs" "snd c = minimum_memory (fst c)" "me_facts (fst c) \<noteq> []"
      using c by (auto simp: prepare_alt renderable_def)
    have "base ! i \<in> set base" using i by simp
    then have "base ! i \<in> set ?rs" using sub by auto
    with inj [OF c'(1) this r] c' i show "base ! i = fst c \<and> map minimum_memory base ! i = snd c \<and> snd c = minimum_memory (fst c) \<and> me_facts (fst c) \<noteq> []"
      by auto
  qed
  moreover have "distinct (map (me_raw \<circ> fst) (prepare ms))"
    using sorted by (simp add: prepare_alt o_def strict_sorted_iff)
  ultimately have all: "list_all2 piece base cur \<and> (cur \<noteq> [] \<longrightarrow> fit cur)"
    unfolding cur using enrich_all [of base "map minimum_memory base" "prepare ms" fit] p0 fit0 by blast
  then show "cur \<noteq> [] \<longrightarrow> fit cur" by blast
  have "map me_raw base = nths (map me_raw ?v) ?P" by (simp add: base_def nths_map)
  moreover have "sorted_wrt (<) (map me_raw ?v)" using sorted by (simp add: sorted_wrt_map sorted_wrt_filter)
  ultimately have "sorted_wrt (<) (map me_raw base)" by (simp add: strict_sorted_iff sorted_nths)
  moreover have "mset (map me_raw base) + mset (map fst rejected) = mset (map me_raw ?rs)"
  proof -
    have "mset base + mset (nths ?v (- ?P)) = mset ?v" unfolding base_def by (rule mset_nths_split)
    moreover have "mset ?v + mset (filter (\<lambda>m. \<not> fit [minimum_memory m]) ?rs) = mset ?rs" by (simp add: mset_filter)
    ultimately have "mset base + mset (nths ?v (- ?P)) + mset (filter (\<lambda>m. \<not> fit [minimum_memory m]) ?rs) = mset ?rs" by simp
    then have "image_mset me_raw (mset base + mset (nths ?v (- ?P)) + mset (filter (\<lambda>m. \<not> fit [minimum_memory m]) ?rs)) = image_mset me_raw (mset ?rs)"
      by simp
    then show ?thesis unfolding rej by (simp add: ac_simps)
  qed
  ultimately show "\<exists>base. list_all2 piece base cur \<and> set base \<subseteq> set ?rs \<and> sorted_wrt (<) (map me_raw base)
    \<and> mset (map me_raw base) + mset (map fst rejected) = mset (map me_raw ?rs)"
    using all sub by (intro exI [of _ base]) auto
  have "?P \<subseteq> {..<length (map minimum_memory ?v)}" by (rule fill_fits(2)) auto
  then have "{i. i < length ?v \<and> i \<in> ?P} = ?P" by auto
  then have "length base = card ?P" by (simp add: base_def length_nths)
  with all show "\<exists>base. list_all2 piece base cur \<and> length base = card ?P" by blast
qed


lemma records_ordered:
  "sorted_wrt (<) (map me_raw (memory_records inc i seen xs)) \<and> (\<forall>m \<in> set (memory_records inc i seen xs). i \<le> me_raw m)"
proof (induction xs arbitrary: i seen)
  case (Cons x xs)
  show ?case using Cons [of "Suc i"] by (auto simp: Let_def memory_of_def Suc_le_eq less_imp_le)
qed simp

lemma trim_logs_spec:
  "\<exists>k \<le> length logs. trim_logs ok logs = take k logs \<and> (ok (take k logs) \<or> k = 0) \<and> (\<forall>j. k < j \<and> j \<le> length logs \<longrightarrow> \<not> ok (take j logs))"
proof (induction ok logs rule: trim_logs.induct)
  case (1 ok logs)
  show ?case
  proof (cases "\<not> ok logs \<and> logs \<noteq> []")
    case True
    then obtain k where k: "k \<le> length (butlast logs)" "trim_logs ok (butlast logs) = take k (butlast logs)" "ok (take k (butlast logs)) \<or> k = 0"
      "\<forall>j. k < j \<and> j \<le> length (butlast logs) \<longrightarrow> \<not> ok (take j (butlast logs))"
      using 1 by auto
    have same: "take j (butlast logs) = take j logs" if "j \<le> length (butlast logs)" for j
      using that by (auto simp: butlast_conv_take)
    have "\<not> ok (take j logs)" if "k < j" "j \<le> length logs" for j
      using k(4) that same [of j] True by (cases "j = length logs") auto
    then show ?thesis using k same True by (intro exI [of _ k]) (simp add: trim_logs.simps [of ok logs])
  next
    case False
    then show ?thesis by (intro exI [of _ "length logs"]) (auto simp: trim_logs.simps [of ok logs])
  qed
qed

text \<open>What \<open>build_context\<close> returns, in terms of the packing.\<close>

lemma build_context_parts:
  assumes "build_context json tok inc budget logs items = Some r"
  shows "\<exists>packed k. pack (fits_budget json tok budget) (memory_records inc 0 [] items) = (packed, cx_rejections r) \<and> cx_memories r = packed \<and>
    cx_logs r = take k logs \<and> (\<forall>j. k < j \<and> j \<le> length logs \<longrightarrow> budget < token_count tok (render_context json (take j logs) packed)) \<and>
    (cx_text r = [] \<and> cx_tokens r = 0 \<or> cx_text r = render_context json (cx_logs r) (cx_memories r) \<and> cx_tokens r = token_count tok (cx_text r) \<and> cx_tokens r \<le> budget)"
proof -
  obtain packed rej where pk: "pack (fits_budget json tok budget) (memory_records inc 0 [] items) = (packed, rej)" by force
  let ?ok = "\<lambda>l. token_count tok (render_context json l packed) \<le> budget"
  obtain k where k: "k \<le> length logs" "trim_logs ?ok logs = take k logs" "?ok (take k logs) \<or> k = 0" "\<forall>j. k < j \<and> j \<le> length logs \<longrightarrow> \<not> ?ok (take j logs)"
    using trim_logs_spec [of logs ?ok] by blast
  have "packed \<noteq> [] \<longrightarrow> fits_budget json tok budget packed"
    using pack_spec(2) [OF pk conjunct1 [OF records_ordered]] .
  then have tiny: "\<not> ?ok (take k logs) \<Longrightarrow> packed = [] \<and> k = 0"
    using k(3) by (auto simp: fits_budget_def)
  show ?thesis
  proof (cases "?ok (take k logs)")
    case True
    then show ?thesis using assms pk k by (intro exI [of _ packed] exI [of _ k]) (auto simp: build_context_def Let_def not_le split: if_splits)
  next
    case False
    then show ?thesis using assms pk k tiny by (intro exI [of _ packed] exI [of _ k]) (auto simp: build_context_def Let_def not_le split: if_splits)
  qed
qed

text \<open>
  C25. The returned context is within the token budget, is what its logs and memories render to or empty, and its token
  count is exact.
\<close>

theorem context_within_budget:
  assumes "build_context json tok inc budget logs items = Some r"
  shows "cx_tokens r \<le> budget \<and> cx_tokens r = token_count tok (cx_text r) \<and>
    (cx_text r = [] \<or> cx_text r = render_context json (cx_logs r) (cx_memories r))"
  using build_context_parts [OF assms] by (auto simp: token_count_def)

text \<open>
  The candidate at place \<open>j\<close> has facts, and no candidate before it (nor any of \<open>seen\<close>) has its identity; a candidate
  without an identity repeats nothing.
\<close>

definition counted :: "string list \<Rightarrow> item list \<Rightarrow> nat \<Rightarrow> bool" where
  "counted seen xs j \<longleftrightarrow> it_provenance (xs ! j) \<noteq> [] \<and>
    (identity_of (xs ! j) = [] \<or> identity_of (xs ! j) \<notin> set seen \<union> identity_of ` set (take j xs))"

lemma counted_Cons:
  "counted seen (x # xs) (Suc j) \<longleftrightarrow> counted (if identity_of x \<noteq> [] then identity_of x # seen else seen) xs j"
  "counted seen (x # xs) 0 \<longleftrightarrow> it_provenance x \<noteq> [] \<and> (identity_of x = [] \<or> identity_of x \<notin> set seen)"
  by (auto simp: counted_def)

lemma counted_seen: "d \<in> set seen \<Longrightarrow> counted (d # seen) xs = counted seen xs"
  by (intro ext) (auto simp: counted_def)

lemma filter_upt_Suc: "filter P [0..<Suc n] = (if P 0 then [0] else []) @ map Suc (filter (\<lambda>j. P (Suc j)) [0..<n])"
  by (simp add: upt_conv_Cons filter_map o_def flip: map_Suc_upt del: upt_Suc)

lemma records_counted:
  "map me_raw (renderable (memory_records inc i seen xs)) = map (\<lambda>j. i + j) (filter (counted seen xs) [0..<length xs])"
proof (induction xs arbitrary: i seen)
  case (Cons x xs)
  have raw: "me_raw (memory_of inc i x) = i" "me_facts (memory_of inc i x) \<noteq> [] \<longleftrightarrow> it_provenance x \<noteq> []"
    by (simp_all add: memory_of_def Let_def)
  show ?case
    by (simp add: Let_def renderable_def [symmetric] Cons.IH filter_upt_Suc counted_Cons counted_seen o_def del: upt_Suc)
      (auto simp: renderable_def raw Cons.IH [unfolded renderable_def])
qed (simp add: renderable_def)

text \<open>
  C24. Every candidate with facts, except one that repeats the identity of a candidate before it in the ranking, is
  either shown, in the order of the ranking, or rejected with a reason, not both and not twice, and nothing else is
  shown or rejected; the session logs that stay are as many leading ones as the budget allows.
\<close>

theorem candidates_accounted_for:
  assumes "build_context json tok inc budget logs items = Some r"
  shows "sorted_wrt (<) (map me_raw (cx_memories r)) \<and>
    mset (map me_raw (cx_memories r)) + mset (map fst (cx_rejections r)) = mset (filter (counted [] items) [0..<length items]) \<and>
    (\<exists>k. cx_logs r = take k logs \<and> list_all (\<lambda>j. budget < token_count tok (render_context json (take j logs) (cx_memories r))) [Suc k..<Suc (length logs)])"
proof -
  obtain k where pk: "pack (fits_budget json tok budget) (memory_records inc 0 [] items) = (cx_memories r, cx_rejections r)"
    and k: "cx_logs r = take k logs" "\<forall>j. k < j \<and> j \<le> length logs \<longrightarrow> budget < token_count tok (render_context json (take j logs) (cx_memories r))"
    using build_context_parts [OF assms] by blast
  obtain base where base: "list_all2 piece base (cx_memories r)" "sorted_wrt (<) (map me_raw base)"
      "mset (map me_raw base) + mset (map fst (cx_rejections r)) = mset (map me_raw (renderable (memory_records inc 0 [] items)))"
    using pack_spec(1) [OF pk conjunct1 [OF records_ordered]] by blast
  have "map me_raw (cx_memories r) = map me_raw base"
    using base(1) piece_raw by (auto simp: list_all2_conv_all_nth intro: nth_equalityI)
  moreover have "list_all (\<lambda>j. budget < token_count tok (render_context json (take j logs) (cx_memories r))) [Suc k..<Suc (length logs)]"
    using k(2) by (auto simp: list_all_iff simp del: upt_Suc)
  moreover have "map me_raw (renderable (memory_records inc 0 [] items)) = filter (counted [] items) [0..<length items]"
    by (simp add: records_counted)
  ultimately show ?thesis using base(2,3) k(1) by (intro conjI exI [of _ k]) simp_all
qed


subsection \<open>Graph proofs\<close>

lemma keep_path_sound: "x \<in> set (keep_path e xs) \<Longrightarrow> x = e \<or> x \<in> set xs"
  by (induction e xs rule: keep_path.induct) (auto split: if_splits)

lemma keep_path_covers:
  "s \<in> insert (signature (snd e)) (signature ` snd ` set xs) \<Longrightarrow> s \<in> signature ` snd ` set (keep_path e xs)"
  by (induction e xs rule: keep_path.induct) auto

lemma kept_paths:
  "set (foldl (\<lambda>xs x. keep_path x xs) acc ps) \<subseteq> set acc \<union> set ps"
  "signature ` snd ` (set acc \<union> set ps) \<subseteq> signature ` snd ` set (foldl (\<lambda>xs x. keep_path x xs) acc ps)"
proof (induction ps arbitrary: acc)
  case (Cons p ps)
  { case 1 show ?case using Cons(1) [of "keep_path p acc"] keep_path_sound by fastforce }
  { case 2
    have "signature ` snd ` (set acc \<union> set (p # ps)) \<subseteq> signature ` snd ` (set (keep_path p acc) \<union> set ps)"
      using keep_path_covers [of _ p acc] unfolding list.set image_insert image_Un by blast
    from this Cons(2) [of "keep_path p acc"] show ?case unfolding foldl_Cons by (rule subset_trans) }
qed auto

lemma snd_filter: "snd ` set (filter (\<lambda>(i, p). P p) xs) = {q \<in> snd ` set xs. P q}"
  by (induction xs) auto

definition path_length :: "gpath \<Rightarrow> nat" where
  "path_length p = length (seq (gp_assertions p))"

lemma signature_length: "signature p = signature q \<Longrightarrow> path_length p = path_length q"
  by (simp add: signature_def path_length_def)

text \<open>The first valid path is a complete proof of the target, and no complete proof is shorter.\<close>

lemma first_valid_path:
  assumes "valid_paths m target = p # ps"
  shows "p \<in> set (map visible_path (me_paths m)) \<and> path_ok m target p \<and>
    (\<forall>q \<in> set (map visible_path (me_paths m)). path_ok m target q \<longrightarrow> path_length p \<le> path_length q)"
proof -
  define G where "G = filter (\<lambda>(i, p). path_ok m target p) (enumerate 0 (map visible_path (me_paths m)))"
  let ?kept = "foldl (\<lambda>xs x. keep_path x xs) [] G"
  let ?key = "\<lambda>(i, p). (length (seq (gp_assertions p)), path_name p, i)"
  have eq: "map snd (sort_key ?key ?kept) = p # ps"
    using assms by (auto simp: valid_paths_def Let_def G_def split: if_splits)
  then obtain i xs where s: "sort_key ?key ?kept = (i, p) # xs" by (cases "sort_key ?key ?kept") auto
  have good: "snd ` set G = {q \<in> set (map visible_path (me_paths m)). path_ok m target q}"
  proof -
    have "snd ` set (enumerate 0 (map visible_path (me_paths m))) = set (map visible_path (me_paths m))" by (metis map_snd_enumerate set_map)
    moreover have "snd ` set G = {q \<in> snd ` set (enumerate 0 (map visible_path (me_paths m))). path_ok m target q}" unfolding G_def by (rule snd_filter)
    ultimately show ?thesis by simp
  qed
  have same: "set ?kept = set ((i, p) # xs)" unfolding s [symmetric] by simp
  then have "(i, p) \<in> set ?kept" by simp
  from subsetD [OF kept_paths(1) this] have "(i, p) \<in> set G" by simp
  then have "p \<in> snd ` set G" by (metis imageI snd_conv)
  moreover have "path_length p \<le> path_length q" if "q \<in> snd ` set G" for q
  proof -
    from kept_paths(2) [of "[]" G] have "signature ` snd ` set G \<subseteq> signature ` snd ` set ?kept" by simp
    from subsetD [OF this imageI [OF that]] have "signature q \<in> signature ` snd ` set ?kept" .
    then obtain j q' where q': "(j, q') \<in> set ?kept" "signature q' = signature q" by auto
    have "sorted (map ?key ((i, p) # xs))" unfolding s [symmetric] by (rule sorted_sort_key)
    moreover have "(j, q') \<in> set ((i, p) # xs)" using q'(1) same by blast
    ultimately have "?key (i, p) \<le> ?key (j, q')" by auto
    then have "path_length p \<le> path_length q'" by (auto simp: path_length_def)
    then show ?thesis using signature_length [OF q'(2)] by simp
  qed
  ultimately show ?thesis using good by auto
qed

definition whole_proof :: "memory \<Rightarrow> memory \<Rightarrow> bool" where
  "whole_proof m c \<longleftrightarrow> (\<exists>p \<in> set (map visible_path (me_paths m)). path_ok m (me_principal m) p \<and>
     me_facts c = map (\<lambda>a. the (fact_of m a)) (seq (gp_assertions p)) \<and>
     (\<forall>q \<in> set (map visible_path (me_paths m)). path_ok m (me_principal m) q \<longrightarrow> path_length p \<le> path_length q))"

lemma minimum_whole: "me_atomic m \<Longrightarrow> me_facts (minimum_memory m) = me_facts m \<or> whole_proof m (minimum_memory m)"
proof (cases "valid_paths m (me_principal m)")
  case (Cons p ps)
  assume "me_atomic m"
  then show ?thesis using first_valid_path [OF Cons] Cons by (auto simp: minimum_memory_def minimum_proof_def whole_proof_def)
qed (simp add: minimum_memory_def minimum_proof_def)

text \<open>
  Evidence is shown whole: of an atomic proof all facts or the facts of one of its shortest complete paths, which
  ends in the proved assertion, and of any other candidate leading facts, none of them changed.
\<close>

lemma evidence_is_shown_whole:
  assumes "build_context json tok inc budget logs items = Some r" and "c \<in> set (cx_memories r)"
  shows "\<exists>m \<in> set (memory_records inc 0 [] items). me_raw c = me_raw m \<and> me_facts m \<noteq> [] \<and>
    (if me_atomic m then me_facts c = me_facts m \<or> whole_proof m c else (\<exists>k. 1 \<le> k \<and> me_facts c = take k (me_facts m)))"
proof -
  have pk: "pack (fits_budget json tok budget) (memory_records inc 0 [] items) = (cx_memories r, cx_rejections r)"
    using build_context_parts [OF assms(1)] by blast
  obtain base where base: "list_all2 piece base (cx_memories r)" "set base \<subseteq> set (renderable (memory_records inc 0 [] items))"
    using pack_spec(1) [OF pk conjunct1 [OF records_ordered]] by blast
  obtain m where m: "m \<in> set base" "piece m c"
    using base(1) assms(2) by (metis in_set_conv_nth list_all2_conv_all_nth)
  then have "m \<in> set (memory_records inc 0 [] items)" "me_facts m \<noteq> []" using base(2) by (auto simp: renderable_def)
  moreover have "if me_atomic m then me_facts c = me_facts m \<or> whole_proof m c else (\<exists>k. 1 \<le> k \<and> me_facts c = take k (me_facts m))"
    using m(2) minimum_whole by (auto simp: piece_def split: if_splits)
  ultimately show ?thesis using piece_raw [OF m(2)] by blast
qed


subsection \<open>Room for two\<close>

lemma nths_two: "a < b \<Longrightarrow> b < length xs \<Longrightarrow> nths xs {a, b} = [xs ! a, xs ! b]"
proof (induction xs arbitrary: a b)
  case (Cons x xs)
  show ?case
  proof (cases a)
    case 0
    then obtain b' where b: "b = Suc b'" "b' < length xs" using Cons.prems by (cases b) auto
    have "{j. Suc j \<in> {a, b}} = {b'}" using 0 b by auto
    moreover have "nths xs {b'} = [xs ! b']" using b(2)
    proof (induction xs arbitrary: b')
      case (Cons y ys)
      then show ?case by (cases b') (auto simp: nths_Cons)
    qed simp
    ultimately show ?thesis using 0 b by (simp add: nths_Cons)
  next
    case (Suc a')
    then obtain b' where b: "b = Suc b'" "a' < b'" "b' < length xs" using Cons.prems by (cases b) auto
    have "{j. Suc j \<in> {a, b}} = {a', b'}" using Suc b by auto
    then show ?thesis using Cons.IH [OF b(2,3)] Suc b(1) by (simp add: nths_Cons)
  qed
qed simp

lemma pack_two:
  assumes "pack fit ms = (cur, rejected)" and "sorted_wrt (<) (map me_raw ms)" and "filter (\<lambda>m. fit [minimum_memory m]) (renderable ms) = v"
    and "a < b" and "b < length v" and "fit [minimum_memory (v ! a), minimum_memory (v ! b)]"
  shows "2 \<le> length cur"
proof -
  let ?mins = "map minimum_memory v"
  obtain base where base: "list_all2 piece base cur" "length base = card (fill fit ?mins)"
    using pack_spec(3) [OF assms(1,2)] unfolding assms(3) by blast
  have each: "fit [m]" if "m \<in> set ?mins" for m using that assms(3) by auto
  have "fit (nths ?mins {a, b})" using nths_two [of a b ?mins] assms(4-6) by simp
  then obtain i j where ij: "i \<noteq> j" "{i, j} \<subseteq> reserve fit ?mins"
    using reserve_two [of a ?mins b fit] assms(4,5) by auto
  have "{i, j} \<subseteq> fill fit ?mins" using ij(2) fill_fits(1) [of ?mins fit] each by blast
  moreover have "finite (fill fit ?mins)" using fill_fits(2) [of ?mins fit] each finite_subset by blast
  ultimately have "card {i, j} \<le> card (fill fit ?mins)" by (intro card_mono)
  then show ?thesis using ij(1) base by (simp add: list_all2_lengthD [OF base(1), symmetric])
qed

text \<open>
  When the smallest forms of two candidates fit each alone and both together, at least two candidates are shown: a
  long first candidate cannot crowd all others out.
\<close>

lemma two_that_fit_are_shown:
  assumes "build_context json tok inc budget logs items = Some r"
    and "filter (\<lambda>m. fits_budget json tok budget [minimum_memory m]) (renderable (memory_records inc 0 [] items)) = v"
    and "a < b" and "b < length v" and "fits_budget json tok budget [minimum_memory (v ! a), minimum_memory (v ! b)]"
  shows "2 \<le> length (cx_memories r)"
  using build_context_parts [OF assms(1)] pack_two [OF _ conjunct1 [OF records_ordered] assms(2-5)] by blast

subsection \<open>Witnesses\<close>

text \<open>A tokenizer that counts every text as one token, two candidates and a log.\<close>

definition no_retrieval :: retrieval where
  "no_retrieval = \<lparr>rt_hops = 0, rt_path = [], rt_atomic = False, rt_paths = [], rt_matched = None, rt_assertion = None, rt_seed = None,
     rt_target = None, rt_path_id = None, rt_direction = None, rt_compaction = None\<rparr>"

definition plain_prov :: "string \<Rightarrow> prov" where
  "plain_prov v = \<lparr>pv_predicate = Some ''p'', pv_literal = Some v, pv_object_name = None, pv_object_id = None, pv_direction = None,
     pv_assertion = None, pv_subject = None, pv_object_type = None, pv_details = []\<rparr>"

definition plain_item :: "string \<Rightarrow> item" where
  "plain_item i = \<lparr>it_candidate = Some i, it_assertion = Some i, it_evidence = None, it_name = ''n'', it_provenance = [plain_prov i], it_retrieval = no_retrieval\<rparr>"

definition unit_tokens :: "string \<Rightarrow> nat" where
  "unit_tokens s = 1"

definition small_context :: context_result where
  "small_context = the (build_context (\<lambda>_. ''{}'') unit_tokens False 1 [''l''] [plain_item ''a'', plain_item ''b''])"

lemma unit_count: "token_count unit_tokens s \<le> 1"
  by (simp add: token_count_def unit_tokens_def)

lemma small_built: "build_context (\<lambda>_. ''{}'') unit_tokens False 1 [''l''] [plain_item ''a'', plain_item ''b''] = Some small_context"
  by (simp add: small_context_def build_context_def Let_def split: prod.splits)

lemma small_records: "memory_records False 0 [] [plain_item ''a'', plain_item ''b''] =
    [memory_of False 0 (plain_item ''a''), memory_of False 1 (plain_item ''b'')]"
  by (simp add: identity_of_def first_truthy_def plain_item_def Let_def)

lemma small_facts: "me_facts (memory_of False i (plain_item x)) = [[(''predicate'', ''p''), (''value'', x), (''direction'', ''asserted''), (''subject'', ''n'')]]"
  by (simp add: memory_of_def plain_item_def plain_prov_def no_retrieval_def make_fact_def first_truthy_def fact_value_def field_def Let_def)

lemma small_renderable: "renderable (memory_records False 0 [] [plain_item ''a'', plain_item ''b'']) =
    [memory_of False 0 (plain_item ''a''), memory_of False 1 (plain_item ''b'')]"
  unfolding small_records by (simp add: renderable_def small_facts)

lemma unit_fits: "fits_budget json unit_tokens 1 ms"
  unfolding fits_budget_def by (rule unit_count)

theorem context_within_budget_witness:
  "cx_tokens small_context \<le> 1 \<and> cx_tokens small_context = token_count unit_tokens (cx_text small_context)"
  using context_within_budget [OF small_built] by simp

lemma small_shown: "2 \<le> length (cx_memories small_context)"
  using build_context_parts [OF small_built] pack_two [OF _ conjunct1 [OF records_ordered], where a = 0 and b = 1]
    by (auto simp: small_renderable unit_fits [unfolded One_nat_def] simp del: memory_records.simps)

theorem candidates_accounted_for_witness:
  "mset (map me_raw (cx_memories small_context)) + mset (map fst (cx_rejections small_context)) = {#0, 1#}"
proof -
  have "filter (counted [] [plain_item ''a'', plain_item ''b'']) [0..<length [plain_item ''a'', plain_item ''b'']] = [0, 1]"
    by (simp add: counted_def plain_item_def identity_of_def first_truthy_def truthy_def)
  then show ?thesis using candidates_accounted_for [OF small_built] by simp
qed

lemma two_that_fit_are_shown_witness:
  "2 \<le> length (cx_memories small_context)"
  by (rule two_that_fit_are_shown [OF small_built _ zero_less_one, unfolded small_renderable, OF refl]) (simp_all add: unit_fits unit_fits [unfolded One_nat_def])

lemma evidence_is_shown_whole_witness:
  "\<exists>m :: memory. me_raw (hd (cx_memories small_context)) = me_raw m \<and> me_facts m \<noteq> []"
proof -
  have "cx_memories small_context \<noteq> []" using small_shown by auto
  from evidence_is_shown_whole [OF small_built hd_in_set [OF this]] show ?thesis by blast
qed

end
