(* ===== verification/Entities.thy ===== *)
theory Entities imports Prelude "HOL-Library.Char_ord" "HOL-Library.List_Lexorder" "HOL-Library.Product_Lexorder" begin

text \<open>
  Canonical entities (\<open>mesa_storage/dao.py\<close>): \<open>v4_entity_id\<close>, \<open>resolve_v4_entity\<close> with its redirects and merges, the
  retraction of an entity by a rollback and its physical cleanup. The normalisations of text and URIs and \<open>uuid5\<close> are
  parameters. The names of a call are a Python set, so the order in which they are visited is an argument. A table
  with a primary key and an owning entity is a list of keys, owners and remaining columns.
\<close>

subsection \<open>Owned rows\<close>

text \<open>\<open>INSERT OR IGNORE\<close>, and the merge's deletion and re-insertion of the rows of one owner.\<close>

definition claim_key :: "'k \<Rightarrow> string \<Rightarrow> 'p \<Rightarrow> ('k \<times> string \<times> 'p) list \<Rightarrow> ('k \<times> string \<times> 'p) list" where
  "claim_key k i p t = (if k \<in> fst ` set t then t else t @ [(k, i, p)])"

definition move_rows :: "string \<Rightarrow> string \<Rightarrow> ('k \<times> string \<times> 'p) list \<Rightarrow> ('k \<times> string \<times> 'p) list" where
  "move_rows a b t = foldl (\<lambda>t' (k, _, p). claim_key k b p t') (filter (\<lambda>(k, i, p). i \<noteq> a) t) (filter (\<lambda>(k, i, p). i = a) t)"

definition owner_of :: "('k \<times> string \<times> 'p) list \<Rightarrow> 'k \<Rightarrow> string option" where
  "owner_of t k = map_option fst (map_of t k)"

definition drop_rows :: "string \<Rightarrow> ('k \<times> string \<times> 'p) list \<Rightarrow> ('k \<times> string \<times> 'p) list" where
  "drop_rows a t = filter (\<lambda>(k, i, p). i \<noteq> a) t"

subsection \<open>State\<close>

datatype entity_status = E_ACTIVE | E_REDIRECTED | E_RETRACTED

record canonical =
  en_id :: string
  en_tenant :: string
  en_type :: string
  en_name :: string
  en_norm :: string
  en_uri :: "string option"
  en_key :: string
  en_status :: entity_status
  en_redirect :: "string option"

type_synonym alias_key = "string \<times> string \<times> string"
type_synonym external_key = "string \<times> string \<times> string \<times> string"

record entity_db =
  ents :: "canonical list"
  aliases :: "(alias_key \<times> string \<times> string) list"
  externals :: "(external_key \<times> string \<times> string \<times> bool) list"

record text_rules =
  tx_norm :: "string \<Rightarrow> string"
  tx_type :: "string \<Rightarrow> string"
  tx_uri :: "string \<Rightarrow> string option"
  tx_strip :: "string \<Rightarrow> string"
  tx_uuid :: "string \<Rightarrow> string"

datatype entity_error = Entity_Value_Error | Entity_Runtime_Error

definition ent_of :: "entity_db \<Rightarrow> string \<Rightarrow> canonical option" where
  "ent_of d i = find (\<lambda>e. en_id e = i) (ents d)"

subsection \<open>Identities\<close>

definition uri_prefix :: string where
  "uri_prefix = ''ontology:''"

definition is_ontology :: "canonical \<Rightarrow> bool" where
  "is_ontology e \<longleftrightarrow> take (length uri_prefix) (en_key e) = uri_prefix"

definition identity_key :: "string \<Rightarrow> string option \<Rightarrow> string" where
  "identity_key norm_name norm_uri = (if truthy norm_uri then uri_prefix @ the norm_uri else ''name:'' @ norm_name)"

text \<open>\<open>v4_entity_id\<close>; it normalises its arguments again.\<close>

definition entity_id :: "text_rules \<Rightarrow> string \<Rightarrow> string \<Rightarrow> string \<Rightarrow> string option \<Rightarrow> entity_error + string" where
  "entity_id tx tenant name ty uri =
    (if tenant = [] \<or> name = [] \<or> ty = [] then Inl Entity_Value_Error
     else if truthy uri then
       (case tx_uri tx (the uri) of
          None \<Rightarrow> Inl Entity_Value_Error
        | Some u \<Rightarrow> Inr (tx_uuid tx (tenant @ CHR 31 # tx_type tx ty @ CHR 31 # uri_prefix @ u)))
     else Inr (tx_uuid tx (tenant @ CHR 31 # tx_type tx ty @ CHR 31 # ''name:'' @ tx_norm tx name)))"

definition insert_entity :: "canonical \<Rightarrow> entity_db \<Rightarrow> entity_db" where
  "insert_entity e d =
    (if list_ex (\<lambda>x. en_id x = en_id e \<or> en_tenant x = en_tenant e \<and> en_type x = en_type e \<and> en_key x = en_key e) (ents d) then d
     else d\<lparr>ents := ents d @ [e]\<rparr>)"

definition by_key :: "string \<Rightarrow> string \<Rightarrow> string \<Rightarrow> entity_db \<Rightarrow> canonical option" where
  "by_key tenant ty key d = find (\<lambda>e. en_tenant e = tenant \<and> en_type e = ty \<and> en_key e = key) (ents d)"

text \<open>Inserts the entity of a name or a URI unless it exists, and reads it back.\<close>

definition create_entity :: "text_rules \<Rightarrow> string \<Rightarrow> string \<Rightarrow> string \<Rightarrow> string option \<Rightarrow> entity_db \<Rightarrow> entity_error + (canonical option \<times> entity_db)" where
  "create_entity tx tenant name ty uri d =
    bindE (entity_id tx tenant name ty uri) (\<lambda>i.
      let key = identity_key (tx_norm tx name) uri;
          d' = insert_entity \<lparr>en_id = i, en_tenant = tenant, en_type = ty, en_name = tx_strip tx name, en_norm = tx_norm tx name,
            en_uri = uri, en_key = key, en_status = E_ACTIVE, en_redirect = None\<rparr> d
      in Inr (by_key tenant ty key d', d'))"

subsection \<open>Redirects and merges\<close>

function follow :: "entity_db \<Rightarrow> string list \<Rightarrow> canonical option \<Rightarrow> entity_error + canonical option" where
  "follow d visited row =
    (case row of
       None \<Rightarrow> Inr None
     | Some e \<Rightarrow>
         if \<not> truthy (en_redirect e) then Inr (Some e)
         else if en_id e \<in> set visited \<or> 16 \<le> length visited then Inl Entity_Runtime_Error
         else follow d (en_id e # visited) (ent_of d (the (en_redirect e))))"
  by pat_completeness auto
termination by (relation "measure (\<lambda>(d, visited, row). 16 - length visited)") auto

declare follow.simps [simp del]

definition rank :: "canonical \<Rightarrow> nat \<times> string" where
  "rank e = (if is_ontology e then 0 else 1, en_id e)"

definition redirect_to :: "string \<Rightarrow> string \<Rightarrow> entity_db \<Rightarrow> entity_db" where
  "redirect_to a b d = d\<lparr>
     aliases := move_rows a b (aliases d),
     externals := move_rows a b (externals d),
     ents := upd (\<lambda>e. en_id e = a) (\<lambda>e. e\<lparr>en_status := E_REDIRECTED, en_redirect := Some b\<rparr>) (ents d)\<rparr>"

definition merge_entities :: "canonical option \<Rightarrow> canonical option \<Rightarrow> entity_db \<Rightarrow> entity_error + (canonical \<times> entity_db)" where
  "merge_entities first second d =
    bindE (follow d [] first) (\<lambda>f. bindE (follow d [] second) (\<lambda>s.
      (case (f, s) of
         (Some a, Some b) \<Rightarrow>
           if en_id a = en_id b then Inr (a, d)
           else
             let (w, l) = (if rank b < rank a then (b, a) else (a, b)) in
             if en_tenant w \<noteq> en_tenant l \<or> en_type w \<noteq> en_type l then Inl Entity_Value_Error
             else Inr (w, redirect_to (en_id l) (en_id w) d)
       | _ \<Rightarrow> Inl Entity_Runtime_Error)))"

subsection \<open>Resolution\<close>

definition by_external :: "string \<Rightarrow> string \<Rightarrow> string \<Rightarrow> entity_db \<Rightarrow> canonical option" where
  "by_external tenant ty u d = Option.bind (owner_of (externals d) (tenant, ty, ''ontology'', u)) (ent_of d)"

definition by_alias :: "string \<Rightarrow> string \<Rightarrow> string \<Rightarrow> entity_db \<Rightarrow> canonical option" where
  "by_alias tenant ty n d = Option.bind (owner_of (aliases d) (tenant, ty, n)) (ent_of d)"

definition by_name :: "string \<Rightarrow> string \<Rightarrow> string \<Rightarrow> entity_db \<Rightarrow> canonical option" where
  "by_name tenant ty n d =
    (case sort_key en_id (filter (\<lambda>e. en_tenant e = tenant \<and> en_type e = ty \<and> en_norm e = n \<and> en_status e = E_ACTIVE) (ents d)) of
       [] \<Rightarrow> None | e # _ \<Rightarrow> Some e)"

definition or_row :: "canonical option \<Rightarrow> canonical option \<Rightarrow> canonical option" where
  "or_row a b = (case a of None \<Rightarrow> b | Some _ \<Rightarrow> a)"

text \<open>The entity of a name, an alias or a URI; created when there is none.\<close>

definition find_or_create :: "text_rules \<Rightarrow> string \<Rightarrow> string \<Rightarrow> string \<Rightarrow> string option \<Rightarrow> entity_db \<Rightarrow> entity_error + (canonical \<times> entity_db)" where
  "find_or_create tx tenant name ty uri d =
    bindE (case or_row (if truthy uri then by_external tenant ty (the uri) d else None)
             (or_row (by_alias tenant ty (tx_norm tx name) d) (by_name tenant ty (tx_norm tx name) d)) of
        Some e \<Rightarrow> Inr (Some e, d)
      | None \<Rightarrow> create_entity tx tenant name ty uri d) (\<lambda>(row, d').
    (case row of
       None \<Rightarrow> Inl Entity_Runtime_Error
     | Some e \<Rightarrow> bindE (follow d' [] (Some e)) (\<lambda>r. case r of None \<Rightarrow> Inl Entity_Runtime_Error | Some e' \<Rightarrow> Inr (e', d'))))"

definition promote :: "text_rules \<Rightarrow> string \<Rightarrow> string \<Rightarrow> string \<Rightarrow> string option \<Rightarrow> canonical \<times> entity_db \<Rightarrow> entity_error + (canonical \<times> entity_db)" where
  "promote tx tenant name ty uri s =
    (if truthy uri \<and> \<not> is_ontology (fst s) then
       bindE (create_entity tx tenant name ty uri (snd s)) (\<lambda>(row, d). merge_entities (Some (fst s)) row d)
     else Inr s)"

definition add_name :: "text_rules \<Rightarrow> string \<Rightarrow> string \<Rightarrow> string \<Rightarrow> canonical \<times> entity_db \<Rightarrow> entity_error + (canonical \<times> entity_db)" where
  "add_name tx tenant ty a s =
    (if tx_strip tx a = [] then Inr s
     else
       let n = tx_norm tx a; own = by_alias tenant ty n (snd s) in
       bindE (if own \<noteq> None \<and> en_id (the own) \<noteq> en_id (fst s) then merge_entities (Some (fst s)) own (snd s) else Inr s) (\<lambda>(e, d).
         Inr (e, d\<lparr>aliases := claim_key (tenant, ty, n) (en_id e) (tx_strip tx a) (aliases d)\<rparr>)))"

definition add_uri :: "string \<Rightarrow> string \<Rightarrow> string option \<Rightarrow> string option \<Rightarrow> canonical \<times> entity_db \<Rightarrow> entity_error + (canonical \<times> entity_db)" where
  "add_uri tenant ty raw uri s =
    (if \<not> truthy uri then Inr s
     else
       let own = by_external tenant ty (the uri) (snd s) in
       bindE (if own \<noteq> None \<and> en_id (the own) \<noteq> en_id (fst s) then merge_entities (Some (fst s)) own (snd s) else Inr s) (\<lambda>(e, d).
         Inr (e, d\<lparr>externals := claim_key (tenant, ty, ''ontology'', the uri) (en_id e) (the raw, True) (externals d)\<rparr>)))"

text \<open>\<open>order\<close> lists the canonical name and the aliases as the set iterates.\<close>

definition resolve_entity :: "text_rules \<Rightarrow> string \<Rightarrow> string \<Rightarrow> string \<Rightarrow> string option \<Rightarrow> string list \<Rightarrow> entity_db \<Rightarrow> entity_error + (canonical \<times> entity_db)" where
  "resolve_entity tx tenant name ty0 uri0 order d =
    (let ty = tx_type tx ty0 in
     bindE (if truthy uri0 then (case tx_uri tx (the uri0) of None \<Rightarrow> Inl Entity_Value_Error | Some u \<Rightarrow> Inr (Some u)) else Inr None) (\<lambda>uri.
     bindE (find_or_create tx tenant name ty uri d) (\<lambda>s.
     bindE (promote tx tenant name ty uri s) (\<lambda>s.
     bindE (foldE (add_name tx tenant ty) order s) (add_uri tenant ty uri0 uri)))))"

subsection \<open>Retraction and cleanup\<close>

definition retract_entity :: "string \<Rightarrow> entity_db \<Rightarrow> entity_db" where
  "retract_entity i d = d\<lparr>ents := upd (\<lambda>e. en_id e = i) (\<lambda>e. e\<lparr>en_status := E_RETRACTED\<rparr>) (ents d)\<rparr>"

text \<open>\<open>apply_artifact_cleanup\<close> of an SQL entity; \<open>referenced\<close> says that an assertion names it.\<close>

definition cleanup_entity :: "bool \<Rightarrow> string \<Rightarrow> entity_db \<Rightarrow> entity_db" where
  "cleanup_entity referenced i d = d\<lparr>aliases := drop_rows i (aliases d), externals := drop_rows i (externals d),
     ents := (if referenced then ents d else filter (\<lambda>e. en_id e \<noteq> i) (ents d))\<rparr>"

datatype entity_call =
    Resolve string string string "string option" "string list"
  | Retract string
  | Cleanup bool string

fun after_entity_call :: "text_rules \<Rightarrow> entity_db \<Rightarrow> entity_call \<Rightarrow> entity_db" where
  "after_entity_call tx d (Resolve tenant name ty uri order) = (case resolve_entity tx tenant name ty uri order d of Inl _ \<Rightarrow> d | Inr (_, d') \<Rightarrow> d')"
| "after_entity_call tx d (Retract i) = retract_entity i d"
| "after_entity_call tx d (Cleanup r i) = cleanup_entity r i d"

definition no_entities :: entity_db where
  "no_entities = \<lparr>ents = [], aliases = [], externals = []\<rparr>"

end
