(* ===== verification/Entities_Properties.thy ===== *)
theory Entities_Properties imports Entities begin

text \<open>
  Resolving unites names for good: every name owns one live root of an acyclic forest of redirects. What a rollback
  retracts stays retracted.
\<close>

subsection \<open>Owned rows\<close>

lemma claim_all:
  assumes "distinct (map fst (acc @ xs))"
  shows "foldl (\<lambda>t' (k, _, p). claim_key k b p t') acc xs = acc @ map (\<lambda>(k, _, p). (k, b, p)) xs"
  using assms
proof (induction xs arbitrary: acc)
  case (Cons x xs)
  obtain k i p where x: "x = (k, i, p)" by (cases x)
  have "claim_key k b p acc = acc @ [(k, b, p)]" using Cons.prems x by (auto simp: claim_key_def)
  then show ?case using Cons.IH [of "acc @ [(k, b, p)]"] Cons.prems x by simp
qed simp

lemma distinct_partition: "distinct (map f xs) \<Longrightarrow> distinct (map f (filter P xs @ filter (\<lambda>x. \<not> P x) xs))"
  by (induction xs) auto

lemma move_rows_alt:
  assumes "distinct (map fst t)"
  shows "move_rows a b t = filter (\<lambda>(k, i, p). i \<noteq> a) t @ map (\<lambda>(k, _, p). (k, b, p)) (filter (\<lambda>(k, i, p). i = a) t)"
  unfolding move_rows_def
  by (rule claim_all) (use distinct_partition [OF assms, of "\<lambda>(k, i, p). i \<noteq> a"] in \<open>simp add: case_prod_unfold\<close>)

definition subst :: "string \<Rightarrow> string \<Rightarrow> string \<Rightarrow> string" where
  "subst a b i = (if i = a then b else i)"

lemma owner_move:
  assumes "distinct (map fst t)"
  shows "distinct (map fst (move_rows a b t))" and "owner_of (move_rows a b t) k = map_option (subst a b) (owner_of t k)"
proof -
  have keys: "map fst (map (\<lambda>(k, _, p). (k, b, p)) ys) = map fst ys" for ys :: "('a \<times> string \<times> 'b) list" by auto
  show "distinct (map fst (move_rows a b t))"
    using distinct_partition [OF assms, of "\<lambda>(k, i, p). i \<noteq> a"]
    by (simp only: move_rows_alt [OF assms] map_append keys) (simp add: case_prod_unfold)
  have "map_of (map (\<lambda>(k, _, p). (k, b, p)) (filter (\<lambda>(k, i, p). i = a) t)) k =
      (case map_of t k of None \<Rightarrow> None | Some (i, p) \<Rightarrow> if i = a then Some (b, p) else None)" using assms
    by (induction t) (auto split: option.splits simp: map_of_eq_None_iff image_iff)
  moreover have "map_of (filter (\<lambda>(k, i, p). i \<noteq> a) t) k = (case map_of t k of None \<Rightarrow> None | Some (i, p) \<Rightarrow> if i = a then None else Some (i, p))"
    using assms by (induction t) (auto split: option.splits simp: map_of_eq_None_iff image_iff)
  ultimately show "owner_of (move_rows a b t) k = map_option (subst a b) (owner_of t k)"
    by (auto simp: owner_of_def move_rows_alt [OF assms] map_add_def subst_def split: option.splits)
qed

lemma owner_claim:
  shows "distinct (map fst t) \<Longrightarrow> distinct (map fst (claim_key k i p t))"
    and "owner_of (claim_key k i p t) j = (if j = k \<and> owner_of t k = None then Some i else owner_of t j)"
proof -
  show "distinct (map fst t) \<Longrightarrow> distinct (map fst (claim_key k i p t))" by (auto simp: claim_key_def)
  have "k \<in> fst ` set t \<longleftrightarrow> owner_of t k \<noteq> None" by (simp add: owner_of_def map_of_eq_None_iff)
  then show "owner_of (claim_key k i p t) j = (if j = k \<and> owner_of t k = None then Some i else owner_of t j)"
    by (auto simp: claim_key_def owner_of_def map_add_def split: option.splits)
qed

subsection \<open>The invariant\<close>

definition root_of :: "entity_db \<Rightarrow> string \<Rightarrow> string \<Rightarrow> string \<Rightarrow> bool" where
  "root_of d tenant ty i \<longleftrightarrow> (\<exists>e \<in> set (ents d). en_id e = i \<and> en_redirect e = None \<and> en_tenant e = tenant \<and> en_type e = ty)"

definition redirect_ok :: "entity_db \<Rightarrow> canonical \<Rightarrow> bool" where
  "redirect_ok d e \<longleftrightarrow> (\<forall>j. en_redirect e = Some j \<longrightarrow>
     (\<exists>e' \<in> set (ents d). en_id e' = j \<and> en_tenant e' = en_tenant e \<and> en_type e' = en_type e \<and> rank e' < rank e))"

definition ent_ok :: "entity_db \<Rightarrow> bool" where
  "ent_ok d \<longleftrightarrow> distinct (map en_id (ents d)) \<and> distinct (map fst (aliases d)) \<and> distinct (map fst (externals d)) \<and>
     (\<forall>e \<in> set (ents d). en_id e \<noteq> [] \<and> redirect_ok d e) \<and>
     (\<forall>tenant ty n i. owner_of (aliases d) (tenant, ty, n) = Some i \<longrightarrow> root_of d tenant ty i) \<and>
     (\<forall>tenant ty s u i. owner_of (externals d) (tenant, ty, s, u) = Some i \<longrightarrow> root_of d tenant ty i)"

text \<open>What resolving does to the owners: one renaming for aliases and URIs.\<close>

definition renames :: "(string \<Rightarrow> string) \<Rightarrow> entity_db \<Rightarrow> entity_db \<Rightarrow> bool" where
  "renames f d d' \<longleftrightarrow> (\<forall>k i. owner_of (aliases d) k = Some i \<longrightarrow> owner_of (aliases d') k = Some (f i)) \<and>
     (\<forall>k i. owner_of (externals d) k = Some i \<longrightarrow> owner_of (externals d') k = Some (f i))"

lemma renames_id: "renames id d d"
  by (simp add: renames_def)

lemma renames_comp: "renames f d d' \<Longrightarrow> renames g d' d'' \<Longrightarrow> renames (g \<circ> f) d d''"
  by (simp add: renames_def)

lemma ent_of_root: "ent_ok d \<Longrightarrow> e \<in> set (ents d) \<Longrightarrow> ent_of d (en_id e) = Some e"
  unfolding ent_ok_def ent_of_def by (metis find_distinct)

lemma ent_of_mem: "ent_of d i = Some e \<Longrightarrow> e \<in> set (ents d) \<and> en_id e = i"
  unfolding ent_of_def by (drule find_SomeD) simp

text \<open>A resolution in progress: the row at hand is a live root of the tenant and the type.\<close>

definition at_root :: "string \<Rightarrow> string \<Rightarrow> canonical \<times> entity_db \<Rightarrow> bool" where
  "at_root tenant ty s \<longleftrightarrow> ent_ok (snd s) \<and> fst s \<in> set (ents (snd s)) \<and> en_redirect (fst s) = None \<and> en_tenant (fst s) = tenant \<and> en_type (fst s) = ty"

definition moves :: "canonical \<times> entity_db \<Rightarrow> canonical \<times> entity_db \<Rightarrow> bool" where
  "moves s s' \<longleftrightarrow> (\<exists>f. renames f (snd s) (snd s') \<and> f (en_id (fst s)) = en_id (fst s')) \<and> (is_ontology (fst s) \<longrightarrow> is_ontology (fst s'))"

lemma moves_refl: "moves s s"
  unfolding moves_def by (intro conjI exI [of _ id]) (simp_all add: renames_id)

lemma moves_trans: "moves s s' \<Longrightarrow> moves s' s'' \<Longrightarrow> moves s s''"
  unfolding moves_def by (metis comp_apply renames_comp)

lemma moves_alias: "moves s s' \<Longrightarrow> owner_of (aliases (snd s)) k = Some (en_id (fst s)) \<Longrightarrow> owner_of (aliases (snd s')) k = Some (en_id (fst s'))"
  and moves_external: "moves s s' \<Longrightarrow> owner_of (externals (snd s)) k' = Some (en_id (fst s)) \<Longrightarrow> owner_of (externals (snd s')) k' = Some (en_id (fst s'))"
  unfolding moves_def renames_def by metis+

subsection \<open>Steps of a resolution\<close>

lemma ent_ok_cong:
  assumes "ent_ok d" and "distinct (map en_id es)" and "\<And>e. e \<in> set es \<Longrightarrow> en_id e \<noteq> [] \<and> redirect_ok (d\<lparr>ents := es\<rparr>) e"
    and "\<And>tenant ty i. root_of d tenant ty i \<Longrightarrow> root_of (d\<lparr>ents := es\<rparr>) tenant ty i"
  shows "ent_ok (d\<lparr>ents := es\<rparr>)"
  using assms unfolding ent_ok_def by simp

lemma insert_entity_ok:
  assumes "ent_ok d" and "en_id e \<noteq> []" and "en_redirect e = None"
  shows "ent_ok (insert_entity e d) \<and> renames id d (insert_entity e d) \<and> set (ents d) \<subseteq> set (ents (insert_entity e d))"
proof (cases "list_ex (\<lambda>x. en_id x = en_id e \<or> en_tenant x = en_tenant e \<and> en_type x = en_type e \<and> en_key x = en_key e) (ents d)")
  case True
  then show ?thesis using assms(1) by (simp add: insert_entity_def renames_id)
next
  case False
  have "ent_ok (d\<lparr>ents := ents d @ [e]\<rparr>)"
    using assms False by (intro ent_ok_cong) (auto simp: ent_ok_def list_ex_iff redirect_ok_def root_of_def)
  then show ?thesis using False by (auto simp: insert_entity_def renames_def)
qed

lemma create_entity_ok:
  assumes "ent_ok d" and "\<And>s. tx_uuid tx s \<noteq> []" and "create_entity tx tenant name ty uri d = Inr (row, d')"
  shows "ent_ok d' \<and> renames id d d' \<and> set (ents d) \<subseteq> set (ents d') \<and>
    (case row of None \<Rightarrow> True | Some e \<Rightarrow> e \<in> set (ents d') \<and> en_tenant e = tenant \<and> en_type e = ty \<and> en_key e = identity_key (tx_norm tx name) uri)"
proof -
  obtain i where i: "entity_id tx tenant name ty uri = Inr i" using assms(3) by (auto simp: create_entity_def bindE_Inr_iff)
  then have "i \<noteq> []" using assms(2) by (auto simp: entity_id_def split: if_splits option.splits)
  define e where "e = \<lparr>en_id = i, en_tenant = tenant, en_type = ty, en_name = tx_strip tx name, en_norm = tx_norm tx name,
            en_uri = uri, en_key = identity_key (tx_norm tx name) uri, en_status = E_ACTIVE, en_redirect = None\<rparr>"
  have d': "d' = insert_entity e d" and row: "row = by_key tenant ty (identity_key (tx_norm tx name) uri) (insert_entity e d)"
    using assms(3) i by (auto simp: create_entity_def e_def Let_def)
  have "ent_ok d' \<and> renames id d d' \<and> set (ents d) \<subseteq> set (ents d')"
    unfolding d' using \<open>i \<noteq> []\<close> by (intro insert_entity_ok assms(1)) (simp_all add: e_def)
  moreover have "case row of None \<Rightarrow> True | Some e \<Rightarrow> e \<in> set (ents d') \<and> en_tenant e = tenant \<and> en_type e = ty \<and> en_key e = identity_key (tx_norm tx name) uri"
    unfolding row d' by_key_def by (auto split: option.splits dest: find_SomeD)
  ultimately show ?thesis by blast
qed

lemma follow_root:
  assumes "ent_ok d" and "follow d visited (Some e) = Inr (Some e')" and "e \<in> set (ents d)"
  shows "e' \<in> set (ents d) \<and> en_redirect e' = None \<and> en_tenant e' = en_tenant e \<and> en_type e' = en_type e \<and> rank e' \<le> rank e"
  using assms(2,3,1)
proof (induction d visited "Some e" arbitrary: e rule: follow.induct)
  case (1 d visited)
  show ?case
  proof (cases "truthy (en_redirect e)")
    case False
    have "en_redirect e \<noteq> Some []"
    proof
      assume "en_redirect e = Some []"
      moreover have "redirect_ok d e" using 1(4) 1(3) by (simp add: ent_ok_def)
      ultimately obtain x where "x \<in> set (ents d)" "en_id x = []" by (auto simp: redirect_ok_def)
      then show False using 1(4) by (auto simp: ent_ok_def)
    qed
    then have "en_redirect e = None" using False by (cases "en_redirect e") auto
    moreover have "e' = e" using 1(2) False by (simp add: follow.simps [of d visited "Some e"])
    ultimately show ?thesis using 1(3) by simp
  next
    case True
    then obtain j x where j: "en_redirect e = Some j" "ent_of d j = Some x" "en_tenant x = en_tenant e" "en_type x = en_type e" "rank x < rank e" "x \<in> set (ents d)"
    proof -
      obtain j where j: "en_redirect e = Some j" using True by (cases "en_redirect e") auto
      moreover have "redirect_ok d e" using 1(4) 1(3) by (simp add: ent_ok_def)
      ultimately obtain x where x: "x \<in> set (ents d)" "en_id x = j" "en_tenant x = en_tenant e" "en_type x = en_type e" "rank x < rank e"
        by (auto simp: redirect_ok_def)
      have "ent_of d j = Some x" using ent_of_root [OF 1(4) x(1)] x(2) by simp
      then show thesis by (rule that [OF j _ x(3-5,1)])
    qed
    have short: "\<not> (en_id e \<in> set visited \<or> 16 \<le> length visited)" and next_row: "follow d (en_id e # visited) (Some x) = Inr (Some e')"
      using 1(2) True j(1,2) by (simp_all add: follow.simps [of d visited "Some e"] split: if_splits)
    have t: "\<not> \<not> truthy (en_redirect e)" using True by simp
    have "ent_of d (the (en_redirect e)) = Some x" using j(1,2) by simp
    from 1(1) [OF refl t short this next_row j(6) 1(4)]
    show ?thesis using j(3-5) by auto
  qed
qed


lemma follow_self: "en_redirect e = None \<Longrightarrow> follow d visited (Some e) = Inr (Some e)"
  by (simp add: follow.simps [of d visited "Some e"])

lemma redirect_ok_step:
  assumes "ent_ok d" and "w \<in> set (ents d)" and "l \<in> set (ents d)" and "en_redirect w = None" and "en_id w \<noteq> en_id l"
    and "en_tenant w = en_tenant l" and "en_type w = en_type l" and "rank w < rank l"
  shows "ent_ok (redirect_to (en_id l) (en_id w) d)"
    and "renames (subst (en_id l) (en_id w)) d (redirect_to (en_id l) (en_id w) d)"
    and "w \<in> set (ents (redirect_to (en_id l) (en_id w) d))"
proof -
  let ?d = "redirect_to (en_id l) (en_id w) d"
  let ?f = "\<lambda>e. if en_id e = en_id l then e\<lparr>en_status := E_REDIRECTED, en_redirect := Some (en_id w)\<rparr> else e"
  have es: "ents ?d = map ?f (ents d)" by (simp add: redirect_to_def upd_def)
  have ids: "map en_id (ents ?d) = map en_id (ents d)" unfolding es by simp
  have only: "e = l" if "e \<in> set (ents d)" "en_id e = en_id l" for e
    using assms(1,3) that by (auto simp: ent_ok_def distinct_map inj_on_def)
  show w: "w \<in> set (ents ?d)" unfolding es using assms(2,5) by (auto simp: image_iff intro: bexI [of _ w])
  show ren: "renames (subst (en_id l) (en_id w)) d ?d"
    using assms(1) by (simp add: renames_def redirect_to_def owner_move(2) ent_ok_def)
  have rank_f: "rank (?f e) = rank e" for e by (simp add: rank_def is_ontology_def)
  have member: "?f e \<in> set (ents ?d)" if "e \<in> set (ents d)" for e using that unfolding es by auto
  have red: "redirect_ok ?d (?f e)" if e: "e \<in> set (ents d)" for e
  proof (cases "en_id e = en_id l")
    case True
    then have "e = l" using only e by simp
    then show ?thesis using w assms(6-8) True rank_f [of l] by (auto simp: redirect_ok_def intro!: bexI [of _ w])
  next
    case False
    show ?thesis unfolding redirect_ok_def
    proof (intro allI impI)
      fix j
      assume "en_redirect (?f e) = Some j"
      then obtain e' where e': "e' \<in> set (ents d)" "en_id e' = j" "en_tenant e' = en_tenant e" "en_type e' = en_type e" "rank e' < rank e"
        using assms(1) e False unfolding ent_ok_def redirect_ok_def by auto
      then show "\<exists>x \<in> set (ents ?d). en_id x = j \<and> en_tenant x = en_tenant (?f e) \<and> en_type x = en_type (?f e) \<and> rank x < rank (?f e)"
        using member [OF e'(1)] False rank_f [of e'] by (intro bexI [of _ "?f e'"]) auto
    qed
  qed
  have root: "root_of ?d tenant ty (subst (en_id l) (en_id w) i)" if r: "root_of d tenant ty i" for tenant ty i
  proof (cases "i = en_id l")
    case True
    then have "en_tenant w = tenant" "en_type w = ty" using r only assms(6,7) by (auto simp: root_of_def)
    then show ?thesis using True w assms(4) by (auto simp: root_of_def subst_def)
  next
    case False
    obtain e where e: "e \<in> set (ents d)" "en_id e = i" "en_redirect e = None" "en_tenant e = tenant" "en_type e = ty" using r by (auto simp: root_of_def)
    then have "e \<in> set (ents ?d)" using member [OF e(1)] False by simp
    then show ?thesis using e False by (auto simp: root_of_def subst_def)
  qed
  have al: "owner_of (aliases ?d) k = map_option (subst (en_id l) (en_id w)) (owner_of (aliases d) k)"
    and ex: "owner_of (externals ?d) k' = map_option (subst (en_id l) (en_id w)) (owner_of (externals d) k')" for k k'
    using assms(1) by (simp_all add: redirect_to_def owner_move(2) ent_ok_def)
  show "ent_ok ?d"
    unfolding ent_ok_def
  proof (intro conjI allI impI ballI)
    show "distinct (map en_id (ents ?d))" using assms(1) ids by (simp add: ent_ok_def)
    show "distinct (map fst (aliases ?d))" "distinct (map fst (externals ?d))"
      using assms(1) by (simp_all add: redirect_to_def owner_move(1) ent_ok_def)
    fix e
    assume "e \<in> set (ents ?d)"
    then obtain e0 where e0: "e0 \<in> set (ents d)" "e = ?f e0" unfolding es by auto
    show "redirect_ok ?d e" using red [OF e0(1)] unfolding e0(2) .
    show "en_id e \<noteq> []" using e0 assms(1) by (auto simp: ent_ok_def)
  next
    show "root_of ?d tenant ty i" if "owner_of (aliases ?d) (tenant, ty, n) = Some i" for tenant ty n i
      using that root assms(1) by (auto simp: al ent_ok_def)
    show "root_of ?d tenant ty i" if "owner_of (externals ?d) (tenant, ty, s, u) = Some i" for tenant ty s u i
      using that root assms(1) by (auto simp: ex ent_ok_def)
  qed
qed


text \<open>A merge keeps the invariant; the root it returns owns what either root owned.\<close>

lemma merge_ok:
  assumes "at_root tenant ty (a, d)" and "row \<in> set (ents d)" and "en_tenant row = tenant" and "en_type row = ty"
    and "merge_entities (Some a) (Some row) d = Inr (e, d')"
  shows "at_root tenant ty (e, d') \<and> moves (a, d) (e, d') \<and>
    (is_ontology row \<longrightarrow> is_ontology e) \<and>
    (en_redirect row = None \<longrightarrow> (\<forall>k. owner_of (aliases d) k = Some (en_id row) \<longrightarrow> owner_of (aliases d') k = Some (en_id e)) \<and>
      (\<forall>k. owner_of (externals d) k = Some (en_id row) \<longrightarrow> owner_of (externals d') k = Some (en_id e)))"
proof -
  have a: "ent_ok d" "a \<in> set (ents d)" "en_redirect a = None" "en_tenant a = tenant" "en_type a = ty" using assms(1) by (simp_all add: at_root_def)
  obtain b where b: "follow d [] (Some row) = Inr (Some b)"
    using assms(5) a(3) by (auto simp: merge_entities_def follow_self bindE_Inr_iff split: option.splits)
  note b' = follow_root [OF a(1) b assms(2)]
  have sel: "(if en_id a = en_id b then Inr (a, d) else
      let (w, l) = (if rank b < rank a then (b, a) else (a, b)) in
      if en_tenant w \<noteq> en_tenant l \<or> en_type w \<noteq> en_type l then Inl Entity_Value_Error
      else Inr (w, redirect_to (en_id l) (en_id w) d)) = Inr (e, d')"
    using assms(5) a(3) b by (simp add: merge_entities_def follow_self)
  have onto: "is_ontology row \<longrightarrow> is_ontology b" using b' by (auto simp: rank_def split: if_splits)
  have self: "row = b" if "en_redirect row = None" using b that by (simp add: follow_self)
  show ?thesis
  proof (cases "en_id a = en_id b")
    case True
    then have "a = b" using a(1,2) b' ent_of_root by (metis option.inject)
    then show ?thesis using sel True assms(1) onto self moves_refl by auto
  next
    case False
    define w where "w = (if rank b < rank a then b else a)"
    define l where "l = (if rank b < rank a then a else b)"
    have "rank a \<noteq> rank b" using False by (simp add: rank_def)
    then have wl: "w \<in> set (ents d)" "l \<in> set (ents d)" "en_redirect w = None" "en_id w \<noteq> en_id l" "en_tenant w = en_tenant l" "en_type w = en_type l" "rank w < rank l"
      using a b' assms(3,4) False by (auto simp: w_def l_def)
    note r = redirect_ok_step [OF a(1) wl]
    have e: "e = w" "d' = redirect_to (en_id l) (en_id w) d"
      using sel False wl(5,6) by (auto simp: w_def l_def Let_def split: if_splits)
    have sub: "subst (en_id l) (en_id w) (en_id a) = en_id w" "subst (en_id l) (en_id w) (en_id b) = en_id w"
      by (auto simp: subst_def w_def l_def)
    have "is_ontology w" if "is_ontology a \<or> is_ontology b" using that by (auto simp: w_def rank_def split: if_splits)
    then show ?thesis unfolding e
      using r wl(3) a b' assms(3,4) onto self sub unfolding at_root_def moves_def renames_def
      by (intro conjI exI [of _ "subst (en_id l) (en_id w)"]) (auto simp: w_def split: if_splits)
  qed
qed


lemma claimed_alias_ok:
  assumes "at_root tenant ty (e, d)"
  shows "at_root tenant ty (e, d\<lparr>aliases := claim_key (tenant, ty, n) (en_id e) p (aliases d)\<rparr>) \<and>
    moves (e, d) (e, d\<lparr>aliases := claim_key (tenant, ty, n) (en_id e) p (aliases d)\<rparr>)"
proof -
  have "root_of d tenant ty (en_id e)" using assms by (auto simp: at_root_def root_of_def)
  then show ?thesis using assms unfolding at_root_def ent_ok_def moves_def renames_def root_of_def redirect_ok_def
    by (intro conjI exI [of _ id]) (auto simp: owner_claim split: if_splits)
qed

lemma claimed_external_ok:
  assumes "at_root tenant ty (e, d)"
  shows "at_root tenant ty (e, d\<lparr>externals := claim_key (tenant, ty, sch, u) (en_id e) p (externals d)\<rparr>) \<and>
    moves (e, d) (e, d\<lparr>externals := claim_key (tenant, ty, sch, u) (en_id e) p (externals d)\<rparr>)"
proof -
  have "root_of d tenant ty (en_id e)" using assms by (auto simp: at_root_def root_of_def)
  then show ?thesis using assms unfolding at_root_def ent_ok_def moves_def renames_def root_of_def redirect_ok_def
    by (intro conjI exI [of _ id]) (auto simp: owner_claim split: if_splits)
qed

lemma owner_row:
  assumes "ent_ok d"
  shows "owner_of (aliases d) (tenant, ty, n) = Some i \<Longrightarrow> \<exists>e. by_alias tenant ty n d = Some e \<and> en_id e = i \<and> at_root tenant ty (e, d)"
    and "owner_of (externals d) (tenant, ty, ''ontology'', n) = Some i \<Longrightarrow> \<exists>e. by_external tenant ty n d = Some e \<and> en_id e = i \<and> at_root tenant ty (e, d)"
proof -
  have "\<exists>e. ent_of d i = Some e \<and> en_id e = i \<and> at_root tenant ty (e, d)" if "root_of d tenant ty i"
    using that assms ent_of_root [OF assms] by (auto simp: root_of_def at_root_def)
  then show "owner_of (aliases d) (tenant, ty, n) = Some i \<Longrightarrow> \<exists>e. by_alias tenant ty n d = Some e \<and> en_id e = i \<and> at_root tenant ty (e, d)"
    and "owner_of (externals d) (tenant, ty, ''ontology'', n) = Some i \<Longrightarrow> \<exists>e. by_external tenant ty n d = Some e \<and> en_id e = i \<and> at_root tenant ty (e, d)"
    using assms by (auto simp: by_alias_def by_external_def ent_ok_def)
qed

lemma no_owner_row: "owner_of (aliases d) (tenant, ty, n) = None \<Longrightarrow> by_alias tenant ty n d = None"
  "owner_of (externals d) (tenant, ty, ''ontology'', n) = None \<Longrightarrow> by_external tenant ty n d = None"
  by (simp_all add: by_alias_def by_external_def)

lemma add_name_ok:
  assumes "at_root tenant ty s" and "add_name tx tenant ty a s = Inr s'"
  shows "at_root tenant ty s' \<and> moves s s' \<and> (tx_strip tx a \<noteq> [] \<longrightarrow> owner_of (aliases (snd s')) (tenant, ty, tx_norm tx a) = Some (en_id (fst s')))"
proof (cases "tx_strip tx a = []")
  case True
  then show ?thesis using assms by (simp add: add_name_def moves_refl)
next
  case False
  obtain r d where s: "s = (r, d)" by (cases s)
  let ?n = "tx_norm tx a"
  have ok: "ent_ok d" using assms(1) s by (simp add: at_root_def)
  show ?thesis
  proof (cases "owner_of (aliases d) (tenant, ty, ?n) = None \<or> owner_of (aliases d) (tenant, ty, ?n) = Some (en_id r)")
    case True
    then have "s' = (r, d\<lparr>aliases := claim_key (tenant, ty, ?n) (en_id r) (tx_strip tx a) (aliases d)\<rparr>)"
      using assms(2) False s no_owner_row(1) [of d tenant ty ?n] owner_row(1) [OF ok, of tenant ty ?n]
      by (auto simp: add_name_def Let_def)
    then show ?thesis using claimed_alias_ok [of tenant ty r d] assms(1) s True by (auto simp: owner_claim(2))
  next
    case other: False
    then obtain e where e: "by_alias tenant ty ?n d = Some e" "at_root tenant ty (e, d)" "owner_of (aliases d) (tenant, ty, ?n) = Some (en_id e)" "en_id e \<noteq> en_id r"
      using owner_row(1) [OF ok, of tenant ty ?n] by auto
    then obtain w d1 where m: "merge_entities (Some r) (Some e) d = Inr (w, d1)"
      and s': "s' = (w, d1\<lparr>aliases := claim_key (tenant, ty, ?n) (en_id w) (tx_strip tx a) (aliases d1)\<rparr>)"
      using assms(2) False s by (auto simp: add_name_def Let_def bindE_Inr_iff)
    have mo: "at_root tenant ty (w, d1)" "moves (r, d) (w, d1)" "owner_of (aliases d1) (tenant, ty, ?n) = Some (en_id w)"
      using merge_ok [OF _ _ _ _ m] assms(1) s e(2,3) by (auto simp: at_root_def)
    note c = claimed_alias_ok [OF mo(1), of ?n "tx_strip tx a"]
    show ?thesis unfolding s' s using c mo(2,3) moves_trans [OF mo(2)] by (auto simp: owner_claim(2))
  qed
qed

lemma add_uri_ok:
  assumes "at_root tenant ty s" and "add_uri tenant ty raw uri s = Inr s'"
  shows "at_root tenant ty s' \<and> moves s s' \<and> (truthy uri \<longrightarrow> owner_of (externals (snd s')) (tenant, ty, ''ontology'', the uri) = Some (en_id (fst s')))"
proof (cases "truthy uri")
  case False
  then show ?thesis using assms by (simp add: add_uri_def moves_refl)
next
  case True
  obtain r d where s: "s = (r, d)" by (cases s)
  let ?u = "the uri"
  have ok: "ent_ok d" using assms(1) s by (simp add: at_root_def)
  show ?thesis
  proof (cases "owner_of (externals d) (tenant, ty, ''ontology'', ?u) = None \<or> owner_of (externals d) (tenant, ty, ''ontology'', ?u) = Some (en_id r)")
    case same: True
    then have "s' = (r, d\<lparr>externals := claim_key (tenant, ty, ''ontology'', ?u) (en_id r) (the raw, True) (externals d)\<rparr>)"
      using assms(2) True s no_owner_row(2) [of d tenant ty ?u] owner_row(2) [OF ok, of tenant ty ?u]
      by (auto simp: add_uri_def Let_def)
    then show ?thesis using claimed_external_ok [of tenant ty r d] assms(1) s same by (auto simp: owner_claim(2))
  next
    case False
    then obtain e where e: "by_external tenant ty ?u d = Some e" "at_root tenant ty (e, d)" "owner_of (externals d) (tenant, ty, ''ontology'', ?u) = Some (en_id e)" "en_id e \<noteq> en_id r"
      using owner_row(2) [OF ok, of tenant ty ?u] by auto
    then obtain w d1 where m: "merge_entities (Some r) (Some e) d = Inr (w, d1)"
      and s': "s' = (w, d1\<lparr>externals := claim_key (tenant, ty, ''ontology'', ?u) (en_id w) (the raw, True) (externals d1)\<rparr>)"
      using assms(2) True s by (auto simp: add_uri_def Let_def bindE_Inr_iff)
    have mo: "at_root tenant ty (w, d1)" "moves (r, d) (w, d1)" "owner_of (externals d1) (tenant, ty, ''ontology'', ?u) = Some (en_id w)"
      using merge_ok [OF _ _ _ _ m] assms(1) s e(2,3) by (auto simp: at_root_def)
    note c = claimed_external_ok [OF mo(1), of "''ontology''" ?u "(the raw, True)"]
    show ?thesis unfolding s' s using c mo(2,3) moves_trans [OF mo(2)] by (auto simp: owner_claim(2))
  qed
qed


lemma add_names_ok:
  assumes "at_root tenant ty s" and "foldE (add_name tx tenant ty) order s = Inr s'"
  shows "at_root tenant ty s' \<and> moves s s' \<and>
    (\<forall>a \<in> set order. tx_strip tx a \<noteq> [] \<longrightarrow> owner_of (aliases (snd s')) (tenant, ty, tx_norm tx a) = Some (en_id (fst s')))"
  using assms
proof (induction order arbitrary: s)
  case (Cons a order)
  obtain s1 where s1: "add_name tx tenant ty a s = Inr s1" "foldE (add_name tx tenant ty) order s1 = Inr s'"
    using Cons.prems(2) by (auto simp: bindE_Inr_iff)
  note n = add_name_ok [OF Cons.prems(1) s1(1)]
  have "at_root tenant ty s' \<and> moves s1 s' \<and>
    (\<forall>a \<in> set order. tx_strip tx a \<noteq> [] \<longrightarrow> owner_of (aliases (snd s')) (tenant, ty, tx_norm tx a) = Some (en_id (fst s')))"
    using n s1(2) by (intro Cons.IH) simp_all
  moreover from this have "moves s s'" using n moves_trans [of s s1 s'] by simp
  moreover have "tx_strip tx a \<noteq> [] \<Longrightarrow> owner_of (aliases (snd s')) (tenant, ty, tx_norm tx a) = Some (en_id (fst s'))"
    using calculation n moves_alias [of s1 s'] by simp
  ultimately show ?case by simp
qed (simp add: moves_refl)

lemma find_or_create_ok:
  assumes "ent_ok d" and "\<And>s. tx_uuid tx s \<noteq> []" and "find_or_create tx tenant name ty uri d = Inr s"
  shows "at_root tenant ty s \<and> renames id d (snd s)"
proof -
  let ?found = "or_row (if truthy uri then by_external tenant ty (the uri) d else None)
    (or_row (by_alias tenant ty (tx_norm tx name) d) (by_name tenant ty (tx_norm tx name) d))"
  obtain e d' where row: "(case ?found of Some e \<Rightarrow> Inr (Some e, d) | None \<Rightarrow> create_entity tx tenant name ty uri d) = Inr (Some e, d')"
    and s: "follow d' [] (Some e) = Inr (Some (fst s))" "snd s = d'"
    using assms(3) by (cases s) (auto simp: find_or_create_def bindE_Inr_iff split: option.splits)
  have "ent_ok d' \<and> renames id d d' \<and> e \<in> set (ents d') \<and> en_tenant e = tenant \<and> en_type e = ty"
  proof (cases ?found)
    case None
    then have "create_entity tx tenant name ty uri d = Inr (Some e, d')" using row by simp
    from create_entity_ok [OF assms(1,2) this] show ?thesis by simp
  next
    case (Some x)
    have "x \<in> set (ents d) \<and> en_tenant x = tenant \<and> en_type x = ty"
      if "by_external tenant ty u d = Some x \<or> by_alias tenant ty n d = Some x" for u n
      using that owner_row(1) [OF assms(1), of tenant ty n] owner_row(2) [OF assms(1), of tenant ty u] no_owner_row
      by (cases "owner_of (aliases d) (tenant, ty, n)"; cases "owner_of (externals d) (tenant, ty, ''ontology'', u)") (auto simp: at_root_def)
    moreover have "x \<in> set (ents d) \<and> en_tenant x = tenant \<and> en_type x = ty" if named: "by_name tenant ty n d = Some x" for n
    proof -
      let ?c = "filter (\<lambda>e. en_tenant e = tenant \<and> en_type e = ty \<and> en_norm e = n \<and> en_status e = E_ACTIVE) (ents d)"
      obtain xs where "sort_key en_id ?c = x # xs" using named by (auto simp: by_name_def split: list.splits)
      then have "x \<in> set (sort_key en_id ?c)" by (simp del: set_sort)
      then show ?thesis by simp
    qed
    ultimately have "x \<in> set (ents d) \<and> en_tenant x = tenant \<and> en_type x = ty"
      using Some by (auto simp: or_row_def split: option.splits if_splits)
    then show ?thesis using row Some assms(1) by (simp add: renames_id)
  qed
  then show ?thesis using follow_root [of d' "[]" e "fst s"] s by (auto simp: at_root_def)
qed

lemma promote_ok:
  assumes "at_root tenant ty s" and "\<And>s. tx_uuid tx s \<noteq> []" and "promote tx tenant name ty uri s = Inr s'"
  shows "at_root tenant ty s' \<and> moves s s' \<and> (truthy uri \<longrightarrow> is_ontology (fst s'))"
proof (cases "truthy uri \<and> \<not> is_ontology (fst s)")
  case False
  then show ?thesis using assms by (auto simp: promote_def moves_refl)
next
  case True
  obtain r d where s: "s = (r, d)" by (cases s)
  obtain row d1 where c: "create_entity tx tenant name ty uri d = Inr (row, d1)" and m: "merge_entities (Some r) row d1 = Inr s'"
    using assms(3) True s by (auto simp: promote_def bindE_Inr_iff)
  have "ent_ok d" using assms(1) s by (simp add: at_root_def)
  note c' = create_entity_ok [OF this assms(2) c]
  obtain e where e: "row = Some e"
    using m by (cases row) (auto simp: merge_entities_def bindE_Inr_iff follow.simps [of d1 "[]" None] split: option.splits)
  have root: "at_root tenant ty (r, d1)" using assms(1) s c' by (auto simp: at_root_def)
  have "is_ontology e" using c' e True by (simp add: is_ontology_def identity_key_def)
  moreover have "at_root tenant ty (fst s', snd s') \<and> moves (r, d1) (fst s', snd s') \<and> (is_ontology e \<longrightarrow> is_ontology (fst s'))"
    using merge_ok [OF root, of e "fst s'" "snd s'"] c' m e by auto
  moreover have "moves s (r, d1)" using c' s unfolding moves_def by (intro conjI exI [of _ id]) auto
  ultimately show ?thesis using moves_trans by auto
qed

text \<open>What a successful resolution has done.\<close>

lemma resolve_ok:
  assumes "ent_ok d" and "\<And>s. tx_uuid tx s \<noteq> []" and "resolve_entity tx tenant name ty uri order d = Inr (e, d')"
  shows "at_root tenant (tx_type tx ty) (e, d') \<and> (\<exists>f. renames f d d') \<and>
    (\<forall>a \<in> set order. tx_strip tx a \<noteq> [] \<longrightarrow> owner_of (aliases d') (tenant, tx_type tx ty, tx_norm tx a) = Some (en_id e)) \<and>
    (truthy uri \<longrightarrow> (\<exists>u. tx_uri tx (the uri) = Some u \<and> (u \<noteq> [] \<longrightarrow> is_ontology e \<and> owner_of (externals d') (tenant, tx_type tx ty, ''ontology'', u) = Some (en_id e))))"
proof -
  let ?ty = "tx_type tx ty"
  obtain u where u: "(if truthy uri then (case tx_uri tx (the uri) of None \<Rightarrow> Inl Entity_Value_Error | Some u \<Rightarrow> Inr (Some u)) else Inr None) = Inr u"
    and rest: "bindE (find_or_create tx tenant name ?ty u d) (\<lambda>s. bindE (promote tx tenant name ?ty u s) (\<lambda>s.
      bindE (foldE (add_name tx tenant ?ty) order s) (add_uri tenant ?ty uri u))) = Inr (e, d')"
    using assms(3) by (auto simp: resolve_entity_def Let_def bindE_Inr_iff)
  then obtain s1 s2 s3 where s: "find_or_create tx tenant name ?ty u d = Inr s1" "promote tx tenant name ?ty u s1 = Inr s2"
      "foldE (add_name tx tenant ?ty) order s2 = Inr s3" "add_uri tenant ?ty uri u s3 = Inr (e, d')"
    by (auto simp: bindE_Inr_iff)
  note p1 = find_or_create_ok [OF assms(1,2) s(1)]
  note p2 = promote_ok [OF conjunct1 [OF p1] assms(2) s(2)]
  note p3 = add_names_ok [OF conjunct1 [OF p2] s(3)]
  note p4 = add_uri_ok [OF conjunct1 [OF p3] s(4)]
  have mv: "moves s1 (e, d')" "moves s2 (e, d')" "moves s3 (e, d')" using p2 p3 p4 moves_trans by blast+
  have "\<exists>f. renames f d d'" using p1 mv(1) renames_comp unfolding moves_def by fastforce
  moreover have "owner_of (aliases d') (tenant, ?ty, tx_norm tx a) = Some (en_id e)" if "a \<in> set order" "tx_strip tx a \<noteq> []" for a
    using p3 that moves_alias [OF mv(3)] by auto
  moreover have "\<exists>v. tx_uri tx (the uri) = Some v \<and> (v \<noteq> [] \<longrightarrow> is_ontology e \<and> owner_of (externals d') (tenant, ?ty, ''ontology'', v) = Some (en_id e))" if has: "truthy uri"
  proof -
    obtain v where v: "tx_uri tx (the uri) = Some v" "u = Some v" using u has by (auto split: option.splits)
    have "is_ontology e" if "v \<noteq> []" using p2 v(2) that mv(2) by (simp add: moves_def)
    then show ?thesis using p4 v by auto
  qed
  ultimately show ?thesis using p4 by auto
qed


subsection \<open>Histories\<close>

definition keeps_rows :: "entity_call \<Rightarrow> bool" where
  "keeps_rows x \<longleftrightarrow> (case x of Cleanup _ _ \<Rightarrow> False | _ \<Rightarrow> True)"

lemma retract_ok: "ent_ok d \<Longrightarrow> ent_ok (retract_entity i d) \<and> renames id d (retract_entity i d)"
proof -
  assume ok: "ent_ok d"
  let ?f = "\<lambda>e. if en_id e = i then e\<lparr>en_status := E_RETRACTED\<rparr> else e"
  have es: "retract_entity i d = d\<lparr>ents := map ?f (ents d)\<rparr>" by (simp add: retract_entity_def upd_def)
  have same: "en_id (?f e) = en_id e" "en_tenant (?f e) = en_tenant e" "en_type (?f e) = en_type e" "en_redirect (?f e) = en_redirect e" "rank (?f e) = rank e" for e
    by (simp_all add: rank_def is_ontology_def)
  have member: "?f e \<in> set (ents (retract_entity i d))" if "e \<in> set (ents d)" for e using that unfolding es by simp
  have red: "redirect_ok (retract_entity i d) (?f e)" if e: "e \<in> set (ents d)" for e
    unfolding redirect_ok_def same
  proof (intro allI impI)
    fix j
    assume "en_redirect e = Some j"
    then obtain e' where e': "e' \<in> set (ents d)" "en_id e' = j" "en_tenant e' = en_tenant e" "en_type e' = en_type e" "rank e' < rank e"
      using ok e unfolding ent_ok_def redirect_ok_def by blast
    then show "\<exists>x \<in> set (ents (retract_entity i d)). en_id x = j \<and> en_tenant x = en_tenant e \<and> en_type x = en_type e \<and> rank x < rank e"
      using member [OF e'(1)] same [of e'] by (intro bexI [of _ "?f e'"]) simp_all
  qed
  have root: "root_of (retract_entity i d) tenant ty j" if r: "root_of d tenant ty j" for tenant ty j
  proof -
    obtain e where e: "e \<in> set (ents d)" "en_id e = j" "en_redirect e = None" "en_tenant e = tenant" "en_type e = ty" using r by (auto simp: root_of_def)
    then show ?thesis using member [OF e(1)] same [of e] unfolding root_of_def by (intro bexI [of _ "?f e"]) simp_all
  qed
  have ids: "map en_id (map ?f (ents d)) = map en_id (ents d)" by (simp add: same)
  have "ent_ok (d\<lparr>ents := map ?f (ents d)\<rparr>)"
  proof (rule ent_ok_cong [OF ok])
    show "distinct (map en_id (map ?f (ents d)))" unfolding ids using ok by (simp add: ent_ok_def)
    show "en_id e \<noteq> [] \<and> redirect_ok (d\<lparr>ents := map ?f (ents d)\<rparr>) e" if m: "e \<in> set (map ?f (ents d))" for e
    proof -
      obtain e0 where e0: "e0 \<in> set (ents d)" "e = ?f e0" using m unfolding set_map by (rule imageE)
      then show ?thesis using red [OF e0(1)] ok same(1) [of e0] unfolding es e0(2) by (simp add: ent_ok_def)
    qed
  qed (use root in \<open>simp add: es\<close>)
  then show ?thesis unfolding es by (simp add: renames_def)
qed

lemma entity_call_ok:
  assumes "ent_ok d" and "\<And>s. tx_uuid tx s \<noteq> []" and "keeps_rows x"
  shows "ent_ok (after_entity_call tx d x) \<and> (\<exists>f. renames f d (after_entity_call tx d x))"
proof (cases x)
  case (Resolve tenant name ty uri order)
  show ?thesis
  proof (cases "resolve_entity tx tenant name ty uri order d")
    case (Inl e)
    then show ?thesis using assms(1) Resolve renames_id by auto
  next
    case (Inr s)
    obtain e d' where "s = (e, d')" by (cases s)
    with Inr resolve_ok [OF assms(1,2), of tenant name ty uri order e d'] Resolve show ?thesis by (auto simp: at_root_def)
  qed
next
  case (Retract i)
  then show ?thesis using retract_ok [OF assms(1)] by auto
next
  case (Cleanup r i)
  then show ?thesis using assms(3) by (simp add: keeps_rows_def)
qed

lemma entity_calls_ok:
  assumes "ent_ok d" and "\<And>s. tx_uuid tx s \<noteq> []" and "list_all keeps_rows xs"
  shows "ent_ok (foldl (after_entity_call tx) d xs) \<and> (\<exists>f. renames f d (foldl (after_entity_call tx) d xs))"
  using assms(1,3)
proof (induction xs arbitrary: d)
  case Nil
  then show ?case using renames_id by auto
next
  case (Cons x xs)
  have x: "ent_ok (after_entity_call tx d x)" "\<exists>f. renames f d (after_entity_call tx d x)"
    using entity_call_ok [OF Cons.prems(1) assms(2)] Cons.prems(2) by auto
  then show ?case using Cons.IH [OF x(1)] Cons.prems(2) renames_comp by fastforce
qed

lemma no_entities_ok: "ent_ok no_entities"
  by (simp add: ent_ok_def no_entities_def owner_of_def)

text \<open>Two people known by one name each, for the witnesses.\<close>

definition plain_text :: text_rules where
  "plain_text = \<lparr>tx_norm = id, tx_type = id, tx_uri = (\<lambda>s. if s = [] then None else Some s), tx_strip = id, tx_uuid = (\<lambda>s. CHR ''e'' # s)\<rparr>"

definition two_people :: "entity_call list" where
  "two_people = [Resolve ''t'' ''Ann'' ''P'' None [''Ann''], Resolve ''t'' ''Bo'' ''P'' None [''Bo'']]"

lemma plain_text_uuid: "tx_uuid plain_text s \<noteq> []"
  by (simp add: plain_text_def)

text \<open>
  A physical cleanup deletes the names and URIs of a row and, unless an assertion refers to it, the row itself. It is
  \<open>unlinked\<close> when the row stays or no other row redirects to it.
\<close>

fun unlinked :: "entity_db \<Rightarrow> entity_call \<Rightarrow> bool" where
  "unlinked d (Cleanup r i) \<longleftrightarrow> r \<or> list_all (\<lambda>e. en_redirect e \<noteq> Some i) (ents d)"
| "unlinked d _ \<longleftrightarrow> True"

fun tidy_history :: "text_rules \<Rightarrow> entity_db \<Rightarrow> entity_call list \<Rightarrow> bool" where
  "tidy_history tx d [] \<longleftrightarrow> True"
| "tidy_history tx d (x # xs) \<longleftrightarrow> unlinked d x \<and> tidy_history tx (after_entity_call tx d x) xs"

lemma owner_drop:
  assumes "owner_of (drop_rows a t) k = Some i" and "distinct (map fst t)"
  shows "owner_of t k = Some i \<and> i \<noteq> a"
proof -
  obtain p where "map_of (drop_rows a t) k = Some (i, p)" using assms(1) by (auto simp: owner_of_def)
  then have "(k, i, p) \<in> set t \<and> i \<noteq> a" by (auto simp: drop_rows_def dest!: map_of_SomeD)
  then have "map_of t k = Some (i, p)" "i \<noteq> a" using assms(2) by simp_all
  then show ?thesis by (simp add: owner_of_def)
qed

lemma cleanup_ok:
  assumes ok: "ent_ok d" and unlinked: "unlinked d (Cleanup r i)"
  shows "ent_ok (cleanup_entity r i d)"
proof -
  let ?d = "cleanup_entity r i d"
  have es: "set (ents ?d) \<subseteq> set (ents d)" by (auto simp: cleanup_entity_def)
  have d: "distinct (map en_id (ents d))" "distinct (map fst (aliases d))" "distinct (map fst (externals d))"
    using ok by (simp_all add: ent_ok_def)
  have kept: "e \<in> set (ents ?d)" if "e \<in> set (ents d)" "en_id e \<noteq> i \<or> r" for e using that by (auto simp: cleanup_entity_def)
  have root: "root_of ?d tenant ty j" if "root_of d tenant ty j" "j \<noteq> i" for tenant ty j
    using that kept unfolding root_of_def by blast
  have red: "redirect_ok ?d e" if e: "e \<in> set (ents ?d)" for e unfolding redirect_ok_def
  proof (intro allI impI)
    fix j
    assume j: "en_redirect e = Some j"
    have "e \<in> set (ents d)" using e es by blast
    moreover from this obtain e' where "e' \<in> set (ents d)" "en_id e' = j" "en_tenant e' = en_tenant e" "en_type e' = en_type e" "rank e' < rank e"
      using ok j by (auto simp: ent_ok_def redirect_ok_def)
    moreover have "r \<or> j \<noteq> i" using unlinked j \<open>e \<in> set (ents d)\<close> by (auto simp: list_all_iff)
    ultimately show "\<exists>e' \<in> set (ents ?d). en_id e' = j \<and> en_tenant e' = en_tenant e \<and> en_type e' = en_type e \<and> rank e' < rank e"
      using kept by blast
  qed
  have dist: "distinct (map en_id (ents ?d))" "distinct (map fst (aliases ?d))" "distinct (map fst (externals ?d))"
    using d by (simp_all add: cleanup_entity_def drop_rows_def distinct_map_filter)
  have al: "root_of ?d tenant ty j" if "owner_of (aliases ?d) (tenant, ty, n) = Some j" for tenant ty n j
  proof -
    from that have "owner_of (aliases d) (tenant, ty, n) = Some j \<and> j \<noteq> i"
      using owner_drop [OF _ d(2)] by (simp add: cleanup_entity_def)
    then show ?thesis using ok root by (auto simp: ent_ok_def)
  qed
  have ex: "root_of ?d tenant ty j" if "owner_of (externals ?d) (tenant, ty, sch, u) = Some j" for tenant ty sch u j
  proof -
    from that have "owner_of (externals d) (tenant, ty, sch, u) = Some j \<and> j \<noteq> i"
      using owner_drop [OF _ d(3)] by (simp add: cleanup_entity_def)
    then show ?thesis using ok root by (auto simp: ent_ok_def)
  qed
  have "en_id e \<noteq> []" if "e \<in> set (ents ?d)" for e using ok es that unfolding ent_ok_def by blast
  then show ?thesis unfolding ent_ok_def using red dist al ex by simp
qed

lemma tidy_call_ok:
  assumes "ent_ok d" and "\<And>s. tx_uuid tx s \<noteq> []" and "unlinked d x"
  shows "ent_ok (after_entity_call tx d x)"
proof (cases x)
  case (Cleanup r i)
  then show ?thesis using cleanup_ok [OF assms(1), of r i] assms(3) by simp
qed (use entity_call_ok [OF assms(1,2), of x] in \<open>simp_all add: keeps_rows_def\<close>)

lemma tidy_history_ok:
  assumes "ent_ok d" and "\<And>s. tx_uuid tx s \<noteq> []" and "tidy_history tx d xs"
  shows "ent_ok (foldl (after_entity_call tx) d xs)"
  using assms(1,3) by (induction xs arbitrary: d) (simp_all add: tidy_call_ok [OF _ assms(2)])

text \<open>
  C28. After any resolutions, retractions and cleanups of rows nothing redirects to, a resolution that succeeds returns a row that is not
  redirected, and it owns every name and alias of the call and the URI; a row with a URI is ontology-backed.
\<close>

theorem resolution_unites_names:
  assumes "\<And>s. tx_uuid tx s \<noteq> []" and "tidy_history tx no_entities xs"
    and "resolve_entity tx tenant name ty uri order (foldl (after_entity_call tx) no_entities xs) = Inr (e, d)"
  shows "ent_of d (en_id e) = Some e \<and> en_redirect e = None \<and> en_tenant e = tenant \<and> en_type e = tx_type tx ty \<and>
    list_all (\<lambda>a. owner_of (aliases d) (tenant, tx_type tx ty, tx_norm tx a) = Some (en_id e)) (filter (\<lambda>a. tx_strip tx a \<noteq> []) order) \<and>
    (case if truthy uri then tx_uri tx (the uri) else None of
       None \<Rightarrow> True
     | Some u \<Rightarrow> u = [] \<or> is_ontology e \<and> owner_of (externals d) (tenant, tx_type tx ty, ''ontology'', u) = Some (en_id e))"
proof -
  have "ent_ok (foldl (after_entity_call tx) no_entities xs)" by (rule tidy_history_ok [OF no_entities_ok assms(1,2)])
  note r = resolve_ok [OF this assms(1,3)]
  then show ?thesis using ent_of_root [of d e] by (auto simp: at_root_def list_all_iff split: option.splits)
qed

text \<open>Two people, of whom the first is cleaned away again, then one who has both names and a URI.\<close>

lemma resolution_unites_names_witness:
  "\<exists>e d. resolve_entity plain_text ''t'' ''Ann'' ''P'' (Some ''u'') [''Ann'', ''Bo'']
      (foldl (after_entity_call plain_text) no_entities (two_people @ [Cleanup False (''et'' @ [CHR 31] @ ''P'' @ [CHR 31] @ ''name:Ann'')])) = Inr (e, d) \<and>
    is_ontology e \<and> ent_of d (en_id e) = Some e \<and> owner_of (aliases d) (''t'', ''P'', ''Bo'') = Some (en_id e)"
proof -
  let ?xs = "two_people @ [Cleanup False (''et'' @ [CHR 31] @ ''P'' @ [CHR 31] @ ''name:Ann'')]"
  let ?d = "foldl (after_entity_call plain_text) no_entities ?xs"
  have "\<not> isl (resolve_entity plain_text ''t'' ''Ann'' ''P'' (Some ''u'') [''Ann'', ''Bo''] ?d)" by code_simp
  then obtain e d where r: "resolve_entity plain_text ''t'' ''Ann'' ''P'' (Some ''u'') [''Ann'', ''Bo''] ?d = Inr (e, d)"
    by (metis isl_def obj_sumE surj_pair)
  have "tidy_history plain_text no_entities ?xs" by code_simp
  from resolution_unites_names [OF plain_text_uuid this r] r show ?thesis by (auto simp: plain_text_def)
qed

text \<open>
  An untidy cleanup: the name of a row that redirects to a deleted one is never resolved again, because the insert
  finds the redirected row and the redirect leads nowhere.
\<close>

lemma dangling_redirect_refuses:
  "resolve_entity plain_text ''t'' ''Ann'' ''P'' None [''Ann'']
    (foldl (after_entity_call plain_text) no_entities
      [Resolve ''t'' ''Ann'' ''P'' None [''Ann''], Resolve ''t'' ''Ann'' ''P'' (Some ''u'') [''Ann''],
       Retract (''et'' @ [CHR 31] @ ''P'' @ [CHR 31] @ ''ontology:u''), Cleanup False (''et'' @ [CHR 31] @ ''P'' @ [CHR 31] @ ''ontology:u'')]) =
   Inl Entity_Runtime_Error"
  by code_simp

text \<open>
  C29. Names that once belong to one entity always do: no later resolution or retraction separates two aliases or
  forgets one.
\<close>

theorem united_names_stay_united:
  assumes "\<And>s. tx_uuid tx s \<noteq> []" and "list_all keeps_rows xs" and "foldl (after_entity_call tx) no_entities xs = d"
    and "owner_of (aliases d) k = Some i" and "owner_of (aliases d) k' = Some i" and "list_all keeps_rows ys"
  shows "owner_of (aliases (foldl (after_entity_call tx) d ys)) k = owner_of (aliases (foldl (after_entity_call tx) d ys)) k' \<and>
    owner_of (aliases (foldl (after_entity_call tx) d ys)) k \<noteq> None"
proof -
  have "ent_ok d" using entity_calls_ok [OF no_entities_ok assms(1,2)] assms(3) by simp
  then obtain f where "renames f d (foldl (after_entity_call tx) d ys)" using entity_calls_ok [OF _ assms(1,6)] by blast
  then have "owner_of (aliases (foldl (after_entity_call tx) d ys)) k = Some (f i)" "owner_of (aliases (foldl (after_entity_call tx) d ys)) k' = Some (f i)"
    using assms(4,5) unfolding renames_def by metis+
  then show ?thesis by simp
qed


lemma united_names_stay_united_witness:
  "owner_of (aliases (foldl (after_entity_call plain_text) (foldl (after_entity_call plain_text) no_entities
      (two_people @ [Resolve ''t'' ''Ann'' ''P'' None [''Ann'', ''Bo'']])) [Retract ''x'', Resolve ''t'' ''Cy'' ''P'' (Some ''u'') [''Ann'']])) (''t'', ''P'', ''Ann'') =
   owner_of (aliases (foldl (after_entity_call plain_text) (foldl (after_entity_call plain_text) no_entities
      (two_people @ [Resolve ''t'' ''Ann'' ''P'' None [''Ann'', ''Bo'']])) [Retract ''x'', Resolve ''t'' ''Cy'' ''P'' (Some ''u'') [''Ann'']])) (''t'', ''P'', ''Bo'')"
proof -
  let ?xs = "two_people @ [Resolve ''t'' ''Ann'' ''P'' None [''Ann'', ''Bo'']]"
  have "owner_of (aliases (foldl (after_entity_call plain_text) no_entities ?xs)) (''t'', ''P'', ''Ann'') = Some (''et'' @ [CHR 31] @ ''P'' @ [CHR 31] @ ''name:Ann'')"
    and "owner_of (aliases (foldl (after_entity_call plain_text) no_entities ?xs)) (''t'', ''P'', ''Bo'') = Some (''et'' @ [CHR 31] @ ''P'' @ [CHR 31] @ ''name:Ann'')"
    and "list_all keeps_rows ?xs" and "list_all keeps_rows [Retract ''x'', Resolve ''t'' ''Cy'' ''P'' (Some ''u'') [''Ann'']]" by code_simp+
  from united_names_stay_united [OF plain_text_uuid this(3) refl this(1,2,4)] show ?thesis by blast
qed

subsection \<open>Repeated resolutions\<close>

lemma claim_owned: "owner_of t k = Some i \<Longrightarrow> claim_key k j p t = t"
  unfolding claim_key_def owner_of_def by (metis map_of_eq_None_iff map_option_is_None option.distinct(1))

lemma owner_is_row:
  assumes "at_root tenant ty (e, d)"
  shows "owner_of (aliases d) (tenant, ty, n) = Some (en_id e) \<Longrightarrow> by_alias tenant ty n d = Some e"
    and "owner_of (externals d) (tenant, ty, ''ontology'', u) = Some (en_id e) \<Longrightarrow> by_external tenant ty u d = Some e"
  using assms ent_of_root [of d e] by (simp_all add: at_root_def by_alias_def by_external_def)

lemma add_name_again:
  assumes "at_root tenant ty (e, d)" and "tx_strip tx a = [] \<or> owner_of (aliases d) (tenant, ty, tx_norm tx a) = Some (en_id e)"
  shows "add_name tx tenant ty a (e, d) = Inr (e, d)"
  using assms(2) owner_is_row(1) [OF assms(1), of "tx_norm tx a"] by (auto simp: add_name_def Let_def claim_owned)

lemma add_names_again:
  assumes "at_root tenant ty (e, d)"
    and "\<forall>a \<in> set order. tx_strip tx a = [] \<or> owner_of (aliases d) (tenant, ty, tx_norm tx a) = Some (en_id e)"
  shows "foldE (add_name tx tenant ty) order (e, d) = Inr (e, d)"
  using assms(2) by (induction order) (simp_all add: add_name_again [OF assms(1)])

lemma add_uri_again:
  assumes "at_root tenant ty (e, d)" and "truthy uri \<Longrightarrow> owner_of (externals d) (tenant, ty, ''ontology'', the uri) = Some (en_id e)"
  shows "add_uri tenant ty raw uri (e, d) = Inr (e, d)"
  using assms(2) owner_is_row(2) [OF assms(1), of "the uri"] by (auto simp: add_uri_def Let_def claim_owned)

lemma resolved_again:
  assumes "at_root tenant (tx_type tx ty) (e, d)" and "owner_of (aliases d) (tenant, tx_type tx ty, tx_norm tx name) = Some (en_id e)"
    and "\<forall>a \<in> set order. tx_strip tx a = [] \<or> owner_of (aliases d) (tenant, tx_type tx ty, tx_norm tx a) = Some (en_id e)"
    and "truthy uri \<longrightarrow> (\<exists>u. tx_uri tx (the uri) = Some u \<and> (u \<noteq> [] \<longrightarrow> is_ontology e \<and> owner_of (externals d) (tenant, tx_type tx ty, ''ontology'', u) = Some (en_id e)))"
  shows "resolve_entity tx tenant name ty uri order d = Inr (e, d)"
proof -
  let ?ty = "tx_type tx ty"
  obtain u where u: "(if truthy uri then (case tx_uri tx (the uri) of None \<Rightarrow> Inl Entity_Value_Error | Some u \<Rightarrow> Inr (Some u)) else Inr None) = (Inr u :: entity_error + string option)"
    and t: "truthy u \<longrightarrow> is_ontology e \<and> owner_of (externals d) (tenant, ?ty, ''ontology'', the u) = Some (en_id e)"
  proof (cases "truthy uri")
    case True
    then obtain v where "tx_uri tx (the uri) = Some v" "v \<noteq> [] \<longrightarrow> is_ontology e \<and> owner_of (externals d) (tenant, ?ty, ''ontology'', v) = Some (en_id e)"
      using assms(4) by auto
    then show thesis using True by (intro that [of "Some v"]) auto
  qed (use that [of None] in simp)
  have live: "en_redirect e = None" using assms(1) by (simp add: at_root_def)
  have "find_or_create tx tenant name ?ty u d = Inr (e, d)"
    using owner_is_row [OF assms(1)] assms(2) t by (auto simp: find_or_create_def or_row_def follow_self [OF live])
  moreover have "promote tx tenant name ?ty u (e, d) = Inr (e, d)" using t by (auto simp: promote_def)
  moreover have "foldE (add_name tx tenant ?ty) order (e, d) = Inr (e, d)" by (rule add_names_again [OF assms(1,3)])
  moreover have "add_uri tenant ?ty uri u (e, d) = Inr (e, d)" using t by (intro add_uri_again [OF assms(1)]) simp
  ultimately show ?thesis using u by (simp add: resolve_entity_def Let_def)
qed

text \<open>
  A repeated resolution changes nothing and returns the same entity, in whatever order the set of names is visited.
\<close>

lemma resolving_again_changes_nothing:
  assumes "\<And>s. tx_uuid tx s \<noteq> []" and "list_all keeps_rows xs"
    and "resolve_entity tx tenant name ty uri order (foldl (after_entity_call tx) no_entities xs) = Inr (e, d)"
    and "name \<in> set order" and "tx_strip tx name \<noteq> []" and "set order' = set order"
  shows "resolve_entity tx tenant name ty uri order' d = Inr (e, d)"
proof -
  have "ent_ok (foldl (after_entity_call tx) no_entities xs)" using entity_calls_ok [OF no_entities_ok assms(1,2)] by simp
  note r = resolve_ok [OF this assms(1,3)]
  show ?thesis using r assms(4-6) by (intro resolved_again) auto
qed

lemma resolving_again_changes_nothing_witness:
  "\<exists>e d. resolve_entity plain_text ''t'' ''Ann'' ''P'' (Some ''u'') [''Ann'', ''Bo''] (foldl (after_entity_call plain_text) no_entities two_people) = Inr (e, d) \<and>
    resolve_entity plain_text ''t'' ''Ann'' ''P'' (Some ''u'') [''Bo'', ''Ann''] d = Inr (e, d)"
proof -
  have "\<not> isl (resolve_entity plain_text ''t'' ''Ann'' ''P'' (Some ''u'') [''Ann'', ''Bo''] (foldl (after_entity_call plain_text) no_entities two_people))" by code_simp
  then obtain e d where r: "resolve_entity plain_text ''t'' ''Ann'' ''P'' (Some ''u'') [''Ann'', ''Bo''] (foldl (after_entity_call plain_text) no_entities two_people) = Inr (e, d)"
    by (metis isl_def obj_sumE surj_pair)
  have "list_all keeps_rows two_people" by code_simp
  from resolving_again_changes_nothing [OF plain_text_uuid this r, of "[''Bo'', ''Ann'']"] r show ?thesis by (auto simp: plain_text_def)
qed

subsection \<open>Retraction is final\<close>

definition no_cleanup :: "string \<Rightarrow> entity_call \<Rightarrow> bool" where
  "no_cleanup i x \<longleftrightarrow> x \<noteq> Cleanup False i"

definition inactive :: "entity_db \<Rightarrow> string \<Rightarrow> bool" where
  "inactive d i \<longleftrightarrow> (\<exists>e. ent_of d i = Some e \<and> en_status e \<noteq> E_ACTIVE)"

lemma inactive_insert: "inactive d i \<Longrightarrow> inactive (insert_entity e d) i"
  unfolding inactive_def ent_of_def insert_entity_def by (auto simp: find_append)

lemma inactive_upd:
  assumes "inactive d i" and "ents d' = upd P f (ents d)" and "\<And>e. en_id (f e) = en_id e" and "\<And>e. en_status (f e) \<noteq> E_ACTIVE"
  shows "inactive d' i"
proof -
  obtain e where e: "ent_of d i = Some e" "en_status e \<noteq> E_ACTIVE" using assms(1) by (auto simp: inactive_def)
  let ?g = "\<lambda>e. if P e then f e else e"
  have "find (\<lambda>e. en_id e = i) (map ?g es) = map_option ?g (find (\<lambda>e. en_id e = i) es)" for es
    by (induction es) (simp_all add: assms(3))
  then have "ent_of d' i = Some (?g e)" using e(1) assms(2) by (simp add: ent_of_def upd_def)
  then show ?thesis using e(2) assms(4) unfolding inactive_def by simp
qed

lemma merge_cases:
  assumes "merge_entities a b d = Inr (w, d')"
  shows "d' = d \<or> (\<exists>x y. d' = redirect_to x y d)"
proof -
  obtain f s where "follow d [] a = Inr f" "follow d [] b = Inr s" using assms by (auto simp: merge_entities_def bindE_Inr_iff)
  then show ?thesis using assms by (cases f; cases s) (auto simp: merge_entities_def Let_def split: if_splits)
qed

lemma inactive_merge: "inactive d i \<Longrightarrow> merge_entities a b d = Inr (w, d') \<Longrightarrow> inactive d' i"
  by (drule merge_cases) (auto simp: redirect_to_def intro: inactive_upd)

lemma inactive_cong: "inactive d i \<Longrightarrow> ents d' = ents d \<Longrightarrow> inactive d' i"
  by (simp add: inactive_def ent_of_def)

lemma inactive_create: "inactive d i \<Longrightarrow> create_entity tx tenant name ty uri d = Inr (row, d') \<Longrightarrow> inactive d' i"
  by (auto simp: create_entity_def bindE_Inr_iff Let_def intro: inactive_insert)

lemma inactive_name: "inactive (snd s) i \<Longrightarrow> add_name tx tenant ty a s = Inr s' \<Longrightarrow> inactive (snd s') i"
  by (auto simp: add_name_def bindE_Inr_iff Let_def split: if_splits intro: inactive_cong dest: inactive_merge)

lemma inactive_names: "inactive (snd s) i \<Longrightarrow> foldE (add_name tx tenant ty) order s = Inr s' \<Longrightarrow> inactive (snd s') i"
proof (induction order arbitrary: s)
  case (Cons a order)
  then obtain s1 where "add_name tx tenant ty a s = Inr s1" "foldE (add_name tx tenant ty) order s1 = Inr s'" by (auto simp: bindE_Inr_iff)
  then show ?case using inactive_name [OF Cons.prems(1)] Cons.IH by blast
qed simp

lemma inactive_uri: "inactive (snd s) i \<Longrightarrow> add_uri tenant ty raw uri s = Inr s' \<Longrightarrow> inactive (snd s') i"
  by (auto simp: add_uri_def bindE_Inr_iff Let_def split: if_splits intro: inactive_cong dest: inactive_merge)

lemma inactive_find:
  assumes "inactive d i" and "find_or_create tx tenant name ty uri d = Inr s"
  shows "inactive (snd s) i"
proof -
  let ?found = "or_row (if truthy uri then by_external tenant ty (the uri) d else None)
    (or_row (by_alias tenant ty (tx_norm tx name) d) (by_name tenant ty (tx_norm tx name) d))"
  obtain row d' where row: "(case ?found of Some e \<Rightarrow> Inr (Some e, d) | None \<Rightarrow> create_entity tx tenant name ty uri d) = Inr (row, d')"
    and s: "(case row of None \<Rightarrow> Inl Entity_Runtime_Error
      | Some e \<Rightarrow> bindE (follow d' [] (Some e)) (\<lambda>r. case r of None \<Rightarrow> Inl Entity_Runtime_Error | Some e' \<Rightarrow> Inr (e', d'))) = Inr s"
  proof -
    obtain p where p: "(case ?found of Some e \<Rightarrow> Inr (Some e, d) | None \<Rightarrow> create_entity tx tenant name ty uri d) = Inr p"
      and q: "(\<lambda>(row, d'). case row of None \<Rightarrow> Inl Entity_Runtime_Error
        | Some e \<Rightarrow> bindE (follow d' [] (Some e)) (\<lambda>r. case r of None \<Rightarrow> Inl Entity_Runtime_Error | Some e' \<Rightarrow> Inr (e', d'))) p = Inr s"
      using assms(2) unfolding find_or_create_def bindE_Inr_iff by blast
    show thesis by (rule that [of "fst p" "snd p"]) (use p q in \<open>simp_all add: case_prod_unfold\<close>)
  qed
  have "inactive d' i"
    using row assms(1) inactive_create [of d i tx tenant name ty uri row d'] by (cases ?found) auto
  moreover have "snd s = d'" using s by (auto simp: bindE_Inr_iff split: option.splits)
  ultimately show ?thesis by simp
qed

lemma inactive_promote: "inactive (snd s) i \<Longrightarrow> promote tx tenant name ty uri s = Inr s' \<Longrightarrow> inactive (snd s') i"
  by (cases s') (auto simp: promote_def bindE_Inr_iff split: if_splits dest: inactive_create inactive_merge)

lemma inactive_resolve:
  assumes "inactive d i" and "resolve_entity tx tenant name ty uri order d = Inr (e, d')"
  shows "inactive d' i"
proof -
  obtain u s1 s2 s3 where s: "find_or_create tx tenant name (tx_type tx ty) u d = Inr s1" "promote tx tenant name (tx_type tx ty) u s1 = Inr s2"
      "foldE (add_name tx tenant (tx_type tx ty)) order s2 = Inr s3" "add_uri tenant (tx_type tx ty) uri u s3 = Inr (e, d')"
    using assms(2) by (auto simp: resolve_entity_def Let_def bindE_Inr_iff)
  show ?thesis
    using inactive_uri [OF inactive_names [OF inactive_promote [OF inactive_find [OF assms(1) s(1)] s(2)] s(3)] s(4)] by simp
qed

lemma inactive_call:
  assumes "inactive d i" and "no_cleanup i x"
  shows "inactive (after_entity_call tx d x) i"
proof (cases x)
  case (Resolve tenant name ty uri order)
  then show ?thesis using assms(1) inactive_resolve by (auto split: sum.splits)
next
  case (Retract j)
  then show ?thesis using inactive_upd [OF assms(1), of "retract_entity j d"] by (simp add: retract_entity_def)
next
  case (Cleanup r j)
  have "find (\<lambda>e. en_id e = i) (filter (\<lambda>e. en_id e \<noteq> j) es) = find (\<lambda>e. en_id e = i) es" if "i \<noteq> j" for es :: "canonical list"
    using that by (induction es) auto
  then show ?thesis using assms Cleanup by (auto simp: inactive_def ent_of_def cleanup_entity_def no_cleanup_def)
qed

text \<open>
  A retracted or redirected entity is never ACTIVE again, whatever is resolved, retracted or cleaned up, as long as
  its row is not removed; in particular, resolving its own name does not reactivate it.
\<close>

lemma retracted_entity_stays_retracted:
  assumes "ent_of d i = Some e" and "en_status e \<noteq> E_ACTIVE" and "list_all (no_cleanup i) xs"
  shows "map_option (\<lambda>e. en_status e = E_ACTIVE) (ent_of (foldl (after_entity_call tx) d xs) i) = Some False"
proof -
  have "inactive d i" using assms(1,2) by (simp add: inactive_def)
  then have "inactive (foldl (after_entity_call tx) d xs) i"
    using assms(3) by (induction xs arbitrary: d) (simp_all add: inactive_call)
  then show ?thesis by (auto simp: inactive_def)
qed

lemma retracted_entity_stays_retracted_witness:
  "let i = ''et'' @ [CHR 31] @ ''P'' @ [CHR 31] @ ''name:Ann'';
       d = foldl (after_entity_call plain_text) no_entities (two_people @ [Retract i])
   in \<not> isl (resolve_entity plain_text ''t'' ''Ann'' ''P'' None [''Ann''] d) \<and>
      map_option (\<lambda>e. en_status e = E_ACTIVE) (ent_of (foldl (after_entity_call plain_text) d [Resolve ''t'' ''Ann'' ''P'' None [''Ann'']]) i) = Some False"
proof -
  let ?i = "''et'' @ [CHR 31] @ ''P'' @ [CHR 31] @ ''name:Ann''"
  let ?d = "foldl (after_entity_call plain_text) no_entities (two_people @ [Retract ?i])"
  have "map_option en_status (ent_of ?d ?i) = Some E_RETRACTED" by code_simp
  then obtain e where "ent_of ?d ?i = Some e" "en_status e \<noteq> E_ACTIVE" by auto
  moreover have "list_all (no_cleanup ?i) [Resolve ''t'' ''Ann'' ''P'' None [''Ann'']]" by code_simp
  ultimately have "map_option (\<lambda>e. en_status e = E_ACTIVE) (ent_of (foldl (after_entity_call plain_text) ?d [Resolve ''t'' ''Ann'' ''P'' None [''Ann'']]) ?i) = Some False"
    by (rule retracted_entity_stays_retracted)
  moreover have "\<not> isl (resolve_entity plain_text ''t'' ''Ann'' ''P'' None [''Ann''] ?d)" by code_simp
  ultimately show ?thesis by (simp only: Let_def simp_thms)
qed

end
