(* ===== verification/Catalog.thy ===== *)
theory Catalog imports Dispatch "HOL-Library.AList" "HOL-Library.Char_ord" "HOL-Library.List_Lexorder" begin

text \<open>
  The catalog (\<open>mesa_storage/repositories/catalog.py\<close> and the catalog operations of \<open>mesa_storage/dao.py\<close>): the
  tenant-scoped external identifiers, workspaces, datasets, documents, revisions, chunks and sessions, and the atomic
  admission of one write (\<open>admit_v4_memory\<close>) with its idempotency receipts. The ledger is the field \<open>core\<close>. The random
  part of a new physical identifier is an argument, one for each kind. The foreign keys hold because a row is written
  after the rows it names; rows are never deleted.
\<close>

subsection \<open>State\<close>

datatype id_kind = Workspace_Id | Dataset_Id | Document_Id | Revision_Id | Chunk_Id

fun kind_text :: "id_kind \<Rightarrow> string" where
  "kind_text Workspace_Id = ''workspace''" | "kind_text Dataset_Id = ''dataset''"
| "kind_text Document_Id = ''document''" | "kind_text Revision_Id = ''revision''" | "kind_text Chunk_Id = ''chunk''"

record workspace =
  ws_id :: string
  ws_tenant :: string
  ws_name :: string

record dataset =
  da_id :: string
  da_tenant :: string
  da_workspace :: string
  da_name :: string
  da_active :: bool

record scoped_session =
  ss_id :: string
  ss_tenant :: string
  ss_workspace :: string
  ss_agent :: string
  ss_principal :: string
  ss_active :: bool

text \<open>The response of an admission; \<open>idr_response\<close> is \<open>None\<close> while the receipt is \<open>PENDING\<close>.\<close>

record admit_response =
  am_mutation :: string
  am_candidate :: string
  am_run :: string
  am_log :: int

type_synonym receipt_key = "string \<times> string \<times> string \<times> string"

record idem_receipt =
  idr_key :: receipt_key
  idr_hash :: string
  idr_response :: "admit_response option"

record catalog =
  core :: db
  names :: "((string \<times> id_kind \<times> string) \<times> string) list"
  tenants :: "string list"
  workspaces :: "workspace list"
  datasets :: "dataset list"
  sessions :: "scoped_session list"
  session_sets :: "(string \<times> string) list"
  idems :: "idem_receipt list"

datatype catalog_error =
    Incomplete_Scope | Unknown_External | Scope_Collision | Dataset_Outside | Document_Collision | Ref_Immutable
  | Document_Is_Purged | Number_Used | Revision_Collision | Revision_Differs | Revision_Finalized | Predecessor_Outside
  | Chunk_Lost | Chunk_Differs | Session_Out_Of_Scope | Key_Without_Hash | Key_Mismatch | Bad_Mode | Bad_Embedding
  | Bad_Legal_Identity | Payload_Rejected | Driver_Error | Unavailable | Refused dao_error

text \<open>What the source computes with libraries: JSON lengths, secret patterns, SHA-256, the identity of a law.\<close>

record catalog_env =
  ce_json_length :: "(string \<times> jval) list \<Rightarrow> nat"
  ce_secret :: "string \<Rightarrow> (string \<times> jval) list \<Rightarrow> bool"
  ce_sha :: "string \<Rightarrow> string"
  ce_digest :: "chunk list \<Rightarrow> string"
  ce_legal :: "(string \<times> jval) list \<Rightarrow> (string \<times> jval) list option"
  ce_items :: "(string \<Rightarrow> jval) option"
  ce_meta :: "(string \<times> jval) list \<Rightarrow> meta"
  ce_bytes :: "(string \<times> jval) list \<Rightarrow> nat"

subsection \<open>External identifiers\<close>

definition physical_id :: "id_kind \<Rightarrow> string \<Rightarrow> string" where
  "physical_id k u = ''mesa-'' @ kind_text k @ ''-'' @ u"

text \<open>\<open>resolve_id_in_tx\<close>; \<open>fresh\<close> is the random part when \<open>create\<close> is set.\<close>

definition resolve_id :: "string \<Rightarrow> id_kind \<Rightarrow> string \<Rightarrow> string option \<Rightarrow> catalog \<Rightarrow> catalog_error + (string \<times> catalog)" where
  "resolve_id tenant k x fresh c =
    (case map_of (names c) (tenant, k, x) of
       Some p \<Rightarrow> Inr (p, c)
     | None \<Rightarrow>
         (case fresh of
            None \<Rightarrow> Inl Unknown_External
          | Some u \<Rightarrow>
              let p = physical_id k u in
              if list_ex (\<lambda>((_, k', _), p'). k' = k \<and> p' = p) (names c) then Inl Driver_Error
              else Inr (p, c\<lparr>names := names c @ [((tenant, k, x), p)]\<rparr>)))"

definition external_id :: "string \<Rightarrow> id_kind \<Rightarrow> string \<Rightarrow> catalog \<Rightarrow> string option" where
  "external_id tenant k p c =
    map_option (\<lambda>((_, _, x), _). x) (find (\<lambda>((t, k', _), p'). t = tenant \<and> k' = k \<and> p' = p) (names c))"

text \<open>An optional reference, as \<open>supersedes_revision_id\<close>: resolved when it is given.\<close>

definition resolve_opt :: "string \<Rightarrow> id_kind \<Rightarrow> string option \<Rightarrow> catalog \<Rightarrow> catalog_error + (string option \<times> catalog)" where
  "resolve_opt tenant k x c =
    (if truthy x then bindE (resolve_id tenant k (the x) None c) (\<lambda>(p, c'). Inr (Some p, c')) else Inr (x, c))"

subsection \<open>Workspaces and datasets\<close>

definition name_or :: "string option \<Rightarrow> string \<Rightarrow> string" where
  "name_or n x = (if truthy n then the n else x)"

definition insert_tenant :: "string \<Rightarrow> catalog \<Rightarrow> catalog" where
  "insert_tenant t c = (if t \<in> set (tenants c) then c else c\<lparr>tenants := tenants c @ [t]\<rparr>)"

definition insert_workspace :: "workspace \<Rightarrow> catalog \<Rightarrow> catalog" where
  "insert_workspace w c =
    (if list_ex (\<lambda>x. ws_id x = ws_id w \<or> ws_tenant x = ws_tenant w \<and> ws_name x = ws_name w) (workspaces c) then c
     else c\<lparr>workspaces := workspaces c @ [w]\<rparr>)"

definition insert_dataset :: "dataset \<Rightarrow> catalog \<Rightarrow> catalog" where
  "insert_dataset a c =
    (if list_ex (\<lambda>x. da_id x = da_id a \<or> da_workspace x = da_workspace a \<and> da_name x = da_name a) (datasets c) then c
     else c\<lparr>datasets := datasets c @ [a]\<rparr>)"

definition workspace_of :: "catalog \<Rightarrow> string \<Rightarrow> workspace option" where
  "workspace_of c i = find (\<lambda>w. ws_id w = i) (workspaces c)"

definition dataset_of :: "catalog \<Rightarrow> string \<Rightarrow> dataset option" where
  "dataset_of c i = find (\<lambda>a. da_id a = i) (datasets c)"

definition create_workspace :: "(id_kind \<Rightarrow> string) \<Rightarrow> string \<Rightarrow> string \<Rightarrow> string option \<Rightarrow> catalog \<Rightarrow> catalog_error + (workspace \<times> catalog)" where
  "create_workspace uu tenant x name c =
    (if tenant = [] \<or> x = [] then Inl Incomplete_Scope
     else bindE (resolve_id tenant Workspace_Id x (Some (uu Workspace_Id)) (insert_tenant tenant c)) (\<lambda>(p, c1).
       let c2 = insert_workspace \<lparr>ws_id = p, ws_tenant = tenant, ws_name = name_or name x\<rparr> c1 in
       (case workspace_of c2 p of
          None \<Rightarrow> Inl Scope_Collision
        | Some w \<Rightarrow> if ws_tenant w \<noteq> tenant then Inl Scope_Collision else Inr (w\<lparr>ws_id := x\<rparr>, c2))))"

definition ensure_scope ::
  "(id_kind \<Rightarrow> string) \<Rightarrow> string \<Rightarrow> string \<Rightarrow> string \<Rightarrow> string option \<Rightarrow> string option \<Rightarrow> catalog \<Rightarrow> catalog_error + (unit \<times> catalog)" where
  "ensure_scope uu tenant x y wname dname c =
    (if tenant = [] \<or> x = [] \<or> y = [] then Inl Incomplete_Scope
     else bindE (resolve_id tenant Workspace_Id x (Some (uu Workspace_Id)) (insert_tenant tenant c)) (\<lambda>(w, c1).
       bindE (resolve_id tenant Dataset_Id y (Some (uu Dataset_Id)) c1) (\<lambda>(a, c2).
       let c3 = insert_workspace \<lparr>ws_id = w, ws_tenant = tenant, ws_name = name_or wname x\<rparr> c2 in
       if map_option ws_tenant (workspace_of c3 w) \<noteq> Some tenant then Inl Scope_Collision
       else
         let c4 = insert_dataset \<lparr>da_id = a, da_tenant = tenant, da_workspace = w, da_name = name_or dname y, da_active = True\<rparr> c3 in
         if map_option (\<lambda>r. (da_tenant r, da_workspace r)) (dataset_of c4 a) \<noteq> Some (tenant, w) then Inl Scope_Collision
         else Inr ((), c4))))"

subsection \<open>Documents, revisions and chunks\<close>

definition insert_document :: "document \<Rightarrow> db \<Rightarrow> db" where
  "insert_document r d =
    (if list_ex (\<lambda>x. dc_id x = dc_id r \<or> dc_ref r \<noteq> None \<and> dc_dataset x = dc_dataset r \<and> dc_ref x = dc_ref r) (docs d) then d
     else d\<lparr>docs := docs d @ [r]\<rparr>)"

definition fresh_document :: "string \<Rightarrow> string \<Rightarrow> string \<Rightarrow> string option \<Rightarrow> string \<Rightarrow> document" where
  "fresh_document i tenant ds ref title =
    \<lparr>dc_id = i, dc_tenant = tenant, dc_dataset = ds, dc_ref = ref, dc_title = title, dc_status = D_ACTIVE\<rparr>"

definition create_document ::
  "(id_kind \<Rightarrow> string) \<Rightarrow> string \<Rightarrow> string \<Rightarrow> string \<Rightarrow> string \<Rightarrow> string option \<Rightarrow> catalog \<Rightarrow> catalog_error + (document \<times> catalog)" where
  "create_document uu tenant x y title ref c =
    (if tenant = [] \<or> x = [] \<or> y = [] \<or> title = [] then Inl Incomplete_Scope
     else bindE (resolve_id tenant Dataset_Id x None c) (\<lambda>(ds, c1).
       bindE (resolve_id tenant Document_Id y (Some (uu Document_Id)) c1) (\<lambda>(doc, c2).
       if map_option da_tenant (dataset_of c2 ds) \<noteq> Some tenant then Inl Dataset_Outside
       else
         let c3 = c2\<lparr>core := insert_document (fresh_document doc tenant ds ref title) (core c2)\<rparr> in
         (case doc_of (core c3) doc of
            None \<Rightarrow> Inl Document_Collision
          | Some r \<Rightarrow>
              if dc_tenant r \<noteq> tenant \<or> dc_dataset r \<noteq> ds then Inl Document_Collision
              else if truthy ref \<and> dc_ref r \<notin> {None, ref} then Inl Ref_Immutable
              else Inr (r\<lparr>dc_id := y, dc_dataset := x\<rparr>, c3)))))"

text \<open>\<open>create_v4_revision\<close> with its resolution of identifiers; the rest is \<open>create_revision\<close>.\<close>

definition create_named_revision ::
  "(id_kind \<Rightarrow> string) \<Rightarrow> string \<Rightarrow> string \<Rightarrow> string \<Rightarrow> string \<Rightarrow> int \<Rightarrow> string \<Rightarrow> string option \<Rightarrow> catalog \<Rightarrow> catalog_error + (revision \<times> catalog)" where
  "create_named_revision uu tenant x y z n h pred c =
    (if tenant = [] \<or> y = [] \<or> z = [] \<or> n < 1 \<or> \<not> is_sha h then Inl Incomplete_Scope
     else bindE (resolve_id tenant Dataset_Id x None c) (\<lambda>(ds, c1).
       bindE (resolve_id tenant Document_Id y None c1) (\<lambda>(doc, c2).
       bindE (resolve_id tenant Revision_Id z (Some (uu Revision_Id)) c2) (\<lambda>(rid, c3).
       bindE (resolve_opt tenant Revision_Id pred c3) (\<lambda>(pre, c4).
       (case create_revision tenant ds doc rid n h pre (core c4) of
          Inl e \<Rightarrow> Inl (Refused e)
        | Inr (r, d) \<Rightarrow> Inr (r\<lparr>rv_id := z, rv_document := y, rv_supersedes := pred\<rparr>, c4\<lparr>core := d\<rparr>)))))))"

definition insert_draft :: "revision \<Rightarrow> db \<Rightarrow> db" where
  "insert_draft r d =
    (if list_ex (\<lambda>x. rv_id x = rv_id r \<or> rv_document x = rv_document r \<and> rv_number x = rv_number r) (revs d) then d
     else d\<lparr>revs := revs d @ [r]\<rparr>)"

definition draft :: "string \<Rightarrow> string \<Rightarrow> string \<Rightarrow> int \<Rightarrow> string option \<Rightarrow> revision" where
  "draft i tenant doc n pred =
    \<lparr>rv_id = i, rv_tenant = tenant, rv_document = doc, rv_number = n, rv_hash = None, rv_status = R_PENDING,
     rv_supersedes = pred, rv_manifest = None, rv_frozen_at = None\<rparr>"

definition insert_chunk :: "chunk \<Rightarrow> db \<Rightarrow> db" where
  "insert_chunk h d =
    (if list_ex (\<lambda>x. ch_id x = ch_id h \<or> ch_revision x = ch_revision h \<and> ch_ordinal x = ch_ordinal h) (chunks d) then d
     else d\<lparr>chunks := chunks d @ [h]\<rparr>)"

definition chunk_of :: "db \<Rightarrow> string \<Rightarrow> chunk option" where
  "chunk_of d i = find (\<lambda>h. ch_id h = i) (chunks d)"

text \<open>The existing revision of a chunk to append: an unfrozen draft of the same number, or the chunk is there.\<close>

definition finalized :: "revision \<Rightarrow> bool" where
  "finalized r \<longleftrightarrow> rv_status r \<noteq> R_PENDING \<or> rv_frozen_at r \<noteq> None"

definition predecessor_ok :: "string \<Rightarrow> string option \<Rightarrow> db \<Rightarrow> bool" where
  "predecessor_ok doc pre d \<longleftrightarrow> truthy pre \<longrightarrow> map_option rv_document (rev_of d (the pre)) = Some doc"

definition put_chunk :: "chunk \<Rightarrow> db \<Rightarrow> catalog_error + db" where
  "put_chunk h d =
    (let d' = insert_chunk h d in
     case chunk_of d' (ch_id h) of
       None \<Rightarrow> Inl Chunk_Lost
     | Some x \<Rightarrow> if x = h then Inr d' else Inl Chunk_Differs)"

record chunk_write =
  cw_tenant :: string
  cw_dataset :: string
  cw_document :: string
  cw_revision :: string
  cw_chunk :: string
  cw_title :: string
  cw_content :: string
  cw_source :: string
  cw_number :: int
  cw_ordinal :: int
  cw_ref :: "string option"
  cw_supersedes :: "string option"
  cw_finalize :: bool

definition chunk_row :: "catalog_env \<Rightarrow> chunk_write \<Rightarrow> string \<Rightarrow> string \<Rightarrow> string \<Rightarrow> chunk" where
  "chunk_row env w ds rid ch =
    \<lparr>ch_id = ch, ch_tenant = cw_tenant w, ch_dataset = ds, ch_revision = rid, ch_ordinal = cw_ordinal w,
     ch_hash = ce_sha env (cw_content w), ch_source = cw_source w\<rparr>"

definition chunk_tx ::
  "catalog_env \<Rightarrow> int \<Rightarrow> chunk_write \<Rightarrow> string \<Rightarrow> string \<Rightarrow> string \<Rightarrow> string \<Rightarrow> string option \<Rightarrow> db \<Rightarrow> catalog_error + (string \<times> db)" where
  "chunk_tx env now w ds doc rid ch pre d =
    (let d1 = insert_document (fresh_document doc (cw_tenant w) ds (cw_ref w) (cw_title w)) d in
     if map_option (\<lambda>r. (dc_tenant r, dc_dataset r)) (doc_of d1 doc) \<noteq> Some (cw_tenant w, ds) then Inl Document_Collision
     else
       let old = rev_of d1 rid; d2 = insert_draft (draft rid (cw_tenant w) doc (cw_number w) pre) d1 in
       if map_option (\<lambda>r. (rv_tenant r, rv_document r)) (rev_of d2 rid) \<noteq> Some (cw_tenant w, doc) then Inl Revision_Collision
       else if old \<noteq> None \<and> finalized (the old) \<and> chunk_of d2 ch = None then Inl Revision_Finalized
       else if old \<noteq> None \<and> (rv_number (the old) \<noteq> cw_number w \<or> rv_supersedes (the old) \<noteq> pre) then Inl Revision_Differs
       else if old = None \<and> \<not> predecessor_ok doc pre d2 then Inl Predecessor_Outside
       else bindE (put_chunk (chunk_row env w ds rid ch) d2) (\<lambda>d3.
         (case update_manifest (ce_digest env) now rid (cw_finalize w) d3 of Inl e \<Rightarrow> Inl (Refused e) | Inr r \<Rightarrow> Inr r)))"

definition create_source_chunk :: "catalog_env \<Rightarrow> int \<Rightarrow> (id_kind \<Rightarrow> string) \<Rightarrow> chunk_write \<Rightarrow> catalog \<Rightarrow> catalog_error + (string \<times> catalog)" where
  "create_source_chunk env now uu w c =
    (if [] \<in> {cw_tenant w, cw_dataset w, cw_document w, cw_revision w, cw_chunk w, cw_title w, cw_content w, cw_source w} then Inl Incomplete_Scope
     else if \<not> payload_ok (ce_json_length env) (ce_secret env)
       \<lparr>pl_tenant = None, pl_agent = None, pl_session = None, pl_text = cw_content w, pl_metadata = [], pl_bytes = 0\<rparr> then Inl Payload_Rejected
     else bindE (resolve_id (cw_tenant w) Dataset_Id (cw_dataset w) None c) (\<lambda>(ds, c1).
       bindE (resolve_id (cw_tenant w) Document_Id (cw_document w) (Some (uu Document_Id)) c1) (\<lambda>(doc, c2).
       bindE (resolve_id (cw_tenant w) Revision_Id (cw_revision w) (Some (uu Revision_Id)) c2) (\<lambda>(rid, c3).
       bindE (resolve_id (cw_tenant w) Chunk_Id (cw_chunk w) (Some (uu Chunk_Id)) c3) (\<lambda>(ch, c4).
       bindE (resolve_opt (cw_tenant w) Revision_Id (cw_supersedes w) c4) (\<lambda>(pre, c5).
       if map_option da_tenant (dataset_of c5 ds) \<noteq> Some (cw_tenant w) then Inl Dataset_Outside
       else bindE (chunk_tx env now w ds doc rid ch pre (core c5)) (\<lambda>(m, d). Inr (m, c5\<lparr>core := d\<rparr>))))))))"

subsection \<open>Sessions\<close>

fun resolve_all :: "string \<Rightarrow> id_kind \<Rightarrow> string list \<Rightarrow> catalog \<Rightarrow> catalog_error + string list" where
  "resolve_all tenant k [] c = Inr []"
| "resolve_all tenant k (x # xs) c = bindE (resolve_id tenant k x None c) (\<lambda>(p, _). bindE (resolve_all tenant k xs c) (\<lambda>ps. Inr (p # ps)))"

definition create_session ::
  "string \<Rightarrow> string \<Rightarrow> string \<Rightarrow> string list \<Rightarrow> string \<Rightarrow> string \<Rightarrow> string option \<Rightarrow> catalog \<Rightarrow> catalog_error + (string \<times> catalog)" where
  "create_session uuid tenant x ys agent who sid c =
    (if \<not> valid_agent agent then Inl (Refused Invalid_Agent)
     else if tenant = [] \<or> x = [] \<or> who = [] \<or> ys = [] then Inl Incomplete_Scope
     else
       let i = (if truthy sid then the sid else ''sess_'' @ uuid) in
       bindE (resolve_id tenant Workspace_Id x None c) (\<lambda>(w, _).
       bindE (resolve_all tenant Dataset_Id (sort (remdups ys)) c) (\<lambda>ps.
       if \<not> list_all (\<lambda>p. list_ex (\<lambda>a. da_id a = p \<and> da_tenant a = tenant \<and> da_workspace a = w \<and> da_active a) (datasets c)) ps
       then Inl Session_Out_Of_Scope
       else if list_ex (\<lambda>s. ss_id s = i) (sessions c) \<or> \<not> distinct ps \<or> list_ex (\<lambda>p. (i, p) \<in> set (session_sets c)) ps then Inl Driver_Error
       else Inr (i, c\<lparr>sessions := sessions c @ [\<lparr>ss_id = i, ss_tenant = tenant, ss_workspace = w, ss_agent = agent, ss_principal = who, ss_active = True\<rparr>],
         session_sets := session_sets c @ map (Pair i) ps\<rparr>))))"

definition end_session :: "string \<Rightarrow> catalog \<Rightarrow> bool \<times> catalog" where
  "end_session i c =
    (rowcount (\<lambda>s. ss_id s = i \<and> ss_active s) (sessions c) = 1,
     c\<lparr>sessions := upd (\<lambda>s. ss_id s = i \<and> ss_active s) (\<lambda>s. s\<lparr>ss_active := False\<rparr>) (sessions c)\<rparr>)"

text \<open>The row with the external identifier of its workspace, and those of its datasets.\<close>

definition get_session :: "string \<Rightarrow> string option \<Rightarrow> catalog \<Rightarrow> (scoped_session \<times> string option \<times> string list) option" where
  "get_session i who c =
    (if i = [] then None
     else case find (\<lambda>s. ss_id s = i \<and> (truthy who \<longrightarrow> ss_principal s = the who)) (sessions c) of
       None \<Rightarrow> None
     | Some s \<Rightarrow> Some (s, external_id (ss_tenant s) Workspace_Id (ss_workspace s) c,
         sort (concat (map (\<lambda>(j, p). if j = i then map (\<lambda>((_, _, x), _). x) (filter (\<lambda>((t, k, _), p'). t = ss_tenant s \<and> k = Dataset_Id \<and> p' = p) (names c)) else [])
           (session_sets c)))))"

end
