(* ===== verification/Admission.thy ===== *)
theory Admission imports Catalog begin

text \<open>
  \<open>admit_v4_memory\<close> (\<open>mesa_storage/dao.py\<close>): one write becomes, in one transaction, its catalog rows, a raw log with
  its place in the dispatch queue, a pipeline run, a mutation with three blocked lanes and, when the caller gave an
  idempotency key, a receipt with the response. An identifier computed by \<open>uuid5\<close> is the name it hashes.
\<close>

subsection \<open>The write\<close>

record memory_write =
  wr_tenant :: string
  wr_workspace :: string
  wr_dataset :: string
  wr_agent :: string
  wr_session :: string
  wr_document :: string
  wr_revision :: string
  wr_chunk :: string
  wr_title :: string
  wr_content :: string
  wr_source :: string
  wr_span :: string
  wr_number :: int
  wr_ordinal :: int
  wr_supersedes :: "string option"
  wr_metadata :: "(string \<times> jval) list"
  wr_provider :: string
  wr_model :: string
  wr_version :: string
  wr_dimension :: nat
  wr_space :: "string option"
  wr_model_revision :: "string option"
  wr_normalized :: bool
  wr_mode :: int
  wr_legal :: "(string \<times> jval) list option"
  wr_document_chunk :: bool
  wr_key :: "string option"
  wr_hash :: "string option"
  wr_finalize :: bool

fun decimal :: "nat \<Rightarrow> string" where
  "decimal n = (if n < 10 then [char_of (48 + n)] else decimal (n div 10) @ [char_of (48 + n mod 10)])"

declare decimal.simps [simp del]

definition opt_value :: "string option \<Rightarrow> jval" where
  "opt_value x = (case x of None \<Rightarrow> JNull | Some t \<Rightarrow> JText t)"

definition derived_space :: "memory_write \<Rightarrow> string" where
  "derived_space w =
    wr_provider w @ '':'' @ wr_model w @ '':'' @ name_or (wr_model_revision w) (wr_version w) @ '':'' @ decimal (wr_dimension w) @
    '':norm='' @ (if wr_normalized w then ''true'' else ''false'')"

definition embedding_member :: "memory_write \<Rightarrow> jval" where
  "embedding_member w = JDict
    [(''embedding_space_id'', JText (name_or (wr_space w) (derived_space w))), (''provider'', JText (wr_provider w)),
     (''model'', JText (wr_model w)), (''model_revision'', opt_value (wr_model_revision w)), (''version'', JText (wr_version w)),
     (''dimension'', JNum (decimal (wr_dimension w))), (''normalized'', JBool (wr_normalized w))]"

text \<open>The caller's metadata without reserved members, then the members the runtime owns.\<close>

definition open_members :: "(string \<times> jval) list \<Rightarrow> (string \<times> jval) list" where
  "open_members m = filter (\<lambda>(k, _). \<not> reserved_prefix k) m"

definition legal_member :: "catalog_env \<Rightarrow> memory_write \<Rightarrow> catalog_error + (string \<times> jval) list" where
  "legal_member env w =
    (case wr_legal w of
       None \<Rightarrow> Inr []
     | Some l \<Rightarrow>
         (case ce_legal env (AList.update ''identity_source'' (JText ''verified_ingestion'') l) of
            None \<Rightarrow> Inl Bad_Legal_Identity
          | Some l' \<Rightarrow> Inr [(''_mesa_legal_identity'', JDict l')]))"

definition rules_version :: string where
  "rules_version = ''tr-legal-rules-3''"

definition effective_metadata :: "catalog_env \<Rightarrow> memory_write \<Rightarrow> catalog_error + (string \<times> jval) list" where
  "effective_metadata env w =
    bindE (legal_member env w) (\<lambda>legal.
      if wr_mode w \<notin> {0, 1, 2} then Inl Bad_Mode
      else if truthy (wr_space w) \<and> the (wr_space w) \<noteq> derived_space w then Inl Bad_Embedding
      else Inr (open_members (wr_metadata w) @ (if wr_document_chunk w then [(''_mesa_document_chunk'', JBool True)] else []) @ legal @
        [(''_mesa_validation_mode'', JNum (decimal (nat (wr_mode w)))), (''_mesa_embedding_identity'', embedding_member w)] @
        (case ce_items env of
           None \<Rightarrow> []
         | Some f \<Rightarrow> [(''_mesa_legal_items'', JDict [(''version'', JText rules_version), (''items'', f (wr_content w))])])))"

subsection \<open>The ledger rows\<close>

definition admission_name :: "memory_write \<Rightarrow> int \<Rightarrow> string" where
  "admission_name w i = ''mesa:v4:'' @ wr_tenant w @ '':'' @ wr_agent w @ '':'' @ decimal (nat i)"

definition response :: "memory_write \<Rightarrow> int \<Rightarrow> admit_response" where
  "response w i =
    \<lparr>am_mutation = admission_name w i @ '':mutation'', am_candidate = admission_name w i @ '':candidate'',
     am_run = admission_name w i @ '':pipeline-run'', am_log = i\<rparr>"

definition admitted_candidate :: "catalog_env \<Rightarrow> memory_write \<Rightarrow> (string \<times> jval) list \<Rightarrow> int \<Rightarrow> string \<Rightarrow> string \<Rightarrow> string \<Rightarrow> string \<Rightarrow> candidate" where
  "admitted_candidate env w meta i ds doc rid ch =
    \<lparr>ca_mutation = am_mutation (response w i), ca_candidate = am_candidate (response w i), ca_raw_log = Some i,
     ca_tenant = wr_tenant w, ca_workspace = wr_workspace w, ca_dataset = ds, ca_document = doc, ca_revision = rid, ca_chunk = ch, ca_agent = wr_agent w,
     ca_session = wr_session w, ca_content = wr_content w, ca_source = wr_source w, ca_run = am_run (response w i), ca_meta = ce_meta env meta,
     ca_identity = \<lparr>id_provider = Some (wr_provider w), id_model = Some (wr_model w), id_version = Some (wr_version w),
       id_dimension = Some (int (wr_dimension w))\<rparr>\<rparr>"

text \<open>The unique keys the plain inserts of the run, its event, the mutation and the lanes must not hit.\<close>

definition ledger_clash :: "candidate \<Rightarrow> db \<Rightarrow> bool" where
  "ledger_clash c d \<longleftrightarrow>
    list_ex (\<lambda>r. rn_id r = ca_run c) (runs d)
    \<or> list_ex (\<lambda>e. ev_id e = Admission_Event (ca_run c)) (events d)
    \<or> list_ex (\<lambda>x. mu_id x = ca_mutation c \<or> mu_candidate x = ca_candidate c \<or> mu_raw_log x = ca_raw_log c) (muts d)
    \<or> list_ex (\<lambda>p. ob_mutation p = ca_mutation c \<or> ob_id p \<in> {projection_id (ca_mutation c) SQL, projection_id (ca_mutation c) VECTOR, projection_id (ca_mutation c) GRAPH}) (outboxes d)"

definition insert_ledger :: "int \<Rightarrow> candidate \<Rightarrow> db \<Rightarrow> db" where
  "insert_ledger now c d =
    fold (insert_outbox now (ca_mutation c)) [SQL, VECTOR, GRAPH]
      (insert_mutation (received c) (insert_admission (ca_run c) (insert_run (ca_run c) (ca_agent c) d)))"

definition write_payload :: "catalog_env \<Rightarrow> memory_write \<Rightarrow> (string \<times> jval) list \<Rightarrow> payload" where
  "write_payload env w meta =
    \<lparr>pl_tenant = Some (wr_tenant w), pl_agent = Some (wr_agent w), pl_session = Some (wr_session w), pl_text = wr_content w,
     pl_metadata = meta, pl_bytes = ce_bytes env
       [(''tenant_id'', JText (wr_tenant w)), (''workspace_id'', JText (wr_workspace w)), (''dataset_id'', JText (wr_dataset w)),
        (''document_id'', JText (wr_document w)), (''revision_id'', JText (wr_revision w)), (''chunk_id'', JText (wr_chunk w)),
        (''source_ref'', JText (wr_source w)), (''evidence_span'', JText (wr_span w)), (''agent_id'', JText (wr_agent w)),
        (''session_id'', JText (wr_session w)), (''content'', JText (wr_content w)), (''metadata'', JDict meta),
        (''validation_mode'', JNum (decimal (nat (wr_mode w))))]\<rparr>"

subsection \<open>The transaction\<close>

text \<open>Document, revision and chunk; unlike \<open>chunk_tx\<close>, the document of an existing revision is not compared.\<close>

definition place_chunk :: "catalog_env \<Rightarrow> int \<Rightarrow> memory_write \<Rightarrow> string \<Rightarrow> string \<Rightarrow> string \<Rightarrow> string \<Rightarrow> string option \<Rightarrow> db \<Rightarrow> catalog_error + db" where
  "place_chunk env now w ds doc rid ch pre d =
    (let d1 = insert_document (fresh_document doc (wr_tenant w) ds None (wr_title w)) d in
     if map_option (\<lambda>r. (dc_tenant r, dc_dataset r)) (doc_of d1 doc) \<noteq> Some (wr_tenant w, ds) then Inl Document_Collision
     else if map_option dc_status (doc_of d1 doc) = Some D_PURGED then Inl Document_Is_Purged
     else
       let old = rev_of d1 rid; d2 = insert_draft (draft rid (wr_tenant w) doc (wr_number w) pre) d1 in
       if rev_of d2 rid = None then Inl Number_Used
       else if old \<noteq> None \<and> (rv_number (the old) \<noteq> wr_number w \<or> rv_supersedes (the old) \<noteq> pre) then Inl Revision_Differs
       else if old \<noteq> None \<and> finalized (the old) \<and> chunk_of d2 ch = None then Inl Revision_Finalized
       else if \<not> predecessor_ok doc pre d2 then Inl Predecessor_Outside
       else
         let h = \<lparr>ch_id = ch, ch_tenant = wr_tenant w, ch_dataset = ds, ch_revision = rid, ch_ordinal = wr_ordinal w,
               ch_hash = ce_sha env (wr_content w), ch_source = wr_source w\<rparr>;
             d3 = insert_chunk h d2 in
         if chunk_of d3 ch \<noteq> Some h then Inl Chunk_Differs
         else (case update_manifest (ce_digest env) now rid (wr_finalize w) d3 of Inl e \<Rightarrow> Inl (Refused e) | Inr (_, d4) \<Rightarrow> Inr d4))"

definition enqueue_write ::
  "catalog_env \<Rightarrow> int \<Rightarrow> policy \<Rightarrow> string \<Rightarrow> string \<Rightarrow> memory_write \<Rightarrow> (string \<times> jval) list \<Rightarrow> string \<Rightarrow> string \<Rightarrow> string \<Rightarrow> string \<Rightarrow> db
    \<Rightarrow> catalog_error + (admit_response \<times> db)" where
  "enqueue_write env now pol did qid w meta ds doc rid ch d =
    (let p = write_payload env w meta; i = next_log_id d in
     case enforce_capacity (queue_usage None (queue d)) (queue_usage (Some (wr_tenant w)) (queue d)) (pl_bytes p) pol of
       Inl e \<Rightarrow> Inl (Refused e)
     | Inr _ \<Rightarrow>
         if enqueue_conflict did qid d then Inl Driver_Error
         else
           let d1 = enqueue_log now did qid (wr_tenant w) (wr_agent w) p d; c = admitted_candidate env w meta i ds doc rid ch in
           if ledger_clash c d1 then Inl Driver_Error else Inr (response w i, insert_ledger now c d1))"

datatype admit_outcome = Admitted admit_response | Duplicate admit_response | In_Progress

definition receipt_of :: "catalog \<Rightarrow> receipt_key \<Rightarrow> idem_receipt option" where
  "receipt_of c k = find (\<lambda>r. idr_key r = k) (idems c)"

text \<open>The reservation of the idempotency key: \<open>Inr None\<close> when the write is new.\<close>

definition reserve_key :: "receipt_key \<Rightarrow> string \<Rightarrow> catalog \<Rightarrow> catalog_error + (admit_outcome option \<times> catalog)" where
  "reserve_key k h c =
    (case receipt_of c k of
       Some r \<Rightarrow>
         if idr_hash r \<noteq> h then Inl Key_Mismatch
         else (case idr_response r of Some a \<Rightarrow> Inr (Some (Duplicate a), c) | None \<Rightarrow> Inr (Some In_Progress, c))
     | None \<Rightarrow> Inr (None, c\<lparr>idems := idems c @ [\<lparr>idr_key = k, idr_hash = h, idr_response = None\<rparr>]\<rparr>))"

definition complete_key :: "receipt_key \<Rightarrow> admit_response \<Rightarrow> catalog \<Rightarrow> catalog" where
  "complete_key k a c = c\<lparr>idems := upd (\<lambda>r. idr_key r = k) (\<lambda>r. r\<lparr>idr_response := Some a\<rparr>) (idems c)\<rparr>"

definition admit_new ::
  "catalog_env \<Rightarrow> int \<Rightarrow> (id_kind \<Rightarrow> string) \<Rightarrow> policy \<Rightarrow> string \<Rightarrow> string \<Rightarrow> memory_write \<Rightarrow> (string \<times> jval) list \<Rightarrow> string \<Rightarrow> catalog
    \<Rightarrow> catalog_error + (admit_response \<times> catalog)" where
  "admit_new env now uu pol did qid w meta ds c =
    bindE (resolve_id (wr_tenant w) Document_Id (wr_document w) (Some (uu Document_Id)) c) (\<lambda>(doc, c1).
    bindE (resolve_id (wr_tenant w) Revision_Id (wr_revision w) (Some (uu Revision_Id)) c1) (\<lambda>(rid, c2).
    bindE (resolve_id (wr_tenant w) Chunk_Id (wr_chunk w) (Some (uu Chunk_Id)) c2) (\<lambda>(ch, c3).
    bindE (resolve_opt (wr_tenant w) Revision_Id (wr_supersedes w) c3) (\<lambda>(pre, c4).
      if map_option da_tenant (dataset_of c4 ds) \<noteq> Some (wr_tenant w) then Inl Dataset_Outside
      else bindE (place_chunk env now w ds doc rid ch pre (core c4)) (\<lambda>d.
        bindE (enqueue_write env now pol did qid w meta ds doc rid ch d) (\<lambda>(a, d'). Inr (a, c4\<lparr>core := d'\<rparr>)))))))"

definition admission_tx ::
  "catalog_env \<Rightarrow> int \<Rightarrow> (id_kind \<Rightarrow> string) \<Rightarrow> policy \<Rightarrow> string \<Rightarrow> string \<Rightarrow> memory_write \<Rightarrow> (string \<times> jval) list \<Rightarrow> catalog
    \<Rightarrow> catalog_error + (admit_outcome \<times> catalog)" where
  "admission_tx env now uu pol did qid w meta c =
    bindE (resolve_id (wr_tenant w) Workspace_Id (wr_workspace w) None c) (\<lambda>(_, _).
    bindE (resolve_id (wr_tenant w) Dataset_Id (wr_dataset w) None c) (\<lambda>(ds, _).
      (case wr_key w of
         None \<Rightarrow> bindE (admit_new env now uu pol did qid w meta ds c) (\<lambda>(a, c'). Inr (Admitted a, c'))
       | Some key \<Rightarrow>
           let k = (wr_tenant w, wr_agent w, ds, key) in
           bindE (reserve_key k (the (wr_hash w)) c) (\<lambda>(old, c0).
             (case old of
                Some out \<Rightarrow> Inr (out, c0)
              | None \<Rightarrow> bindE (admit_new env now uu pol did qid w meta ds c0) (\<lambda>(a, c'). Inr (Admitted a, complete_key k a c')))))))"

text \<open>\<open>aiosqlite.Error\<close> is reported as an unavailable queue.\<close>

definition as_unavailable :: "catalog_error \<Rightarrow> catalog_error" where
  "as_unavailable e = (if e = Driver_Error \<or> e = Refused Integrity_Error then Unavailable else e)"

definition admit_memory ::
  "catalog_env \<Rightarrow> int \<Rightarrow> (id_kind \<Rightarrow> string) \<Rightarrow> policy \<Rightarrow> string \<Rightarrow> string \<Rightarrow> memory_write \<Rightarrow> catalog \<Rightarrow> catalog_error + (admit_outcome \<times> catalog)" where
  "admit_memory env now uu pol did qid w c =
    (if \<not> valid_agent (wr_agent w) then Inl (Refused Invalid_Agent)
     else if [] \<in> {wr_tenant w, wr_workspace w, wr_dataset w, wr_session w, wr_document w, wr_revision w, wr_chunk w, wr_title w,
         wr_content w, wr_source w} then Inl Incomplete_Scope
     else if (wr_key w = None) \<noteq> (wr_hash w = None) then Inl Key_Without_Hash
     else if wr_provider w = [] \<or> wr_model w = [] \<or> wr_version w = [] \<or> wr_dimension w < 1 then Inl Bad_Embedding
     else bindE (effective_metadata env w) (\<lambda>meta.
       (case admission_tx env now uu pol did qid w meta c of Inl e \<Rightarrow> Inl (as_unavailable e) | Inr r \<Rightarrow> Inr r)))"

end
