(* ===== verification/Catalog_Facts.thy ===== *)
theory Catalog_Facts imports Admission begin

text \<open>
  What the operations of the catalog do to identifiers, rows and manifests, and the calls that change a catalog.
\<close>

subsection \<open>Calls\<close>

text \<open>\<open>Ledger f\<close> stands for any operation of the other components on the ledger.\<close>

datatype catalog_call =
    Create_Workspace "id_kind \<Rightarrow> string" string string "string option"
  | Ensure_Scope "id_kind \<Rightarrow> string" string string string "string option" "string option"
  | Create_Document "id_kind \<Rightarrow> string" string string string string "string option"
  | Create_Revision "id_kind \<Rightarrow> string" string string string string int string "string option"
  | Create_Chunk int "id_kind \<Rightarrow> string" chunk_write
  | Create_Session string string string "string list" string string "string option"
  | End_Session string
  | Admit int "id_kind \<Rightarrow> string" policy string string memory_write
  | Ledger "db \<Rightarrow> db"

definition kept :: "catalog \<Rightarrow> catalog_error + ('a \<times> catalog) \<Rightarrow> catalog" where
  "kept c r = (case r of Inl _ \<Rightarrow> c | Inr (_, c') \<Rightarrow> c')"

fun after_catalog_call :: "catalog_env \<Rightarrow> catalog \<Rightarrow> catalog_call \<Rightarrow> catalog" where
  "after_catalog_call env c (Create_Workspace uu t x n) = kept c (create_workspace uu t x n c)"
| "after_catalog_call env c (Ensure_Scope uu t x y n m) = kept c (ensure_scope uu t x y n m c)"
| "after_catalog_call env c (Create_Document uu t x y title ref) = kept c (create_document uu t x y title ref c)"
| "after_catalog_call env c (Create_Revision uu t x y z n h pred) = kept c (create_named_revision uu t x y z n h pred c)"
| "after_catalog_call env c (Create_Chunk now uu w) = kept c (create_source_chunk env now uu w c)"
| "after_catalog_call env c (Create_Session u t x ys agent who sid) = kept c (create_session u t x ys agent who sid c)"
| "after_catalog_call env c (End_Session i) = snd (end_session i c)"
| "after_catalog_call env c (Admit now uu pol did qid w) = kept c (admit_memory env now uu pol did qid w c)"
| "after_catalog_call env c (Ledger f) = c\<lparr>core := f (core c)\<rparr>"

definition no_catalog :: catalog where
  "no_catalog = \<lparr>core = empty_db, names = [], tenants = [], workspaces = [], datasets = [], sessions = [], session_sets = [], idems = []\<rparr>"

subsection \<open>Identifiers\<close>

definition names_ok :: "catalog \<Rightarrow> bool" where
  "names_ok c \<longleftrightarrow> distinct (map fst (names c)) \<and> distinct (map (\<lambda>((_, k, _), p). (k, p)) (names c))"

text \<open>Identifiers are only added, and stay unique.\<close>

definition extends :: "catalog \<Rightarrow> catalog \<Rightarrow> bool" where
  "extends c c' \<longleftrightarrow> (\<exists>ext. names c' = names c @ ext) \<and> (names_ok c \<longrightarrow> names_ok c')"

interpretation growth: handler_frame extends
  by unfold_locales (auto simp: extends_def)

lemma extends_cong: "names c' = names c \<Longrightarrow> extends c c'"
  by (simp add: extends_def names_ok_def)

lemma extends_lookup: "extends c c' \<Longrightarrow> map_of (names c) k = Some p \<Longrightarrow> map_of (names c') k = Some p"
  by (auto simp: extends_def map_add_def split: option.split)

text \<open>Only identifiers change.\<close>

definition only_names :: "catalog \<Rightarrow> catalog \<Rightarrow> bool" where
  "only_names c c' \<longleftrightarrow> extends c c' \<and> (\<exists>ns. c' = c\<lparr>names := ns\<rparr>)"

interpretation naming: handler_frame only_names
proof unfold_locales
  fix s t u :: catalog
  show "only_names s s" unfolding only_names_def by (intro conjI exI [of _ "names s"]) (simp_all add: growth.le_refl)
  assume st: "only_names s t" and tu: "only_names t u"
  have "extends s u" using st tu growth.le_trans unfolding only_names_def by blast
  moreover have "\<exists>ns. u = s\<lparr>names := ns\<rparr>" using st tu unfolding only_names_def by auto
  ultimately show "only_names s u" by (simp add: only_names_def)
qed

lemma only_names_fields:
  assumes "only_names c c'"
  shows "core c' = core c" "tenants c' = tenants c" "workspaces c' = workspaces c" "datasets c' = datasets c"
    "sessions c' = sessions c" "session_sets c' = session_sets c" "idems c' = idems c" "extends c c'"
  using assms unfolding only_names_def by auto

lemma resolve_id_ok:
  assumes "resolve_id t k x f c = Inr (p, c')"
  shows "only_names c c'" and "map_of (names c') (t, k, x) = Some p"
proof -
  have "only_names c c' \<and> map_of (names c') (t, k, x) = Some p"
  proof (cases "map_of (names c) (t, k, x)")
    case (Some q)
    then show ?thesis using assms naming.le_refl by (simp add: resolve_id_def)
  next
    case None
    then obtain u where "f = Some u" and u: "p = physical_id k u"
      and free: "\<not> list_ex (\<lambda>((_, k', _), p'). k' = k \<and> p' = p) (names c)"
      and c': "c' = c\<lparr>names := names c @ [((t, k, x), p)]\<rparr>"
      using assms by (auto simp: resolve_id_def Let_def split: option.splits if_splits)
    have "names_ok c'" if "names_ok c"
      using that None free unfolding names_ok_def c' by (auto simp: map_of_eq_None_iff list_ex_iff)
    then show ?thesis using None unfolding c' only_names_def extends_def by (auto simp: map_add_def)
  qed
  then show "only_names c c'" and "map_of (names c') (t, k, x) = Some p" by simp_all
qed

lemma resolve_id_known: "map_of (names c) (t, k, x) = Some p \<Longrightarrow> resolve_id t k x f c = Inr (p, c)"
  by (simp add: resolve_id_def)

lemma resolve_opt_ok: "resolve_opt t k x c = Inr (p, c') \<Longrightarrow> only_names c c'"
  by (auto simp: resolve_opt_def bindE_Inr_iff naming.le_refl split: if_splits dest: resolve_id_ok(1))

definition named :: "catalog \<Rightarrow> string \<Rightarrow> id_kind \<Rightarrow> string \<Rightarrow> bool" where
  "named c t k p \<longleftrightarrow> (\<exists>x. ((t, k, x), p) \<in> set (names c))"

lemma named_extends: "extends c c' \<Longrightarrow> named c t k p \<Longrightarrow> named c' t k p"
  by (auto simp: extends_def named_def)

lemma resolved_named: "map_of (names c) (t, k, x) = Some p \<Longrightarrow> named c t k p"
  by (auto simp: named_def dest: map_of_SomeD)

lemma named_unique:
  assumes "names_ok c" and "((t, k, x), p) \<in> set (names c)" and "((t', k, x'), p) \<in> set (names c)"
  shows "t = t' \<and> x = x'"
proof -
  have "inj_on (\<lambda>((_, k, _), p). (k, p)) (set (names c))" using assms(1) by (simp add: names_ok_def distinct_map)
  from inj_onD [OF this _ assms(2,3)] show ?thesis by simp
qed

lemma external_id_named:
  assumes "names_ok c" and "map_of (names c) (t, k, x) = Some p"
  shows "external_id t k p c = Some x"
proof -
  let ?P = "\<lambda>((t', k', _), p'). t' = t \<and> k' = k \<and> p' = p"
  have m: "((t, k, x), p) \<in> set (names c)" using assms(2) by (rule map_of_SomeD)
  then have "find ?P (names c) \<noteq> None" by (auto simp: find_None_iff)
  then obtain e where e: "find ?P (names c) = Some e" by blast
  have "e \<in> set (names c) \<and> ?P e" by (rule find_SomeD [OF e])
  then have "fst e = (t, k, x)" using named_unique [OF assms(1) m, of t "snd (snd (fst e))"] by (cases e) auto
  then show ?thesis using e by (cases e) (simp add: external_id_def)
qed

subsection \<open>Every call extends the identifiers\<close>

lemma kept_extends: "(\<And>r c'. res = Inr (r, c') \<Longrightarrow> extends c c') \<Longrightarrow> extends c (kept c res)"
  by (cases res) (auto simp: kept_def growth.le_refl)

text \<open>The identifiers a call resolves and the catalog left by the resolutions.\<close>

lemma create_workspace_steps:
  assumes "create_workspace uu t x n c = Inr (r, c')"
  obtains p c1 where "only_names (insert_tenant t c) c1" "map_of (names c1) (t, Workspace_Id, x) = Some p"
    "c' = insert_workspace \<lparr>ws_id = p, ws_tenant = t, ws_name = name_or n x\<rparr> c1"
proof -
  obtain p c1 where r: "resolve_id t Workspace_Id x (Some (uu Workspace_Id)) (insert_tenant t c) = Inr (p, c1)"
    and rest: "(case workspace_of (insert_workspace \<lparr>ws_id = p, ws_tenant = t, ws_name = name_or n x\<rparr> c1) p of None \<Rightarrow> Inl Scope_Collision
      | Some w \<Rightarrow> if ws_tenant w \<noteq> t then Inl Scope_Collision
          else Inr (w\<lparr>ws_id := x\<rparr>, insert_workspace \<lparr>ws_id = p, ws_tenant = t, ws_name = name_or n x\<rparr> c1)) = Inr (r, c')"
    using assms by (auto simp: create_workspace_def bindE_Inr_iff Let_def split: if_splits)
  have "c' = insert_workspace \<lparr>ws_id = p, ws_tenant = t, ws_name = name_or n x\<rparr> c1" using rest by (simp split: option.splits if_splits)
  then show thesis using that resolve_id_ok [OF r] by blast
qed

lemma ensure_scope_steps:
  assumes "ensure_scope uu t x y n m c = Inr (r, c')"
  obtains w a c2 c3 where "only_names (insert_tenant t c) c2" "map_of (names c2) (t, Workspace_Id, x) = Some w" "map_of (names c2) (t, Dataset_Id, y) = Some a"
    "c3 = insert_workspace \<lparr>ws_id = w, ws_tenant = t, ws_name = name_or n x\<rparr> c2"
    "c' = insert_dataset \<lparr>da_id = a, da_tenant = t, da_workspace = w, da_name = name_or m y, da_active = True\<rparr> c3"
proof -
  obtain w c1 a c2 where r: "resolve_id t Workspace_Id x (Some (uu Workspace_Id)) (insert_tenant t c) = Inr (w, c1)"
      "resolve_id t Dataset_Id y (Some (uu Dataset_Id)) c1 = Inr (a, c2)"
    and c': "c' = insert_dataset \<lparr>da_id = a, da_tenant = t, da_workspace = w, da_name = name_or m y, da_active = True\<rparr>
      (insert_workspace \<lparr>ws_id = w, ws_tenant = t, ws_name = name_or n x\<rparr> c2)"
    using assms by (auto simp: ensure_scope_def bindE_Inr_iff Let_def split: if_splits)
  note r1 = resolve_id_ok [OF r(1)] and r2 = resolve_id_ok [OF r(2)]
  have "map_of (names c2) (t, Workspace_Id, x) = Some w" using extends_lookup [OF only_names_fields(8) [OF r2(1)] r1(2)] .
  then show thesis using that naming.le_trans [OF r1(1) r2(1)] r2(2) c' by blast
qed

lemma create_document_steps:
  assumes "create_document uu t x y title ref c = Inr (r, c')"
  obtains ds doc c2 where "only_names c c2" "map_of (names c2) (t, Dataset_Id, x) = Some ds" "map_of (names c2) (t, Document_Id, y) = Some doc"
    "c' = c2\<lparr>core := insert_document (fresh_document doc t ds ref title) (core c2)\<rparr>"
proof -
  obtain ds c1 doc c2 where r: "resolve_id t Dataset_Id x None c = Inr (ds, c1)" "resolve_id t Document_Id y (Some (uu Document_Id)) c1 = Inr (doc, c2)"
    and c': "c' = c2\<lparr>core := insert_document (fresh_document doc t ds ref title) (core c2)\<rparr>"
    using assms by (auto simp: create_document_def bindE_Inr_iff Let_def split: if_splits option.splits)
  note r1 = resolve_id_ok [OF r(1)] and r2 = resolve_id_ok [OF r(2)]
  have "map_of (names c2) (t, Dataset_Id, x) = Some ds" using extends_lookup [OF only_names_fields(8) [OF r2(1)] r1(2)] .
  then show thesis using that naming.le_trans [OF r1(1) r2(1)] r2(2) c' by blast
qed

lemma create_revision_steps:
  assumes "create_named_revision uu t x y z n h pred c = Inr (r, c')"
  obtains ds doc rid pre c4 r0 d where "only_names c c4" "map_of (names c4) (t, Document_Id, y) = Some doc" "map_of (names c4) (t, Revision_Id, z) = Some rid"
    "create_revision t ds doc rid n h pre (core c4) = Inr (r0, d)" "c' = c4\<lparr>core := d\<rparr>"
proof -
  obtain ds c1 doc c2 rid c3 pre c4 where r: "resolve_id t Dataset_Id x None c = Inr (ds, c1)" "resolve_id t Document_Id y None c1 = Inr (doc, c2)"
      "resolve_id t Revision_Id z (Some (uu Revision_Id)) c2 = Inr (rid, c3)" "resolve_opt t Revision_Id pred c3 = Inr (pre, c4)"
    and rest: "(case create_revision t ds doc rid n h pre (core c4) of Inl e \<Rightarrow> Inl (Refused e)
      | Inr (r, d) \<Rightarrow> Inr (r\<lparr>rv_id := z, rv_document := y, rv_supersedes := pred\<rparr>, c4\<lparr>core := d\<rparr>)) = Inr (r, c')"
    using assms by (auto simp: create_named_revision_def bindE_Inr_iff split: if_splits)
  obtain r0 d where d: "create_revision t ds doc rid n h pre (core c4) = Inr (r0, d)" "c' = c4\<lparr>core := d\<rparr>"
    using rest by (auto split: sum.splits)
  note r1 = resolve_id_ok [OF r(1)] and r2 = resolve_id_ok [OF r(2)] and r3 = resolve_id_ok [OF r(3)] and r4 = resolve_opt_ok [OF r(4)]
  have "map_of (names c4) (t, Document_Id, y) = Some doc"
    using extends_lookup [OF only_names_fields(8) [OF naming.le_trans [OF r3(1) r4]] r2(2)] .
  moreover have "map_of (names c4) (t, Revision_Id, z) = Some rid" using extends_lookup [OF only_names_fields(8) [OF r4] r3(2)] .
  moreover have "only_names c c4" using r1(1) r2(1) r3(1) r4 naming.le_trans by blast
  ultimately show thesis using that d by blast
qed

lemma only_names_lookup: "only_names c c' \<Longrightarrow> map_of (names c) k = Some p \<Longrightarrow> map_of (names c') k = Some p"
  by (rule extends_lookup [OF only_names_fields(8)])

lemma create_chunk_steps:
  assumes "create_source_chunk env now uu w c = Inr (r, c')"
  obtains ds doc rid ch pre c5 d where "only_names c c5" "map_of (names c5) (cw_tenant w, Dataset_Id, cw_dataset w) = Some ds"
    "map_of (names c5) (cw_tenant w, Document_Id, cw_document w) = Some doc" "map_of (names c5) (cw_tenant w, Revision_Id, cw_revision w) = Some rid"
    "map_of (names c5) (cw_tenant w, Chunk_Id, cw_chunk w) = Some ch"
    "chunk_tx env now w ds doc rid ch pre (core c5) = Inr (r, d)" "c' = c5\<lparr>core := d\<rparr>"
proof -
  obtain ds c1 doc c2 rid c3 ch c4 pre c5 where r: "resolve_id (cw_tenant w) Dataset_Id (cw_dataset w) None c = Inr (ds, c1)"
      "resolve_id (cw_tenant w) Document_Id (cw_document w) (Some (uu Document_Id)) c1 = Inr (doc, c2)"
      "resolve_id (cw_tenant w) Revision_Id (cw_revision w) (Some (uu Revision_Id)) c2 = Inr (rid, c3)"
      "resolve_id (cw_tenant w) Chunk_Id (cw_chunk w) (Some (uu Chunk_Id)) c3 = Inr (ch, c4)"
      "resolve_opt (cw_tenant w) Revision_Id (cw_supersedes w) c4 = Inr (pre, c5)"
    and rest: "bindE (chunk_tx env now w ds doc rid ch pre (core c5)) (\<lambda>(m, d). Inr (m, c5\<lparr>core := d\<rparr>)) = Inr (r, c')"
    using assms by (auto simp: create_source_chunk_def bindE_Inr_iff split: if_splits)
  note r1 = resolve_id_ok [OF r(1)] and r2 = resolve_id_ok [OF r(2)] and r3 = resolve_id_ok [OF r(3)]
    and r4 = resolve_id_ok [OF r(4)] and r5 = resolve_opt_ok [OF r(5)]
  have o4: "only_names c3 c5" and o3: "only_names c2 c5" and o2: "only_names c1 c5" and o1: "only_names c c5"
    using r1(1) r2(1) r3(1) r4(1) r5 naming.le_trans by blast+
  obtain d where "chunk_tx env now w ds doc rid ch pre (core c5) = Inr (r, d)" "c' = c5\<lparr>core := d\<rparr>"
    using rest by (auto simp: bindE_Inr_iff)
  then show thesis using that o1 only_names_lookup [OF o2 r1(2)] only_names_lookup [OF o3 r2(2)] only_names_lookup [OF o4 r3(2)]
    only_names_lookup [OF r5 r4(2)] by blast
qed

lemma admit_new_steps:
  assumes "admit_new env now uu pol did qid w meta ds c = Inr (a, c')"
  obtains doc rid ch pre c4 d d' where "only_names c c4"
    "map_of (names c4) (wr_tenant w, Document_Id, wr_document w) = Some doc" "map_of (names c4) (wr_tenant w, Revision_Id, wr_revision w) = Some rid"
    "map_of (names c4) (wr_tenant w, Chunk_Id, wr_chunk w) = Some ch"
    "place_chunk env now w ds doc rid ch pre (core c4) = Inr d" "enqueue_write env now pol did qid w meta ds doc rid ch d = Inr (a, d')"
    "c' = c4\<lparr>core := d'\<rparr>"
proof -
  obtain doc c1 rid c2 ch c3 pre c4 where r: "resolve_id (wr_tenant w) Document_Id (wr_document w) (Some (uu Document_Id)) c = Inr (doc, c1)"
      "resolve_id (wr_tenant w) Revision_Id (wr_revision w) (Some (uu Revision_Id)) c1 = Inr (rid, c2)"
      "resolve_id (wr_tenant w) Chunk_Id (wr_chunk w) (Some (uu Chunk_Id)) c2 = Inr (ch, c3)"
      "resolve_opt (wr_tenant w) Revision_Id (wr_supersedes w) c3 = Inr (pre, c4)"
    and rest: "bindE (place_chunk env now w ds doc rid ch pre (core c4)) (\<lambda>d.
        bindE (enqueue_write env now pol did qid w meta ds doc rid ch d) (\<lambda>(a, d'). Inr (a, c4\<lparr>core := d'\<rparr>))) = Inr (a, c')"
    using assms by (auto simp: admit_new_def bindE_Inr_iff split: if_splits)
  note r1 = resolve_id_ok [OF r(1)] and r2 = resolve_id_ok [OF r(2)] and r3 = resolve_id_ok [OF r(3)] and r4 = resolve_opt_ok [OF r(4)]
  have o3: "only_names c2 c4" and o2: "only_names c1 c4" and o1: "only_names c c4"
    using r1(1) r2(1) r3(1) r4 naming.le_trans by blast+
  obtain d d' where "place_chunk env now w ds doc rid ch pre (core c4) = Inr d" "enqueue_write env now pol did qid w meta ds doc rid ch d = Inr (a, d')"
    "c' = c4\<lparr>core := d'\<rparr>"
    using rest by (auto simp: bindE_Inr_iff)
  then show thesis using that o1 only_names_lookup [OF o2 r1(2)] only_names_lookup [OF o3 r2(2)] only_names_lookup [OF r4 r3(2)] by blast
qed

text \<open>An admission is new, or it finds the receipt of its key and changes nothing.\<close>

definition write_key :: "memory_write \<Rightarrow> string \<Rightarrow> receipt_key" where
  "write_key w ds = (wr_tenant w, wr_agent w, ds, the (wr_key w))"

definition key_reserved :: "memory_write \<Rightarrow> string \<Rightarrow> catalog \<Rightarrow> catalog" where
  "key_reserved w ds c = (if wr_key w = None then c
     else c\<lparr>idems := idems c @ [\<lparr>idr_key = write_key w ds, idr_hash = the (wr_hash w), idr_response = None\<rparr>]\<rparr>)"

definition key_settled :: "memory_write \<Rightarrow> string \<Rightarrow> admit_response \<Rightarrow> catalog \<Rightarrow> catalog" where
  "key_settled w ds a c = (if wr_key w = None then c else complete_key (write_key w ds) a c)"

lemma admit_memory_cases:
  assumes "admit_memory env now uu pol did qid w c = Inr (out, c')"
  obtains (fresh) ws ds meta a c1 where "map_of (names c) (wr_tenant w, Workspace_Id, wr_workspace w) = Some ws" "map_of (names c) (wr_tenant w, Dataset_Id, wr_dataset w) = Some ds" "effective_metadata env w = Inr meta"
      "wr_key w = None \<or> receipt_of c (write_key w ds) = None"
      "admit_new env now uu pol did qid w meta ds (key_reserved w ds c) = Inr (a, c1)" "out = Admitted a" "c' = key_settled w ds a c1"
    | (known) ds r where "map_of (names c) (wr_tenant w, Dataset_Id, wr_dataset w) = Some ds" "wr_key w \<noteq> None"
      "receipt_of c (write_key w ds) = Some r" "idr_hash r = the (wr_hash w)"
      "out = (case idr_response r of Some a \<Rightarrow> Duplicate a | None \<Rightarrow> In_Progress)" "c' = c"
proof -
  obtain meta where meta: "effective_metadata env w = Inr meta"
    and case_tx: "(case admission_tx env now uu pol did qid w meta c of Inl e \<Rightarrow> Inl (as_unavailable e) | Inr r \<Rightarrow> Inr r) = Inr (out, c')"
    using assms by (auto simp: admit_memory_def bindE_Inr_iff split: if_splits)
  have tx: "admission_tx env now uu pol did qid w meta c = Inr (out, c')" using case_tx by (simp split: sum.splits)
  have known_id: "map_of (names c) (t, k, x) = Some p" if "resolve_id t k x None c = Inr (p, c0)" for t k x p c0
    using that by (simp add: resolve_id_def split: option.splits)
  obtain ws cw ds c0 where ws: "resolve_id (wr_tenant w) Workspace_Id (wr_workspace w) None c = Inr (ws, cw)"
    and ds: "resolve_id (wr_tenant w) Dataset_Id (wr_dataset w) None c = Inr (ds, c0)"
    and rest: "(case wr_key w of
         None \<Rightarrow> bindE (admit_new env now uu pol did qid w meta ds c) (\<lambda>(a, c'). Inr (Admitted a, c'))
       | Some key \<Rightarrow>
           let k = (wr_tenant w, wr_agent w, ds, key) in
           bindE (reserve_key k (the (wr_hash w)) c) (\<lambda>(old, c0).
             (case old of
                Some out \<Rightarrow> Inr (out, c0)
              | None \<Rightarrow> bindE (admit_new env now uu pol did qid w meta ds c0) (\<lambda>(a, c'). Inr (Admitted a, complete_key k a c'))))) = Inr (out, c')"
    using tx by (auto simp: admission_tx_def bindE_Inr_iff)
  note ws = known_id [OF ws] and ds = known_id [OF ds]
  show thesis
  proof (cases "wr_key w")
    case None
    then show thesis using fresh [OF ws ds meta] rest by (auto simp: key_reserved_def key_settled_def bindE_Inr_iff)
  next
    case (Some key)
    then have k: "write_key w ds = (wr_tenant w, wr_agent w, ds, key)" by (simp add: write_key_def)
    show thesis
    proof (cases "receipt_of c (write_key w ds)")
      case None
      then show thesis using fresh [OF ws ds meta] rest Some k
        by (auto simp: key_reserved_def key_settled_def reserve_key_def bindE_Inr_iff Let_def)
    next
      case old: (Some r)
      then show thesis using known [OF ds] rest Some k
        by (auto simp: reserve_key_def split: if_splits option.splits)
    qed
  qed
qed

lemma names_core: "only_names c c4 \<Longrightarrow> extends c (c4\<lparr>core := d\<rparr>)"
  by (rule growth.le_trans [OF only_names_fields(8) extends_cong]) simp_all

lemma admit_new_extends: "admit_new env now uu pol did qid w meta ds c = Inr (a, c') \<Longrightarrow> extends c c'"
  by (erule admit_new_steps) (simp add: names_core)

lemma admit_extends: "admit_memory env now uu pol did qid w c = Inr (out, c') \<Longrightarrow> extends c c'"
proof (erule admit_memory_cases)
  fix ws ds meta a c1
  assume new: "admit_new env now uu pol did qid w meta ds (key_reserved w ds c) = Inr (a, c1)" and c': "c' = key_settled w ds a c1"
  have "extends (key_reserved w ds c) c1" by (rule admit_new_extends [OF new])
  moreover have "extends c (key_reserved w ds c)" by (rule extends_cong) (simp add: key_reserved_def)
  moreover have "extends c1 c'" unfolding c' by (rule extends_cong) (simp add: key_settled_def complete_key_def)
  ultimately show "extends c c'" using growth.le_trans by blast
qed (simp add: growth.le_refl)

lemma insert_fields [simp]:
  "names (insert_tenant t c) = names c" "core (insert_tenant t c) = core c" "workspaces (insert_tenant t c) = workspaces c"
  "datasets (insert_tenant t c) = datasets c" "sessions (insert_tenant t c) = sessions c" "session_sets (insert_tenant t c) = session_sets c"
  "idems (insert_tenant t c) = idems c"
  "names (insert_workspace w c) = names c" "core (insert_workspace w c) = core c" "datasets (insert_workspace w c) = datasets c"
  "sessions (insert_workspace w c) = sessions c" "session_sets (insert_workspace w c) = session_sets c" "idems (insert_workspace w c) = idems c"
  "names (insert_dataset a c) = names c" "core (insert_dataset a c) = core c" "workspaces (insert_dataset a c) = workspaces c"
  "sessions (insert_dataset a c) = sessions c" "session_sets (insert_dataset a c) = session_sets c" "idems (insert_dataset a c) = idems c"
  by (simp_all add: insert_tenant_def insert_workspace_def insert_dataset_def)

lemma extends_via: "names b = names a \<Longrightarrow> extends b b' \<Longrightarrow> names b'' = names b' \<Longrightarrow> extends a b''"
  by (simp add: extends_def names_ok_def)

lemma call_extends: "extends c (after_catalog_call env c x)"
proof (cases x)
  case (Create_Workspace uu t x n)
  have "extends c c'" if op: "create_workspace uu t x n c = Inr (r, c')" for r c'
  proof (rule create_workspace_steps [OF op])
    fix p c1 assume o: "only_names (insert_tenant t c) c1" and c': "c' = insert_workspace \<lparr>ws_id = p, ws_tenant = t, ws_name = name_or n x\<rparr> c1"
    have "extends (insert_tenant t c) c1" by (rule only_names_fields(8) [OF o])
    then show "extends c c'" unfolding c' by (rule extends_via [rotated]) simp_all
  qed
  then show ?thesis using Create_Workspace by (simp add: kept_extends)
next
  case (Ensure_Scope uu t x y n m)
  have "extends c c'" if op: "ensure_scope uu t x y n m c = Inr (r, c')" for r c'
  proof (rule ensure_scope_steps [OF op])
    fix w a c2 c3 assume o: "only_names (insert_tenant t c) c2" and c': "c3 = insert_workspace \<lparr>ws_id = w, ws_tenant = t, ws_name = name_or n x\<rparr> c2"
      "c' = insert_dataset \<lparr>da_id = a, da_tenant = t, da_workspace = w, da_name = name_or m y, da_active = True\<rparr> c3"
    have "extends (insert_tenant t c) c2" by (rule only_names_fields(8) [OF o])
    then show "extends c c'" unfolding c' by (rule extends_via [rotated]) simp_all
  qed
  then show ?thesis using Ensure_Scope by (simp add: kept_extends)
next
  case (Create_Document uu t x y title ref)
  then show ?thesis by (auto intro!: kept_extends elim!: create_document_steps simp: names_core)
next
  case (Create_Revision uu t x y z n h pred)
  then show ?thesis by (auto intro!: kept_extends elim!: create_revision_steps simp: names_core)
next
  case (Create_Chunk now uu w)
  then show ?thesis by (auto intro!: kept_extends elim!: create_chunk_steps simp: names_core)
next
  case (Create_Session u t x ys agent who sid)
  have "extends c c'" if "create_session u t x ys agent who sid c = Inr (r, c')" for r c'
    using that by (intro extends_cong) (auto simp: create_session_def bindE_Inr_iff Let_def split: if_splits)
  then show ?thesis using Create_Session by (simp add: kept_extends)
next
  case (End_Session i)
  then show ?thesis by (simp add: end_session_def extends_cong)
next
  case (Admit now uu pol did qid w)
  then show ?thesis by (simp add: kept_extends admit_extends)
next
  case (Ledger f)
  then show ?thesis by (simp add: extends_cong)
qed

lemma calls_extend: "extends c (foldl (after_catalog_call env) c xs)"
  by (induction xs arbitrary: c) (auto intro: growth.le_refl growth.le_trans call_extends)

lemma calls_names_ok: "names_ok (foldl (after_catalog_call env) no_catalog xs)"
  using calls_extend [of no_catalog env xs] by (simp add: extends_def names_ok_def no_catalog_def)

subsection \<open>Concrete calls\<close>

text \<open>Two datasets of one tenant and writes into them, for the witnesses.\<close>

definition plain_env :: catalog_env where
  "plain_env = \<lparr>ce_json_length = (\<lambda>_. 0), ce_secret = (\<lambda>_ _. False), ce_sha = id, ce_digest = (\<lambda>hs. concat (map ch_hash hs)), ce_legal = (\<lambda>_. None),
     ce_items = None, ce_meta = (\<lambda>_. \<lparr>me_valid_from = [], me_triplets = None, me_identity = None, me_members = []\<rparr>), ce_bytes = (\<lambda>_. 10)\<rparr>"

definition two_datasets :: "catalog_call list" where
  "two_datasets = [Ensure_Scope (\<lambda>_. ''1'') ''t'' ''w'' ''a'' None None, Ensure_Scope (\<lambda>_. ''2'') ''t'' ''w'' ''b'' None None]"

definition memo :: "string \<Rightarrow> string \<Rightarrow> string \<Rightarrow> int \<Rightarrow> memory_write" where
  "memo ds doc ch n = \<lparr>wr_tenant = ''t'', wr_workspace = ''w'', wr_dataset = ds, wr_agent = ''g'', wr_session = ''s'', wr_document = doc, wr_revision = ''r'',
     wr_chunk = ch, wr_title = ''n'', wr_content = ''x'', wr_source = ''u'', wr_span = [], wr_number = 1, wr_ordinal = n, wr_supersedes = None,
     wr_metadata = [], wr_provider = ''p'', wr_model = ''m'', wr_version = ''1'', wr_dimension = 8, wr_space = None, wr_model_revision = None,
     wr_normalized = True, wr_mode = 1, wr_legal = None, wr_document_chunk = False, wr_key = Some ''k'', wr_hash = Some ''h'', wr_finalize = False\<rparr>"

text \<open>Evaluation of a call on concrete values: the state first, then the rest of the block.\<close>

lemma bindE_weak: "x = y \<Longrightarrow> bindE x f = bindE y f"
  by simp

lemma memo_sel [simp]: "wr_tenant (memo ds doc ch n) = ''t''" "wr_workspace (memo ds doc ch n) = ''w''" "wr_dataset (memo ds doc ch n) = ds" "wr_agent (memo ds doc ch n) = ''g''"
  "wr_session (memo ds doc ch n) = ''s''" "wr_document (memo ds doc ch n) = doc" "wr_revision (memo ds doc ch n) = ''r''" "wr_chunk (memo ds doc ch n) = ch"
  "wr_title (memo ds doc ch n) = ''n''" "wr_content (memo ds doc ch n) = ''x''" "wr_source (memo ds doc ch n) = ''u''" "wr_span (memo ds doc ch n) = []"
  "wr_number (memo ds doc ch n) = 1" "wr_ordinal (memo ds doc ch n) = n" "wr_supersedes (memo ds doc ch n) = None" "wr_metadata (memo ds doc ch n) = []"
  "wr_provider (memo ds doc ch n) = ''p''" "wr_model (memo ds doc ch n) = ''m''" "wr_version (memo ds doc ch n) = ''1''" "wr_dimension (memo ds doc ch n) = 8"
  "wr_space (memo ds doc ch n) = None" "wr_mode (memo ds doc ch n) = 1" "wr_legal (memo ds doc ch n) = None" "wr_document_chunk (memo ds doc ch n) = False"
  "wr_key (memo ds doc ch n) = Some ''k''" "wr_hash (memo ds doc ch n) = Some ''h''" "wr_finalize (memo ds doc ch n) = False"
  by (simp_all add: memo_def)

lemma plain_env_sel [simp]: "ce_sha plain_env = id" "ce_json_length plain_env = (\<lambda>_. 0)" "ce_secret plain_env = (\<lambda>_ _. False)" "ce_legal plain_env = (\<lambda>_. None)" "ce_items plain_env = None" "ce_bytes plain_env = (\<lambda>_. 10)"
   "ce_meta plain_env = (\<lambda>_. \<lparr>me_valid_from = [], me_triplets = None, me_identity = None, me_members = []\<rparr>)" "ce_digest plain_env = (\<lambda>hs. concat (map ch_hash hs))"
  by (simp_all add: plain_env_def)

lemmas catalog_eval = ensure_scope_def resolve_id_def resolve_opt_def physical_id_def insert_tenant_def insert_workspace_def insert_dataset_def name_or_def workspace_of_def dataset_of_def kept_def truthy_def Let_def
lemmas admission_eval = effective_metadata_def legal_member_def valid_agent_def admission_tx_def reserve_key_def receipt_of_def complete_key_def admit_new_def
  place_chunk_def insert_document_def fresh_document_def insert_draft_def draft_def predecessor_ok_def finalized_def insert_chunk_def chunk_of_def doc_of_def rev_of_def
  update_manifest_def manifest_chunks_def reconcile_revision_def commit_ready_def enqueue_write_def write_payload_def enforce_capacity_def queue_usage_def default_policy_def enqueue_conflict_def enqueue_log_def ledger_clash_def insert_ledger_def
  capacity_checks_def next_log_id_def admitted_candidate_def response_def projection_id_def upd_def received_def insert_outbox_def insert_mutation_def insert_admission_def insert_run_def empty_db_def 

lemma two_datasets_value: "foldl (after_catalog_call plain_env) no_catalog two_datasets = 
   \<lparr>core = empty_db,
        names =
          [((''t'', Workspace_Id, ''w''), ''mesa-workspace-1''),
           ((''t'', Dataset_Id, ''a''), ''mesa-dataset-1''),
           ((''t'', Dataset_Id, ''b''), ''mesa-dataset-2'')],
        tenants = [''t''],
        workspaces =
          [\<lparr>ws_id = ''mesa-workspace-1'', ws_tenant = ''t'',
              ws_name = ''w''\<rparr>],
        datasets =
          [\<lparr>da_id = ''mesa-dataset-1'', da_tenant = ''t'',
              da_workspace = ''mesa-workspace-1'', da_name = ''a'',
              da_active = True\<rparr>,
           \<lparr>da_id = ''mesa-dataset-2'', da_tenant = ''t'',
              da_workspace = ''mesa-workspace-1'', da_name = ''b'',
              da_active = True\<rparr>],
        sessions = [], session_sets = [], idems = []\<rparr>"
  by (simp add: two_datasets_def no_catalog_def catalog_eval cong: bindE_weak let_weak_cong)

definition was_admitted :: "catalog_error + (admit_outcome \<times> catalog) \<Rightarrow> bool" where
  "was_admitted r = (case r of Inr (Admitted a, _) \<Rightarrow> True | _ \<Rightarrow> False)"

lemma was_admittedE: "was_admitted r \<Longrightarrow> (\<And>a c. r = Inr (Admitted a, c) \<Longrightarrow> P) \<Longrightarrow> P"
  by (auto simp: was_admitted_def split: sum.splits admit_outcome.splits)

lemma memo_admitted:
  "was_admitted (admit_memory plain_env 5 (\<lambda>_. ''1'') default_policy ''j'' ''q'' (memo ''a'' ''d'' ''c'' 0) (foldl (after_catalog_call plain_env) no_catalog two_datasets))"
  by (simp add: two_datasets_value admit_memory_def was_admitted_def admission_eval catalog_eval cong: bindE_weak let_weak_cong)

end
