(* ===== verification/Catalog_Properties.thy ===== *)
theory Catalog_Properties imports Catalog_Facts begin

text \<open>
  Tenants are separate, identifiers are stable, a frozen manifest is final and a session reads back as it was created.
\<close>

subsection \<open>Rows of the ledger\<close>

text \<open>\<open>N\<close> says which physical identifier a tenant has named.\<close>

definition doc_owned :: "(string \<Rightarrow> id_kind \<Rightarrow> string \<Rightarrow> bool) \<Rightarrow> document \<Rightarrow> bool" where
  "doc_owned N r \<longleftrightarrow> N (dc_tenant r) Document_Id (dc_id r) \<and> N (dc_tenant r) Dataset_Id (dc_dataset r)"

definition rev_owned :: "(string \<Rightarrow> id_kind \<Rightarrow> string \<Rightarrow> bool) \<Rightarrow> revision \<Rightarrow> bool" where
  "rev_owned N r \<longleftrightarrow> N (rv_tenant r) Revision_Id (rv_id r) \<and> N (rv_tenant r) Document_Id (rv_document r)"

definition chunk_owned :: "(string \<Rightarrow> id_kind \<Rightarrow> string \<Rightarrow> bool) \<Rightarrow> chunk \<Rightarrow> bool" where
  "chunk_owned N h \<longleftrightarrow> N (ch_tenant h) Chunk_Id (ch_id h) \<and> N (ch_tenant h) Revision_Id (ch_revision h) \<and> N (ch_tenant h) Dataset_Id (ch_dataset h)"

text \<open>A mutation and a fact name the scope they were admitted into; an ownership row belongs to the tenant of its artifact.\<close>

definition mutation_owned :: "(string \<Rightarrow> id_kind \<Rightarrow> string \<Rightarrow> bool) \<Rightarrow> mutation \<Rightarrow> bool" where
  "mutation_owned N m \<longleftrightarrow> N (mu_tenant m) Dataset_Id (mu_dataset m) \<and> pred_option (N (mu_tenant m) Document_Id) (mu_document m) \<and>
    pred_option (N (mu_tenant m) Revision_Id) (mu_revision m) \<and> pred_option (N (mu_tenant m) Chunk_Id) (mu_chunk m)"

definition fact_owned :: "(string \<Rightarrow> id_kind \<Rightarrow> string \<Rightarrow> bool) \<Rightarrow> fact \<Rightarrow> bool" where
  "fact_owned N f \<longleftrightarrow> N (fa_tenant f) Dataset_Id (fa_dataset f) \<and> N (fa_tenant f) Document_Id (fa_document f) \<and> N (fa_tenant f) Revision_Id (fa_revision f)"

definition source_owned :: "(string \<Rightarrow> id_kind \<Rightarrow> string \<Rightarrow> bool) \<Rightarrow> registry list \<Rightarrow> ownership \<Rightarrow> bool" where
  "source_owned N gs w \<longleftrightarrow> (\<forall>g \<in> set gs. rg_id g = so_registry w \<longrightarrow> N (rg_tenant g) Dataset_Id (so_dataset w) \<and>
    pred_option (N (rg_tenant g) Document_Id) (so_document w) \<and> pred_option (N (rg_tenant g) Chunk_Id) (so_chunk w))"

definition rows_owned :: "(string \<Rightarrow> id_kind \<Rightarrow> string \<Rightarrow> bool) \<Rightarrow> db \<Rightarrow> bool" where
  "rows_owned N d \<longleftrightarrow> Ball (set (docs d)) (doc_owned N) \<and> Ball (set (revs d)) (rev_owned N) \<and> Ball (set (chunks d)) (chunk_owned N) \<and>
    Ball (set (muts d)) (mutation_owned N) \<and> Ball (set (facts d)) (fact_owned N) \<and> Ball (set (owners d)) (source_owned N (registries d))"

lemma rows_owned_mono: "(\<And>t k p. N t k p \<Longrightarrow> M t k p) \<Longrightarrow> rows_owned N d \<Longrightarrow> rows_owned M d"
  unfolding rows_owned_def doc_owned_def rev_owned_def chunk_owned_def mutation_owned_def fact_owned_def source_owned_def
  by (blast intro: option.pred_mono_strong)

definition origin :: "revision \<Rightarrow> string \<times> string \<times> string" where
  "origin r = (rv_id r, rv_tenant r, rv_document r)"

definition fact_origin :: "fact \<Rightarrow> string \<times> string \<times> string \<times> string" where
  "fact_origin f = (fa_tenant f, fa_dataset f, fa_document f, fa_revision f)"

lemma rows_owned_cong:
  assumes "docs d' = docs d" and "chunks d' = chunks d" and "origin ` set (revs d') \<subseteq> origin ` set (revs d)"
    and "muts d' = muts d" and "map fact_origin (facts d') = map fact_origin (facts d)" and "owners d' = owners d" and "registries d' = registries d"
    and "rows_owned N d"
  shows "rows_owned N d'"
proof -
  have "rev_owned N r'" if "r' \<in> set (revs d')" for r'
  proof -
    have "origin r' \<in> origin ` set (revs d)" using assms(3) that by (meson imageI subsetD)
    then obtain r where r: "r \<in> set (revs d)" "origin r' = origin r" by (elim imageE)
    then have "rev_owned N r" using assms(8) by (simp add: rows_owned_def)
    then show ?thesis using r(2) by (simp add: rev_owned_def origin_def)
  qed
  moreover have "fact_owned N f'" if "f' \<in> set (facts d')" for f'
  proof -
    have "fact_origin f' \<in> fact_origin ` set (facts d)" using arg_cong [OF assms(5), of set] that by (metis imageI set_map)
    then obtain f where f: "f \<in> set (facts d)" "fact_origin f' = fact_origin f" by (elim imageE)
    then have "fact_owned N f" using assms(8) by (simp add: rows_owned_def)
    then show ?thesis using f(2) by (simp add: fact_owned_def fact_origin_def)
  qed
  ultimately show ?thesis using assms(1,2,4,6-8) by (simp add: rows_owned_def)
qed

lemma rows_owned_append:
  "rows_owned N d \<Longrightarrow> doc_owned N r \<Longrightarrow> rows_owned N (d\<lparr>docs := docs d @ [r]\<rparr>)"
  "rows_owned N d \<Longrightarrow> rev_owned N v \<Longrightarrow> rows_owned N (d\<lparr>revs := revs d @ [v]\<rparr>)"
  "rows_owned N d \<Longrightarrow> chunk_owned N h \<Longrightarrow> rows_owned N (d\<lparr>chunks := chunks d @ [h]\<rparr>)"
  "rows_owned N d \<Longrightarrow> mutation_owned N m \<Longrightarrow> rows_owned N (d\<lparr>muts := muts d @ [m]\<rparr>)"
  by (simp_all add: rows_owned_def)

lemma rows_owned_inserts:
  "rows_owned N d \<Longrightarrow> doc_owned N r \<Longrightarrow> rows_owned N (insert_document r d)"
  "rows_owned N d \<Longrightarrow> rev_owned N v \<Longrightarrow> rows_owned N (insert_draft v d)"
  "rows_owned N d \<Longrightarrow> chunk_owned N h \<Longrightarrow> rows_owned N (insert_chunk h d)"
  by (simp_all add: insert_document_def insert_draft_def insert_chunk_def rows_owned_append)

text \<open>Activation changes the status of revisions only.\<close>

definition blind :: "revision \<Rightarrow> revision" where
  "blind r = r\<lparr>rv_status := R_PENDING\<rparr>"

lemma reconcile_blind: "reconcile_revision rid d = Inr d' \<Longrightarrow> map blind (revs d') = map blind (revs d)"
  by (auto simp: reconcile_revision_def replace_head_def claim_head_def activate_revisions_def bindE_Inr_iff Let_def blind_def
      table_simps split: if_splits option.splits)

lemma reconcile_fact_origin: "reconcile_revision rid d = Inr d' \<Longrightarrow> map fact_origin (facts d') = map fact_origin (facts d)"
  by (auto simp: reconcile_revision_def replace_head_def claim_head_def activate_revisions_def bindE_Inr_iff Let_def fact_origin_def
      supersede_fact_def table_simps split: if_splits option.splits)

lemma update_manifest_fact_origin: "update_manifest dg now rid fin d = Inr (h, d') \<Longrightarrow> map fact_origin (facts d') = map fact_origin (facts d)"
  by (auto simp: update_manifest_def Let_def bindE_Inr_iff dest!: reconcile_fact_origin split: if_splits)

lemma blind_find: "map blind xs = map blind ys \<Longrightarrow> map_option blind (find (\<lambda>r. rv_id r = i) xs) = map_option blind (find (\<lambda>r. rv_id r = i) ys)"
proof (induction xs arbitrary: ys)
  case (Cons x xs)
  then obtain y zs where ys: "ys = y # zs" "blind x = blind y" "map blind xs = map blind zs" by (cases ys) auto
  then have "rv_id x = rv_id y" by (auto simp: blind_def) (metis revision.select_convs(1) revision.surjective revision.update_convs(6))
  then show ?case using Cons.IH [OF ys(3)] ys by auto
qed simp

definition sealing :: "int \<Rightarrow> string \<Rightarrow> bool \<Rightarrow> string \<Rightarrow> revision list \<Rightarrow> revision list" where
  "sealing now rid fin h = upd (\<lambda>r. rv_id r = rid \<and> rv_status r = R_PENDING \<and> rv_frozen_at r = None)
    (\<lambda>r. r\<lparr>rv_manifest := Some h, rv_frozen_at := (if fin then Some now else rv_frozen_at r)\<rparr>)"

lemma update_manifest_ok:
  assumes "update_manifest dg now rid fin d = Inr (h, d')"
  shows "map blind (revs d') = map blind (sealing now rid fin h (revs d))" and "strip_heads d' = strip_heads d"
proof -
  have "map blind (revs d') = map blind (sealing now rid fin h (revs d)) \<and> strip_heads d' = strip_heads d"
  proof (cases fin)
    case True
    then have "reconcile_revision rid (d\<lparr>revs := sealing now rid fin h (revs d)\<rparr>) = Inr d'"
      using assms by (auto simp: update_manifest_def sealing_def Let_def bindE_Inr_iff split: if_splits)
    then show ?thesis using reconcile_blind reconcile_revision_frame by fastforce
  next
    case False
    then have "d' = d\<lparr>revs := sealing now rid fin h (revs d)\<rparr>" using assms by (auto simp: update_manifest_def sealing_def Let_def split: if_splits)
    then show ?thesis by simp
  qed
  then show "map blind (revs d') = map blind (sealing now rid fin h (revs d))" and "strip_heads d' = strip_heads d" by simp_all
qed

lemma origin_blind: "map blind xs = map blind ys \<Longrightarrow> map origin xs = map origin ys"
proof -
  have "origin r = origin (blind r)" for r by (simp add: origin_def blind_def)
  then have "map origin zs = map origin (map blind zs)" for zs by simp
  then show "map blind xs = map blind ys \<Longrightarrow> map origin xs = map origin ys" by metis
qed

lemma update_manifest_owned:
  assumes "update_manifest dg now rid fin d = Inr (h, d')" and "rows_owned N d"
  shows "rows_owned N d'"
proof (rule rows_owned_cong [OF _ _ _ _ update_manifest_fact_origin [OF assms(1)] _ _ assms(2)])
  note m = update_manifest_ok [OF assms(1)]
  show "docs d' = docs d" "chunks d' = chunks d" "muts d' = muts d" "owners d' = owners d" "registries d' = registries d"
    using strip_heads_sel [OF m(2)] by simp_all
  have "map origin (revs d') = map origin (revs d)"
    using origin_blind [OF m(1)] by (simp add: sealing_def table_simps origin_def)
  then show "origin ` set (revs d') \<subseteq> origin ` set (revs d)" by (metis set_map order_refl)
qed

lemma create_revision_owned:
  assumes "create_revision t ds doc rid n h pre d = Inr (r, d')" and "rows_owned N d" and "N t Revision_Id rid" and "N t Document_Id doc"
  shows "rows_owned N d'"
proof -
  have "d' = d \<or> (\<exists>v. d' = d\<lparr>revs := revs d @ [v]\<rparr> \<and> rv_tenant v = t \<and> rv_id v = rid \<and> rv_document v = doc)"
    using assms(1) by (auto simp: create_revision_def Let_def split: if_splits option.splits)
  then show ?thesis using assms(2-4) rows_owned_append(2) [OF assms(2)] by (auto simp: rev_owned_def)
qed

lemma put_chunk_owned:
  assumes "put_chunk h d = Inr d'" and "rows_owned N d" and "chunk_owned N h"
  shows "rows_owned N d'"
  using assms(1) rows_owned_inserts(3) [OF assms(2,3)] by (auto simp: put_chunk_def Let_def split: option.splits if_splits)

lemma chunk_tx_owned:
  assumes "chunk_tx env now w ds doc rid ch pre d = Inr (m, d')" and "rows_owned N d"
    and "N (cw_tenant w) Dataset_Id ds" "N (cw_tenant w) Document_Id doc" "N (cw_tenant w) Revision_Id rid" "N (cw_tenant w) Chunk_Id ch"
  shows "rows_owned N d'"
proof -
  let ?d1 = "insert_document (fresh_document doc (cw_tenant w) ds (cw_ref w) (cw_title w)) d"
  let ?d2 = "insert_draft (draft rid (cw_tenant w) doc (cw_number w) pre) ?d1"
  obtain d3 where d3: "put_chunk (chunk_row env w ds rid ch) ?d2 = Inr d3"
    and c: "(case update_manifest (ce_digest env) now rid (cw_finalize w) d3 of Inl e \<Rightarrow> Inl (Refused e) | Inr r \<Rightarrow> Inr r) = Inr (m, d')"
    using assms(1) by (auto simp: chunk_tx_def Let_def bindE_Inr_iff split: if_splits)
  have "update_manifest (ce_digest env) now rid (cw_finalize w) d3 = Inr (m, d')" using c by (simp split: sum.splits)
  moreover have "rows_owned N ?d2" by (intro rows_owned_inserts assms(2)) (simp_all add: assms fresh_document_def draft_def doc_owned_def rev_owned_def)
  then have "rows_owned N d3" by (rule put_chunk_owned [OF d3]) (simp add: assms chunk_row_def chunk_owned_def)
  ultimately show ?thesis by (rule update_manifest_owned)
qed

lemma place_chunk_steps:
  assumes "place_chunk env now w ds doc rid ch pre d = Inr d'"
  obtains d2 h m where "d2 = insert_draft (draft rid (wr_tenant w) doc (wr_number w) pre) (insert_document (fresh_document doc (wr_tenant w) ds None (wr_title w)) d)"
    "h = \<lparr>ch_id = ch, ch_tenant = wr_tenant w, ch_dataset = ds, ch_revision = rid, ch_ordinal = wr_ordinal w, ch_hash = ce_sha env (wr_content w), ch_source = wr_source w\<rparr>"
    "\<And>r. rev_of d rid = Some r \<Longrightarrow> finalized r \<Longrightarrow> chunk_of d2 ch \<noteq> None" "chunk_of (insert_chunk h d2) ch = Some h"
    "update_manifest (ce_digest env) now rid (wr_finalize w) (insert_chunk h d2) = Inr (m, d')"
proof -
  define d1 where "d1 = insert_document (fresh_document doc (wr_tenant w) ds None (wr_title w)) d"
  define d2 where "d2 = insert_draft (draft rid (wr_tenant w) doc (wr_number w) pre) d1"
  define h where "h = \<lparr>ch_id = ch, ch_tenant = wr_tenant w, ch_dataset = ds, ch_revision = rid, ch_ordinal = wr_ordinal w, ch_hash = ce_sha env (wr_content w), ch_source = wr_source w\<rparr>"
  have old: "rev_of d1 rid = rev_of d rid" by (simp add: d1_def insert_document_def rev_of_def)
  have body: "(if map_option (\<lambda>r. (dc_tenant r, dc_dataset r)) (doc_of d1 doc) \<noteq> Some (wr_tenant w, ds) then Inl Document_Collision
     else if map_option dc_status (doc_of d1 doc) = Some D_PURGED then Inl Document_Is_Purged
     else if rev_of d2 rid = None then Inl Number_Used
     else if rev_of d1 rid \<noteq> None \<and> (rv_number (the (rev_of d1 rid)) \<noteq> wr_number w \<or> rv_supersedes (the (rev_of d1 rid)) \<noteq> pre) then Inl Revision_Differs
     else if rev_of d1 rid \<noteq> None \<and> finalized (the (rev_of d1 rid)) \<and> chunk_of d2 ch = None then Inl Revision_Finalized
     else if \<not> predecessor_ok doc pre d2 then Inl Predecessor_Outside
     else if chunk_of (insert_chunk h d2) ch \<noteq> Some h then Inl Chunk_Differs
     else (case update_manifest (ce_digest env) now rid (wr_finalize w) (insert_chunk h d2) of Inl e \<Rightarrow> Inl (Refused e) | Inr (_, d4) \<Rightarrow> Inr d4)) = Inr d'"
    using assms by (simp only: place_chunk_def Let_def d1_def d2_def h_def)
  then have fin: "\<not> (rev_of d1 rid \<noteq> None \<and> finalized (the (rev_of d1 rid)) \<and> chunk_of d2 ch = None)"
    by (metis sum.distinct(1))
  have ch: "chunk_of (insert_chunk h d2) ch = Some h" using body by (metis sum.distinct(1))
  have c: "(case update_manifest (ce_digest env) now rid (wr_finalize w) (insert_chunk h d2) of Inl e \<Rightarrow> Inl (Refused e) | Inr (_, d4) \<Rightarrow> Inr d4) = Inr d'"
    using body by (metis sum.distinct(1))
  obtain m where "update_manifest (ce_digest env) now rid (wr_finalize w) (insert_chunk h d2) = Inr (m, d')"
    using c by (cases "update_manifest (ce_digest env) now rid (wr_finalize w) (insert_chunk h d2)") auto
  then show thesis
    by (rule that [of d2 h m, rotated 4]) (use fin ch old in \<open>auto simp: d2_def d1_def h_def\<close>)
qed

lemma place_chunk_owned:
  assumes "place_chunk env now w ds doc rid ch pre d = Inr d'" and "rows_owned N d"
    and "N (wr_tenant w) Dataset_Id ds" "N (wr_tenant w) Document_Id doc" "N (wr_tenant w) Revision_Id rid" "N (wr_tenant w) Chunk_Id ch"
  shows "rows_owned N d'"
proof (rule place_chunk_steps [OF assms(1)])
  fix d2 h m
  assume d2: "d2 = insert_draft (draft rid (wr_tenant w) doc (wr_number w) pre) (insert_document (fresh_document doc (wr_tenant w) ds None (wr_title w)) d)"
    and h: "h = \<lparr>ch_id = ch, ch_tenant = wr_tenant w, ch_dataset = ds, ch_revision = rid, ch_ordinal = wr_ordinal w, ch_hash = ce_sha env (wr_content w), ch_source = wr_source w\<rparr>"
    and m: "update_manifest (ce_digest env) now rid (wr_finalize w) (insert_chunk h d2) = Inr (m, d')"
  have "rows_owned N d2" unfolding d2 by (intro rows_owned_inserts assms(2)) (simp_all add: assms fresh_document_def draft_def doc_owned_def rev_owned_def)
  then have "rows_owned N (insert_chunk h d2)" by (rule rows_owned_inserts(3)) (simp add: h assms chunk_owned_def)
  then show ?thesis by (rule update_manifest_owned [OF m])
qed

lemma insert_ledger_frame:
  "docs (insert_ledger now c d) = docs d" "revs (insert_ledger now c d) = revs d" "chunks (insert_ledger now c d) = chunks d"
  "facts (insert_ledger now c d) = facts d" "owners (insert_ledger now c d) = owners d" "registries (insert_ledger now c d) = registries d"
  "muts (insert_ledger now c d) \<in> {muts d, muts d @ [received c]}"
proof -
  have l: "docs (insert_outbox now m l d) = docs d \<and> revs (insert_outbox now m l d) = revs d \<and> chunks (insert_outbox now m l d) = chunks d \<and>
      facts (insert_outbox now m l d) = facts d \<and> owners (insert_outbox now m l d) = owners d \<and>
      registries (insert_outbox now m l d) = registries d \<and> muts (insert_outbox now m l d) = muts d" for m l d
    by (simp add: insert_outbox_def)
  show "docs (insert_ledger now c d) = docs d" "revs (insert_ledger now c d) = revs d" "chunks (insert_ledger now c d) = chunks d"
    "facts (insert_ledger now c d) = facts d" "owners (insert_ledger now c d) = owners d" "registries (insert_ledger now c d) = registries d"
    "muts (insert_ledger now c d) \<in> {muts d, muts d @ [received c]}"
    using l by (simp_all add: insert_ledger_def insert_mutation_def insert_admission_def insert_run_def)
qed

lemma insert_ledger_owned:
  assumes "rows_owned N d" and "mutation_owned N (received c)"
  shows "rows_owned N (insert_ledger now c d)"
proof (cases "muts (insert_ledger now c d) = muts d")
  case True
  show ?thesis by (rule rows_owned_cong [OF _ _ _ True _ _ _ assms(1)]) (simp_all add: insert_ledger_frame)
next
  case False
  then have "muts (insert_ledger now c d) = muts (d\<lparr>muts := muts d @ [received c]\<rparr>)" using insert_ledger_frame(7) [of now c d] by simp
  then show ?thesis
    by (rule rows_owned_cong [OF _ _ _ _ _ _ _ rows_owned_append(4) [OF assms], rotated 3]) (simp_all add: insert_ledger_frame)
qed

text \<open>A mutation that is recorded in a scope of its tenant.\<close>

lemma record_mutation_owned:
  assumes "record_mutation now c d = Inr (m, d')" and "rows_owned N d" and "mutation_owned N (received c)"
  shows "rows_owned N d'"
proof -
  let ?d = "insert_ledger now (stamped c) d"
  have "mutation_owned N (received (stamped c))" using assms(3) by (simp add: mutation_owned_def received_def stamped_def)
  then have o: "rows_owned N ?d" by (rule insert_ledger_owned [OF assms(2)])
  have d: "?d = fold (insert_outbox now (ca_mutation c)) [SQL, VECTOR, GRAPH]
      (insert_mutation (received (stamped c)) (insert_admission (ca_run c) (insert_run (ca_run c) (ca_agent c) d)))"
    by (simp add: insert_ledger_def stamped_def)
  have "d' = ?d \<or> (\<exists>P i. d' = ?d\<lparr>muts := upd P (mu_identity_update (\<lambda>_. i)) (muts ?d)\<rparr>)"
    using assms(1) unfolding d by (auto simp: record_mutation_def Let_def simp del: fold.simps split: if_splits option.splits)
  moreover have "rows_owned N (?d\<lparr>muts := upd P (mu_identity_update (\<lambda>_. i)) (muts ?d)\<rparr>)" for P i
    using o by (auto simp: rows_owned_def mutation_owned_def upd_def)
  ultimately show ?thesis using o by auto
qed

lemma enqueue_write_steps:
  assumes "enqueue_write env now pol did qid w meta ds doc rid ch d = Inr (a, d')"
  obtains p i c where "p = write_payload env w meta" "i = next_log_id d" "c = admitted_candidate env w meta i ds doc rid ch"
    "enforce_capacity (queue_usage None (queue d)) (queue_usage (Some (wr_tenant w)) (queue d)) (pl_bytes p) pol = Inr ()"
    "\<not> enqueue_conflict did qid d" "\<not> ledger_clash c (enqueue_log now did qid (wr_tenant w) (wr_agent w) p d)"
    "a = response w i" "d' = insert_ledger now c (enqueue_log now did qid (wr_tenant w) (wr_agent w) p d)"
  using assms by (cases "enforce_capacity (queue_usage None (queue d)) (queue_usage (Some (wr_tenant w)) (queue d)) (pl_bytes (write_payload env w meta)) pol")
    (simp_all add: enqueue_write_def Let_def split: if_splits)

lemma enqueue_write_owned:
  assumes "enqueue_write env now pol did qid w meta ds doc rid ch d = Inr (a, d')" and "rows_owned N d"
    and "N (wr_tenant w) Dataset_Id ds" "N (wr_tenant w) Document_Id doc" "N (wr_tenant w) Revision_Id rid" "N (wr_tenant w) Chunk_Id ch"
  shows "rows_owned N d'"
proof (rule enqueue_write_steps [OF assms(1)])
  fix p i c
  assume c: "c = admitted_candidate env w meta i ds doc rid ch" and d': "d' = insert_ledger now c (enqueue_log now did qid (wr_tenant w) (wr_agent w) p d)"
  have "rows_owned N (enqueue_log now did qid (wr_tenant w) (wr_agent w) p d)"
    by (rule rows_owned_cong [OF _ _ _ _ _ _ _ assms(2)]) (simp_all add: enqueue_log_def Let_def)
  then show ?thesis unfolding d' by (rule insert_ledger_owned) (simp add: c mutation_owned_def received_def admitted_candidate_def assms(3-6))
qed

lemma enqueue_write_frame:
  assumes "enqueue_write env now pol did qid w meta ds doc rid ch d = Inr (a, d')"
  shows "docs d' = docs d" "revs d' = revs d" "chunks d' = chunks d"
  by (rule enqueue_write_steps [OF assms], simp add: insert_ledger_frame enqueue_log_def Let_def)+

subsection \<open>Tenants\<close>

definition set_owned :: "(string \<Rightarrow> id_kind \<Rightarrow> string \<Rightarrow> bool) \<Rightarrow> scoped_session list \<Rightarrow> string \<times> string \<Rightarrow> bool" where
  "set_owned N ss e \<longleftrightarrow> (\<exists>s \<in> set ss. ss_id s = fst e) \<and> (\<forall>s \<in> set ss. ss_id s = fst e \<longrightarrow> N (ss_tenant s) Dataset_Id (snd e))"

definition key_owned :: "(string \<Rightarrow> id_kind \<Rightarrow> string \<Rightarrow> bool) \<Rightarrow> receipt_key \<Rightarrow> bool" where
  "key_owned N k \<longleftrightarrow> N (fst k) Dataset_Id (fst (snd (snd k)))"

definition scope_owned :: "(string \<Rightarrow> id_kind \<Rightarrow> string \<Rightarrow> bool) \<Rightarrow> catalog \<Rightarrow> bool" where
  "scope_owned N c \<longleftrightarrow>
    Ball (set (workspaces c)) (\<lambda>w. N (ws_tenant w) Workspace_Id (ws_id w)) \<and>
    Ball (set (datasets c)) (\<lambda>a. N (da_tenant a) Dataset_Id (da_id a) \<and> N (da_tenant a) Workspace_Id (da_workspace a)) \<and>
    Ball (set (sessions c)) (\<lambda>s. N (ss_tenant s) Workspace_Id (ss_workspace s)) \<and>
    Ball (set (session_sets c)) (set_owned N (sessions c)) \<and>
    Ball (set (idems c)) (\<lambda>r. key_owned N (idr_key r))"

definition owned :: "catalog \<Rightarrow> bool" where
  "owned c \<longleftrightarrow> names_ok c \<and> scope_owned (named c) c \<and> rows_owned (named c) (core c)"

lemma scope_owned_mono: "(\<And>t k p. N t k p \<Longrightarrow> M t k p) \<Longrightarrow> scope_owned N c \<Longrightarrow> scope_owned M c"
  unfolding scope_owned_def set_owned_def key_owned_def by meson

lemma scope_owned_cong:
  "workspaces c' = workspaces c \<Longrightarrow> datasets c' = datasets c \<Longrightarrow> sessions c' = sessions c \<Longrightarrow> session_sets c' = session_sets c \<Longrightarrow>
    idems c' = idems c \<Longrightarrow> scope_owned N c' = scope_owned N c"
  by (simp add: scope_owned_def)

text \<open>A call that first resolves identifiers and then writes rows.\<close>

lemma owned_names:
  assumes "owned c" and "only_names c c'"
  shows "owned c'"
proof -
  have e: "extends c c'" by (rule only_names_fields(8) [OF assms(2)])
  have "scope_owned (named c') c" using assms(1) named_extends [OF e] scope_owned_mono [of "named c" "named c'"] by (simp add: owned_def)
  moreover have "rows_owned (named c') (core c)" using assms(1) named_extends [OF e] rows_owned_mono [of "named c" "named c'"] by (simp add: owned_def)
  ultimately show ?thesis
    using assms(1) e only_names_fields [OF assms(2)] scope_owned_cong [of c' c] by (simp add: owned_def extends_def)
qed

lemma named_core [simp]: "named (c\<lparr>core := d\<rparr>) = named c"
  by (simp add: named_def fun_eq_iff)

lemma owned_core:
  assumes "owned c" and "rows_owned (named c) d"
  shows "owned (c\<lparr>core := d\<rparr>)"
  using assms scope_owned_cong [of "c\<lparr>core := d\<rparr>" c] by (simp add: owned_def names_ok_def)

lemma named_inserts [simp]: "named (insert_tenant t c) = named c" "named (insert_workspace w c) = named c" "named (insert_dataset a c) = named c"
  by (simp_all add: named_def fun_eq_iff)

lemma owned_insert_tenant: "owned c \<Longrightarrow> owned (insert_tenant t c)"
  using scope_owned_cong [of "insert_tenant t c" c] by (simp add: owned_def names_ok_def)

lemma owned_insert_workspace: "owned c \<Longrightarrow> named c (ws_tenant w) Workspace_Id (ws_id w) \<Longrightarrow> owned (insert_workspace w c)"
  by (simp add: owned_def names_ok_def) (simp add: scope_owned_def insert_workspace_def)

lemma owned_insert_dataset:
  "owned c \<Longrightarrow> named c (da_tenant a) Dataset_Id (da_id a) \<Longrightarrow> named c (da_tenant a) Workspace_Id (da_workspace a) \<Longrightarrow> owned (insert_dataset a c)"
  by (simp add: owned_def names_ok_def) (simp add: scope_owned_def insert_dataset_def)

lemma resolve_all_named: "resolve_all t k xs c = Inr ps \<Longrightarrow> p \<in> set ps \<Longrightarrow> named c t k p"
proof (induction xs arbitrary: ps)
  case (Cons x xs)
  then obtain q c0 qs where q: "resolve_id t k x None c = Inr (q, c0)" "resolve_all t k xs c = Inr qs" "ps = q # qs"
    by (auto simp: bindE_Inr_iff)
  have "named c t k q" using q(1) by (auto simp: resolve_id_def intro: resolved_named split: option.splits)
  then show ?case using Cons.IH [OF q(2)] Cons.prems(2) q(3) by auto
qed simp

lemma owned_session:
  assumes "owned c" and "create_session u t x ys agent who sid c = Inr (i, c')"
  shows "owned c'"
proof -
  obtain w ps c0 where w: "resolve_id t Workspace_Id x None c = Inr (w, c0)" and ps: "resolve_all t Dataset_Id (sort (remdups ys)) c = Inr ps"
    and new: "\<not> list_ex (\<lambda>s. ss_id s = i) (sessions c)"
    and c': "c' = c\<lparr>sessions := sessions c @ [\<lparr>ss_id = i, ss_tenant = t, ss_workspace = w, ss_agent = agent, ss_principal = who, ss_active = True\<rparr>],
         session_sets := session_sets c @ map (Pair i) ps\<rparr>"
    using assms(2) by (auto simp: create_session_def bindE_Inr_iff Let_def split: if_splits)
  have n: "named c' = named c" unfolding c' by (simp add: named_def fun_eq_iff)
  have wn: "named c t Workspace_Id w" using w by (auto simp: resolve_id_def intro: resolved_named split: option.splits)
  have pn: "\<And>p. p \<in> set ps \<Longrightarrow> named c t Dataset_Id p" using resolve_all_named [OF ps] .
  have so: "scope_owned (named c) c" using assms(1) by (simp add: owned_def)
  have "set_owned (named c) (sessions c') e" if e: "e \<in> set (session_sets c')" for e
  proof (cases "e \<in> set (session_sets c)")
    case True
    then have "set_owned (named c) (sessions c) e" using so by (simp add: scope_owned_def)
    then show ?thesis using new unfolding c' set_owned_def by (auto simp: list_ex_iff)
  next
    case False
    then obtain p where p: "e = (i, p)" "p \<in> set ps" using e unfolding c' by auto
    have "\<forall>s \<in> set (sessions c). ss_id s \<noteq> i" using new by (simp add: list_ex_iff)
    then show ?thesis using p pn unfolding c' set_owned_def by simp
  qed
  then have "scope_owned (named c) c'" using so wn unfolding scope_owned_def c' by simp
  moreover have "names_ok c' \<and> core c' = core c" using assms(1) unfolding c' by (simp add: owned_def names_ok_def)
  ultimately show ?thesis using assms(1) by (simp add: owned_def n)
qed

lemma owned_reserved: "owned c \<Longrightarrow> named c (wr_tenant w) Dataset_Id ds \<Longrightarrow> owned (key_reserved w ds c)"
  by (simp add: owned_def names_ok_def named_def [abs_def] key_reserved_def scope_owned_def write_key_def key_owned_def)

lemma owned_settled: "owned c \<Longrightarrow> owned (key_settled w ds a c)"
  by (auto simp: owned_def names_ok_def named_def [abs_def] key_settled_def complete_key_def scope_owned_def set_upd)

lemma owned_admit:
  assumes "owned c" and "admit_memory env now uu pol did qid w c = Inr (out, c')"
  shows "owned c'"
proof (rule admit_memory_cases [OF assms(2)])
  fix ws ds meta a c1
  assume ds: "map_of (names c) (wr_tenant w, Dataset_Id, wr_dataset w) = Some ds"
    and new: "admit_new env now uu pol did qid w meta ds (key_reserved w ds c) = Inr (a, c1)" and c': "c' = key_settled w ds a c1"
  have "owned c1"
  proof (rule admit_new_steps [OF new])
    fix doc rid ch pre c4 d d'
    assume o: "only_names (key_reserved w ds c) c4" and n: "map_of (names c4) (wr_tenant w, Document_Id, wr_document w) = Some doc"
        "map_of (names c4) (wr_tenant w, Revision_Id, wr_revision w) = Some rid" "map_of (names c4) (wr_tenant w, Chunk_Id, wr_chunk w) = Some ch"
      and d: "place_chunk env now w ds doc rid ch pre (core c4) = Inr d" "enqueue_write env now pol did qid w meta ds doc rid ch d = Inr (a, d')"
      and c1: "c1 = c4\<lparr>core := d'\<rparr>"
    have c4: "owned c4" by (rule owned_names [OF owned_reserved [OF assms(1) resolved_named [OF ds]] o])
    have "map_of (names c4) (wr_tenant w, Dataset_Id, wr_dataset w) = Some ds"
      using only_names_lookup [OF o] ds by (simp add: key_reserved_def)
    then have "rows_owned (named c4) d" and "named c4 (wr_tenant w) Dataset_Id ds"
      using place_chunk_owned [OF d(1), of "named c4"] c4 n by (simp_all add: owned_def resolved_named)
    then have "rows_owned (named c4) d'" using n by (intro enqueue_write_owned [OF d(2)]) (simp_all add: resolved_named)
    then show "owned c1" unfolding c1 by (rule owned_core [OF c4])
  qed
  then show "owned c'" unfolding c' by (rule owned_settled)
qed (simp add: assms(1))

lemma owned_end: "owned c \<Longrightarrow> owned (snd (end_session i c))"
proof -
  assume c: "owned c"
  define g where "g = (\<lambda>s :: scoped_session. if ss_id s = i \<and> ss_active s then s\<lparr>ss_active := False\<rparr> else s)"
  have g: "ss_id (g s) = ss_id s" "ss_tenant (g s) = ss_tenant s" "ss_workspace (g s) = ss_workspace s" for s by (simp_all add: g_def)
  have c': "snd (end_session i c) = c\<lparr>sessions := map g (sessions c)\<rparr>" by (simp add: end_session_def upd_def g_def)
  have "set_owned N (map g ss) e = set_owned N ss e" for N ss e by (simp add: set_owned_def g)
  then have "scope_owned N (c\<lparr>sessions := map g (sessions c)\<rparr>) = scope_owned N c" for N by (simp add: scope_owned_def g)
  then show "owned (snd (end_session i c))" using c unfolding c' by (simp add: owned_def names_ok_def named_def [abs_def])
qed

definition keeps_provenance :: "catalog_call \<Rightarrow> bool" where
  "keeps_provenance x \<longleftrightarrow> (case x of Ledger f \<Rightarrow> (\<forall>N d. rows_owned N d \<longrightarrow> rows_owned N (f d)) | _ \<Rightarrow> True)"

lemma kept_owned: "owned c \<Longrightarrow> (\<And>r c'. res = Inr (r, c') \<Longrightarrow> owned c') \<Longrightarrow> owned (kept c res)"
  by (cases res) (auto simp: kept_def)

lemma call_owned:
  assumes "owned c" and "keeps_provenance x"
  shows "owned (after_catalog_call env c x)"
proof (cases x)
  case (Create_Workspace uu t x n)
  have "owned c'" if op: "create_workspace uu t x n c = Inr (r, c')" for r c'
    by (rule create_workspace_steps [OF op])
      (use owned_names [OF owned_insert_tenant [OF assms(1)]] in \<open>simp add: owned_insert_workspace resolved_named\<close>)
  then show ?thesis using Create_Workspace assms(1) by (simp add: kept_owned)
next
  case (Ensure_Scope uu t x y n m)
  have "owned c'" if op: "ensure_scope uu t x y n m c = Inr (r, c')" for r c'
    by (rule ensure_scope_steps [OF op])
      (use owned_names [OF owned_insert_tenant [OF assms(1)]] in \<open>simp add: owned_insert_workspace owned_insert_dataset resolved_named\<close>)
  then show ?thesis using Ensure_Scope assms(1) by (simp add: kept_owned)
next
  case (Create_Document uu t x y title ref)
  have "owned c'" if op: "create_document uu t x y title ref c = Inr (r, c')" for r c'
  proof (rule create_document_steps [OF op])
    fix ds doc c2
    assume o: "only_names c c2" and n: "map_of (names c2) (t, Dataset_Id, x) = Some ds" "map_of (names c2) (t, Document_Id, y) = Some doc"
      and c': "c' = c2\<lparr>core := insert_document (fresh_document doc t ds ref title) (core c2)\<rparr>"
    have c2: "owned c2" by (rule owned_names [OF assms(1) o])
    then show "owned c'" unfolding c' using n
      by (intro owned_core [OF c2] rows_owned_inserts) (simp_all add: owned_def doc_owned_def fresh_document_def resolved_named)
  qed
  then show ?thesis using Create_Document assms(1) by (simp add: kept_owned)
next
  case (Create_Revision uu t x y z n h pred)
  have "owned c'" if op: "create_named_revision uu t x y z n h pred c = Inr (r, c')" for r c'
  proof (rule create_revision_steps [OF op])
    fix ds doc rid pre c4 r0 d
    assume o: "only_names c c4" and n: "map_of (names c4) (t, Document_Id, y) = Some doc" "map_of (names c4) (t, Revision_Id, z) = Some rid"
      and d: "create_revision t ds doc rid n h pre (core c4) = Inr (r0, d)" and c': "c' = c4\<lparr>core := d\<rparr>"
    have c4: "owned c4" by (rule owned_names [OF assms(1) o])
    then have "rows_owned (named c4) d" using n by (intro create_revision_owned [OF d]) (simp_all add: owned_def resolved_named)
    then show "owned c'" unfolding c' by (rule owned_core [OF c4])
  qed
  then show ?thesis using Create_Revision assms(1) by (simp add: kept_owned)
next
  case (Create_Chunk now uu w)
  have "owned c'" if op: "create_source_chunk env now uu w c = Inr (r, c')" for r c'
  proof (rule create_chunk_steps [OF op])
    fix ds doc rid ch pre c5 d
    assume o: "only_names c c5" and n: "map_of (names c5) (cw_tenant w, Dataset_Id, cw_dataset w) = Some ds"
        "map_of (names c5) (cw_tenant w, Document_Id, cw_document w) = Some doc" "map_of (names c5) (cw_tenant w, Revision_Id, cw_revision w) = Some rid"
        "map_of (names c5) (cw_tenant w, Chunk_Id, cw_chunk w) = Some ch"
      and d: "chunk_tx env now w ds doc rid ch pre (core c5) = Inr (r, d)" and c': "c' = c5\<lparr>core := d\<rparr>"
    have c5: "owned c5" by (rule owned_names [OF assms(1) o])
    then have "rows_owned (named c5) d" using n by (intro chunk_tx_owned [OF d]) (simp_all add: owned_def resolved_named)
    then show "owned c'" unfolding c' by (rule owned_core [OF c5])
  qed
  then show ?thesis using Create_Chunk assms(1) by (simp add: kept_owned)
next
  case (Create_Session u t x ys agent who sid)
  then show ?thesis using owned_session [OF assms(1)] assms(1) by (auto intro: kept_owned)
next
  case (End_Session i)
  then show ?thesis using owned_end [OF assms(1)] by simp
next
  case (Admit now uu pol did qid w)
  then show ?thesis using owned_admit [OF assms(1)] assms(1) by (auto intro: kept_owned)
next
  case (Ledger f)
  then have "rows_owned (named c) (f (core c))" using assms by (simp add: keeps_provenance_def owned_def)
  then show ?thesis using Ledger owned_core [OF assms(1)] by simp
qed

lemma calls_owned: "owned c \<Longrightarrow> list_all keeps_provenance xs \<Longrightarrow> owned (foldl (after_catalog_call env) c xs)"
  by (induction xs arbitrary: c) (simp_all add: call_owned)

lemma no_catalog_owned: "owned no_catalog"
  by (simp add: owned_def names_ok_def scope_owned_def rows_owned_def no_catalog_def empty_db_def)







subsection \<open>Identifiers\<close>

text \<open>
  Once an external identifier is resolved, it resolves to the same physical identifier after any calls, and that one
  reads back as the external identifier.
\<close>

lemma identifiers_are_stable:
  assumes "foldl (after_catalog_call env) no_catalog xs = c" and "resolve_id t k x f c = Inr (p, c1)"
    and "foldl (after_catalog_call env) c1 ys = c2"
  shows "resolve_id t k x f' c2 = Inr (p, c2) \<and> external_id t k p c2 = Some x"
proof -
  note r = resolve_id_ok [OF assms(2)]
  have "names_ok c1" using only_names_fields(8) [OF r(1)] calls_names_ok [of env xs] assms(1) by (simp add: extends_def)
  moreover have e: "extends c1 c2" using calls_extend [of c1 env ys] assms(3) by simp
  ultimately have "names_ok c2" by (simp add: extends_def)
  moreover have "map_of (names c2) (t, k, x) = Some p" by (rule extends_lookup [OF e r(2)])
  ultimately show ?thesis using resolve_id_known external_id_named by blast
qed

lemma identifiers_are_stable_witness:
  "\<exists>c1. resolve_id ''t'' Document_Id ''d'' (Some ''7'') (foldl (after_catalog_call plain_env) no_catalog two_datasets) = Inr (''mesa-document-7'', c1) \<and>
    resolve_id ''t'' Document_Id ''d'' (Some ''8'') (foldl (after_catalog_call plain_env) c1 two_datasets) =
      Inr (''mesa-document-7'', foldl (after_catalog_call plain_env) c1 two_datasets)"
proof -
  let ?c = "foldl (after_catalog_call plain_env) no_catalog two_datasets"
  have "map_option fst (case resolve_id ''t'' Document_Id ''d'' (Some ''7'') ?c of Inl _ \<Rightarrow> None | Inr r \<Rightarrow> Some r) = Some ''mesa-document-7''" by code_simp
  then obtain c1 where "resolve_id ''t'' Document_Id ''d'' (Some ''7'') ?c = Inr (''mesa-document-7'', c1)" by (auto split: sum.splits)
  with identifiers_are_stable [OF refl this refl] show ?thesis by blast
qed

subsection \<open>Sessions\<close>

lemma resolve_all_lookups: "resolve_all t k xs c = Inr ps \<Longrightarrow> list_all2 (\<lambda>x p. map_of (names c) (t, k, x) = Some p) xs ps"
proof (induction xs arbitrary: ps)
  case (Cons x xs)
  then obtain q c0 qs where q: "resolve_id t k x None c = Inr (q, c0)" "resolve_all t k xs c = Inr qs" "ps = q # qs"
    by (auto simp: bindE_Inr_iff)
  then show ?case using Cons.IH [OF q(2)] by (auto simp: resolve_id_def split: option.splits)
qed simp

lemma filter_one: "distinct (map f xs) \<Longrightarrow> e \<in> set xs \<Longrightarrow> (\<And>z. z \<in> set xs \<Longrightarrow> P z \<longleftrightarrow> f z = f e) \<Longrightarrow> filter P xs = [e]"
proof (induction xs)
  case (Cons x xs)
  show ?case
  proof (cases "x = e")
    case True
    then have "filter P xs = []" using Cons.prems by (auto simp: filter_empty_conv image_iff)
    then show ?thesis using True Cons.prems(3) [of x] by simp
  next
    case False
    then have "e \<in> set xs" "f x \<noteq> f e" using Cons.prems(1,2) by auto
    then show ?thesis using Cons by simp
  qed
qed simp

lemma named_filter:
  assumes "names_ok c" and "map_of (names c) (t, k, x) = Some p"
  shows "filter (\<lambda>((t', k', _), p'). t' = t \<and> k' = k \<and> p' = p) (names c) = [((t, k, x), p)]"
proof (rule filter_one [where f = "\<lambda>((_, k, _), p). (k, p)"])
  show "distinct (map (\<lambda>((_, k, _), p). (k, p)) (names c))" using assms(1) by (simp add: names_ok_def)
  show m: "((t, k, x), p) \<in> set (names c)" using assms(2) by (rule map_of_SomeD)
  fix z
  assume "z \<in> set (names c)"
  then show "(case z of (a, p') \<Rightarrow> (case a of (t', k', _) \<Rightarrow> \<lambda>p'. t' = t \<and> k' = k \<and> p' = p) p') \<longleftrightarrow>
      (case z of (a, p) \<Rightarrow> (case a of (_, k, _) \<Rightarrow> \<lambda>p. (k, p)) p) = (case ((t, k, x), p) of (a, p) \<Rightarrow> (case a of (_, k, _) \<Rightarrow> \<lambda>p. (k, p)) p)"
    using named_unique [OF assms(1) m] by (cases z) auto
qed

text \<open>
  A session reads back, for its principal, with the workspace, the sorted distinct datasets, the tenant, the agent
  and the principal it was created with, and it is active.
\<close>

lemma session_reads_back:
  assumes "list_all keeps_provenance xs" and "foldl (after_catalog_call env) no_catalog xs = c"
    and "create_session u t x ys agent who sid c = Inr (i, c')"
  shows "map_option (\<lambda>(s, w, ds). (ss_tenant s, w, ds, ss_agent s, ss_principal s, ss_active s)) (get_session i (Some who) c') =
    Some (t, Some x, sort (remdups ys), agent, who, True)"
proof -
  have c: "owned c" using calls_owned [OF no_catalog_owned assms(1), of env] assms(2) by simp
  then have ok: "names_ok c" by (simp add: owned_def)
  obtain w ps c0 where w: "resolve_id t Workspace_Id x None c = Inr (w, c0)" and ps: "resolve_all t Dataset_Id (sort (remdups ys)) c = Inr ps"
    and new: "\<not> list_ex (\<lambda>s. ss_id s = i) (sessions c)" and i: "i \<noteq> []"
    and c': "c' = c\<lparr>sessions := sessions c @ [\<lparr>ss_id = i, ss_tenant = t, ss_workspace = w, ss_agent = agent, ss_principal = who, ss_active = True\<rparr>],
         session_sets := session_sets c @ map (Pair i) ps\<rparr>"
    using assms(3) by (auto simp: create_session_def bindE_Inr_iff Let_def truthy_def split: if_splits option.splits)
  let ?ext = "\<lambda>p. map (\<lambda>((_, _, x), _). x) (filter (\<lambda>((t', k, _), p'). t' = t \<and> k = Dataset_Id \<and> p' = p) (names c))"
  have none: "j \<noteq> i" if "(j, p) \<in> set (session_sets c)" for j p
  proof -
    have "set_owned (named c) (sessions c) (j, p)" using c that by (simp add: owned_def scope_owned_def)
    then show ?thesis using new by (auto simp: set_owned_def list_ex_iff)
  qed
  have old: "concat (map (\<lambda>(j, p). if j = i then ?ext p else []) (session_sets c)) = []"
    using none by (auto simp: concat_eq_Nil_conv)
  have "map ?ext ps = map (\<lambda>y. [y]) (sort (remdups ys))"
    using resolve_all_lookups [OF ps] by (induction rule: list_all2_induct) (simp_all add: named_filter [OF ok])
  then have "concat (map (\<lambda>(j, p). if j = i then ?ext p else []) (map (Pair i) ps)) = sort (remdups ys)" by (simp add: comp_def)
  then have sets: "concat (map (\<lambda>(j, p). if j = i then ?ext p else []) (session_sets c')) = sort (remdups ys)"
    using old by (simp add: c')
  have ws: "external_id t Workspace_Id w c' = Some x"
    using w external_id_named [OF ok] by (auto simp: resolve_id_def external_id_def c' split: option.splits)
  define row where "row = \<lparr>ss_id = i, ss_tenant = t, ss_workspace = w, ss_agent = agent, ss_principal = who, ss_active = True\<rparr>"
  have row: "ss_tenant row = t" "ss_workspace row = w" "ss_agent row = agent" "ss_principal row = who" "ss_active row" "ss_id row = i"
    by (simp_all add: row_def)
  have find: "find (\<lambda>s. ss_id s = i \<and> (truthy (Some who) \<longrightarrow> ss_principal s = the (Some who))) (sessions c') = Some row"
  proof -
    have "find (\<lambda>s. ss_id s = i \<and> (truthy (Some who) \<longrightarrow> ss_principal s = the (Some who))) (sessions c) = None"
      using new by (auto simp: find_None_iff list_ex_iff)
    then show ?thesis by (simp add: c' find_append row_def)
  qed
  have "names c' = names c" by (simp add: c')
  then have "get_session i (Some who) c' = Some (row, Some x, sort (sort (remdups ys)))"
    using i ws sets by (simp only: get_session_def find option.case if_False row)
  then show ?thesis by (simp add: row sorted_sort_id)
qed

lemma session_reads_back_witness:
  "\<exists>c'. create_session ''u'' ''t'' ''w'' [''b'', ''a'', ''b''] ''g'' ''me'' None (foldl (after_catalog_call plain_env) no_catalog two_datasets) = Inr (''sess_u'', c') \<and>
    map_option (\<lambda>(s, w, ds). ds) (get_session ''sess_u'' (Some ''me'') c') = Some [''a'', ''b'']"
proof -
  let ?c = "foldl (after_catalog_call plain_env) no_catalog two_datasets"
  have "map_option fst (case create_session ''u'' ''t'' ''w'' [''b'', ''a'', ''b''] ''g'' ''me'' None ?c of Inl _ \<Rightarrow> None | Inr r \<Rightarrow> Some r) = Some ''sess_u''" by code_simp
  then obtain c' where s: "create_session ''u'' ''t'' ''w'' [''b'', ''a'', ''b''] ''g'' ''me'' None ?c = Inr (''sess_u'', c')" by (auto split: sum.splits)
  have "list_all keeps_provenance two_datasets" by (simp add: keeps_provenance_def two_datasets_def)
  from session_reads_back [OF this refl s] have "map_option (\<lambda>(s, w, ds). ds) (get_session ''sess_u'' (Some ''me'') c') = Some (sort (remdups [''b'', ''a'', ''b'']))"
    by auto
  moreover have "sort (remdups [''b'', ''a'', ''b'']) = [''a'', ''b'']" by code_simp
  ultimately show ?thesis using s by auto
qed

end
