(* ===== verification/Admission_Properties.thy ===== *)
theory Admission_Properties imports Catalog_Properties begin

text \<open>
  A frozen manifest is final; an admission writes all of its rows, and its idempotency key answers with the first
  response for good.
\<close>

subsection \<open>Frozen manifests\<close>

definition sealed :: "db \<Rightarrow> string \<Rightarrow> string option \<Rightarrow> int \<Rightarrow> bool" where
  "sealed d rid m t \<longleftrightarrow> (\<exists>r. rev_of d rid = Some r \<and> rv_frozen_at r = Some t \<and> rv_manifest r = m)"

definition keeps_seal :: "string \<Rightarrow> db \<Rightarrow> db \<Rightarrow> bool" where
  "keeps_seal rid d d' \<longleftrightarrow> (\<forall>m t. sealed d rid m t \<longrightarrow> sealed d' rid m t \<and> manifest_chunks rid d' = manifest_chunks rid d)"

interpretation seals: handler_frame "keeps_seal rid" for rid
proof unfold_locales
  show "keeps_seal rid s s" for s by (simp add: keeps_seal_def)
  show "keeps_seal rid s t \<Longrightarrow> keeps_seal rid t u \<Longrightarrow> keeps_seal rid s u" for s t u unfolding keeps_seal_def by metis
qed

lemma keeps_seal_cong: "revs d' = revs d \<Longrightarrow> chunks d' = chunks d \<Longrightarrow> keeps_seal rid d d'"
  by (simp add: keeps_seal_def sealed_def rev_of_def manifest_chunks_def)

lemma keeps_seal_append: "keeps_seal rid d (d\<lparr>revs := revs d @ [v]\<rparr>)"
  by (auto simp: keeps_seal_def sealed_def rev_of_def manifest_chunks_def find_append)

lemma keeps_seal_document: "keeps_seal rid d (insert_document r d)"
  by (rule keeps_seal_cong) (simp_all add: insert_document_def)

lemma keeps_seal_draft: "keeps_seal rid d (insert_draft v d)"
  using keeps_seal_append seals.le_refl by (simp add: insert_draft_def)

lemma keeps_seal_chunk:
  assumes "\<And>m t. ch_revision h = rid \<Longrightarrow> sealed d rid m t \<Longrightarrow> chunk_of d (ch_id h) \<noteq> None"
  shows "keeps_seal rid d (insert_chunk h d)"
  unfolding keeps_seal_def
proof (intro allI impI)
  fix m t
  assume s: "sealed d rid m t"
  show "sealed (insert_chunk h d) rid m t \<and> manifest_chunks rid (insert_chunk h d) = manifest_chunks rid d"
  proof (cases "ch_revision h = rid")
    case True
    then obtain x where "chunk_of d (ch_id h) = Some x" using assms s by blast
    then have "x \<in> set (chunks d) \<and> ch_id x = ch_id h" unfolding chunk_of_def by (rule find_SomeD)
    then have "insert_chunk h d = d" by (auto simp: insert_chunk_def list_ex_iff)
    then show ?thesis using s by simp
  next
    case False
    then show ?thesis using s by (simp add: insert_chunk_def manifest_chunks_def sealed_def rev_of_def)
  qed
qed

lemma keeps_seal_blind:
  assumes "map blind (revs d') = map blind (revs d)" and "chunks d' = chunks d"
  shows "keeps_seal rid d d'"
proof -
  have f: "map_option blind (rev_of d' rid) = map_option blind (rev_of d rid)"
    unfolding rev_of_def by (rule blind_find [OF assms(1)])
  have eq: "rv_frozen_at r = rv_frozen_at (blind r) \<and> rv_manifest r = rv_manifest (blind r)" for r by (simp add: blind_def)
  have "sealed d' rid m t" if s: "sealed d rid m t" for m t
  proof -
    obtain r where r: "rev_of d rid = Some r" "rv_frozen_at r = Some t" "rv_manifest r = m" using s by (auto simp: sealed_def)
    then obtain r' where r': "rev_of d' rid = Some r'" "blind r' = blind r" using f by (cases "rev_of d' rid") auto
    then show ?thesis using r eq [of r] eq [of r'] by (simp add: sealed_def)
  qed
  then show ?thesis using assms(2) by (simp add: keeps_seal_def manifest_chunks_def)
qed

lemma keeps_seal_manifest:
  assumes "update_manifest dg now i fin d = Inr (h, d')"
  shows "keeps_seal rid d d'"
proof -
  let ?d1 = "d\<lparr>revs := sealing now i fin h (revs d)\<rparr>"
  note m = update_manifest_ok [OF assms]
  have "sealed ?d1 rid m t" if s: "sealed d rid m t" for m t
  proof -
    obtain r where r: "rev_of d rid = Some r" "rv_frozen_at r = Some t" "rv_manifest r = m" using s by (auto simp: sealed_def)
    have "rev_of ?d1 rid = Some r" using r(1,2) by (simp add: rev_of_def sealing_def table_simps)
    then show ?thesis using r by (simp add: sealed_def)
  qed
  then have "keeps_seal rid d ?d1" by (simp add: keeps_seal_def manifest_chunks_def)
  moreover have "keeps_seal rid ?d1 d'" using m strip_heads_sel(4) [OF m(2)] by (intro keeps_seal_blind) simp_all
  ultimately show ?thesis by (rule seals.le_trans)
qed

text \<open>The check before a chunk is written: the revision is open or the chunk is there.\<close>

lemma keeps_seal_write:
  assumes "\<And>r. rev_of d i = Some r \<Longrightarrow> finalized r \<Longrightarrow> chunk_of d2 (ch_id h) \<noteq> None" and "ch_revision h = i"
    and "d2 = insert_draft v (insert_document q d)"
  shows "keeps_seal rid d (insert_chunk h d2)"
proof -
  have d2: "keeps_seal rid d d2" unfolding assms(3) using keeps_seal_document keeps_seal_draft seals.le_trans by blast
  show ?thesis
  proof (cases "\<exists>m t. sealed d rid m t")
    case False
    then show ?thesis by (simp add: keeps_seal_def)
  next
    case True
    have "chunk_of d2 (ch_id h) \<noteq> None" if h: "ch_revision h = rid"
    proof -
      obtain r where "rev_of d i = Some r" "rv_frozen_at r \<noteq> None" using True h assms(2) by (auto simp: sealed_def)
      then show ?thesis using assms(1) by (simp add: finalized_def)
    qed
    then have "keeps_seal rid d2 (insert_chunk h d2)" by (intro keeps_seal_chunk)
    then show ?thesis by (rule seals.le_trans [OF d2])
  qed
qed

lemma keeps_seal_place:
  assumes "place_chunk env now w ds doc i ch pre d = Inr d'"
  shows "keeps_seal rid d d'"
proof (rule place_chunk_steps [OF assms])
  fix d2 h m
  assume d2: "d2 = insert_draft (draft i (wr_tenant w) doc (wr_number w) pre) (insert_document (fresh_document doc (wr_tenant w) ds None (wr_title w)) d)"
    and h: "h = \<lparr>ch_id = ch, ch_tenant = wr_tenant w, ch_dataset = ds, ch_revision = i, ch_ordinal = wr_ordinal w, ch_hash = ce_sha env (wr_content w), ch_source = wr_source w\<rparr>"
    and g: "\<And>r. rev_of d i = Some r \<Longrightarrow> finalized r \<Longrightarrow> chunk_of d2 ch \<noteq> None"
    and m: "update_manifest (ce_digest env) now i (wr_finalize w) (insert_chunk h d2) = Inr (m, d')"
  have "keeps_seal rid d (insert_chunk h d2)" by (rule keeps_seal_write [OF _ _ d2]) (use g in \<open>simp_all add: h\<close>)
  then show ?thesis using keeps_seal_manifest [OF m] by (rule seals.le_trans)
qed

lemma keeps_seal_chunk_tx:
  assumes "chunk_tx env now w ds doc i ch pre d = Inr (m, d')"
  shows "keeps_seal rid d d'"
proof -
  let ?d1 = "insert_document (fresh_document doc (cw_tenant w) ds (cw_ref w) (cw_title w)) d"
  let ?d2 = "insert_draft (draft i (cw_tenant w) doc (cw_number w) pre) ?d1"
  obtain d3 where d3: "put_chunk (chunk_row env w ds i ch) ?d2 = Inr d3"
    and c: "(case update_manifest (ce_digest env) now i (cw_finalize w) d3 of Inl e \<Rightarrow> Inl (Refused e) | Inr r \<Rightarrow> Inr r) = Inr (m, d')"
    and g: "\<not> (rev_of ?d1 i \<noteq> None \<and> finalized (the (rev_of ?d1 i)) \<and> chunk_of ?d2 ch = None)"
    using assms by (auto simp: chunk_tx_def Let_def bindE_Inr_iff split: if_splits)
  have m: "update_manifest (ce_digest env) now i (cw_finalize w) d3 = Inr (m, d')" using c by (simp split: sum.splits)
  have d3': "d3 = insert_chunk (chunk_row env w ds i ch) ?d2" using d3 by (simp add: put_chunk_def Let_def split: option.splits if_splits)
  have old: "rev_of ?d1 i = rev_of d i" by (simp add: insert_document_def rev_of_def)
  have "keeps_seal rid d d3" unfolding d3'
    by (rule keeps_seal_write [OF _ _ refl]) (use g old in \<open>auto simp: chunk_row_def\<close>)
  then show ?thesis using keeps_seal_manifest [OF m] by (rule seals.le_trans)
qed

definition keeps_frozen :: "string \<Rightarrow> catalog_call \<Rightarrow> bool" where
  "keeps_frozen rid x \<longleftrightarrow> (case x of Ledger f \<Rightarrow> (\<forall>d. keeps_seal rid d (f d)) | _ \<Rightarrow> True)"

lemma kept_seal: "(\<And>r c'. res = Inr (r, c') \<Longrightarrow> keeps_seal rid (core c) (core c')) \<Longrightarrow> keeps_seal rid (core c) (core (kept c res))"
  by (cases res) (auto simp: kept_def seals.le_refl)

lemma kept_same: "(\<And>r c'. res = Inr (r, c') \<Longrightarrow> core c' = core c) \<Longrightarrow> keeps_seal rid (core c) (core (kept c res))"
  by (cases res) (auto simp: kept_def seals.le_refl)

lemma keeps_seal_admit:
  assumes "admit_memory env now uu pol did qid w c = Inr (out, c')"
  shows "keeps_seal rid (core c) (core c')"
proof (rule admit_memory_cases [OF assms])
  fix ws ds meta a c1
  assume new: "admit_new env now uu pol did qid w meta ds (key_reserved w ds c) = Inr (a, c1)" and c': "c' = key_settled w ds a c1"
  have core: "core (key_reserved w ds c) = core c" "core c' = core c1" by (simp_all add: key_reserved_def c' key_settled_def complete_key_def)
  show "keeps_seal rid (core c) (core c')"
  proof (rule admit_new_steps [OF new])
    fix doc i ch pre c4 d d'
    assume o: "only_names (key_reserved w ds c) c4" and d: "place_chunk env now w ds doc i ch pre (core c4) = Inr d"
        "enqueue_write env now pol did qid w meta ds doc i ch d = Inr (a, d')" and c1: "c1 = c4\<lparr>core := d'\<rparr>"
    have "keeps_seal rid (core c) d" using keeps_seal_place [OF d(1)] only_names_fields(1) [OF o] core by simp
    moreover have "keeps_seal rid d d'" by (rule keeps_seal_cong [OF enqueue_write_frame(2,3) [OF d(2)]])
    ultimately have "keeps_seal rid (core c) d'" by (rule seals.le_trans)
    then show ?thesis by (simp add: core c1)
  qed
next
  fix ds r
  assume "c' = c"
  then show "keeps_seal rid (core c) (core c')" by (simp add: seals.le_refl)
qed

lemma call_seal:
  assumes "keeps_frozen rid x"
  shows "keeps_seal rid (core c) (core (after_catalog_call env c x))"
proof (cases x)
  case (Create_Workspace uu t x n)
  have "core c' = core c" if op: "create_workspace uu t x n c = Inr (r, c')" for r c'
    by (rule create_workspace_steps [OF op], drule only_names_fields(1)) simp
  then show ?thesis unfolding Create_Workspace after_catalog_call.simps by (rule kept_same)
next
  case (Ensure_Scope uu t x y n m)
  have "core c' = core c" if op: "ensure_scope uu t x y n m c = Inr (r, c')" for r c'
    by (rule ensure_scope_steps [OF op], drule only_names_fields(1)) simp
  then show ?thesis unfolding Ensure_Scope after_catalog_call.simps by (rule kept_same)
next
  case (Create_Document uu t x y title ref)
  have "keeps_seal rid (core c) (core c')" if op: "create_document uu t x y title ref c = Inr (r, c')" for r c'
    by (rule create_document_steps [OF op], drule only_names_fields(1)) (simp add: keeps_seal_document)
  then show ?thesis unfolding Create_Document after_catalog_call.simps by (rule kept_seal)
next
  case (Create_Revision uu t x y z n h pred)
  have "keeps_seal rid (core c) (core c')" if op: "create_named_revision uu t x y z n h pred c = Inr (r, c')" for r c'
  proof (rule create_revision_steps [OF op])
    fix ds doc i pre c4 r0 d
    assume o: "only_names c c4" and d: "create_revision t ds doc i n h pre (core c4) = Inr (r0, d)" and c': "c' = c4\<lparr>core := d\<rparr>"
    have "d = core c \<or> (\<exists>v. d = (core c)\<lparr>revs := revs (core c) @ [v]\<rparr>)"
      using d only_names_fields(1) [OF o] by (auto simp: create_revision_def Let_def split: if_splits option.splits)
    then show "keeps_seal rid (core c) (core c')" unfolding c' using keeps_seal_append seals.le_refl by auto
  qed
  then show ?thesis unfolding Create_Revision after_catalog_call.simps by (rule kept_seal)
next
  case (Create_Chunk now uu w)
  have "keeps_seal rid (core c) (core c')" if op: "create_source_chunk env now uu w c = Inr (r, c')" for r c'
    by (rule create_chunk_steps [OF op], drule only_names_fields(1), drule keeps_seal_chunk_tx [where rid = rid]) simp
  then show ?thesis unfolding Create_Chunk after_catalog_call.simps by (rule kept_seal)
next
  case (Create_Session u t x ys agent who sid)
  have "core c' = core c" if "create_session u t x ys agent who sid c = Inr (r, c')" for r c'
    using that by (auto simp: create_session_def bindE_Inr_iff Let_def split: if_splits)
  then show ?thesis unfolding Create_Session after_catalog_call.simps by (rule kept_same)
next
  case (End_Session i)
  then show ?thesis by (simp add: end_session_def seals.le_refl)
next
  case (Admit now uu pol did qid w)
  then show ?thesis using kept_seal [OF keeps_seal_admit] by simp
next
  case (Ledger f)
  then show ?thesis using assms by (simp add: keeps_frozen_def)
qed

lemma calls_seal: "list_all (keeps_frozen rid) xs \<Longrightarrow> keeps_seal rid (core c) (core (foldl (after_catalog_call env) c xs))"
proof (induction xs arbitrary: c)
  case (Cons x xs)
  then show ?case using seals.le_trans [OF call_seal Cons.IH] by simp
qed (simp add: seals.le_refl)

text \<open>
  C34. Once the manifest of a revision is frozen, no later catalog call adds a chunk to it or changes its hash.
\<close>

theorem frozen_manifest_is_final:
  assumes "rev_of (core c) rid = Some r" and "rv_frozen_at r = Some t" and "list_all (keeps_frozen rid) xs"
    and "foldl (after_catalog_call env) c xs = c'"
  shows "manifest_chunks rid (core c') = manifest_chunks rid (core c) \<and>
    map_option (\<lambda>r'. (rv_manifest r', rv_frozen_at r')) (rev_of (core c') rid) = Some (rv_manifest r, Some t)"
proof -
  have "sealed (core c) rid (rv_manifest r) t" using assms(1,2) by (simp add: sealed_def)
  moreover have "keeps_seal rid (core c) (core c')" using calls_seal [OF assms(3), of c env] assms(4) by simp
  ultimately have "sealed (core c') rid (rv_manifest r) t \<and> manifest_chunks rid (core c') = manifest_chunks rid (core c)"
    unfolding keeps_seal_def by blast
  then show ?thesis by (auto simp: sealed_def)
qed

definition frozen_catalog :: catalog where
  "frozen_catalog = foldl (after_catalog_call plain_env) no_catalog (two_datasets @ [Create_Chunk 5 (\<lambda>_. ''1'')
     \<lparr>cw_tenant = ''t'', cw_dataset = ''a'', cw_document = ''d'', cw_revision = ''r'', cw_chunk = ''c'', cw_title = ''n'', cw_content = ''x'',
      cw_source = ''u'', cw_number = 1, cw_ordinal = 0, cw_ref = None, cw_supersedes = None, cw_finalize = True\<rparr>])"

lemma frozen_catalog_core:
  "core frozen_catalog = insert_chunk \<lparr>ch_id = ''mesa-chunk-1'', ch_tenant = ''t'', ch_dataset = ''mesa-dataset-1'', ch_revision = ''mesa-revision-1'', ch_ordinal = 0, ch_hash = ''x'', ch_source = ''u''\<rparr>
     (insert_draft ((draft ''mesa-revision-1'' ''t'' ''mesa-document-1'' 1 None)\<lparr>rv_manifest := Some ''x'', rv_frozen_at := Some 5\<rparr>)
       (insert_document (fresh_document ''mesa-document-1'' ''t'' ''mesa-dataset-1'' None ''n'') empty_db))"
  by (simp add: frozen_catalog_def two_datasets_value create_source_chunk_def chunk_tx_def chunk_row_def put_chunk_def payload_ok_def admission_eval catalog_eval cong: bindE_weak let_weak_cong)
lemma frozen_manifest_is_final_witness:
  "length (manifest_chunks ''mesa-revision-1'' (core (foldl (after_catalog_call plain_env) frozen_catalog
    [Admit 6 (\<lambda>_. ''2'') default_policy ''j2'' ''q2'' ((memo ''a'' ''d'' ''c2'' 1)\<lparr>wr_key := Some ''k2''\<rparr>)]))) = 1"
proof -
  have "map_option rv_frozen_at (rev_of (core frozen_catalog) ''mesa-revision-1'') = Some (Some 5)"
    by (simp add: frozen_catalog_core rev_of_def insert_chunk_def insert_draft_def draft_def insert_document_def empty_db_def)
  then obtain r where r: "rev_of (core frozen_catalog) ''mesa-revision-1'' = Some r" "rv_frozen_at r = Some 5" by auto
  have "list_all (keeps_frozen ''mesa-revision-1'') [Admit 6 (\<lambda>_. ''2'') default_policy ''j2'' ''q2'' ((memo ''a'' ''d'' ''c2'' 1)\<lparr>wr_key := Some ''k2''\<rparr>)]"
    by (simp add: keeps_frozen_def)
  from frozen_manifest_is_final [OF r this refl, of plain_env]
  have "manifest_chunks ''mesa-revision-1'' (core (foldl (after_catalog_call plain_env) frozen_catalog
    [Admit 6 (\<lambda>_. ''2'') default_policy ''j2'' ''q2'' ((memo ''a'' ''d'' ''c2'' 1)\<lparr>wr_key := Some ''k2''\<rparr>)])) = manifest_chunks ''mesa-revision-1'' (core frozen_catalog)" by blast
  moreover have "length (manifest_chunks ''mesa-revision-1'' (core frozen_catalog)) = 1"
    by (simp add: frozen_catalog_core manifest_chunks_def insert_chunk_def insert_draft_def insert_document_def empty_db_def)
  ultimately show ?thesis by simp
qed

subsection \<open>Idempotency keys\<close>

text \<open>A receipt with a response never changes.\<close>

definition answered :: "catalog \<Rightarrow> receipt_key \<Rightarrow> idem_receipt \<Rightarrow> bool" where
  "answered c k r \<longleftrightarrow> receipt_of c k = Some r \<and> idr_response r \<noteq> None"

lemma receipt_append: "receipt_of (c\<lparr>idems := idems c @ [r]\<rparr>) k = (case receipt_of c k of None \<Rightarrow> if idr_key r = k then Some r else None | Some x \<Rightarrow> Some x)"
  by (auto simp: receipt_of_def find_append split: option.split)

lemma receipt_complete: "receipt_of (complete_key k0 a c) k =
    map_option (\<lambda>r. if idr_key r = k0 then r\<lparr>idr_response := Some a\<rparr> else r) (receipt_of c k)"
  by (simp add: receipt_of_def complete_key_def table_simps)

lemma receipt_cong: "idems c' = idems c \<Longrightarrow> receipt_of c' = receipt_of c"
  by (simp add: receipt_of_def fun_eq_iff)

lemma admit_new_idems: "admit_new env now uu pol did qid w meta ds c = Inr (a, c') \<Longrightarrow> idems c' = idems c"
  by (erule admit_new_steps, drule only_names_fields(7)) simp

lemma fresh_receipt:
  assumes "admit_new env now uu pol did qid w meta ds (key_reserved w ds c) = Inr (a, c1)" and "wr_key w \<noteq> None"
    and "receipt_of c (write_key w ds) = None"
  shows "receipt_of (key_settled w ds a c1) k =
    (if k = write_key w ds then Some \<lparr>idr_key = write_key w ds, idr_hash = the (wr_hash w), idr_response = Some a\<rparr> else receipt_of c k)"
proof -
  have "receipt_of c1 k = receipt_of (key_reserved w ds c) k" using receipt_cong [OF admit_new_idems [OF assms(1)]] by simp
  moreover have "receipt_of (key_reserved w ds c) k = (case receipt_of c k of None \<Rightarrow>
      if write_key w ds = k then Some \<lparr>idr_key = write_key w ds, idr_hash = the (wr_hash w), idr_response = None\<rparr> else None | Some x \<Rightarrow> Some x)"
    unfolding key_reserved_def if_not_P [OF assms(2)] receipt_append by simp
  moreover have "idr_key r = k" if "receipt_of c k = Some r" for r using find_SomeD [OF that [unfolded receipt_of_def]] by simp
  moreover have "receipt_of (key_settled w ds a c1) k = map_option (\<lambda>r. if idr_key r = write_key w ds then r\<lparr>idr_response := Some a\<rparr> else r) (receipt_of c1 k)"
    unfolding key_settled_def if_not_P [OF assms(2)] by (rule receipt_complete)
  ultimately show ?thesis using assms(3) by (cases "receipt_of c k") auto
qed

lemma admit_answered:
  assumes "answered c k r" and "admit_memory env now uu pol did qid w c = Inr (out, c')"
  shows "answered c' k r"
proof (rule admit_memory_cases [OF assms(2)])
  fix ws ds meta a c1
  assume free: "wr_key w = None \<or> receipt_of c (write_key w ds) = None"
    and new: "admit_new env now uu pol did qid w meta ds (key_reserved w ds c) = Inr (a, c1)" and c': "c' = key_settled w ds a c1"
  show "answered c' k r"
  proof (cases "wr_key w")
    case None
    then have "idems c' = idems c" using admit_new_idems [OF new] by (simp add: c' key_settled_def key_reserved_def)
    from receipt_cong [OF this] show ?thesis using assms(1) by (simp add: answered_def)
  next
    case (Some key)
    then have "receipt_of c' k = (if k = write_key w ds then Some \<lparr>idr_key = write_key w ds, idr_hash = the (wr_hash w), idr_response = Some a\<rparr> else receipt_of c k)"
      using fresh_receipt [OF new] free by (simp add: c')
    then show ?thesis using assms(1) free Some by (auto simp: answered_def)
  qed
next
  fix ds r'
  assume "c' = c"
  then show "answered c' k r" using assms(1) by simp
qed

definition is_admission :: "catalog_call \<Rightarrow> bool" where
  "is_admission x \<longleftrightarrow> (case x of Admit _ _ _ _ _ _ \<Rightarrow> True | _ \<Rightarrow> False)"

lemma kept_idems: "(\<And>r c'. res = Inr (r, c') \<Longrightarrow> idems c' = idems c) \<Longrightarrow> idems (kept c res) = idems c"
  by (cases res) (auto simp: kept_def)

lemma call_idems:
  assumes "\<not> is_admission x"
  shows "idems (after_catalog_call env c x) = idems c"
proof (cases x)
  case (Create_Workspace uu t x n)
  have "idems c' = idems c" if op: "create_workspace uu t x n c = Inr (r, c')" for r c'
    by (rule create_workspace_steps [OF op], drule only_names_fields(7)) simp
  then show ?thesis unfolding Create_Workspace after_catalog_call.simps by (rule kept_idems)
next
  case (Ensure_Scope uu t x y n m)
  have "idems c' = idems c" if op: "ensure_scope uu t x y n m c = Inr (r, c')" for r c'
    by (rule ensure_scope_steps [OF op], drule only_names_fields(7)) simp
  then show ?thesis unfolding Ensure_Scope after_catalog_call.simps by (rule kept_idems)
next
  case (Create_Document uu t x y title ref)
  have "idems c' = idems c" if op: "create_document uu t x y title ref c = Inr (r, c')" for r c'
    by (rule create_document_steps [OF op], drule only_names_fields(7)) simp
  then show ?thesis unfolding Create_Document after_catalog_call.simps by (rule kept_idems)
next
  case (Create_Revision uu t x y z n h pred)
  have "idems c' = idems c" if op: "create_named_revision uu t x y z n h pred c = Inr (r, c')" for r c'
    by (rule create_revision_steps [OF op], drule only_names_fields(7)) simp
  then show ?thesis unfolding Create_Revision after_catalog_call.simps by (rule kept_idems)
next
  case (Create_Chunk now uu w)
  have "idems c' = idems c" if op: "create_source_chunk env now uu w c = Inr (r, c')" for r c'
    by (rule create_chunk_steps [OF op], drule only_names_fields(7)) simp
  then show ?thesis unfolding Create_Chunk after_catalog_call.simps by (rule kept_idems)
next
  case (Create_Session u t x ys agent who sid)
  have "idems c' = idems c" if "create_session u t x ys agent who sid c = Inr (r, c')" for r c'
    using that by (auto simp: create_session_def bindE_Inr_iff Let_def split: if_splits)
  then show ?thesis unfolding Create_Session after_catalog_call.simps by (rule kept_idems)
next
  case (End_Session i)
  then show ?thesis by (simp add: end_session_def)
next
  case (Admit now uu pol did qid w)
  then show ?thesis using assms by (simp add: is_admission_def)
next
  case (Ledger f)
  then show ?thesis by simp
qed

lemma call_answered:
  assumes "answered c k r"
  shows "answered (after_catalog_call env c x) k r"
proof (cases "is_admission x")
  case False
  from receipt_cong [OF call_idems [OF this]] show ?thesis using assms by (simp add: answered_def)
next
  case True
  then obtain now uu pol did qid w where x: "x = Admit now uu pol did qid w" by (cases x) (simp_all add: is_admission_def)
  show ?thesis unfolding x after_catalog_call.simps
    using assms admit_answered [OF assms, of env now uu pol did qid w] by (cases "admit_memory env now uu pol did qid w c") (auto simp: kept_def)
qed

lemma calls_answered: "answered c k r \<Longrightarrow> answered (foldl (after_catalog_call env) c xs) k r"
  by (induction xs arbitrary: c) (simp_all add: call_answered)

text \<open>The checks of an admission before its key is looked up.\<close>

definition addressed :: "catalog_env \<Rightarrow> memory_write \<Rightarrow> catalog \<Rightarrow> bool" where
  "addressed env w c \<longleftrightarrow> valid_agent (wr_agent w) \<and>
    [] \<notin> {wr_tenant w, wr_workspace w, wr_dataset w, wr_session w, wr_document w, wr_revision w, wr_chunk w, wr_title w, wr_content w, wr_source w} \<and>
    (wr_key w = None) = (wr_hash w = None) \<and> \<not> (wr_provider w = [] \<or> wr_model w = [] \<or> wr_version w = [] \<or> wr_dimension w < 1) \<and>
    \<not> isl (effective_metadata env w) \<and> map_of (names c) (wr_tenant w, Workspace_Id, wr_workspace w) \<noteq> None"

lemma resolve_id_unknown: "map_of (names c) (t, k, x) = None \<Longrightarrow> isl (resolve_id t k x None c)"
  by (simp add: resolve_id_def)

lemma keyed_answer:
  assumes "map_of (names c) (wr_tenant w, Dataset_Id, wr_dataset w) = Some ds" and "wr_key w = Some key"
    and "receipt_of c (wr_tenant w, wr_agent w, ds, key) = Some \<lparr>idr_key = k0, idr_hash = h0, idr_response = Some a\<rparr>"
  shows "if addressed env w c
    then admit_memory env now uu pol did qid w c = (if wr_hash w = Some h0 then Inr (Duplicate a, c) else Inl Key_Mismatch)
    else isl (admit_memory env now uu pol did qid w c)"
proof (cases "addressed env w c")
  case True
  obtain meta where meta: "effective_metadata env w = Inr meta"
    using True by (cases "effective_metadata env w") (auto simp: addressed_def)
  obtain ws where ws: "map_of (names c) (wr_tenant w, Workspace_Id, wr_workspace w) = Some ws"
    using True by (auto simp: addressed_def)
  have "admission_tx env now uu pol did qid w meta c = (if the (wr_hash w) = h0 then Inr (Duplicate a, c) else Inl Key_Mismatch)"
    using assms ws by (simp add: admission_tx_def resolve_id_known reserve_key_def)
  moreover have "wr_hash w \<noteq> None" using True assms(2) by (auto simp: addressed_def)
  ultimately show ?thesis using True meta assms(2) by (auto simp: admit_memory_def addressed_def as_unavailable_def)
next
  case False
  have "isl (admit_memory env now uu pol did qid w c)"
  proof (rule ccontr)
    assume "\<not> isl (admit_memory env now uu pol did qid w c)"
    then obtain out c' where op: "admit_memory env now uu pol did qid w c = Inr (out, c')"
      by (cases "admit_memory env now uu pol did qid w c") auto
    obtain meta where meta: "effective_metadata env w = Inr meta"
      using op by (cases "effective_metadata env w") (auto simp: admit_memory_def split: if_splits)
    have tx: "\<not> isl (admission_tx env now uu pol did qid w meta c)"
      using op meta by (cases "admission_tx env now uu pol did qid w meta c") (auto simp: admit_memory_def split: if_splits)
    have "map_of (names c) (wr_tenant w, Workspace_Id, wr_workspace w) \<noteq> None"
    proof
      assume "map_of (names c) (wr_tenant w, Workspace_Id, wr_workspace w) = None"
      then have "isl (resolve_id (wr_tenant w) Workspace_Id (wr_workspace w) None c)" by (rule resolve_id_unknown)
      then show False using tx by (auto simp: admission_tx_def isl_def)
    qed
    moreover have "valid_agent (wr_agent w)" "(wr_key w = None) = (wr_hash w = None)"
      "[] \<notin> {wr_tenant w, wr_workspace w, wr_dataset w, wr_session w, wr_document w, wr_revision w, wr_chunk w, wr_title w, wr_content w, wr_source w}"
      "\<not> (wr_provider w = [] \<or> wr_model w = [] \<or> wr_version w = [] \<or> wr_dimension w < 1)"
      using op by (simp_all add: admit_memory_def split: if_splits)
    ultimately show False using False meta by (simp add: addressed_def)
  qed
  then show ?thesis using False by simp
qed

lemma admitted_addressed: "admit_memory env now uu pol did qid w c = Inr (out, c') \<Longrightarrow> addressed env w c"
  by (rule admit_memory_cases, assumption) (auto simp: addressed_def admit_memory_def bindE_Inr_iff admission_tx_def resolve_id_def split: if_splits option.splits sum.splits)

lemma addressed_extends: "addressed env w c \<Longrightarrow> extends c c' \<Longrightarrow> addressed env w c'"
  unfolding addressed_def using extends_lookup by fastforce

text \<open>
  C30. A write admitted under an idempotency key is admitted once: after any other calls, the same write is answered with
  the first response and changes nothing, and so is every write of the tenant and the agent into the dataset under that
  key with the same payload hash; one with another hash, whatever document, chunk or content it names, is refused.
\<close>

theorem admission_happens_once:
  assumes "admit_memory env now uu pol did qid w c = Inr (Admitted a, c1)" and "wr_key w = Some key" and "wr_hash w = Some h0"
    and "foldl (after_catalog_call env) c1 xs = c2"
    and "wr_tenant w' = wr_tenant w" and "wr_agent w' = wr_agent w" and "wr_dataset w' = wr_dataset w" and "wr_key w' = Some key"
  shows "admit_memory env now' uu' pol' did' qid' w c2 = Inr (Duplicate a, c2) \<and>
    (if addressed env w' c2
     then admit_memory env now' uu' pol' did' qid' w' c2 = (if wr_hash w' = Some h0 then Inr (Duplicate a, c2) else Inl Key_Mismatch)
     else isl (admit_memory env now' uu' pol' did' qid' w' c2))"
proof (rule admit_memory_cases [OF assms(1)])
  fix ws ds meta a' c1'
  assume n: "map_of (names c) (wr_tenant w, Dataset_Id, wr_dataset w) = Some ds"
    and free: "wr_key w = None \<or> receipt_of c (write_key w ds) = None"
    and new: "admit_new env now uu pol did qid w meta ds (key_reserved w ds c) = Inr (a', c1')" "Admitted a = Admitted a'" "c1 = key_settled w ds a' c1'"
  have "receipt_of c1 (write_key w ds) = Some \<lparr>idr_key = write_key w ds, idr_hash = h0, idr_response = Some a\<rparr>"
    using fresh_receipt [OF new(1), of "write_key w ds"] free assms(2,3) new(2,3) by simp
  then have "answered c1 (write_key w ds) \<lparr>idr_key = write_key w ds, idr_hash = h0, idr_response = Some a\<rparr>" by (simp add: answered_def)
  then have "answered c2 (write_key w ds) \<lparr>idr_key = write_key w ds, idr_hash = h0, idr_response = Some a\<rparr>"
    using calls_answered [of c1 _ _ env xs] assms(4) by blast
  then have r: "receipt_of c2 (wr_tenant w, wr_agent w, ds, key) = Some \<lparr>idr_key = write_key w ds, idr_hash = h0, idr_response = Some a\<rparr>"
    using assms(2) by (simp add: answered_def write_key_def)
  have e: "extends c c2" using admit_extends [OF assms(1)] calls_extend [of c1 env xs] assms(4) growth.le_trans by blast
  have ds: "map_of (names c2) (wr_tenant w, Dataset_Id, wr_dataset w) = Some ds" by (rule extends_lookup [OF e n])
  have "addressed env w c2" by (rule addressed_extends [OF admitted_addressed [OF assms(1)] e])
  with keyed_answer [OF ds assms(2) r] assms(3) have "admit_memory env now' uu' pol' did' qid' w c2 = Inr (Duplicate a, c2)" by simp
  then show ?thesis using keyed_answer [of c2 w' ds key, OF _ assms(8)] ds r assms(5-7) by simp
next
  fix ds r
  assume "Admitted a = (case idr_response r of None \<Rightarrow> In_Progress | Some a \<Rightarrow> Duplicate a)"
  then show ?thesis by (simp split: option.splits)
qed

text \<open>The same write, and one that puts another document and chunk under the key.\<close>

lemma admission_happens_once_witness:
  "\<exists>a c1. admit_memory plain_env 5 (\<lambda>_. ''1'') default_policy ''j'' ''q'' (memo ''a'' ''d'' ''c'' 0) (foldl (after_catalog_call plain_env) no_catalog two_datasets) = Inr (Admitted a, c1) \<and>
    admit_memory plain_env 9 (\<lambda>_. ''9'') default_policy ''j9'' ''q9'' (memo ''a'' ''d'' ''c'' 0) (foldl (after_catalog_call plain_env) c1 two_datasets) =
      Inr (Duplicate a, foldl (after_catalog_call plain_env) c1 two_datasets) \<and>
    \<not> was_admitted (admit_memory plain_env 9 (\<lambda>_. ''9'') default_policy ''j9'' ''q9'' ((memo ''a'' ''e'' ''f'' 0)\<lparr>wr_hash := Some ''i''\<rparr>)
      (foldl (after_catalog_call plain_env) c1 two_datasets))"
proof -
  let ?c = "foldl (after_catalog_call plain_env) no_catalog two_datasets"
  obtain a c1 where a: "admit_memory plain_env 5 (\<lambda>_. ''1'') default_policy ''j'' ''q'' (memo ''a'' ''d'' ''c'' 0) ?c = Inr (Admitted a, c1)"
    using memo_admitted by (rule was_admittedE)
  let ?w = "(memo ''a'' ''e'' ''f'' 0)\<lparr>wr_hash := Some ''i''\<rparr>"
  let ?again = "\<lambda>w. admit_memory plain_env 9 (\<lambda>_. ''9'') default_policy ''j9'' ''q9'' w (foldl (after_catalog_call plain_env) c1 two_datasets)"
  have k: "wr_key (memo ''a'' ''d'' ''c'' 0) = Some ''k''" "wr_hash (memo ''a'' ''d'' ''c'' 0) = Some ''h''" by (simp_all add: memo_def)
  have "?again (memo ''a'' ''d'' ''c'' 0) = Inr (Duplicate a, foldl (after_catalog_call plain_env) c1 two_datasets) \<and>
      (?again ?w = Inl Key_Mismatch \<or> isl (?again ?w))"
    using admission_happens_once [OF a k refl, of ?w 9 "\<lambda>_. ''9''" default_policy "''j9''" "''q9''" two_datasets]
    by (simp add: k split: if_splits)
  then show ?thesis using a by (auto simp: was_admitted_def isl_def)
qed

text \<open>No receipt is ever left without a response.\<close>

definition all_answered :: "catalog \<Rightarrow> bool" where
  "all_answered c \<longleftrightarrow> list_all (\<lambda>r. idr_response r \<noteq> None) (idems c)"

lemma call_all_answered: "all_answered c \<Longrightarrow> all_answered (after_catalog_call env c x)"
proof (cases "is_admission x")
  case False
  assume "all_answered c"
  then show ?thesis using call_idems [OF False] by (simp add: all_answered_def)
next
  case True
  assume ok: "all_answered c"
  obtain now uu pol did qid w where x: "x = Admit now uu pol did qid w" using True by (cases x) (simp_all add: is_admission_def)
  have "all_answered c'" if op: "admit_memory env now uu pol did qid w c = Inr (out, c')" for out c'
  proof (rule admit_memory_cases [OF op])
    fix ws ds meta a c1
    assume new: "admit_new env now uu pol did qid w meta ds (key_reserved w ds c) = Inr (a, c1)" and c': "c' = key_settled w ds a c1"
    show "all_answered c'" using ok admit_new_idems [OF new] unfolding c'
      by (auto simp: all_answered_def key_settled_def key_reserved_def complete_key_def list_all_iff set_upd split: if_splits)
  next
    fix ds r
    assume "c' = c"
    then show "all_answered c'" using ok by simp
  qed
  then show ?thesis unfolding x after_catalog_call.simps using ok by (cases "admit_memory env now uu pol did qid w c") (auto simp: kept_def)
qed

lemma calls_all_answered: "all_answered c \<Longrightarrow> all_answered (foldl (after_catalog_call env) c xs)"
  by (induction xs arbitrary: c) (simp_all add: call_all_answered)

text \<open>
  C32. No history leaves an idempotency key in progress, so an admission never answers that its key is in progress.
\<close>

theorem no_key_is_stranded:
  "map_option fst (case admit_memory env now uu pol did qid w (foldl (after_catalog_call env) no_catalog xs) of Inl _ \<Rightarrow> None | Inr r \<Rightarrow> Some r) \<noteq> Some In_Progress"
proof -
  let ?c = "foldl (after_catalog_call env) no_catalog xs"
  have ok: "all_answered ?c" by (rule calls_all_answered) (simp add: all_answered_def no_catalog_def)
  have "out \<noteq> In_Progress" if op: "admit_memory env now uu pol did qid w ?c = Inr (out, c')" for out c'
  proof (rule admit_memory_cases [OF op])
    fix ds r
    assume r: "receipt_of ?c (write_key w ds) = Some r" and out: "out = (case idr_response r of None \<Rightarrow> In_Progress | Some a \<Rightarrow> Duplicate a)"
    have "r \<in> set (idems ?c)" using find_SomeD [OF r [unfolded receipt_of_def]] by simp
    then have "idr_response r \<noteq> None" using ok by (simp add: all_answered_def list_all_iff)
    then show "out \<noteq> In_Progress" unfolding out by auto
  qed simp
  then show ?thesis by (cases "admit_memory env now uu pol did qid w ?c") auto
qed

subsection \<open>The rows of an admission\<close>

definition blocked_lane :: "int \<Rightarrow> string \<Rightarrow> lane \<Rightarrow> outbox" where
  "blocked_lane now mid l = \<lparr>ob_id = projection_id mid l, ob_mutation = mid, ob_lane = l, ob_state = O_BLOCKED_VALIDATION, ob_attempts = 0,
     ob_limit = 5, ob_token = None, ob_by = None, ob_lease = None, ob_error = None, ob_created = now\<rparr>"

lemma insert_outbox_new:
  assumes "\<forall>p \<in> set (outboxes d). ob_id p \<noteq> projection_id mid l \<and> \<not> (ob_mutation p = mid \<and> ob_lane p = l)"
  shows "insert_outbox now mid l d = d\<lparr>outboxes := outboxes d @ [blocked_lane now mid l]\<rparr>"
  using assms by (auto simp: insert_outbox_def blocked_lane_def list_ex_iff)

lemma insert_lanes_new:
  assumes "\<forall>p \<in> set (outboxes d). ob_mutation p \<noteq> mid \<and> ob_id p \<notin> {projection_id mid SQL, projection_id mid VECTOR, projection_id mid GRAPH}"
  shows "fold (insert_outbox now mid) [SQL, VECTOR, GRAPH] d = d\<lparr>outboxes := outboxes d @ map (blocked_lane now mid) [SQL, VECTOR, GRAPH]\<rparr>"
proof -
  have ids: "projection_id mid SQL \<noteq> projection_id mid VECTOR" "projection_id mid SQL \<noteq> projection_id mid GRAPH" "projection_id mid VECTOR \<noteq> projection_id mid GRAPH"
    by (simp_all add: projection_id_def)
  show ?thesis using assms ids by (simp add: insert_outbox_new) (auto simp: insert_outbox_new blocked_lane_def)
qed

lemma insert_ledger_new:
  assumes "\<not> ledger_clash c d"
  shows "runs (insert_ledger now c d) = runs d @ [\<lparr>rn_id = ca_run c, rn_agent = ca_agent c, rn_state = P_QUEUED, rn_failure = None\<rparr>]"
    and "muts (insert_ledger now c d) = muts d @ [received c]"
    and "outboxes (insert_ledger now c d) = outboxes d @ map (blocked_lane now (ca_mutation c)) [SQL, VECTOR, GRAPH]"
    and "queue (insert_ledger now c d) = queue d"
proof -
  let ?d1 = "insert_mutation (received c) (insert_admission (ca_run c) (insert_run (ca_run c) (ca_agent c) d))"
  have d1: "runs ?d1 = runs d @ [\<lparr>rn_id = ca_run c, rn_agent = ca_agent c, rn_state = P_QUEUED, rn_failure = None\<rparr>]"
    "muts ?d1 = muts d @ [received c]" "outboxes ?d1 = outboxes d" "queue ?d1 = queue d"
    using assms by (auto simp: ledger_clash_def insert_mutation_def insert_admission_def insert_run_def received_def list_ex_iff)
  have "insert_ledger now c d = ?d1\<lparr>outboxes := outboxes ?d1 @ map (blocked_lane now (ca_mutation c)) [SQL, VECTOR, GRAPH]\<rparr>"
    unfolding insert_ledger_def by (rule insert_lanes_new) (use assms d1(3) in \<open>auto simp: ledger_clash_def list_ex_iff\<close>)
  then show "runs (insert_ledger now c d) = runs d @ [\<lparr>rn_id = ca_run c, rn_agent = ca_agent c, rn_state = P_QUEUED, rn_failure = None\<rparr>]"
    and "muts (insert_ledger now c d) = muts d @ [received c]"
    and "outboxes (insert_ledger now c d) = outboxes d @ map (blocked_lane now (ca_mutation c)) [SQL, VECTOR, GRAPH]"
    and "queue (insert_ledger now c d) = queue d"
    using d1 by simp_all
qed

lemma find_fresh: "list_all (\<lambda>r. \<not> P r) xs \<Longrightarrow> find P (xs @ ys) = find P ys"
  by (induction xs) auto

text \<open>The limits of the policy, for all queued records and for those of one tenant.\<close>

definition within_limits :: "policy \<Rightarrow> string \<Rightarrow> queue_row list \<Rightarrow> bool" where
  "within_limits pol tenant t \<longleftrightarrow>
    (let g = queue_usage None t; u = queue_usage (Some tenant) t in
     us_records g \<le> po_records pol \<and> us_bytes g \<le> po_bytes pol \<and> us_in_flight g < po_in_flight pol \<and> us_retry g < po_retry pol \<and>
     us_records u \<le> po_tenant_records pol \<and> us_bytes u \<le> po_tenant_bytes pol \<and> us_in_flight u < po_tenant_in_flight pol \<and>
     us_retry u < po_tenant_retry pol)"

lemma capacity_granted:
  assumes "enforce_capacity (queue_usage None t) (queue_usage (Some tenant) t) n pol = Inr u"
  shows "n \<le> po_single pol"
    and "qu_state q = Q_ENQUEUED \<Longrightarrow> qu_bytes q = n \<Longrightarrow> within_limits pol tenant (t @ [q])"
proof -
  let ?g = "queue_usage None t" and ?t = "queue_usage (Some tenant) t"
  have l: "n \<le> po_single pol" "us_records ?g + 1 \<le> po_records pol" "us_bytes ?g + n \<le> po_bytes pol" "us_in_flight ?g < po_in_flight pol"
    "us_retry ?g < po_retry pol" "us_records ?t + 1 \<le> po_tenant_records pol" "us_bytes ?t + n \<le> po_tenant_bytes pol"
    "us_in_flight ?t < po_tenant_in_flight pol" "us_retry ?t < po_tenant_retry pol"
    using assms by (simp_all add: enforce_capacity_def capacity_checks_def split: if_splits)
  show "n \<le> po_single pol" by (rule l)
  assume q: "qu_state q = Q_ENQUEUED" "qu_bytes q = n"
  have "us_records (queue_usage x (t @ [q])) \<le> us_records (queue_usage x t) + 1" "us_bytes (queue_usage x (t @ [q])) \<le> us_bytes (queue_usage x t) + n"
    "us_in_flight (queue_usage x (t @ [q])) = us_in_flight (queue_usage x t)" "us_retry (queue_usage x (t @ [q])) = us_retry (queue_usage x t)" for x
    using q by (simp_all add: queue_usage_def rowcount_def)
  then show "within_limits pol tenant (t @ [q])" using l unfolding within_limits_def Let_def by (metis le_trans)
qed

text \<open>The ledger after an enqueued write.\<close>

lemma enqueued_rows:
  assumes "enqueue_write env now pol did qid w meta ds doc rid ch d = Inr (a, d')"
  shows "map_option (\<lambda>m. (mu_state m, mu_run m, mu_raw_log m, mu_tenant m, mu_agent m, mu_chunk m)) (mut_of d' (am_mutation a)) =
      Some (M_RECEIVED, Some (am_run a), Some (am_log a), wr_tenant w, wr_agent w, Some ch)"
    and "run_state_of d' (am_run a) = Some P_QUEUED"
    and "map (\<lambda>l. map_option ob_state (find (\<lambda>p. ob_mutation p = am_mutation a \<and> ob_lane p = l) (outboxes d'))) [SQL, VECTOR, GRAPH] = replicate 3 (Some O_BLOCKED_VALIDATION)"
    and "map_option (\<lambda>q. (qu_state q, qu_log q, qu_tenant q, qu_bytes q \<le> po_single pol)) (find (\<lambda>q. qu_id q = qid) (queue d')) =
      Some (Q_ENQUEUED, am_log a, wr_tenant w, True)"
    and "within_limits pol (wr_tenant w) (queue d')"
proof -
  obtain p i c where p: "p = write_payload env w meta" and i: "i = next_log_id d" and c: "c = admitted_candidate env w meta i ds doc rid ch"
    and cap: "enforce_capacity (queue_usage None (queue d)) (queue_usage (Some (wr_tenant w)) (queue d)) (pl_bytes p) pol = Inr ()"
    and q: "\<not> enqueue_conflict did qid d" and clash: "\<not> ledger_clash c (enqueue_log now did qid (wr_tenant w) (wr_agent w) p d)"
    and a: "a = response w i" and d': "d' = insert_ledger now c (enqueue_log now did qid (wr_tenant w) (wr_agent w) p d)"
    by (rule enqueue_write_steps [OF assms])
  let ?d = "enqueue_log now did qid (wr_tenant w) (wr_agent w) p d"
  have log: "am_log a = i" by (simp add: a response_def)
  have ca: "ca_mutation c = am_mutation a" "ca_run c = am_run a" "ca_raw_log c = Some i" "ca_tenant c = wr_tenant w" "ca_agent c = wr_agent w" "ca_chunk c = ch"
    by (simp_all add: c admitted_candidate_def a)
  note rows = insert_ledger_new [OF clash, of now, folded d']
  have "list_all (\<lambda>m. mu_id m \<noteq> am_mutation a) (muts ?d)" using clash by (auto simp: ledger_clash_def ca list_ex_iff list_all_iff)
  then show "map_option (\<lambda>m. (mu_state m, mu_run m, mu_raw_log m, mu_tenant m, mu_agent m, mu_chunk m)) (mut_of d' (am_mutation a)) =
      Some (M_RECEIVED, Some (am_run a), Some (am_log a), wr_tenant w, wr_agent w, Some ch)"
    by (simp add: mut_of_def rows(2) find_fresh received_def ca log)
  have "list_all (\<lambda>r. rn_id r \<noteq> am_run a) (runs ?d)" using clash by (auto simp: ledger_clash_def ca list_ex_iff list_all_iff)
  then show "run_state_of d' (am_run a) = Some P_QUEUED" by (simp add: run_state_of_def run_of_def rows(1) find_fresh ca)
  have "list_all (\<lambda>p. \<not> (ob_mutation p = am_mutation a \<and> ob_lane p = l)) (outboxes ?d)" for l
    using clash by (auto simp: ledger_clash_def ca list_ex_iff list_all_iff)
  then show "map (\<lambda>l. map_option ob_state (find (\<lambda>p. ob_mutation p = am_mutation a \<and> ob_lane p = l) (outboxes d'))) [SQL, VECTOR, GRAPH] = replicate 3 (Some O_BLOCKED_VALIDATION)"
    by (simp add: rows(3) find_fresh ca blocked_lane_def numeral_3_eq_3)
  have new: "queue d' = queue d @ [queued now did qid (wr_tenant w) (wr_agent w) i (pl_bytes p)]" by (simp add: rows(4) enqueue_log_def Let_def i)
  have "list_all (\<lambda>x. qu_id x \<noteq> qid) (queue d)" using q by (auto simp: enqueue_conflict_def list_ex_iff list_all_iff)
  then show "map_option (\<lambda>q. (qu_state q, qu_log q, qu_tenant q, qu_bytes q \<le> po_single pol)) (find (\<lambda>q. qu_id q = qid) (queue d')) =
      Some (Q_ENQUEUED, am_log a, wr_tenant w, True)"
    using capacity_granted(1) [OF cap] by (simp add: new find_fresh queued_def log)
  show "within_limits pol (wr_tenant w) (queue d')"
    unfolding new by (rule capacity_granted(2) [OF cap]) (simp_all add: queued_def)
qed

text \<open>
  C31. An admitted write is complete: its run is queued, its mutation received under the raw log with the three lanes
  blocked, the log enqueued for its tenant, of a size the policy takes, the queue within every limit of the policy (records,
  bytes, in flight and in retry, of all tenants and of this one), and the mutation names a chunk with the digest of the content.
\<close>

theorem admission_is_complete:
  assumes "admit_memory env now uu pol did qid w c = Inr (Admitted a, c')"
  shows "map_option (\<lambda>m. (mu_state m, mu_run m, mu_raw_log m, mu_tenant m, mu_agent m)) (mut_of (core c') (am_mutation a)) =
      Some (M_RECEIVED, Some (am_run a), Some (am_log a), wr_tenant w, wr_agent w) \<and>
    run_state_of (core c') (am_run a) = Some P_QUEUED \<and>
    map (\<lambda>l. map_option ob_state (find (\<lambda>p. ob_mutation p = am_mutation a \<and> ob_lane p = l) (outboxes (core c')))) [SQL, VECTOR, GRAPH] =
      replicate 3 (Some O_BLOCKED_VALIDATION) \<and>
    map_option (\<lambda>q. (qu_state q, qu_log q, qu_tenant q, qu_bytes q \<le> po_single pol)) (find (\<lambda>q. qu_id q = qid) (queue (core c'))) =
      Some (Q_ENQUEUED, am_log a, wr_tenant w, True) \<and>
    within_limits pol (wr_tenant w) (queue (core c')) \<and>
    map_option ch_hash (Option.bind (Option.bind (mut_of (core c') (am_mutation a)) mu_chunk) (chunk_of (core c'))) = Some (ce_sha env (wr_content w))"
proof (rule admit_memory_cases [OF assms])
  fix ws ds meta a' c1
  assume new: "admit_new env now uu pol did qid w meta ds (key_reserved w ds c) = Inr (a', c1)" and a': "Admitted a = Admitted a'" and c': "c' = key_settled w ds a' c1"
  have core: "core c' = core c1" by (simp add: c' key_settled_def complete_key_def)
  have new': "admit_new env now uu pol did qid w meta ds (key_reserved w ds c) = Inr (a, c1)" using new a' by simp
  obtain doc rid ch pre c4 d d' where d: "place_chunk env now w ds doc rid ch pre (core c4) = Inr d"
      "enqueue_write env now pol did qid w meta ds doc rid ch d = Inr (a, d')" and c1: "c1 = c4\<lparr>core := d'\<rparr>"
    by (rule admit_new_steps [OF new']) (rule that)
  note rows = enqueued_rows [OF d(2)]
  have "map_option ch_hash (chunk_of d ch) = Some (ce_sha env (wr_content w))"
  proof (rule place_chunk_steps [OF d(1)])
    fix d2 h m
    assume h: "h = \<lparr>ch_id = ch, ch_tenant = wr_tenant w, ch_dataset = ds, ch_revision = rid, ch_ordinal = wr_ordinal w, ch_hash = ce_sha env (wr_content w), ch_source = wr_source w\<rparr>"
      and x: "chunk_of (insert_chunk h d2) ch = Some h" and m: "update_manifest (ce_digest env) now rid (wr_finalize w) (insert_chunk h d2) = Inr (m, d)"
    have "chunks d = chunks (insert_chunk h d2)" using strip_heads_sel(4) [OF update_manifest_ok(2) [OF m]] .
    then show ?thesis using x by (simp add: chunk_of_def h)
  qed
  moreover have "chunk_of d' = chunk_of d" using enqueue_write_frame(3) [OF d(2)] by (simp add: chunk_of_def fun_eq_iff)
  moreover obtain m where "mut_of d' (am_mutation a) = Some m" "mu_chunk m = Some ch" using rows(1) by auto
  ultimately show ?thesis using rows unfolding core c1 by (auto simp: option.map_comp comp_def)
next
  fix ds r
  assume "Admitted a = (case idr_response r of None \<Rightarrow> In_Progress | Some a \<Rightarrow> Duplicate a)"
  then show ?thesis by (simp split: option.splits)
qed

lemma admission_is_complete_witness:
  "\<exists>a c1. admit_memory plain_env 5 (\<lambda>_. ''1'') default_policy ''j'' ''q'' (memo ''a'' ''d'' ''c'' 0) (foldl (after_catalog_call plain_env) no_catalog two_datasets) = Inr (Admitted a, c1) \<and>
    run_state_of (core c1) (am_run a) = Some P_QUEUED"
proof -
  let ?c = "foldl (after_catalog_call plain_env) no_catalog two_datasets"
  obtain a c1 where a: "admit_memory plain_env 5 (\<lambda>_. ''1'') default_policy ''j'' ''q'' (memo ''a'' ''d'' ''c'' 0) ?c = Inr (Admitted a, c1)"
    using memo_admitted by (rule was_admittedE)
  with admission_is_complete [OF a] show ?thesis by blast
qed

text \<open>
  The document of an existing revision is not compared: a write into dataset \<open>b\<close> that names the open revision of a
  document of dataset \<open>a\<close> is admitted and appends its chunk to that revision.
\<close>

lemma foreign_revision_accepted:
  "map ch_dataset (manifest_chunks ''mesa-revision-1'' (core (foldl (after_catalog_call plain_env) no_catalog (two_datasets @
     [Admit 5 (\<lambda>_. ''1'') default_policy ''j'' ''q'' (memo ''a'' ''d'' ''c'' 0),
      Admit 6 (\<lambda>_. ''2'') default_policy ''j2'' ''q2'' (memo ''b'' ''e'' ''c2'' 1)])))) = [''mesa-dataset-1'', ''mesa-dataset-2'']"
  by (simp add: two_datasets_value admit_memory_def admission_eval catalog_eval admission_name_def decimal.simps fresh_log_def queued_def
      cong: bindE_weak let_weak_cong)

end
