(* ===== verification/Dead_Letter.thy ===== *)
theory Dead_Letter imports Prelude begin

text \<open>
  \<open>PersistentQueue\<close> (\<open>mesa_memory/consolidation/loop.py\<close>): the dead-letter queue kept in a file of JSON lines, with
  leases, completion receipts and a quarantine for malformed lines. Every operation holds the file lock, so it is one
  step; it may be cut short by a crash at each point that the source names for its crash tests. The temporary file is
  never read and is not part of the state. Random identifiers, the clock and SHA-256 are arguments; \<open>error_summary\<close>,
  which is constant, is left out.
\<close>

subsection \<open>The files\<close>

datatype letter_state = L_PENDING | L_PROCESSING | L_BLOCKED

record letter =
  lt_id :: string
  lt_state :: letter_state
  lt_attempts :: int
  lt_by :: "string option"
  lt_token :: "string option"
  lt_lease :: "int option"
  lt_error :: "string option"
  lt_cmb :: "string option"
  lt_agent :: "string option"
  lt_tenant :: "string option"
  lt_mutation :: "string option"
  lt_key :: "string option"
  lt_dispatch :: "string option"

text \<open>A JSON object of the file, in which the defaulted members may be missing.\<close>

record stored =
  sl_id :: "string option"
  sl_status :: "letter_state option"
  sl_attempts :: "int option"
  sl_by :: "string option"
  sl_token :: "string option"
  sl_lease :: "int option"
  sl_error :: "string option"
  sl_cmb :: "string option"
  sl_agent :: "string option"
  sl_tenant :: "string option"
  sl_mutation_id :: "string option"
  sl_key :: "string option"
  sl_dispatch :: "string option"

datatype file_line = Blank | Broken "nat list" | Stored stored

record done_receipt =
  re_queue :: string
  re_dispatch :: string
  re_mutation :: string
  re_key :: string
  re_tenant :: "string option"
  re_agent :: "string option"
  re_worker :: string
  re_token :: "string option"
  re_attempt :: int
  re_outcome :: string
  re_verified :: bool
  re_time :: int

record quarantined =
  qt_line :: nat
  qt_bytes :: nat
  qt_sha :: string

record disk =
  dk_live :: "file_line list"
  dk_receipts :: "done_receipt list"
  dk_quarantine :: "quarantined list"

definition normalize_letter :: "string \<Rightarrow> stored \<Rightarrow> letter" where
  "normalize_letter fresh s =
    \<lparr>lt_id = (case sl_id s of None \<Rightarrow> fresh | Some i \<Rightarrow> i), lt_state = (case sl_status s of None \<Rightarrow> L_PENDING | Some x \<Rightarrow> x),
     lt_attempts = (case sl_attempts s of None \<Rightarrow> 0 | Some n \<Rightarrow> n), lt_by = sl_by s, lt_token = sl_token s, lt_lease = sl_lease s,
     lt_error = sl_error s, lt_cmb = sl_cmb s, lt_agent = sl_agent s, lt_tenant = sl_tenant s, lt_mutation = sl_mutation_id s,
     lt_key = sl_key s, lt_dispatch = sl_dispatch s\<rparr>"

definition dump :: "letter \<Rightarrow> file_line" where
  "dump l = Stored
    \<lparr>sl_id = Some (lt_id l), sl_status = Some (lt_state l), sl_attempts = Some (lt_attempts l), sl_by = lt_by l,
     sl_token = lt_token l, sl_lease = lt_lease l, sl_error = lt_error l, sl_cmb = lt_cmb l, sl_agent = lt_agent l,
     sl_tenant = lt_tenant l, sl_mutation_id = lt_mutation l, sl_key = lt_key l, sl_dispatch = lt_dispatch l\<rparr>"

subsection \<open>Crashes\<close>

datatype crash_point = Before_Serialization | After_Serialization | After_Open | Before_Write | After_Write | After_Flush
  | After_Fsync | After_Close | After_Rename | After_Directory_Fsync | After_Receipt

datatype 'a result = Crashed | Raised string | Returned 'a

definition file_replaced :: "crash_point \<Rightarrow> bool" where
  "file_replaced p \<longleftrightarrow> p = After_Rename \<or> p = After_Directory_Fsync"

text \<open>\<open>_rewrite_locked\<close>: the live file is replaced atomically, or not at all.\<close>

definition rewrite :: "crash_point option \<Rightarrow> letter list \<Rightarrow> 'a \<Rightarrow> disk \<Rightarrow> 'a result \<times> disk" where
  "rewrite cp ls x d =
    (let d' = d\<lparr>dk_live := map dump ls\<rparr> in
     case cp of
       Some p \<Rightarrow> if p = After_Receipt then (Returned x, d') else (Crashed, if file_replaced p then d' else d)
     | None \<Rightarrow> (Returned x, d'))"

subsection \<open>Reading the queue\<close>

fun read_lines :: "(nat \<Rightarrow> string) \<Rightarrow> nat \<Rightarrow> file_line list \<Rightarrow> letter list" where
  "read_lines fresh n [] = []"
| "read_lines fresh n (Stored s # xs) = normalize_letter (fresh n) s # read_lines fresh (Suc n) xs"
| "read_lines fresh n (_ # xs) = read_lines fresh (Suc n) xs"

fun broken_lines :: "(nat list \<Rightarrow> string) \<Rightarrow> nat \<Rightarrow> file_line list \<Rightarrow> quarantined list" where
  "broken_lines sha n [] = []"
| "broken_lines sha n (Broken b # xs) = \<lparr>qt_line = n, qt_bytes = length b, qt_sha = sha b\<rparr> # broken_lines sha (Suc n) xs"
| "broken_lines sha n (_ # xs) = broken_lines sha (Suc n) xs"

text \<open>
  What an operation is given beside its arguments: random identifiers for the lines without one, the clock, SHA-256,
  the size of the file, new tokens and where it crashes.
\<close>

record call_env =
  ev_fresh :: "nat \<Rightarrow> string"
  ev_now :: int
  ev_sha :: "nat list \<Rightarrow> string"
  ev_size :: "file_line list \<Rightarrow> nat"
  ev_token :: "nat \<Rightarrow> string"
  ev_crash :: "crash_point option"

definition locked_records :: "call_env \<Rightarrow> disk \<Rightarrow> letter list result \<times> disk" where
  "locked_records e d =
    (let ls = read_lines (ev_fresh e) 1 (dk_live d); bad = broken_lines (ev_sha e) 1 (dk_live d);
         d' = d\<lparr>dk_quarantine := dk_quarantine d @ bad\<rparr>
     in if bad = [] then (Returned ls, d) else rewrite (ev_crash e) ls ls d')"

text \<open>An operation on the records read under the lock.\<close>

definition with_records :: "call_env \<Rightarrow> (letter list \<Rightarrow> disk \<Rightarrow> 'a result \<times> disk) \<Rightarrow> disk \<Rightarrow> 'a result \<times> disk" where
  "with_records e f d =
    (case locked_records e d of
       (Returned ls, d1) \<Rightarrow> f ls d1
     | (Raised x, d1) \<Rightarrow> (Raised x, d1)
     | (Crashed, d1) \<Rightarrow> (Crashed, d1))"

subsection \<open>Appending and claiming\<close>

definition max_queue_bytes :: nat where
  "max_queue_bytes = 100 * 1024 * 1024"

definition max_letter_attempts :: int where
  "max_letter_attempts = 4"

definition append_letter :: "call_env \<Rightarrow> stored \<Rightarrow> disk \<Rightarrow> unit result \<times> disk" where
  "append_letter e item = with_records e (\<lambda>ls d.
     if max_queue_bytes < ev_size e (dk_live d) then (Raised ''RuntimeError'', d)
     else
       let l = normalize_letter (ev_fresh e 0) item in
       if list_ex (\<lambda>x. lt_id x = lt_id l) ls then (Raised ''ValueError'', d)
       else rewrite (ev_crash e) (ls @ [l]) () d)"

definition lease_over :: "int \<Rightarrow> int option \<Rightarrow> bool" where
  "lease_over now x = (case x of None \<Rightarrow> True | Some t \<Rightarrow> t \<le> now)"

definition letter_free :: "int \<Rightarrow> letter \<Rightarrow> bool" where
  "letter_free now l \<longleftrightarrow> lt_state l = L_PENDING \<or> (lt_state l = L_PROCESSING \<and> lease_over now (lt_lease l))"

definition grab_letter :: "string \<Rightarrow> string \<Rightarrow> int \<Rightarrow> letter \<Rightarrow> letter" where
  "grab_letter tok w until l = l\<lparr>lt_state := L_PROCESSING, lt_by := Some w, lt_token := Some tok, lt_lease := Some until,
     lt_attempts := lt_attempts l + 1\<rparr>"

text \<open>The loop of \<open>_claim\<close>: \<open>k\<close> records are claimed so far.\<close>

fun claim_letters :: "(nat \<Rightarrow> string) \<Rightarrow> int \<Rightarrow> string \<Rightarrow> nat \<Rightarrow> int \<Rightarrow> nat \<Rightarrow> letter list \<Rightarrow> letter list \<times> letter list" where
  "claim_letters tok now w limit secs k [] = ([], [])"
| "claim_letters tok now w limit secs k (l # ls) =
    (if \<not> letter_free now l \<or> limit \<le> k then (let (c, t) = claim_letters tok now w limit secs k ls in (c, l # t))
     else (let l' = grab_letter (tok k) w (now + secs) l; (c, t) = claim_letters tok now w limit secs (Suc k) ls in (l' # c, l' # t)))"

definition claim_batch :: "call_env \<Rightarrow> string \<Rightarrow> int \<Rightarrow> int \<Rightarrow> disk \<Rightarrow> letter list result \<times> disk" where
  "claim_batch e w limit secs d =
    (if w = [] \<or> \<not> (1 \<le> limit \<and> limit \<le> 1000) \<or> \<not> (1 \<le> secs \<and> secs \<le> 3600) then (Raised ''ValueError'', d)
     else with_records e (\<lambda>ls d. case claim_letters (ev_token e) (ev_now e) w (nat limit) secs 0 ls of (c, t) \<Rightarrow> rewrite (ev_crash e) t c d) d)"

subsection \<open>Acknowledging\<close>

type_synonym claim_id = "string \<times> string option"

definition claim_of :: "letter \<Rightarrow> claim_id" where
  "claim_of l = (lt_id l, lt_token l)"

definition held_by :: "string \<Rightarrow> letter \<Rightarrow> bool" where
  "held_by w l \<longleftrightarrow> lt_state l = L_PROCESSING \<and> lt_by l = Some w"

text \<open>\<open>_read_completion_receipts\<close>: the last receipt with the identifier.\<close>

definition receipt_for :: "disk \<Rightarrow> string \<Rightarrow> done_receipt option" where
  "receipt_for d i = (if i = [] then None else find (\<lambda>r. re_queue r = i) (rev (dk_receipts d)))"

text \<open>\<open>needs\<close>: the queue was opened with \<open>require_completion_receipt\<close>.\<close>

definition ack :: "bool \<Rightarrow> call_env \<Rightarrow> claim_id list \<Rightarrow> string \<Rightarrow> disk \<Rightarrow> bool result \<times> disk" where
  "ack needs e wanted w d =
    (if wanted = [] then (Returned True, d)
     else with_records e (\<lambda>ls d.
       let matched = map claim_of (filter (held_by w) ls) in
       if \<not> list_all (\<lambda>x. x \<in> set matched) wanted then (Returned False, d)
       else if needs \<and> list_ex (\<lambda>(i, _). receipt_for d i = None) wanted then (Returned False, d)
       else rewrite (ev_crash e) (filter (\<lambda>l. claim_of l \<notin> set wanted) ls) True d) d)"

definition or_truthy :: "string option \<Rightarrow> string option \<Rightarrow> string option" where
  "or_truthy a b = (if truthy a then a else b)"

definition letter_receipt :: "int \<Rightarrow> string \<Rightarrow> string \<Rightarrow> letter \<Rightarrow> done_receipt" where
  "letter_receipt now w outcome l =
    \<lparr>re_queue = lt_id l, re_dispatch = (case lt_dispatch l of None \<Rightarrow> lt_id l | Some x \<Rightarrow> x),
     re_mutation = the (or_truthy (lt_mutation l) (or_truthy (lt_key l) (Some (lt_id l)))),
     re_key = (if truthy (lt_key l) then the (lt_key l) else ''dlq:'' @ lt_id l), re_tenant = or_truthy (lt_tenant l) (lt_agent l),
     re_agent = lt_agent l, re_worker = w, re_token = lt_token l, re_attempt = lt_attempts l, re_outcome = outcome,
     re_verified = True, re_time = now\<rparr>"

definition write_receipt :: "call_env \<Rightarrow> string \<Rightarrow> string \<Rightarrow> letter \<Rightarrow> disk \<Rightarrow> unit result \<times> disk" where
  "write_receipt e w outcome l d =
    (if receipt_for d (lt_id l) \<noteq> None then (Returned (), d)
     else (if ev_crash e = Some After_Receipt then Crashed else Returned (),
           d\<lparr>dk_receipts := dk_receipts d @ [letter_receipt (ev_now e) w outcome l]\<rparr>))"

text \<open>The list without the first record found: \<open>record is not match\<close>.\<close>

fun drop_first :: "('a \<Rightarrow> bool) \<Rightarrow> 'a list \<Rightarrow> 'a list" where
  "drop_first P [] = []"
| "drop_first P (x # xs) = (if P x then xs else x # drop_first P xs)"

definition complete_letter :: "call_env \<Rightarrow> claim_id \<Rightarrow> string \<Rightarrow> string \<Rightarrow> bool \<Rightarrow> disk \<Rightarrow> bool result \<times> disk" where
  "complete_letter e i w outcome verified d =
    (if \<not> verified then (Returned False, d)
     else with_records e (\<lambda>ls d.
       let P = (\<lambda>l. claim_of l = i \<and> held_by w l) in
       (case find P ls of
          None \<Rightarrow> (Returned False, d)
        | Some l \<Rightarrow>
            (case write_receipt e w outcome l d of
               (Returned _, d1) \<Rightarrow> rewrite (ev_crash e) (drop_first P ls) True d1
             | (_, d1) \<Rightarrow> (Crashed, d1)))) d)"

text \<open>\<open>areconcile_receipted_claim\<close>; \<open>seen\<close> is the receipt it read before, without the lock.\<close>

definition reconcile_claim :: "bool \<Rightarrow> call_env \<Rightarrow> done_receipt option \<Rightarrow> claim_id \<Rightarrow> string \<Rightarrow> disk \<Rightarrow> bool result \<times> disk" where
  "reconcile_claim needs e seen i w d =
    (case seen of
       None \<Rightarrow> (Returned False, d)
     | Some r \<Rightarrow> if \<not> re_verified r then (Returned False, d) else ack needs e [i] w d)"

definition release_letter :: "string \<Rightarrow> letter \<Rightarrow> letter" where
  "release_letter err l = l\<lparr>lt_error := Some (take 80 err), lt_by := None, lt_token := None, lt_lease := None,
     lt_state := (if max_letter_attempts \<le> lt_attempts l then L_BLOCKED else L_PENDING)\<rparr>"

definition nack :: "call_env \<Rightarrow> claim_id list \<Rightarrow> string \<Rightarrow> string \<Rightarrow> disk \<Rightarrow> bool result \<times> disk" where
  "nack e wanted w err d =
    (if wanted = [] then (Returned True, d)
     else with_records e (\<lambda>ls d.
       let mine = filter (\<lambda>l. claim_of l \<in> set wanted) ls in
       if \<not> list_all (held_by w) mine then (Returned False, d)
       else if \<not> list_all (\<lambda>x. x \<in> claim_of ` set mine) wanted then (Returned False, d)
       else rewrite (ev_crash e) (upd (\<lambda>l. claim_of l \<in> set wanted) (release_letter err) ls) True d) d)"

text \<open>\<open>aremove_items\<close>: the items with the worker recorded in the first.\<close>

definition remove_items :: "bool \<Rightarrow> call_env \<Rightarrow> letter list \<Rightarrow> disk \<Rightarrow> unit result \<times> disk" where
  "remove_items needs e items d =
    (if items = [] then (Returned (), d)
     else if \<not> truthy (lt_by (hd items)) then (Raised ''RuntimeError'', d)
     else (case ack needs e (map claim_of items) (the (lt_by (hd items))) d of
         (Returned b, d') \<Rightarrow> (if b then Returned () else Raised ''RuntimeError'', d')
       | (Raised x, d') \<Rightarrow> (Raised x, d')
       | (Crashed, d') \<Rightarrow> (Crashed, d')))"

definition queue_length :: "call_env \<Rightarrow> disk \<Rightarrow> nat result \<times> disk" where
  "queue_length e = with_records e (\<lambda>ls d. (Returned (length ls), d))"

text \<open>\<open>agetitem\<close>; a negative index counts from the end.\<close>

definition queue_item :: "call_env \<Rightarrow> int \<Rightarrow> disk \<Rightarrow> letter result \<times> disk" where
  "queue_item e i = with_records e (\<lambda>ls d.
     let j = (if i < 0 then i + int (length ls) else i) in
     (if 0 \<le> j \<and> j < int (length ls) then Returned (ls ! nat j) else Raised ''IndexError'', d))"

subsection \<open>The worker\<close>

text \<open>The entry \<open>run_batch\<close> appends for a record it defers; \<open>_normalize\<close> drops the error text.\<close>

definition deferral :: "string \<times> string \<Rightarrow> stored" where
  "deferral x = \<lparr>sl_id = None, sl_status = None, sl_attempts = None, sl_by = None, sl_token = None, sl_lease = None, sl_error = None,
     sl_cmb = Some (fst x), sl_agent = Some (snd x), sl_tenant = None, sl_mutation_id = None, sl_key = None, sl_dispatch = None\<rparr>"

text \<open>
  One round of \<open>start_dlq_worker\<close> on the claims it got. \<open>dq_call l k\<close> is what the \<open>k\<close>-th call for \<open>l\<close> is given; where it
  crashes the call raises, as on an error of the file system. \<open>dq_found\<close> is the answer of \<open>get_memory_by_id\<close>, \<open>None\<close> when
  it raises (an invalid agent, an error of the database). \<open>dq_run\<close> is what becomes of the replay of a record: what
  \<open>run_batch\<close> or the look-up after it raises, or whether the record is consolidated then, and the deferrals \<open>run_batch\<close>
  appends. \<open>dq_error\<close> is the type of an error of the file system.
\<close>

record dlq_env =
  dq_call :: "letter \<Rightarrow> nat \<Rightarrow> call_env"
  dq_found :: "string \<Rightarrow> string \<Rightarrow> bool option"
  dq_run :: "letter \<Rightarrow> (string + bool) \<times> (string \<times> string) list"
  dq_error :: string

definition calm :: "call_env \<Rightarrow> call_env" where
  "calm e = e\<lparr>ev_crash := None\<rparr>"

text \<open>
  The first loop; \<open>None\<close> when an exception leaves it and with it the round. \<open>give_back\<close> is a negative acknowledgement, its
  result whether it returned.
\<close>

definition give_back :: "call_env \<Rightarrow> string \<Rightarrow> letter \<Rightarrow> string \<Rightarrow> disk \<Rightarrow> bool \<times> disk" where
  "give_back e w l err d = (case nack e [claim_of l] w err d of (Returned _, d') \<Rightarrow> (True, d') | (_, d') \<Rightarrow> (False, d'))"

fun dlq_select :: "dlq_env \<Rightarrow> string \<Rightarrow> letter list \<Rightarrow> disk \<Rightarrow> letter list option \<times> disk" where
  "dlq_select v w [] d = (Some [], d)"
| "dlq_select v w (l # ls) d =
    (case reconcile_claim True (dq_call v l 0) (receipt_for d (lt_id l)) (claim_of l) w d of
       (Returned closed, d1) \<Rightarrow>
         (let refuse = (\<lambda>err. case give_back (dq_call v l 1) w l err d1 of
              (ok, d2) \<Rightarrow> if ok then dlq_select v w ls d2 else (None, d2))
          in if closed then dlq_select v w ls d1
             else if \<not> truthy (lt_agent l) \<or> \<not> truthy (lt_cmb l) then refuse ''InvalidDLQMetadata''
             else (case dq_found v (the (lt_agent l)) (the (lt_cmb l)) of
                 None \<Rightarrow> (None, d1)
               | Some False \<Rightarrow> refuse ''RecordNotFound''
               | Some True \<Rightarrow> (case dlq_select v w ls d1 of (todo, d2) \<Rightarrow> (map_option (Cons l) todo, d2))))
     | (_, d1) \<Rightarrow> (None, d1))"

text \<open>The body of the second loop: whatever it raises gives the letter back, unless that raises again.\<close>

definition dlq_replay :: "dlq_env \<Rightarrow> string \<Rightarrow> letter \<Rightarrow> disk \<Rightarrow> bool \<times> disk" where
  "dlq_replay v w l d =
    (let (out, deferred) = dq_run v l;
         d1 = fold (\<lambda>x d. snd (append_letter (dq_call v l 2) (deferral x) d)) deferred d;
         caught = give_back (dq_call v l 5) w l
     in case out of
          Inl err \<Rightarrow> caught err d1
        | Inr verified \<Rightarrow>
            (case complete_letter (dq_call v l 3) (claim_of l) w ''SUCCEEDED'' verified d1 of
               (Returned closed, d2) \<Rightarrow>
                 if closed then (True, d2)
                 else (case give_back (dq_call v l 4) w l ''UnverifiedRecordOutcome'' d2 of
                     (ok, d3) \<Rightarrow> if ok then (True, d3) else caught (dq_error v) d3)
             | (_, d2) \<Rightarrow> caught (dq_error v) d2))"

fun dlq_replays :: "dlq_env \<Rightarrow> string \<Rightarrow> letter list \<Rightarrow> disk \<Rightarrow> bool \<times> disk" where
  "dlq_replays v w [] d = (True, d)"
| "dlq_replays v w (l # ls) d = (case dlq_replay v w l d of (ok, d1) \<Rightarrow> if ok then dlq_replays v w ls d1 else (False, d1))"

text \<open>Whether the round ended, or an exception reached the handler of the outer loop.\<close>

definition dlq_round :: "dlq_env \<Rightarrow> string \<Rightarrow> letter list \<Rightarrow> disk \<Rightarrow> bool \<times> disk" where
  "dlq_round v w claims d = (case dlq_select v w claims d of (None, d1) \<Rightarrow> (False, d1) | (Some todo, d1) \<Rightarrow> dlq_replays v w todo d1)"

end
