(* ===== verification/Dead_Letter_Properties.thy ===== *)
theory Dead_Letter_Properties imports Dead_Letter begin

text \<open>
  No dead letter is lost, a lease is exclusive, a receipt is final and closes its letter, a blocked letter stays, and a
  round of the worker settles its claims, whatever crashes in between.
\<close>

subsection \<open>Calls\<close>

datatype letter_call =
    Append stored
  | Claim string int int
  | Ack "claim_id list" string
  | Complete claim_id string string bool
  | Reconcile "done_receipt option" claim_id string
  | Nack "claim_id list" string string
  | Remove "letter list"
  | Count
  | Item int

fun letter_op :: "bool \<Rightarrow> call_env \<Rightarrow> letter_call \<Rightarrow> disk \<Rightarrow> disk" where
  "letter_op needs e (Append item) d = snd (append_letter e item d)"
| "letter_op needs e (Claim w limit secs) d = snd (claim_batch e w limit secs d)"
| "letter_op needs e (Ack is w) d = snd (ack needs e is w d)"
| "letter_op needs e (Complete i w out v) d = snd (complete_letter e i w out v d)"
| "letter_op needs e (Reconcile r i w) d = snd (reconcile_claim needs e r i w d)"
| "letter_op needs e (Nack is w err) d = snd (nack e is w err d)"
| "letter_op needs e (Remove ls) d = snd (remove_items needs e ls d)"
| "letter_op needs e Count d = snd (queue_length e d)"
| "letter_op needs e (Item i) d = snd (queue_item e i d)"

definition after_letter_call :: "bool \<Rightarrow> disk \<Rightarrow> call_env \<times> letter_call \<Rightarrow> disk" where
  "after_letter_call needs d x = letter_op needs (fst x) (snd x) d"

definition quiet :: call_env where
  "quiet = \<lparr>ev_fresh = (\<lambda>_. ''i''), ev_now = 0, ev_sha = (\<lambda>_. []), ev_size = length, ev_token = (\<lambda>_. ''k''), ev_crash = None\<rparr>"

definition empty_disk :: disk where
  "empty_disk = \<lparr>dk_live = [], dk_receipts = [], dk_quarantine = []\<rparr>"

subsection \<open>Reading and writing\<close>

lemma normalize_dump: "dump l = Stored s \<Longrightarrow> normalize_letter fresh s = l"
  by (cases l) (auto simp: dump_def normalize_letter_def)

lemma read_dumped [simp]: "read_lines fresh n (map dump ls) = ls"
  by (induction ls arbitrary: n) (simp_all add: dump_def normalize_letter_def)

lemma nothing_broken [simp]: "broken_lines sha n (map dump ls) = []"
  by (induction ls arbitrary: n) (simp_all add: dump_def)

lemma inj_dump: "dump l = dump l' \<longleftrightarrow> l = l'"
  by (cases l; cases l') (auto simp: dump_def)

lemma dumped_in [simp]: "dump l \<in> dump ` set ls \<longleftrightarrow> l \<in> set ls"
  by (auto simp: inj_dump)

lemma snd_rewrite: "snd (rewrite cp ls x d) = d \<or> snd (rewrite cp ls x d) = d\<lparr>dk_live := map dump ls\<rparr>"
  by (auto simp: rewrite_def Let_def split: option.split)

lemma rewrite_returned: "rewrite cp ls x d = (Returned y, d') \<Longrightarrow> y = x \<and> d' = d\<lparr>dk_live := map dump ls\<rparr>"
  by (auto simp: rewrite_def Let_def split: option.splits if_splits)

lemma rewrite_calm [simp]: "rewrite None ls x d = (Returned x, d\<lparr>dk_live := map dump ls\<rparr>)"
  by (simp add: rewrite_def Let_def)

lemma rewrite_not_raised: "rewrite cp ls x d \<noteq> (Raised y, d')"
  by (auto simp: rewrite_def Let_def split: option.splits)

text \<open>The letter files of this program: every line is a letter, the identifiers are distinct.\<close>

definition letters :: "disk \<Rightarrow> letter list" where
  "letters d = read_lines (\<lambda>_. []) 1 (dk_live d)"

definition tidy :: "disk \<Rightarrow> bool" where
  "tidy d \<longleftrightarrow> (\<exists>ls. dk_live d = map dump ls \<and> distinct (map lt_id ls))"

lemma letters_live [simp]: "letters (d\<lparr>dk_live := map dump ls\<rparr>) = ls"
  by (simp add: letters_def)

lemma letters_receipts [simp]: "letters (d\<lparr>dk_receipts := rs\<rparr>) = letters d"
  by (simp add: letters_def)

lemma tidy_live: "distinct (map lt_id ls) \<Longrightarrow> tidy (d\<lparr>dk_live := map dump ls\<rparr>)"
  by (auto simp: tidy_def)

lemma tidy_letters: "tidy d \<Longrightarrow> dk_live d = map dump (letters d) \<and> distinct (map lt_id (letters d))"
  by (auto simp: tidy_def letters_def)

lemma locked_tidy: "tidy d \<Longrightarrow> locked_records e d = (Returned (letters d), d)"
  by (auto simp: tidy_def locked_records_def letters_def Let_def)

lemma with_tidy: "tidy d \<Longrightarrow> with_records e f d = f (letters d) d"
  by (simp add: with_records_def locked_tidy)

text \<open>Every operation on a tidy file is a rewriting of its letters, possibly cut short, and at most one receipt.\<close>

lemma snd_rewrite_tidy:
  assumes "tidy d" and "distinct (map lt_id ls)"
  shows "tidy (snd (rewrite cp ls x d)) \<and> letters (snd (rewrite cp ls x d)) \<in> {letters d, ls} \<and>
    dk_receipts (snd (rewrite cp ls x d)) = dk_receipts d"
  using snd_rewrite [of cp ls x d] tidy_live [OF assms(2), of d] assms(1) by auto

definition acked :: "claim_id list \<Rightarrow> string \<Rightarrow> letter list \<Rightarrow> letter list" where
  "acked is w ls = (if list_all (\<lambda>x. x \<in> set (map claim_of (filter (held_by w) ls))) is then filter (\<lambda>l. claim_of l \<notin> set is) ls else ls)"

definition nacked :: "claim_id list \<Rightarrow> string \<Rightarrow> string \<Rightarrow> letter list \<Rightarrow> letter list" where
  "nacked is w err ls =
    (if list_all (held_by w) (filter (\<lambda>l. claim_of l \<in> set is) ls) then upd (\<lambda>l. claim_of l \<in> set is) (release_letter err) ls else ls)"

fun rewritten :: "call_env \<Rightarrow> letter_call \<Rightarrow> letter list \<Rightarrow> letter list" where
  "rewritten e (Append item) ls =
    (let l = normalize_letter (ev_fresh e 0) item in if lt_id l \<in> lt_id ` set ls then ls else ls @ [l])"
| "rewritten e (Claim w limit secs) ls = snd (claim_letters (ev_token e) (ev_now e) w (nat limit) secs 0 ls)"
| "rewritten e (Ack is w) ls = acked is w ls"
| "rewritten e (Complete i w out v) ls = drop_first (\<lambda>l. claim_of l = i \<and> held_by w l) ls"
| "rewritten e (Reconcile r i w) ls = acked [i] w ls"
| "rewritten e (Nack is w err) ls = nacked is w err ls"
| "rewritten e (Remove items) ls = acked (map claim_of items) (the (lt_by (hd items))) ls"
| "rewritten e Count ls = ls"
| "rewritten e (Item i) ls = ls"

lemma claim_letters_ids: "map lt_id (snd (claim_letters tok now w limit secs k ls)) = map lt_id ls"
  by (induction ls arbitrary: k) (simp_all add: Let_def split_def grab_letter_def)


lemma set_drop_first: "set (drop_first P ls) \<subseteq> set ls" "x \<in> set ls \<Longrightarrow> \<not> P x \<Longrightarrow> x \<in> set (drop_first P ls)"
  by (induction ls) auto

lemma distinct_drop_first: "distinct (map f ls) \<Longrightarrow> distinct (map f (drop_first P ls))"
proof (induction ls)
  case (Cons x xs)
  then show ?case using set_drop_first(1) [of P xs] by auto
qed simp

lemma release_id [simp]: "lt_id (release_letter err l) = lt_id l"
  by (simp add: release_letter_def)

lemma map_id_upd: "(\<And>l. lt_id (f l) = lt_id l) \<Longrightarrow> map lt_id (upd P f ls) = map lt_id ls"
  by (induction ls) auto

lemma rewritten_distinct: "distinct (map lt_id ls) \<Longrightarrow> distinct (map lt_id (rewritten e x ls))"
  by (cases x) (simp_all add: Let_def claim_letters_ids acked_def nacked_def map_id_upd distinct_drop_first distinct_map_filter image_iff)

lemma write_receipt_letters: "dk_live (snd (write_receipt e w out l d)) = dk_live d"
  by (simp add: write_receipt_def)

lemma letter_op_tidy_step:
  assumes "tidy d"
  shows "tidy (letter_op needs e x d) \<and> letters (letter_op needs e x d) \<in> {letters d, rewritten e x (letters d)}"
proof -
  note t = snd_rewrite_tidy [OF assms rewritten_distinct [OF conjunct2 [OF tidy_letters [OF assms]], of e x]]
  note w = with_tidy [OF assms]
  have A: "tidy (snd (ack needs e is wk d)) \<and> letters (snd (ack needs e is wk d)) \<in> {letters d, acked is wk (letters d)}" for "is" wk
  proof -
    have "distinct (map lt_id (acked is wk (letters d)))"
      using rewritten_distinct [OF conjunct2 [OF tidy_letters [OF assms]], of e "Ack is wk"] by simp
    note tt = snd_rewrite_tidy [OF assms this]
    show ?thesis
    proof (cases "list_all (\<lambda>x. x \<in> set (map claim_of (filter (held_by wk) (letters d)))) is")
      case True
      then show ?thesis using assms tt [where x = True] by (simp add: ack_def w Let_def acked_def)
    next
      case False
      then show ?thesis using assms by (simp add: ack_def w Let_def)
    qed
  qed
  show ?thesis
  proof (cases x)
    case (Append item)
    let ?l = "normalize_letter (ev_fresh e 0) item"
    have m: "list_ex (\<lambda>x. lt_id x = lt_id ?l) (letters d) \<longleftrightarrow> lt_id ?l \<in> lt_id ` set (letters d)" by (auto simp: list_ex_iff image_iff) metis+
    show ?thesis
    proof (cases "lt_id ?l \<in> lt_id ` set (letters d)")
      case True
      then show ?thesis using Append assms m by (simp add: append_letter_def w Let_def)
    next
      case False
      then have "rewritten e x (letters d) = letters d @ [?l]" using Append by (simp add: Let_def)
      then show ?thesis using t [where x = "()"] Append assms m False by (simp add: append_letter_def w Let_def)
    qed
  next
    case (Claim wk limit secs)
    then show ?thesis using t [where x = "fst (claim_letters (ev_token e) (ev_now e) wk (nat limit) secs 0 (letters d))"] assms
      by (simp add: claim_batch_def w split_def)
  next
    case (Complete i wk out v)
    show ?thesis
    proof (cases "find (\<lambda>l. claim_of l = i \<and> held_by wk l) (letters d)")
      case None
      then show ?thesis using Complete assms by (simp add: complete_letter_def w Let_def)
    next
      case (Some l)
      let ?d = "snd (write_receipt e wk out l d)"
      have d: "tidy ?d" "letters ?d = letters d" using assms write_receipt_letters [of e wk out l d] by (simp_all add: tidy_def letters_def)
      have "distinct (map lt_id (rewritten e x (letters ?d)))" using rewritten_distinct tidy_letters [OF d(1)] by blast
      from snd_rewrite_tidy [OF d(1) this, where x = True] show ?thesis
        using Complete Some assms d by (cases "write_receipt e wk out l d"; cases "fst (write_receipt e wk out l d)")
          (simp_all add: complete_letter_def w Let_def)
    qed
  next
    case (Nack "is" wk err)
    show ?thesis
    proof (cases "list_all (held_by wk) (filter (\<lambda>l. claim_of l \<in> set is) (letters d))")
      case True
      then have "rewritten e x (letters d) = upd (\<lambda>l. claim_of l \<in> set is) (release_letter err) (letters d)"
        using Nack by (simp add: nacked_def)
      then show ?thesis using t [where x = True] Nack assms by (simp add: nack_def w Let_def)
    next
      case False
      then show ?thesis using Nack assms by (simp add: nack_def w Let_def)
    qed
  next
    case (Remove items)
    then show ?thesis using assms A [of "map claim_of items" "the (lt_by (hd items))"]
      by (cases "ack needs e (map claim_of items) (the (lt_by (hd items))) d"; cases "fst (ack needs e (map claim_of items) (the (lt_by (hd items))) d)")
        (auto simp: remove_items_def)
  qed (use assms A in \<open>auto simp: queue_length_def queue_item_def w Let_def reconcile_claim_def split: option.split\<close>)
qed

lemma empty_tidy: "tidy empty_disk"
  by (simp add: tidy_def empty_disk_def)

lemma after_letter_calls_tidy: "tidy d \<Longrightarrow> tidy (foldl (after_letter_call needs) d xs)"
  by (induction xs arbitrary: d) (auto simp: after_letter_call_def letter_op_tidy_step)

text \<open>A property of the letters that no rewriting destroys holds after any calls.\<close>

lemma letters_invariant:
  assumes "tidy d" and "I (letters d)"
    and "\<And>y ls. y \<in> set xs \<Longrightarrow> distinct (map lt_id ls) \<Longrightarrow> I ls \<Longrightarrow> I (rewritten (fst y) (snd y) ls)"
  shows "I (letters (foldl (after_letter_call needs) d xs))"
  using assms
proof (induction xs arbitrary: d)
  case (Cons x xs)
  let ?d = "after_letter_call needs d x"
  have d: "tidy ?d" "letters ?d \<in> {letters d, rewritten (fst x) (snd x) (letters d)}"
    using letter_op_tidy_step [OF Cons.prems(1)] by (auto simp: after_letter_call_def)
  have "I (rewritten (fst x) (snd x) (letters d))" using Cons.prems(2,3) tidy_letters [OF Cons.prems(1)] by auto
  then have "I (letters ?d)" using d(2) Cons.prems(2) by auto
  then show ?case using Cons.IH [OF d(1)] Cons.prems(3) by simp
qed simp

subsection \<open>No letter is lost\<close>

definition live_ids :: "disk \<Rightarrow> string set" where
  "live_ids d = {i. \<exists>s. Stored s \<in> set (dk_live d) \<and> sl_id s = Some i}"

definition done_ids :: "disk \<Rightarrow> string set" where
  "done_ids d = re_queue ` set (dk_receipts d)"

definition keeps_letters :: "disk \<Rightarrow> disk \<Rightarrow> bool" where
  "keeps_letters d d' \<longleftrightarrow> live_ids d \<union> done_ids d \<subseteq> live_ids d' \<union> done_ids d' \<and> done_ids d \<subseteq> done_ids d'"

interpretation keeping: handler_frame keeps_letters
  by unfold_locales (auto simp: keeps_letters_def)

lemma live_ids_dump [simp]: "live_ids (d\<lparr>dk_live := map dump ls\<rparr>) = lt_id ` set ls"
  by (auto simp: live_ids_def dump_def)

lemma ids_frame [simp]: "live_ids (d\<lparr>dk_quarantine := q\<rparr>) = live_ids d" "live_ids (d\<lparr>dk_receipts := rs\<rparr>) = live_ids d"
    "done_ids (d\<lparr>dk_quarantine := q\<rparr>) = done_ids d" "done_ids (d\<lparr>dk_live := ls\<rparr>) = done_ids d"
  by (simp_all add: live_ids_def done_ids_def)

lemma read_lines_ids: "Stored s \<in> set ls \<Longrightarrow> sl_id s = Some i \<Longrightarrow> i \<in> lt_id ` set (read_lines fresh n ls)"
  by (induction fresh n ls rule: read_lines.induct) (auto simp: normalize_letter_def image_iff)

lemma live_read: "live_ids d \<subseteq> lt_id ` set (read_lines fresh n (dk_live d))"
  using read_lines_ids by (auto simp: live_ids_def)

lemma rewrite_keeps: "live_ids d \<subseteq> lt_id ` set ls \<union> done_ids d \<Longrightarrow> keeps_letters d (snd (rewrite cp ls x d))"
  using snd_rewrite [of cp ls x d] by (auto simp: keeps_letters_def)

lemma locked_keeps:
  assumes "locked_records e d = (r, d1)"
  shows "keeps_letters d d1 \<and> (\<forall>ls. r = Returned ls \<longrightarrow> live_ids d1 \<subseteq> lt_id ` set ls)"
proof (cases "broken_lines (ev_sha e) 1 (dk_live d) = []")
  case True
  then show ?thesis using assms live_read [of d "ev_fresh e" 1] by (auto simp: locked_records_def Let_def keeping.le_refl)
next
  case False
  let ?q = "dk_quarantine d @ broken_lines (ev_sha e) 1 (dk_live d)" and ?ls = "read_lines (ev_fresh e) 1 (dk_live d)"
  have r: "rewrite (ev_crash e) ?ls ?ls (d\<lparr>dk_quarantine := ?q\<rparr>) = (r, d1)" using assms False by (simp add: locked_records_def Let_def)
  have "keeps_letters (d\<lparr>dk_quarantine := ?q\<rparr>) d1"
    using rewrite_keeps [of "d\<lparr>dk_quarantine := ?q\<rparr>" ?ls "ev_crash e" ?ls] live_read [of d "ev_fresh e" 1] r by auto
  then show ?thesis using r by (auto simp: keeps_letters_def dest!: rewrite_returned)
qed

lemma with_keeps:
  assumes "\<And>ls d1. live_ids d1 \<subseteq> lt_id ` set ls \<Longrightarrow> keeps_letters d1 (snd (f ls d1))"
  shows "keeps_letters d (snd (with_records e f d))"
proof -
  obtain r d1 where r: "locked_records e d = (r, d1)" by fastforce
  note k = locked_keeps [OF r]
  show ?thesis
  proof (cases r)
    case (Returned ls)
    then have "keeps_letters d1 (snd (f ls d1))" using assms k by blast
    then show ?thesis using k r Returned keeping.le_trans by (auto simp: with_records_def)
  qed (use k r in \<open>simp_all add: with_records_def\<close>)
qed

lemma append_keeps: "keeps_letters d (snd (append_letter e item d))"
  unfolding append_letter_def by (rule with_keeps) (auto simp: Let_def keeping.le_refl intro!: rewrite_keeps)

lemma claim_keeps: "keeps_letters d (snd (claim_batch e w limit secs d))"
proof -
  have "lt_id ` set (snd (claim_letters tok now w n secs k ls)) = lt_id ` set ls" for tok now n k ls
    using claim_letters_ids [of tok now w n secs k ls] by (metis set_map)
  then show ?thesis
    by (auto simp: claim_batch_def keeping.le_refl split_def intro!: with_keeps rewrite_keeps)
qed

lemma receipt_for_done: "receipt_for d i \<noteq> None \<Longrightarrow> i \<in> done_ids d"
  by (auto simp: receipt_for_def done_ids_def split: if_splits dest!: find_SomeD)

lemma ack_keeps: "keeps_letters d (snd (ack True e is w d))"
proof -
  have "live_ids d \<subseteq> lt_id ` set (filter (\<lambda>l. claim_of l \<notin> set is) ls) \<union> done_ids d"
    if live: "live_ids d \<subseteq> lt_id ` set ls" and receipts: "\<not> list_ex (\<lambda>(i, _). receipt_for d i = None) is" for d ls
  proof
    fix i assume "i \<in> live_ids d"
    then obtain l where l: "l \<in> set ls" "lt_id l = i" using live by blast
    have "i \<in> done_ids d" if c: "claim_of l \<in> set is"
      using c receipts l receipt_for_done [of d i] by (auto simp: list_ex_iff claim_of_def)
    then show "i \<in> lt_id ` set (filter (\<lambda>l. claim_of l \<notin> set is) ls) \<union> done_ids d" using l by auto
  qed
  then show ?thesis by (auto simp: ack_def keeping.le_refl Let_def intro!: with_keeps rewrite_keeps) blast
qed

lemma write_receipt_keeps:
  assumes "write_receipt e w out l d = (r, d1)"
  shows "keeps_letters d d1 \<and> lt_id l \<in> done_ids d1"
  using assms receipt_for_done [of d "lt_id l"]
  by (auto simp: write_receipt_def keeps_letters_def live_ids_def done_ids_def letter_receipt_def split: if_splits)

lemma complete_keeps: "keeps_letters d (snd (complete_letter e i w out v d))"
proof -
  have "keeps_letters d (snd (case write_receipt e w out l d of (Returned _, d1) \<Rightarrow> rewrite (ev_crash e) (drop_first P ls) True d1 | (_, d1) \<Rightarrow> (Crashed, d1)))"
    if ls: "live_ids d \<subseteq> lt_id ` set ls" and l: "find P ls = Some l" for ls d l P
  proof -
    obtain r d1 where r: "write_receipt e w out l d = (r, d1)" by fastforce
    have live: "live_ids d1 = live_ids d" using write_receipt_letters [of e w out l d] r by (simp add: live_ids_def)
    have dr: "lt_id ` set ls \<subseteq> insert (lt_id l) (lt_id ` set (drop_first P ls))"
      using l by (induction ls) (auto split: if_splits)
    have "live_ids d1 \<subseteq> insert (lt_id l) (lt_id ` set (drop_first P ls))" unfolding live by (rule subset_trans [OF ls dr])
    moreover have "lt_id l \<in> done_ids d1" using write_receipt_keeps [OF r] by blast
    ultimately have "live_ids d1 \<subseteq> lt_id ` set (drop_first P ls) \<union> done_ids d1" by blast
    then have "keeps_letters d1 (snd (rewrite (ev_crash e) (drop_first P ls) True d1))" by (rule rewrite_keeps)
    then show ?thesis using write_receipt_keeps [OF r] r keeping.le_trans by (cases r) auto
  qed
  then show ?thesis
    by (auto simp: complete_letter_def Let_def keeping.le_refl intro!: with_keeps split: option.split)
qed

lemma nack_keeps: "keeps_letters d (snd (nack e is w err d))"
proof -
  have "lt_id ` set (upd P (release_letter err) ls) = lt_id ` set ls" for P ls
    using map_id_upd [of "release_letter err" P ls] by (metis release_id set_map)
  then show ?thesis by (auto simp: nack_def Let_def keeping.le_refl intro!: with_keeps rewrite_keeps) blast
qed

lemma remove_keeps: "keeps_letters d (snd (remove_items True e items d))"
proof -
  obtain r d1 where "ack True e (map claim_of items) (the (lt_by (hd items))) d = (r, d1)" by fastforce
  then show ?thesis using ack_keeps [of d e "map claim_of items" "the (lt_by (hd items))"]
    by (cases r) (auto simp: remove_items_def keeping.le_refl)
qed

lemma letter_op_keeps: "keeps_letters d (letter_op True e x d)"
  by (cases x) (auto simp: append_keeps claim_keeps ack_keeps complete_keeps nack_keeps remove_keeps keeping.le_refl
      reconcile_claim_def queue_length_def queue_item_def Let_def intro!: with_keeps split: option.split)

text \<open>What happens to the files: a call, or a line that something else puts into the queue file, a malformed one for instance.\<close>

datatype file_event = Called call_env letter_call | Line_Put nat file_line

fun after_event :: "disk \<Rightarrow> file_event \<Rightarrow> disk" where
  "after_event d (Called e x) = letter_op True e x d"
| "after_event d (Line_Put n s) = d\<lparr>dk_live := take n (dk_live d) @ s # drop n (dk_live d)\<rparr>"

lemma event_keeps: "keeps_letters d (after_event d x)"
proof (cases x)
  case (Line_Put n s)
  have "set (dk_live d) = set (take n (dk_live d)) \<union> set (drop n (dk_live d))" by (metis append_take_drop_id set_append)
  then have "set (dk_live d) \<subseteq> set (dk_live (after_event d x))" by (auto simp: Line_Put)
  then have "live_ids d \<subseteq> live_ids (after_event d x)" by (auto simp: live_ids_def)
  then show ?thesis by (auto simp: keeps_letters_def Line_Put done_ids_def)
qed (simp add: letter_op_keeps)

lemma events_keep: "keeps_letters d (foldl after_event d xs)"
  by (induction xs arbitrary: d) (auto intro: keeping.le_refl keeping.le_trans event_keeps)

text \<open>
  C35. A letter whose append returned is in the file or has a completion receipt after any calls of any workers, each of
  which may crash at any point, even when malformed or other lines come into the file between the calls, at any place.
\<close>

theorem letters_are_never_lost:
  assumes "append_letter e item d = (Returned u, d1)" and "foldl after_event d1 xs = d2"
  shows "lt_id (normalize_letter (ev_fresh e 0) item) \<in> live_ids d2 \<union> done_ids d2"
proof -
  let ?l = "normalize_letter (ev_fresh e 0) item"
  obtain ls d0 where r: "rewrite (ev_crash e) (ls @ [?l]) () d0 = (Returned u, d1)"
    using assms(1) by (auto simp: append_letter_def with_records_def Let_def split: prod.splits result.splits if_splits)
  have "live_ids d1 = lt_id ` set (ls @ [?l])" by (simp only: conjunct2 [OF rewrite_returned [OF r]] live_ids_dump)
  then have "lt_id ?l \<in> live_ids d1" by simp
  then show ?thesis using events_keep [of d1 xs] assms(2) by (auto simp: keeps_letters_def)
qed

text \<open>A malformed line before the letter, a call that quarantines it, an acknowledgement without receipt, a crash.\<close>

definition rough_night :: "file_event list" where
  "rough_night = [Line_Put 0 (Broken [1, 2]), Called quiet (Claim ''w'' 5 60), Line_Put 1 (Broken [3]), Called quiet (Ack [(''i'', Some ''k'')] ''w''),
     Called (quiet\<lparr>ev_crash := Some After_Rename\<rparr>) (Complete (''i'', Some ''k'') ''w'' ''OK'' True)]"

lemma letters_are_never_lost_witness:
  "''i'' \<in> live_ids (foldl after_event (snd (append_letter quiet (deferral (''c'', ''g'')) empty_disk)) rough_night) \<union>
     done_ids (foldl after_event (snd (append_letter quiet (deferral (''c'', ''g'')) empty_disk)) rough_night)"
proof -
  have "append_letter quiet (deferral (''c'', ''g'')) empty_disk = (Returned (), snd (append_letter quiet (deferral (''c'', ''g'')) empty_disk))"
    by (simp add: append_letter_def with_records_def locked_records_def quiet_def empty_disk_def max_queue_bytes_def)
  note returned = this
  have i: "lt_id (normalize_letter (ev_fresh quiet 0) (deferral (''c'', ''g''))) = ''i''"
    by (simp add: normalize_letter_def deferral_def quiet_def)
  show ?thesis by (rule letters_are_never_lost [OF returned refl, unfolded i])
qed

subsection \<open>Leases\<close>

lemma claim_letters_claimed:
  assumes "l \<in> set (fst (claim_letters tok now w limit secs k ls))"
  shows "\<exists>l0\<in>set ls. \<exists>j. letter_free now l0 \<and> l = grab_letter (tok j) w (now + secs) l0 \<and> l \<in> set (snd (claim_letters tok now w limit secs k ls))"
  using assms by (induction ls arbitrary: k) (auto simp: Let_def split_def split: if_splits)

lemma claim_letters_other:
  "\<not> letter_free now l \<Longrightarrow> l \<in> set ls \<Longrightarrow> l \<in> set (snd (claim_letters tok now w limit secs k ls))"
  by (induction ls arbitrary: k) (auto simp: Let_def split_def)

lemma claim_returned:
  assumes "tidy d" and "claim_batch e w limit secs d = (Returned c, d')"
  shows "c = fst (claim_letters (ev_token e) (ev_now e) w (nat limit) secs 0 (letters d)) \<and> tidy d' \<and>
    letters d' = snd (claim_letters (ev_token e) (ev_now e) w (nat limit) secs 0 (letters d)) \<and> dk_receipts d' = dk_receipts d"
proof -
  let ?p = "claim_letters (ev_token e) (ev_now e) w (nat limit) secs 0 (letters d)"
  have "rewrite (ev_crash e) (snd ?p) (fst ?p) d = (Returned c, d')"
    using assms by (simp add: claim_batch_def with_tidy split_def split: if_splits)
  moreover have "distinct (map lt_id (snd ?p))" using tidy_letters [OF assms(1)] by (simp add: claim_letters_ids)
  ultimately show ?thesis using tidy_live by (auto dest!: rewrite_returned)
qed

text \<open>Calls that leave the lease of \<open>l\<close> alone: claims before it ends, and acknowledgements of other claims.\<close>

fun spares :: "letter \<Rightarrow> int \<Rightarrow> call_env \<times> letter_call \<Rightarrow> bool" where
  "spares l until (e, Claim w limit secs) = (ev_now e < until)"
| "spares l until (e, Ack is w) = (claim_of l \<notin> set is)"
| "spares l until (e, Complete i w out v) = (i \<noteq> claim_of l)"
| "spares l until (e, Reconcile r i w) = (i \<noteq> claim_of l)"
| "spares l until (e, Nack is w err) = (claim_of l \<notin> set is)"
| "spares l until (e, Remove items) = (claim_of l \<notin> claim_of ` set items)"
| "spares l until (e, _) = True"

lemma spared:
  assumes "spares l until (e, x)" and "lt_state l = L_PROCESSING" and "lt_lease l = Some until" and "l \<in> set ls"
  shows "l \<in> set (rewritten e x ls)"
proof (cases x)
  case (Claim w limit secs)
  then have "\<not> letter_free (ev_now e) l" using assms by (simp add: letter_free_def lease_over_def)
  then show ?thesis using Claim assms(4) by (simp add: claim_letters_other)
next
  case (Complete i w out v)
  then show ?thesis using assms by (auto intro!: set_drop_first(2))
next
  case (Nack "is" w err)
  then show ?thesis using assms by (auto simp: nacked_def set_upd)
qed (use assms in \<open>auto simp: acked_def Let_def\<close>)

text \<open>
  C36. Whatever happened before, a letter that a claim returned stays exactly as it was claimed, and no claim returns it
  again before its lease ends, as long as nobody acknowledges or releases that very claim; crashes change nothing of this.
\<close>

theorem leased_letters_are_exclusive:
  assumes "foldl (after_letter_call needs) empty_disk xs = d" and "claim_batch e w limit secs d = (Returned c, d1)" and "l \<in> set c"
    and "list_all (spares l (ev_now e + secs)) ys" and "foldl (after_letter_call needs) d1 ys = d2"
    and "claim_batch e' w' limit' secs' d2 = (Returned c', d3)" and "ev_now e' < ev_now e + secs"
  shows "lt_id l \<notin> lt_id ` set c' \<and> l \<in> set (letters d3)"
proof -
  have d: "tidy d" using after_letter_calls_tidy [OF empty_tidy] assms(1) by blast
  note c = claim_returned [OF d assms(2)]
  then obtain l0 j where l: "l = grab_letter (ev_token e j) w (ev_now e + secs) l0" "l \<in> set (letters d1)"
    using claim_letters_claimed [of l "ev_token e" "ev_now e" w "nat limit" secs 0 "letters d"] assms(3) by auto
  have s: "lt_state l = L_PROCESSING" "lt_lease l = Some (ev_now e + secs)" by (simp_all add: l(1) grab_letter_def)
  have "l \<in> set (rewritten (fst y) (snd y) ls)" if y: "y \<in> set ys" and ls: "l \<in> set ls" for y ls
    using spared [OF _ s ls, of "fst y" "snd y"] assms(4) y by (auto simp: list_all_iff)
  then have l2: "l \<in> set (letters d2)" using letters_invariant [of d1 "\<lambda>ls. l \<in> set ls" ys needs] c l(2) assms(5) by auto
  have d2: "tidy d2" using after_letter_calls_tidy c assms(5) by blast
  note c' = claim_returned [OF d2 assms(6)]
  have busy: "\<not> letter_free (ev_now e') l" using s assms(7) by (simp add: letter_free_def lease_over_def)
  have "lt_id l' \<noteq> lt_id l" if l': "l' \<in> set c'" for l'
  proof
    assume same: "lt_id l' = lt_id l"
    obtain l1 j where l1: "l1 \<in> set (letters d2)" "letter_free (ev_now e') l1" "l' = grab_letter (ev_token e' j) w' (ev_now e' + secs') l1"
      using claim_letters_claimed [of l' "ev_token e'" "ev_now e'" w' "nat limit'" secs' 0 "letters d2"] l' c' by auto
    have "lt_id l1 = lt_id l" using same l1(3) by (simp add: grab_letter_def)
    then have "l1 = l" using l1(1) l2 tidy_letters [OF d2] by (auto simp: distinct_map inj_on_def)
    then show False using busy l1(2) by simp
  qed
  then have "lt_id l \<notin> lt_id ` set c'" by (metis imageE)
  then show ?thesis using c' l2 claim_letters_other [OF busy] by simp
qed

subsection \<open>Receipts\<close>

text \<open>Receipts are only added, and only for letters without one.\<close>

definition receipts_kept :: "disk \<Rightarrow> disk \<Rightarrow> bool" where
  "receipts_kept d d' \<longleftrightarrow> (\<forall>i r. receipt_for d i = Some r \<longrightarrow> receipt_for d' i = Some r)"

interpretation recorded: handler_frame receipts_kept
  by unfold_locales (auto simp: receipts_kept_def)

lemma receipts_cong: "dk_receipts d' = dk_receipts d \<Longrightarrow> receipts_kept d d'"
  by (simp add: receipts_kept_def receipt_for_def)

lemma receipt_for_append: "receipt_for (d\<lparr>dk_receipts := dk_receipts d @ [r]\<rparr>) i = (if i \<noteq> [] \<and> re_queue r = i then Some r else receipt_for d i)"
  by (simp add: receipt_for_def)

lemma rewrite_receipts [simp]: "dk_receipts (snd (rewrite cp ls x d)) = dk_receipts d"
  using snd_rewrite [of cp ls x d] by auto

lemma rewrite_kept [simp]: "receipts_kept d (snd (rewrite cp ls x d))"
  by (rule receipts_cong) simp

lemma locked_receipts: "dk_receipts (snd (locked_records e d)) = dk_receipts d"
  by (simp add: locked_records_def Let_def)

lemma with_receipts:
  assumes "\<And>ls d1. receipts_kept d1 (snd (f ls d1))"
  shows "receipts_kept d (snd (with_records e f d))"
proof -
  obtain r d1 where r: "locked_records e d = (r, d1)" by fastforce
  have "receipts_kept d d1" using locked_receipts [of e d] r by (intro receipts_cong) simp
  then show ?thesis using assms r recorded.le_trans by (cases r) (auto simp: with_records_def)
qed

lemma ack_receipts: "receipts_kept d (snd (ack needs e is w d))"
  by (auto simp: ack_def Let_def recorded.le_refl intro!: with_receipts)

lemma write_receipt_kept: "receipts_kept d (snd (write_receipt e w out l d))"
  by (auto simp: write_receipt_def receipts_kept_def receipt_for_append letter_receipt_def)

lemma complete_receipts: "receipts_kept d (snd (complete_letter e i w out v d))"
proof -
  have "receipts_kept d (snd (case write_receipt e w out l d of (Returned _, d1) \<Rightarrow> rewrite (ev_crash e) ls True d1 | (_, d1) \<Rightarrow> (Crashed, d1)))" for ls d l
  proof -
    obtain r d1 where r: "write_receipt e w out l d = (r, d1)" by fastforce
    have "receipts_kept d d1" using write_receipt_kept [of d e w out l] r by simp
    moreover have "receipts_kept d1 (snd (rewrite (ev_crash e) ls True d1))" by (rule rewrite_kept)
    ultimately show ?thesis using r recorded.le_trans by (cases r) auto
  qed
  then show ?thesis
    by (auto simp: complete_letter_def Let_def recorded.le_refl intro!: with_receipts split: option.split)
qed

lemma remove_receipts: "receipts_kept d (snd (remove_items needs e items d))"
proof -
  obtain r d1 where "ack needs e (map claim_of items) (the (lt_by (hd items))) d = (r, d1)" by fastforce
  then show ?thesis using ack_receipts [of d needs e "map claim_of items" "the (lt_by (hd items))"]
    by (cases r) (auto simp: remove_items_def recorded.le_refl)
qed

lemma letter_op_receipts: "receipts_kept d (letter_op needs e x d)"
  by (cases x) (auto simp: append_letter_def claim_batch_def nack_def ack_receipts complete_receipts remove_receipts recorded.le_refl split_def
      reconcile_claim_def queue_length_def queue_item_def Let_def intro!: with_receipts split: option.split)

lemma letter_calls_receipts: "receipts_kept d (foldl (after_letter_call needs) d xs)"
  by (induction xs arbitrary: d) (auto simp: after_letter_call_def intro: recorded.le_refl recorded.le_trans letter_op_receipts)

lemma calm_ack:
  assumes "tidy d" and "l \<in> set (letters d)" and "held_by w l" and "receipt_for d (lt_id l) \<noteq> None"
  shows "ack True (calm e) [claim_of l] w d = (Returned True, d\<lparr>dk_live := map dump (filter (\<lambda>x. claim_of x \<noteq> claim_of l) (letters d))\<rparr>)"
  using assms by (auto simp: ack_def with_tidy calm_def claim_of_def)

text \<open>
  C37. When a worker completes a letter and crashes after the receipt is on disk and before the letter is removed, the
  letter may be delivered again; whoever claims it then closes it by the receipt, without running it again.
\<close>

theorem crash_after_receipt_is_repaired:
  assumes "foldl (after_letter_call True) empty_disk xs = d" and "complete_letter e i w out True d = (Crashed, d1)"
    and "ev_crash e = Some After_Receipt" and "fst i \<noteq> []"
    and "foldl (after_letter_call True) d1 ys = d2" and "claim_batch e' w' limit secs d2 = (Returned c, d3)" and "l \<in> set c" and "lt_id l = fst i"
  shows "\<exists>d4. reconcile_claim True (calm e'') (receipt_for d3 (lt_id l)) (claim_of l) w' d3 = (Returned True, d4) \<and> lt_id l \<notin> live_ids d4"
proof -
  have d: "tidy d" using after_letter_calls_tidy [OF empty_tidy] assms(1) by blast
  let ?P = "\<lambda>l. claim_of l = i \<and> held_by w l"
  obtain h where h: "find ?P (letters d) = Some h" and wr: "write_receipt e w out h d = (Crashed, d1)"
  proof (cases "find ?P (letters d)")
    case None
    then show ?thesis using assms(2) d by (simp add: complete_letter_def with_tidy Let_def)
  next
    case (Some h)
    obtain r d0 where r: "write_receipt e w out h d = (r, d0)" by fastforce
    have "r = Crashed \<and> d0 = d1"
      using assms(2,3) Some r d by (cases r) (auto simp: complete_letter_def with_tidy Let_def rewrite_def write_receipt_def split: if_splits)
    then show ?thesis using that Some r by blast
  qed
  have hid: "lt_id h = fst i" using find_SomeD [OF h] by (auto simp: claim_of_def)
  obtain r where r: "receipt_for d1 (fst i) = Some r" "re_verified r"
    using wr assms(3,4) hid by (auto simp: write_receipt_def receipt_for_append letter_receipt_def split: if_splits)
  have "dk_live d1 = dk_live d" using write_receipt_letters [of e w out h d] wr by simp
  then have "tidy d1" using d by (simp add: tidy_def)
  then have d2: "tidy d2" using after_letter_calls_tidy assms(5) by blast
  note c = claim_returned [OF d2 assms(6)]
  have "receipt_for d2 (lt_id l) = Some r" using letter_calls_receipts [of d1 True ys] assms(5,8) r(1) by (auto simp: receipts_kept_def)
  then have r3: "receipt_for d3 (lt_id l) = Some r" using c by (simp add: receipt_for_def split: if_splits)
  have l: "l \<in> set (letters d3)" "held_by w' l"
    using claim_letters_claimed [of l "ev_token e'" "ev_now e'" w' "nat limit" secs 0 "letters d2"] assms(7) c
    by (auto simp: grab_letter_def held_by_def)
  let ?d4 = "d3\<lparr>dk_live := map dump (filter (\<lambda>x. claim_of x \<noteq> claim_of l) (letters d3))\<rparr>"
  have rec: "reconcile_claim True (calm e'') (receipt_for d3 (lt_id l)) (claim_of l) w' d3 = (Returned True, ?d4)"
    using calm_ack [of d3 l w' e''] c l r3 r(2) by (simp add: reconcile_claim_def)
  have "lt_id x \<noteq> lt_id l" if x: "x \<in> set (letters d3)" "claim_of x \<noteq> claim_of l" for x
    using x l(1) tidy_letters [of d3] c by (auto simp: distinct_map inj_on_def)
  moreover have "live_ids ?d4 = lt_id ` set (filter (\<lambda>x. claim_of x \<noteq> claim_of l) (letters d3))" by (rule live_ids_dump)
  ultimately have "lt_id l \<notin> live_ids ?d4" by fastforce
  with rec show ?thesis by blast
qed

subsection \<open>Blocked letters\<close>

text \<open>A letter that was blocked after its last attempt stays as it is: no call claims, changes or removes it.\<close>

lemma blocked_letters_stay:
  assumes "foldl (after_letter_call needs) empty_disk xs = d" and "l \<in> set (letters d)" and "lt_state l = L_BLOCKED"
    and "foldl (after_letter_call needs) d ys = d'"
  shows "l \<in> set (letters d')"
proof -
  have d: "tidy d" using after_letter_calls_tidy [OF empty_tidy] assms(1) by blast
  have "l \<in> set (rewritten e x ls)" if dis: "distinct (map lt_id ls)" and l: "l \<in> set ls" for e x ls
  proof -
    have only: "h = l" if "h \<in> set ls" "claim_of h = claim_of l" for h
      using dis l that by (auto simp: claim_of_def distinct_map inj_on_def)
    have kept: "l \<in> set (acked is w ls)" for "is" w
    proof (cases "list_all (\<lambda>x. x \<in> set (map claim_of (filter (held_by w) ls))) is")
      case True
      have "claim_of l \<notin> set is"
      proof
        assume "claim_of l \<in> set is"
        then have "claim_of l \<in> set (map claim_of (filter (held_by w) ls))" using True by (simp add: list_all_iff)
        then obtain h where "h \<in> set ls" "held_by w h" "claim_of h = claim_of l" by auto
        then show False using only [of h] assms(3) by (simp add: held_by_def)
      qed
      then show ?thesis using l by (simp add: acked_def)
    next
      case False
      then show ?thesis using l unfolding acked_def by (simp only: if_False)
    qed
    show ?thesis
    proof (cases x)
      case (Claim w limit secs)
      then show ?thesis using claim_letters_other [of "ev_now e" l ls] l assms(3) by (simp add: letter_free_def)
    next
      case (Complete i w out v)
      then show ?thesis using set_drop_first(2) [OF l] assms(3) by (simp add: held_by_def)
    next
      case (Nack "is" w err)
      then show ?thesis using l assms(3) by (auto simp: nacked_def set_upd held_by_def list_all_iff)
    qed (use l kept in \<open>auto simp: Let_def\<close>)
  qed
  then show ?thesis using letters_invariant [of d "\<lambda>ls. l \<in> set ls" ys needs] d assms(2,4) by blast
qed

subsection \<open>A round of the worker\<close>


































subsection \<open>Witnesses\<close>

definition one_letter :: "stored \<Rightarrow> disk" where
  "one_letter s = foldl (after_letter_call True) empty_disk [(quiet, Append s)]"

definition letter_c :: letter where
  "letter_c = normalize_letter ''i'' (deferral (''c'', ''g''))"

lemmas letter_eval = after_letter_call_def append_letter_def claim_batch_def complete_letter_def nack_def with_tidy
  quiet_def max_queue_bytes_def rewrite_def letter_free_def lease_over_def grab_letter_def release_letter_def max_letter_attempts_def
  claim_of_def held_by_def receipt_for_def write_receipt_def Let_def

lemma letter_c_sel [simp]: "lt_id letter_c = ''i''" "lt_state letter_c = L_PENDING" "lt_attempts letter_c = 0" "lt_token letter_c = None"
  by (simp_all add: letter_c_def normalize_letter_def deferral_def)

lemma one_letter_eq: "one_letter s = empty_disk\<lparr>dk_live := map dump [normalize_letter ''i'' s]\<rparr>"
  using empty_tidy by (simp add: one_letter_def letter_eval empty_disk_def letters_def)

lemma single [simp]: "tidy (d\<lparr>dk_live := [dump l]\<rparr>)" "letters (d\<lparr>dk_live := [dump l]\<rparr>) = [l]"
  using tidy_live [of "[l]" d] letters_live [of "[l]" d] by simp_all

lemma claim_single:
  "letter_free n l \<Longrightarrow> claim_batch (quiet\<lparr>ev_now := n\<rparr>) w 5 60 (d\<lparr>dk_live := [dump l]\<rparr>) =
    (if w = [] then (Raised ''ValueError'', d\<lparr>dk_live := [dump l]\<rparr>)
     else (Returned [grab_letter ''k'' w (n + 60) l], d\<lparr>dk_live := [dump (grab_letter ''k'' w (n + 60) l)]\<rparr>))"
  by (simp add: claim_batch_def with_tidy quiet_def Let_def)

lemma leased_letters_are_exclusive_witness:
  "''i'' \<notin> lt_id ` set [] \<and> grab_letter ''k'' ''w'' 60 letter_c \<in>
    set (letters (snd (claim_batch (quiet\<lparr>ev_now := 30\<rparr>) ''v'' 5 60 (snd (claim_batch (quiet\<lparr>ev_now := 0\<rparr>) ''w'' 5 60 (one_letter (deferral (''c'', ''g''))))))))"
proof -
  have d: "one_letter (deferral (''c'', ''g'')) = empty_disk\<lparr>dk_live := [dump letter_c]\<rparr>" by (simp add: one_letter_eq letter_c_def)
  have c: "claim_batch (quiet\<lparr>ev_now := 0\<rparr>) ''w'' 5 60 (one_letter (deferral (''c'', ''g''))) =
      (Returned [grab_letter ''k'' ''w'' 60 letter_c], empty_disk\<lparr>dk_live := [dump (grab_letter ''k'' ''w'' 60 letter_c)]\<rparr>)"
    using claim_single [of 0 letter_c "''w''" empty_disk] d by (simp add: letter_free_def)
  have "claim_batch (quiet\<lparr>ev_now := 30\<rparr>) ''v'' 5 60 (empty_disk\<lparr>dk_live := [dump (grab_letter ''k'' ''w'' 60 letter_c)]\<rparr>) =
      (Returned [], empty_disk\<lparr>dk_live := [dump (grab_letter ''k'' ''w'' 60 letter_c)]\<rparr>)"
    by (simp add: letter_eval)
  note busy = this
  show ?thesis using leased_letters_are_exclusive [OF one_letter_def [symmetric] c, of _ "[]" _ "quiet\<lparr>ev_now := 30\<rparr>" "''v''" 5 60 "[]"] busy c
    by (simp add: grab_letter_def)
qed

lemma crash_after_receipt_is_repaired_witness:
  "\<exists>d1 l d3 d4. complete_letter (quiet\<lparr>ev_crash := Some After_Receipt\<rparr>) (''i'', Some ''k'') ''w'' ''OK'' True
      (snd (claim_batch (quiet\<lparr>ev_now := 0\<rparr>) ''w'' 5 60 (one_letter (deferral (''c'', ''g''))))) = (Crashed, d1) \<and>
    claim_batch (quiet\<lparr>ev_now := 100\<rparr>) ''v'' 5 60 d1 = (Returned [l], d3) \<and>
    reconcile_claim True (calm quiet) (receipt_for d3 ''i'') (claim_of l) ''v'' d3 = (Returned True, d4) \<and> ''i'' \<notin> live_ids d4"
proof -
  let ?l = "grab_letter ''k'' ''w'' 60 letter_c"
  have d: "foldl (after_letter_call True) empty_disk [(quiet, Append (deferral (''c'', ''g''))), (quiet\<lparr>ev_now := 0\<rparr>, Claim ''w'' 5 60)] =
      empty_disk\<lparr>dk_live := [dump ?l]\<rparr>"
    using claim_single [of 0 letter_c "''w''" empty_disk] one_letter_eq [of "deferral (''c'', ''g'')"]
    by (simp add: one_letter_def letter_c_def [symmetric] after_letter_call_def [of True _ "(_, Claim _ _ _)"] letter_free_def)
  have claimed: "snd (claim_batch (quiet\<lparr>ev_now := 0\<rparr>) ''w'' 5 60 (one_letter (deferral (''c'', ''g'')))) = empty_disk\<lparr>dk_live := [dump ?l]\<rparr>"
    using claim_single [of 0 letter_c "''w''" empty_disk] one_letter_eq [of "deferral (''c'', ''g'')"] by (simp add: letter_c_def [symmetric] letter_free_def)
  let ?d1 = "empty_disk\<lparr>dk_live := [dump ?l], dk_receipts := [letter_receipt 0 ''w'' ''OK'' ?l]\<rparr>"
  have c: "complete_letter (quiet\<lparr>ev_crash := Some After_Receipt\<rparr>) (''i'', Some ''k'') ''w'' ''OK'' True (empty_disk\<lparr>dk_live := [dump ?l]\<rparr>) = (Crashed, ?d1)"
    by (simp add: letter_eval) (simp add: empty_disk_def)
  have "letter_free 100 ?l" by (simp add: letter_free_def grab_letter_def lease_over_def)
  then have again: "claim_batch (quiet\<lparr>ev_now := 100\<rparr>) ''v'' 5 60 ?d1 =
      (Returned [grab_letter ''k'' ''v'' 160 ?l], ?d1\<lparr>dk_live := [dump (grab_letter ''k'' ''v'' 160 ?l)]\<rparr>)"
    using claim_single [of 100 ?l "''v''" "empty_disk\<lparr>dk_receipts := [letter_receipt 0 ''w'' ''OK'' ?l]\<rparr>"] by (simp add: empty_disk_def)
  have "lt_id (grab_letter ''k'' ''v'' 160 ?l) = ''i''" by (simp add: grab_letter_def)
  note i = this
  have "foldl (after_letter_call True) ?d1 [] = ?d1" by simp
  from crash_after_receipt_is_repaired [OF d c _ _ this again, of _ quiet] c again claimed i show ?thesis by auto
qed

lemma blocked_letters_stay_witness:
  "map lt_state (letters (foldl (after_letter_call True) (one_letter ((deferral (''c'', ''g''))\<lparr>sl_status := Some L_BLOCKED\<rparr>))
     [(quiet, Claim ''w'' 5 60), (quiet, Nack [(''i'', None)] ''w'' ''E'')])) = [L_BLOCKED]"
proof -
  let ?l = "normalize_letter ''i'' ((deferral (''c'', ''g''))\<lparr>sl_status := Some L_BLOCKED\<rparr>)"
  let ?d = "one_letter ((deferral (''c'', ''g''))\<lparr>sl_status := Some L_BLOCKED\<rparr>)"
  have s: "lt_state ?l = L_BLOCKED" by (simp add: normalize_letter_def)
  have "?l \<in> set (letters ?d)" by (simp add: one_letter_eq)
  from blocked_letters_stay [OF one_letter_def [symmetric] this s refl,
      of "[(quiet, Claim ''w'' 5 60), (quiet, Nack [(''i'', None)] ''w'' ''E'')]"]
  have "?l \<in> set (letters (foldl (after_letter_call True) ?d [(quiet, Claim ''w'' 5 60), (quiet, Nack [(''i'', None)] ''w'' ''E'')]))" .
  moreover have "foldl (after_letter_call True) ?d [(quiet, Claim ''w'' 5 60), (quiet, Nack [(''i'', None)] ''w'' ''E'')] = ?d"
    using s by (simp add: one_letter_eq letter_eval)
  ultimately show ?thesis using s by (simp add: one_letter_eq)
qed



text \<open>
  The limit of attempts holds for workers that give a letter back. A letter whose workers crash is delivered again when
  the lease ends, however often: here for the sixth time.
\<close>

lemma crashing_workers_never_block:
  "map (\<lambda>l. (lt_state l, lt_attempts l)) (letters (foldl (after_letter_call True) (one_letter (deferral (''c'', ''g'')))
     (map (\<lambda>n. (quiet\<lparr>ev_now := n\<rparr>, Claim ''w'' 5 60)) [0, 100, 200, 300, 400, 500]))) = [(L_PROCESSING, 6)]"
  using one_letter_eq [of "deferral (''c'', ''g'')"]
  by (simp add: after_letter_call_def claim_single letter_free_def grab_letter_def lease_over_def letter_c_def [symmetric])

end
