(* ===== verification/Consolidation.thy ===== *)
theory Consolidation imports Dead_Letter Dispatch Complex_Main begin

text \<open>
  The validation of memory candidates (\<open>mesa_memory/consolidation\<close>): the validators and policies of \<open>validator.py\<close>
  and \<open>policy.py\<close>, \<open>AdaptiveRouter.validate\<close> of \<open>router.py\<close>, and of \<open>loop.py\<close> the circuit breaker, the retries and
  \<open>ConsolidationLoop.run_batch\<close> with its extraction into the ledger and its dead letters. The answers of the models,
  JSON parsing, the patterns, the clock and timeouts are parameters, numbered by call. Models, prompts, telemetry and
  the text of exceptions are left out.
\<close>

subsection \<open>Records and receipts\<close>

text \<open>\<open>Odd_Mode\<close> is a persisted mode that is not an integer.\<close>

datatype mode_value = Int_Mode int | Odd_Mode

record audit =
  au_route :: string
  au_route_reason :: string
  au_primary :: string
  au_secondary :: string
  au_primary_why :: string
  au_secondary_why :: "string option"
  au_accepted :: bool
  au_reason :: string

record work_item =
  wi_id :: string
  wi_agent :: string
  wi_deferred :: bool
  wi_mode :: "mode_value option"
  wi_candidate :: "string option"
  wi_mutation :: "string option"
  wi_content :: string
  wi_memory_type :: "string option"
  wi_importance :: "rat option"
  wi_source_ref :: "string option"
  wi_span :: "string option"
  wi_correction :: bool
  wi_force :: bool
  wi_audit :: "audit option"

record fact_candidate =
  fc_subject :: string
  fc_predicate :: string
  fc_object :: string
  fc_text :: string
  fc_confidence :: "string option"
  fc_from :: "string option"
  fc_to :: "string option"
  fc_span :: "string option"
  fc_supersedes :: "string option"
  fc_metadata :: "json option"
  fc_type :: "string option"

text \<open>
  \<open>le_a n\<close>, \<open>le_b n\<close>: the \<open>n\<close>-th answer of a validator, \<open>None\<close> when it raises; \<open>le_late n\<close>: the \<open>n\<close>-th attempt
  times out; \<open>le_check n\<close>, \<open>le_fail n\<close>: the clock when the breaker is read and when a failure is recorded.
\<close>

record loop_env =
  le_policy :: nat
  le_composable :: "nat \<Rightarrow> bool"
  le_a :: "nat \<Rightarrow> work_item \<Rightarrow> jval option"
  le_b :: "nat \<Rightarrow> work_item \<Rightarrow> jval option"
  le_late :: "nat \<Rightarrow> bool"
  le_check :: "nat \<Rightarrow> int"
  le_fail :: "nat \<Rightarrow> int"
  le_threshold :: nat
  le_cooldown :: int
  le_tries :: nat
  le_unfence :: "string \<Rightarrow> string"
  le_json :: "string \<Rightarrow> jval option"
  le_safe :: "jval option \<Rightarrow> string"
  le_corrects :: "string \<Rightarrow> bool"
  le_legal :: bool
  le_space :: "char \<Rightarrow> bool"
  le_extract :: "work_item \<Rightarrow> fact_candidate list option"
  le_append :: "nat \<Rightarrow> call_env"

record loop_state =
  lp_a :: nat
  lp_b :: nat
  lp_attempts :: nat
  lp_failures :: nat
  lp_last :: int
  lp_appends :: nat
  lp_disk :: disk
  lp_db :: db
  lp_invalidated :: "(string \<times> string) list"

datatype check_error = Tier3_Error | Late | Breaker_Open | Not_Composable

subsection \<open>Validators and policies\<close>

text \<open>\<open>_parse_validator_response\<close>: \<open>None\<close> is a \<open>Tier3ValidationError\<close>.\<close>

definition parse_response :: "loop_env \<Rightarrow> jval \<Rightarrow> (string \<times> string) option" where
  "parse_response env raw =
    (case raw of
       JText t \<Rightarrow>
         let cleaned = le_unfence env t in
         if cleaned = [] then None
         else (case le_json env cleaned of
             Some (JDict m) \<Rightarrow>
               (case map_of m ''decision'' of
                  Some (JText d) \<Rightarrow> if d \<in> {''STORE'', ''DISCARD''} then Some (d, le_safe env (map_of m ''justification'')) else None
                | _ \<Rightarrow> None)
           | _ \<Rightarrow> None)
     | _ \<Rightarrow> None)"

definition deterministic_audit :: audit where
  "deterministic_audit =
    \<lparr>au_route = ''deterministic_only'', au_route_reason = ''mode_zero_deterministic_only'', au_primary = ''SKIPPED_BY_POLICY'',
     au_secondary = ''NOT_RUN'', au_primary_why = ''Deterministic validation only by policy; LLM validation skipped.'',
     au_secondary_why = None, au_accepted = True, au_reason = ''skipped_by_policy''\<rparr>"

definition single_audit :: "string \<times> string \<Rightarrow> audit" where
  "single_audit r =
    \<lparr>au_route = ''single_model'', au_route_reason = ''single_llm_validation'', au_primary = fst r, au_secondary = ''NOT_RUN'',
     au_primary_why = snd r, au_secondary_why = None, au_accepted = (fst r = ''STORE''),
     au_reason = (if fst r = ''STORE'' then ''single_llm_store'' else ''single_llm_discard'')\<rparr>"

definition dual_audit :: "string \<times> string \<Rightarrow> string \<times> string \<Rightarrow> audit" where
  "dual_audit a b =
    \<lparr>au_route = ''dual_llm'', au_route_reason = ''dual_llm_consensus'', au_primary = fst a, au_secondary = fst b,
     au_primary_why = snd a, au_secondary_why = Some (snd b), au_accepted = (fst a = ''STORE'' \<and> fst b = ''STORE''),
     au_reason = (if fst a = ''STORE'' \<and> fst b = ''STORE'' then ''dual_llm_consensus_store''
       else if fst a = fst b then ''dual_llm_consensus_discard'' else ''dual_llm_disagreement'')\<rparr>"

text \<open>\<open>validate_with_audit\<close> of the policy of a mode; both validators of mode 2 are asked at once.\<close>

definition validate_with_audit :: "loop_env \<Rightarrow> nat \<Rightarrow> work_item \<Rightarrow> loop_state \<Rightarrow> (check_error + audit) \<times> loop_state" where
  "validate_with_audit env m w s =
    (if m = 0 then (Inr deterministic_audit, s)
     else if m = 1 then
       (case Option.bind (le_a env (lp_a s) w) (parse_response env) of None \<Rightarrow> Inl Tier3_Error | Some r \<Rightarrow> Inr (single_audit r),
        s\<lparr>lp_a := Suc (lp_a s)\<rparr>)
     else
       (case (le_a env (lp_a s) w, le_b env (lp_b s) w) of
          (Some x, Some y) \<Rightarrow>
            (case (parse_response env x, parse_response env y) of (Some a, Some b) \<Rightarrow> Inr (dual_audit a b) | _ \<Rightarrow> Inl Tier3_Error)
        | _ \<Rightarrow> Inl Tier3_Error,
        s\<lparr>lp_a := Suc (lp_a s), lp_b := Suc (lp_b s)\<rparr>))"

text \<open>\<open>AdaptiveRouter.validate\<close>; a routing decision of this router is never the deferred \<open>None\<close>.\<close>

datatype validation = Routed string bool audit | Audited audit

definition route_item :: "loop_env \<Rightarrow> work_item \<Rightarrow> loop_state \<Rightarrow> (check_error + validation) \<times> work_item \<times> loop_state" where
  "route_item env w s =
    (if le_policy env = 0 then
       (case validate_with_audit env 0 w s of (r, s') \<Rightarrow> (bindE r (\<lambda>a. Inr (Routed ''deterministic_only'' True a)), w, s'))
     else if le_policy env = 1 then
       (case validate_with_audit env 1 w s of (r, s') \<Rightarrow> (bindE r (\<lambda>a. Inr (Routed ''single_model'' (au_accepted a) a)), w, s'))
     else
       let corrects = le_corrects env (wi_content w);
           w' = (if corrects then w\<lparr>wi_deferred := True, wi_correction := True\<rparr> else w);
           why = (if corrects then ''explicit_correction_requires_tier3'' else if le_legal env then ''legal_domain_strict_mode''
             else if wi_force w then ''provenance_dual_review'' else ''dual_llm_consensus'')
       in (case validate_with_audit env 2 w' s of
             (r, s') \<Rightarrow> (bindE r (\<lambda>a. Inr (Routed ''dual_llm'' (au_accepted a) (a\<lparr>au_route_reason := why\<rparr>))), w', s')))"

subsection \<open>Breaker and retries\<close>

definition breaker_open :: "loop_env \<Rightarrow> int \<Rightarrow> loop_state \<Rightarrow> bool" where
  "breaker_open env now s \<longleftrightarrow> le_threshold env \<le> lp_failures s \<and> now - lp_last s < le_cooldown env"

definition breaker_note :: "loop_env \<Rightarrow> bool \<Rightarrow> loop_state \<Rightarrow> loop_state" where
  "breaker_note env ok s = (if ok then s\<lparr>lp_failures := 0\<rparr> else s\<lparr>lp_failures := Suc (lp_failures s), lp_last := le_fail env (lp_attempts s)\<rparr>)"

text \<open>\<open>_policy_for_record_mode\<close>.\<close>

definition policy_for :: "loop_env \<Rightarrow> mode_value option \<Rightarrow> check_error + nat" where
  "policy_for env m =
    (if m = None \<or> m = Some (Int_Mode (int (le_policy env))) then Inr (le_policy env)
     else (case m of
         Some (Int_Mode k) \<Rightarrow>
           if k \<notin> {0, 1, 2} then Inl Tier3_Error else if le_composable env (nat k) then Inr (nat k) else Inl Not_Composable
       | _ \<Rightarrow> Inl Tier3_Error))"

text \<open>One attempt of \<open>_validate_with_timeout\<close>; an attempt that is late has made its calls.\<close>

definition validate_attempt :: "loop_env \<Rightarrow> work_item \<Rightarrow> loop_state \<Rightarrow> (check_error + validation) \<times> work_item \<times> loop_state" where
  "validate_attempt env w s0 =
    (let s = s0\<lparr>lp_attempts := Suc (lp_attempts s0)\<rparr> in
     case policy_for env (wi_mode w) of
       Inl e \<Rightarrow> (Inl e, w, s)
     | Inr m \<Rightarrow>
         if m = 0 then (Inr (Audited deterministic_audit), w, s)
         else if breaker_open env (le_check env (lp_attempts s0)) s then (Inl Breaker_Open, w, s)
         else
           (case (if m = le_policy env then route_item env w s
                  else (case validate_with_audit env m w s of (r, s') \<Rightarrow> (bindE r (\<lambda>a. Inr (Audited a)), w, s'))) of
              (r, w', s') \<Rightarrow>
                let r' = (if le_late env (lp_attempts s0) then Inl Late else r) in
                (r', w', breaker_note env (case r' of Inl _ \<Rightarrow> False | Inr _ \<Rightarrow> True) s')))"

text \<open>\<open>tenacity.retry\<close> with \<open>stop_after_attempt\<close>: \<open>None\<close> is the \<open>RetryError\<close>.\<close>

fun with_retries :: "loop_env \<Rightarrow> nat \<Rightarrow> work_item \<Rightarrow> loop_state \<Rightarrow> validation option \<times> work_item \<times> loop_state" where
  "with_retries env 0 w s = (None, w, s)"
| "with_retries env (Suc n) w s =
    (case validate_attempt env w s of
       (Inr v, w', s') \<Rightarrow> (Some v, w', s')
     | (Inl _, w', s') \<Rightarrow> with_retries env n w' s')"

subsection \<open>The batch\<close>

record batch_outcome =
  oc_accepted :: "string list"
  oc_rejected :: "string list"
  oc_deferred :: "string list"

definition no_outcome :: batch_outcome where
  "no_outcome = \<lparr>oc_accepted = [], oc_rejected = [], oc_deferred = []\<rparr>"

text \<open>\<open>dead_letter_queue.aappend\<close>; what it raises ends the batch.\<close>

definition dead_letter :: "loop_env \<Rightarrow> work_item \<Rightarrow> loop_state \<Rightarrow> string option \<times> loop_state" where
  "dead_letter env w s =
    (case append_letter (calm (le_append env (lp_appends s))) (deferral (wi_id w, wi_agent w)) (lp_disk s) of
       (r, d) \<Rightarrow> (case r of Raised x \<Rightarrow> Some x | _ \<Rightarrow> None, s\<lparr>lp_disk := d, lp_appends := Suc (lp_appends s)\<rparr>))"

definition strip_nonempty :: "loop_env \<Rightarrow> string option \<Rightarrow> bool" where
  "strip_nonempty env x = (case x of None \<Rightarrow> False | Some t \<Rightarrow> list_ex (\<lambda>c. \<not> le_space env c) t)"

definition begins :: "string \<Rightarrow> string \<Rightarrow> bool" where
  "begins p t \<longleftrightarrow> take (length p) t = p"

text \<open>\<open>_requires_provenance_dual_review\<close>.\<close>

definition needs_dual_review :: "loop_env \<Rightarrow> work_item \<Rightarrow> bool" where
  "needs_dual_review env w \<longleftrightarrow>
    wi_memory_type w \<in> {Some ''architecture'', Some ''constraint'', Some ''decision''}
    \<and> (case wi_importance w of None \<Rightarrow> False | Some i \<Rightarrow> 7 / 10 \<le> i)
    \<and> strip_nonempty env (wi_source_ref w)
    \<and> \<not> begins ''raw-log:'' (the (wi_source_ref w)) \<and> \<not> begins ''mcp_tool'' (the (wi_source_ref w))
    \<and> strip_nonempty env (wi_span w)"

definition passes :: "validation \<Rightarrow> bool" where
  "passes v = (case v of Routed _ b _ \<Rightarrow> b | Audited a \<Rightarrow> au_accepted a)"

definition audit_of :: "validation \<Rightarrow> audit" where
  "audit_of v = (case v of Routed _ _ a \<Rightarrow> a | Audited a \<Rightarrow> a)"

datatype gate_result = Ready work_item | Refused_Item work_item | Put_Off work_item

text \<open>Phase 1 for one record, which it mutates; the left side is what aborts the batch.\<close>

definition gate :: "loop_env \<Rightarrow> work_item \<Rightarrow> loop_state \<Rightarrow> (string + gate_result) \<times> loop_state" where
  "gate env w s =
    (if \<not> wi_deferred w \<and> wi_mode w = None then (Inr (Ready w), s)
     else
       let w0 = (if needs_dual_review env w then w\<lparr>wi_force := True\<rparr> else w) in
       (case with_retries env (le_tries env) w0 s of
          (None, w1, s1) \<Rightarrow> (case dead_letter env w1 s1 of (Some x, s2) \<Rightarrow> (Inl x, s2) | (None, s2) \<Rightarrow> (Inr (Put_Off w1), s2))
        | (Some v, w1, s1) \<Rightarrow>
            let w2 = w1\<lparr>wi_audit := Some (audit_of v)\<rparr> in
            if passes v then (Inr (Ready w2), s1)
            else (Inr (Refused_Item w2),
              if truthy (wi_candidate w2) then s1 else s1\<lparr>lp_invalidated := lp_invalidated s1 @ [(wi_agent w2, wi_id w2)]\<rparr>)))"

definition note_result :: "gate_result \<Rightarrow> batch_outcome \<Rightarrow> batch_outcome" where
  "note_result g oc =
    (case g of
       Ready w \<Rightarrow> oc\<lparr>oc_accepted := oc_accepted oc @ [wi_id w]\<rparr>
     | Refused_Item w \<Rightarrow> oc\<lparr>oc_rejected := oc_rejected oc @ [wi_id w]\<rparr>
     | Put_Off w \<Rightarrow> oc\<lparr>oc_deferred := oc_deferred oc @ [wi_id w]\<rparr>)"

fun gates :: "loop_env \<Rightarrow> work_item list \<Rightarrow> batch_outcome \<Rightarrow> loop_state \<Rightarrow> (string + (gate_result list \<times> batch_outcome)) \<times> loop_state" where
  "gates env [] oc s = (Inr ([], oc), s)"
| "gates env (w # ws) oc s =
    (case gate env w s of
       (Inl x, s1) \<Rightarrow> (Inl x, s1)
     | (Inr g, s1) \<Rightarrow>
         (case gates env ws (note_result g oc) s1 of
            (Inl x, s2) \<Rightarrow> (Inl x, s2)
          | (Inr (gs, oc'), s2) \<Rightarrow> (Inr (g # gs, oc'), s2)))"

definition ready_items :: "gate_result list \<Rightarrow> work_item list" where
  "ready_items gs = concat (map (\<lambda>g. case g of Ready w \<Rightarrow> [w] | _ \<Rightarrow> []) gs)"

definition canonical_triplets :: "fact_candidate list \<Rightarrow> triplet list" where
  "canonical_triplets fs = map (\<lambda>f. \<lparr>tr_head = Some (fc_subject f), tr_relation = Some (fc_predicate f), tr_tail = Some (fc_object f),
     tr_literal = None, tr_confidence = fc_confidence f, tr_fact_text = Some (fc_text f),
     tr_from = fc_from f, tr_to = fc_to f, tr_span = fc_span f, tr_supersedes = fc_supersedes f, tr_object_type = fc_type f,
     tr_tail_type = None, tr_more = fc_metadata f\<rparr>) fs"

definition put_off :: "string \<Rightarrow> batch_outcome \<Rightarrow> batch_outcome" where
  "put_off i oc = oc\<lparr>oc_accepted := remove1 i (oc_accepted oc), oc_deferred := oc_deferred oc @ [i]\<rparr>"

text \<open>\<open>_run_canonical_v4_batch\<close> for one record: an exception of the ledger ends the batch.\<close>

definition extract_one :: "loop_env \<Rightarrow> work_item \<Rightarrow> batch_outcome \<Rightarrow> loop_state \<Rightarrow> (string + batch_outcome) \<times> loop_state" where
  "extract_one env w oc s =
    (let failed = (\<lambda>s. case dead_letter env w s of (Some x, s') \<Rightarrow> (Inl x, s') | (None, s') \<Rightarrow> (Inr (put_off (wi_id w) oc), s')) in
     case le_extract env w of
       None \<Rightarrow> failed s
     | Some fs \<Rightarrow>
         (case record_extraction (wi_agent w) (the (wi_mutation w)) (canonical_triplets fs) (lp_db s) of
            Inl _ \<Rightarrow> (Inl ''ledger'', s)
          | Inr (ok, d) \<Rightarrow> if ok then (Inr oc, s\<lparr>lp_db := d\<rparr>) else failed (s\<lparr>lp_db := d\<rparr>)))"

fun extract_all :: "loop_env \<Rightarrow> work_item list \<Rightarrow> batch_outcome \<Rightarrow> loop_state \<Rightarrow> (string + batch_outcome) \<times> loop_state" where
  "extract_all env [] oc s = (Inr oc, s)"
| "extract_all env (w # ws) oc s =
    (case extract_one env w oc s of (Inl x, s') \<Rightarrow> (Inl x, s') | (Inr oc', s') \<Rightarrow> extract_all env ws oc' s')"

definition run_batch :: "loop_env \<Rightarrow> work_item list \<Rightarrow> loop_state \<Rightarrow> (string + (gate_result list \<times> batch_outcome)) \<times> loop_state" where
  "run_batch env ws s =
    (case gates env ws no_outcome s of
       (Inl x, s1) \<Rightarrow> (Inl x, s1)
     | (Inr (gs, oc), s1) \<Rightarrow>
         (case extract_all env (filter (\<lambda>w. truthy (wi_mutation w)) (ready_items gs)) oc s1 of
            (Inl x, s2) \<Rightarrow> (Inl x, s2)
          | (Inr oc', s2) \<Rightarrow> (Inr (gs, oc'), s2)))"

end
