(* ===== verification/Consolidation_Properties.thy ===== *)
theory Consolidation_Properties imports Consolidation Dead_Letter_Properties "HOL-Library.Multiset" begin

text \<open>
  A candidate is accepted only with the votes its admitted mode demands and rejected only by a vote, a batch answers for
  each of its records, its deferrals are in the dead-letter queue, and the models are asked a bounded number of times.
\<close>

subsection \<open>Votes\<close>

definition votes :: "audit \<Rightarrow> nat" where
  "votes a = of_bool (au_primary a = ''STORE'') + of_bool (au_secondary a = ''STORE'')"

definition discards :: "audit \<Rightarrow> nat" where
  "discards a = of_bool (au_primary a = ''DISCARD'') + of_bool (au_secondary a = ''DISCARD'')"

lemma parse_decision: "parse_response env x = Some r \<Longrightarrow> fst r = ''STORE'' \<or> fst r = ''DISCARD''"
  by (auto simp: parse_response_def Let_def split: jval.splits option.splits if_splits)

text \<open>An audit of the policy \<open>m\<close>: as many decisions as it has validators, accepted when all of them are STORE.\<close>

definition audit_ok :: "nat \<Rightarrow> audit \<Rightarrow> bool" where
  "audit_ok m a \<longleftrightarrow> votes a + discards a = m \<and> (au_accepted a \<longleftrightarrow> votes a = m)"

lemma audit_ok_reason [simp]: "audit_ok m (a\<lparr>au_route_reason := r\<rparr>) = audit_ok m a"
  by (simp add: audit_ok_def votes_def discards_def)

lemma audits_ok: "audit_ok 0 deterministic_audit"
    "fst r \<in> {''STORE'', ''DISCARD''} \<Longrightarrow> audit_ok 1 (single_audit r)"
    "fst r \<in> {''STORE'', ''DISCARD''} \<Longrightarrow> fst q \<in> {''STORE'', ''DISCARD''} \<Longrightarrow> audit_ok 2 (dual_audit r q)"
  by (auto simp: audit_ok_def votes_def discards_def deterministic_audit_def single_audit_def dual_audit_def)

lemma validate_ok:
  assumes "validate_with_audit env m w s = (Inr a, s')" and "m \<le> 2"
  shows "audit_ok m a"
proof -
  consider "m = 0" | "m = 1" | "m = 2" using assms(2) by linarith
  then show ?thesis
  proof cases
    case 1
    then show ?thesis using assms(1) audits_ok(1) by (simp add: validate_with_audit_def)
  next
    case 2
    then obtain x r where "parse_response env x = Some r" "a = single_audit r"
      using assms(1) by (auto simp: validate_with_audit_def bind_eq_Some_conv split: option.splits)
    then show ?thesis using 2 audits_ok(2) [of r] parse_decision [of env x r] by auto
  next
    case 3
    then obtain x y r q where "parse_response env x = Some r" "parse_response env y = Some q" "a = dual_audit r q"
      using assms(1) by (auto simp: validate_with_audit_def split: option.splits)
    then show ?thesis using 3 audits_ok(3) [of r q] parse_decision [of env x r] parse_decision [of env y q] by auto
  qed
qed

lemma validate_calls:
  "validate_with_audit env m w s = (r, s') \<Longrightarrow> lp_a s' \<le> Suc (lp_a s) \<and> lp_b s' \<le> Suc (lp_b s) \<and>
    lp_disk s' = lp_disk s \<and> lp_db s' = lp_db s \<and> lp_appends s' = lp_appends s"
  by (auto simp: validate_with_audit_def split: if_splits)

text \<open>A routed or retried item differs in its flags only.\<close>

definition same_item :: "work_item \<Rightarrow> work_item \<Rightarrow> bool" where
  "same_item w w' \<longleftrightarrow> wi_id w' = wi_id w \<and> wi_agent w' = wi_agent w \<and> wi_mode w' = wi_mode w \<and> wi_candidate w' = wi_candidate w
    \<and> wi_mutation w' = wi_mutation w \<and> wi_content w' = wi_content w"

interpretation items: handler_frame same_item
  by unfold_locales (auto simp: same_item_def)

lemma route_cases:
  assumes "route_item env w s = (r, w', s')"
  obtains m a0 where "validate_with_audit env m w' s = (a0, s')" and "m = min 2 (le_policy env)" and "same_item w w'"
    and "\<forall>v. r = Inr v \<longrightarrow> (\<exists>a. a0 = Inr a \<and> passes v = (m = 0 \<or> au_accepted a) \<and> (\<forall>k. audit_ok k (audit_of v) = audit_ok k a) \<and> au_accepted (audit_of v) = au_accepted a)"
proof -
  have "le_policy env = 0 \<or> le_policy env = 1 \<or> 2 \<le> le_policy env" by linarith
  then show thesis
  proof (elim disjE)
    assume m: "le_policy env = 0"
    obtain a0 s0 where v: "validate_with_audit env 0 w s = (a0, s0)" by fastforce
    show thesis by (rule that [of 0 a0]) (use assms m v in \<open>auto simp: route_item_def items.le_refl bindE_Inr_iff passes_def audit_of_def\<close>)
  next
    assume m: "le_policy env = 1"
    obtain a0 s0 where v: "validate_with_audit env 1 w s = (a0, s0)" by fastforce
    show thesis by (rule that [of 1 a0]) (use assms m v in \<open>auto simp: route_item_def items.le_refl bindE_Inr_iff passes_def audit_of_def\<close>)
  next
    assume m: "2 \<le> le_policy env"
    obtain a0 s0 where v: "validate_with_audit env 2 w' s = (a0, s0)" by fastforce
    have w': "w' = (if le_corrects env (wi_content w) then w\<lparr>wi_deferred := True, wi_correction := True\<rparr> else w)"
      using assms m by (auto simp: route_item_def Let_def split: prod.splits)
    show thesis by (rule that [of 2 a0]) (use assms m v w' in
        \<open>auto simp: route_item_def Let_def same_item_def bindE_Inr_iff passes_def audit_of_def split: if_splits\<close>)
  qed
qed

text \<open>What validating an item may do to the state of the loop: ask at most \<open>n\<close> times, and touch neither queue nor ledger.\<close>

definition asks :: "nat \<Rightarrow> loop_state \<Rightarrow> loop_state \<Rightarrow> bool" where
  "asks n s s' \<longleftrightarrow> lp_a s' \<le> lp_a s + n \<and> lp_b s' \<le> lp_b s + n \<and> lp_disk s' = lp_disk s \<and> lp_db s' = lp_db s \<and> lp_appends s' = lp_appends s"

lemma asks_trans: "asks m s t \<Longrightarrow> asks n t u \<Longrightarrow> asks (m + n) s u"
  by (auto simp: asks_def)

lemma asks_mono: "asks m s t \<Longrightarrow> m \<le> n \<Longrightarrow> asks n s t"
  by (auto simp: asks_def)

lemma validate_asks: "validate_with_audit env m w s = (r, s') \<Longrightarrow> asks 1 s s'"
  using validate_calls by (fastforce simp: asks_def)

lemma route_asks:
  assumes "route_item env w s = (r, w', s')"
  shows "asks 1 s s' \<and> same_item w w'"
proof (rule route_cases [OF assms])
  fix m a0
  assume "validate_with_audit env m w' s = (a0, s')" "same_item w w'"
  then show ?thesis using validate_asks by blast
qed

lemma route_ok:
  assumes "route_item env w s = (Inr v, w', s')" and "le_policy env \<le> 2"
  shows "audit_ok (le_policy env) (audit_of v) \<and> passes v = au_accepted (audit_of v)"
proof (rule route_cases [OF assms(1)])
  fix m a0
  assume v: "validate_with_audit env m w' s = (a0, s')" "m = min 2 (le_policy env)"
    and a: "\<forall>u. Inr v = Inr u \<longrightarrow> (\<exists>a. a0 = Inr a \<and> passes u = (m = 0 \<or> au_accepted a) \<and> (\<forall>k. audit_ok k (audit_of u) = audit_ok k a) \<and> au_accepted (audit_of u) = au_accepted a)"
  then obtain a where a: "a0 = Inr a" "passes v = (m = 0 \<or> au_accepted a)" "\<forall>k. audit_ok k (audit_of v) = audit_ok k a" "au_accepted (audit_of v) = au_accepted a"
    by blast
  have ok: "audit_ok (le_policy env) a" using validate_ok [of env m w' s a s'] v a(1) assms(2) by simp
  then have "m = 0 \<longrightarrow> au_accepted a" using v(2) assms(2) by (auto simp: audit_ok_def)
  then show ?thesis using ok a(2-4) by auto
qed

lemma breaker_note_asks [simp]: "asks n s (breaker_note env ok t) = asks n s t"
  by (simp add: asks_def breaker_note_def)

lemma attempt_asks:
  assumes "validate_attempt env w s = (r, w', s')"
  shows "asks 1 s s' \<and> same_item w w'"
proof -
  let ?s = "s\<lparr>lp_attempts := Suc (lp_attempts s)\<rparr>"
  have none: "asks 1 s ?s" by (simp add: asks_def)
  show ?thesis
  proof (cases "policy_for env (wi_mode w)")
    case (Inl e)
    then show ?thesis using assms none by (simp add: validate_attempt_def Let_def items.le_refl)
  next
    case (Inr m)
    consider "m = 0 \<or> breaker_open env (le_check env (lp_attempts s)) ?s" | (route) "m \<noteq> 0" "\<not> breaker_open env (le_check env (lp_attempts s)) ?s" "m = le_policy env"
      | (other) "m \<noteq> 0" "\<not> breaker_open env (le_check env (lp_attempts s)) ?s" "m \<noteq> le_policy env" by blast
    then show ?thesis
    proof cases
      case 1
      then show ?thesis using assms none Inr by (cases "m = 0") (auto simp: validate_attempt_def Let_def items.le_refl)
    next
      case route
      obtain q v t where q: "route_item env w ?s = (q, v, t)" by (metis prod.exhaust)
      have "asks 1 s t" using route_asks [OF q] by (simp add: asks_def)
      then show ?thesis using assms route Inr q route_asks [OF q] by (auto simp: validate_attempt_def Let_def)
    next
      case other
      obtain q t where q: "validate_with_audit env m w ?s = (q, t)" by fastforce
      have "asks 1 s t" using validate_asks [OF q] by (simp add: asks_def)
      then show ?thesis using assms other Inr q by (auto simp: validate_attempt_def Let_def items.le_refl)
    qed
  qed
qed

text \<open>The mode an item demands: the one it was admitted with, else the configured one.\<close>

definition demanded :: "loop_env \<Rightarrow> work_item \<Rightarrow> nat" where
  "demanded env w = (case wi_mode w of Some (Int_Mode k) \<Rightarrow> nat k | _ \<Rightarrow> le_policy env)"

lemma policy_demanded:
  "policy_for env (wi_mode w) = Inr m \<Longrightarrow> m = demanded env w \<and> (le_policy env \<le> 2 \<longrightarrow> m \<le> 2)"
  by (auto simp: policy_for_def demanded_def split: option.splits mode_value.splits if_splits)

lemma attempt_ok:
  assumes "validate_attempt env w s = (Inr v, w', s')" and "le_policy env \<le> 2"
  shows "audit_ok (demanded env w) (audit_of v) \<and> passes v = au_accepted (audit_of v)"
proof -
  let ?s = "s\<lparr>lp_attempts := Suc (lp_attempts s)\<rparr>"
  obtain m where m: "policy_for env (wi_mode w) = Inr m"
    using assms(1) by (cases "policy_for env (wi_mode w)") (auto simp: validate_attempt_def Let_def)
  have d: "m = demanded env w" "m \<le> 2" using policy_demanded [OF m] assms(2) by simp_all
  consider (zero) "m = 0" | (route) "m \<noteq> 0" "m = le_policy env" | (other) "m \<noteq> 0" "m \<noteq> le_policy env" by blast
  then show ?thesis
  proof cases
    case zero
    then have "v = Audited deterministic_audit" using assms(1) m by (simp add: validate_attempt_def Let_def)
    then show ?thesis using audits_ok(1) zero d by (simp add: audit_of_def passes_def)
  next
    case route
    obtain q u t where q: "route_item env w ?s = (q, u, t)" by (metis prod.exhaust)
    have "q = Inr v" using assms(1) m route q by (auto simp: validate_attempt_def Let_def split: if_splits)
    then show ?thesis using route_ok [of env w ?s v u t] q assms(2) route(2) d by simp
  next
    case other
    obtain q t where q: "validate_with_audit env m w ?s = (q, t)" by fastforce
    obtain a where a: "q = Inr a" "v = Audited a" using assms(1) m other q
      by (cases q) (auto simp: validate_attempt_def Let_def split: if_splits)
    then show ?thesis using validate_ok [of env m w ?s a t] q d by (simp add: audit_of_def passes_def)
  qed
qed

lemma retries_asks: "with_retries env n w s = (r, w', s') \<Longrightarrow> asks n s s' \<and> same_item w w'"
proof (induction n arbitrary: w s)
  case 0
  then show ?case by (simp add: asks_def items.le_refl)
next
  case (Suc n)
  obtain q u t where q: "validate_attempt env w s = (q, u, t)" by (metis prod.exhaust)
  note a = attempt_asks [OF q]
  show ?case
  proof (cases q)
    case (Inl e)
    then have "with_retries env n u t = (r, w', s')" using Suc.prems q by simp
    from Suc.IH [OF this] show ?thesis using a asks_trans [of 1 s t n s'] items.le_trans by auto
  next
    case (Inr v)
    then show ?thesis using Suc.prems q a asks_mono [of 1 s t "Suc n"] by auto
  qed
qed

lemma same_demanded: "same_item w w' \<Longrightarrow> demanded env w' = demanded env w"
  by (simp add: same_item_def demanded_def)

lemma retries_ok:
  "with_retries env n w s = (Some v, w', s') \<Longrightarrow> le_policy env \<le> 2 \<Longrightarrow>
    audit_ok (demanded env w) (audit_of v) \<and> passes v = au_accepted (audit_of v)"
proof (induction n arbitrary: w s)
  case (Suc n)
  obtain q u t where q: "validate_attempt env w s = (q, u, t)" by (metis prod.exhaust)
  show ?case
  proof (cases q)
    case (Inl e)
    then have "with_retries env n u t = (Some v, w', s')" using Suc.prems(1) q by simp
    from Suc.IH [OF this Suc.prems(2)] show ?thesis using same_demanded [OF conjunct2 [OF attempt_asks [OF q]]] by simp
  next
    case (Inr u')
    then show ?thesis using Suc.prems q attempt_ok [of env w s v u t] by auto
  qed
qed simp

subsection \<open>The gate\<close>

definition gated :: "gate_result \<Rightarrow> work_item" where
  "gated g = (case g of Ready w \<Rightarrow> w | Refused_Item w \<Rightarrow> w | Put_Off w \<Rightarrow> w)"

text \<open>An item that has to be validated, and the votes behind its result; any other is passed on as it is.\<close>

definition needs_votes :: "work_item \<Rightarrow> bool" where
  "needs_votes w \<longleftrightarrow> wi_deferred w \<or> wi_mode w \<noteq> None"

definition voted :: "loop_env \<Rightarrow> work_item \<Rightarrow> gate_result \<Rightarrow> bool" where
  "voted env w g \<longleftrightarrow>
    (case g of
       Ready v \<Rightarrow> if needs_votes w then (\<exists>a. wi_audit v = Some a \<and> au_accepted a \<and> votes a = demanded env w) else v = w
     | Refused_Item v \<Rightarrow> needs_votes w \<and> (\<exists>a. wi_audit v = Some a \<and> \<not> au_accepted a \<and> 1 \<le> discards a \<and> votes a + discards a = demanded env w)
     | Put_Off v \<Rightarrow> needs_votes w)"

lemma dead_letter_frame: "dead_letter env w s = (r, s') \<Longrightarrow> lp_a s' = lp_a s \<and> lp_b s' = lp_b s \<and> lp_db s' = lp_db s"
  by (auto simp: dead_letter_def split: prod.splits)

lemma dead_letter_tidy:
  assumes "dead_letter env w s = (r, s')" and "tidy (lp_disk s)"
  shows "tidy (lp_disk s') \<and> set (letters (lp_disk s)) \<subseteq> set (letters (lp_disk s')) \<and>
    (r = None \<longrightarrow> Some (wi_id w) \<in> lt_cmb ` set (letters (lp_disk s')))"
proof -
  let ?e = "calm (le_append env (lp_appends s))" and ?d = "lp_disk s"
  let ?l = "normalize_letter (ev_fresh ?e 0) (deferral (wi_id w, wi_agent w))"
  have c: "ev_crash ?e = None" by (simp add: calm_def)
  have l: "lt_cmb ?l = Some (wi_id w)" by (simp add: normalize_letter_def deferral_def)
  show ?thesis
  proof (cases "max_queue_bytes < ev_size ?e (dk_live ?d) \<or> list_ex (\<lambda>x. lt_id x = lt_id ?l) (letters ?d)")
    case True
    then show ?thesis using assms by (auto simp: dead_letter_def append_letter_def with_tidy Let_def split: if_splits)
  next
    case False
    then have d: "lp_disk s' = ?d\<lparr>dk_live := map dump (letters ?d @ [?l])\<rparr>"
      using assms c by (simp add: dead_letter_def append_letter_def with_tidy Let_def) auto
    have "distinct (map lt_id (letters ?d @ [?l]))" using False tidy_letters [OF assms(2)] by (auto simp: list_ex_iff)
    then have "tidy (lp_disk s')" unfolding d by (rule tidy_live)
    moreover have "letters (lp_disk s') = letters ?d @ [?l]" unfolding d by (rule letters_live)
    ultimately show ?thesis using l by auto
  qed
qed

lemma gate_asks: "gate env w s = (r, s') \<Longrightarrow> lp_a s' \<le> lp_a s + le_tries env \<and> lp_b s' \<le> lp_b s + le_tries env \<and> lp_db s' = lp_db s"
  using retries_asks [of env "le_tries env" "if needs_dual_review env w then w\<lparr>wi_force := True\<rparr> else w" s]
  by (auto simp: gate_def Let_def asks_def split: if_splits prod.splits option.splits dest!: dead_letter_frame)

lemma force_item: "same_item w (if needs_dual_review env w then w\<lparr>wi_force := True\<rparr> else w)"
  by (simp add: same_item_def)

lemma gate_cases:
  assumes "gate env w s = (Inr g, s')"
  obtains (plain) "\<not> wi_deferred w" "wi_mode w = None" "g = Ready w" "s' = s"
    | (late) w1 s1 where "needs_votes w" "with_retries env (le_tries env) (if needs_dual_review env w then w\<lparr>wi_force := True\<rparr> else w) s = (None, w1, s1)"
        "dead_letter env w1 s1 = (None, s')" "g = Put_Off w1"
    | (judged) v w1 s1 where "needs_votes w" "with_retries env (le_tries env) (if needs_dual_review env w then w\<lparr>wi_force := True\<rparr> else w) s = (Some v, w1, s1)"
        "g = (if passes v then Ready (w1\<lparr>wi_audit := Some (audit_of v)\<rparr>) else Refused_Item (w1\<lparr>wi_audit := Some (audit_of v)\<rparr>))"
        "lp_disk s' = lp_disk s1"
  using assms by (auto simp: gate_def needs_votes_def Let_def split: if_splits prod.splits option.splits)

lemma gate_item:
  assumes "gate env w s = (Inr g, s')"
  shows "same_item w (gated g)"
  using assms
proof (cases rule: gate_cases)
  case plain
  then show ?thesis by (simp add: gated_def items.le_refl)
next
  case (late w1 s1)
  have "same_item w w1" by (rule items.le_trans [OF force_item conjunct2 [OF retries_asks [OF late(2)]]])
  then show ?thesis using late(4) by (simp add: gated_def)
next
  case (judged v w1 s1)
  have "same_item w w1" by (rule items.le_trans [OF force_item conjunct2 [OF retries_asks [OF judged(2)]]])
  then show ?thesis using judged(3) by (simp add: gated_def same_item_def)
qed

lemma gate_voted:
  assumes "gate env w s = (Inr g, s')" and "le_policy env \<le> 2"
  shows "voted env w g"
  using assms(1)
proof (cases rule: gate_cases)
  case (judged v w1 s1)
  have "demanded env (if needs_dual_review env w then w\<lparr>wi_force := True\<rparr> else w) = demanded env w" by (simp add: demanded_def)
  then show ?thesis using judged(1,3) retries_ok [OF judged(2) assms(2)] by (auto simp: voted_def audit_ok_def)
qed (simp_all add: voted_def needs_votes_def)

lemma gate_letters:
  assumes "gate env w s = (Inr g, s')" and "tidy (lp_disk s)"
  shows "tidy (lp_disk s') \<and> set (letters (lp_disk s)) \<subseteq> set (letters (lp_disk s')) \<and>
    (\<forall>w'. g = Put_Off w' \<longrightarrow> Some (wi_id w') \<in> lt_cmb ` set (letters (lp_disk s')))"
  using assms(1)
proof (cases rule: gate_cases)
  case (late w1 s1)
  then show ?thesis using dead_letter_tidy [OF late(3)] retries_asks [OF late(2)] assms(2) by (simp add: asks_def)
next
  case (judged v w1 s1)
  then show ?thesis using retries_asks [OF judged(2)] assms(2) by (simp add: asks_def)
qed (use assms(2) in simp)

subsection \<open>The batch\<close>

lemma gates_asks:
  "gates env ws oc s = (r, s') \<Longrightarrow> lp_a s' \<le> lp_a s + le_tries env * length ws \<and> lp_b s' \<le> lp_b s + le_tries env * length ws \<and> lp_db s' = lp_db s"
proof (induction ws arbitrary: oc s r s')
  case (Cons w ws)
  obtain q t where q: "gate env w s = (q, t)" by fastforce
  note a = gate_asks [OF q]
  show ?case
  proof (cases q)
    case (Inl x)
    then show ?thesis using Cons.prems q a by auto
  next
    case (Inr g)
    obtain q' t' where q': "gates env ws (note_result g oc) t = (q', t')" by fastforce
    have "t' = s'" using Cons.prems q Inr q' by (auto split: sum.splits)
    then show ?thesis using Cons.IH [OF q'] a by auto
  qed
qed simp

lemma gates_Inr_Cons:
  assumes "gates env (w # ws) oc s = (Inr (gs, oc'), s')"
  obtains g t gs' where "gate env w s = (Inr g, t)" "gates env ws (note_result g oc) t = (Inr (gs', oc'), s')" "gs = g # gs'"
  using assms by (auto split: sum.splits prod.splits)

text \<open>Each list of the outcome grows by the identifiers of the results of its kind.\<close>

definition ids_of :: "(gate_result \<Rightarrow> work_item list) \<Rightarrow> gate_result list \<Rightarrow> string list" where
  "ids_of f gs = map wi_id (concat (map f gs))"

lemma ids_of_simps [simp]: "ids_of f [] = []" "ids_of f (g # gs) = map wi_id (f g) @ ids_of f gs"
  by (simp_all add: ids_of_def)

definition ready_of :: "gate_result \<Rightarrow> work_item list" where
  "ready_of g = (case g of Ready w \<Rightarrow> [w] | _ \<Rightarrow> [])"

definition refused_of :: "gate_result \<Rightarrow> work_item list" where
  "refused_of g = (case g of Refused_Item w \<Rightarrow> [w] | _ \<Rightarrow> [])"

definition late_of :: "gate_result \<Rightarrow> work_item list" where
  "late_of g = (case g of Put_Off w \<Rightarrow> [w] | _ \<Rightarrow> [])"

lemma gates_outcome:
  assumes "gates env ws oc s = (Inr (gs, oc'), s')" and "le_policy env \<le> 2" and "tidy (lp_disk s)"
  shows "list_all2 (voted env) ws gs \<and> map (wi_id \<circ> gated) gs = map wi_id ws \<and> tidy (lp_disk s') \<and>
    oc_accepted oc' = oc_accepted oc @ ids_of ready_of gs \<and> oc_rejected oc' = oc_rejected oc @ ids_of refused_of gs \<and>
    oc_deferred oc' = oc_deferred oc @ ids_of late_of gs \<and> set (letters (lp_disk s)) \<subseteq> set (letters (lp_disk s')) \<and>
    Some ` set (ids_of late_of gs) \<subseteq> lt_cmb ` set (letters (lp_disk s'))"
  using assms
proof (induction ws arbitrary: oc s gs)
  case (Cons w ws)
  obtain g t gs' where g: "gate env w s = (Inr g, t)" "gates env ws (note_result g oc) t = (Inr (gs', oc'), s')" "gs = g # gs'"
    using gates_Inr_Cons [OF Cons.prems(1)] .
  note l = gate_letters [OF g(1) Cons.prems(3)] and v = gate_voted [OF g(1) Cons.prems(2)] and i = gate_item [OF g(1)]
  note IH = Cons.IH [OF g(2) Cons.prems(2) conjunct1 [OF l]]
  have "Some ` set (map wi_id (late_of g)) \<subseteq> lt_cmb ` set (letters (lp_disk t))" using l by (cases g) (simp_all add: late_of_def)
  also have "\<dots> \<subseteq> lt_cmb ` set (letters (lp_disk s'))" using IH by (intro image_mono) blast
  finally have "Some ` set (ids_of late_of gs) \<subseteq> lt_cmb ` set (letters (lp_disk s'))" using IH g(3) by (simp add: image_Un)
  moreover have "set (letters (lp_disk s)) \<subseteq> set (letters (lp_disk s'))" using l IH by blast
  ultimately show ?case using IH v i g(3)
    by (cases g) (simp_all add: note_result_def gated_def same_item_def ready_of_def refused_of_def late_of_def)
qed simp

lemma ids_partition: "mset (ids_of ready_of gs) + mset (ids_of refused_of gs) + mset (ids_of late_of gs) = mset (map (wi_id \<circ> gated) gs)"
  by (induction gs) (auto simp: ready_of_def refused_of_def late_of_def gated_def split: gate_result.splits)

lemma extract_one_steps:
  assumes "extract_one env w oc s = (Inr oc', s')"
  obtains (stored) "oc' = oc" "lp_disk s' = lp_disk s" "lp_a s' = lp_a s" "lp_b s' = lp_b s"
    | (failed) s1 where "oc' = put_off (wi_id w) oc" "dead_letter env w s1 = (None, s')" "lp_disk s1 = lp_disk s"
  using assms by (auto simp: extract_one_def Let_def split: option.splits sum.splits prod.splits if_splits)

lemma extract_one_calls: "extract_one env w oc s = (r, s') \<Longrightarrow> lp_a s' = lp_a s \<and> lp_b s' = lp_b s"
  by (auto simp: extract_one_def Let_def split: option.splits sum.splits prod.splits if_splits dest!: dead_letter_frame)

lemma extract_all_calls: "extract_all env ws oc s = (r, s') \<Longrightarrow> lp_a s' = lp_a s \<and> lp_b s' = lp_b s"
  by (induction env ws oc s rule: extract_all.induct) (auto split: sum.splits prod.splits dest: extract_one_calls)

definition answered_ids :: "batch_outcome \<Rightarrow> string multiset" where
  "answered_ids oc = mset (oc_accepted oc) + mset (oc_rejected oc) + mset (oc_deferred oc)"

lemma extract_all_outcome:
  assumes "extract_all env ws oc s = (Inr oc', s')" and "tidy (lp_disk s)" and "mset (map wi_id ws) \<subseteq># mset (oc_accepted oc)"
    and "Some ` set (oc_deferred oc) \<subseteq> lt_cmb ` set (letters (lp_disk s))"
  shows "answered_ids oc' = answered_ids oc \<and> oc_rejected oc' = oc_rejected oc \<and>
    Some ` set (oc_deferred oc') \<subseteq> lt_cmb ` set (letters (lp_disk s'))"
  using assms
proof (induction ws arbitrary: oc s)
  case (Cons w ws)
  obtain oc1 s1 where e: "extract_one env w oc s = (Inr oc1, s1)" "extract_all env ws oc1 s1 = (Inr oc', s')"
    using Cons.prems(1) by (auto split: sum.splits prod.splits)
  have sub: "mset (map wi_id ws) \<subseteq># mset (oc_accepted oc) - {#wi_id w#}" "wi_id w \<in># mset (oc_accepted oc)"
    using Cons.prems(3) by (auto simp: insert_subset_eq_iff)
  from e(1) show ?case
  proof (cases rule: extract_one_steps)
    case stored
    have "mset (map wi_id ws) \<subseteq># mset (oc_accepted oc)" using sub(1) diff_subset_eq_self subset_mset.order_trans by blast
    then show ?thesis using Cons.IH [OF e(2)] stored Cons.prems(2,4) by simp
  next
    case (failed s2)
    note l = dead_letter_tidy [OF failed(2)]
    have "answered_ids oc1 = answered_ids oc" using failed(1) sub(2) by (simp add: answered_ids_def put_off_def)
    moreover have "mset (map wi_id ws) \<subseteq># mset (oc_accepted oc1)" using failed(1) sub(1) by (simp add: put_off_def)
    moreover have "Some ` set (oc_deferred oc1) \<subseteq> lt_cmb ` set (letters (lp_disk s1))"
      using l failed(1,3) Cons.prems(2,4) by (auto simp: put_off_def)
    moreover have "oc_rejected oc1 = oc_rejected oc" using failed(1) by (simp add: put_off_def)
    ultimately show ?thesis using Cons.IH [OF e(2)] l failed(3) Cons.prems(2) by simp
  qed
qed simp

lemma ready_ids: "map wi_id (ready_items gs) = ids_of ready_of gs"
  by (induction gs) (simp_all add: ready_items_def ready_of_def split: gate_result.split)

lemma run_batch_steps:
  assumes "run_batch env ws s = (Inr (gs, oc'), s')"
  obtains oc s1 where "gates env ws no_outcome s = (Inr (gs, oc), s1)"
    "extract_all env (filter (\<lambda>w. truthy (wi_mutation w)) (ready_items gs)) oc s1 = (Inr oc', s')"
  using assms by (auto simp: run_batch_def split: sum.splits prod.splits)


text \<open>
  C40. A batch answers for each of its items exactly once: accepted, rejected or deferred; each deferred item has a letter
  in the dead-letter queue.
\<close>

theorem every_item_is_answered:
  assumes "run_batch env ws s = (Inr (gs, oc), s')" and "le_policy env \<le> 2" and "tidy (lp_disk s)"
  shows "mset (oc_accepted oc) + mset (oc_rejected oc) + mset (oc_deferred oc) = mset (map wi_id ws) \<and>
    Some ` set (oc_deferred oc) \<subseteq> lt_cmb ` set (letters (lp_disk s'))"
proof -
  obtain oc1 s1 where g: "gates env ws no_outcome s = (Inr (gs, oc1), s1)"
    and e: "extract_all env (filter (\<lambda>w. truthy (wi_mutation w)) (ready_items gs)) oc1 s1 = (Inr oc, s')"
    using run_batch_steps [OF assms(1)] .
  note o = gates_outcome [OF g assms(2,3)]
  have oc1: "oc_accepted oc1 = ids_of ready_of gs" "oc_rejected oc1 = ids_of refused_of gs" "oc_deferred oc1 = ids_of late_of gs"
    using o by (simp_all add: no_outcome_def)
  have "mset (map wi_id (filter (\<lambda>w. truthy (wi_mutation w)) (ready_items gs))) \<subseteq># mset (oc_accepted oc1)"
    by (simp add: oc1 ready_ids [symmetric] image_mset_subseteq_mono)
  from extract_all_outcome [OF e _ this] o oc1(3)
  have "answered_ids oc = answered_ids oc1 \<and> Some ` set (oc_deferred oc) \<subseteq> lt_cmb ` set (letters (lp_disk s'))" by simp
  moreover have "answered_ids oc1 = mset (map wi_id ws)" using ids_partition [of gs] o by (simp add: answered_ids_def oc1)
  ultimately show ?thesis by (simp add: answered_ids_def)
qed

text \<open>A batch asks each of the two validators at most as often as there are tries for each item, whatever happens.\<close>

lemma model_calls_bounded:
  assumes "run_batch env ws s = (r, s')"
  shows "lp_a s' \<le> lp_a s + le_tries env * length ws \<and> lp_b s' \<le> lp_b s + le_tries env * length ws"
proof -
  obtain q t where g: "gates env ws no_outcome s = (q, t)" by fastforce
  have "lp_a s' = lp_a t \<and> lp_b s' = lp_b t"
  proof (cases q)
    case (Inl x)
    then show ?thesis using assms g by (simp add: run_batch_def)
  next
    case (Inr p)
    obtain gs oc where p: "p = (gs, oc)" by fastforce
    obtain q' t' where e: "extract_all env (filter (\<lambda>w. truthy (wi_mutation w)) (ready_items gs)) oc t = (q', t')" by fastforce
    have "t' = s'" using assms g Inr p e by (auto simp: run_batch_def split: sum.splits)
    then show ?thesis using extract_all_calls [OF e] by simp
  qed
  then show ?thesis using gates_asks [OF g] by simp
qed

subsection \<open>Witnesses\<close>

text \<open>A store vote, a discard vote, and a model that fails, under mode 2.\<close>

definition toy_env :: loop_env where
  "toy_env = \<lparr>le_policy = 2, le_composable = (\<lambda>_. True), le_a = (\<lambda>_ w. if wi_id w = ''d'' then None else Some (JText (wi_id w))),
     le_b = (\<lambda>_ w. Some (JText ''a'')), le_late = (\<lambda>_. False), le_check = (\<lambda>_. 0), le_fail = (\<lambda>_. 0), le_threshold = 5, le_cooldown = 60,
     le_tries = 1, le_unfence = id, le_json = (\<lambda>t. Some (JDict [(''decision'', JText (if t = ''a'' then ''STORE'' else ''DISCARD''))])),
     le_safe = (\<lambda>_. []), le_corrects = (\<lambda>_. False), le_legal = False, le_space = (\<lambda>_. False), le_extract = (\<lambda>_. None), le_append = (\<lambda>_. quiet)\<rparr>"

definition toy_item :: "string \<Rightarrow> work_item" where
  "toy_item i = \<lparr>wi_id = i, wi_agent = ''g'', wi_deferred = False, wi_mode = Some (Int_Mode 2), wi_candidate = Some i, wi_mutation = None, wi_content = ''x'',
     wi_memory_type = None, wi_importance = None, wi_source_ref = None, wi_span = None, wi_correction = False, wi_force = False, wi_audit = None\<rparr>"

definition toy_state :: loop_state where
  "toy_state = \<lparr>lp_a = 0, lp_b = 0, lp_attempts = 0, lp_failures = 0, lp_last = 0, lp_appends = 0, lp_disk = empty_disk, lp_db = empty_db, lp_invalidated = []\<rparr>"

lemmas loop_eval = run_batch_def gate_def needs_dual_review_def validate_attempt_def policy_for_def breaker_open_def route_item_def
  validate_with_audit_def parse_response_def single_audit_def dual_audit_def breaker_note_def passes_def audit_of_def note_result_def ready_items_def
  no_outcome_def dead_letter_def Let_def

lemma toy_gates:
  "\<exists>gs s'. run_batch toy_env [toy_item ''a'', toy_item ''r'', toy_item ''d''] toy_state =
    (Inr (gs, \<lparr>oc_accepted = [''a''], oc_rejected = [''r''], oc_deferred = [''d'']\<rparr>), s')"
proof -
  have "append_letter (calm quiet) (deferral (''d'', ''g'')) empty_disk = (Returned (), empty_disk\<lparr>dk_live := map dump [normalize_letter ''i'' (deferral (''d'', ''g''))]\<rparr>)"
    using empty_tidy by (simp add: append_letter_def with_tidy quiet_def calm_def empty_disk_def letters_def max_queue_bytes_def)
  then show ?thesis by (simp add: loop_eval toy_env_def toy_item_def toy_state_def)
qed


lemma every_item_is_answered_witness:
  "\<exists>gs oc s'. run_batch toy_env [toy_item ''a'', toy_item ''r'', toy_item ''d''] toy_state = (Inr (gs, oc), s') \<and>
    Some ''d'' \<in> lt_cmb ` set (letters (lp_disk s'))"
proof -
  obtain gs s' where r: "run_batch toy_env [toy_item ''a'', toy_item ''r'', toy_item ''d''] toy_state =
    (Inr (gs, \<lparr>oc_accepted = [''a''], oc_rejected = [''r''], oc_deferred = [''d'']\<rparr>), s')" using toy_gates by blast
  have "le_policy toy_env \<le> 2" "tidy (lp_disk toy_state)" by (simp_all add: toy_env_def toy_state_def empty_tidy)
  from every_item_is_answered [OF r this] r show ?thesis by auto
qed

lemma model_calls_bounded_witness:
  "lp_a (snd (run_batch toy_env [toy_item ''a'', toy_item ''r'', toy_item ''d''] toy_state)) \<le> 3"
proof -
  obtain r s' where r: "run_batch toy_env [toy_item ''a'', toy_item ''r'', toy_item ''d''] toy_state = (r, s')" by fastforce
  have "le_tries toy_env = 1" "lp_a toy_state = 0" by (simp_all add: toy_env_def toy_state_def)
  with model_calls_bounded [OF r] show ?thesis by (simp add: r)
qed

end
