(* ===== verification/Ledger_History.thy ===== *)
theory Ledger_History imports Steps Ledger_Properties Catalog_Properties Purge begin

text \<open>
  The history of the runs in a whole store: the lifecycle transactions, the cleanup-only reopening, the dispatch queue,
  the purge of an agent and the calls of the catalog, by any number of workers in any order.
\<close>

subsection \<open>Histories with unrecorded reopenings\<close>

text \<open>
  \<open>enqueue_unowned\<close> puts a rolled back run back into \<open>ROLLING_BACK\<close> without an event, so an event of the log may
  start from there although the one before ended in \<open>ROLLED_BACK\<close>. Nothing else is unrecorded.
\<close>

definition run_gap :: "run_state option \<Rightarrow> run_state option \<Rightarrow> bool" where
  "run_gap s t \<longleftrightarrow> s = t \<or> (s = Some P_ROLLED_BACK \<and> t = Some P_ROLLING_BACK)"

fun retraces :: "run_state option \<Rightarrow> (run_state option \<times> run_state) list \<Rightarrow> run_state option \<Rightarrow> bool" where
  "retraces s [] t \<longleftrightarrow> run_gap s t"
| "retraces s ((f, u) # es) t \<longleftrightarrow> run_gap s f \<and> admits f u \<and> retraces (Some u) es t"

lemma run_gap_trans: "run_gap s t \<Longrightarrow> run_gap t u \<Longrightarrow> run_gap s u"
  by (auto simp: run_gap_def)

lemma retraces_gap: "run_gap s t \<Longrightarrow> retraces t es u \<Longrightarrow> retraces s es u"
  by (cases "(t, es, u)" rule: retraces.cases) (auto intro: run_gap_trans)

lemma retraces_append: "retraces s xs t \<Longrightarrow> retraces t ys u \<Longrightarrow> retraces s (xs @ ys) u"
  by (induction s xs t rule: retraces.induct) (auto intro: retraces_gap)

lemma replays_retraces: "replays s es t \<Longrightarrow> retraces s es t"
  by (induction s es t rule: retraces.induct) (auto simp: run_gap_def)

definition tracks :: "db \<Rightarrow> db \<Rightarrow> bool" where
  "tracks a b \<longleftrightarrow> (ledger_ok a \<longrightarrow> ledger_ok b \<and>
    (\<forall>r. \<exists>new. trace b r = trace a r @ new \<and> retraces (run_state_of a r) new (run_state_of b r)))"

interpretation tracking: handler_frame tracks
proof
  show "tracks s s" for s
    unfolding tracks_def by (intro impI conjI allI exI [of _ "[]"]) (simp_all add: run_gap_def)
  fix s t u
  assume st: "tracks s t" and tu: "tracks t u"
  have "\<exists>new. trace u r = trace s r @ new \<and> retraces (run_state_of s r) new (run_state_of u r)" if ok: "ledger_ok s" for r
  proof -
    have "ledger_ok t" using st ok by (simp add: tracks_def)
    then obtain xs ys where "trace t r = trace s r @ xs" "retraces (run_state_of s r) xs (run_state_of t r)"
      "trace u r = trace t r @ ys" "retraces (run_state_of t r) ys (run_state_of u r)"
      using st tu ok unfolding tracks_def by blast
    then show ?thesis by (intro exI [of _ "xs @ ys"]) (simp add: retraces_append)
  qed
  then show "tracks s u" using st tu unfolding tracks_def by simp
qed

lemma evolves_tracks: "evolves a b \<Longrightarrow> tracks a b"
  unfolding evolves_def tracks_def run_log_step_def by (meson replays_retraces)

lemma enqueue_unowned_ledger:
  assumes "enqueue_unowned now mid arts d = Inr (u, d')"
  obtains rid where "runs d' = upd (\<lambda>r. rn_id r = rid \<and> rn_state r \<in> {P_ROLLED_BACK, P_ROLLING_BACK})
        (\<lambda>r. r\<lparr>rn_state := P_ROLLING_BACK, rn_failure := compensation_pending\<rparr>) (runs d)"
    "muts d' = upd (\<lambda>m. mu_id m = mid \<and> mu_state m \<in> {M_ROLLED_BACK, M_ROLLING_BACK})
        (\<lambda>m. m\<lparr>mu_state := M_ROLLING_BACK, mu_failure := compensation_pending\<rparr>) (muts d)"
    "events d' = events d"
proof -
  have frame: "runs (fold f arts e) = runs e \<and> muts (fold f arts e) = muts e \<and> events (fold f arts e) = events e"
    if "\<And>a x. runs (f a x) = runs x \<and> muts (f a x) = muts x \<and> events (f a x) = events x" for f :: "artifact \<Rightarrow> db \<Rightarrow> db" and e
    using that by (induction arts arbitrary: e) simp_all
  show thesis using assms
    by (auto simp: enqueue_unowned_def Let_def frame split: option.splits if_splits intro!: that)
qed

lemma reopen_tracks: "reopen_step a b \<Longrightarrow> tracks a b"
proof -
  assume "reopen_step a b"
  then obtain now mid arts u where op: "enqueue_unowned now mid arts a = Inr (u, b)" by (auto simp: reopen_iff)
  obtain rid where b: "runs b = upd (\<lambda>r. rn_id r = rid \<and> rn_state r \<in> {P_ROLLED_BACK, P_ROLLING_BACK})
        (\<lambda>r. r\<lparr>rn_state := P_ROLLING_BACK, rn_failure := compensation_pending\<rparr>) (runs a)"
    "muts b = upd (\<lambda>m. mu_id m = mid \<and> mu_state m \<in> {M_ROLLED_BACK, M_ROLLING_BACK})
        (\<lambda>m. m\<lparr>mu_state := M_ROLLING_BACK, mu_failure := compensation_pending\<rparr>) (muts a)"
    "events b = events a"
    by (rule enqueue_unowned_ledger [OF op])
  show ?thesis unfolding tracks_def
  proof (intro impI conjI allI)
    assume ok: "ledger_ok a"
    have "map rn_id (runs b) = map rn_id (runs a)" "map mu_id (muts b) = map mu_id (muts a)"
      by (simp_all add: b map_upd_key)
    then show "ledger_ok b" using ok b(3) by (simp add: ledger_ok_def keys_ok_def admitted_def flip: set_map)
    fix r
    have "run_gap (map_option rn_state (find (\<lambda>x. rn_id x = r) t)) (map_option rn_state (find (\<lambda>x. rn_id x = r)
        (upd (\<lambda>r. rn_id r = rid \<and> rn_state r \<in> {P_ROLLED_BACK, P_ROLLING_BACK})
        (\<lambda>r. r\<lparr>rn_state := P_ROLLING_BACK, rn_failure := compensation_pending\<rparr>) t)))" for t
      by (induction t) (auto simp: run_gap_def)
    then have "run_gap (run_state_of a r) (run_state_of b r)" by (simp add: run_state_of_def run_of_def b)
    then show "\<exists>new. trace b r = trace a r @ new \<and> retraces (run_state_of a r) new (run_state_of b r)"
      by (intro exI [of _ "[]"]) (simp add: trace_def b)
  qed
qed

subsection \<open>Dispatch and purge\<close>

lemma enqueue_log_evolves: "evolves d (enqueue_log now did qid tenant agent p d)"
  by (rule evolves_frame) (simp_all add: enqueue_log_def Let_def)

lemma admit_raw_log_evolves: "admit_raw_log jl sec now did qid pol tenant agent p d = Inr (a, d') \<Longrightarrow> evolves d d'"
  by (auto simp: admit_raw_log_def admit_tx_def bindE_Inr_iff enqueue_log_evolves split: if_splits option.splits)

lemma open_journal_evolves: "open_journal did agent i d = Inr (j, d') \<Longrightarrow> evolves d d'"
  by (rule evolves_frame) (auto simp: open_journal_def Let_def split: if_splits option.splits)

lemma deliver_evolves: "evolves d (deliver now qid agent i n j d)"
proof -
  have "evolves d (insert_receipt r (insert_queued q d))" for r q
    by (rule evolves_frame) (simp_all add: insert_receipt_def insert_queued_def)
  moreover have "evolves a (b\<lparr>journals := t\<rparr>) = evolves a b" for a b t by (rule evolves_cong) simp_all
  ultimately show ?thesis by (simp add: deliver_def Let_def)
qed

lemma dispatch_raw_log_evolves:
  assumes "dispatch_raw_log now did qid pol w agent i d = Inr (j, d')" shows "evolves d d'"
proof -
  obtain r where "find (\<lambda>r. rl_id r = i \<and> rl_agent r = agent) (raw_logs d) = Some r"
    using assms by (cases "find (\<lambda>r. rl_id r = i \<and> rl_agent r = agent) (raw_logs d)") (auto simp: dispatch_raw_log_def split: if_splits)
  then have body: "bindE (open_journal did agent i d) (\<lambda>(j, d1).
      if jr_state j = J_RECEIPT_RECORDED then Inr (journal_for i agent d1, d1)
      else bindE (enforce_capacity (queue_usage None (queue d1)) (queue_usage (Some agent) (queue d1)) (rl_bytes r) pol)
        (\<lambda>_. let d2 = deliver now qid agent i (rl_bytes r) j d1 in Inr (journal_for i agent d2, d2))) = Inr (j, d')"
    using assms by (simp add: dispatch_raw_log_def split: if_splits)
  obtain j1 d1 where 1: "open_journal did agent i d = Inr (j1, d1)"
    using body by (cases "open_journal did agent i d") auto
  have "evolves d1 d'" using body 1 deliver_evolves by (auto simp: Let_def bindE_Inr_iff split: if_splits)
  then show ?thesis by (rule ev.le_trans [OF open_journal_evolves [OF 1]])
qed

lemma claim_dispatch_evolves: "claim_dispatch now tok w n secs d = Inr (qs, d') \<Longrightarrow> evolves d d'"
  by (rule evolves_frame) (auto simp: claim_dispatch_def Let_def split_def split: if_splits)

lemma bury_mutations_evolves: "bury_mutations q outcome d = Inr d' \<Longrightarrow> evolves d d'"
  unfolding bury_mutations_def
  by (rule foldE_invariant [where I = "evolves d"])
    (auto simp: bindE_Inr_iff split: if_splits dest!: transition_mutation_evolves intro: ev.le_trans)

lemma complete_dispatch_evolves: "complete_dispatch now qid w tok outcome verified d = Inr (ok, d') \<Longrightarrow> evolves d d'"
proof -
  have settle: "evolves d (settle_queue qid tok s l e d)" for s l e by (rule evolves_frame) (simp_all add: settle_queue_def)
  have fail: "evolves a (fail_log q outcome d2) = evolves a d2" for a d2 q by (simp add: fail_log_def)
  have bury: "evolves d (fail_log q outcome d2)" if "bury_mutations q outcome (settle_queue qid tok s l e d) = Inr d2" for q s l e d2
    unfolding fail by (rule ev.le_trans [OF settle bury_mutations_evolves [OF that]])
  have completion: "evolves d (insert_completion c d\<lparr>queue := t\<rparr>)" for c t by (rule evolves_frame) (simp_all add: insert_completion_def)
  assume op: "complete_dispatch now qid w tok outcome verified d = Inr (ok, d')"
  show ?thesis
  proof (cases "find (\<lambda>q. qu_id q = qid) (queue d)")
    case None
    then show ?thesis using op by (simp add: complete_dispatch_def split: if_splits)
  next
    case (Some q)
    have w: "\<not> (w = [] \<or> tok = [])" using op by (auto simp: complete_dispatch_def)
    consider "\<not> queue_held tok w q" | "queue_held tok w q" "\<not> verified" "5 \<le> qu_attempts q"
      | "queue_held tok w q" "\<not> verified" "\<not> 5 \<le> qu_attempts q" | "queue_held tok w q" verified by blast
    then show ?thesis
    proof cases
      case 1
      then show ?thesis using op Some w by (simp add: complete_dispatch_def)
    next
      case 2
      then obtain d2 where "bury_mutations q outcome (settle_queue qid tok Q_DEAD_LETTER None (Some (take 120 outcome)) d) = Inr d2"
        "d' = fail_log q outcome d2" using op Some w by (auto simp: complete_dispatch_def bindE_Inr_iff)
      then show ?thesis using bury by blast
    next
      case 3
      then show ?thesis using op Some w settle by (auto simp: complete_dispatch_def)
    next
      case 4
      then have "d' = insert_completion \<lparr>cp_queue = qid, cp_dispatch = qu_dispatch q, cp_worker = w, cp_token = tok,
          cp_outcome = outcome, cp_attempts = qu_attempts q\<rparr> d\<lparr>queue := queue d'\<rparr>"
        using op Some w by (auto simp: complete_dispatch_def Let_def)
      then show ?thesis using completion by metis
    qed
  qed
qed

lemma purge_tx_evolves: "purge_tx c i key agent scope session who w = Inr (r, w') \<Longrightarrow> evolves (pw_db w) (pw_db w')"
  by (auto simp: purge_tx_def Let_def split: option.splits if_splits sum.splits dest!: purge_mutations_evolves)

subsection \<open>The catalog\<close>

lemma insert_ledger_evolves: "evolves d (insert_ledger now c d)"
proof -
  define d1 where "d1 = insert_mutation (received c) (insert_admission (ca_run c) (insert_run (ca_run c) (ca_agent c) d))"
  have "evolves d d1" unfolding d1_def by (rule ev.le_trans [OF insert_run_admission_evolves insert_mutation_evolves])
  moreover have "evolves d1 (insert_ledger now c d)"
    by (rule evolves_frame) (simp_all add: insert_ledger_def d1_def)
  ultimately show ?thesis by (rule ev.le_trans)
qed

lemma drafted_evolves: "evolves d (insert_draft r (insert_document x d))"
  by (rule evolves_frame) (simp_all add: insert_draft_def insert_document_def)

lemma put_chunk_evolves: "evolves d (insert_chunk h d)"
  by (rule evolves_frame) (simp_all add: insert_chunk_def)

lemma chunk_tx_evolves:
  assumes "chunk_tx env now w ds doc rid ch pre d = Inr (m, d')" shows "evolves d d'"
proof -
  let ?d2 = "insert_draft (draft rid (cw_tenant w) doc (cw_number w) pre)
    (insert_document (fresh_document doc (cw_tenant w) ds (cw_ref w) (cw_title w)) d)"
  obtain d3 where d3: "put_chunk (chunk_row env w ds rid ch) ?d2 = Inr d3"
    and c: "(case update_manifest (ce_digest env) now rid (cw_finalize w) d3 of Inl e \<Rightarrow> Inl (Refused e) | Inr r \<Rightarrow> Inr r) = Inr (m, d')"
    using assms by (auto simp: chunk_tx_def Let_def bindE_Inr_iff split: if_splits)
  have "d3 = insert_chunk (chunk_row env w ds rid ch) ?d2"
    using d3 by (auto simp: put_chunk_def Let_def split: option.splits if_splits)
  then have "evolves d d3" using ev.le_trans [OF drafted_evolves put_chunk_evolves] by simp
  moreover have "evolves d3 d'" using c by (auto split: sum.splits intro: update_manifest_evolves)
  ultimately show ?thesis by (rule ev.le_trans)
qed

lemma place_chunk_evolves: "place_chunk env now w ds doc rid ch pre d = Inr d' \<Longrightarrow> evolves d d'"
  by (erule place_chunk_steps)
    (metis ev.le_trans drafted_evolves put_chunk_evolves update_manifest_evolves)

lemma enqueue_write_evolves: "enqueue_write env now pol did qid w meta ds doc rid ch d = Inr (a, d') \<Longrightarrow> evolves d d'"
  by (erule enqueue_write_steps) (use ev.le_trans [OF enqueue_log_evolves insert_ledger_evolves] in simp)

lemma admit_evolves: "admit_memory env now uu pol did qid w c = Inr (out, c') \<Longrightarrow> evolves (core c) (core c')"
proof (erule admit_memory_cases)
  fix ws ds meta a c1
  assume new: "admit_new env now uu pol did qid w meta ds (key_reserved w ds c) = Inr (a, c1)" and c': "c' = key_settled w ds a c1"
  have "evolves (core (key_reserved w ds c)) (core c1)"
    by (rule admit_new_steps [OF new]) (auto dest!: only_names_fields(1) place_chunk_evolves enqueue_write_evolves intro: ev.le_trans)
  then show "evolves (core c) (core c')" by (simp add: c' key_reserved_def key_settled_def complete_key_def split: if_splits)
qed simp

lemma kept_evolves: "(\<And>r c'. res = Inr (r, c') \<Longrightarrow> evolves (core c) (core c')) \<Longrightarrow> evolves (core c) (core (kept c res))"
  by (cases res) (auto simp: kept_def)

lemma catalog_call_evolves:
  assumes "\<And>f. x \<noteq> Ledger f" shows "evolves (core c) (core (after_catalog_call env c x))"
proof (cases x)
  case (Create_Workspace uu t y n)
  then show ?thesis by (auto intro!: kept_evolves elim!: create_workspace_steps dest!: only_names_fields(1))
next
  case (Ensure_Scope uu t y z n m)
  then show ?thesis by (auto intro!: kept_evolves elim!: ensure_scope_steps dest!: only_names_fields(1))
next
  case (Create_Document uu t y z title ref)
  have "evolves d (insert_document r d)" for r d by (rule evolves_frame) (simp_all add: insert_document_def)
  then show ?thesis using Create_Document by (auto intro!: kept_evolves elim!: create_document_steps dest!: only_names_fields(1))
next
  case (Create_Revision uu t y z v n h pred)
  then show ?thesis by (auto intro!: kept_evolves elim!: create_revision_steps dest!: only_names_fields(1) create_revision_evolves)
next
  case (Create_Chunk now uu w)
  then show ?thesis by (auto intro!: kept_evolves elim!: create_chunk_steps dest!: only_names_fields(1) chunk_tx_evolves)
next
  case (Create_Session u t y zs agent who sid)
  then show ?thesis by (auto intro!: kept_evolves simp: create_session_def bindE_Inr_iff Let_def split: if_splits)
next
  case (End_Session i)
  then show ?thesis by (simp add: end_session_def)
next
  case (Admit now uu pol did qid w)
  then show ?thesis by (simp add: kept_evolves admit_evolves)
next
  case (Ledger f)
  then show ?thesis using assms by simp
qed

subsection \<open>The store\<close>

text \<open>
  Every transaction of the model that writes runs, events or mutations, and any transaction on other tables. The
  operations of the lifecycle are those of \<open>Steps\<close>; a call of the catalog that only runs an operation of another
  component is that operation.
\<close>

inductive store_step :: "db \<Rightarrow> db \<Rightarrow> bool" where
  Lifecycle: "lifecycle_step d d' \<Longrightarrow> store_step d d'"
| Reopening: "reopen_step d d' \<Longrightarrow> store_step d d'"
| Log_Admitted: "admit_raw_log jl sec now did qid pol tenant agent p d = Inr (a, d') \<Longrightarrow> store_step d d'"
| Log_Dispatched: "dispatch_raw_log now did qid pol w agent i d = Inr (j, d') \<Longrightarrow> store_step d d'"
| Dispatch_Claimed: "claim_dispatch now tok w n secs d = Inr (qs, d') \<Longrightarrow> store_step d d'"
| Dispatch_Completed: "complete_dispatch now qid w tok outcome verified d = Inr (ok, d') \<Longrightarrow> store_step d d'"
| Agent_Purged: "purge_tx pc i key agent scope session who w = Inr (r, w') \<Longrightarrow> pw_db w = d \<Longrightarrow> pw_db w' = d' \<Longrightarrow> store_step d d'"
| Catalog_Called: "\<forall>f. x \<noteq> Ledger f \<Longrightarrow> core c = d \<Longrightarrow> core (after_catalog_call env c x) = d' \<Longrightarrow> store_step d d'"
| Other_Tables: "runs d' = runs d \<Longrightarrow> events d' = events d \<Longrightarrow> muts d' = muts d \<Longrightarrow> store_step d d'"

lemma store_step_tracks: "store_step d d' \<Longrightarrow> tracks d d'"
proof (induction rule: store_step.induct)
  case (Lifecycle d d')
  then show ?case by (rule evolves_tracks [OF lifecycle_step_evolves])
next
  case (Reopening d d')
  then show ?case by (rule reopen_tracks)
next
  case (Log_Admitted jl sec now did qid pol tenant agent p d a d')
  then show ?case by (rule evolves_tracks [OF admit_raw_log_evolves])
next
  case (Log_Dispatched now did qid pol w agent i d j d')
  then show ?case by (rule evolves_tracks [OF dispatch_raw_log_evolves])
next
  case (Dispatch_Claimed now tok w n secs d qs d')
  then show ?case by (rule evolves_tracks [OF claim_dispatch_evolves])
next
  case (Dispatch_Completed now qid w tok outcome verified d ok d')
  then show ?case by (rule evolves_tracks [OF complete_dispatch_evolves])
next
  case (Agent_Purged pc i key agent scope session who w r w' d d')
  then show ?case using evolves_tracks [OF purge_tx_evolves] by blast
next
  case (Catalog_Called x c d env d')
  then show ?case using evolves_tracks [OF catalog_call_evolves] by blast
next
  case (Other_Tables d' d)
  then show ?case by (intro evolves_tracks evolves_frame)
qed

text \<open>
  C1. The event log is the history of every run: in any database that the transactions of any number of workers
  (lifecycle, projection, rollback, cleanup, compensation, dispatch, purge, catalog) can reach from the empty one, the
  events of a run, read in order from its admission, are legal transitions, each from the state the one before ended
  in, up to the state the run is in; the only change without an event is the reopening of a rolled back run for
  cleanup, from \<open>ROLLED_BACK\<close> to \<open>ROLLING_BACK\<close>.
\<close>

theorem run_history_replays:
  "store_step\<^sup>*\<^sup>* empty_db d \<Longrightarrow> retraces None (trace d r) (run_state_of d r)"
proof -
  assume "store_step\<^sup>*\<^sup>* empty_db d"
  then have "tracks empty_db d" by (rule tracking.le_rtranclp [rotated]) (rule store_step_tracks)
  then obtain new where "trace d r = trace empty_db r @ new" "retraces (run_state_of empty_db r) new (run_state_of d r)"
    using ledger_ok_empty by (auto simp: tracks_def)
  moreover have "trace empty_db r = []" "run_state_of empty_db r = None"
    by (simp_all add: trace_def run_state_of_def run_of_def empty_db_def)
  ultimately show ?thesis by simp
qed

theorem run_history_replays_witness:
  "retraces None (trace rejected_db ''r'') (run_state_of rejected_db ''r'')
    \<and> run_state_of rejected_db ''r'' = Some P_DLQ"
proof -
  have "store_step\<^sup>*\<^sup>* empty_db rejected_db"
    by (rule mono_rtranclp [rule_format, OF _ rejected_reachable]) (rule Lifecycle)
  then show ?thesis using run_history_replays rejected_db_step(3) by blast
qed

end
