(* ===== verification/Spec2Isabelle.thy ===== *)
theory Spec2Isabelle imports Revision_Properties Rollback_Properties Dispatch_Properties
  Session_Properties Vector_Log_Properties Chunking_Properties Bounded_Cache_Properties Gateway_Properties
  Supervision_Properties Fusion_Properties Cutover_Properties
  Purge_Properties Access_Properties Keys_Properties Context_Properties
  Entities_Properties Admission_Properties Dead_Letter_Properties Consolidation_Properties Ledger_History begin

text \<open>
  A model of the core of MESA, a memory store for agents, with the theorems that make it correct.

  \<^bold>\<open>The program.\<close> A client delivers documents and raw logs over HTTP (\<open>mesa_api\<close>, \<open>mesa_client\<close>) or
  over MCP through a gateway (\<open>mesa_mcp\<close>). \<open>MemoryDAO\<close> (\<open>mesa_storage/dao.py\<close>) keeps a ledger in
  SQLite: a pipeline run owns memory mutations, each mutation has one outbox row per projection lane
  (SQL, VECTOR, GRAPH), workers (\<open>mesa_workers\<close>) claim those rows under a lease, write the vector and
  graph stores and report back, and a commit activates the document revision and its supersession
  links. Rollback, cleanup and purge undo it. Raw logs go through a dispatch queue with bounded
  capacity and end with the finalization of their session; vector writes go through a write-ahead log
  that is reconciled with what the stores contain. Around this core stand the slicing of documents
  (\<open>mesa_memory/document_chunking.py\<close>), the fusion of rankings and the expansion of queries
  (\<open>mesa_storage/retrieval_scope.py\<close>, \<open>mesa_memory/retrieval/adaptive.py\<close>), and the gateway's policy,
  approvals, caches, locks and circuit breaker.

  \<^bold>\<open>Theories and code.\<close>
  \<^item> \<open>Prelude\<close>: tables, \<open>UPDATE .. WHERE\<close> (\<open>upd\<close>), exceptions as sums, transactions (\<open>run_tx\<close>), the locale
    \<open>handler_frame\<close> of preorders that handlers respect.
  \<^item> \<open>Store\<close>: the rows of the ledger and the database record. \<open>Lifecycle\<close>: \<open>_transition_pipeline_run_in_tx\<close>
    to \<open>_purge_mutations_in_tx\<close>. \<open>History\<close>: what those may do to a database, \<open>Lifecycle_Facts\<close> and
    \<open>Work_Facts\<close>: their effect on the states they read.
  \<^item> \<open>Revisions\<close>: \<open>create_v4_revision\<close>, the manifest, the undo of an activation. \<open>Ledger\<close>:
    \<open>record_mutation\<close>, \<open>record_mutation_extraction\<close>, \<open>record_mutation_artifact\<close>, \<open>set_mutation_state\<close>.
  \<^item> \<open>Leases\<close>: the claim protocol as a locale, interpreted by every queue. \<open>Projection\<close>: the projection
    outbox. \<open>Rollback\<close>: rollback, replay, cleanup, document purge. \<open>Steps\<close>: the step relation of all of
    these. \<open>Lane_Facts\<close>: what may happen to a lane while a claim holds it. \<open>Ledger_History\<close>: the step relation
    of the whole store, with the compensation of late writes, the dispatch queue, the purge of an agent and the
    catalog, and the history of the runs in its reachable databases.
  \<^item> \<open>Dispatch\<close>: \<open>admit_raw_log\<close> and the dispatch queue. \<open>Sessions\<close>: raw-log claims and
    \<open>process_session_finalization\<close>. \<open>Vector_Log\<close>: \<open>claim_lancedb_wal_entries\<close> to \<open>replay_lancedb_wal\<close>.
  \<^item> \<open>Chunking\<close>: \<open>chunk_document\<close> and \<open>chunk_legal_document\<close>. \<open>Fusion\<close>: \<open>rrf_fuse_lanes\<close>,
    \<open>BoundedQueryPlanner\<close>, \<open>BoundedAdaptiveQueryRetriever\<close>. \<open>Bounded_Cache\<close>: \<open>mesa_mcp/bounded_cache.py\<close>.
    \<open>Supervision\<close>: \<open>CircuitBreaker\<close> and \<open>WorkerSupervisor\<close>. \<open>Gateway\<close>: \<open>PolicyEngine\<close>,
    \<open>OperationApprovalService\<close> and the operation ledger of \<open>GatewayOperationService\<close>.
  \<^item> \<open>Rebuild\<close>: \<open>OperationRepository\<close> (\<open>mesa_storage/repositories/operations.py\<close>), a state machine under a
    lease and a fence. \<open>Generations\<close>: \<open>ProjectionGenerationRepository\<close>
    (\<open>mesa_storage/projection_generations.py\<close>) and the step relation of both. \<open>Cutover\<close>:
    \<open>ParityGatedActivator\<close> (\<open>mesa_storage/rebuild_cutover.py\<close>).
  \<^item> \<open>Purge\<close>: the purge saga of the legacy memory (\<open>purge_memory\<close>, \<open>resume_purge\<close>, \<open>rollback_purge\<close>), whose
    tasks interleave at every await. \<open>Access\<close>: \<open>AccessControl\<close> (\<open>mesa_memory/security/rbac.py\<close>).
    \<open>Keys\<close>: \<open>APIKeyStore\<close> (\<open>mesa_memory/security/api_keys.py\<close>) and the locale \<open>registry\<close> that both
    credential stores interpret. \<open>Credentials\<close>: \<open>ClientRepository\<close> and \<open>CredentialRepository\<close>
    (\<open>mesa_storage/control\<close>). \<open>Context\<close>: \<open>ContextBuilder\<close> (\<open>mesa_memory/context_builder.py\<close>) and
    \<open>render_untrusted_memory\<close>. \<open>Entities\<close>: \<open>resolve_v4_entity\<close> with its redirects and merges, retraction and
    cleanup of entities.
  \<^item> \<open>Catalog\<close>: \<open>CatalogRepository\<close> (\<open>mesa_storage/repositories/catalog.py\<close>), \<open>create_v4_document\<close>,
    \<open>create_v4_revision\<close>, \<open>create_v4_source_chunk\<close> and the sessions. \<open>Admission\<close>: \<open>admit_v4_memory\<close>.
    \<open>Catalog_Facts\<close>: the calls on a catalog and what they do to identifiers.
  \<^item> \<open>Consolidation\<close>: the validators, policies and router of \<open>mesa_memory/consolidation\<close> and
    \<open>ConsolidationLoop.run_batch\<close>, which asks the models, records extractions in the ledger and puts off what fails.
    \<open>Dead_Letter\<close>: \<open>PersistentQueue\<close>, where that goes, and a round of \<open>start_dlq_worker\<close>.

  A theory \<open>X_Properties\<close> (and \<open>Work_Properties\<close>, \<open>Recovery_Properties\<close>) holds the properties of the
  theories it imports; a property carries a number C\<open>n\<close> and is followed by a witness that applies it to
  a concrete state.

  \<^bold>\<open>Conventions.\<close> A row is a record, a table the list of its rows in rowid order, so an unordered
  \<open>SELECT\<close> reads in rowid order. An identifier computed by \<open>uuid5\<close> is the name it hashes; those of
  \<open>uuid4\<close>, claim tokens and clock readings are arguments. Times are integers. An exception is the left
  side of a sum and rolls its transaction back; a function called inside a transaction returns the new
  database. An operation of one transaction is one step, so steps interleave as transactions do.
  The physical deletes of the stores, what the stores contain, the JSON length of a value, the secret
  patterns, the tokenizer, Unicode tables, text normalisation, the legal regular expressions, hashes,
  ciphers and the answers of the memory service are parameters. What a property needs of one is a
  hypothesis: \<open>small_characters\<close> says that the tokenizer never gives one character more than 512 tokens.

  \<^bold>\<open>What the lemmas show.\<close>
  \<^item> Lifecycle: every event history replays through the transition tables, terminal states absorb, the
    run follows the aggregate of its mutations, a document has one active head.
  \<^item> Queues: claims are exclusive while a lease runs, in order and only of free rows; a stale holder is
    refused; retry budgets are spent one by one; a replayed log entry is acknowledged only when the
    stores were seen to hold it.
  \<^item> Undo: a rollback spares artifacts with another owner and ends only when every cleanup has; a purged
    document accepts no write.
    A FINALIZED purge has emptied both stores of its targets and of nothing else, and a purge left alone
    finishes.
  \<^item> Access: a role check is the last role given at the tenant, workspace or dataset; an agent has the
    highest level granted since the last revocation; a key or a token opens what it was issued for until it
    expires or is retired, and nothing that was not handed out opens anything.
  \<^item> Context: the packing stays in its budget, accounts for every candidate, never cuts a proof or a fact,
    and evidence cannot forge the boundary around it.
  \<^item> Entities: a resolution unites its names under one live row, names once united stay united, a repeated
    resolution changes nothing; a retracted entity is never active again.
  \<^item> Catalog: an external identifier keeps its physical one, whose rows belong to the tenant; a frozen manifest is
    final. An admitted write has all of its rows, within every limit of the policy, is admitted once for each
    idempotency key, and no key is left in progress. The operations of other components that run between catalog calls
    are arbitrary functions on the ledger (\<open>Ledger\<close>), restricted where a property needs it.
  \<^item> Consolidation: a batch answers every item once, accepts and rejects only on the votes the policy asks for, and
    asks the models a bounded number of times. A dead letter is never lost without a receipt, is held by one worker at a
    time, and a crash between its receipt and its removal is repaired by the next claim. A round of the dead-letter worker
    settles its claims unless an exception ends it, which leaves them leased.
  \<^item> Queue admission: capacity is never exceeded, a second delivery is recognised, no reserved metadata enters.
  \<^item> Text and ranking: slicing ends, is lossless and within its bounds; the optimised sentence test and
    the fusion equal their references; query expansion is bounded.
  \<^item> Gateway: no write is sent without a policy or an approval, under any interleaving and crash; the
    cache refines an expiring map and keeps what was used recently; keyed locks exclude; restarts are
    bounded.
  \<^item> Rebuild: one generation is active, the pointer moves only for the holder of a live lease after a full replay, an
    activator completes only at a verified generation, also when it resumes a cutover another run began, a stale runner
    is refused for good, the event log tells each row.
  \<^item> Theorems on behaviour that looks unintended name it: a completion of a stale worker that deletes, a
    replay that strands committed mutations, a log entry or an operation that nothing takes up again, a
    rejected operation that becomes pending again, a circuit breaker that never closes.

  \<^bold>\<open>Termination.\<close> Loops over rows are folds. The loops of the chunker that might not end are
  \<open>partial_function (option)\<close>, whose \<open>None\<close> is divergence; \<open>chunk_document_lossless\<close> shows that they end. No fuel is used.

  \<^bold>\<open>Not modelled.\<close> The parity reconciliations, the search lanes, the graph and vector
  engines, backup, replay and recovery of a rebuild, prompts and
  parsers around the language models, whose answers are parameters of \<open>Consolidation\<close>,
  HTTP handlers, clients, command lines, configuration, metrics, migrations and evaluation are I/O or
  calls of libraries around the modelled decisions; of a rebuild's verifier only the verdict is. Of the purge of the legacy memory, the writers that
  interleave with it write all three stores at once; the staging of an insert and the replay of the vector log
  between its steps are not interleaved. Scores are rationals rounded to the nearest double after each operation, with
  one infinity; the text of most error messages is left out.
\<close>

end
